(* ===== verification/Ksu_Prelude.thy ===== *)
theory Ksu_Prelude
  imports Main "HOL-Library.Word"
begin

unbundle bit_operations_syntax

text \<open>
  The vocabulary the components share: the C integer types as words, the errno values as a
  datatype, C strings held in fixed-size char arrays, and the little-endian object
  representation of integers (the kernel targets arm64 and x86_64, both little-endian).
  The collections \<open>bytes_simps\<close> and \<open>cstr_simps\<close> hold the rewrite rules the component
  proofs use.
\<close>

named_theorems bytes_simps
named_theorems cstr_simps

section \<open>Integer types and error numbers\<close>

type_synonym u8 = "8 word"
type_synonym u16 = "16 word"
type_synonym u32 = "32 word"
type_synonym u64 = "64 word"

text \<open>
  A signed C integer is kept as its two's complement word; \<open>sint\<close> reads its value.
  \<open>uid_t\<close> is unsigned, and a \<open>__s32\<close> field compared with it is converted without
  changing the bits.
\<close>

type_synonym s32 = u32
type_synonym uid = u32
type_synonym bytes = "u8 list"

datatype errno =
    EPERM | ENOENT | ESRCH | EINTR | EIO | E2BIG | EAGAIN | ENOMEM | EACCES | EFAULT | EBUSY | EEXIST | EINVAL
  | ENOTTY | ENOSPC | EPIPE | ENAMETOOLONG | EMSGSIZE | EOPNOTSUPP | ERESTARTSYS
  | ENOSYS | ERESTARTNOHAND | ENODEV | EBADF | ERANGE | EALREADY

primrec errno_val :: "errno \<Rightarrow> int" where
  "errno_val EPERM = 1"
| "errno_val ENOENT = 2"
| "errno_val ESRCH = 3"
| "errno_val EINTR = 4"
| "errno_val EIO = 5"
| "errno_val E2BIG = 7"
| "errno_val EAGAIN = 11"
| "errno_val ENOMEM = 12"
| "errno_val EACCES = 13"
| "errno_val EFAULT = 14"
| "errno_val EBUSY = 16"
| "errno_val EEXIST = 17"
| "errno_val EINVAL = 22"
| "errno_val ENOTTY = 25"
| "errno_val ENOSPC = 28"
| "errno_val EPIPE = 32"
| "errno_val ENAMETOOLONG = 36"
| "errno_val EMSGSIZE = 90"
| "errno_val EOPNOTSUPP = 95"
| "errno_val ERESTARTSYS = 512"
| "errno_val ENOSYS = 38"
| "errno_val ERESTARTNOHAND = 514"
| "errno_val ENODEV = 19"
| "errno_val EBADF = 9"
| "errno_val ERANGE = 34"
| "errno_val EALREADY = 114"

text \<open>The value a C function returns for an error: \<open>-EPERM\<close> and so on.\<close>

definition neg_errno :: "errno \<Rightarrow> int" where
  "neg_errno e = - errno_val e"

lemma neg_errno_neg [simp]: "neg_errno e < 0"
  by (cases e) (simp_all add: neg_errno_def)

lemma neg_errno_nz [simp]: "neg_errno e \<noteq> 0"
  using neg_errno_neg [of e] by linarith

lemma neg_errno_not_ge [simp]: "\<not> 0 \<le> neg_errno e" "\<not> 0 < neg_errno e"
  using neg_errno_neg [of e] by linarith+

lemma neg_errno_inj [simp]: "neg_errno e = neg_errno e' \<longleftrightarrow> e = e'"
  by (cases e; cases e') (simp_all add: neg_errno_def)

instantiation errno :: linorder
begin

definition less_eq_errno :: "errno \<Rightarrow> errno \<Rightarrow> bool" where
  "less_eq_errno a b \<longleftrightarrow> errno_val a \<le> errno_val b"

definition less_errno :: "errno \<Rightarrow> errno \<Rightarrow> bool" where
  "less_errno a b \<longleftrightarrow> errno_val a < errno_val b"

instance
proof
  fix a b :: errno
  assume "a \<le> b" "b \<le> a"
  then have "neg_errno a = neg_errno b" by (simp add: less_eq_errno_def neg_errno_def)
  then show "a = b" by simp
qed (auto simp: less_eq_errno_def less_errno_def)

end

lemma unat_bound: "unat (w :: 'a::len word) < 2 ^ LENGTH('a)"
  by (rule unsigned_less)

lemma option_eqI:
  assumes "\<And>v. x = Some v \<longleftrightarrow> y = Some v"
  shows "x = y"
  using assms [of "the x"] assms [of "the y"] by (cases x; cases y) simp_all

lemma ex_fun_upd: "(\<exists>b. P ((f(k := v)) b)) \<longleftrightarrow> P v \<or> (\<exists>b. b \<noteq> k \<and> P (f b))"
  unfolding fun_upd_apply by (metis (full_types))

lemma u16_inc:
  assumes "(c :: u16) \<noteq> 0xFFFF"
  shows "unat (c + 1) = unat c + 1"
proof -
  have "unat c \<noteq> unat (0xFFFF :: u16)"
    using assms by (simp only: word_unat_eq_iff not_False_eq_True)
  then have "unat c + 1 < 65536" using unat_bound [of c] by simp
  then show ?thesis by (simp add: unat_word_ariths)
qed

lemma u16_dec:
  assumes "0 < unat (c :: u16)"
  shows "unat (c - 1) = unat c - 1"
proof -
  have "(1 :: u16) \<le> c" using assms by (simp add: word_le_nat_alt)
  then show ?thesis by (simp add: unat_sub)
qed

section \<open>C strings\<close>

definition lit :: "string \<Rightarrow> bytes" where
  "lit s = map of_char s"

text \<open>The characters of the string that starts an array: those before the first NUL.\<close>

definition c_str :: "bytes \<Rightarrow> bytes" where
  "c_str a = takeWhile (\<lambda>b. b \<noteq> 0) a"

definition strnlen :: "bytes \<Rightarrow> nat \<Rightarrow> nat" where
  "strnlen a n = length (c_str (take n a))"

definition str_eq :: "bytes \<Rightarrow> bytes \<Rightarrow> bool" where
  "str_eq a b \<longleftrightarrow> c_str a = c_str b"

definition strn_eq :: "nat \<Rightarrow> bytes \<Rightarrow> bytes \<Rightarrow> bool" where
  "strn_eq n a b \<longleftrightarrow> take n (c_str a) = take n (c_str b)"

text \<open>\<open>strscpy_pad\<close>: the string, cut to leave room for a NUL, and zeros to the end.\<close>

definition strscpy_pad :: "bytes \<Rightarrow> nat \<Rightarrow> bytes" where
  "strscpy_pad s n = (let t = take (n - 1) (c_str s) in t @ replicate (n - length t) 0)"

lemma c_str_Nil [simp, cstr_simps]: "c_str [] = []"
  by (simp add: c_str_def)

lemma c_str_Cons [cstr_simps]: "c_str (b # bs) = (if b = 0 then [] else b # c_str bs)"
  by (simp add: c_str_def)

lemma c_str_no_nul: "0 \<notin> set (c_str a)"
  by (auto simp: c_str_def dest: set_takeWhileD)

lemma c_str_ident: "0 \<notin> set s \<Longrightarrow> c_str s = s"
  by (auto simp: c_str_def takeWhile_eq_all_conv)

lemma c_str_c_str [simp]: "c_str (c_str a) = c_str a"
  by (simp add: c_str_ident c_str_no_nul)

lemma c_str_append_nul [cstr_simps]: "0 \<notin> set s \<Longrightarrow> c_str (s @ 0 # t) = s"
  by (induction s) (auto simp: c_str_def)

lemma c_str_append_zeros: "0 \<notin> set s \<Longrightarrow> 0 < n \<Longrightarrow> c_str (s @ replicate n 0) = s"
  by (cases n) (simp_all add: c_str_append_nul)

lemma length_c_str: "length (c_str a) \<le> length a"
  by (simp add: c_str_def length_takeWhile_le)

lemma length_strscpy_pad: "0 < n \<Longrightarrow> length (strscpy_pad s n) = n"
  by (simp add: strscpy_pad_def Let_def)

lemma c_str_strscpy_pad: "0 < n \<Longrightarrow> c_str (strscpy_pad s n) = take (n - 1) (c_str s)"
proof -
  assume n: "0 < n"
  have "0 \<notin> set (take (n - 1) (c_str s))"
    using c_str_no_nul [of s] by (auto dest: in_set_takeD)
  then show ?thesis
    using n by (simp add: strscpy_pad_def Let_def c_str_append_zeros)
qed

lemma strnlen_le: "strnlen a n \<le> n"
  using length_c_str [of "take n a"] by (simp add: strnlen_def)

lemma c_str_take: "strnlen a n < n \<Longrightarrow> c_str (take n a) = c_str a"
  by (induction a arbitrary: n) (auto simp: strnlen_def cstr_simps take_Cons' split: if_splits)

lemma strnlen_full: "length a = n \<Longrightarrow> strnlen a n = length (c_str a)"
  by (simp add: strnlen_def)

lemma strn_eq_full:
  "length (c_str a) \<le> n \<Longrightarrow> length (c_str b) \<le> n \<Longrightarrow> strn_eq n a b \<longleftrightarrow> c_str a = c_str b"
  by (simp add: strn_eq_def)

section \<open>Object representation of integers\<close>

primrec le_enc :: "nat \<Rightarrow> nat \<Rightarrow> bytes" where
  "le_enc 0 v = []"
| "le_enc (Suc n) v = of_nat (v mod 256) # le_enc n (v div 256)"

primrec le_dec :: "bytes \<Rightarrow> nat" where
  "le_dec [] = 0"
| "le_dec (b # bs) = unat b + 256 * le_dec bs"

lemma length_le_enc [simp]: "length (le_enc n v) = n"
  by (induction n arbitrary: v) auto

lemma le_dec_bound: "le_dec bs < 256 ^ length bs"
proof (induction bs)
  case (Cons b bs)
  have "unat b < 256" using unat_bound [of b] by simp
  then show ?case using Cons by simp
qed simp

lemma le_dec_enc [bytes_simps]: "v < 256 ^ n \<Longrightarrow> le_dec (le_enc n v) = v"
proof (induction n arbitrary: v)
  case (Suc n)
  have "unat (of_nat (v mod 256) :: u8) = v mod 256"
    by (simp add: unat_of_nat)
  moreover have "v div 256 < 256 ^ n"
    using Suc.prems by (simp add: less_mult_imp_div_less mult.commute)
  ultimately show ?case using Suc.IH by simp
qed simp

lemma le_enc_dec: "le_enc (length bs) (le_dec bs) = bs"
proof (induction bs)
  case (Cons b bs)
  have b: "unat b < 256" using unat_bound [of b] by simp
  then have "(unat b + 256 * le_dec bs) mod 256 = unat b" by simp
  moreover have "(unat b + 256 * le_dec bs) div 256 = le_dec bs" using b by simp
  ultimately show ?case using Cons by simp
qed simp

text \<open>The \<open>n\<close> bytes at an offset of an image, and the integers read and written there.\<close>

definition slice :: "nat \<Rightarrow> nat \<Rightarrow> bytes \<Rightarrow> bytes" where
  "slice off n bs = take n (drop off bs)"

definition le32 :: "u32 \<Rightarrow> bytes" where
  "le32 w = le_enc 4 (unat w)"

definition le64 :: "u64 \<Rightarrow> bytes" where
  "le64 w = le_enc 8 (unat w)"

definition get16 :: "nat \<Rightarrow> bytes \<Rightarrow> u16" where
  "get16 off bs = of_nat (le_dec (slice off 2 bs))"

definition get32 :: "nat \<Rightarrow> bytes \<Rightarrow> u32" where
  "get32 off bs = of_nat (le_dec (slice off 4 bs))"

definition get64 :: "nat \<Rightarrow> bytes \<Rightarrow> u64" where
  "get64 off bs = of_nat (le_dec (slice off 8 bs))"

lemma length_le32 [simp, bytes_simps]: "length (le32 w) = 4"
  by (simp add: le32_def)

lemma length_le64 [simp, bytes_simps]: "length (le64 w) = 8"
  by (simp add: le64_def)

lemma dec_le32 [simp, bytes_simps]: "(of_nat (le_dec (le32 w)) :: u32) = w"
  using unat_bound [of w] by (simp add: le32_def le_dec_enc)

lemma dec_le64 [simp, bytes_simps]: "(of_nat (le_dec (le64 w)) :: u64) = w"
  using unat_bound [of w] by (simp add: le64_def le_dec_enc)

lemma slice_at [bytes_simps]: "length p = off \<Longrightarrow> length x = n \<Longrightarrow> slice off n (p @ x @ q) = x"
  by (simp add: slice_def)

lemma slice_skip [bytes_simps]:
  "length p \<le> off \<Longrightarrow> slice off n (p @ q) = slice (off - length p) n q"
  by (simp add: slice_def)

lemma slice_0_append [bytes_simps]: "length x = n \<Longrightarrow> slice 0 n (x @ q) = x"
  by (simp add: slice_def)

lemma slice_0_all [bytes_simps]: "length x = n \<Longrightarrow> slice 0 n x = x"
  by (simp add: slice_def)

lemma slice_Cons_skip [bytes_simps]: "0 < off \<Longrightarrow> slice off n (x # q) = slice (off - 1) n q"
  by (cases off) (simp_all add: slice_def)

lemma slice_0_Cons [bytes_simps]: "slice 0 (Suc n) (x # q) = x # slice 0 n q"
  by (simp add: slice_def)

lemma slice_0_0 [bytes_simps]: "slice off 0 q = []"
  by (simp add: slice_def)

lemma get32_le32 [bytes_simps]: "length p = off \<Longrightarrow> get32 off (p @ le32 w @ q) = w"
  by (simp add: get32_def slice_at)

lemma get64_le64 [bytes_simps]: "length p = off \<Longrightarrow> get64 off (p @ le64 w @ q) = w"
  by (simp add: get64_def slice_at)

text \<open>An array of 32-bit integers.\<close>

fun words32 :: "nat \<Rightarrow> bytes \<Rightarrow> u32 list" where
  "words32 0 bs = []"
| "words32 (Suc n) bs = of_nat (le_dec (take 4 bs)) # words32 n (drop 4 bs)"

lemma words32_enc [bytes_simps]: "length ws = n \<Longrightarrow> words32 n (concat (map le32 ws)) = ws"
  by (induction ws arbitrary: n) auto

lemma length_words32 [simp]: "length (words32 n bs) = n"
  by (induction n arbitrary: bs) auto

lemma length_concat_le32 [simp, bytes_simps]: "length (concat (map le32 ws)) = 4 * length ws"
  by (induction ws) auto

end
