(* ===== verification/App_Profile.thy ===== *)
theory App_Profile
  imports Ksu_Prelude
begin

text \<open>
  The profile structures of \<^verbatim>\<open>uapi/app_profile.h\<close>, their object representation as it is
  written to the allowlist file, and the two pure operations on a profile of
  \<^verbatim>\<open>kernel/policy/allowlist.c\<close>: \<open>profile_valid\<close> and \<open>migrate_profile\<close>.

  The C structure ends in a union of \<open>rp_config\<close> and \<open>nrp_config\<close>. The record keeps the
  larger member \<open>rp_config\<close>; \<open>nrp_config\<close> is a view of the same bytes: its
  \<open>use_default\<close> is byte 0 of the union, as in \<open>rp_config\<close>, and its
  \<open>profile.umount_modules\<close> is byte 1, where \<open>rp_config.template_name\<close> starts.
\<close>

section \<open>The structures\<close>

abbreviation (input) "KSU_APP_PROFILE_VER \<equiv> (4 :: u32)"
abbreviation (input) "KSU_MAX_PACKAGE_NAME \<equiv> (256 :: nat)"
abbreviation (input) "KSU_MAX_GROUPS \<equiv> (32 :: nat)"
abbreviation (input) "KSU_SELINUX_DOMAIN \<equiv> (64 :: nat)"
abbreviation (input) "FLAG_KSU_NO_NEW_PRIVS \<equiv> (1 :: u64)"
abbreviation (input) "KSU_APP_PROFILE_PRESERVE_UID \<equiv> (9999 :: uid)"

definition KSU_DEFAULT_SELINUX_DOMAIN :: bytes where
  "KSU_DEFAULT_SELINUX_DOMAIN = lit ''u:r:ksu:s0''"

record root_profile =
  rp_uid :: s32
  rp_gid :: s32
  rp_groups_count :: u32
  rp_groups :: "s32 list"
  rp_cap_effective :: u64
  rp_cap_permitted :: u64
  rp_cap_inheritable :: u64
  rp_selinux_domain :: bytes
  rp_namespaces :: s32
  rp_flags :: u64

record app_profile =
  ap_version :: u32
  ap_key :: bytes
  ap_curr_uid :: uid
  ap_allow_su :: bool
  ap_use_default :: bool
  ap_template_name :: bytes
  ap_root :: root_profile

text \<open>The view of the union through \<open>nrp_config\<close>.\<close>

definition nrp_use_default :: "app_profile \<Rightarrow> bool" where
  "nrp_use_default p = ap_use_default p"

definition nrp_umount_modules :: "app_profile \<Rightarrow> bool" where
  "nrp_umount_modules p = (ap_template_name p ! 0 \<noteq> 0)"

definition set_nrp :: "bool \<Rightarrow> bool \<Rightarrow> app_profile \<Rightarrow> app_profile" where
  "set_nrp dflt umount p =
     p\<lparr>ap_use_default := dflt, ap_template_name := (ap_template_name p)[0 := of_bool umount]\<rparr>"

text \<open>The arrays of the C structures have fixed sizes; every record below keeps them.\<close>

definition wf_root_profile :: "root_profile \<Rightarrow> bool" where
  "wf_root_profile r \<longleftrightarrow>
     length (rp_groups r) = KSU_MAX_GROUPS \<and> length (rp_selinux_domain r) = KSU_SELINUX_DOMAIN"

definition wf_profile :: "app_profile \<Rightarrow> bool" where
  "wf_profile p \<longleftrightarrow>
     length (ap_key p) = KSU_MAX_PACKAGE_NAME \<and>
     length (ap_template_name p) = KSU_MAX_PACKAGE_NAME \<and> wf_root_profile (ap_root p)"

definition zero_root_profile :: root_profile where
  "zero_root_profile =
     \<lparr>rp_uid = 0, rp_gid = 0, rp_groups_count = 0, rp_groups = replicate KSU_MAX_GROUPS 0,
      rp_cap_effective = 0, rp_cap_permitted = 0, rp_cap_inheritable = 0,
      rp_selinux_domain = replicate KSU_SELINUX_DOMAIN 0, rp_namespaces = 0, rp_flags = 0\<rparr>"

lemma wf_zero_root_profile [simp]: "wf_root_profile zero_root_profile"
  by (simp add: wf_root_profile_def zero_root_profile_def)

lemma nrp_umount_set_nrp [simp]:
  "wf_profile p \<Longrightarrow> nrp_umount_modules (set_nrp d u p) = u"
  by (cases "ap_template_name p") (auto simp: nrp_umount_modules_def set_nrp_def wf_profile_def)

lemma wf_set_nrp [simp]: "wf_profile (set_nrp d u p) = wf_profile p"
  by (simp add: wf_profile_def set_nrp_def)

section \<open>Object representation\<close>

text \<open>
  The layout the C ABI of both targets gives: natural alignment, so seven bytes of padding
  follow \<open>allow_su\<close> and \<open>template_name\<close>, four follow \<open>groups\<close> and \<open>namespaces\<close>, and
  the structure has 784 bytes. Padding is written as zero. A \<open>bool\<close> is read as nonzero.
\<close>

abbreviation (input) "sizeof_app_profile \<equiv> (784 :: nat)"
abbreviation (input) "kAppProfileSizePreV4 \<equiv> (776 :: nat)"

definition root_image :: "root_profile \<Rightarrow> bytes" where
  "root_image r =
     le32 (rp_uid r) @ le32 (rp_gid r) @ le32 (rp_groups_count r) @
     concat (map le32 (rp_groups r)) @ replicate 4 0 @
     le64 (rp_cap_effective r) @ le64 (rp_cap_permitted r) @ le64 (rp_cap_inheritable r) @
     rp_selinux_domain r @ le32 (rp_namespaces r) @ replicate 4 0 @ le64 (rp_flags r)"

definition profile_image :: "app_profile \<Rightarrow> bytes" where
  "profile_image p =
     le32 (ap_version p) @ ap_key p @ le32 (ap_curr_uid p) @ [of_bool (ap_allow_su p)] @
     replicate 7 0 @ [of_bool (ap_use_default p)] @ ap_template_name p @ replicate 7 0 @
     root_image (ap_root p)"

definition root_of_image :: "bytes \<Rightarrow> root_profile" where
  "root_of_image bs =
     \<lparr>rp_uid = get32 0 bs, rp_gid = get32 4 bs, rp_groups_count = get32 8 bs,
      rp_groups = words32 KSU_MAX_GROUPS (drop 12 bs),
      rp_cap_effective = get64 144 bs, rp_cap_permitted = get64 152 bs,
      rp_cap_inheritable = get64 160 bs, rp_selinux_domain = slice 168 KSU_SELINUX_DOMAIN bs,
      rp_namespaces = get32 232 bs, rp_flags = get64 240 bs\<rparr>"

definition profile_of_image :: "bytes \<Rightarrow> app_profile" where
  "profile_of_image bs =
     \<lparr>ap_version = get32 0 bs, ap_key = slice 4 KSU_MAX_PACKAGE_NAME bs,
      ap_curr_uid = get32 260 bs, ap_allow_su = (slice 264 1 bs \<noteq> [0]),
      ap_use_default = (slice 272 1 bs \<noteq> [0]),
      ap_template_name = slice 273 KSU_MAX_PACKAGE_NAME bs,
      ap_root = root_of_image (drop 536 bs)\<rparr>"

lemma length_root_image: "wf_root_profile r \<Longrightarrow> length (root_image r) = 248"
  by (simp add: root_image_def wf_root_profile_def)

lemma length_profile_image: "wf_profile p \<Longrightarrow> length (profile_image p) = sizeof_app_profile"
  by (simp add: profile_image_def wf_profile_def length_root_image)

lemma words32_append: "length ws = n \<Longrightarrow> words32 n (concat (map le32 ws) @ rest) = ws"
  by (induction ws arbitrary: n) auto

lemma root_of_root_image:
  assumes "wf_root_profile r"
  shows "root_of_image (root_image r) = r"
proof -
  have len: "length (rp_groups r) = 32" "length (rp_selinux_domain r) = 64"
    using assms by (auto simp: wf_root_profile_def)
  have g: "words32 32 (drop 12 (root_image r)) = rp_groups r"
    by (simp add: root_image_def len words32_append)
  show ?thesis
    by (rule root_profile.equality)
      (use g in \<open>simp_all add: root_of_image_def root_image_def get32_def get64_def len bytes_simps\<close>)
qed

lemma profile_of_profile_image:
  assumes "wf_profile p"
  shows "profile_of_image (profile_image p) = p"
proof -
  have len: "length (ap_key p) = 256" "length (ap_template_name p) = 256"
    and r: "wf_root_profile (ap_root p)"
    using assms by (auto simp: wf_profile_def)
  have d: "drop 536 (profile_image p) = root_image (ap_root p)"
    by (simp add: profile_image_def len)
  show ?thesis
    by (rule app_profile.equality)
      (use d in \<open>simp_all add: profile_of_image_def profile_image_def get32_def len bytes_simps
         root_of_root_image [OF r]\<close>)
qed

lemma wf_profile_of_image:
  "sizeof_app_profile \<le> length bs \<Longrightarrow> wf_profile (profile_of_image bs)"
  by (simp add: wf_profile_def wf_root_profile_def profile_of_image_def root_of_image_def slice_def)

section \<open>Validation and migration\<close>

text \<open>
  \<open>profile_valid\<close>: the key must be NUL-terminated inside its array, the version current
  and, in a build with the policy engine (\<open>CONFIG_KSU_DISABLE_POLICY\<close> not set, \<open>np\<close>
  false), a root profile must have at most 32 groups and a terminated nonempty domain.
\<close>

definition profile_valid :: "bool \<Rightarrow> app_profile \<Rightarrow> bool" where
  "profile_valid np p =
     (if strnlen (ap_key p) KSU_MAX_PACKAGE_NAME \<ge> KSU_MAX_PACKAGE_NAME then False
      else if ap_version p \<noteq> KSU_APP_PROFILE_VER then False
      else if ap_allow_su p \<and> \<not> np then
        (if unat (rp_groups_count (ap_root p)) > KSU_MAX_GROUPS then False
         else let len = strnlen (rp_selinux_domain (ap_root p)) KSU_SELINUX_DOMAIN
           in \<not> (len = 0 \<or> len \<ge> KSU_SELINUX_DOMAIN))
      else True)"

text \<open>The in-place edit of a build without the policy engine.\<close>

definition reset_policy :: "app_profile \<Rightarrow> app_profile" where
  "reset_policy p =
     (if ap_allow_su p then
        p\<lparr>ap_use_default := True, ap_template_name := replicate KSU_MAX_PACKAGE_NAME 0,
          ap_root := zero_root_profile\<rparr>
      else set_nrp True False p)"

definition migrate_profile :: "u32 \<Rightarrow> app_profile \<Rightarrow> app_profile" where
  "migrate_profile v p =
     (let p1 = (if v = 2 \<and> ap_allow_su p \<and>
                   strn_eq KSU_SELINUX_DOMAIN (rp_selinux_domain (ap_root p)) (lit ''u:r:su:s0'')
                then p\<lparr>ap_root := (ap_root p)\<lparr>rp_selinux_domain :=
                         strscpy_pad KSU_DEFAULT_SELINUX_DOMAIN KSU_SELINUX_DOMAIN\<rparr>\<rparr>
                else p);
          p2 = (if (v = 2 \<or> v = 3) \<and> ap_allow_su p1
                then p1\<lparr>ap_root := (ap_root p1)\<lparr>rp_flags := FLAG_KSU_NO_NEW_PRIVS\<rparr>\<rparr>
                else p1)
      in p2\<lparr>ap_version := KSU_APP_PROFILE_VER\<rparr>)"

lemma wf_reset_policy [simp]: "wf_profile p \<Longrightarrow> wf_profile (reset_policy p)"
  by (auto simp: reset_policy_def wf_profile_def set_nrp_def)

lemma reset_policy_frame [simp]:
  "ap_curr_uid (reset_policy p) = ap_curr_uid p"
  "ap_allow_su (reset_policy p) = ap_allow_su p"
  "ap_key (reset_policy p) = ap_key p"
  "ap_version (reset_policy p) = ap_version p"
  by (simp_all add: reset_policy_def set_nrp_def)

lemma profile_valid_key: "profile_valid np p \<Longrightarrow> strnlen (ap_key p) 256 < 256"
  by (simp add: profile_valid_def Let_def split: if_splits)

lemma profile_valid_version: "profile_valid np p \<Longrightarrow> ap_version p = KSU_APP_PROFILE_VER"
  by (simp add: profile_valid_def Let_def split: if_splits)

lemma profile_valid_groups:
  "profile_valid False p \<Longrightarrow> ap_allow_su p \<Longrightarrow> unat (rp_groups_count (ap_root p)) \<le> KSU_MAX_GROUPS"
  by (auto simp: profile_valid_def split: if_splits)

lemma profile_valid_domain:
  "profile_valid False p \<Longrightarrow> ap_allow_su p \<Longrightarrow>
     0 < strnlen (rp_selinux_domain (ap_root p)) 64 \<and> strnlen (rp_selinux_domain (ap_root p)) 64 < 64"
  by (auto simp: profile_valid_def Let_def split: if_splits)

lemma profile_valid_reset: "profile_valid True p \<Longrightarrow> profile_valid True (reset_policy p)"
  by (simp add: profile_valid_def split: if_splits)

lemma migrate_profile_frame [simp]:
  "ap_curr_uid (migrate_profile v p) = ap_curr_uid p"
  "ap_key (migrate_profile v p) = ap_key p"
  "ap_allow_su (migrate_profile v p) = ap_allow_su p"
  "ap_use_default (migrate_profile v p) = ap_use_default p"
  "ap_template_name (migrate_profile v p) = ap_template_name p"
  "ap_version (migrate_profile v p) = KSU_APP_PROFILE_VER"
  by (simp_all add: migrate_profile_def Let_def)

lemma wf_migrate_profile [simp]: "wf_profile p \<Longrightarrow> wf_profile (migrate_profile v p)"
  by (auto simp: migrate_profile_def Let_def wf_profile_def wf_root_profile_def length_strscpy_pad)

lemma migrate_profile_current [simp]:
  "ap_version p = KSU_APP_PROFILE_VER \<Longrightarrow> migrate_profile KSU_APP_PROFILE_VER p = p"
  by (simp add: migrate_profile_def)

lemma migrate_old_flags:
  "v = 2 \<or> v = 3 \<Longrightarrow> ap_allow_su p \<Longrightarrow>
     rp_flags (ap_root (migrate_profile v p)) = FLAG_KSU_NO_NEW_PRIVS"
  by (auto simp: migrate_profile_def Let_def)

lemma default_domain_chars: "c_str KSU_DEFAULT_SELINUX_DOMAIN = KSU_DEFAULT_SELINUX_DOMAIN"
  by (simp add: KSU_DEFAULT_SELINUX_DOMAIN_def lit_def c_str_def)

lemma migrate_v2_domain:
  assumes "ap_allow_su p" "wf_profile p"
    and d: "rp_selinux_domain (ap_root (migrate_profile 2 p)) = d'"
  shows "c_str d' \<noteq> lit ''u:r:su:s0''"
proof (cases "strn_eq 64 (rp_selinux_domain (ap_root p)) (lit ''u:r:su:s0'')")
  case True
  then have "d' = strscpy_pad KSU_DEFAULT_SELINUX_DOMAIN 64"
    using d assms(1) by (simp add: migrate_profile_def)
  then have "c_str d' = take 63 KSU_DEFAULT_SELINUX_DOMAIN"
    by (simp add: c_str_strscpy_pad default_domain_chars)
  then show ?thesis
    by (simp add: KSU_DEFAULT_SELINUX_DOMAIN_def lit_def)
next
  case False
  then have "d' = rp_selinux_domain (ap_root p)"
    using d by (auto simp: migrate_profile_def Let_def)
  then show ?thesis
    using False by (auto simp: strn_eq_def lit_def c_str_def)
qed

end
