(* ===== verification/Manager_Identity.thy ===== *)
theory Manager_Identity
  imports Ksu_Prelude
begin

text \<open>
  The build configuration and the manager identity of
  \<^verbatim>\<open>kernel/manager/manager_identity.h\<close>, with the uid classes of
  \<^verbatim>\<open>kernel/policy/allowlist.h\<close>. A uid is an app id plus 100000 times the Android
  user; the manager is known by its app id alone, so it is the manager in every user.
\<close>

abbreviation (input) "KSU_INVALID_APPID \<equiv> (0xFFFFFFFF :: u32)"
abbreviation (input) "PER_USER_RANGE \<equiv> (100000 :: u32)"
abbreviation (input) "WEBVIEW_ZYGOTE_UID \<equiv> (1053 :: uid)"
abbreviation (input) "SHELL_UID \<equiv> (2000 :: uid)"
abbreviation (input) "SYSTEM_UID \<equiv> (1000 :: uid)"

text \<open>
  What the build and the module parameters fix: the two \<open>CONFIG_KSU_DISABLE_*\<close> options,
  the \<open>allow_shell\<close> flag, and the kernel's \<open>hash_min\<close> for an 8-bit table, which is not
  part of the repository and so stays a parameter with 256 possible values.
\<close>

record ksu_env =
  disable_policy :: bool
  disable_manager :: bool
  allow_shell :: bool
  uid_hash :: "uid \<Rightarrow> u8"

text \<open>
  The functions take the stored app id \<open>m\<close> (the variable \<open>ksu_manager_appid\<close>). In a build
  without a manager root itself plays that part.
\<close>

definition is_uid_manager :: "ksu_env \<Rightarrow> u32 \<Rightarrow> uid \<Rightarrow> bool" where
  "is_uid_manager E m u = (if disable_manager E then u = 0 else m = u mod PER_USER_RANGE)"

definition ksu_is_manager_appid_valid :: "ksu_env \<Rightarrow> u32 \<Rightarrow> bool" where
  "ksu_is_manager_appid_valid E m = (if disable_manager E then True else m \<noteq> KSU_INVALID_APPID)"

definition ksu_get_manager_appid :: "ksu_env \<Rightarrow> u32 \<Rightarrow> u32" where
  "ksu_get_manager_appid E m = (if disable_manager E then 0 else m)"

definition ksu_set_manager_appid :: "ksu_env \<Rightarrow> u32 \<Rightarrow> u32 \<Rightarrow> u32" where
  "ksu_set_manager_appid E appid m = (if disable_manager E then m else appid)"

definition ksu_invalidate_manager_uid :: "ksu_env \<Rightarrow> u32 \<Rightarrow> u32" where
  "ksu_invalidate_manager_uid E m = (if disable_manager E then m else KSU_INVALID_APPID)"

definition is_appuid :: "uid \<Rightarrow> bool" where
  "is_appuid u = (let appid = u mod PER_USER_RANGE in 10000 \<le> appid \<and> appid \<le> 19999)"

definition is_isolated_process :: "uid \<Rightarrow> bool" where
  "is_isolated_process u = (let appid = u mod PER_USER_RANGE in 99000 \<le> appid \<and> appid \<le> 99999)"

lemma unat_appid: "unat (u mod PER_USER_RANGE) = unat u mod 100000"
  by (simp add: unat_mod)

lemma appid_range: "unat (u mod PER_USER_RANGE) < 100000"
  by (simp add: unat_appid)

lemma invalid_appid_no_uid: "u mod PER_USER_RANGE \<noteq> KSU_INVALID_APPID"
proof
  assume "u mod PER_USER_RANGE = KSU_INVALID_APPID"
  then have "unat (u mod PER_USER_RANGE) = unat KSU_INVALID_APPID" by (rule arg_cong)
  then show False using appid_range [of u] by simp
qed

text \<open>No uid is the manager while the stored app id is the invalid one.\<close>

lemma no_manager_when_invalid:
  "\<not> disable_manager E \<Longrightarrow> \<not> is_uid_manager E KSU_INVALID_APPID u"
  using invalid_appid_no_uid [of u] by (auto simp: is_uid_manager_def)

lemma invalidated_no_manager:
  "\<not> disable_manager E \<Longrightarrow> \<not> is_uid_manager E (ksu_invalidate_manager_uid E m) u"
  using invalid_appid_no_uid [of u] by (auto simp: is_uid_manager_def ksu_invalidate_manager_uid_def)

lemma app_not_isolated: "is_appuid u \<Longrightarrow> \<not> is_isolated_process u"
  by (auto simp: is_appuid_def is_isolated_process_def Let_def word_le_nat_alt)

end
