(* ===== verification/Allowlist.thy ===== *)
theory Allowlist
  imports App_Profile Manager_Identity
begin

text \<open>
  The allowlist of \<^verbatim>\<open>kernel/policy/allowlist.c\<close>: a hash table of reference-counted
  \<open>perm_data\<close> nodes keyed by uid. The state keeps the nodes in an explicit store from
  addresses to nodes, because a profile handed out by \<open>ksu_get_app_profile\<close> stays in use
  after the table has replaced or pruned its node. Operations are sequential steps (the code
  holds \<open>allowlist_mutex\<close> for every writer); \<open>kzalloc\<close> returns a new address or fails, as
  the \<open>oom\<close> argument says, and a node whose count reaches zero leaves the store.
  This theory holds the state, the operations and the invariant; \<^verbatim>\<open>Allowlist_Store\<close>
  adds the allowlist file.
\<close>

section \<open>State\<close>

type_synonym addr = nat

record perm_data =
  pd_ref :: nat
  pd_profile :: app_profile

text \<open>
  \<open>al_saves\<close> counts the save callbacks queued on the init task, \<open>al_file\<close> is the content
  of the allowlist file (\<open>None\<close> when there is none).
\<close>

record allowlist =
  al_heap :: "addr \<Rightarrow> perm_data option"
  al_next :: addr
  al_table :: "u8 \<Rightarrow> addr list"
  al_count :: u16
  al_default_root :: root_profile
  al_default_umount :: bool
  al_saves :: nat
  al_file :: "bytes option"

definition prof_at :: "allowlist \<Rightarrow> addr \<Rightarrow> app_profile option" where
  "prof_at st a = map_option pd_profile (al_heap st a)"

definition node_uid :: "allowlist \<Rightarrow> addr \<Rightarrow> uid option" where
  "node_uid st a = map_option ap_curr_uid (prof_at st a)"

definition node_allows :: "allowlist \<Rightarrow> addr \<Rightarrow> bool" where
  "node_allows st a = (case prof_at st a of Some p \<Rightarrow> ap_allow_su p | None \<Rightarrow> False)"

text \<open>The order in which \<open>hash_for_each\<close> visits the nodes.\<close>

definition all_nodes :: "allowlist \<Rightarrow> addr list" where
  "all_nodes st = concat (map (\<lambda>i. al_table st (of_nat i)) [0..<256])"

text \<open>The first node of the bucket of \<open>u\<close> with that uid.\<close>

definition find_uid :: "ksu_env \<Rightarrow> allowlist \<Rightarrow> uid \<Rightarrow> addr option" where
  "find_uid E st u = find (\<lambda>a. node_uid st a = Some u) (al_table st (uid_hash E u))"

text \<open>Start of the module: an empty table and the cached default profiles.\<close>

definition init_root_profile :: "u64 \<Rightarrow> root_profile" where
  "init_root_profile full_cap =
     zero_root_profile\<lparr>rp_groups_count := 1, rp_cap_effective := full_cap,
       rp_selinux_domain := strscpy_pad KSU_DEFAULT_SELINUX_DOMAIN KSU_SELINUX_DOMAIN\<rparr>"

definition ksu_allowlist_init :: "u64 \<Rightarrow> bytes option \<Rightarrow> allowlist" where
  "ksu_allowlist_init full_cap file =
     \<lparr>al_heap = Map.empty, al_next = 1, al_table = (\<lambda>_. []), al_count = 0,
      al_default_root = init_root_profile full_cap, al_default_umount = True,
      al_saves = 0, al_file = file\<rparr>"

section \<open>Reference counting\<close>

definition get_ref :: "addr \<Rightarrow> allowlist \<Rightarrow> allowlist" where
  "get_ref a st =
     (case al_heap st a of
        Some d \<Rightarrow> st\<lparr>al_heap := (al_heap st)(a \<mapsto> d\<lparr>pd_ref := pd_ref d + 1\<rparr>)\<rparr>
      | None \<Rightarrow> st)"

definition put_perm_data :: "addr \<Rightarrow> allowlist \<Rightarrow> allowlist" where
  "put_perm_data a st =
     (case al_heap st a of
        Some d \<Rightarrow>
          if pd_ref d = 1 then st\<lparr>al_heap := (al_heap st)(a := None)\<rparr>
          else st\<lparr>al_heap := (al_heap st)(a \<mapsto> d\<lparr>pd_ref := pd_ref d - 1\<rparr>)\<rparr>
      | None \<Rightarrow> st)"

definition ref_of :: "allowlist \<Rightarrow> addr \<Rightarrow> nat" where
  "ref_of st a = (case al_heap st a of Some d \<Rightarrow> pd_ref d | None \<Rightarrow> 0)"

text \<open>
  \<open>ksu_get_app_profile\<close> returns a pointer into the node and takes a reference. When the
  count has dropped to zero it searches again; with no other writer the second search finds
  the same node, so the result is \<open>None\<close>: the call does not return.
\<close>

definition ksu_get_app_profile :: "ksu_env \<Rightarrow> uid \<Rightarrow> allowlist \<Rightarrow> (addr option \<times> allowlist) option" where
  "ksu_get_app_profile E u st =
     (case find_uid E st u of
        None \<Rightarrow> Some (None, st)
      | Some a \<Rightarrow> if ref_of st a = 0 then None else Some (Some a, get_ref a st))"

definition ksu_put_app_profile :: "addr \<Rightarrow> allowlist \<Rightarrow> allowlist" where
  "ksu_put_app_profile a st = put_perm_data a st"

section \<open>Setting a profile\<close>

text \<open>The two ways a node enters the table: replacing a node in place, or at the head of its bucket.\<close>

definition swap_in :: "ksu_env \<Rightarrow> addr \<Rightarrow> app_profile \<Rightarrow> allowlist \<Rightarrow> allowlist" where
  "swap_in E a p st =
     (let np = al_next st; b = uid_hash E (ap_curr_uid p) in
      st\<lparr>al_heap := (al_heap st)(np \<mapsto> \<lparr>pd_ref = 1, pd_profile = p\<rparr>), al_next := np + 1,
         al_table := (al_table st)(b := map (\<lambda>x. if x = a then np else x) (al_table st b))\<rparr>)"

definition replace_node :: "ksu_env \<Rightarrow> addr \<Rightarrow> app_profile \<Rightarrow> allowlist \<Rightarrow> allowlist" where
  "replace_node E a p st = put_perm_data a (swap_in E a p st)"

definition add_node :: "ksu_env \<Rightarrow> app_profile \<Rightarrow> allowlist \<Rightarrow> allowlist" where
  "add_node E p st =
     (let np = al_next st; b = uid_hash E (ap_curr_uid p) in
      st\<lparr>al_heap := (al_heap st)(np \<mapsto> \<lparr>pd_ref = 1, pd_profile = p\<rparr>), al_next := np + 1,
         al_table := (al_table st)(b := np # al_table st b), al_count := al_count st + 1\<rparr>)"

definition note_default :: "app_profile \<Rightarrow> allowlist \<Rightarrow> allowlist" where
  "note_default p st =
     (if ap_curr_uid p = KSU_APP_PROFILE_PRESERVE_UID
      then st\<lparr>al_default_umount := nrp_umount_modules p\<rparr> else st)"

definition stored_profile :: "ksu_env \<Rightarrow> app_profile \<Rightarrow> app_profile" where
  "stored_profile E p = (if disable_policy E then reset_policy p else p)"

definition ksu_set_app_profile ::
    "ksu_env \<Rightarrow> bool \<Rightarrow> app_profile \<Rightarrow> allowlist \<Rightarrow> (errno + unit) \<times> allowlist" where
  "ksu_set_app_profile E oom p0 st =
     (if \<not> profile_valid (disable_policy E) p0 then (Inl EINVAL, st)
      else let p = stored_profile E p0 in
        if ap_curr_uid p = KSU_APP_PROFILE_PRESERVE_UID \<and> \<not> str_eq (ap_key p) (lit ''$'')
        then (Inl EINVAL, st)
        else case find_uid E st (ap_curr_uid p) of
            Some a \<Rightarrow>
              if oom then (Inl ENOMEM, st)
              else (Inr (), note_default p (replace_node E a p st))
          | None \<Rightarrow>
              if al_count st = 0xFFFF then (Inl E2BIG, st)
              else if oom then (Inl ENOMEM, st)
              else (Inr (), note_default p (add_node E p st)))"

section \<open>Queries\<close>

definition forbid_system_uid :: "uid \<Rightarrow> bool" where
  "forbid_system_uid u \<longleftrightarrow> u < SHELL_UID \<and> u \<noteq> SYSTEM_UID"

definition ksu_is_allow_uid :: "ksu_env \<Rightarrow> u32 \<Rightarrow> uid \<Rightarrow> allowlist \<Rightarrow> bool" where
  "ksu_is_allow_uid E m u st =
     (if forbid_system_uid u then False
      else if is_uid_manager E m u then True
      else if allow_shell E \<and> u = SHELL_UID then True
      else list_ex (\<lambda>a. node_uid st a = Some u \<and> node_allows st a) (al_table st (uid_hash E u)))"

text \<open>\<open>in_ksu\<close> is \<open>is_ksu_domain()\<close>: whether the current task runs in the module's domain.\<close>

definition ksu_is_allow_uid_for_current ::
    "ksu_env \<Rightarrow> u32 \<Rightarrow> bool \<Rightarrow> uid \<Rightarrow> allowlist \<Rightarrow> bool" where
  "ksu_is_allow_uid_for_current E m in_ksu u st =
     (if u = 0 then in_ksu else ksu_is_allow_uid E m u st)"

definition umount_of_profile :: "allowlist \<Rightarrow> app_profile option \<Rightarrow> bool" where
  "umount_of_profile st po =
     (case po of
        None \<Rightarrow> al_default_umount st
      | Some p \<Rightarrow>
          if ap_allow_su p then False
          else if nrp_use_default p then al_default_umount st
          else nrp_umount_modules p)"

definition ksu_uid_should_umount ::
    "ksu_env \<Rightarrow> u32 \<Rightarrow> uid \<Rightarrow> allowlist \<Rightarrow> (bool \<times> allowlist) option" where
  "ksu_uid_should_umount E m u st =
     (if ksu_is_manager_appid_valid E m \<and> ksu_get_manager_appid E m = u mod PER_USER_RANGE
      then Some (False, st)
      else if u = WEBVIEW_ZYGOTE_UID then Some (False, st)
      else if disable_policy E then Some (\<not> ksu_is_allow_uid E m u st, st)
      else case ksu_get_app_profile E u st of
          None \<Rightarrow> None
        | Some (None, st1) \<Rightarrow> Some (umount_of_profile st1 None, st1)
        | Some (Some a, st1) \<Rightarrow>
            Some (umount_of_profile st1 (prof_at st1 a), ksu_put_app_profile a st1))"

text \<open>A root profile is the cached default or a pointer into a node, which then holds a reference.\<close>

datatype root_ref = DefaultRoot | NodeRoot addr

definition ksu_get_root_profile ::
    "ksu_env \<Rightarrow> u32 \<Rightarrow> uid \<Rightarrow> allowlist \<Rightarrow> (root_ref \<times> allowlist) option" where
  "ksu_get_root_profile E m u st =
     (if disable_policy E then Some (DefaultRoot, st)
      else if is_uid_manager E m u then Some (DefaultRoot, st)
      else if allow_shell E \<and> u = SHELL_UID then Some (DefaultRoot, st)
      else case find (\<lambda>a. node_uid st a = Some u \<and> node_allows st a) (al_table st (uid_hash E u)) of
          None \<Rightarrow> Some (DefaultRoot, st)
        | Some a \<Rightarrow>
            (case prof_at st a of
               Some p \<Rightarrow>
                 if ap_use_default p then Some (DefaultRoot, st)
                 else if ref_of st a = 0 then None
                 else Some (NodeRoot a, get_ref a st)
             | None \<Rightarrow> Some (DefaultRoot, st)))"

definition ksu_put_root_profile :: "root_ref \<Rightarrow> allowlist \<Rightarrow> allowlist" where
  "ksu_put_root_profile r st =
     (case r of DefaultRoot \<Rightarrow> st | NodeRoot a \<Rightarrow> put_perm_data a st)"

definition root_profile_of :: "root_ref \<Rightarrow> allowlist \<Rightarrow> root_profile option" where
  "root_profile_of r st =
     (case r of DefaultRoot \<Rightarrow> Some (al_default_root st)
      | NodeRoot a \<Rightarrow> map_option ap_root (prof_at st a))"

text \<open>
  \<open>ksu_get_allow_list\<close>: \<open>i\<close> counts the matching profiles, \<open>j\<close> the uids written to the
  caller's array (here \<open>arr\<close>, what has been written so far), both 16 bits wide.
\<close>

fun get_list_loop ::
    "ksu_env \<Rightarrow> u32 \<Rightarrow> bool \<Rightarrow> u16 \<Rightarrow> allowlist \<Rightarrow> addr list \<Rightarrow> u16 \<Rightarrow> u16 \<Rightarrow> uid list \<Rightarrow>
       u16 \<times> u16 \<times> uid list" where
  "get_list_loop E m allow len st [] i j arr = (i, j, arr)"
| "get_list_loop E m allow len st (a # as) i j arr =
     (case prof_at st a of
        None \<Rightarrow> get_list_loop E m allow len st as i j arr
      | Some p \<Rightarrow>
          if ap_allow_su p = allow \<and> \<not> is_uid_manager E m (ap_curr_uid p) then
            (if j < len
             then get_list_loop E m allow len st as (i + 1) (j + 1) (arr @ [ap_curr_uid p])
             else get_list_loop E m allow len st as (i + 1) j arr)
          else get_list_loop E m allow len st as i j arr)"

definition ksu_get_allow_list ::
    "ksu_env \<Rightarrow> u32 \<Rightarrow> u16 \<Rightarrow> bool \<Rightarrow> allowlist \<Rightarrow> uid list \<times> u16 \<times> u16" where
  "ksu_get_allow_list E m len allow st =
     (let (i, j, arr) = get_list_loop E m allow len st (all_nodes st) 0 0 [] in (arr, j, i))"

section \<open>Saving requests, pruning, removal\<close>

text \<open>What the kernel answers when a save is queued: init found, callback allocated, work added.\<close>

record persist_env =
  init_task_found :: bool
  cb_allocated :: bool
  work_added :: bool

definition ksu_persistent_allow_list :: "persist_env \<Rightarrow> allowlist \<Rightarrow> allowlist" where
  "ksu_persistent_allow_list pe st =
     (if \<not> init_task_found pe then st
      else if \<not> cb_allocated pe then st
      else if \<not> work_added pe then st
      else st\<lparr>al_saves := al_saves st + 1\<rparr>)"

definition hlist_del :: "addr \<Rightarrow> allowlist \<Rightarrow> allowlist" where
  "hlist_del a st = st\<lparr>al_table := (\<lambda>b. removeAll a (al_table st b))\<rparr>"

fun prune_loop ::
    "(uid \<Rightarrow> bytes \<Rightarrow> bool) \<Rightarrow> addr list \<Rightarrow> bool \<Rightarrow> allowlist \<Rightarrow> bool \<times> allowlist" where
  "prune_loop valid [] modified st = (modified, st)"
| "prune_loop valid (a # as) modified st =
     (case prof_at st a of
        None \<Rightarrow> prune_loop valid as modified st
      | Some p \<Rightarrow>
          if ap_curr_uid p \<noteq> KSU_APP_PROFILE_PRESERVE_UID \<and> \<not> valid (ap_curr_uid p) (ap_key p)
          then prune_loop valid as True
                 ((put_perm_data a (hlist_del a st))\<lparr>al_count := al_count st - 1\<rparr>)
          else prune_loop valid as modified st)"

definition ksu_prune_allowlist ::
    "bool \<Rightarrow> persist_env \<Rightarrow> (uid \<Rightarrow> bytes \<Rightarrow> bool) \<Rightarrow> allowlist \<Rightarrow> allowlist" where
  "ksu_prune_allowlist boot_completed pe valid st =
     (if \<not> boot_completed then st
      else let (modified, st1) = prune_loop valid (all_nodes st) False st in
        if modified then ksu_persistent_allow_list pe st1 else st1)"

fun exit_loop :: "addr list \<Rightarrow> allowlist \<Rightarrow> allowlist" where
  "exit_loop [] st = st"
| "exit_loop (a # as) st = exit_loop as (put_perm_data a (hlist_del a st))"

definition ksu_allowlist_exit :: "allowlist \<Rightarrow> allowlist" where
  "ksu_allowlist_exit st = exit_loop (all_nodes st) st"

end
