(* ===== verification/Allowlist_Inv.thy ===== *)
theory Allowlist_Inv
  imports Allowlist
begin

text \<open>
  The invariant of the allowlist and its preservation by every operation. The ghost function
  \<open>held\<close> counts, for each address, the references handed out and not yet put back. The
  invariant says that the chains hold live nodes filed under their own uid, one node per uid;
  that the count of a node is its place in the table plus the references held; that every held
  node is live; and that \<open>al_count\<close> is the number of nodes.
\<close>

section \<open>The invariant\<close>

definition listed :: "allowlist \<Rightarrow> addr \<Rightarrow> bool" where
  "listed st a \<longleftrightarrow> (\<exists>b. a \<in> set (al_table st b))"

definition good_profile :: "ksu_env \<Rightarrow> app_profile \<Rightarrow> bool" where
  "good_profile E p \<longleftrightarrow> wf_profile p \<and> profile_valid (disable_policy E) p"

definition inv_chains :: "ksu_env \<Rightarrow> allowlist \<Rightarrow> bool" where
  "inv_chains E st \<longleftrightarrow>
     (\<forall>b. distinct (map (node_uid st) (al_table st b))) \<and>
     (\<forall>b. \<forall>a \<in> set (al_table st b).
        \<exists>p. prof_at st a = Some p \<and> uid_hash E (ap_curr_uid p) = b \<and> good_profile E p)"

definition inv_refs :: "(addr \<Rightarrow> nat) \<Rightarrow> allowlist \<Rightarrow> bool" where
  "inv_refs held st \<longleftrightarrow>
     (\<forall>a. ref_of st a = of_bool (listed st a) + held a) \<and>
     (\<forall>a d. al_heap st a = Some d \<longrightarrow> a < al_next st \<and> 0 < pd_ref d)"

definition node_total :: "allowlist \<Rightarrow> nat" where
  "node_total st = (\<Sum>b \<in> UNIV. length (al_table st b))"

definition al_inv :: "ksu_env \<Rightarrow> (addr \<Rightarrow> nat) \<Rightarrow> allowlist \<Rightarrow> bool" where
  "al_inv E held st \<longleftrightarrow>
     inv_chains E st \<and> inv_refs held st \<and> unat (al_count st) = node_total st"

text \<open>The map from uids to profiles the table stands for.\<close>

definition al_profile :: "ksu_env \<Rightarrow> allowlist \<Rightarrow> uid \<Rightarrow> app_profile option" where
  "al_profile E st u = Option.bind (find_uid E st u) (prof_at st)"

section \<open>Nodes and buckets\<close>

lemma of_nat_u8_bij: "bij_betw (of_nat :: nat \<Rightarrow> u8) {0..<256} UNIV"
proof -
  have "(of_nat :: nat \<Rightarrow> u8) ` {0..<256} = UNIV"
    using UNIV_word_eq_word_of_nat [where 'a = 8] by (simp add: lessThan_atLeast0)
  moreover have "inj_on (of_nat :: nat \<Rightarrow> u8) {0..<256}"
    by (rule inj_on_inverseI [where g = unat]) (simp add: unat_of_nat)
  ultimately show ?thesis by (simp add: bij_betw_def)
qed

lemma length_all_nodes: "length (all_nodes st) = node_total st"
proof -
  have "length (all_nodes st) = (\<Sum>i \<in> {0..<256}. length (al_table st (of_nat i)))"
    by (simp add: all_nodes_def length_concat comp_def interv_sum_list_conv_sum_set_nat)
  also have "\<dots> = node_total st"
    unfolding node_total_def by (rule sum.reindex_bij_betw [OF of_nat_u8_bij])
  finally show ?thesis .
qed

lemma set_all_nodes: "a \<in> set (all_nodes st) \<longleftrightarrow> listed st a"
proof
  assume "listed st a"
  then obtain b where "a \<in> set (al_table st b)" by (auto simp: listed_def)
  moreover have "unat b < 256" using unat_bound [of b] by simp
  ultimately show "a \<in> set (all_nodes st)"
    unfolding all_nodes_def set_concat set_map by (intro UN_I [of "al_table st b"]) (auto intro!: image_eqI [of _ _ "unat b"])
qed (auto simp: all_nodes_def listed_def)

lemma node_total_upd:
  "node_total (st\<lparr>al_table := (al_table st)(b := xs)\<rparr>) + length (al_table st b) =
     node_total st + length xs"
proof -
  have "(\<Sum>c \<in> UNIV. length (((al_table st)(b := xs)) c)) =
      length xs + (\<Sum>c \<in> UNIV - {b}. length (al_table st c))"
    by (simp add: sum.remove [of UNIV b])
  moreover have "(\<Sum>c \<in> UNIV. length (al_table st c)) =
      length (al_table st b) + (\<Sum>c \<in> UNIV - {b}. length (al_table st c))"
    by (simp add: sum.remove [of UNIV b])
  ultimately show ?thesis by (simp add: node_total_def)
qed

lemma chain_node:
  assumes "inv_chains E st" "a \<in> set (al_table st b)"
  obtains p where "prof_at st a = Some p" "uid_hash E (ap_curr_uid p) = b" "good_profile E p"
  using assms unfolding inv_chains_def by blast

lemma chain_bucket:
  assumes "inv_chains E st" "a \<in> set (al_table st b)" "a \<in> set (al_table st c)"
  shows "b = c"
proof -
  obtain p where p: "prof_at st a = Some p" "uid_hash E (ap_curr_uid p) = b"
    using chain_node [OF assms(1,2)] by blast
  show ?thesis by (rule chain_node [OF assms(1,3)]) (use p in simp)
qed

lemma chain_distinct: "inv_chains E st \<Longrightarrow> distinct (al_table st b)"
  unfolding inv_chains_def by (meson distinct_map)

lemma chain_uid_inj:
  assumes "inv_chains E st" "a \<in> set (al_table st b)" "a' \<in> set (al_table st b)"
    "node_uid st a = node_uid st a'"
  shows "a = a'"
  using assms unfolding inv_chains_def distinct_map inj_on_def by blast

lemma find_unique:
  assumes "a \<in> set xs" "P a" "\<And>x. x \<in> set xs \<Longrightarrow> P x \<Longrightarrow> x = a"
  shows "find P xs = Some a"
proof -
  obtain y where y: "find P xs = Some y"
    using assms(1,2) by (cases "find P xs") (auto simp: find_None_iff)
  then have "y \<in> set xs" "P y" by (auto simp: find_Some_iff)
  then show ?thesis using assms(3) y by simp
qed

lemma find_uid_SomeD:
  assumes "find_uid E st u = Some a"
  shows "a \<in> set (al_table st (uid_hash E u))" "node_uid st a = Some u"
  using assms by (auto simp: find_uid_def find_Some_iff)

lemma find_uid_Some:
  assumes "inv_chains E st" "a \<in> set (al_table st (uid_hash E u))" "node_uid st a = Some u"
  shows "find_uid E st u = Some a"
  unfolding find_uid_def
proof (rule find_unique)
  fix x assume "x \<in> set (al_table st (uid_hash E u))" "node_uid st x = Some u"
  then show "x = a" using chain_uid_inj [OF assms(1) _ assms(2), of x] assms(3) by simp
qed (use assms in simp_all)

lemma find_uid_None: "find_uid E st u = None \<longleftrightarrow>
    (\<forall>a \<in> set (al_table st (uid_hash E u)). node_uid st a \<noteq> Some u)"
  by (auto simp: find_uid_def find_None_iff)

lemma al_profile_Some:
  assumes "inv_chains E st"
  shows "al_profile E st u = Some p \<longleftrightarrow>
    (\<exists>a. a \<in> set (al_table st (uid_hash E u)) \<and> prof_at st a = Some p \<and> ap_curr_uid p = u)"
proof
  assume "al_profile E st u = Some p"
  then obtain a where "find_uid E st u = Some a" "prof_at st a = Some p"
    by (auto simp: al_profile_def Option.bind_eq_Some_conv)
  then show "\<exists>a. a \<in> set (al_table st (uid_hash E u)) \<and> prof_at st a = Some p \<and> ap_curr_uid p = u"
    using find_uid_SomeD [of E st u a] by (auto simp: node_uid_def)
next
  assume "\<exists>a. a \<in> set (al_table st (uid_hash E u)) \<and> prof_at st a = Some p \<and> ap_curr_uid p = u"
  then obtain a where a: "a \<in> set (al_table st (uid_hash E u))" "prof_at st a = Some p"
    "ap_curr_uid p = u" by blast
  then have "find_uid E st u = Some a"
    using assms by (auto intro: find_uid_Some simp: node_uid_def)
  then show "al_profile E st u = Some p"
    by (simp add: al_profile_def a)
qed

lemma al_profile_listed:
  assumes "inv_chains E st"
  shows "al_profile E st u = Some p \<longleftrightarrow>
    (\<exists>a. listed st a \<and> prof_at st a = Some p \<and> ap_curr_uid p = u)"
proof
  assume "al_profile E st u = Some p"
  then show "\<exists>a. listed st a \<and> prof_at st a = Some p \<and> ap_curr_uid p = u"
    unfolding al_profile_Some [OF assms] listed_def by blast
next
  assume "\<exists>a. listed st a \<and> prof_at st a = Some p \<and> ap_curr_uid p = u"
  then obtain a b where a: "a \<in> set (al_table st b)" "prof_at st a = Some p" "ap_curr_uid p = u"
    unfolding listed_def by blast
  moreover have "b = uid_hash E u"
    by (rule chain_node [OF assms a(1)]) (use a in simp)
  ultimately show "al_profile E st u = Some p"
    unfolding al_profile_Some [OF assms] by blast
qed

lemma al_profile_cong:
  assumes "inv_chains E st" "inv_chains E st'"
    "\<And>a. listed st' a \<longleftrightarrow> listed st a" "\<And>a. listed st a \<Longrightarrow> prof_at st' a = prof_at st a"
  shows "al_profile E st' = al_profile E st"
proof
  fix u
  show "al_profile E st' u = al_profile E st u"
    by (rule option_eqI, unfold al_profile_listed [OF assms(1)] al_profile_listed [OF assms(2)] assms(3))
      (use assms(4) in \<open>simp cong: conj_cong\<close>)
qed

lemma al_profile_uid: "al_profile E st u = Some p \<Longrightarrow> ap_curr_uid p = u"
  by (auto simp: al_profile_def Option.bind_eq_Some_conv node_uid_def dest!: find_uid_SomeD(2))

lemma al_profile_good:
  assumes "inv_chains E st" "al_profile E st u = Some p"
  shows "good_profile E p"
proof -
  obtain a where a: "a \<in> set (al_table st (uid_hash E u))" "prof_at st a = Some p"
    using assms(2) unfolding al_profile_Some [OF assms(1)] by blast
  show ?thesis by (rule chain_node [OF assms(1) a(1)]) (use a(2) in simp)
qed

section \<open>Reference counts\<close>

text \<open>A chain is unchanged by anything that keeps the table and the profiles of its nodes.\<close>

lemma inv_chains_cong:
  assumes "inv_chains E st" "al_table st' = al_table st"
    "\<And>a. listed st a \<Longrightarrow> prof_at st' a = prof_at st a"
  shows "inv_chains E st'"
proof -
  have p: "prof_at st' a = prof_at st a" if "a \<in> set (al_table st b)" for a b
    using assms(3) that by (auto simp: listed_def)
  then have "map (node_uid st') (al_table st b) = map (node_uid st) (al_table st b)" for b
    by (auto simp: node_uid_def)
  then show ?thesis
    using assms(1,2) p unfolding inv_chains_def by (metis (no_types, lifting))
qed

lemma get_ref_simps [simp]:
  "al_table (get_ref a st) = al_table st" "al_next (get_ref a st) = al_next st"
  "al_count (get_ref a st) = al_count st" "al_default_umount (get_ref a st) = al_default_umount st"
  "al_default_root (get_ref a st) = al_default_root st" "al_saves (get_ref a st) = al_saves st"
  "al_file (get_ref a st) = al_file st"
  by (simp_all add: get_ref_def split: option.split)

lemma put_simps [simp]:
  "al_table (put_perm_data a st) = al_table st" "al_next (put_perm_data a st) = al_next st"
  "al_count (put_perm_data a st) = al_count st"
  "al_default_umount (put_perm_data a st) = al_default_umount st"
  "al_default_root (put_perm_data a st) = al_default_root st"
  "al_saves (put_perm_data a st) = al_saves st" "al_file (put_perm_data a st) = al_file st"
  by (simp_all add: put_perm_data_def split: option.split)

lemma prof_at_get_ref [simp]: "prof_at (get_ref a st) = prof_at st"
  by (rule ext) (auto simp: prof_at_def get_ref_def split: option.split)

lemma node_get_ref [simp]:
  "node_uid (get_ref a st) x = node_uid st x" "node_allows (get_ref a st) x = node_allows st x"
  by (simp_all add: node_uid_def node_allows_def)

lemma listed_get_ref [simp]: "listed (get_ref a st) x = listed st x"
  by (simp add: listed_def)

lemma listed_put [simp]: "listed (put_perm_data a st) x = listed st x"
  by (simp add: listed_def)

lemma node_total_simps [simp]:
  "node_total (get_ref a st) = node_total st" "node_total (put_perm_data a st) = node_total st"
  by (simp_all add: node_total_def)

lemma prof_at_put: "ref_of st x \<noteq> 1 \<or> x \<noteq> a \<Longrightarrow> prof_at (put_perm_data a st) x = prof_at st x"
  by (auto simp: prof_at_def put_perm_data_def ref_of_def split: option.split)

lemma ref_of_get_ref: "ref_of (get_ref a st) x = (if x = a \<and> 0 < ref_of st a \<or> x = a \<and> al_heap st a \<noteq> None then ref_of st x + 1 else ref_of st x)"
  by (auto simp: ref_of_def get_ref_def split: option.split)

lemma ref_of_put: "ref_of (put_perm_data a st) x = (if x = a then ref_of st a - 1 else ref_of st x)"
  by (auto simp: ref_of_def put_perm_data_def split: option.split)

lemma inv_refs_live: "inv_refs held st \<Longrightarrow> 0 < ref_of st a \<longleftrightarrow> al_heap st a \<noteq> None"
  unfolding inv_refs_def ref_of_def by (auto split: option.splits)

lemma inv_refs_held_live: "inv_refs held st \<Longrightarrow> 0 < held a \<Longrightarrow> al_heap st a \<noteq> None"
  using inv_refs_live [of held st a] unfolding inv_refs_def by (metis add_gr_0)

lemma inv_refs_listed_live: "inv_refs held st \<Longrightarrow> listed st a \<Longrightarrow> 0 < ref_of st a"
  unfolding inv_refs_def by simp

lemma inv_refs_next: "inv_refs held st \<Longrightarrow> al_heap st (al_next st) = None"
  unfolding inv_refs_def by (metis less_irrefl not_None_eq)

lemma heap_pos_get_ref:
  "inv_refs held st \<Longrightarrow> al_heap (get_ref a st) x = Some d \<Longrightarrow> x < al_next st \<and> 0 < pd_ref d"
  unfolding inv_refs_def by (auto simp: get_ref_def split: option.splits if_splits)

lemma heap_pos_put:
  "inv_refs held st \<Longrightarrow> al_heap (put_perm_data a st) x = Some d \<Longrightarrow> x < al_next st \<and> 0 < pd_ref d"
  unfolding inv_refs_def
  by (auto simp: put_perm_data_def split: option.splits if_splits)
    (metis One_nat_def neq0_conv diff_is_0_eq' le_antisym less_one not_le zero_less_diff)+

lemma inv_refs_get:
  assumes "inv_refs held st" "al_heap st a \<noteq> None"
  shows "inv_refs (held(a := held a + 1)) (get_ref a st)"
proof -
  have "ref_of (get_ref a st) x = of_bool (listed (get_ref a st) x) + (held(a := held a + 1)) x" for x
    using assms unfolding inv_refs_def by (simp add: ref_of_get_ref)
  then show ?thesis
    unfolding inv_refs_def using heap_pos_get_ref [OF assms(1)] by simp
qed

lemma inv_refs_put:
  assumes "inv_refs held st" "0 < held a"
  shows "inv_refs (held(a := held a - 1)) (put_perm_data a st)"
proof -
  have "ref_of (put_perm_data a st) x = of_bool (listed (put_perm_data a st) x) + (held(a := held a - 1)) x" for x
    using assms unfolding inv_refs_def by (simp add: ref_of_put)
  then show ?thesis
    unfolding inv_refs_def using heap_pos_put [OF assms(1)] by simp
qed

lemma inv_chains_get: "inv_chains E st \<Longrightarrow> inv_chains E (get_ref a st)"
  by (rule inv_chains_cong) simp_all

lemma inv_chains_put:
  assumes "inv_chains E st" "inv_refs held st" "0 < held a"
  shows "inv_chains E (put_perm_data a st)"
proof (rule inv_chains_cong [OF assms(1)])
  fix x assume "listed st x"
  then have "x = a \<Longrightarrow> ref_of st x \<noteq> 1"
    using assms(2,3) unfolding inv_refs_def by simp
  then show "prof_at (put_perm_data a st) x = prof_at st x"
    by (intro prof_at_put) blast
qed simp

lemma al_inv_get: "al_inv E held st \<Longrightarrow> al_heap st a \<noteq> None \<Longrightarrow>
    al_inv E (held(a := held a + 1)) (get_ref a st)"
  using inv_refs_get [of held st a] by (simp add: al_inv_def inv_chains_get)

lemma al_inv_put: "al_inv E held st \<Longrightarrow> 0 < held a \<Longrightarrow>
    al_inv E (held(a := held a - 1)) (put_perm_data a st)"
  using inv_refs_put [of held st a] inv_chains_put [of E st held a] by (simp add: al_inv_def)

lemma al_profile_get_ref [simp]: "al_profile E (get_ref a st) = al_profile E st"
  by (rule ext) (simp add: al_profile_def find_uid_def)

lemma al_profile_put:
  assumes "al_inv E held st" "0 < held a"
  shows "al_profile E (put_perm_data a st) = al_profile E st"
proof (rule al_profile_cong)
  show "inv_chains E st" "inv_chains E (put_perm_data a st)"
    using assms by (auto simp: al_inv_def intro: inv_chains_put)
  fix x assume "listed st x"
  then have "x = a \<Longrightarrow> ref_of st x \<noteq> 1"
    using assms unfolding al_inv_def inv_refs_def by simp
  then show "prof_at (put_perm_data a st) x = prof_at st x"
    by (intro prof_at_put) blast
qed simp

text \<open>A held node keeps its profile while another reference to it, or to another node, is dropped.\<close>

lemma held_prof_drop:
  assumes "inv_refs (held(a := held a + 1)) st" "0 < held x"
  shows "prof_at (put_perm_data a st) x = prof_at st x"
proof (rule prof_at_put)
  have "ref_of st a = of_bool (listed st a) + (held a + 1)"
    using assms(1) unfolding inv_refs_def by simp
  then have "x = a \<Longrightarrow> ref_of st x \<noteq> 1" using assms(2) by simp
  then show "ref_of st x \<noteq> 1 \<or> x \<noteq> a" by blast
qed

lemma held_prof_put:
  assumes "inv_refs held st" "0 < held a" "0 < (held(a := held a - 1)) x"
  shows "prof_at (put_perm_data a st) x = prof_at st x"
proof (rule held_prof_drop)
  have "(held(a := held a - 1))(a := (held(a := held a - 1)) a + 1) = held"
    using assms(2) by auto
  then show "inv_refs ((held(a := held a - 1))(a := (held(a := held a - 1)) a + 1)) st"
    using assms(1) by simp
qed (rule assms(3))

section \<open>Setting a profile\<close>

lemma note_default_simps [simp]:
  "al_table (note_default p st) = al_table st" "al_heap (note_default p st) = al_heap st"
  "al_next (note_default p st) = al_next st" "al_count (note_default p st) = al_count st"
  "al_saves (note_default p st) = al_saves st" "al_file (note_default p st) = al_file st"
  "al_default_root (note_default p st) = al_default_root st"
  by (simp_all add: note_default_def)

text \<open>The invariant and the abstraction read only the store, the table, the counter and the count.\<close>

lemma prof_at_heap: "al_heap st' = al_heap st \<Longrightarrow> prof_at st' = prof_at st"
  by (simp add: prof_at_def fun_eq_iff)

lemma node_uid_heap: "al_heap st' = al_heap st \<Longrightarrow> node_uid st' = node_uid st"
  by (simp add: node_uid_def prof_at_def fun_eq_iff)

lemma al_profile_frame:
  assumes "al_heap st' = al_heap st" "al_table st' = al_table st"
  shows "al_profile E st' = al_profile E st"
  by (rule ext) (simp add: al_profile_def find_uid_def prof_at_heap [OF assms(1)]
      node_uid_heap [OF assms(1)] assms(2))

lemma al_inv_frame:
  assumes "al_heap st' = al_heap st" "al_table st' = al_table st" "al_next st' = al_next st"
    "al_count st' = al_count st"
  shows "al_inv E held st' = al_inv E held st"
  by (simp add: al_inv_def inv_chains_def inv_refs_def listed_def node_total_def ref_of_def
      prof_at_heap [OF assms(1)] node_uid_heap [OF assms(1)] assms)

lemma al_inv_count:
  "al_inv E held (st\<lparr>al_count := c\<rparr>) \<longleftrightarrow>
     inv_chains E st \<and> inv_refs held st \<and> unat c = node_total st"
proof -
  have "prof_at (st\<lparr>al_count := c\<rparr>) = prof_at st" by (rule prof_at_heap) simp
  moreover have "node_uid (st\<lparr>al_count := c\<rparr>) = node_uid st" by (rule node_uid_heap) simp
  ultimately show ?thesis
    by (simp add: al_inv_def inv_chains_def inv_refs_def listed_def node_total_def ref_of_def)
qed

lemma listed_prof:
  assumes "inv_chains E st" "listed st a"
  obtains p where "prof_at st a = Some p" "good_profile E p"
proof -
  obtain b where b: "a \<in> set (al_table st b)" using assms(2) by (auto simp: listed_def)
  show ?thesis by (rule chain_node [OF assms(1) b]) (rule that)
qed

text \<open>Facts about the fresh node both ways of setting a profile store.\<close>

lemma fresh_not_listed:
  assumes "inv_refs held st"
  shows "\<not> listed st (al_next st)" "held (al_next st) = 0" "ref_of st (al_next st) = 0"
proof -
  show r: "ref_of st (al_next st) = 0"
    using inv_refs_next [OF assms] by (simp add: ref_of_def)
  then show "\<not> listed st (al_next st)" "held (al_next st) = 0"
    using assms unfolding inv_refs_def by (metis add_is_0 of_bool_eq_0_iff)+
qed

lemma add_node_prof:
  "prof_at (add_node E p st) x = (if x = al_next st then Some p else prof_at st x)"
  by (simp add: prof_at_def add_node_def Let_def)

lemma listed_upd:
  assumes "al_table st' = (al_table st)(b := xs)"
  shows "listed st' a \<longleftrightarrow> a \<in> set xs \<or> (\<exists>c. c \<noteq> b \<and> a \<in> set (al_table st c))"
  unfolding listed_def assms by (rule ex_fun_upd)

lemma listed_split: "listed st a \<longleftrightarrow> a \<in> set (al_table st b) \<or> (\<exists>c. c \<noteq> b \<and> a \<in> set (al_table st c))"
  using listed_upd [of st st b "al_table st b"] by simp

lemma add_node_table:
  "al_table (add_node E p st) =
     (al_table st)(uid_hash E (ap_curr_uid p) := al_next st # al_table st (uid_hash E (ap_curr_uid p)))"
  by (simp add: add_node_def Let_def)

lemma add_node_listed:
  "listed (add_node E p st) x \<longleftrightarrow> x = al_next st \<or> listed st x"
  unfolding listed_upd [OF add_node_table] listed_split [of st x "uid_hash E (ap_curr_uid p)"] by auto

lemma add_node_ref:
  "ref_of (add_node E p st) x = (if x = al_next st then 1 else ref_of st x)"
  by (simp add: ref_of_def add_node_def Let_def)

lemma add_node_chains:
  assumes ch: "inv_chains E st" and rf: "inv_refs held st"
    and new: "find_uid E st (ap_curr_uid p) = None" and good: "good_profile E p"
  shows "inv_chains E (add_node E p st)"
proof -
  let ?st = "add_node E p st" and ?n = "al_next st" and ?b = "uid_hash E (ap_curr_uid p)"
  have out: "?n \<notin> set (al_table st c)" for c
    using fresh_not_listed(1) [OF rf] by (auto simp: listed_def)
  have tab: "al_table ?st = (al_table st)(?b := ?n # al_table st ?b)"
    by (simp add: add_node_def Let_def)
  have same: "map (node_uid ?st) (al_table st c) = map (node_uid st) (al_table st c)" for c
    using out [of c] by (auto simp: node_uid_def add_node_prof)
  have "node_uid ?st ?n \<notin> set (map (node_uid ?st) (al_table st ?b))"
    using new unfolding same find_uid_None
    by (auto simp: node_uid_def add_node_prof eq_commute [of "Some _"])
  then have "distinct (map (node_uid ?st) (al_table ?st c))" for c
    using ch unfolding tab inv_chains_def by (auto simp: same simp del: set_map)
  moreover have "\<exists>q. prof_at ?st x = Some q \<and> uid_hash E (ap_curr_uid q) = c \<and> good_profile E q"
    if "x \<in> set (al_table ?st c)" for x c
    using that ch good out unfolding tab inv_chains_def
    by (auto simp: add_node_prof split: if_splits)
  ultimately show ?thesis unfolding inv_chains_def by blast
qed

lemma add_node_refs:
  assumes "inv_refs held st"
  shows "inv_refs held (add_node E p st)"
proof -
  have "ref_of (add_node E p st) x = of_bool (listed (add_node E p st) x) + held x" for x
    using assms fresh_not_listed [OF assms] unfolding inv_refs_def
    by (simp add: add_node_ref add_node_listed)
  moreover have "x < al_next st + 1 \<and> 0 < pd_ref d" if "al_heap (add_node E p st) x = Some d" for x d
    using assms that unfolding inv_refs_def
    by (auto simp: add_node_def Let_def less_Suc_eq split: if_splits)
  ultimately show ?thesis unfolding inv_refs_def by (simp add: add_node_def Let_def)
qed

lemma add_node_total:
  "node_total (add_node E p st) = node_total st + 1"
  using node_total_upd [of st "uid_hash E (ap_curr_uid p)"
      "al_next st # al_table st (uid_hash E (ap_curr_uid p))"]
  by (simp add: node_total_def add_node_def Let_def)

lemma al_inv_add_node:
  assumes "al_inv E held st" "find_uid E st (ap_curr_uid p) = None" "good_profile E p"
    "al_count st \<noteq> 0xFFFF"
  shows "al_inv E held (add_node E p st)"
proof -
  have "unat (al_count st + 1) = unat (al_count st) + 1"
    by (rule u16_inc) (rule assms(4))
  then show ?thesis
    using assms add_node_chains [of E st held p] add_node_refs [of held st E p]
    by (simp add: al_inv_def add_node_total) (simp add: add_node_def Let_def)
qed

lemma al_profile_add_node:
  assumes "al_inv E held st" "find_uid E st (ap_curr_uid p) = None" "good_profile E p"
  shows "al_profile E (add_node E p st) = (al_profile E st)(ap_curr_uid p \<mapsto> p)"
proof (rule ext, rule option_eqI)
  fix u q
  have ch: "inv_chains E st" and ch': "inv_chains E (add_node E p st)"
    and out: "\<not> listed st (al_next st)"
    using assms add_node_chains [of E st held p] fresh_not_listed(1)
    by (auto simp: al_inv_def)
  have none: "al_profile E st (ap_curr_uid p) = None"
    using assms(2) by (simp add: al_profile_def)
  have "(\<exists>a. listed (add_node E p st) a \<and> prof_at (add_node E p st) a = Some q \<and> ap_curr_uid q = u)
      \<longleftrightarrow> (q = p \<and> ap_curr_uid p = u) \<or> (\<exists>a. listed st a \<and> prof_at st a = Some q \<and> ap_curr_uid q = u)"
    unfolding add_node_listed add_node_prof using out
    by (metis (no_types, lifting) option.inject)
  then have "al_profile E (add_node E p st) u = Some q \<longleftrightarrow>
      (q = p \<and> ap_curr_uid p = u) \<or> al_profile E st u = Some q"
    unfolding al_profile_listed [OF ch] al_profile_listed [OF ch'] .
  then show "al_profile E (add_node E p st) u = Some q \<longleftrightarrow>
      ((al_profile E st)(ap_curr_uid p \<mapsto> p)) u = Some q"
    using none by (cases "u = ap_curr_uid p") auto
qed

text \<open>
  \<open>swap_in\<close> puts a fresh node where the node \<open>a\<close> was. The old node keeps the reference the
  table had, which \<open>replace_node\<close> then drops: in between it counts as held.
\<close>

lemma swap_in_table:
  "al_table (swap_in E a p st) = (al_table st)(uid_hash E (ap_curr_uid p) :=
     map (\<lambda>x. if x = a then al_next st else x) (al_table st (uid_hash E (ap_curr_uid p))))"
  by (simp add: swap_in_def Let_def)

lemma swap_in_prof:
  "prof_at (swap_in E a p st) x = (if x = al_next st then Some p else prof_at st x)"
  by (simp add: prof_at_def swap_in_def Let_def)

lemma swap_in_ref: "ref_of (swap_in E a p st) x = (if x = al_next st then 1 else ref_of st x)"
  by (simp add: ref_of_def swap_in_def Let_def)

lemma swap_in_listed:
  assumes "inv_chains E st" "find_uid E st (ap_curr_uid p) = Some a"
  shows "listed (swap_in E a p st) x \<longleftrightarrow> x = al_next st \<or> listed st x \<and> x \<noteq> a"
proof -
  let ?b = "uid_hash E (ap_curr_uid p)"
  have a: "a \<in> set (al_table st ?b)" using find_uid_SomeD [OF assms(2)] by simp
  then have "a \<notin> set (al_table st c)" if "c \<noteq> ?b" for c
    using chain_bucket [OF assms(1)] that by blast
  then show ?thesis
    unfolding listed_upd [OF swap_in_table] listed_split [of st x ?b] using a by auto
qed

lemma swap_in_chains:
  assumes ch: "inv_chains E st" and rf: "inv_refs held st"
    and old: "find_uid E st (ap_curr_uid p) = Some a" and good: "good_profile E p"
  shows "inv_chains E (swap_in E a p st)"
proof -
  let ?st = "swap_in E a p st" and ?n = "al_next st" and ?b = "uid_hash E (ap_curr_uid p)"
  have out: "?n \<notin> set (al_table st c)" for c
    using fresh_not_listed(1) [OF rf] by (auto simp: listed_def)
  have uida: "node_uid st a = Some (ap_curr_uid p)" using find_uid_SomeD [OF old] by simp
  have same: "map (node_uid ?st) (al_table st c) = map (node_uid st) (al_table st c)" for c
    using out [of c] by (auto simp: node_uid_def swap_in_prof)
  have swap: "map (node_uid ?st) (map (\<lambda>x. if x = a then ?n else x) (al_table st c)) =
      map (node_uid st) (al_table st c)" for c
    using out [of c] uida by (auto simp: node_uid_def swap_in_prof)
  have "map (node_uid ?st) (al_table ?st c) = map (node_uid st) (al_table st c)" for c
    using same [of c] swap [of c] unfolding swap_in_table fun_upd_apply by simp
  then have "distinct (map (node_uid ?st) (al_table ?st c))" for c
    using ch unfolding inv_chains_def by (simp only:)
  moreover have "\<exists>q. prof_at ?st x = Some q \<and> uid_hash E (ap_curr_uid q) = c \<and> good_profile E q"
    if "x \<in> set (al_table ?st c)" for x c
    using that ch good out unfolding swap_in_table inv_chains_def
    by (auto simp: swap_in_prof split: if_splits)
  ultimately show ?thesis unfolding inv_chains_def by blast
qed

lemma swap_in_refs:
  assumes ch: "inv_chains E st" and rf: "inv_refs held st"
    and old: "find_uid E st (ap_curr_uid p) = Some a"
  shows "inv_refs (held(a := held a + 1)) (swap_in E a p st)"
proof -
  let ?st = "swap_in E a p st"
  have a: "listed st a" using find_uid_SomeD [OF old] by (auto simp: listed_def)
  have "ref_of ?st x = of_bool (listed ?st x) + (held(a := held a + 1)) x" for x
    using rf fresh_not_listed [OF rf] a unfolding inv_refs_def
    by (auto simp: swap_in_ref swap_in_listed [OF ch old])
  moreover have "x < al_next st + 1 \<and> 0 < pd_ref d" if "al_heap ?st x = Some d" for x d
    using rf that unfolding inv_refs_def
    by (auto simp: swap_in_def Let_def less_Suc_eq split: if_splits)
  ultimately show ?thesis unfolding inv_refs_def by (simp add: swap_in_def Let_def)
qed

lemma al_inv_swap_in:
  assumes "al_inv E held st" "find_uid E st (ap_curr_uid p) = Some a" "good_profile E p"
  shows "al_inv E (held(a := held a + 1)) (swap_in E a p st)"
proof -
  have "node_total (swap_in E a p st) = node_total st"
    using node_total_upd [of st "uid_hash E (ap_curr_uid p)" "map (\<lambda>x. if x = a then al_next st else x)
        (al_table st (uid_hash E (ap_curr_uid p)))"]
    by (simp add: node_total_def swap_in_table)
  moreover have "al_count (swap_in E a p st) = al_count st" by (simp add: swap_in_def Let_def)
  ultimately show ?thesis
    using assms swap_in_chains [of E st held p a] swap_in_refs [of E st held p a]
    by (simp add: al_inv_def)
qed

lemma al_inv_replace_node:
  assumes "al_inv E held st" "find_uid E st (ap_curr_uid p) = Some a" "good_profile E p"
  shows "al_inv E held (replace_node E a p st)"
  using al_inv_put [OF al_inv_swap_in [OF assms], of a] by (simp add: replace_node_def)

lemma al_profile_replace_node:
  assumes "al_inv E held st" "find_uid E st (ap_curr_uid p) = Some a" "good_profile E p"
  shows "al_profile E (replace_node E a p st) = (al_profile E st)(ap_curr_uid p \<mapsto> p)"
proof -
  have inv': "al_inv E (held(a := held a + 1)) (swap_in E a p st)"
    by (rule al_inv_swap_in [OF assms])
  have ch: "inv_chains E st" and rf: "inv_refs held st" and ch': "inv_chains E (swap_in E a p st)"
    using assms(1) inv' by (auto simp: al_inv_def)
  have a: "node_uid st a = Some (ap_curr_uid p)" "a \<in> set (al_table st (uid_hash E (ap_curr_uid p)))"
    using find_uid_SomeD [OF assms(2)] by auto
  have "al_profile E (swap_in E a p st) = (al_profile E st)(ap_curr_uid p \<mapsto> p)"
  proof (rule ext, rule option_eqI)
    fix u q
    have "(\<exists>x. listed (swap_in E a p st) x \<and> prof_at (swap_in E a p st) x = Some q \<and> ap_curr_uid q = u)
      \<longleftrightarrow> (q = p \<and> ap_curr_uid p = u) \<or>
          (\<exists>x. x \<noteq> a \<and> listed st x \<and> prof_at st x = Some q \<and> ap_curr_uid q = u)"
      unfolding swap_in_listed [OF ch assms(2)] swap_in_prof using fresh_not_listed(1) [OF rf]
      by (metis (no_types, lifting) option.inject)
    also have "\<dots> \<longleftrightarrow> (if u = ap_curr_uid p then q = p else
          (\<exists>x. listed st x \<and> prof_at st x = Some q \<and> ap_curr_uid q = u))"
    proof -
      have "x = a" if "listed st x" "prof_at st x = Some q" "ap_curr_uid q = ap_curr_uid p" for x
      proof -
        have "x \<in> set (al_table st (uid_hash E (ap_curr_uid p)))"
          using that ch unfolding listed_def inv_chains_def by force
        moreover have "node_uid st x = node_uid st a" using that unfolding a(1) by (simp add: node_uid_def)
        ultimately show ?thesis by (rule chain_uid_inj [OF ch _ a(2)])
      qed
      moreover have "x \<noteq> a" if "prof_at st x = Some q" "ap_curr_uid q \<noteq> ap_curr_uid p" for x
        using that a(1) by (auto simp: node_uid_def)
      ultimately show ?thesis by (auto split: if_splits)
    qed
    finally show "al_profile E (swap_in E a p st) u = Some q \<longleftrightarrow>
        ((al_profile E st)(ap_curr_uid p \<mapsto> p)) u = Some q"
      unfolding al_profile_listed [OF ch', symmetric] al_profile_listed [OF ch, symmetric] by auto
  qed
  then show ?thesis
    using al_profile_put [OF inv', of a] by (simp add: replace_node_def)
qed

text \<open>The whole operation: it keeps the invariant, and stores the profile when it returns 0.\<close>

lemma good_stored:
  "wf_profile p \<Longrightarrow> profile_valid (disable_policy E) p \<Longrightarrow> good_profile E (stored_profile E p)"
  by (auto simp: good_profile_def stored_profile_def intro: profile_valid_reset)

lemma stored_profile_frame [simp]:
  "ap_curr_uid (stored_profile E p) = ap_curr_uid p" "ap_key (stored_profile E p) = ap_key p"
  "ap_allow_su (stored_profile E p) = ap_allow_su p"
  by (simp_all add: stored_profile_def)

lemma al_inv_note_default [simp]: "al_inv E held (note_default p st) = al_inv E held st"
  by (rule al_inv_frame) simp_all

lemma al_profile_note_default [simp]: "al_profile E (note_default p st) = al_profile E st"
  by (rule al_profile_frame) simp_all

lemma set_profile_inv:
  assumes "al_inv E held st" "wf_profile p"
  shows "al_inv E held (snd (ksu_set_app_profile E oom p st))"
  using assms al_inv_add_node [OF assms(1)] al_inv_replace_node [OF assms(1)]
  by (simp add: ksu_set_app_profile_def Let_def good_stored split: option.split)

lemma set_profile_ok:
  assumes "al_inv E held st" "wf_profile p" "ksu_set_app_profile E oom p st = (Inr (), st')"
  shows "al_profile E st' = (al_profile E st)(ap_curr_uid p \<mapsto> stored_profile E p)"
  using assms(2,3) al_profile_add_node [OF assms(1), of "stored_profile E p"]
    al_profile_replace_node [OF assms(1), of "stored_profile E p"]
  by (auto simp: ksu_set_app_profile_def Let_def good_stored split: option.splits if_splits)

lemma set_profile_err: "ksu_set_app_profile E oom p st = (Inl e, st') \<Longrightarrow> st' = st"
  by (auto simp: ksu_set_app_profile_def Let_def split: option.splits if_splits)

lemma set_profile_frame:
  "al_saves (snd (ksu_set_app_profile E oom p st)) = al_saves st"
  "al_file (snd (ksu_set_app_profile E oom p st)) = al_file st"
  by (auto simp: ksu_set_app_profile_def Let_def add_node_def replace_node_def swap_in_def
      split: option.split)

section \<open>Removing nodes\<close>

lemma distinct_all_nodes:
  assumes "inv_chains E st"
  shows "distinct (all_nodes st)"
proof -
  have "card (\<Union>b. set (al_table st b)) = (\<Sum>b \<in> UNIV. card (set (al_table st b)))"
    by (rule card_UN_disjoint) (use chain_bucket [OF assms] in auto)
  also have "\<dots> = node_total st"
    unfolding node_total_def using chain_distinct [OF assms] by (simp add: distinct_card)
  also have "(\<Union>b. set (al_table st b)) = set (all_nodes st)"
    by (auto simp: set_all_nodes listed_def)
  finally have "card (set (all_nodes st)) = length (all_nodes st)"
    by (simp add: length_all_nodes)
  then show ?thesis by (rule card_distinct)
qed

lemma hlist_del_table [simp]: "al_table (hlist_del a st) b = removeAll a (al_table st b)"
  by (simp add: hlist_del_def)

lemma hlist_del_simps [simp]:
  "al_heap (hlist_del a st) = al_heap st" "al_next (hlist_del a st) = al_next st"
  "al_count (hlist_del a st) = al_count st" "al_saves (hlist_del a st) = al_saves st"
  "al_file (hlist_del a st) = al_file st"
  "al_default_umount (hlist_del a st) = al_default_umount st"
  "prof_at (hlist_del a st) = prof_at st" "ref_of (hlist_del a st) = ref_of st"
  "node_uid (hlist_del a st) = node_uid st"
  by (simp_all add: hlist_del_def prof_at_def ref_of_def node_uid_def fun_eq_iff)

lemma hlist_del_listed [simp]: "listed (hlist_del a st) x \<longleftrightarrow> listed st x \<and> x \<noteq> a"
  by (auto simp: listed_def)

lemma hlist_del_chains: "inv_chains E st \<Longrightarrow> inv_chains E (hlist_del a st)"
  by (auto simp: inv_chains_def removeAll_filter_not_eq distinct_map_filter)

lemma hlist_del_refs:
  assumes "inv_refs held st" "listed st a"
  shows "inv_refs (held(a := held a + 1)) (hlist_del a st)"
  using assms by (auto simp: inv_refs_def)

lemma length_removeAll_distinct:
  "distinct xs \<Longrightarrow> length (removeAll a xs) + of_bool (a \<in> set xs) = length xs"
  by (induction xs) auto

lemma hlist_del_total:
  assumes "inv_chains E st" "listed st a"
  shows "node_total (hlist_del a st) + 1 = node_total st"
proof -
  obtain b where b: "a \<in> set (al_table st b)" using assms(2) by (auto simp: listed_def)
  then have only: "a \<in> set (al_table st c) \<longleftrightarrow> c = b" for c
    using chain_bucket [OF assms(1)] by blast
  have "(\<Sum>c \<in> UNIV. length (removeAll a (al_table st c)) + of_bool (c = b)) = node_total st"
    unfolding node_total_def
    using length_removeAll_distinct [OF chain_distinct [OF assms(1)], of a] by (simp add: only)
  then show ?thesis by (simp add: sum.distrib node_total_def of_bool_def)
qed

text \<open>One removal as \<open>ksu_prune_allowlist\<close> does it.\<close>

definition unlink :: "addr \<Rightarrow> allowlist \<Rightarrow> allowlist" where
  "unlink a st = (put_perm_data a (hlist_del a st))\<lparr>al_count := al_count st - 1\<rparr>"

lemma unlink_listed [simp]: "listed (unlink a st) x \<longleftrightarrow> listed st x \<and> x \<noteq> a"
  using hlist_del_listed [of a st x] by (simp add: unlink_def listed_def)

lemma unlink_prof: "x \<noteq> a \<Longrightarrow> prof_at (unlink a st) x = prof_at st x"
  using prof_at_put [of "hlist_del a st" x a] by (simp add: unlink_def prof_at_def)

lemma al_inv_unlink:
  assumes "al_inv E held st" "listed st a"
  shows "al_inv E held (unlink a st)"
proof -
  have ch: "inv_chains E (hlist_del a st)"
    and rf: "inv_refs (held(a := held a + 1)) (hlist_del a st)"
    using assms hlist_del_refs [of held st a] by (auto simp: al_inv_def hlist_del_chains)
  have "inv_refs held (put_perm_data a (hlist_del a st))"
    using inv_refs_put [OF rf, of a] by simp
  moreover have "inv_chains E (put_perm_data a (hlist_del a st))"
    by (rule inv_chains_put [OF ch rf]) simp
  moreover have "node_total (put_perm_data a (hlist_del a st)) + 1 = node_total st"
    using hlist_del_total [of E st a] assms by (simp add: al_inv_def)
  moreover have "unat (al_count st) = node_total st" using assms by (simp add: al_inv_def)
  moreover from calculation have "unat (al_count st - 1) = unat (al_count st) - 1"
    by (intro u16_dec) linarith
  ultimately show ?thesis
    unfolding unlink_def al_inv_count by simp
qed

lemma al_profile_unlink:
  assumes "al_inv E held st" "listed st a"
  shows "al_profile E (unlink a st) u = (if node_uid st a = Some u then None else al_profile E st u)"
proof (rule option_eqI)
  fix q
  have ch: "inv_chains E st" and ch': "inv_chains E (unlink a st)"
    using assms al_inv_unlink by (auto simp: al_inv_def)
  obtain b where b: "a \<in> set (al_table st b)" using assms(2) by (auto simp: listed_def)
  have same: "x = a"
    if x: "listed st x" "prof_at st x = Some q" "node_uid st a = Some (ap_curr_uid q)" for x
  proof -
    obtain c where c: "x \<in> set (al_table st c)" using x(1) by (auto simp: listed_def)
    have "c = b"
      by (rule chain_node [OF ch c], rule chain_node [OF ch b]) (use x in \<open>auto simp: node_uid_def\<close>)
    moreover have "node_uid st x = node_uid st a" unfolding x(3) using x(2) by (simp add: node_uid_def)
    ultimately show ?thesis using chain_uid_inj [OF ch _ b] c by blast
  qed
  have "(\<exists>x. listed (unlink a st) x \<and> prof_at (unlink a st) x = Some q \<and> ap_curr_uid q = u) \<longleftrightarrow>
      node_uid st a \<noteq> Some u \<and> (\<exists>x. listed st x \<and> prof_at st x = Some q \<and> ap_curr_uid q = u)"
  proof
    assume "\<exists>x. listed (unlink a st) x \<and> prof_at (unlink a st) x = Some q \<and> ap_curr_uid q = u"
    then obtain x where x: "listed st x" "x \<noteq> a" "prof_at st x = Some q" "ap_curr_uid q = u"
      by (auto simp: unlink_prof)
    then have "node_uid st a \<noteq> Some u" using same [of x] by auto
    then show "node_uid st a \<noteq> Some u \<and>
        (\<exists>x. listed st x \<and> prof_at st x = Some q \<and> ap_curr_uid q = u)" using x by blast
  next
    assume "node_uid st a \<noteq> Some u \<and>
        (\<exists>x. listed st x \<and> prof_at st x = Some q \<and> ap_curr_uid q = u)"
    then obtain x where x: "listed st x" "prof_at st x = Some q" "ap_curr_uid q = u" "node_uid st a \<noteq> Some u"
      by blast
    then have "x \<noteq> a" by (auto simp: node_uid_def)
    then show "\<exists>x. listed (unlink a st) x \<and> prof_at (unlink a st) x = Some q \<and> ap_curr_uid q = u"
      using x by (intro exI [of _ x]) (simp add: unlink_prof)
  qed
  then show "al_profile E (unlink a st) u = Some q \<longleftrightarrow>
      (if node_uid st a = Some u then None else al_profile E st u) = Some q"
    unfolding al_profile_listed [OF ch', symmetric] al_profile_listed [OF ch, symmetric] by simp
qed

subsection \<open>Pruning\<close>

definition doomed :: "(uid \<Rightarrow> bytes \<Rightarrow> bool) \<Rightarrow> app_profile \<Rightarrow> bool" where
  "doomed valid p \<longleftrightarrow>
     ap_curr_uid p \<noteq> KSU_APP_PROFILE_PRESERVE_UID \<and> \<not> valid (ap_curr_uid p) (ap_key p)"

lemma prune_loop_step:
  "prune_loop valid (a # as) modified st =
     (case prof_at st a of
        None \<Rightarrow> prune_loop valid as modified st
      | Some p \<Rightarrow> if doomed valid p then prune_loop valid as True (unlink a st)
                 else prune_loop valid as modified st)"
  by (auto simp: doomed_def unlink_def split: option.split)

lemma prune_loop_spec:
  assumes "al_inv E held st" "distinct as" "\<And>a. a \<in> set as \<Longrightarrow> listed st a"
    "prune_loop valid as modified st = (m, st')"
  shows "al_inv E held st' \<and>
    (\<forall>u. al_profile E st' u =
       (case al_profile E st u of
          None \<Rightarrow> None
        | Some p \<Rightarrow> if doomed valid p \<and> (\<exists>a \<in> set as. node_uid st a = Some u) then None else Some p)) \<and>
    (m \<longleftrightarrow> modified \<or> (\<exists>a \<in> set as. \<exists>p. prof_at st a = Some p \<and> doomed valid p)) \<and>
    al_saves st' = al_saves st \<and> al_file st' = al_file st"
  using assms
proof (induction as arbitrary: st modified)
  case Nil
  then show ?case by (auto split: option.split)
next
  case (Cons a as)
  have ch: "inv_chains E st" and l: "listed st a" using Cons.prems by (auto simp: al_inv_def)
  obtain p where p: "prof_at st a = Some p"
    by (rule listed_prof [OF ch l])
  then have ap: "al_profile E st (ap_curr_uid p) = Some p"
    using al_profile_listed [OF ch] l by blast
  show ?case
  proof (cases "doomed valid p")
    case False
    then have "prune_loop valid as modified st = (m, st')"
      using Cons.prems(4) p by (simp add: prune_loop_step del: prune_loop.simps)
    from Cons.IH [OF Cons.prems(1) _ _ this] Cons.prems(2,3) show ?thesis
      using False p ap by (auto simp: node_uid_def split: option.split)
  next
    case True
    let ?st = "unlink a st"
    have run: "prune_loop valid as True ?st = (m, st')"
      using Cons.prems(4) p True by (simp add: prune_loop_step del: prune_loop.simps)
    have inv: "al_inv E held ?st" by (rule al_inv_unlink [OF Cons.prems(1) l])
    have fr: "x \<noteq> a" if "x \<in> set as" for x using that Cons.prems(2) by auto
    have ls: "listed ?st x" if "x \<in> set as" for x
      using fr [OF that] that Cons.prems(3) by simp
    have pr: "prof_at ?st x = prof_at st x" "node_uid ?st x = node_uid st x" if "x \<in> set as" for x
      using fr [OF that] by (simp_all add: unlink_prof node_uid_def)
    have sv: "al_saves ?st = al_saves st" "al_file ?st = al_file st" by (simp_all add: unlink_def)
    from Cons.IH [OF inv _ ls run] Cons.prems(2) show ?thesis
      using True p ap pr sv al_profile_unlink [OF Cons.prems(1) l]
      by (auto simp: node_uid_def split: option.split)
  qed
qed

lemma doomed_listed:
  assumes "inv_chains E st"
  shows "(\<exists>a \<in> set (all_nodes st). \<exists>p. prof_at st a = Some p \<and> doomed valid p) \<longleftrightarrow>
    (\<exists>u p. al_profile E st u = Some p \<and> doomed valid p)"
  unfolding al_profile_listed [OF assms] Bex_def set_all_nodes by auto

lemma prune_spec:
  assumes "al_inv E held st"
    "prune_loop valid (all_nodes st) False st = (m, st')"
  shows "al_inv E held st'"
    "al_profile E st' u =
       (case al_profile E st u of None \<Rightarrow> None | Some p \<Rightarrow> if doomed valid p then None else Some p)"
    "m \<longleftrightarrow> (\<exists>u p. al_profile E st u = Some p \<and> doomed valid p)"
    "al_saves st' = al_saves st" "al_file st' = al_file st"
proof -
  have ch: "inv_chains E st" using assms(1) by (simp add: al_inv_def)
  note sp = prune_loop_spec [OF assms(1) distinct_all_nodes [OF ch] _ assms(2)]
  show "al_inv E held st'" "al_saves st' = al_saves st" "al_file st' = al_file st"
    using sp by (simp_all add: set_all_nodes)
  show "m \<longleftrightarrow> (\<exists>u p. al_profile E st u = Some p \<and> doomed valid p)"
    using sp by (simp add: set_all_nodes doomed_listed [OF ch, unfolded set_all_nodes])
  show "al_profile E st' u =
       (case al_profile E st u of None \<Rightarrow> None | Some p \<Rightarrow> if doomed valid p then None else Some p)"
  proof (cases "al_profile E st u")
    case (Some p)
    then obtain a where "listed st a" "prof_at st a = Some p" "ap_curr_uid p = u"
      unfolding al_profile_listed [OF ch] by blast
    then have "\<exists>a \<in> set (all_nodes st). node_uid st a = Some u"
      by (auto simp: set_all_nodes node_uid_def)
    then show ?thesis using sp Some by (simp add: set_all_nodes)
  qed (use sp in \<open>simp add: set_all_nodes\<close>)
qed

lemma persist_frame [simp]:
  "al_inv E held (ksu_persistent_allow_list pe st) = al_inv E held st"
  "al_profile E (ksu_persistent_allow_list pe st) = al_profile E st"
  "al_file (ksu_persistent_allow_list pe st) = al_file st"
  unfolding ksu_persistent_allow_list_def
  by (simp_all add: al_inv_frame [of "st\<lparr>al_saves := al_saves st + 1\<rparr>" st, simplified]
      al_profile_frame [of "st\<lparr>al_saves := al_saves st + 1\<rparr>" st, simplified])

lemma prune_inv: "al_inv E held st \<Longrightarrow> al_inv E held (ksu_prune_allowlist bc pe valid st)"
  using prune_spec(1) by (auto simp: ksu_prune_allowlist_def split: prod.split)

end
