(* ===== verification/Allowlist_Safety.thy ===== *)
theory Allowlist_Safety
  imports Allowlist_Inv
begin

text \<open>
  What the invariant gives: the behaviour of the queries over the abstract map, the step
  relation of the allowlist with the references its clients hold, and the safety of those
  references in every reachable state.
\<close>

section \<open>Queries over the abstract map\<close>

lemma ref_pos:
  assumes "al_inv E held st" "find_uid E st u = Some a"
  shows "0 < ref_of st a" "al_heap st a \<noteq> None" "listed st a"
proof -
  show l: "listed st a" using find_uid_SomeD [OF assms(2)] by (auto simp: listed_def)
  then show "0 < ref_of st a" "al_heap st a \<noteq> None"
    using assms(1) inv_refs_listed_live inv_refs_live by (metis al_inv_def)+
qed

lemma get_profile_cases:
  assumes "al_inv E held st"
  obtains (none) "al_profile E st u = None" "ksu_get_app_profile E u st = Some (None, st)"
  | (some) a p where "al_profile E st u = Some p" "prof_at st a = Some p" "listed st a"
      "ksu_get_app_profile E u st = Some (Some a, get_ref a st)"
proof (cases "find_uid E st u")
  case None
  then show ?thesis by (intro none) (simp_all add: al_profile_def ksu_get_app_profile_def)
next
  case (Some a)
  note r = ref_pos [OF assms Some]
  then obtain p where p: "prof_at st a = Some p" by (auto simp: prof_at_def)
  show ?thesis
    by (rule some [of p a]) (use Some r p in \<open>simp_all add: al_profile_def ksu_get_app_profile_def\<close>)
qed

lemma node_allows_iff: "node_uid st a = Some u \<and> node_allows st a \<longleftrightarrow>
    (\<exists>p. prof_at st a = Some p \<and> ap_curr_uid p = u \<and> ap_allow_su p)"
  by (auto simp: node_uid_def node_allows_def split: option.splits)

lemma is_allow_uid_iff:
  assumes "inv_chains E st"
  shows "ksu_is_allow_uid E m u st \<longleftrightarrow>
    \<not> forbid_system_uid u \<and>
    (is_uid_manager E m u \<or> (allow_shell E \<and> u = SHELL_UID) \<or>
     (\<exists>p. al_profile E st u = Some p \<and> ap_allow_su p))"
proof -
  have "list_ex (\<lambda>a. node_uid st a = Some u \<and> node_allows st a) (al_table st (uid_hash E u)) \<longleftrightarrow>
      (\<exists>p. al_profile E st u = Some p \<and> ap_allow_su p)"
    unfolding al_profile_Some [OF assms] list_ex_iff Bex_def node_allows_iff by blast
  then show ?thesis by (auto simp: ksu_is_allow_uid_def)
qed

lemma find_allowed:
  assumes "inv_chains E st"
  shows "find (\<lambda>a. node_uid st a = Some u \<and> node_allows st a) (al_table st (uid_hash E u)) =
    (case find_uid E st u of None \<Rightarrow> None | Some a \<Rightarrow> if node_allows st a then Some a else None)"
proof (cases "find_uid E st u")
  case None
  then have "find (\<lambda>a. node_uid st a = Some u \<and> node_allows st a) (al_table st (uid_hash E u)) = None"
    by (auto simp: find_uid_None find_None_iff)
  then show ?thesis using None by simp
next
  case (Some a)
  note a = find_uid_SomeD [OF Some]
  have uniq: "x = a" if "x \<in> set (al_table st (uid_hash E u))" "node_uid st x = Some u" for x
    using chain_uid_inj [OF assms that(1) a(1)] that(2) a(2) by simp
  show ?thesis
  proof (cases "node_allows st a")
    case True
    have "find (\<lambda>a. node_uid st a = Some u \<and> node_allows st a) (al_table st (uid_hash E u)) = Some a"
      by (rule find_unique) (use a True uniq in blast)+
    then show ?thesis using Some True by simp
  next
    case False
    then have "find (\<lambda>a. node_uid st a = Some u \<and> node_allows st a) (al_table st (uid_hash E u)) = None"
      using uniq by (auto simp: find_None_iff)
    then show ?thesis using Some False by simp
  qed
qed

text \<open>The profile \<open>ksu_get_root_profile\<close> promises.\<close>

definition root_spec :: "ksu_env \<Rightarrow> u32 \<Rightarrow> uid \<Rightarrow> allowlist \<Rightarrow> root_profile" where
  "root_spec E m u st =
     (if disable_policy E \<or> is_uid_manager E m u \<or> (allow_shell E \<and> u = SHELL_UID)
      then al_default_root st
      else case al_profile E st u of
          Some p \<Rightarrow> if ap_allow_su p \<and> \<not> ap_use_default p then ap_root p else al_default_root st
        | None \<Rightarrow> al_default_root st)"

definition hold_root :: "root_ref \<Rightarrow> (addr \<Rightarrow> nat) \<Rightarrow> addr \<Rightarrow> nat" where
  "hold_root r held = (case r of DefaultRoot \<Rightarrow> held | NodeRoot a \<Rightarrow> held(a := held a + 1))"

lemma get_root_profile_spec:
  assumes "al_inv E held st"
  obtains r st' where "ksu_get_root_profile E m u st = Some (r, st')"
    "al_inv E (hold_root r held) st'" "root_profile_of r st' = Some (root_spec E m u st)"
    "al_profile E st' = al_profile E st" "\<And>x. prof_at st' x = prof_at st x"
proof -
  have ch: "inv_chains E st" using assms by (simp add: al_inv_def)
  show ?thesis
  proof (cases "disable_policy E \<or> is_uid_manager E m u \<or> (allow_shell E \<and> u = SHELL_UID)")
    case True
    then show ?thesis
      by (intro that [of DefaultRoot st])
        (use assms in \<open>auto simp: ksu_get_root_profile_def hold_root_def root_profile_of_def root_spec_def\<close>)
  next
    case False
    show ?thesis
    proof (cases "find_uid E st u")
      case None
      show ?thesis
        by (rule that [of DefaultRoot st])
          (use False None assms in \<open>auto simp: ksu_get_root_profile_def find_allowed [OF ch]
             hold_root_def root_profile_of_def root_spec_def al_profile_def\<close>)
    next
      case (Some a)
      note r = ref_pos [OF assms Some]
      then obtain p where p: "prof_at st a = Some p" by (auto simp: prof_at_def)
      then have al: "al_profile E st u = Some p" by (simp add: al_profile_def Some)
      have na: "node_allows st a = ap_allow_su p" using p by (simp add: node_allows_def)
      show ?thesis
      proof (cases "ap_allow_su p \<and> \<not> ap_use_default p")
        case True
        have inv: "al_inv E (hold_root (NodeRoot a) held) (get_ref a st)"
          using al_inv_get [OF assms r(2)] by (simp add: hold_root_def)
        show ?thesis
          by (rule that [OF _ inv])
            (use True False Some p r al na in \<open>auto simp: ksu_get_root_profile_def find_allowed [OF ch]
               root_profile_of_def root_spec_def\<close>)
      next
        case False': False
        show ?thesis
          by (rule that [of DefaultRoot st])
            (use False False' Some p al na assms in \<open>auto simp: ksu_get_root_profile_def
               find_allowed [OF ch] hold_root_def root_profile_of_def root_spec_def\<close>)
      qed
    qed
  qed
qed

lemma umount_frame: "umount_of_profile (get_ref a st) po = umount_of_profile st po"
  by (simp add: umount_of_profile_def split: option.split)

lemma should_umount_spec:
  assumes "al_inv E held st"
  obtains st' where "ksu_uid_should_umount E m u st =
      Some (if ksu_is_manager_appid_valid E m \<and> ksu_get_manager_appid E m = u mod PER_USER_RANGE
              \<or> u = WEBVIEW_ZYGOTE_UID then False
            else if disable_policy E then \<not> ksu_is_allow_uid E m u st
            else umount_of_profile st (al_profile E st u), st')"
    "al_inv E held st'" "al_profile E st' = al_profile E st"
    "\<And>x. 0 < held x \<Longrightarrow> prof_at st' x = prof_at st x"
proof (cases "(ksu_is_manager_appid_valid E m \<and> ksu_get_manager_appid E m = u mod PER_USER_RANGE)
              \<or> u = WEBVIEW_ZYGOTE_UID \<or> disable_policy E")
  case True
  then show ?thesis by (intro that [of st]) (use assms in \<open>auto simp: ksu_uid_should_umount_def\<close>)
next
  case False
  show ?thesis
  proof (rule get_profile_cases [OF assms, of u])
    assume "al_profile E st u = None" "ksu_get_app_profile E u st = Some (None, st)"
    then show ?thesis
      by (intro that [of st]) (use False assms in \<open>auto simp: ksu_uid_should_umount_def\<close>)
  next
    fix a p
    assume a: "al_profile E st u = Some p" "prof_at st a = Some p" "listed st a"
      "ksu_get_app_profile E u st = Some (Some a, get_ref a st)"
    have live: "al_heap st a \<noteq> None" using a(2) by (auto simp: prof_at_def)
    let ?h = "held(a := held a + 1)" and ?st = "put_perm_data a (get_ref a st)"
    have inv: "al_inv E ?h (get_ref a st)" by (rule al_inv_get [OF assms live])
    moreover from inv have "prof_at ?st x = prof_at st x" if "0 < held x" for x
      using held_prof_drop [of held a "get_ref a st" x] that by (simp add: al_inv_def)
    moreover from inv have "al_inv E (?h(a := ?h a - 1)) ?st" by (rule al_inv_put) simp
    moreover from this have "al_inv E held ?st" by simp
    moreover have "al_profile E ?st = al_profile E st"
      using al_profile_put [OF inv, of a] by simp
    ultimately show ?thesis
      by (intro that [of ?st])
        (use False a in \<open>auto simp: ksu_uid_should_umount_def ksu_put_app_profile_def umount_frame\<close>)
  qed
qed

text \<open>The uids \<open>ksu_get_allow_list\<close> reports, in the order it visits them.\<close>

definition list_matches :: "ksu_env \<Rightarrow> u32 \<Rightarrow> bool \<Rightarrow> allowlist \<Rightarrow> addr list \<Rightarrow> uid list" where
  "list_matches E m allow st as =
     concat (map (\<lambda>a. case prof_at st a of
        Some p \<Rightarrow> if ap_allow_su p = allow \<and> \<not> is_uid_manager E m (ap_curr_uid p)
                   then [ap_curr_uid p] else []
      | None \<Rightarrow> []) as)"

lemma get_list_loop_spec:
  assumes "j = of_nat (length arr)" "length arr \<le> unat len"
  shows "get_list_loop E m allow len st as i j arr =
    (i + of_nat (length (list_matches E m allow st as)),
     of_nat (min (unat len) (length arr + length (list_matches E m allow st as))),
     take (unat len) (arr @ list_matches E m allow st as))"
  using assms
proof (induction as arbitrary: i j arr)
  case Nil
  then show ?case by (simp add: list_matches_def min_def)
next
  case (Cons a as)
  let ?rest = "list_matches E m allow st as"
  have bound: "length arr < 65536" using Cons.prems(2) unat_bound [of len] by simp
  then have uj: "unat j = length arr" using Cons.prems(1) by (simp add: unat_of_nat)
  show ?case
  proof (cases "\<exists>p. prof_at st a = Some p \<and> ap_allow_su p = allow \<and> \<not> is_uid_manager E m (ap_curr_uid p)")
    case False
    then have "list_matches E m allow st (a # as) = ?rest"
      by (auto simp: list_matches_def split: option.split)
    then show ?thesis
      using False Cons.IH [OF Cons.prems] by (auto split: option.split)
  next
    case True
    then obtain p where p: "prof_at st a = Some p" "ap_allow_su p = allow"
      "\<not> is_uid_manager E m (ap_curr_uid p)" by blast
    then have m: "list_matches E m allow st (a # as) = ap_curr_uid p # ?rest"
      by (simp add: list_matches_def)
    show ?thesis
    proof (cases "j < len")
      case True
      then have lt: "length arr < unat len" using uj by (simp add: word_less_nat_alt)
      have "get_list_loop E m allow len st (a # as) i j arr =
          get_list_loop E m allow len st as (i + 1) (j + 1) (arr @ [ap_curr_uid p])"
        using p True by simp
      also have "\<dots> = (i + 1 + of_nat (length ?rest),
          of_nat (min (unat len) (length arr + 1 + length ?rest)),
          take (unat len) ((arr @ [ap_curr_uid p]) @ ?rest))"
        by (subst Cons.IH) (use Cons.prems lt in auto)
      finally show ?thesis by (simp add: m)
    next
      case False
      then have full: "length arr = unat len"
        using uj Cons.prems(2) by (simp add: word_less_nat_alt)
      have "get_list_loop E m allow len st (a # as) i j arr =
          get_list_loop E m allow len st as (i + 1) j arr"
        using p False by simp
      then show ?thesis using Cons.IH [OF Cons.prems] full by (simp add: m)
    qed
  qed
qed

lemma get_allow_list_spec:
  "ksu_get_allow_list E m len allow st =
     (let us = list_matches E m allow st (all_nodes st)
      in (take (unat len) us, of_nat (min (unat len) (length us)), of_nat (length us)))"
  unfolding ksu_get_allow_list_def Let_def by (subst get_list_loop_spec) simp_all

lemma set_list_matches:
  assumes "inv_chains E st"
  shows "u \<in> set (list_matches E m allow st (all_nodes st)) \<longleftrightarrow>
    (\<exists>p. al_profile E st u = Some p \<and> ap_allow_su p = allow \<and> \<not> is_uid_manager E m u)"
proof -
  have *: "u \<in> set (list_matches E m allow st as) \<longleftrightarrow>
      (\<exists>a \<in> set as. \<exists>p. prof_at st a = Some p \<and> ap_curr_uid p = u \<and> ap_allow_su p = allow \<and>
        \<not> is_uid_manager E m u)" for as
    by (induction as) (auto simp: list_matches_def split: option.splits if_splits)
  show ?thesis
    unfolding al_profile_listed [OF assms] * Bex_def set_all_nodes by blast
qed

lemma length_list_matches: "length (list_matches E m allow st as) \<le> length as"
  by (induction as) (auto simp: list_matches_def split: option.split)

section \<open>The allowlist and its clients\<close>

text \<open>
  A state of the system is the table with the references its clients hold. Every operation is
  a step; a client may put back only a reference it holds.
\<close>

type_synonym al_sys = "(addr \<Rightarrow> nat) \<times> allowlist"

inductive al_step :: "ksu_env \<Rightarrow> al_sys \<Rightarrow> al_sys \<Rightarrow> bool" for E where
  set: "wf_profile p \<Longrightarrow> al_step E (h, st) (h, snd (ksu_set_app_profile E oom p st))"
| get_none: "ksu_get_app_profile E u st = Some (None, st') \<Longrightarrow> al_step E (h, st) (h, st')"
| get: "ksu_get_app_profile E u st = Some (Some a, st') \<Longrightarrow>
    al_step E (h, st) (h(a := h a + 1), st')"
| put: "0 < h a \<Longrightarrow> al_step E (h, st) (h(a := h a - 1), ksu_put_app_profile a st)"
| get_root: "ksu_get_root_profile E m u st = Some (r, st') \<Longrightarrow> al_step E (h, st) (hold_root r h, st')"
| put_root: "0 < h a \<Longrightarrow>
    al_step E (h, st) (h(a := h a - 1), ksu_put_root_profile (NodeRoot a) st)"
| umount: "ksu_uid_should_umount E m u st = Some (b, st') \<Longrightarrow> al_step E (h, st) (h, st')"
| prune: "al_step E (h, st) (h, ksu_prune_allowlist bc pe valid st)"
| persist: "al_step E (h, st) (h, ksu_persistent_allow_list pe st)"

inductive al_reach :: "ksu_env \<Rightarrow> al_sys \<Rightarrow> bool" for E where
  start: "al_reach E ((\<lambda>_. 0), ksu_allowlist_init cap file)"
| step: "al_reach E s \<Longrightarrow> al_step E s t \<Longrightarrow> al_reach E t"

lemma al_inv_init: "al_inv E (\<lambda>_. 0) (ksu_allowlist_init cap file)"
  by (simp add: al_inv_def inv_chains_def inv_refs_def node_total_def listed_def ref_of_def
      ksu_allowlist_init_def)

lemma al_profile_init [simp]: "al_profile E (ksu_allowlist_init cap file) u = None"
  by (simp add: al_profile_def find_uid_def ksu_allowlist_init_def)

lemma held_prof_set:
  assumes inv: "al_inv E held st" and wf: "wf_profile p" and x: "0 < held x"
  shows "prof_at (snd (ksu_set_app_profile E oom p st)) x = prof_at st x"
proof -
  have rf: "inv_refs held st" using inv by (simp add: al_inv_def)
  have fresh: "x \<noteq> al_next st" using fresh_not_listed(2) [OF rf] x by auto
  have nd: "prof_at (note_default q t) x = prof_at t x" for q t by (simp add: prof_at_def)
  have rep: "prof_at (replace_node E a q st) x = prof_at st x"
    if "find_uid E st (ap_curr_uid q) = Some a" "good_profile E q" for a q
  proof -
    have "inv_refs (held(a := held a + 1)) (swap_in E a q st)"
      using al_inv_swap_in [OF inv that] by (simp add: al_inv_def)
    then have "prof_at (replace_node E a q st) x = prof_at (swap_in E a q st) x"
      unfolding replace_node_def using x by (rule held_prof_drop)
    then show ?thesis using fresh by (simp add: swap_in_prof)
  qed
  show ?thesis
    using fresh rep good_stored [OF wf]
    by (simp add: ksu_set_app_profile_def Let_def nd add_node_prof split: option.split)
qed

lemma held_prof_unlink:
  assumes "al_inv E held st" "listed st a" "0 < held x"
  shows "prof_at (unlink a st) x = prof_at st x"
proof -
  have "inv_refs (held(a := held a + 1)) (hlist_del a st)"
    using assms(1,2) hlist_del_refs [of held st a] by (simp add: al_inv_def)
  then have "prof_at (put_perm_data a (hlist_del a st)) x = prof_at (hlist_del a st) x"
    using assms(3) by (rule held_prof_drop)
  then show ?thesis by (simp add: unlink_def prof_at_def)
qed

lemma held_prof_prune_loop:
  assumes "al_inv E held st" "distinct as" "\<And>a. a \<in> set as \<Longrightarrow> listed st a" "0 < held x"
  shows "prof_at (snd (prune_loop valid as modified st)) x = prof_at st x"
  using assms
proof (induction as arbitrary: st modified)
  case (Cons a as)
  have l: "listed st a" using Cons.prems by simp
  have "prof_at (snd (prune_loop valid as True (unlink a st))) x = prof_at st x"
  proof -
    have "prof_at (snd (prune_loop valid as True (unlink a st))) x = prof_at (unlink a st) x"
      by (rule Cons.IH) (use Cons.prems al_inv_unlink [OF Cons.prems(1) l] in auto)
    then show ?thesis using held_prof_unlink [OF Cons.prems(1) l Cons.prems(4)] by simp
  qed
  moreover have "prof_at (snd (prune_loop valid as modified st)) x = prof_at st x"
    by (rule Cons.IH) (use Cons.prems in auto)
  ultimately show ?case
    by (simp add: prune_loop_step del: prune_loop.simps split: option.split)
qed simp

lemma held_prof_prune:
  assumes "al_inv E held st" "0 < held x"
  shows "prof_at (ksu_prune_allowlist bc pe valid st) x = prof_at st x"
proof -
  have "prof_at (snd (prune_loop valid (all_nodes st) False st)) x = prof_at st x"
    by (rule held_prof_prune_loop)
      (use assms distinct_all_nodes in \<open>auto simp: set_all_nodes al_inv_def\<close>)
  then show ?thesis
    by (auto simp: ksu_prune_allowlist_def ksu_persistent_allow_list_def prof_at_def split: prod.split)
qed

lemma al_step_inv: "al_step E (h, st) (h', st') \<Longrightarrow> al_inv E h st \<Longrightarrow> al_inv E h' st'"
proof (induction "(h, st)" "(h', st')" rule: al_step.induct)
  case (get_none u)
  then show ?case by (auto intro: get_profile_cases [of E h st u])
next
  case (get u a)
  show ?case
  proof (rule get_profile_cases [OF get.prems, of u])
    fix b p assume b: "prof_at st b = Some p" "ksu_get_app_profile E u st = Some (Some b, get_ref b st)"
    then have "al_inv E (h(b := h b + 1)) (get_ref b st)"
      by (intro al_inv_get [OF get.prems]) (auto simp: prof_at_def)
    then show ?thesis using get b by auto
  qed (use get in simp)
next
  case (get_root m u r)
  then show ?case by (auto intro: get_root_profile_spec [OF get_root.prems, of m u])
next
  case (umount m u b)
  then show ?case by (auto intro: should_umount_spec [OF umount.prems, of m u])
qed (auto simp: set_profile_inv al_inv_put [simplified] ksu_put_app_profile_def ksu_put_root_profile_def
      prune_inv)

lemma al_reach_inv: "al_reach E s \<Longrightarrow> al_inv E (fst s) (snd s)"
  by (induction rule: al_reach.induct)
    (auto simp: al_inv_init dest: al_step_inv split: prod.splits)

lemma al_step_held:
  "al_step E (h, st) (h', st') \<Longrightarrow> al_inv E h st \<Longrightarrow> 0 < h x \<Longrightarrow> 0 < h' x \<Longrightarrow>
     prof_at st' x = prof_at st x"
proof (induction "(h, st)" "(h', st')" rule: al_step.induct)
  case (get_none u)
  then show ?case by (auto intro: get_profile_cases [of E h st u])
next
  case (get u a)
  then have "st' = get_ref a st"
    by (auto simp: ksu_get_app_profile_def split: option.splits if_splits)
  then show ?case by simp
next
  case (put a)
  then show ?case
    using held_prof_put [of h st a x] by (simp add: ksu_put_app_profile_def al_inv_def)
next
  case (get_root m u r)
  then show ?case by (auto intro: get_root_profile_spec [OF get_root.prems(1), of m u])
next
  case (put_root a)
  then show ?case
    using held_prof_put [of h st a x] by (simp add: ksu_put_root_profile_def al_inv_def)
next
  case (umount m u b)
  then show ?case by (auto intro: should_umount_spec [OF umount.prems(1), of m u])
next
  case (persist pe)
  then show ?case by (auto simp: ksu_persistent_allow_list_def prof_at_def)
qed (auto simp: held_prof_set held_prof_prune)

section \<open>A sample configuration for concrete runs\<close>

definition ex_env :: ksu_env where
  "ex_env = \<lparr>disable_policy = False, disable_manager = False, allow_shell = False, uid_hash = ucast\<rparr>"

definition ex_app :: "uid \<Rightarrow> bool \<Rightarrow> app_profile" where
  "ex_app u allow =
     \<lparr>ap_version = 4, ap_key = strscpy_pad (lit ''com.app'') 256, ap_curr_uid = u,
      ap_allow_su = allow, ap_use_default = False, ap_template_name = replicate 256 0,
      ap_root = zero_root_profile\<lparr>rp_selinux_domain := strscpy_pad KSU_DEFAULT_SELINUX_DOMAIN 64\<rparr>\<rparr>"

definition ex_list :: "uid \<Rightarrow> bool \<Rightarrow> allowlist" where
  "ex_list u allow = snd (ksu_set_app_profile ex_env False (ex_app u allow) (ksu_allowlist_init 0 None))"

lemma ex_env_simps [simp]:
  "disable_policy ex_env = False" "disable_manager ex_env = False" "allow_shell ex_env = False"
  "uid_hash ex_env = ucast"
  by (simp_all add: ex_env_def)

lemma ex_app_simps [simp]:
  "ap_curr_uid (ex_app u b) = u" "ap_allow_su (ex_app u b) = b" "ap_version (ex_app u b) = 4"
  "ap_use_default (ex_app u b) = False"
  by (simp_all add: ex_app_def)

lemma wf_ex_app [simp]: "wf_profile (ex_app u b)"
  by (simp add: ex_app_def wf_profile_def wf_root_profile_def zero_root_profile_def length_strscpy_pad)

lemma valid_ex_app [simp]: "profile_valid False (ex_app u b)"
  by (simp add: profile_valid_def ex_app_def strnlen_full length_strscpy_pad c_str_strscpy_pad
      zero_root_profile_def default_domain_chars)
    (simp add: KSU_DEFAULT_SELINUX_DOMAIN_def lit_def c_str_def)

lemma ex_set_ok:
  "u \<noteq> 9999 \<Longrightarrow>
   ksu_set_app_profile ex_env False (ex_app u b) (ksu_allowlist_init 0 None) = (Inr (), ex_list u b)"
  by (simp add: ex_list_def ksu_set_app_profile_def stored_profile_def find_uid_def
      ksu_allowlist_init_def Let_def)

lemma ex_list_inv: "al_inv ex_env (\<lambda>_. 0) (ex_list u b)"
  unfolding ex_list_def by (rule set_profile_inv [OF al_inv_init]) simp

lemma ex_list_profile: "u \<noteq> 9999 \<Longrightarrow> al_profile ex_env (ex_list u b) = [u \<mapsto> ex_app u b]"
  using set_profile_ok [OF al_inv_init _ ex_set_ok]
  by (simp add: stored_profile_def fun_eq_iff)

lemma ex_list_reach: "al_reach ex_env ((\<lambda>_. 0), ex_list u b)"
  unfolding ex_list_def by (rule al_reach.step [OF al_reach.start], rule al_step.set) simp

section \<open>Properties\<close>

text \<open>
  C1: in every state the allowlist can reach, however sets, lookups, releases and pruning
  interleave, a reference a client holds points to a live node with a valid profile (no use
  after free), a node is live exactly while the table or a client refers to it (no leak), and
  \<open>al_count\<close> is the number of nodes.
\<close>

theorem allowlist_reference_safety:
  assumes "al_reach E (h, st)"
  shows "(0 < h a \<longrightarrow> (\<exists>p. prof_at st a = Some p)) \<and>
    (al_heap st a \<noteq> None \<longleftrightarrow> a \<in> set (all_nodes st) \<or> 0 < h a) \<and>
    (a \<in> set (all_nodes st) \<longrightarrow> (\<exists>p. prof_at st a = Some p \<and> profile_valid (disable_policy E) p)) \<and>
    unat (al_count st) = length (all_nodes st)"
proof -
  have inv: "al_inv E h st" using al_reach_inv [OF assms] by simp
  then have rf: "inv_refs h st" and ch: "inv_chains E st" by (auto simp: al_inv_def)
  have "al_heap st a \<noteq> None \<longleftrightarrow> listed st a \<or> 0 < h a"
    unfolding inv_refs_live [OF rf, symmetric] using rf by (auto simp: inv_refs_def)
  moreover have "listed st a \<Longrightarrow> \<exists>p. prof_at st a = Some p \<and> profile_valid (disable_policy E) p"
    by (rule listed_prof [OF ch]) (auto simp: good_profile_def)
  ultimately show ?thesis
    using inv by (auto simp: set_all_nodes length_all_nodes al_inv_def prof_at_def)
qed

lemma allowlist_reference_safety_witness:
  "al_reach ex_env ((\<lambda>_. 0), ex_list 10001 True) \<and> unat (al_count (ex_list 10001 True)) = length (all_nodes (ex_list 10001 True))"
  using allowlist_reference_safety [OF ex_list_reach [of 10001 True], of 1] ex_list_reach by blast

text \<open>
  C2: a profile a client holds never changes under it: no step that leaves the client a
  reference alters the profile at that address, even when the step replaces or prunes the node.
\<close>

theorem held_profile_immutable:
  assumes "al_reach E (h, st)" "al_step E (h, st) (h', st')" "0 < h a" "0 < h' a"
  shows "\<exists>p. prof_at st a = Some p \<and> prof_at st' a = Some p"
proof -
  have inv: "al_inv E h st" using al_reach_inv [OF assms(1)] by simp
  then have "al_heap st a \<noteq> None"
    using inv_refs_held_live assms(3) unfolding al_inv_def by blast
  then show ?thesis
    using al_step_held [OF assms(2) inv assms(3,4)] by (auto simp: prof_at_def)
qed

lemma held_profile_immutable_witness:
  "\<exists>(h :: addr \<Rightarrow> nat) st a p st'. 0 < h a \<and> prof_at st a = Some p \<and> ap_allow_su p \<and>
     st' = snd (ksu_set_app_profile ex_env False (ex_app 10001 False) st) \<and> prof_at st' a = Some p"
proof -
  let ?s0 = "ex_list 10001 True" and ?z = "\<lambda>_ :: addr. 0 :: nat"
  have al: "al_profile ex_env ?s0 10001 = Some (ex_app 10001 True)"
    by (simp add: ex_list_profile)
  show ?thesis
  proof (rule get_profile_cases [OF ex_list_inv, of 10001 True 10001])
    fix a p
    assume a: "al_profile ex_env ?s0 10001 = Some p" "prof_at ?s0 a = Some p"
      "ksu_get_app_profile ex_env 10001 ?s0 = Some (Some a, get_ref a ?s0)"
    let ?h = "?z(a := ?z a + 1)" and ?st = "get_ref a ?s0"
    have r: "al_reach ex_env (?h, ?st)"
      by (rule al_reach.step [OF ex_list_reach al_step.get [OF a(3)]])
    have st: "al_step ex_env (?h, ?st) (?h, snd (ksu_set_app_profile ex_env False (ex_app 10001 False) ?st))"
      by (rule al_step.set) simp
    have "0 < ?h a" by simp
    with held_profile_immutable [OF r st, of a] a al show ?thesis
      by (intro exI [of _ ?h] exI [of _ ?st] exI [of _ a] exI [of _ p]
          exI [of _ "snd (ksu_set_app_profile ex_env False (ex_app 10001 False) ?st)"]) auto
  qed (use al in simp)
qed

text \<open>
  C3: \<open>ksu_set_app_profile\<close> on every branch. It succeeds exactly for a valid profile that does
  not take the reserved uid under another key, with memory, and with a free place when the uid
  is new; then the abstract map is updated at that uid alone, the cached default follows the
  reserved entry, and nothing else of the map changes. On any error the state is unchanged.
\<close>

theorem set_app_profile_spec:
  assumes "al_inv E held st" "wf_profile p"
    and "ksu_set_app_profile E oom p st = (r, st')"
  shows "(r = Inr () \<longleftrightarrow> profile_valid (disable_policy E) p \<and>
      (ap_curr_uid p = KSU_APP_PROFILE_PRESERVE_UID \<longrightarrow> c_str (ap_key p) = lit ''$'') \<and>
      (al_profile E st (ap_curr_uid p) = None \<longrightarrow> unat (al_count st) < 65535) \<and> \<not> oom) \<and>
    (r = Inr () \<longrightarrow> al_profile E st' = (al_profile E st)(ap_curr_uid p \<mapsto> stored_profile E p) \<and>
      al_default_umount st' = (if ap_curr_uid p = KSU_APP_PROFILE_PRESERVE_UID
         then nrp_umount_modules (stored_profile E p) else al_default_umount st)) \<and>
    (r \<noteq> Inr () \<longrightarrow> st' = st \<and> r \<in> {Inl EINVAL, Inl ENOMEM, Inl E2BIG}) \<and>
    al_inv E held st'"
proof -
  have full: "al_count st = 0xFFFF \<longleftrightarrow> \<not> unat (al_count st) < 65535"
  proof -
    have "unat (al_count st) < 65536" using unat_bound [of "al_count st"] by simp
    moreover have "al_count st = 0xFFFF \<longleftrightarrow> unat (al_count st) = 65535"
      by (simp add: word_unat_eq_iff)
    ultimately show ?thesis by linarith
  qed
  have nofind: "al_profile E st u = None \<longleftrightarrow> find_uid E st u = None" for u
    using find_uid_SomeD(2) [of E st u]
    by (cases "find_uid E st u") (auto simp: al_profile_def node_uid_def)
  have key: "str_eq (ap_key p) (lit ''$'') \<longleftrightarrow> c_str (ap_key p) = lit ''$''"
    by (simp add: str_eq_def lit_def c_str_def)
  have iff: "r = Inr () \<longleftrightarrow> profile_valid (disable_policy E) p \<and>
      (ap_curr_uid p = KSU_APP_PROFILE_PRESERVE_UID \<longrightarrow> c_str (ap_key p) = lit ''$'') \<and>
      (al_profile E st (ap_curr_uid p) = None \<longrightarrow> unat (al_count st) < 65535) \<and> \<not> oom"
    using assms(3) full
    by (auto simp: ksu_set_app_profile_def Let_def key nofind split: option.splits if_splits)
  have err: "r \<noteq> Inr () \<Longrightarrow> st' = st \<and> r \<in> {Inl EINVAL, Inl ENOMEM, Inl E2BIG}"
    using assms(3)
    by (auto simp: ksu_set_app_profile_def Let_def split: option.splits if_splits)
  have dflt: "r = Inr () \<Longrightarrow> al_default_umount st' =
      (if ap_curr_uid p = KSU_APP_PROFILE_PRESERVE_UID
       then nrp_umount_modules (stored_profile E p) else al_default_umount st)"
    using assms(3)
    by (auto simp: ksu_set_app_profile_def Let_def note_default_def add_node_def replace_node_def
        swap_in_def split: option.splits if_splits)
  show ?thesis
    using iff err dflt set_profile_ok [OF assms(1,2), of oom st'] assms(3)
      set_profile_inv [OF assms(1,2), of oom] by auto
qed

lemma set_app_profile_spec_witness:
  "al_profile ex_env (snd (ksu_set_app_profile ex_env False (ex_app 10002 False) (ex_list 10001 True))) =
     [10001 \<mapsto> ex_app 10001 True, 10002 \<mapsto> ex_app 10002 False]"
proof -
  have c: "unat (al_count (ex_list 10001 True)) < 65535"
    by (simp add: ex_list_def ksu_set_app_profile_def stored_profile_def find_uid_def
        ksu_allowlist_init_def Let_def add_node_def note_default_def)
  obtain r st' where run: "ksu_set_app_profile ex_env False (ex_app 10002 False) (ex_list 10001 True) = (r, st')"
    by fastforce
  have ok: "r = Inr ()"
    using set_app_profile_spec [OF ex_list_inv wf_ex_app run] c by simp
  show ?thesis
    using set_app_profile_spec [OF ex_list_inv wf_ex_app run] ok
    by (simp add: run ex_list_profile stored_profile_def)
qed

text \<open>
  C4: who may become root. \<open>__ksu_is_allow_uid\<close> grants a uid exactly when it is not a forbidden
  system uid (below 2000 other than 1000) and it is the manager, or the shell while
  \<open>allow_shell\<close> is set, or its stored profile allows su. In particular uid 0 is never granted
  by the list; for the current task it counts only inside the module's own domain.
\<close>

theorem is_allow_uid_spec:
  assumes "al_reach E (h, st)"
  shows "(ksu_is_allow_uid E m u st \<longleftrightarrow> (2000 \<le> u \<or> u = 1000) \<and>
      (is_uid_manager E m u \<or> (allow_shell E \<and> u = 2000) \<or>
       (\<exists>p. al_profile E st u = Some p \<and> ap_allow_su p))) \<and>
    \<not> ksu_is_allow_uid E m 0 st \<and>
    ksu_is_allow_uid_for_current E m in_ksu 0 st = in_ksu \<and>
    (u \<noteq> 0 \<longrightarrow> ksu_is_allow_uid_for_current E m in_ksu u st = ksu_is_allow_uid E m u st)"
proof -
  have "inv_chains E st" using al_reach_inv [OF assms] by (simp add: al_inv_def)
  from is_allow_uid_iff [OF this] show ?thesis
    by (auto simp: forbid_system_uid_def ksu_is_allow_uid_for_current_def not_less)
qed

lemma is_allow_uid_spec_witness:
  "ksu_is_allow_uid ex_env 0xFFFFFFFF 10001 (ex_list 10001 True) \<and>
   \<not> ksu_is_allow_uid ex_env 0xFFFFFFFF 10001 (ex_list 10001 False) \<and>
   \<not> ksu_is_allow_uid ex_env 0xFFFFFFFF 500 (ex_list 500 True)"
  using is_allow_uid_spec [OF ex_list_reach [of 10001 True], of "0xFFFFFFFF" 10001]
    is_allow_uid_spec [OF ex_list_reach [of 10001 False], of "0xFFFFFFFF" 10001]
    is_allow_uid_spec [OF ex_list_reach [of 500 True], of "0xFFFFFFFF" 500]
  by (simp add: ex_list_profile is_uid_manager_def)

text \<open>
  C5: the root profile of a uid. \<open>ksu_get_root_profile\<close> always returns, hands out a live
  profile, and that is the stored one for a non-default su profile and the cached default
  otherwise; releasing it restores every reference count.
\<close>

theorem get_root_profile_total:
  assumes "al_reach E (h, st)"
  shows "\<exists>r st'. ksu_get_root_profile E m u st = Some (r, st') \<and>
    root_profile_of r st' = Some (root_spec E m u st) \<and>
    al_inv E h (ksu_put_root_profile r st') \<and>
    ref_of (ksu_put_root_profile r st') = ref_of st"
proof -
  have inv: "al_inv E h st" using al_reach_inv [OF assms] by simp
  show ?thesis
  proof (rule get_root_profile_spec [OF inv, of m u])
    fix r st'
    assume r: "ksu_get_root_profile E m u st = Some (r, st')" "al_inv E (hold_root r h) st'"
      "root_profile_of r st' = Some (root_spec E m u st)"
    have "al_inv E h (ksu_put_root_profile r st')"
    proof (cases r)
      case DefaultRoot
      then show ?thesis using r(2) by (simp add: hold_root_def ksu_put_root_profile_def)
    next
      case (NodeRoot a)
      then have "al_inv E ((h(a := h a + 1))(a := (h(a := h a + 1)) a - 1)) (put_perm_data a st')"
        using r(2) by (intro al_inv_put) (simp_all add: hold_root_def)
      then show ?thesis using NodeRoot by (simp add: ksu_put_root_profile_def)
    qed
    moreover have "ref_of (ksu_put_root_profile r st') = ref_of st"
    proof
      fix x
      show "ref_of (ksu_put_root_profile r st') x = ref_of st x"
        using r(1) by (auto simp: ksu_get_root_profile_def ksu_put_root_profile_def ref_of_put
            ref_of_get_ref split: if_splits option.splits root_ref.splits)
    qed
    ultimately show ?thesis using r by blast
  qed
qed

lemma get_root_profile_total_witness:
  "\<exists>r st'. ksu_get_root_profile ex_env 0xFFFFFFFF 10001 (ex_list 10001 True) = Some (r, st') \<and>
     root_profile_of r st' = Some (ap_root (ex_app 10001 True))"
  using get_root_profile_total [OF ex_list_reach [of 10001 True], of "0xFFFFFFFF" 10001]
  by (auto simp: root_spec_def ex_list_profile is_uid_manager_def)

text \<open>
  Whether modules are unmounted for a uid. The decision always returns, never unmounts for
  the manager or the webview zygote, never for a profile allowed su, and otherwise follows the
  profile's own switch or, without one of its own, the cached default. The call leaves every
  profile of the table as it was.
\<close>

theorem should_umount_decision:
  assumes "al_reach E (h, st)" "\<not> disable_policy E"
  shows "\<exists>st'. ksu_uid_should_umount E m u st =
      Some (\<not> (ksu_is_manager_appid_valid E m \<and> ksu_get_manager_appid E m = u mod 100000) \<and>
            u \<noteq> 1053 \<and>
            (case al_profile E st u of
               None \<Rightarrow> al_default_umount st
             | Some p \<Rightarrow> \<not> ap_allow_su p \<and>
                 (if nrp_use_default p then al_default_umount st else nrp_umount_modules p)), st') \<and>
    al_profile E st' = al_profile E st"
proof -
  have inv: "al_inv E h st" using al_reach_inv [OF assms(1)] by simp
  obtain st' where "ksu_uid_should_umount E m u st =
      Some (if ksu_is_manager_appid_valid E m \<and> ksu_get_manager_appid E m = u mod PER_USER_RANGE
              \<or> u = WEBVIEW_ZYGOTE_UID then False
            else if disable_policy E then \<not> ksu_is_allow_uid E m u st
            else umount_of_profile st (al_profile E st u), st')"
    and st': "al_profile E st' = al_profile E st"
    using should_umount_spec [OF inv, of m u] by metis
  then show ?thesis
    using assms(2) by (intro exI [of _ st'])
      (auto simp: umount_of_profile_def split: option.split)
qed

lemma should_umount_decision_witness:
  "(\<exists>st'. ksu_uid_should_umount ex_env 0xFFFFFFFF 10001 (ex_list 10001 True) = Some (False, st')) \<and>
   (\<exists>st'. ksu_uid_should_umount ex_env 0xFFFFFFFF 10002 (ex_list 10001 True) = Some (True, st'))"
proof -
  have d: "al_default_umount (ex_list 10001 True)"
    by (simp add: ex_list_def ksu_set_app_profile_def stored_profile_def find_uid_def
        ksu_allowlist_init_def Let_def add_node_def note_default_def)
  show ?thesis
    using should_umount_decision [OF ex_list_reach [of 10001 True], of "0xFFFFFFFF" 10001]
      should_umount_decision [OF ex_list_reach [of 10001 True], of "0xFFFFFFFF" 10002] d
    by (auto simp: ex_list_profile ksu_is_manager_appid_valid_def)
qed

text \<open>
  \<open>ksu_get_allow_list\<close> writes no more uids than the caller's array holds, reports how many
  it wrote and how many there are, and the uids are exactly those of the profiles with the
  asked \<open>allow_su\<close> other than the manager's; neither 16-bit counter can wrap, because the
  table holds at most 65535 nodes.
\<close>

theorem get_allow_list_exact:
  assumes "al_reach E (h, st)" and "ksu_get_allow_list E m len allow st = (arr, out_length, out_total)"
  shows "\<exists>us. set us = {u. \<exists>p. al_profile E st u = Some p \<and> ap_allow_su p = allow \<and> \<not> is_uid_manager E m u} \<and>
    unat out_total = length us \<and> arr = take (unat len) us \<and>
    unat out_length = length arr \<and> length arr \<le> unat len"
proof -
  have inv: "al_inv E h st" using al_reach_inv [OF assms(1)] by simp
  then have ch: "inv_chains E st" by (simp add: al_inv_def)
  let ?us = "list_matches E m allow st (all_nodes st)"
  have "length ?us \<le> unat (al_count st)"
    using length_list_matches [of E m allow st "all_nodes st"] inv
    by (simp add: al_inv_def length_all_nodes)
  then have small: "length ?us < 65536" using unat_bound [of "al_count st"] by simp
  have "arr = take (unat len) ?us" "out_length = of_nat (min (unat len) (length ?us))"
    "out_total = of_nat (length ?us)"
    using assms(2) by (simp_all add: get_allow_list_spec Let_def)
  then show ?thesis
    using small set_list_matches [OF ch, of _ m allow]
    by (intro exI [of _ ?us]) (auto simp: unat_of_nat min_def)
qed

lemma get_allow_list_exact_witness:
  "\<exists>arr n t. ksu_get_allow_list ex_env 0xFFFFFFFF 8 True (ex_list 10001 True) = (arr, n, t) \<and>
     set arr \<subseteq> {10001} \<and> 0 < unat t"
proof -
  obtain arr n t where run: "ksu_get_allow_list ex_env 0xFFFFFFFF 8 True (ex_list 10001 True) = (arr, n, t)"
    by (metis prod_cases3)
  from get_allow_list_exact [OF ex_list_reach run]
  obtain us where us: "set us = {10001}" "unat t = length us" "arr = take (unat (8 :: u16)) us"
    by (auto simp: ex_list_profile is_uid_manager_def split: if_splits)
  then have "us \<noteq> []" by auto
  then show ?thesis using run us by (auto dest: in_set_takeD)
qed

text \<open>
  Pruning. Before boot has completed nothing happens; afterwards exactly the profiles whose
  uid is not the reserved one and which the package list no longer confirms disappear, every
  other profile stays, and a save of the list is requested exactly when one was removed.
\<close>

theorem prune_allowlist_spec:
  assumes "al_reach E (h, st)"
  shows "ksu_prune_allowlist False pe valid st = st \<and>
    (let st' = ksu_prune_allowlist True pe valid st in
      (\<forall>u. al_profile E st' u =
         (case al_profile E st u of None \<Rightarrow> None
          | Some p \<Rightarrow> if u \<noteq> 9999 \<and> \<not> valid u (ap_key p) then None else Some p)) \<and>
      al_saves st' = al_saves st +
        of_bool ((\<exists>u p. al_profile E st u = Some p \<and> u \<noteq> 9999 \<and> \<not> valid u (ap_key p)) \<and>
          init_task_found pe \<and> cb_allocated pe \<and> work_added pe))"
proof -
  have inv: "al_inv E h st" using al_reach_inv [OF assms] by simp
  obtain md st1 where run: "prune_loop valid (all_nodes st) False st = (md, st1)" by fastforce
  note sp = prune_spec [OF inv run]
  have d: "doomed valid p \<longleftrightarrow> u \<noteq> 9999 \<and> \<not> valid u (ap_key p)" if "al_profile E st u = Some p" for u p
    using al_profile_uid [OF that] by (simp add: doomed_def)
  have st': "ksu_prune_allowlist True pe valid st = (if md then ksu_persistent_allow_list pe st1 else st1)"
    by (simp add: ksu_prune_allowlist_def run)
  have "al_profile E (ksu_prune_allowlist True pe valid st) u =
      (case al_profile E st u of None \<Rightarrow> None
       | Some p \<Rightarrow> if u \<noteq> 9999 \<and> \<not> valid u (ap_key p) then None else Some p)" for u
    using sp(2) [of u] d [of u] by (simp add: st' split: option.split)
  moreover have "md \<longleftrightarrow> (\<exists>u p. al_profile E st u = Some p \<and> u \<noteq> 9999 \<and> \<not> valid u (ap_key p))"
    unfolding sp(3) using d by blast
  moreover have "al_saves (ksu_prune_allowlist True pe valid st) = al_saves st +
      of_bool (md \<and> init_task_found pe \<and> cb_allocated pe \<and> work_added pe)"
    using sp(4) by (simp add: st' ksu_persistent_allow_list_def)
  moreover have "ksu_prune_allowlist False pe valid st = st" by (simp add: ksu_prune_allowlist_def)
  ultimately show ?thesis unfolding Let_def by (intro conjI allI) simp_all
qed

lemma prune_allowlist_spec_witness:
  "al_profile ex_env (ksu_prune_allowlist True \<lparr>init_task_found = True, cb_allocated = True, work_added = True\<rparr>
      (\<lambda>u k. False) (ex_list 10001 True)) 10001 = None"
  using prune_allowlist_spec [OF ex_list_reach [of 10001 True],
      of "\<lparr>init_task_found = True, cb_allocated = True, work_added = True\<rparr>" "\<lambda>u k. False"]
  by (simp add: ex_list_profile Let_def)

section \<open>Unloading\<close>

lemma exit_loop_spec:
  assumes "inv_chains E st" "inv_refs held st" "distinct as" "\<And>a. a \<in> set as \<Longrightarrow> listed st a"
  shows "inv_chains E (exit_loop as st) \<and> inv_refs held (exit_loop as st) \<and>
    (\<forall>x. listed (exit_loop as st) x \<longleftrightarrow> listed st x \<and> x \<notin> set as)"
  using assms
proof (induction as arbitrary: st)
  case (Cons a as)
  have l: "listed st a" using Cons.prems by simp
  have rf: "inv_refs (held(a := held a + 1)) (hlist_del a st)"
    by (rule hlist_del_refs [OF Cons.prems(2) l])
  let ?st = "put_perm_data a (hlist_del a st)"
  have "inv_refs ((held(a := held a + 1))(a := (held(a := held a + 1)) a - 1)) ?st"
    by (rule inv_refs_put [OF rf]) simp
  then have rf': "inv_refs held ?st" by simp
  have ch': "inv_chains E ?st"
    by (rule inv_chains_put [OF hlist_del_chains [OF Cons.prems(1)] rf]) simp
  have "listed ?st x" if "x \<in> set as" for x using that Cons.prems(3,4) by auto
  from Cons.IH [OF ch' rf' _ this] Cons.prems(3) show ?case by auto
qed simp

text \<open>
  Unloading the module empties the table and frees every node no client holds; a node
  still held stays allocated until its client puts it back.
\<close>

theorem allowlist_exit_frees:
  assumes "al_reach E (h, st)"
  shows "all_nodes (ksu_allowlist_exit st) = [] \<and>
    (al_heap (ksu_allowlist_exit st) a \<noteq> None \<longleftrightarrow> 0 < h a)"
proof -
  have inv: "al_inv E h st" using al_reach_inv [OF assms] by simp
  then have ch: "inv_chains E st" and rf: "inv_refs h st" by (auto simp: al_inv_def)
  have sp: "inv_chains E (ksu_allowlist_exit st)" "inv_refs h (ksu_allowlist_exit st)"
    "\<not> listed (ksu_allowlist_exit st) x" for x
    using exit_loop_spec [OF ch rf distinct_all_nodes [OF ch]]
    by (auto simp: ksu_allowlist_exit_def set_all_nodes)
  have "x \<notin> set (all_nodes (ksu_allowlist_exit st))" for x
    by (simp add: set_all_nodes sp(3))
  then have "all_nodes (ksu_allowlist_exit st) = []" by (metis ex_in_conv set_empty)
  moreover have "al_heap (ksu_allowlist_exit st) a \<noteq> None \<longleftrightarrow> 0 < h a"
    unfolding inv_refs_live [OF sp(2), symmetric] using sp(2,3) by (simp add: inv_refs_def)
  ultimately show ?thesis by simp
qed

lemma allowlist_exit_frees_witness:
  "al_heap (ksu_allowlist_exit (ex_list 10001 True)) 1 = None"
  using allowlist_exit_frees [OF ex_list_reach [of 10001 True], of 1] by simp

end
