(* ===== verification/Allowlist_Store.thy ===== *)
theory Allowlist_Store
  imports Allowlist_Safety
begin

text \<open>
  The allowlist file of \<^verbatim>\<open>kernel/policy/allowlist.c\<close>: \<open>do_persistent_allow_list\<close> writes a
  magic number, a format version and the memory image of every profile in table order;
  \<open>ksu_load_allow_list\<close> reads them back, migrating older formats. A \<open>locale\<close> states what
  loading needs of the table it fills (an upsert on a finite map of bounded size) and proves
  what a fold of upserts stores; the allowlist itself interprets it.
\<close>

abbreviation (input) "FILE_MAGIC \<equiv> (0x7f4b5355 :: u32)"
abbreviation (input) "FILE_FORMAT_VERSION \<equiv> (4 :: u32)"

section \<open>Saving\<close>

text \<open>
  What the file system answers to the save: whether the file can be created, and how many bytes
  a write of \<open>n\<close> bytes at an offset accepts. \<open>kernel_write\<close> returns that number and
  advances the offset by it.
\<close>

record write_env =
  we_open :: bool
  we_accept :: "nat \<Rightarrow> nat \<Rightarrow> nat"

definition kernel_write :: "write_env \<Rightarrow> bytes \<Rightarrow> bytes \<Rightarrow> nat \<times> bytes" where
  "kernel_write w data file =
     (let n = min (we_accept w (length file) (length data)) (length data)
      in (n, file @ take n data))"

fun write_profiles :: "write_env \<Rightarrow> allowlist \<Rightarrow> addr list \<Rightarrow> bytes \<Rightarrow> bytes" where
  "write_profiles w st [] file = file"
| "write_profiles w st (a # as) file =
     (case prof_at st a of
        None \<Rightarrow> write_profiles w st as file
      | Some p \<Rightarrow> write_profiles w st as (snd (kernel_write w (profile_image p) file)))"

definition save_file :: "write_env \<Rightarrow> allowlist \<Rightarrow> bytes" where
  "save_file w st =
     (let (n1, f1) = kernel_write w (le32 FILE_MAGIC) [] in
      if n1 \<noteq> 4 then f1
      else let (n2, f2) = kernel_write w (le32 FILE_FORMAT_VERSION) f1 in
        if n2 \<noteq> 4 then f2 else write_profiles w st (all_nodes st) f2)"

text \<open>The queued callback: it consumes one save request, and a file that opens is truncated first.\<close>

definition do_persistent_allow_list :: "write_env \<Rightarrow> allowlist \<Rightarrow> allowlist" where
  "do_persistent_allow_list w st =
     (let st1 = st\<lparr>al_saves := al_saves st - 1\<rparr> in
      if we_open w then st1\<lparr>al_file := Some (save_file w st)\<rparr> else st1)"

section \<open>Loading\<close>

text \<open>
  The environment of a load: whether a read at an offset succeeds, whether the table's
  allocation for the record at an offset fails, and what the stack buffer holds behind the
  776 bytes that a record of an older format fills (\<open>re_stale\<close>).
\<close>

record read_env =
  re_read_ok :: "nat \<Rightarrow> bool"
  re_oom :: "nat \<Rightarrow> bool"
  re_stale :: "nat \<Rightarrow> bytes"

definition kernel_read :: "read_env \<Rightarrow> bytes \<Rightarrow> nat \<Rightarrow> nat \<Rightarrow> bytes option" where
  "kernel_read r file off n = (if re_read_ok r off then Some (slice off n file) else None)"

definition app_profile_size :: "u32 \<Rightarrow> nat" where
  "app_profile_size v = (if v < KSU_APP_PROFILE_VER then kAppProfileSizePreV4 else sizeof_app_profile)"

text \<open>The structure the loop body holds after a read of one record at \<open>off\<close>.\<close>

definition loaded_profile :: "read_env \<Rightarrow> u32 \<Rightarrow> nat \<Rightarrow> bytes \<Rightarrow> app_profile" where
  "loaded_profile r v off buf =
     migrate_profile v (profile_of_image (take sizeof_app_profile (buf @ re_stale r off @ replicate 8 0)))"

function load_loop ::
    "ksu_env \<Rightarrow> read_env \<Rightarrow> u32 \<Rightarrow> bytes \<Rightarrow> nat \<Rightarrow> allowlist \<Rightarrow> allowlist" where
  "load_loop E r v file off st =
     (case kernel_read r file off (app_profile_size v) of
        None \<Rightarrow> st
      | Some buf \<Rightarrow>
          if length buf \<noteq> app_profile_size v then st
          else load_loop E r v file (off + app_profile_size v)
                 (snd (ksu_set_app_profile E (re_oom r off) (loaded_profile r v off buf) st)))"
  by pat_completeness auto

termination
  by (relation "measure (\<lambda>(E, r, v, file, off, st). length file - off)")
    (auto simp: kernel_read_def app_profile_size_def slice_def split: if_splits)

declare load_loop.simps [simp del]

definition ksu_load_allow_list ::
    "ksu_env \<Rightarrow> read_env \<Rightarrow> persist_env \<Rightarrow> allowlist \<Rightarrow> allowlist" where
  "ksu_load_allow_list E r pe st =
     (if disable_policy E then st
      else case al_file st of
          None \<Rightarrow> st
        | Some file \<Rightarrow>
            (case kernel_read r file 0 4 of
               None \<Rightarrow> st
             | Some m \<Rightarrow>
                 if length m \<noteq> 4 \<or> get32 0 m \<noteq> FILE_MAGIC then st
                 else case kernel_read r file 4 4 of
                     None \<Rightarrow> st
                   | Some vb \<Rightarrow>
                       if length vb \<noteq> 4 then st
                       else let v = get32 0 vb in
                         if v < 2 \<or> v > KSU_APP_PROFILE_VER then st
                         else let st1 = load_loop E r v file 8 st in
                           if v < KSU_APP_PROFILE_VER then ksu_persistent_allow_list pe st1
                           else st1))"

section \<open>The interface of the table\<close>

locale profile_store =
  fixes lookup :: "'s \<Rightarrow> 'k \<Rightarrow> 'p option"
    and upsert :: "'p \<Rightarrow> 's \<Rightarrow> 's"
    and used :: "'s \<Rightarrow> nat"
    and key :: "'p \<Rightarrow> 'k"
    and invar :: "'s \<Rightarrow> bool"
    and ok :: "'p \<Rightarrow> bool"
    and cap :: nat
  assumes upsert_lookup: "invar s \<Longrightarrow> ok p \<Longrightarrow> used s < cap \<Longrightarrow>
      lookup (upsert p s) = (lookup s)(key p \<mapsto> p)"
    and upsert_invar: "invar s \<Longrightarrow> ok p \<Longrightarrow> invar (upsert p s)"
    and upsert_used: "invar s \<Longrightarrow> ok p \<Longrightarrow> used s < cap \<Longrightarrow> used (upsert p s) \<le> Suc (used s)"
begin

lemma fold_upsert:
  assumes "invar s" "\<forall>p \<in> set ps. ok p" "used s + length ps \<le> cap"
  shows "invar (fold upsert ps s) \<and>
    lookup (fold upsert ps s) = lookup s ++ map_of (map (\<lambda>p. (key p, p)) (rev ps))"
  using assms
proof (induction ps arbitrary: s)
  case (Cons p ps)
  have p: "ok p" "used s < cap" using Cons.prems by auto
  have "used (upsert p s) + length ps \<le> cap"
    using upsert_used [OF Cons.prems(1) p] Cons.prems(3) by simp
  have upd: "m(k \<mapsto> v) ++ n = m ++ ([k \<mapsto> v] ++ n)" for m n :: "'k \<Rightarrow> 'p option" and k v
    by (rule ext) (simp add: map_add_def split: option.split)
  have "\<forall>q \<in> set ps. ok q" using Cons.prems(2) by simp
  note ih = Cons.IH [OF upsert_invar [OF Cons.prems(1) p(1)] this
      \<open>used (upsert p s) + length ps \<le> cap\<close>, unfolded upsert_lookup [OF Cons.prems(1) p]]
  from ih show ?case by (simp only: fold_simps comp_apply upd [symmetric] rev.simps map_append map_of_append list.map map_of.simps
        fst_conv snd_conv)
qed simp

lemma fold_upsert_distinct:
  assumes "invar s" "\<forall>p \<in> set ps. ok p" "used s + length ps \<le> cap"
    "distinct (map key ps)" "lookup s = Map.empty" "p \<in> set ps"
  shows "lookup (fold upsert ps s) (key p) = Some p"
proof -
  have "distinct (map fst (map (\<lambda>p. (key p, p)) (rev ps)))"
    using assms(4) by (simp add: comp_def rev_map [symmetric])
  then have "map_of (map (\<lambda>p. (key p, p)) (rev ps)) (key p) = Some p"
    using assms(6) by (intro map_of_is_SomeI) auto
  then show ?thesis using fold_upsert [OF assms(1-3)] assms(5) by simp
qed

lemma fold_upsert_other:
  assumes "invar s" "\<forall>p \<in> set ps. ok p" "used s + length ps \<le> cap"
    "k \<notin> key ` set ps"
  shows "lookup (fold upsert ps s) k = lookup s k"
proof -
  have "map_of (map (\<lambda>p. (key p, p)) (rev ps)) k = None"
    using assms(4) by (auto simp: map_of_eq_None_iff)
  then show ?thesis using fold_upsert [OF assms(1-3)] by (simp add: map_add_def)
qed

end

text \<open>The profiles the table can store as they are.\<close>

definition storable :: "ksu_env \<Rightarrow> app_profile \<Rightarrow> bool" where
  "storable E p \<longleftrightarrow>
     \<not> disable_policy E \<and> wf_profile p \<and> profile_valid False p \<and>
     (ap_curr_uid p = KSU_APP_PROFILE_PRESERVE_UID \<longrightarrow> str_eq (ap_key p) (lit ''$''))"

lemma set_storable:
  assumes "storable E p" "unat (al_count st) < 65535"
  obtains st' where "ksu_set_app_profile E False p st = (Inr (), st')"
    "unat (al_count st') \<le> Suc (unat (al_count st))"
proof -
  have c: "al_count st \<noteq> 0xFFFF" using assms(2) by auto
  have "unat (al_count st + 1) = Suc (unat (al_count st))"
    using u16_inc [OF c] by simp
  then show ?thesis
    using assms(1) c that
    by (cases "find_uid E st (ap_curr_uid p)")
      (auto simp: storable_def ksu_set_app_profile_def stored_profile_def Let_def
        replace_node_def swap_in_def add_node_def)
qed

interpretation table: profile_store "al_profile E" "\<lambda>p st. snd (ksu_set_app_profile E False p st)"
  "\<lambda>st. unat (al_count st)" ap_curr_uid "al_inv E held" "storable E" 65535 for E held
proof
  fix st p assume inv: "al_inv E held st" and p: "storable E p" and c: "unat (al_count st) < 65535"
  obtain st' where st': "ksu_set_app_profile E False p st = (Inr (), st')"
    "unat (al_count st') \<le> Suc (unat (al_count st))"
    using set_storable [OF p c] by metis
  have "stored_profile E p = p" "wf_profile p" using p by (auto simp: storable_def stored_profile_def)
  then show "al_profile E (snd (ksu_set_app_profile E False p st)) = (al_profile E st)(ap_curr_uid p \<mapsto> p)"
    using set_profile_ok [OF inv _ st'(1)] st' by simp
  show "unat (al_count (snd (ksu_set_app_profile E False p st))) \<le> Suc (unat (al_count st))"
    using st' by simp
qed (auto simp: storable_def intro: set_profile_inv)

section \<open>The cached default and the reserved profile\<close>

text \<open>
  The profile of the reserved uid carries the key \<open>$\<close>, and the cached umount default is the
  switch of that profile, or the initial one when it was never set.
\<close>

definition default_ok :: "ksu_env \<Rightarrow> allowlist \<Rightarrow> bool" where
  "default_ok E st \<longleftrightarrow>
     (case al_profile E st KSU_APP_PROFILE_PRESERVE_UID of
        None \<Rightarrow> al_default_umount st
      | Some p \<Rightarrow> al_default_umount st = nrp_umount_modules p \<and> str_eq (ap_key p) (lit ''$''))"

lemma default_ok_cong:
  "al_profile E st' = al_profile E st \<Longrightarrow> al_default_umount st' = al_default_umount st \<Longrightarrow>
   default_ok E st' = default_ok E st"
  by (simp add: default_ok_def split: option.split)

lemma set_default:
  assumes "ksu_set_app_profile E oom p st = (Inr (), st')"
  shows "al_default_umount st' =
      (if ap_curr_uid p = KSU_APP_PROFILE_PRESERVE_UID then nrp_umount_modules (stored_profile E p)
       else al_default_umount st)"
    "ap_curr_uid p = KSU_APP_PROFILE_PRESERVE_UID \<Longrightarrow> str_eq (ap_key p) (lit ''$'')"
  using assms
  by (auto simp: ksu_set_app_profile_def Let_def note_default_def replace_node_def swap_in_def
      add_node_def split: option.splits if_splits)

lemma default_ok_set:
  assumes inv: "al_inv E held st" and wf: "wf_profile p" and d: "default_ok E st"
  shows "default_ok E (snd (ksu_set_app_profile E oom p st))"
proof (cases "ksu_set_app_profile E oom p st")
  case (Pair r st')
  show ?thesis
  proof (cases r)
    case (Inl e)
    then show ?thesis using set_profile_err [of E oom p st e st'] Pair d by simp
  next
    case (Inr u)
    then have run: "ksu_set_app_profile E oom p st = (Inr (), st')" using Pair by simp
    show ?thesis
      using d set_default [OF run] set_profile_ok [OF inv wf run]
      by (auto simp: run default_ok_def split: option.splits)
  qed
qed

lemma default_ok_prune_loop:
  "al_default_umount (snd (prune_loop valid as m st)) = al_default_umount st"
  by (induction valid as m st rule: prune_loop.induct)
    (auto simp: hlist_del_def Let_def split: option.split)

lemma default_ok_prune:
  assumes inv: "al_inv E held st" and d: "default_ok E st"
  shows "default_ok E (ksu_prune_allowlist bc pe valid st)"
proof -
  obtain md st1 where run: "prune_loop valid (all_nodes st) False st = (md, st1)" by fastforce
  have u: "al_default_umount st1 = al_default_umount st"
    using default_ok_prune_loop [of valid "all_nodes st" False st] run by simp
  have "al_profile E st1 9999 = al_profile E st 9999"
    using prune_spec(2) [OF inv run, of 9999] al_profile_uid [of E st 9999]
    by (auto simp: doomed_def split: option.split)
  then have "default_ok E st1" using d u by (simp add: default_ok_def split: option.splits)
  moreover have "al_profile E (ksu_persistent_allow_list pe st1) = al_profile E st1"
    by (rule al_profile_frame) (simp_all add: ksu_persistent_allow_list_def)
  then have "default_ok E (ksu_persistent_allow_list pe st1) = default_ok E st1"
    by (rule default_ok_cong) (simp add: ksu_persistent_allow_list_def)
  ultimately show ?thesis using d by (simp add: ksu_prune_allowlist_def run)
qed

lemma default_ok_put: "al_inv E held st \<Longrightarrow> 0 < held a \<Longrightarrow>
    default_ok E (put_perm_data a st) = default_ok E st"
  by (rule default_ok_cong) (simp_all add: al_profile_put)

lemma default_ok_get [simp]: "default_ok E (get_ref a st) = default_ok E st"
  by (rule default_ok_cong) simp_all

lemma get_profile_state:
  "ksu_get_app_profile E u st = Some (r, st') \<Longrightarrow> st' = (case r of None \<Rightarrow> st | Some a \<Rightarrow> get_ref a st)"
  by (auto simp: ksu_get_app_profile_def split: option.splits if_splits)

lemma get_root_state:
  "ksu_get_root_profile E m u st = Some (r, st') \<Longrightarrow>
     st' = (case r of DefaultRoot \<Rightarrow> st | NodeRoot a \<Rightarrow> get_ref a st)"
  by (auto simp: ksu_get_root_profile_def split: option.splits if_splits)

lemma umount_default:
  assumes inv: "al_inv E held st" and run: "ksu_uid_should_umount E m u st = Some (b, st')"
  shows "default_ok E st' = default_ok E st"
proof -
  have "al_default_umount st' = al_default_umount st"
    using run by (auto simp: ksu_uid_should_umount_def ksu_put_app_profile_def
        dest!: get_profile_state split: if_splits option.splits)
  moreover have "al_profile E st' = al_profile E st"
    using run by (auto intro: should_umount_spec [OF inv, of m u])
  ultimately show ?thesis by (intro default_ok_cong)
qed

lemma al_step_default:
  "al_step E (h, st) (h', st') \<Longrightarrow> al_inv E h st \<Longrightarrow> default_ok E st \<Longrightarrow> default_ok E st'"
proof (induction "(h, st)" "(h', st')" rule: al_step.induct)
  case (persist pe)
  have "al_profile E (ksu_persistent_allow_list pe st) = al_profile E st"
    by (rule al_profile_frame) (simp_all add: ksu_persistent_allow_list_def)
  then have "default_ok E (ksu_persistent_allow_list pe st) = default_ok E st"
    by (rule default_ok_cong) (simp add: ksu_persistent_allow_list_def)
  then show ?case using persist by simp
next
  case (get_root m u r)
  then show ?case by (auto dest!: get_root_state split: root_ref.splits)
qed (auto simp: default_ok_set default_ok_prune default_ok_put umount_default ksu_put_app_profile_def
      ksu_put_root_profile_def dest!: get_profile_state)

lemma default_ok_init [simp]: "default_ok E (ksu_allowlist_init cap file)"
  by (simp add: default_ok_def ksu_allowlist_init_def al_profile_def find_uid_def)

lemma al_reach_default: "al_reach E s \<Longrightarrow> default_ok E (snd s)"
proof (induction rule: al_reach.induct)
  case (step s t)
  then show ?case
    using al_step_default [of E "fst s" "snd s" "fst t" "snd t"] al_reach_inv [of E s] by simp
qed simp

section \<open>Loading keeps the table well formed\<close>

lemma wf_loaded:
  assumes "length buf = app_profile_size v"
  shows "wf_profile (loaded_profile r v off buf)"
  unfolding loaded_profile_def
  by (intro wf_migrate_profile wf_profile_of_image)
    (use assms in \<open>simp add: app_profile_size_def split: if_splits\<close>)

text \<open>What every insertion of a loaded record keeps, the loop keeps.\<close>

lemma load_loop_keeps:
  assumes "\<And>off buf s. P s \<Longrightarrow> length buf = app_profile_size v \<Longrightarrow>
      P (snd (ksu_set_app_profile E (re_oom r off) (loaded_profile r v off buf) s))"
  shows "P st \<Longrightarrow> P (load_loop E r v fl off st)"
proof (induction "length fl - off" arbitrary: off st rule: less_induct)
  case less
  show ?case
  proof (cases "re_read_ok r off \<and> length (slice off (app_profile_size v) fl) = app_profile_size v")
    case True
    then have "length fl - (off + app_profile_size v) < length fl - off"
      by (auto simp: slice_def app_profile_size_def split: if_splits)
    from less.hyps [OF this assms [OF less.prems]] True show ?thesis
      by (subst load_loop.simps) (simp add: kernel_read_def)
  next
    case False
    then show ?thesis using less.prems
      by (subst load_loop.simps) (auto simp: kernel_read_def)
  qed
qed

lemma load_keeps:
  assumes "\<And>v off buf s. P s \<Longrightarrow> length buf = app_profile_size v \<Longrightarrow>
      P (snd (ksu_set_app_profile E (re_oom r off) (loaded_profile r v off buf) s))"
    and "\<And>s. P s \<Longrightarrow> P (ksu_persistent_allow_list pe s)" and "P st"
  shows "P (ksu_load_allow_list E r pe st)"
proof -
  have "P (load_loop E r v fl off st)" for v fl off
    by (rule load_loop_keeps [where P = P]) (use assms(1,3) in blast)+
  then show ?thesis
    using assms(2,3) by (simp add: ksu_load_allow_list_def Let_def split: option.split)
qed

lemma load_reach:
  assumes "al_reach E (h, st)"
  shows "al_reach E (h, ksu_load_allow_list E r pe st)"
proof (rule load_keeps [where P = "\<lambda>s. al_reach E (h, s)"])
  fix v off buf s
  assume "al_reach E (h, s)" "length (buf :: bytes) = app_profile_size v"
  then show "al_reach E (h, snd (ksu_set_app_profile E (re_oom r off) (loaded_profile r v off buf) s))"
    using wf_loaded by (blast intro: al_reach.step al_step.set)
qed (use assms in \<open>blast intro: al_reach.step al_step.persist\<close>)+

section \<open>The image of the table\<close>

definition profiles :: "allowlist \<Rightarrow> app_profile list" where
  "profiles st = List.map_filter (prof_at st) (all_nodes st)"

lemma write_profiles_full:
  assumes "\<forall>off n. n \<le> we_accept w off n"
  shows "write_profiles w st as fl =
    fl @ concat (map profile_image (List.map_filter (prof_at st) as))"
proof (induction as arbitrary: fl)
  case (Cons a as)
  then show ?case
    using assms by (auto simp: kernel_write_def List.map_filter_simps Let_def min_absorb2 split: option.split)
qed (simp add: List.map_filter_simps)

lemma save_file_full:
  assumes "\<forall>off n. n \<le> we_accept w off n"
  shows "save_file w st =
    le32 FILE_MAGIC @ le32 FILE_FORMAT_VERSION @ concat (map profile_image (profiles st))"
  using assms
  by (simp add: save_file_def kernel_write_def Let_def min_absorb2 write_profiles_full [OF assms]
      profiles_def)

lemma listed_uid_inj:
  assumes ch: "inv_chains E st" and l: "listed st a" "listed st b"
    and "prof_at st a = Some p" "prof_at st b = Some q" "ap_curr_uid p = ap_curr_uid q"
  shows "a = b"
proof -
  obtain i j where ij: "a \<in> set (al_table st i)" "b \<in> set (al_table st j)"
    using l by (auto simp: listed_def)
  have "i = j"
    using chain_node [OF ch ij(1)] chain_node [OF ch ij(2)] assms(4-6) by (metis option.inject)
  then show ?thesis
    using chain_uid_inj [OF ch ij(1)] ij(2) assms(4-6) by (simp add: node_uid_def)
qed

lemma set_profiles:
  assumes "inv_chains E st"
  shows "p \<in> set (profiles st) \<longleftrightarrow> al_profile E st (ap_curr_uid p) = Some p"
proof -
  have "p \<in> set (profiles st) \<longleftrightarrow> (\<exists>a. listed st a \<and> prof_at st a = Some p)"
    by (force simp: profiles_def List.map_filter_def set_all_nodes)
  then show ?thesis by (simp add: al_profile_listed [OF assms])
qed

lemma distinct_profiles:
  assumes "inv_chains E st"
  shows "distinct (map ap_curr_uid (profiles st))"
proof -
  have "inj_on (\<lambda>a. ap_curr_uid (the (prof_at st a))) {a. listed st a \<and> prof_at st a \<noteq> None}"
    by (rule inj_onI) (auto dest: listed_uid_inj [OF assms])
  then show ?thesis
    using distinct_all_nodes [OF assms]
    by (simp add: profiles_def List.map_filter_def distinct_map comp_def set_all_nodes)
qed

lemma length_profiles: "length (profiles st) \<le> node_total st"
  by (simp add: profiles_def List.map_filter_def flip: length_all_nodes)

lemma storable_profiles:
  assumes "inv_chains E st" "default_ok E st" "\<not> disable_policy E" "p \<in> set (profiles st)"
  shows "storable E p" "ap_version p = KSU_APP_PROFILE_VER"
proof -
  have p: "al_profile E st (ap_curr_uid p) = Some p" using assms(4) set_profiles [OF assms(1)] by simp
  have g: "good_profile E p" by (rule al_profile_good [OF assms(1) p])
  then show "ap_version p = KSU_APP_PROFILE_VER"
    by (auto simp: good_profile_def dest: profile_valid_version)
  show "storable E p"
    using g p assms(2,3) by (auto simp: storable_def good_profile_def default_ok_def)
qed

section \<open>Reading an image back\<close>

lemma load_loop_end: "load_loop E r v fl (length fl) st = st"
  by (subst load_loop.simps) (simp add: kernel_read_def slice_def app_profile_size_def)

lemma load_loop_images:
  assumes "\<forall>off. re_read_ok r off \<and> \<not> re_oom r off"
    and "\<And>p. p \<in> set ps \<Longrightarrow> wf_profile p \<and> ap_version p = KSU_APP_PROFILE_VER"
  shows "load_loop E r 4 (pre @ concat (map profile_image ps)) (length pre) st =
    fold (\<lambda>p s. snd (ksu_set_app_profile E False p s)) ps st"
  using assms(2)
proof (induction ps arbitrary: pre st)
  case Nil
  then show ?case using load_loop_end [of E r 4 pre st] by simp
next
  case (Cons p ps)
  have p: "wf_profile p" "ap_version p = KSU_APP_PROFILE_VER" using Cons.prems by auto
  let ?fl = "pre @ concat (map profile_image (p # ps))"
  have sl: "slice (length pre) 784 ?fl = profile_image p"
    by (simp add: slice_def length_profile_image [OF p(1)])
  have ld: "loaded_profile r 4 (length pre) (profile_image p) = p"
    by (simp add: loaded_profile_def length_profile_image [OF p(1)] profile_of_profile_image [OF p(1)] p(2))
  have "load_loop E r 4 ?fl (length pre) st =
      load_loop E r 4 ?fl (length pre + 784) (snd (ksu_set_app_profile E False p st))"
    using sl ld assms(1) length_profile_image [OF p(1)]
    by (subst load_loop.simps) (simp add: kernel_read_def app_profile_size_def)
  also have "\<dots> = fold (\<lambda>p s. snd (ksu_set_app_profile E False p s)) ps
      (snd (ksu_set_app_profile E False p st))"
    using Cons.IH [of "pre @ profile_image p" "snd (ksu_set_app_profile E False p st)"] Cons.prems
    by (simp add: length_profile_image [OF p(1)])
  finally show ?case by simp
qed

lemma get32_file:
  "get32 0 (le32 w) = w" "slice 0 4 (le32 w @ q) = le32 w" "slice 4 4 (le32 w @ le32 v @ q) = le32 v"
  using get32_le32 [of "[]" 0 w "[]"] by (simp_all add: slice_def)

lemma load_saved:
  assumes "\<forall>off. re_read_ok r off \<and> \<not> re_oom r off" "\<not> disable_policy E"
    and "al_file st = Some (le32 FILE_MAGIC @ le32 v @ body)" "2 \<le> v" "v \<le> 4"
  shows "ksu_load_allow_list E r pe st =
    (let st1 = load_loop E r v (le32 FILE_MAGIC @ le32 v @ body) 8 st in
      if v < 4 then ksu_persistent_allow_list pe st1 else st1)"
  using assms by (simp add: ksu_load_allow_list_def kernel_read_def get32_file not_less [symmetric])

text \<open>The map a save followed by a load into an empty table stores.\<close>

lemma fold_profiles:
  assumes inv: "al_inv E h st" and d: "default_ok E st" and np: "\<not> disable_policy E"
  shows "al_profile E (fold (\<lambda>p s. snd (ksu_set_app_profile E False p s)) (profiles st)
      (ksu_allowlist_init cap fl)) = al_profile E st"
proof
  fix u
  let ?i = "ksu_allowlist_init cap fl"
  have ch: "inv_chains E st" and cnt: "unat (al_count st) = node_total st"
    using inv by (auto simp: al_inv_def)
  have ok: "\<forall>p \<in> set (profiles st). storable E p" using storable_profiles [OF ch d np] by blast
  have "al_count ?i = 0" by (simp add: ksu_allowlist_init_def)
  then have room: "unat (al_count ?i) + length (profiles st) \<le> 65535"
    using length_profiles [of st] unat_bound [of "al_count st"] cnt by simp
  have empty: "al_profile E ?i = Map.empty" by (rule ext) simp
  show "al_profile E (fold (\<lambda>p s. snd (ksu_set_app_profile E False p s)) (profiles st) ?i) u =
      al_profile E st u"
  proof (cases "al_profile E st u")
    case None
    then have "u \<notin> ap_curr_uid ` set (profiles st)"
      using set_profiles [OF ch] by auto
    from table.fold_upsert_other [OF al_inv_init ok room this] show ?thesis
      using None by simp
  next
    case (Some p)
    then have p: "p \<in> set (profiles st)" "ap_curr_uid p = u"
      using set_profiles [OF ch] al_profile_uid [OF Some] by auto
    from table.fold_upsert_distinct [OF al_inv_init ok room distinct_profiles [OF ch] empty p(1)]
    show ?thesis using Some p(2) by simp
  qed
qed

lemma default_ok_determined:
  assumes "default_ok E st" "default_ok E st'" "al_profile E st' = al_profile E st"
  shows "al_default_umount st' = al_default_umount st"
  using assms by (auto simp: default_ok_def split: option.splits)

section \<open>Properties\<close>

text \<open>
  C6: what survives a reboot. The file a complete save writes, loaded into a fresh table,
  restores the same profile for every uid and the same cached umount default, and does not
  queue another save.
\<close>

theorem save_load_roundtrip:
  assumes "al_reach E (h, st)" "\<not> disable_policy E"
    and "we_open w" "\<forall>off n. n \<le> we_accept w off n"
    and "\<forall>off. re_read_ok r off \<and> \<not> re_oom r off"
  shows "let st' = ksu_load_allow_list E r pe
               (ksu_allowlist_init cap (al_file (do_persistent_allow_list w st)))
    in al_profile E st' = al_profile E st \<and>
       al_default_umount st' = al_default_umount st \<and> al_saves st' = 0"
proof -
  have inv: "al_inv E h st" using al_reach_inv [OF assms(1)] by simp
  have d: "default_ok E st" using al_reach_default [OF assms(1)] by simp
  let ?f = "le32 FILE_MAGIC @ le32 FILE_FORMAT_VERSION @ concat (map profile_image (profiles st))"
  let ?i = "ksu_allowlist_init cap (Some ?f)"
  have saved: "al_file (do_persistent_allow_list w st) = Some ?f"
    using assms(3,4) by (simp add: do_persistent_allow_list_def save_file_full Let_def)
  have "ksu_load_allow_list E r pe ?i = load_loop E r 4 ?f 8 ?i"
    using load_saved [OF assms(5,2), of ?i 4] by (simp add: ksu_allowlist_init_def)
  also have "\<dots> = fold (\<lambda>p s. snd (ksu_set_app_profile E False p s)) (profiles st) ?i"
    using load_loop_images [OF assms(5), of "profiles st" E "le32 FILE_MAGIC @ le32 FILE_FORMAT_VERSION" ?i]
      storable_profiles [OF _ d assms(2)] inv by (auto simp: storable_def al_inv_def)
  finally have load: "ksu_load_allow_list E r pe ?i = \<dots>" .
  have prof: "al_profile E (ksu_load_allow_list E r pe ?i) = al_profile E st"
    unfolding load by (rule fold_profiles [OF inv d assms(2)])
  have "al_reach E ((\<lambda>_. 0), ksu_load_allow_list E r pe ?i)"
    by (rule load_reach [OF al_reach.start])
  then have "default_ok E (ksu_load_allow_list E r pe ?i)" using al_reach_default by fastforce
  from default_ok_determined [OF d this prof]
  have um: "al_default_umount (ksu_load_allow_list E r pe ?i) = al_default_umount st" .
  have "al_saves (fold (\<lambda>p s. snd (ksu_set_app_profile E False p s)) ps s) = al_saves s" for ps s
    by (induction ps arbitrary: s) (simp_all add: set_profile_frame)
  then have "al_saves (ksu_load_allow_list E r pe ?i) = 0"
    unfolding load by (simp add: ksu_allowlist_init_def)
  then show ?thesis unfolding Let_def saved using prof um by blast
qed

definition ex_write :: write_env where
  "ex_write = \<lparr>we_open = True, we_accept = (\<lambda>off n. n)\<rparr>"

definition ex_read :: read_env where
  "ex_read = \<lparr>re_read_ok = (\<lambda>_. True), re_oom = (\<lambda>_. False), re_stale = (\<lambda>_. replicate 8 7)\<rparr>"

lemma save_load_roundtrip_witness:
  "\<exists>pe. al_profile ex_env (ksu_load_allow_list ex_env ex_read pe (ksu_allowlist_init 0
      (al_file (do_persistent_allow_list ex_write (ex_list 10001 True))))) 10001 = Some (ex_app 10001 True)"
  using save_load_roundtrip [OF ex_list_reach [of 10001 True], of ex_write ex_read _ 0]
  by (simp add: ex_write_def ex_read_def Let_def ex_list_profile)

text \<open>
  C7: loading is safe on any file. Whatever bytes the file holds, whichever reads and
  allocations fail and whatever the stack holds behind a short record, loading a reachable
  table leaves a reachable table (so counts, references and validity are as before), and every
  profile in it is valid in the current format.
\<close>

theorem load_any_file:
  assumes "al_reach E (h, st)"
  shows "al_reach E (h, ksu_load_allow_list E r pe st) \<and>
    (\<forall>u p. al_profile E (ksu_load_allow_list E r pe st) u = Some p \<longrightarrow>
       wf_profile p \<and> profile_valid (disable_policy E) p \<and> ap_curr_uid p = u)"
proof -
  have r: "al_reach E (h, ksu_load_allow_list E r pe st)" by (rule load_reach [OF assms])
  then have "inv_chains E (ksu_load_allow_list E r pe st)"
    using al_reach_inv [OF r] by (simp add: al_inv_def)
  then show ?thesis
    using r al_profile_good al_profile_uid unfolding good_profile_def by blast
qed

lemma load_any_file_witness:
  "al_reach ex_env ((\<lambda>_. 0), ksu_load_allow_list ex_env ex_read
     \<lparr>init_task_found = True, cb_allocated = True, work_added = True\<rparr>
     (ksu_allowlist_init 0 (Some (le32 0x7f4b5355 @ le32 3 @ [1, 2, 3]))))"
  using load_any_file [OF al_reach.start] by blast

text \<open>
  Files of the older formats. Loading a format 2 or 3 file into a fresh table gives every
  root profile exactly the flag \<open>NO_NEW_PRIVS\<close>, replaces the retired domain
  \<open>u:r:su:s0\<close> of format 2, and queues one save in the current format.
\<close>

theorem load_legacy:
  assumes "v = 2 \<or> v = 3" "\<not> disable_policy E" "\<forall>off. re_read_ok r off \<and> \<not> re_oom r off"
  shows "let st = ksu_load_allow_list E r pe (ksu_allowlist_init cap
               (Some (le32 FILE_MAGIC @ le32 v @ body)))
    in (\<forall>u p. al_profile E st u = Some p \<longrightarrow> ap_allow_su p \<longrightarrow>
          rp_flags (ap_root p) = FLAG_KSU_NO_NEW_PRIVS \<and>
          (v = 2 \<longrightarrow> c_str (rp_selinux_domain (ap_root p)) \<noteq> lit ''u:r:su:s0'')) \<and>
       al_saves st = of_bool (init_task_found pe \<and> cb_allocated pe \<and> work_added pe)"
proof -
  let ?f = "le32 FILE_MAGIC @ le32 v @ body"
  let ?i = "ksu_allowlist_init cap (Some ?f)"
  let ?Q = "\<lambda>p. ap_allow_su p \<longrightarrow> rp_flags (ap_root p) = FLAG_KSU_NO_NEW_PRIVS \<and>
      (v = 2 \<longrightarrow> c_str (rp_selinux_domain (ap_root p)) \<noteq> lit ''u:r:su:s0'')"
  let ?P = "\<lambda>s. al_inv E (\<lambda>_. 0) s \<and> al_saves s = 0 \<and> (\<forall>u p. al_profile E s u = Some p \<longrightarrow> ?Q p)"
  have q: "?Q (loaded_profile r v off buf)" if "length buf = app_profile_size v" for off buf
  proof -
    have "wf_profile (profile_of_image (take 784 (buf @ re_stale r off @ replicate 8 0)))"
      by (rule wf_profile_of_image) (use that assms(1) in \<open>auto simp: app_profile_size_def\<close>)
    then show ?thesis
      using migrate_old_flags [OF assms(1)] migrate_v2_domain [OF _ _ refl]
      by (auto simp: loaded_profile_def)
  qed
  have step: "?P (snd (ksu_set_app_profile E oom p s))" if "?P s" "wf_profile p" "?Q p" for oom p s
  proof (cases "ksu_set_app_profile E oom p s")
    case (Pair res s')
    show ?thesis
    proof (cases res)
      case (Inl e)
      then have "s' = s" using set_profile_err [of E oom p s e s'] Pair by simp
      then show ?thesis using that(1) Pair by simp
    next
      case (Inr x)
      then have run: "ksu_set_app_profile E oom p s = (Inr (), s')" using Pair by simp
      have "al_inv E (\<lambda>_. 0) s" using that(1) by simp
      from set_profile_ok [OF this that(2) run] set_profile_inv [OF this that(2), of oom]
      have "al_profile E s' = (al_profile E s)(ap_curr_uid p \<mapsto> p)" "al_inv E (\<lambda>_. 0) s'"
        using assms(2) run by (simp_all add: stored_profile_def)
      then show ?thesis
        using that(1,3) set_profile_frame(1) [of E oom p s] run by (auto simp del: fun_upd_apply simp: fun_upd_def)
    qed
  qed
  have "?P (load_loop E r v ?f 8 ?i)"
  proof (rule load_loop_keeps [where P = ?P])
    show "?P ?i" by (simp add: al_inv_init) (simp add: ksu_allowlist_init_def)
  qed (rule step, assumption, rule wf_loaded, assumption, rule q, assumption)
  then have inv: "?P (load_loop E r v ?f 8 ?i)" .
  have load: "ksu_load_allow_list E r pe ?i = ksu_persistent_allow_list pe (load_loop E r v ?f 8 ?i)"
    using load_saved [OF assms(3,2), of ?i v body pe] assms(1)
    by (auto simp: ksu_allowlist_init_def)
  have pr: "al_profile E (ksu_persistent_allow_list pe s) = al_profile E s" for s
    by (rule al_profile_frame) (simp_all add: ksu_persistent_allow_list_def)
  have sv: "al_saves (ksu_persistent_allow_list pe s) =
      al_saves s + of_bool (init_task_found pe \<and> cb_allocated pe \<and> work_added pe)" for s
    by (simp add: ksu_persistent_allow_list_def)
  show ?thesis unfolding Let_def load pr sv
  proof (rule conjI)
    show "al_saves (load_loop E r v ?f 8 ?i) + of_bool (init_task_found pe \<and> cb_allocated pe \<and> work_added pe)
      = of_bool (init_task_found pe \<and> cb_allocated pe \<and> work_added pe)" using inv by simp
  qed (use inv in blast)
qed

lemma load_legacy_witness:
  "al_saves (ksu_load_allow_list ex_env ex_read
      \<lparr>init_task_found = True, cb_allocated = True, work_added = True\<rparr>
      (ksu_allowlist_init 0 (Some (le32 0x7f4b5355 @ le32 2 @ replicate 776 1)))) = 1"
  using load_legacy [of 2 ex_env ex_read "\<lparr>init_task_found = True, cb_allocated = True, work_added = True\<rparr>" 0]
  by (simp add: ex_read_def Let_def)

end
