(* ===== verification/Event_Queue.thy ===== *)
theory Event_Queue
  imports Ksu_Prelude
begin

text \<open>
  The event queue of \<^verbatim>\<open>kernel/infra/event_queue.c\<close>: a bounded FIFO of numbered records that
  counts what it had to drop and hands that count to its reader as a record of its own. This
  theory holds the state, every operation, and the read path cut at the points where the code
  releases the spinlock; \<^verbatim>\<open>Event_Queue_Steps\<close> interleaves the pieces.
\<close>

abbreviation (input) "KSU_EVENT_RECORD_FLAG_INTERNAL \<equiv> (1 :: u16)"
abbreviation (input) "KSU_EVENT_QUEUE_TYPE_DROPPED \<equiv> (0xFFFF :: u16)"
abbreviation (input) "POLLIN_RDNORM \<equiv> (0x41 :: u32)"
abbreviation (input) "POLLHUP \<equiv> (0x10 :: u32)"

section \<open>State\<close>

record event_hdr =
  eh_type :: u16
  eh_flags :: u16
  eh_len :: u32
  eh_seq :: u64
  eh_ts_ns :: u64

record dropped_info =
  di_dropped :: u64
  di_first_seq :: u64
  di_last_seq :: u64

record event_node =
  en_hdr :: event_hdr
  en_payload :: bytes

record event_queue =
  eq_pending :: "event_node list"
  eq_queued :: u32
  eq_max_queued :: u32
  eq_max_payload_len :: u32
  eq_next_seq :: u64
  eq_dropped_total :: u64
  eq_dropped_pending :: u64
  eq_dropped_first_seq :: u64
  eq_dropped_last_seq :: u64
  eq_dropped_inflight :: u64
  eq_inflight_first_seq :: u64
  eq_inflight_last_seq :: u64
  eq_closed :: bool

definition hdr_image :: "event_hdr \<Rightarrow> bytes" where
  "hdr_image h = le_enc 2 (unat (eh_type h)) @ le_enc 2 (unat (eh_flags h)) @ le32 (eh_len h) @
     le64 (eh_seq h) @ le64 (eh_ts_ns h)"

definition info_image :: "dropped_info \<Rightarrow> bytes" where
  "info_image i = le64 (di_dropped i) @ le64 (di_first_seq i) @ le64 (di_last_seq i)"

definition record_size :: "u32 \<Rightarrow> nat" where
  "record_size len = 24 + unat len"

lemma length_hdr_image [simp]: "length (hdr_image h) = 24"
  by (simp add: hdr_image_def)

lemma length_info_image [simp]: "length (info_image i) = 24"
  by (simp add: info_image_def)

section \<open>Operations\<close>

definition note_drop :: "u64 \<Rightarrow> event_queue \<Rightarrow> event_queue" where
  "note_drop seq q =
     (let q1 = q\<lparr>eq_dropped_total := eq_dropped_total q + 1\<rparr>;
          q2 = (if eq_dropped_pending q1 = 0 then q1\<lparr>eq_dropped_first_seq := seq\<rparr> else q1)
      in q2\<lparr>eq_dropped_pending := eq_dropped_pending q2 + 1, eq_dropped_last_seq := seq\<rparr>)"

definition has_data :: "event_queue \<Rightarrow> bool" where
  "has_data q \<longleftrightarrow> eq_dropped_pending q \<noteq> 0 \<or> eq_dropped_inflight q \<noteq> 0 \<or> eq_pending q \<noteq> []"

definition ksu_event_queue_close :: "event_queue \<Rightarrow> event_queue" where
  "ksu_event_queue_close q = q\<lparr>eq_closed := True\<rparr>"

definition ksu_event_queue_init :: "u32 \<Rightarrow> u32 \<Rightarrow> event_queue" where
  "ksu_event_queue_init max_queued max_payload =
     \<lparr>eq_pending = [], eq_queued = 0, eq_max_queued = max_queued,
      eq_max_payload_len = max_payload, eq_next_seq = 1, eq_dropped_total = 0,
      eq_dropped_pending = 0, eq_dropped_first_seq = 0, eq_dropped_last_seq = 0,
      eq_dropped_inflight = 0, eq_inflight_first_seq = 0, eq_inflight_last_seq = 0,
      eq_closed = False\<rparr>"

definition ksu_event_queue_destroy :: "event_queue \<Rightarrow> event_queue" where
  "ksu_event_queue_destroy q =
     (ksu_event_queue_close q)\<lparr>eq_pending := [], eq_queued := 0, eq_dropped_pending := 0,
        eq_dropped_first_seq := 0, eq_dropped_last_seq := 0, eq_dropped_inflight := 0,
        eq_inflight_first_seq := 0, eq_inflight_last_seq := 0\<rparr>"

text \<open>
  \<open>payload\<close> is \<open>None\<close> for a null pointer; \<open>alloc\<close> says whether \<open>kmalloc\<close> succeeds and
  \<open>now\<close> is \<open>ktime_get_ns\<close>. The result is the C return value with the new state.
\<close>

definition new_node :: "u16 \<Rightarrow> u16 \<Rightarrow> bytes option \<Rightarrow> u32 \<Rightarrow> u64 \<Rightarrow> u64 \<Rightarrow> event_node" where
  "new_node ty fl payload len seq now =
     \<lparr>en_hdr = \<lparr>eh_type = ty, eh_flags = fl, eh_len = len, eh_seq = seq, eh_ts_ns = now\<rparr>,
      en_payload = (case payload of Some p \<Rightarrow> take (unat len) p | None \<Rightarrow> [])\<rparr>"

definition ksu_event_queue_push ::
    "u16 \<Rightarrow> u16 \<Rightarrow> bytes option \<Rightarrow> u32 \<Rightarrow> bool \<Rightarrow> u64 \<Rightarrow> event_queue \<Rightarrow> (errno + unit) \<times> event_queue" where
  "ksu_event_queue_push ty fl payload len alloc now q =
     (if len > eq_max_payload_len q then (Inl EMSGSIZE, q)
      else if len \<noteq> 0 \<and> payload = None then (Inl EINVAL, q)
      else if eq_closed q then (Inl EPIPE, q)
      else let seq = eq_next_seq q; q1 = q\<lparr>eq_next_seq := seq + 1\<rparr> in
        if \<not> alloc \<or> (eq_max_queued q \<noteq> 0 \<and> eq_max_queued q \<le> eq_queued q)
        then (Inl (if alloc then ENOSPC else ENOMEM), note_drop seq q1)
        else (Inr (), q1\<lparr>eq_pending := eq_pending q1 @ [new_node ty fl payload len seq now],
                         eq_queued := eq_queued q1 + 1\<rparr>))"

definition ksu_event_queue_drop :: "event_queue \<Rightarrow> event_queue" where
  "ksu_event_queue_drop q =
     (if eq_closed q then q
      else note_drop (eq_next_seq q) (q\<lparr>eq_next_seq := eq_next_seq q + 1\<rparr>))"

definition ksu_event_queue_poll :: "event_queue \<Rightarrow> u32" where
  "ksu_event_queue_poll q =
     (if has_data q then POLLIN_RDNORM else 0) OR (if eq_closed q then POLLHUP else 0)"

section \<open>The read path\<close>

text \<open>
  Waiting: the reader sleeps until woken. \<open>wakes\<close> lists the wake-ups, each with whether a
  signal interrupted the sleep and with the queue as the producers left it; when the list ends
  the reader still sleeps and the result is \<open>None\<close>.
\<close>

fun ksu_event_queue_wait_ready ::
    "bool \<Rightarrow> (bool \<times> event_queue) list \<Rightarrow> event_queue \<Rightarrow> ((errno + unit) \<times> event_queue) option" where
  "ksu_event_queue_wait_ready nonblock wakes q =
     (if has_data q then Some (Inr (), q)
      else if eq_closed q then Some (Inr (), q)
      else if nonblock then Some (Inl EAGAIN, q)
      else case wakes of
          [] \<Rightarrow> None
        | (intr, q') # ws \<Rightarrow>
            if eq_closed q' \<or> has_data q' then ksu_event_queue_wait_ready nonblock ws q'
            else if intr then Some (Inl ERESTARTSYS, q')
            else ksu_event_queue_wait_ready nonblock ws q')"

declare ksu_event_queue_wait_ready.simps [simp del]

text \<open>First critical section of \<open>read_drop\<close>: \<open>Inr None\<close> when nothing was dropped.\<close>

definition read_drop_take ::
    "nat \<Rightarrow> u64 \<Rightarrow> event_queue \<Rightarrow> errno + ((event_hdr \<times> dropped_info) \<times> event_queue) option" where
  "read_drop_take count now q =
     (if eq_dropped_pending q = 0 then Inr None
      else if count < record_size 24 then Inl EMSGSIZE
      else Inr (Some
        ((\<lparr>eh_type = KSU_EVENT_QUEUE_TYPE_DROPPED, eh_flags = KSU_EVENT_RECORD_FLAG_INTERNAL,
           eh_len = 24, eh_seq = eq_dropped_first_seq q, eh_ts_ns = now\<rparr>,
          \<lparr>di_dropped = eq_dropped_pending q, di_first_seq = eq_dropped_first_seq q,
           di_last_seq = eq_dropped_last_seq q\<rparr>),
         q\<lparr>eq_dropped_inflight := eq_dropped_pending q,
           eq_inflight_first_seq := eq_dropped_first_seq q,
           eq_inflight_last_seq := eq_dropped_last_seq q,
           eq_dropped_pending := 0, eq_dropped_first_seq := 0, eq_dropped_last_seq := 0\<rparr>)))"

definition read_drop_commit :: "event_queue \<Rightarrow> event_queue" where
  "read_drop_commit q =
     q\<lparr>eq_dropped_inflight := 0, eq_inflight_first_seq := 0, eq_inflight_last_seq := 0\<rparr>"

definition read_drop_restore :: "event_queue \<Rightarrow> event_queue" where
  "read_drop_restore q =
     read_drop_commit
       (if eq_dropped_pending q = 0
        then q\<lparr>eq_dropped_pending := eq_dropped_inflight q,
               eq_dropped_first_seq := eq_inflight_first_seq q,
               eq_dropped_last_seq := eq_inflight_last_seq q\<rparr>
        else q\<lparr>eq_dropped_pending := eq_dropped_pending q + eq_dropped_inflight q,
               eq_dropped_first_seq := eq_inflight_first_seq q\<rparr>)"

text \<open>
  \<open>cp off n\<close> says whether \<open>copy_to_user\<close> of \<open>n\<close> bytes at offset \<open>off\<close> of the user's
  buffer succeeds. A result \<open>Inr bs\<close> is the number of bytes returned, with the bytes.
\<close>

definition ksu_event_queue_read_drop ::
    "(nat \<Rightarrow> nat \<Rightarrow> bool) \<Rightarrow> nat \<Rightarrow> nat \<Rightarrow> u64 \<Rightarrow> event_queue \<Rightarrow> (errno + bytes) \<times> event_queue" where
  "ksu_event_queue_read_drop cp off count now q =
     (case read_drop_take count now q of
        Inl e \<Rightarrow> (Inl e, q)
      | Inr None \<Rightarrow> (Inr [], q)
      | Inr (Some ((h, i), q1)) \<Rightarrow>
          if \<not> cp off 24 \<or> \<not> cp (off + 24) 24 then (Inl EFAULT, read_drop_restore q1)
          else (Inr (hdr_image h @ info_image i), read_drop_commit q1))"

text \<open>The two critical sections of \<open>read_node\<close>.\<close>

definition read_node_peek :: "nat \<Rightarrow> event_queue \<Rightarrow> errno + event_node option" where
  "read_node_peek count q =
     (case eq_pending q of
        [] \<Rightarrow> Inr None
      | n # ns \<Rightarrow> if count < record_size (eh_len (en_hdr n)) then Inl EMSGSIZE else Inr (Some n))"

definition read_node_remove :: "event_queue \<Rightarrow> event_queue" where
  "read_node_remove q = q\<lparr>eq_pending := tl (eq_pending q), eq_queued := eq_queued q - 1\<rparr>"

definition node_image :: "event_node \<Rightarrow> bytes" where
  "node_image n = hdr_image (en_hdr n) @ en_payload n"

definition node_copied :: "(nat \<Rightarrow> nat \<Rightarrow> bool) \<Rightarrow> nat \<Rightarrow> event_node \<Rightarrow> bool" where
  "node_copied cp off n \<longleftrightarrow> cp off 24 \<and>
     (eh_len (en_hdr n) = 0 \<or> cp (off + 24) (unat (eh_len (en_hdr n))))"

definition ksu_event_queue_read_node ::
    "(nat \<Rightarrow> nat \<Rightarrow> bool) \<Rightarrow> nat \<Rightarrow> nat \<Rightarrow> event_queue \<Rightarrow> (errno + bytes) \<times> event_queue" where
  "ksu_event_queue_read_node cp off count q =
     (case read_node_peek count q of
        Inl e \<Rightarrow> (Inl e, q)
      | Inr None \<Rightarrow> (Inr [], q)
      | Inr (Some n) \<Rightarrow>
          if \<not> node_copied cp off n then (Inl EFAULT, q)
          else (Inr (node_image n), read_node_remove q))"

lemma read_drop_progress:
  "ksu_event_queue_read_drop cp off count now q = (Inr bs, q') \<Longrightarrow> bs = [] \<or> length bs = 48 \<and> 48 \<le> count"
  by (auto simp: ksu_event_queue_read_drop_def read_drop_take_def record_size_def
      split: sum.splits option.splits if_splits)

lemma read_node_progress:
  assumes "ksu_event_queue_read_node cp off count q = (Inr bs, q')"
  shows "bs = [] \<or> 24 \<le> length bs \<and> 24 \<le> count"
  using assms
  by (auto simp: ksu_event_queue_read_node_def read_node_peek_def record_size_def node_image_def
      split: sum.splits option.splits list.splits if_splits)

text \<open>
  The loop of \<open>ksu_event_queue_read\<close>: \<open>out\<close> is what has been copied so far. The bytes a
  step returned are subtracted from \<open>count\<close>, so it ends.
\<close>

definition read_end :: "bytes \<Rightarrow> errno \<Rightarrow> errno + bytes" where
  "read_end out e = (if out = [] then Inl e else Inr out)"

function read_loop ::
    "(nat \<Rightarrow> nat \<Rightarrow> bool) \<Rightarrow> u64 \<Rightarrow> nat \<Rightarrow> bytes \<Rightarrow> event_queue \<Rightarrow> (errno + bytes) \<times> event_queue" where
  "read_loop cp now count out q =
     (if count = 0 then (Inr out, q)
      else case ksu_event_queue_read_drop cp (length out) count now q of
          (Inl e, q1) \<Rightarrow> (read_end out e, q1)
        | (Inr bs, q1) \<Rightarrow>
            if bs \<noteq> [] then read_loop cp now (count - length bs) (out @ bs) q1
            else case ksu_event_queue_read_node cp (length out) count q1 of
                (Inl e, q2) \<Rightarrow> (read_end out e, q2)
              | (Inr bs', q2) \<Rightarrow>
                  if bs' = [] then (Inr out, q2)
                  else read_loop cp now (count - length bs') (out @ bs') q2)"
  by pat_completeness auto

termination
  by (relation "measure (\<lambda>(cp, now, count, out, q). count)") auto

declare read_loop.simps [simp del]

text \<open>\<open>intr\<close> is the outcome of \<open>mutex_lock_interruptible\<close>; the result \<open>None\<close> is a read still asleep.\<close>

definition ksu_event_queue_read ::
    "(nat \<Rightarrow> nat \<Rightarrow> bool) \<Rightarrow> u64 \<Rightarrow> bool \<Rightarrow> bool \<Rightarrow> (bool \<times> event_queue) list \<Rightarrow> nat \<Rightarrow> event_queue \<Rightarrow>
       ((errno + bytes) \<times> event_queue) option" where
  "ksu_event_queue_read cp now intr nonblock wakes count q =
     (if count = 0 then Some (Inr [], q)
      else if intr then Some (Inl EINTR, q)
      else case ksu_event_queue_wait_ready nonblock wakes q of
          None \<Rightarrow> None
        | Some (Inl e, q1) \<Rightarrow> Some (Inl e, q1)
        | Some (Inr _, q1) \<Rightarrow> Some (read_loop cp now count [] q1))"

end
