(* ===== verification/Event_Queue_Steps.thy ===== *)
theory Event_Queue_Steps
  imports Event_Queue "HOL-Library.Multiset"
begin

text \<open>
  The event queue under interleaving: producers push, drop, close and destroy at any point
  while one reader (it holds \<open>read_lock\<close>) is between two critical sections. The system
  state adds to the queue where the reader stands and a history: which sequence numbers were
  issued, which records were accepted, delivered to the reader, dropped, reported as dropped,
  and freed by destroy.
\<close>

section \<open>The system\<close>

datatype reader =
    Idle
  | Looping nat bytes
  | DropCopy nat bytes "event_hdr \<times> dropped_info"
  | NodeLook nat bytes
  | NodeCopy nat bytes event_node

record eq_sys =
  es_q :: event_queue
  es_reader :: reader
  g_issued :: nat
  g_accepted :: "event_node list"
  g_delivered :: "event_node list"
  g_waiting :: "nat list"
  g_taken :: "nat list"
  g_reports :: "(dropped_info \<times> nat list) list"
  g_freed :: "event_node list"
  g_forgotten :: "nat list"

definition eq_start :: "u32 \<Rightarrow> u32 \<Rightarrow> eq_sys" where
  "eq_start max_queued max_payload =
     \<lparr>es_q = ksu_event_queue_init max_queued max_payload, es_reader = Idle, g_issued = 0,
      g_accepted = [], g_delivered = [], g_waiting = [], g_taken = [], g_reports = [],
      g_freed = [], g_forgotten = []\<rparr>"

definition payload_ok :: "bytes option \<Rightarrow> u32 \<Rightarrow> bool" where
  "payload_ok payload len \<longleftrightarrow> (case payload of Some p \<Rightarrow> length p = unat len | None \<Rightarrow> True)"

definition issue_drop :: "event_queue \<Rightarrow> eq_sys \<Rightarrow> eq_sys" where
  "issue_drop q s =
     s\<lparr>es_q := q, g_issued := Suc (g_issued s), g_waiting := g_waiting s @ [Suc (g_issued s)]\<rparr>"

inductive eq_step :: "eq_sys \<Rightarrow> eq_sys \<Rightarrow> bool" where
  push_ok: "ksu_event_queue_push ty fl pl len alloc now (es_q s) = (Inr (), q) \<Longrightarrow>
    payload_ok pl len \<Longrightarrow>
    eq_step s (s\<lparr>es_q := q, g_issued := Suc (g_issued s),
                g_accepted := g_accepted s @ [last (eq_pending q)]\<rparr>)"
| push_full: "ksu_event_queue_push ty fl pl len alloc now (es_q s) = (Inl e, q) \<Longrightarrow>
    e = ENOSPC \<or> e = ENOMEM \<Longrightarrow> eq_step s (issue_drop q s)"
| push_reject: "ksu_event_queue_push ty fl pl len alloc now (es_q s) = (Inl e, q) \<Longrightarrow>
    e \<noteq> ENOSPC \<Longrightarrow> e \<noteq> ENOMEM \<Longrightarrow> eq_step s (s\<lparr>es_q := q\<rparr>)"
| drop: "\<not> eq_closed (es_q s) \<Longrightarrow> eq_step s (issue_drop (ksu_event_queue_drop (es_q s)) s)"
| drop_closed: "eq_closed (es_q s) \<Longrightarrow> eq_step s (s\<lparr>es_q := ksu_event_queue_drop (es_q s)\<rparr>)"
| close: "eq_step s (s\<lparr>es_q := ksu_event_queue_close (es_q s)\<rparr>)"
| destroy: "es_reader s = Idle \<Longrightarrow>
    eq_step s (s\<lparr>es_q := ksu_event_queue_destroy (es_q s),
                g_freed := g_freed s @ eq_pending (es_q s), g_accepted := g_delivered s,
                g_forgotten := g_forgotten s @ g_waiting s, g_waiting := []\<rparr>)"
| start: "es_reader s = Idle \<Longrightarrow> 0 < cnt \<Longrightarrow>
    ksu_event_queue_wait_ready nonblock [] (es_q s) = Some (Inr (), q) \<Longrightarrow>
    eq_step s (s\<lparr>es_reader := Looping cnt []\<rparr>)"
| full_buffer: "es_reader s = Looping 0 out \<Longrightarrow> eq_step s (s\<lparr>es_reader := Idle\<rparr>)"
| drop_small: "es_reader s = Looping cnt out \<Longrightarrow> read_drop_take cnt now (es_q s) = Inl e \<Longrightarrow>
    eq_step s (s\<lparr>es_reader := Idle\<rparr>)"
| no_drop: "es_reader s = Looping cnt out \<Longrightarrow> read_drop_take cnt now (es_q s) = Inr None \<Longrightarrow>
    eq_step s (s\<lparr>es_reader := NodeLook cnt out\<rparr>)"
| take_drop: "es_reader s = Looping cnt out \<Longrightarrow>
    read_drop_take cnt now (es_q s) = Inr (Some (r, q)) \<Longrightarrow>
    eq_step s (s\<lparr>es_q := q, es_reader := DropCopy cnt out r, g_taken := g_waiting s, g_waiting := []\<rparr>)"
| drop_copied: "es_reader s = DropCopy cnt out (h, i) \<Longrightarrow>
    eq_step s (s\<lparr>es_q := read_drop_commit (es_q s),
                es_reader := Looping (cnt - 48) (out @ hdr_image h @ info_image i),
                g_reports := g_reports s @ [(i, g_taken s)], g_taken := []\<rparr>)"
| drop_fault: "es_reader s = DropCopy cnt out r \<Longrightarrow>
    eq_step s (s\<lparr>es_q := read_drop_restore (es_q s), es_reader := Idle,
                g_waiting := g_taken s @ g_waiting s, g_taken := []\<rparr>)"
| node_end: "es_reader s = NodeLook cnt out \<Longrightarrow> read_node_peek cnt (es_q s) = Inr None \<Longrightarrow>
    eq_step s (s\<lparr>es_reader := Idle\<rparr>)"
| node_small: "es_reader s = NodeLook cnt out \<Longrightarrow> read_node_peek cnt (es_q s) = Inl e \<Longrightarrow>
    eq_step s (s\<lparr>es_reader := Idle\<rparr>)"
| node_peek: "es_reader s = NodeLook cnt out \<Longrightarrow> read_node_peek cnt (es_q s) = Inr (Some n) \<Longrightarrow>
    eq_step s (s\<lparr>es_reader := NodeCopy cnt out n\<rparr>)"
| node_copied: "es_reader s = NodeCopy cnt out n \<Longrightarrow>
    eq_step s (s\<lparr>es_q := read_node_remove (es_q s),
                es_reader := Looping (cnt - length (node_image n)) (out @ node_image n),
                g_delivered := g_delivered s @ [n]\<rparr>)"
| node_fault: "es_reader s = NodeCopy cnt out n \<Longrightarrow> eq_step s (s\<lparr>es_reader := Idle\<rparr>)"

inductive eq_reach :: "u32 \<Rightarrow> u32 \<Rightarrow> eq_sys \<Rightarrow> bool" for mq mp where
  start: "eq_reach mq mp (eq_start mq mp)"
| step: "eq_reach mq mp s \<Longrightarrow> eq_step s t \<Longrightarrow> eq_reach mq mp t"

section \<open>The invariant\<close>

definition hd_seq :: "nat list \<Rightarrow> u64" where
  "hd_seq ds = (if ds = [] then 0 else of_nat (hd ds))"

definition last_seq :: "nat list \<Rightarrow> u64" where
  "last_seq ds = (if ds = [] then 0 else of_nat (last ds))"

definition node_seq :: "event_node \<Rightarrow> nat" where
  "node_seq n = unat (eh_seq (en_hdr n))"

definition reported :: "eq_sys \<Rightarrow> nat list" where
  "reported s = concat (map snd (g_reports s))"

text \<open>Every sequence number a record or a drop of the history carries.\<close>

definition all_seqs :: "eq_sys \<Rightarrow> nat list" where
  "all_seqs s = map node_seq (g_accepted s) @ map node_seq (g_freed s) @ reported s @
     g_taken s @ g_waiting s @ g_forgotten s"

definition report_exact :: "dropped_info \<Rightarrow> nat list \<Rightarrow> bool" where
  "report_exact i ds \<longleftrightarrow> ds \<noteq> [] \<and> di_dropped i = of_nat (length ds) \<and>
     di_first_seq i = of_nat (hd ds) \<and> di_last_seq i = of_nat (last ds)"

definition inv_fields :: "eq_sys \<Rightarrow> bool" where
  "inv_fields s \<longleftrightarrow> (let q = es_q s in
     eq_next_seq q = of_nat (Suc (g_issued s)) \<and>
     eq_queued q = of_nat (length (eq_pending q)) \<and>
     eq_dropped_pending q = of_nat (length (g_waiting s)) \<and>
     eq_dropped_first_seq q = hd_seq (g_waiting s) \<and>
     eq_dropped_last_seq q = last_seq (g_waiting s) \<and>
     eq_dropped_inflight q = of_nat (length (g_taken s)) \<and>
     eq_inflight_first_seq q = hd_seq (g_taken s) \<and>
     eq_inflight_last_seq q = last_seq (g_taken s) \<and>
     eq_dropped_total q =
       of_nat (length (reported s @ g_taken s @ g_waiting s @ g_forgotten s)))"

definition inv_reader :: "eq_sys \<Rightarrow> bool" where
  "inv_reader s \<longleftrightarrow>
     (case es_reader s of
        DropCopy c out r \<Rightarrow> report_exact (snd r) (g_taken s)
      | NodeCopy c out n \<Rightarrow> g_taken s = [] \<and> eq_pending (es_q s) \<noteq> [] \<and> hd (eq_pending (es_q s)) = n
      | _ \<Rightarrow> g_taken s = [])"

definition numbers :: "nat \<Rightarrow> nat list" where
  "numbers n = [1..<Suc n]"

definition inv_history :: "eq_sys \<Rightarrow> bool" where
  "inv_history s \<longleftrightarrow>
     g_delivered s @ eq_pending (es_q s) = g_accepted s \<and>
     mset (all_seqs s) = mset (numbers (g_issued s)) \<and>
     sorted_wrt (<) (map node_seq (g_accepted s)) \<and>
     sorted_wrt (<) (reported s @ g_taken s @ g_waiting s) \<and>
     (\<forall>(i, ds) \<in> set (g_reports s). report_exact i ds)"

definition inv_bound :: "eq_sys \<Rightarrow> bool" where
  "inv_bound s \<longleftrightarrow> (eq_max_queued (es_q s) \<noteq> 0 \<longrightarrow>
     length (eq_pending (es_q s)) \<le> unat (eq_max_queued (es_q s)))"

definition eq_inv :: "eq_sys \<Rightarrow> bool" where
  "eq_inv s \<longleftrightarrow> inv_fields s \<and> inv_reader s \<and> inv_history s \<and> inv_bound s"

text \<open>Fewer than \<open>2 ^ 64 - 1\<close> numbers issued: the counters have not wrapped.\<close>

definition small :: "eq_sys \<Rightarrow> bool" where
  "small s \<longleftrightarrow> g_issued s < 2 ^ 64 - 1"

lemma numbers_simps [simp]:
  "numbers 0 = []" "numbers (Suc n) = numbers n @ [Suc n]" "length (numbers n) = n"
  "set (numbers n) = {1..<Suc n}"
  by (auto simp: numbers_def)

lemma eq_inv_start: "eq_inv (eq_start mq mp)"
  by (simp add: eq_inv_def inv_fields_def inv_reader_def inv_history_def inv_bound_def eq_start_def
      ksu_event_queue_init_def hd_seq_def last_seq_def reported_def all_seqs_def Let_def)

lemma all_seqs_bound:
  assumes "inv_history s" "x \<in> set (all_seqs s)"
  shows "x \<le> g_issued s" "0 < x"
proof -
  have "set_mset (mset (all_seqs s)) = set_mset (mset (numbers (g_issued s)))"
    using assms(1) by (simp only: inv_history_def)
  then have "x \<in> {1..<Suc (g_issued s)}" using assms(2) by (simp only: set_mset_mset numbers_simps)
  then show "x \<le> g_issued s" "0 < x" by auto
qed

lemma length_all_seqs: "inv_history s \<Longrightarrow> length (all_seqs s) = g_issued s"
proof -
  assume "inv_history s"
  then have "size (mset (all_seqs s)) = size (mset (numbers (g_issued s)))"
    by (simp only: inv_history_def)
  then show ?thesis by simp
qed

section \<open>Preservation\<close>

lemma u64_zero_iff: "n < 2 ^ 64 \<Longrightarrow> (of_nat n :: u64) = 0 \<longleftrightarrow> n = 0"
  by (auto simp: word_of_nat_eq_0_iff dest: dvd_imp_le)

lemma drops_bound:
  assumes "inv_history s"
  shows "length (g_waiting s) + length (g_taken s) \<le> g_issued s"
    "length (g_accepted s) \<le> g_issued s"
  using length_all_seqs [OF assms] by (simp_all add: all_seqs_def)

lemma waiting_zero:
  assumes "eq_inv s" "small s"
  shows "eq_dropped_pending (es_q s) = 0 \<longleftrightarrow> g_waiting s = []"
    "eq_dropped_inflight (es_q s) = 0 \<longleftrightarrow> g_taken s = []"
  using assms drops_bound [of s] u64_zero_iff [of "length (g_waiting s)"]
    u64_zero_iff [of "length (g_taken s)"]
  by (auto simp: eq_inv_def inv_fields_def small_def Let_def)

lemma hd_seq_append: "hd_seq (xs @ ys) = (if xs = [] then hd_seq ys else hd_seq xs)"
  by (simp add: hd_seq_def)

lemma last_seq_append: "last_seq (xs @ ys) = (if ys = [] then last_seq xs else last_seq ys)"
  by (simp add: last_seq_def)

lemma hd_seq_simps [simp]: "hd_seq [] = 0" "hd_seq [n] = of_nat n" "last_seq [] = 0" "last_seq [n] = of_nat n"
  by (simp_all add: hd_seq_def last_seq_def)

lemmas eq_inv_defs = eq_inv_def inv_fields_def inv_reader_def inv_history_def inv_bound_def
  all_seqs_def reported_def Let_def

lemma sorted_snoc:
  "sorted_wrt (<) xs \<Longrightarrow> (\<And>x :: nat. x \<in> set xs \<Longrightarrow> x < y) \<Longrightarrow> sorted_wrt (<) (xs @ [y])"
  by (simp add: sorted_wrt_append)

lemma inv_issue_drop:
  assumes inv: "eq_inv s" and sm: "small s"
    and q: "q = note_drop (eq_next_seq (es_q s)) ((es_q s)\<lparr>eq_next_seq := eq_next_seq (es_q s) + 1\<rparr>)"
  shows "eq_inv (issue_drop q s)"
proof -
  have h: "inv_history s" using inv by (simp add: eq_inv_def)
  have w: "eq_dropped_pending (es_q s) = 0 \<longleftrightarrow> g_waiting s = []"
    by (rule waiting_zero [OF inv sm])
  have "inv_fields (issue_drop q s)"
    using inv w by (simp add: eq_inv_defs issue_drop_def q note_drop_def hd_seq_append last_seq_append)
  moreover have "inv_reader (issue_drop q s)" "inv_bound (issue_drop q s)"
    using inv by (auto simp: eq_inv_def inv_reader_def inv_bound_def issue_drop_def q note_drop_def Let_def
        split: reader.splits)
  moreover have "inv_history (issue_drop q s)"
  proof -
    have "x < Suc (g_issued s)" if "x \<in> set (reported s @ g_taken s @ g_waiting s)" for x
      using all_seqs_bound(1) [OF h, of x] that by (auto simp: all_seqs_def)
    then have "sorted_wrt (<) ((reported s @ g_taken s @ g_waiting s) @ [Suc (g_issued s)])"
      using h by (intro sorted_snoc) (simp_all only: inv_history_def)
    moreover have "mset (all_seqs (issue_drop q s)) = add_mset (Suc (g_issued s)) (mset (all_seqs s))"
      by (simp add: all_seqs_def issue_drop_def reported_def)
    ultimately show ?thesis
      using h by (simp add: inv_history_def issue_drop_def reported_def q note_drop_def Let_def)
  qed
  ultimately show ?thesis by (simp add: eq_inv_def)
qed

lemma push_cases:
  assumes "ksu_event_queue_push ty fl pl len alloc now q = (r, q')"
  obtains (reject) e where "r = Inl e" "e \<noteq> ENOSPC" "e \<noteq> ENOMEM" "q' = q"
  | (full) e where "r = Inl e" "e = ENOSPC \<or> e = ENOMEM" "\<not> eq_closed q"
      "q' = note_drop (eq_next_seq q) (q\<lparr>eq_next_seq := eq_next_seq q + 1\<rparr>)"
  | (ok) "r = Inr ()" "\<not> eq_closed q"
      "eq_max_queued q = 0 \<or> eq_queued q < eq_max_queued q" "len = 0 \<or> pl \<noteq> None"
      "len \<le> eq_max_payload_len q"
      "q' = q\<lparr>eq_next_seq := eq_next_seq q + 1,
        eq_pending := eq_pending q @ [new_node ty fl pl len (eq_next_seq q) now],
        eq_queued := eq_queued q + 1\<rparr>"
proof (cases "len > eq_max_payload_len q \<or> (len \<noteq> 0 \<and> pl = None) \<or> eq_closed q")
  case True
  then have "r = Inl EMSGSIZE \<and> q' = q \<or> r = Inl EINVAL \<and> q' = q \<or> r = Inl EPIPE \<and> q' = q"
    using assms by (auto simp: ksu_event_queue_push_def split: if_splits)
  then show ?thesis by (elim disjE conjE) (auto intro: reject)
next
  case False
  then have f: "\<not> len > eq_max_payload_len q" "\<not> (len \<noteq> 0 \<and> pl = None)" "\<not> eq_closed q" by auto
  show ?thesis
  proof (cases "\<not> alloc \<or> (eq_max_queued q \<noteq> 0 \<and> eq_max_queued q \<le> eq_queued q)")
    case True
    have "(r, q') = (Inl (if alloc then ENOSPC else ENOMEM),
        note_drop (eq_next_seq q) (q\<lparr>eq_next_seq := eq_next_seq q + 1\<rparr>))"
      unfolding assms [symmetric] ksu_event_queue_push_def Let_def if_not_P [OF f(1)]
        if_not_P [OF f(2)] if_not_P [OF f(3)] if_P [OF True] by (rule refl)
    then show ?thesis using f(3) by (intro full [of "if alloc then ENOSPC else ENOMEM"]) simp_all
  next
    case ok': False
    have "(r, q') = (Inr (), q\<lparr>eq_next_seq := eq_next_seq q + 1,
        eq_pending := eq_pending q @ [new_node ty fl pl len (eq_next_seq q) now],
        eq_queued := eq_queued q + 1\<rparr>)"
      unfolding assms [symmetric] ksu_event_queue_push_def Let_def if_not_P [OF f(1)]
        if_not_P [OF f(2)] if_not_P [OF f(3)] if_not_P [OF ok'] by simp
    then show ?thesis using f ok' by (intro ok) (auto simp: not_le not_less)
  qed
qed

lemma inv_push_ok:
  assumes inv: "eq_inv s" and sm: "small s"
    and run: "ksu_event_queue_push ty fl pl len alloc now (es_q s) = (Inr (), q)"
  shows "eq_inv (s\<lparr>es_q := q, g_issued := Suc (g_issued s), g_accepted := g_accepted s @ [last (eq_pending q)]\<rparr>)"
    (is "eq_inv ?t")
proof -
  have h: "inv_history s" and f: "inv_fields s" and b: "inv_bound s" using inv by (auto simp: eq_inv_def)
  let ?n = "new_node ty fl pl len (eq_next_seq (es_q s)) now"
  have q: "eq_max_queued (es_q s) = 0 \<or> eq_queued (es_q s) < eq_max_queued (es_q s)"
    "q = (es_q s)\<lparr>eq_next_seq := eq_next_seq (es_q s) + 1,
        eq_pending := eq_pending (es_q s) @ [?n], eq_queued := eq_queued (es_q s) + 1\<rparr>"
    using run by (auto elim: push_cases)
  have seq: "node_seq ?n = Suc (g_issued s)"
  proof -
    have "Suc (g_issued s) < 2 ^ 64" using sm by (simp add: small_def)
    then have "unat (of_nat (Suc (g_issued s)) :: u64) = Suc (g_issued s)"
      by (simp only: unat_of_nat len_of_numeral_defs take_bit_nat_eq_self_iff) simp
    then show ?thesis using f by (simp add: node_seq_def new_node_def inv_fields_def Let_def)
  qed
  have "inv_fields ?t" using f by (simp add: inv_fields_def q(2) reported_def Let_def)
  moreover have "inv_reader ?t"
    using inv by (auto simp: eq_inv_def inv_reader_def q(2) split: reader.splits)
  moreover have "inv_bound ?t"
  proof -
    have "length (eq_pending (es_q s)) < unat (eq_max_queued (es_q s))" if m: "eq_max_queued (es_q s) \<noteq> 0"
    proof -
      have "length (eq_pending (es_q s)) < 2 ^ 32"
        using b m unat_bound [of "eq_max_queued (es_q s)"] by (simp add: inv_bound_def)
      then have "unat (eq_queued (es_q s)) = length (eq_pending (es_q s))"
        using f by (simp add: inv_fields_def Let_def unat_of_nat)
      then show ?thesis using q(1) m by (simp add: word_less_nat_alt)
    qed
    then show ?thesis by (auto simp: inv_bound_def q(2))
  qed
  moreover have "inv_history ?t"
  proof -
    have "x < Suc (g_issued s)" if "x \<in> set (map node_seq (g_accepted s))" for x
      using all_seqs_bound(1) [OF h, of x] that by (auto simp: all_seqs_def)
    then have "sorted_wrt (<) (map node_seq (g_accepted s) @ [Suc (g_issued s)])"
      using h by (intro sorted_snoc) (simp_all only: inv_history_def)
    moreover have "mset (all_seqs ?t) = add_mset (Suc (g_issued s)) (mset (all_seqs s))"
      by (simp add: all_seqs_def reported_def q(2) seq)
    ultimately show ?thesis
      using h by (simp add: inv_history_def reported_def q(2) seq)
  qed
  ultimately show ?thesis by (simp add: eq_inv_def)
qed

text \<open>Steps that only move the reader, or only flag the queue.\<close>

lemma inv_frame:
  assumes "eq_inv s"
    and "eq_pending q = eq_pending (es_q s)" "eq_queued q = eq_queued (es_q s)"
    "eq_max_queued q = eq_max_queued (es_q s)" "eq_next_seq q = eq_next_seq (es_q s)"
    "eq_dropped_pending q = eq_dropped_pending (es_q s)"
    "eq_dropped_first_seq q = eq_dropped_first_seq (es_q s)"
    "eq_dropped_last_seq q = eq_dropped_last_seq (es_q s)"
    "eq_dropped_inflight q = eq_dropped_inflight (es_q s)"
    "eq_inflight_first_seq q = eq_inflight_first_seq (es_q s)"
    "eq_inflight_last_seq q = eq_inflight_last_seq (es_q s)"
    "eq_dropped_total q = eq_dropped_total (es_q s)"
    and "inv_reader (s\<lparr>es_q := q, es_reader := r\<rparr>)"
  shows "eq_inv (s\<lparr>es_q := q, es_reader := r\<rparr>)"
proof -
  let ?t = "s\<lparr>es_q := q, es_reader := r\<rparr>"
  have "inv_fields ?t = inv_fields s" by (simp add: inv_fields_def reported_def assms(2-12) Let_def)
  moreover have "inv_history ?t = inv_history s"
    by (simp add: inv_history_def all_seqs_def reported_def assms(2))
  moreover have "inv_bound ?t = inv_bound s" by (simp add: inv_bound_def assms(2,4))
  ultimately show ?thesis using assms(1,13) by (simp add: eq_inv_def)
qed

lemma inv_reader_move:
  assumes "eq_inv s" "inv_reader (s\<lparr>es_reader := r\<rparr>)"
  shows "eq_inv (s\<lparr>es_reader := r\<rparr>)"
  using inv_frame [of s "es_q s" r] assms by simp

lemma inv_take_drop:
  assumes inv: "eq_inv s" and sm: "small s" and rd: "es_reader s = Looping cnt out"
    and take: "read_drop_take cnt now (es_q s) = Inr (Some (r, q))"
  shows "eq_inv (s\<lparr>es_q := q, es_reader := DropCopy cnt out r, g_taken := g_waiting s, g_waiting := []\<rparr>)"
proof -
  have t: "g_taken s = []" using inv rd by (simp add: eq_inv_def inv_reader_def)
  have w: "g_waiting s \<noteq> []"
    using take waiting_zero(1) [OF inv sm] by (auto simp: read_drop_take_def split: if_splits)
  show ?thesis
    using inv take t w
    by (auto simp: eq_inv_defs read_drop_take_def report_exact_def hd_seq_def last_seq_def split: if_splits)
qed

lemma inv_drop_copied:
  assumes inv: "eq_inv s" and rd: "es_reader s = DropCopy cnt out (hdr, i)"
  shows "eq_inv (s\<lparr>es_q := read_drop_commit (es_q s), es_reader := Looping c' out',
      g_reports := g_reports s @ [(i, g_taken s)], g_taken := []\<rparr>)"
  using inv rd by (auto simp: eq_inv_defs read_drop_commit_def)

lemma inv_drop_fault:
  assumes inv: "eq_inv s" and sm: "small s" and rd: "es_reader s = DropCopy cnt out r"
  shows "eq_inv (s\<lparr>es_q := read_drop_restore (es_q s), es_reader := Idle,
      g_waiting := g_taken s @ g_waiting s, g_taken := []\<rparr>)"
proof -
  have t: "g_taken s \<noteq> []" using inv rd by (simp add: eq_inv_def inv_reader_def report_exact_def)
  show ?thesis
    using inv t waiting_zero(1) [OF inv sm]
    by (auto simp: eq_inv_defs read_drop_restore_def read_drop_commit_def hd_seq_append last_seq_append
        ac_simps)
qed

lemma inv_node_copied:
  assumes inv: "eq_inv s" and rd: "es_reader s = NodeCopy cnt out n"
  shows "eq_inv (s\<lparr>es_q := read_node_remove (es_q s), es_reader := Looping c' out',
      g_delivered := g_delivered s @ [n]\<rparr>)"
proof -
  obtain ns where "eq_pending (es_q s) = n # ns"
    using inv rd by (cases "eq_pending (es_q s)") (auto simp: eq_inv_def inv_reader_def)
  then show ?thesis
    using inv rd by (auto simp: eq_inv_defs read_node_remove_def)
qed

lemma inv_destroy:
  assumes inv: "eq_inv s" and rd: "es_reader s = Idle"
  shows "eq_inv (s\<lparr>es_q := ksu_event_queue_destroy (es_q s),
      g_freed := g_freed s @ eq_pending (es_q s), g_accepted := g_delivered s,
      g_forgotten := g_forgotten s @ g_waiting s, g_waiting := []\<rparr>)" (is "eq_inv ?t")
proof -
  have t: "g_taken s = []" using inv rd by (simp add: eq_inv_def inv_reader_def)
  have h: "inv_history s" and f: "inv_fields s" using inv by (auto simp: eq_inv_def)
  then have acc: "g_accepted s = g_delivered s @ eq_pending (es_q s)" by (simp add: inv_history_def)
  note d = ksu_event_queue_destroy_def ksu_event_queue_close_def
  have "inv_fields ?t" using f t by (simp add: inv_fields_def d reported_def Let_def)
  moreover have "inv_reader ?t" using t rd by (simp add: inv_reader_def)
  moreover have "inv_bound ?t" by (simp add: inv_bound_def d)
  moreover have "mset (all_seqs ?t) = mset (all_seqs s)"
    by (simp add: all_seqs_def reported_def acc d)
  then have "inv_history ?t"
    using h t by (simp add: inv_history_def d acc reported_def sorted_wrt_append)
  ultimately show ?thesis by (simp add: eq_inv_def)
qed

lemma issued_mono: "eq_step s t \<Longrightarrow> g_issued s \<le> g_issued t"
  by (induction rule: eq_step.induct) (simp_all add: issue_drop_def)

lemma max_queued_const: "eq_step s t \<Longrightarrow> eq_max_queued (es_q t) = eq_max_queued (es_q s)"
proof (induction rule: eq_step.induct)
  case (take_drop s cnt out now r q)
  then show ?case by (auto simp: read_drop_take_def split: if_splits)
qed (auto elim!: push_cases simp: issue_drop_def note_drop_def ksu_event_queue_drop_def
    ksu_event_queue_close_def ksu_event_queue_destroy_def read_drop_commit_def
    read_drop_restore_def read_node_remove_def Let_def)

lemma eq_step_inv: "eq_step s t \<Longrightarrow> eq_inv s \<Longrightarrow> small s \<Longrightarrow> eq_inv t"
proof (induction rule: eq_step.induct)
  case (push_ok ty fl pl len alloc now s q)
  then show ?case by (intro inv_push_ok)
next
  case (push_full ty fl pl len alloc now s e q)
  have "q = note_drop (eq_next_seq (es_q s)) ((es_q s)\<lparr>eq_next_seq := eq_next_seq (es_q s) + 1\<rparr>)"
    using push_full(1,2) by (auto elim: push_cases)
  then show ?case using push_full by (intro inv_issue_drop)
next
  case (push_reject ty fl pl len alloc now s e q)
  then have "q = es_q s" by (auto elim: push_cases)
  then show ?case using push_reject by simp
next
  case (drop s)
  then show ?case by (intro inv_issue_drop) (simp_all add: ksu_event_queue_drop_def)
next
  case (drop_closed s)
  then show ?case by (simp add: ksu_event_queue_drop_def)
next
  case (close s)
  have "inv_reader (s\<lparr>es_q := ksu_event_queue_close (es_q s), es_reader := es_reader s\<rparr>)"
    using close by (auto simp: eq_inv_def inv_reader_def ksu_event_queue_close_def split: reader.splits)
  then have "eq_inv (s\<lparr>es_q := ksu_event_queue_close (es_q s), es_reader := es_reader s\<rparr>)"
    using close by (intro inv_frame) (simp_all add: ksu_event_queue_close_def)
  then show ?case by simp
next
  case (drop_copied s cnt out h i)
  then show ?case by (intro inv_drop_copied)
next
  case (node_copied s cnt out n)
  then show ?case by (intro inv_node_copied)
next
  case (take_drop s cnt out now r q)
  then show ?case by (intro inv_take_drop)
next
  case (drop_fault s cnt out r)
  then show ?case by (intro inv_drop_fault)
next
  case (destroy s)
  then show ?case by (intro inv_destroy)
next
  case (node_peek s cnt out n)
  then have "inv_reader (s\<lparr>es_reader := NodeCopy cnt out n\<rparr>)"
    by (auto simp: eq_inv_def inv_reader_def read_node_peek_def split: list.splits if_splits)
  then show ?case using node_peek by (intro inv_reader_move)
next
  case (start s cnt nonblock q)
  then have "inv_reader (s\<lparr>es_reader := Looping cnt []\<rparr>)"
    by (simp add: eq_inv_def inv_reader_def)
  then show ?case using start by (intro inv_reader_move)
next
  case (no_drop s cnt out now)
  then have "inv_reader (s\<lparr>es_reader := NodeLook cnt out\<rparr>)"
    by (simp add: eq_inv_def inv_reader_def)
  then show ?case using no_drop by (intro inv_reader_move)
qed (rule inv_reader_move, assumption, simp add: eq_inv_def inv_reader_def)+

lemma eq_reach_inv: "eq_reach mq mp s \<Longrightarrow> small s \<Longrightarrow> eq_inv s"
proof (induction rule: eq_reach.induct)
  case (step s t)
  then have "small s" using issued_mono [OF step(2)] by (simp add: small_def)
  then show ?case using step eq_step_inv by blast
qed (rule eq_inv_start)

lemma eq_reach_max: "eq_reach mq mp s \<Longrightarrow> eq_max_queued (es_q s) = mq"
  by (induction rule: eq_reach.induct)
    (simp_all add: eq_start_def ksu_event_queue_init_def max_queued_const)

section \<open>The sequential read is a run of the steps\<close>

lemma record_images_nonempty [simp]: "hdr_image h \<noteq> []" "node_image n \<noteq> []"
  using length_hdr_image [of h] by (auto simp: node_image_def simp flip: length_0_conv)

lemma step_run: "eq_step s t \<Longrightarrow> eq_step\<^sup>*\<^sup>* t u \<Longrightarrow> eq_step\<^sup>*\<^sup>* s u"
  by (rule converse_rtranclp_into_rtranclp)

lemma read_drop_run:
  assumes rd: "es_reader s = Looping cnt out"
    and run: "ksu_event_queue_read_drop cp off cnt now (es_q s) = (r, q')"
  obtains t where "eq_step\<^sup>*\<^sup>* s t" "es_q t = q'"
    "case r of Inl e \<Rightarrow> es_reader t = Idle
     | Inr bs \<Rightarrow> es_reader t = (if bs = [] then NodeLook cnt out else Looping (cnt - length bs) (out @ bs))"
proof (cases "read_drop_take cnt now (es_q s)")
  case (Inl e)
  have "r = Inl e" "q' = es_q s" using run by (auto simp: ksu_event_queue_read_drop_def Inl)
  then show ?thesis using that [OF r_into_rtranclp [of eq_step, OF eq_step.drop_small [OF rd Inl]]] by simp
next
  case (Inr res)
  show ?thesis
  proof (cases res)
    case None
    then have "r = Inr []" "q' = es_q s" using run Inr by (auto simp: ksu_event_queue_read_drop_def)
    then show ?thesis using that [OF r_into_rtranclp [of eq_step, OF eq_step.no_drop [OF rd]]] Inr None by simp
  next
    case (Some p)
    obtain h i q1 where p: "p = ((h, i), q1)" by (metis prod.exhaust)
    let ?m = "s\<lparr>es_q := q1, es_reader := DropCopy cnt out (h, i), g_taken := g_waiting s, g_waiting := []\<rparr>"
    have m: "eq_step s ?m" using Inr Some p by (intro eq_step.take_drop [OF rd]) simp
    show ?thesis
    proof (cases "\<not> cp off 24 \<or> \<not> cp (off + 24) 24")
      case True
      then have "r = Inl EFAULT" "q' = read_drop_restore q1"
        using run Inr Some p by (auto simp: ksu_event_queue_read_drop_def)
      then show ?thesis
        using that [OF step_run [OF m r_into_rtranclp [of eq_step, OF eq_step.drop_fault]]] by simp
    next
      case False
      then have "r = Inr (hdr_image h @ info_image i)" "q' = read_drop_commit q1"
        using run Inr Some p by (auto simp: ksu_event_queue_read_drop_def)
      then show ?thesis
        using that [OF step_run [OF m r_into_rtranclp [of eq_step, OF eq_step.drop_copied]]] by simp
    qed
  qed
qed

lemma read_node_run:
  assumes rd: "es_reader s = NodeLook cnt out"
    and run: "ksu_event_queue_read_node cp off cnt (es_q s) = (r, q')"
  obtains t where "eq_step\<^sup>*\<^sup>* s t" "es_q t = q'"
    "case r of Inl e \<Rightarrow> es_reader t = Idle
     | Inr bs \<Rightarrow> es_reader t = (if bs = [] then Idle else Looping (cnt - length bs) (out @ bs))"
proof (cases "read_node_peek cnt (es_q s)")
  case (Inl e)
  have "r = Inl e" "q' = es_q s" using run by (auto simp: ksu_event_queue_read_node_def Inl)
  then show ?thesis using that [OF r_into_rtranclp [of eq_step, OF eq_step.node_small [OF rd Inl]]] by simp
next
  case (Inr res)
  show ?thesis
  proof (cases res)
    case None
    then have "r = Inr []" "q' = es_q s" using run Inr by (auto simp: ksu_event_queue_read_node_def)
    then show ?thesis using that [OF r_into_rtranclp [of eq_step, OF eq_step.node_end [OF rd]]] Inr None by simp
  next
    case (Some n)
    let ?m = "s\<lparr>es_reader := NodeCopy cnt out n\<rparr>"
    have m: "eq_step s ?m" using Inr Some by (intro eq_step.node_peek [OF rd]) simp
    show ?thesis
    proof (cases "node_copied cp off n")
      case False
      then have "r = Inl EFAULT" "q' = es_q s"
        using run Inr Some by (auto simp: ksu_event_queue_read_node_def)
      then show ?thesis
        using that [OF step_run [OF m r_into_rtranclp [of eq_step, OF eq_step.node_fault]]] by simp
    next
      case True
      then have "r = Inr (node_image n)" "q' = read_node_remove (es_q s)"
        using run Inr Some by (auto simp: ksu_event_queue_read_node_def)
      then show ?thesis
        using that [OF step_run [OF m r_into_rtranclp [of eq_step, OF eq_step.node_copied]]] by simp
    qed
  qed
qed

lemma read_loop_run:
  assumes "es_reader s = Looping cnt out" "read_loop cp now cnt out (es_q s) = (r, q')"
  shows "\<exists>t. eq_step\<^sup>*\<^sup>* s t \<and> es_q t = q' \<and> es_reader t = Idle"
  using assms
proof (induction cnt arbitrary: s out rule: less_induct)
  case (less cnt)
  note rl = less.prems(2) [unfolded read_loop.simps [of cp now cnt out "es_q s"]]
  show ?case
  proof (cases "cnt = 0")
    case True
    have "eq_step s (s\<lparr>es_reader := Idle\<rparr>)"
      using less.prems(1) True by (intro eq_step.full_buffer [of _ out]) simp
    then show ?thesis using rl True by (intro exI [of _ "s\<lparr>es_reader := Idle\<rparr>"]) simp
  next
    case False
    obtain r1 q1 where d: "ksu_event_queue_read_drop cp (length out) cnt now (es_q s) = (r1, q1)"
      by fastforce
    obtain t where t: "eq_step\<^sup>*\<^sup>* s t" "es_q t = q1"
      "case r1 of Inl e \<Rightarrow> es_reader t = Idle
       | Inr bs \<Rightarrow> es_reader t = (if bs = [] then NodeLook cnt out else Looping (cnt - length bs) (out @ bs))"
      by (rule read_drop_run [OF less.prems(1) d])
    show ?thesis
    proof (cases r1)
      case (Inl e)
      then show ?thesis using t rl d False by auto
    next
      case (Inr bs)
      show ?thesis
      proof (cases "bs = []")
        case bs: False
        have rest: "read_loop cp now (cnt - length bs) (out @ bs) (es_q t) = (r, q')"
          using rl d False Inr bs t(2) by simp
        have "es_reader t = Looping (cnt - length bs) (out @ bs)" using t(3) Inr bs by simp
        from less.IH [OF _ this rest] False bs
        obtain u where "eq_step\<^sup>*\<^sup>* t u" "es_q u = q'" "es_reader u = Idle" by auto
        then show ?thesis using t(1) by (blast intro: rtranclp_trans)
      next
        case bs: True
        have nl: "es_reader t = NodeLook cnt out" using t(3) Inr bs by simp
        obtain r2 q2 where n: "ksu_event_queue_read_node cp (length out) cnt (es_q t) = (r2, q2)"
          by fastforce
        obtain u where u: "eq_step\<^sup>*\<^sup>* t u" "es_q u = q2"
          "case r2 of Inl e \<Rightarrow> es_reader u = Idle
           | Inr bs \<Rightarrow> es_reader u = (if bs = [] then Idle else Looping (cnt - length bs) (out @ bs))"
          by (rule read_node_run [OF nl n])
        have su: "eq_step\<^sup>*\<^sup>* s u" using t(1) u(1) by (rule rtranclp_trans)
        show ?thesis
        proof (cases "\<exists>bs'. r2 = Inr bs' \<and> bs' \<noteq> []")
          case True
          then obtain bs' where b: "r2 = Inr bs'" "bs' \<noteq> []" by blast
          have rest: "read_loop cp now (cnt - length bs') (out @ bs') (es_q u) = (r, q')"
            using rl d False Inr bs t(2) n u(2) b by simp
          have "es_reader u = Looping (cnt - length bs') (out @ bs')" using u(3) b by simp
          from less.IH [OF _ this rest] False b
          obtain v where "eq_step\<^sup>*\<^sup>* u v" "es_q v = q'" "es_reader v = Idle" by auto
          then show ?thesis using su by (blast intro: rtranclp_trans)
        next
          case stop: False
          then have "es_reader u = Idle" "q2 = q'"
            using u(3) rl d False Inr bs t(2) n by (auto split: sum.splits)
          then show ?thesis using su u(2) by blast
        qed
      qed
    qed
  qed
qed

section \<open>Sequential reads\<close>

lemma wait_ready_nonblock:
  "ksu_event_queue_wait_ready True ws q =
     Some (if has_data q \<or> eq_closed q then Inr () else Inl EAGAIN, q)"
  by (simp add: ksu_event_queue_wait_ready.simps)

text \<open>The bytes a reader with enough room is owed: the report of the drops, then every record.\<close>

definition owed :: "u64 \<Rightarrow> event_queue \<Rightarrow> bytes" where
  "owed now q =
     (if eq_dropped_pending q = 0 then []
      else hdr_image \<lparr>eh_type = KSU_EVENT_QUEUE_TYPE_DROPPED,
             eh_flags = KSU_EVENT_RECORD_FLAG_INTERNAL, eh_len = 24,
             eh_seq = eq_dropped_first_seq q, eh_ts_ns = now\<rparr> @
           info_image \<lparr>di_dropped = eq_dropped_pending q, di_first_seq = eq_dropped_first_seq q,
             di_last_seq = eq_dropped_last_seq q\<rparr>) @
     concat (map node_image (eq_pending q))"

definition sized :: "event_queue \<Rightarrow> bool" where
  "sized q \<longleftrightarrow> (\<forall>n \<in> set (eq_pending q). length (en_payload n) = unat (eh_len (en_hdr n)))"

lemma read_loop_nodes:
  assumes "\<forall>off n. cp off n" "eq_dropped_pending q = 0" "sized q"
    "length (concat (map node_image (eq_pending q))) \<le> cnt"
  shows "read_loop cp now cnt out q =
    (Inr (out @ concat (map node_image (eq_pending q))),
     q\<lparr>eq_pending := [], eq_queued := eq_queued q - of_nat (length (eq_pending q))\<rparr>)"
  using assms(2-)
proof (induction "eq_pending q" arbitrary: q cnt out)
  case Nil
  then show ?case
    by (subst read_loop.simps)
      (simp add: ksu_event_queue_read_drop_def read_drop_take_def ksu_event_queue_read_node_def
        read_node_peek_def)
next
  case (Cons n ns)
  have p: "eq_pending q = n # ns" using Cons(2) by simp
  let ?q = "read_node_remove q"
  have len: "length (node_image n) = record_size (eh_len (en_hdr n))"
    using Cons.prems(2) by (simp add: node_image_def record_size_def sized_def p)
  have room: "length (node_image n) + length (concat (map node_image ns)) \<le> cnt"
    using Cons.prems(3) by (simp add: p)
  have cnt0: "cnt \<noteq> 0" using room len by (auto simp: record_size_def)
  have "ksu_event_queue_read_drop cp (length out) cnt now q = (Inr [], q)"
    using Cons.prems(1) by (simp add: ksu_event_queue_read_drop_def read_drop_take_def)
  moreover have "ksu_event_queue_read_node cp (length out) cnt q = (Inr (node_image n), ?q)"
    using assms(1) room len
    by (simp add: ksu_event_queue_read_node_def read_node_peek_def p node_copied_def)
  ultimately have "read_loop cp now cnt out q =
      read_loop cp now (cnt - length (node_image n)) (out @ node_image n) ?q"
    using cnt0 by (subst read_loop.simps) simp
  also have "\<dots> = (Inr ((out @ node_image n) @ concat (map node_image (eq_pending ?q))),
      ?q\<lparr>eq_pending := [], eq_queued := eq_queued ?q - of_nat (length (eq_pending ?q))\<rparr>)"
    using Cons(1) [of ?q "cnt - length (node_image n)" "out @ node_image n"] Cons.prems room
    by (simp add: read_node_remove_def p sized_def)
  finally show ?case by (simp add: read_node_remove_def p algebra_simps)
qed

lemma read_loop_owed:
  assumes "\<forall>off n. cp off n" "sized q" "length (owed now q) \<le> cnt"
  shows "read_loop cp now cnt [] q =
    (Inr (owed now q),
     q\<lparr>eq_pending := [], eq_queued := eq_queued q - of_nat (length (eq_pending q)),
       eq_dropped_pending := 0,
       eq_dropped_first_seq := (if eq_dropped_pending q = 0 then eq_dropped_first_seq q else 0),
       eq_dropped_last_seq := (if eq_dropped_pending q = 0 then eq_dropped_last_seq q else 0),
       eq_dropped_inflight := (if eq_dropped_pending q = 0 then eq_dropped_inflight q else 0),
       eq_inflight_first_seq := (if eq_dropped_pending q = 0 then eq_inflight_first_seq q else 0),
       eq_inflight_last_seq := (if eq_dropped_pending q = 0 then eq_inflight_last_seq q else 0)\<rparr>)"
proof (cases "eq_dropped_pending q = 0")
  case True
  then show ?thesis
    using read_loop_nodes [OF assms(1) True assms(2), of cnt now "[]"] assms(3)
    by (simp add: owed_def)
next
  case False
  let ?h = "\<lparr>eh_type = KSU_EVENT_QUEUE_TYPE_DROPPED, eh_flags = KSU_EVENT_RECORD_FLAG_INTERNAL,
    eh_len = 24, eh_seq = eq_dropped_first_seq q, eh_ts_ns = now\<rparr>"
  let ?i = "\<lparr>di_dropped = eq_dropped_pending q, di_first_seq = eq_dropped_first_seq q,
    di_last_seq = eq_dropped_last_seq q\<rparr>"
  let ?q = "q\<lparr>eq_dropped_inflight := 0, eq_inflight_first_seq := 0, eq_inflight_last_seq := 0,
    eq_dropped_pending := 0, eq_dropped_first_seq := 0, eq_dropped_last_seq := 0\<rparr>"
  have room: "48 + length (concat (map node_image (eq_pending q))) \<le> cnt"
    using assms(3) False by (simp add: owed_def)
  have "ksu_event_queue_read_drop cp 0 cnt now q = (Inr (hdr_image ?h @ info_image ?i), ?q)"
    using False assms(1) room
    by (simp add: ksu_event_queue_read_drop_def read_drop_take_def read_drop_commit_def record_size_def)
  then have "read_loop cp now cnt [] q = read_loop cp now (cnt - 48) (hdr_image ?h @ info_image ?i) ?q"
    using room by (subst read_loop.simps) simp
  also have "\<dots> = (Inr ((hdr_image ?h @ info_image ?i) @ concat (map node_image (eq_pending ?q))),
      ?q\<lparr>eq_pending := [], eq_queued := eq_queued ?q - of_nat (length (eq_pending ?q))\<rparr>)"
    by (rule read_loop_nodes [OF assms(1)]) (use assms(2) room in \<open>simp_all add: sized_def\<close>)
  finally show ?thesis using False by (simp add: owed_def)
qed

lemma note_drop_pending: "eq_pending (note_drop sq q) = eq_pending q"
  by (simp add: note_drop_def Let_def)

lemma in_tl: "x \<in> set (tl xs) \<Longrightarrow> x \<in> set xs"
  by (cases xs) auto

lemma eq_step_sized:
  "eq_step s t \<Longrightarrow> sized (es_q s) \<Longrightarrow> sized (es_q t)"
proof (induction rule: eq_step.induct)
  case (push_ok ty fl pl len alloc now s q)
  then show ?case
    by (auto elim!: push_cases simp: sized_def new_node_def payload_ok_def split: option.splits)
next
  case (take_drop s cnt out now r q)
  then show ?case by (auto simp: read_drop_take_def sized_def split: if_splits)
qed (auto elim!: push_cases dest: in_tl simp: sized_def issue_drop_def note_drop_pending ksu_event_queue_drop_def
    ksu_event_queue_close_def ksu_event_queue_destroy_def read_drop_commit_def
    read_drop_restore_def read_node_remove_def Let_def)

lemma eq_reach_sized: "eq_reach mq mp s \<Longrightarrow> sized (es_q s)"
proof (induction rule: eq_reach.induct)
  case (step s t)
  then show ?case using eq_step_sized by blast
qed (simp add: eq_start_def ksu_event_queue_init_def sized_def)

lemma read_drop_error:
  "ksu_event_queue_read_drop cp off cnt now q = (Inl e, q') \<Longrightarrow> e = EMSGSIZE \<or> e = EFAULT"
  by (auto simp: ksu_event_queue_read_drop_def read_drop_take_def split: sum.splits option.splits if_splits)

lemma read_node_error:
  "ksu_event_queue_read_node cp off cnt q = (Inl e, q') \<Longrightarrow> e = EMSGSIZE \<or> e = EFAULT"
  by (auto simp: ksu_event_queue_read_node_def read_node_peek_def split: sum.splits option.splits list.splits if_splits)

lemma read_drop_nothing:
  "ksu_event_queue_read_drop cp off cnt now q = (Inr [], q') \<Longrightarrow> q' = q \<and> eq_dropped_pending q = 0"
  by (auto simp: ksu_event_queue_read_drop_def read_drop_take_def split: sum.splits option.splits if_splits)

lemma read_node_nothing:
  "ksu_event_queue_read_node cp off cnt q = (Inr [], q') \<Longrightarrow> eq_pending q = []"
  by (auto simp: ksu_event_queue_read_node_def read_node_peek_def split: sum.splits option.splits list.splits if_splits)

text \<open>A read loop that has copied something returns at least that; its errors are two.\<close>

lemma read_loop_result:
  "read_loop cp now cnt out q = (r, q') \<Longrightarrow>
     (case r of Inl e \<Rightarrow> out = [] \<and> (e = EMSGSIZE \<or> e = EFAULT) | Inr bs \<Rightarrow> length out \<le> length bs)"
proof (induction cnt arbitrary: out q rule: less_induct)
  case (less cnt)
  note rl = less.prems [unfolded read_loop.simps [of cp now cnt out q]]
  show ?case
  proof (cases "cnt = 0")
    case False
    obtain r1 q1 where d: "ksu_event_queue_read_drop cp (length out) cnt now q = (r1, q1)" by fastforce
    obtain r2 q2 where n: "ksu_event_queue_read_node cp (length out) cnt q1 = (r2, q2)" by fastforce
    consider e where "r1 = Inl e" | bs where "r1 = Inr bs" "bs \<noteq> []" | e where "r1 = Inr []" "r2 = Inl e"
      | "r1 = Inr []" "r2 = Inr []" | bs where "r1 = Inr []" "r2 = Inr bs" "bs \<noteq> []"
      by (metis sum.exhaust)
    then show ?thesis
    proof cases
      case 1
      then show ?thesis using rl d False read_drop_error [of cp "length out" cnt now q e q1]
        by (auto simp: read_end_def split: if_splits)
    next
      case (2 bs)
      then have "read_loop cp now (cnt - length bs) (out @ bs) q1 = (r, q')" using rl d False by simp
      from less.IH [OF _ this] 2 False show ?thesis by (auto split: sum.splits)
    next
      case 3
      then show ?thesis using rl d n False read_node_error [of cp "length out" cnt q1 e q2]
        by (auto simp: read_end_def split: if_splits)
    next
      case 4
      then show ?thesis using rl d n False by auto
    next
      case (5 bs)
      then have "read_loop cp now (cnt - length bs) (out @ bs) q2 = (r, q')" using rl d n False by simp
      from less.IH [OF _ this] 5 False show ?thesis by (auto split: sum.splits)
    qed
  qed (use rl in auto)
qed

lemma read_loop_nonempty:
  assumes "0 < cnt" "eq_dropped_pending q \<noteq> 0 \<or> eq_pending q \<noteq> []"
  shows "fst (read_loop cp now cnt [] q) \<noteq> Inr []"
proof -
  obtain r q' where rl: "read_loop cp now cnt [] q = (r, q')" by fastforce
  obtain r1 q1 where d: "ksu_event_queue_read_drop cp 0 cnt now q = (r1, q1)" by fastforce
  obtain r2 q2 where n: "ksu_event_queue_read_node cp 0 cnt q1 = (r2, q2)" by fastforce
  have *: "r \<noteq> Inr []" if "read_loop cp now c' bs q'' = (r, q')" "bs \<noteq> []" for c' bs q''
    using read_loop_result [OF that(1)] that(2) by (auto split: sum.splits)
  show ?thesis
  proof (cases r1)
    case (Inl e)
    then show ?thesis using d assms(1) by (subst read_loop.simps) (simp add: read_end_def)
  next
    case (Inr bs)
    show ?thesis
    proof (cases "bs = []")
      case False
      then have "read_loop cp now (cnt - length bs) bs q1 = (r, q')"
        using rl d Inr assms(1) by (subst (asm) read_loop.simps) simp
      then show ?thesis using * False rl by simp
    next
      case True
      then have "eq_pending q1 \<noteq> []" using read_drop_nothing d Inr assms(2) by blast
      then have ne: "r2 \<noteq> Inr []" using read_node_nothing n by blast
      show ?thesis
      proof (cases r2)
        case (Inl e)
        then show ?thesis using d n Inr True assms(1) \<open>r1 = Inr bs\<close>
          by (subst read_loop.simps) (simp add: read_end_def)
      next
        case (Inr bs')
        then have "read_loop cp now (cnt - length bs') bs' q2 = (r, q')" "bs' \<noteq> []"
          using rl d n True assms(1) \<open>r1 = Inr bs\<close> ne by (subst (asm) read_loop.simps, simp)+
        then show ?thesis using * rl by simp
      qed
    qed
  qed
qed

section \<open>Sample runs\<close>

definition ex_push :: "bool \<Rightarrow> event_queue \<Rightarrow> event_queue" where
  "ex_push alloc q = snd (ksu_event_queue_push 1 0 (Some [7, 7]) 2 alloc 5 q)"

text \<open>A queue of one slot with one record queued and one drop noted.\<close>

definition ex_sys :: eq_sys where
  "ex_sys =
     (let s0 = eq_start 1 16; q1 = ex_push True (es_q s0);
          s1 = s0\<lparr>es_q := q1, g_issued := 1, g_accepted := [last (eq_pending q1)]\<rparr>
      in issue_drop (ksu_event_queue_drop q1) s1)"

lemma ex_sys_reach: "eq_reach 1 16 ex_sys"
proof -
  let ?s0 = "eq_start 1 16"
  let ?q1 = "ex_push True (es_q ?s0)"
  let ?s1 = "?s0\<lparr>es_q := ?q1, g_issued := Suc (g_issued ?s0),
    g_accepted := g_accepted ?s0 @ [last (eq_pending ?q1)]\<rparr>"
  have run: "ksu_event_queue_push 1 0 (Some [7, 7]) 2 True 5 (es_q ?s0) = (Inr (), ?q1)"
    by (simp add: ex_push_def ksu_event_queue_push_def eq_start_def ksu_event_queue_init_def Let_def)
  have "eq_step ?s0 ?s1" by (rule eq_step.push_ok [OF run]) (simp add: payload_ok_def)
  then have r: "eq_reach 1 16 ?s1" by (rule eq_reach.step [OF eq_reach.start])
  have open': "\<not> eq_closed (es_q ?s1)"
    by (simp add: ex_push_def ksu_event_queue_push_def eq_start_def ksu_event_queue_init_def Let_def)
  have "eq_reach 1 16 (issue_drop (ksu_event_queue_drop (es_q ?s1)) ?s1)"
    by (rule eq_reach.step [OF r]) (rule eq_step.drop [OF open'])
  then show ?thesis by (simp add: ex_sys_def eq_start_def Let_def)
qed

lemma ex_sys_simps:
  "g_issued ex_sys = 2" "es_reader ex_sys = Idle" "length (eq_pending (es_q ex_sys)) = 1"
  "eq_dropped_pending (es_q ex_sys) = 1" "eq_closed (es_q ex_sys) = False"
  by (simp_all add: ex_sys_def ex_push_def ksu_event_queue_push_def eq_start_def
      ksu_event_queue_init_def issue_drop_def ksu_event_queue_drop_def note_drop_def Let_def)

section \<open>Properties\<close>

text \<open>
  C8: nothing is lost silently. However pushes, drops, a close, destroys and the reader's
  critical sections interleave, the records delivered followed by those still queued are
  exactly the accepted ones in order, with strictly increasing numbers; and the numbers issued
  are partitioned, each once, into accepted records, drops reported, being reported or waiting
  to be, and what destroy freed. The queue never exceeds its limit.
\<close>

theorem event_queue_accounting:
  assumes "eq_reach mq mp s" "g_issued s < 2 ^ 64 - 1"
  shows "g_accepted s = g_delivered s @ eq_pending (es_q s) \<and>
    sorted_wrt (<) (map node_seq (g_accepted s)) \<and>
    mset (map node_seq (g_accepted s @ g_freed s) @ reported s @ g_taken s @ g_waiting s @ g_forgotten s)
      = mset [1..<Suc (g_issued s)] \<and>
    (mq \<noteq> 0 \<longrightarrow> length (eq_pending (es_q s)) \<le> unat mq)"
proof -
  have inv: "eq_inv s" using eq_reach_inv [OF assms(1)] assms(2) by (simp add: small_def)
  then show ?thesis
    using eq_reach_max [OF assms(1)]
    unfolding eq_inv_def inv_history_def inv_bound_def all_seqs_def numbers_def map_append append_assoc
    by (elim conjE, intro conjI) (simp_all only: simp_thms)
qed

lemma event_queue_accounting_witness:
  "length (g_accepted ex_sys) = 1 \<and> mset (map node_seq (g_accepted ex_sys @ g_freed ex_sys) @
     reported ex_sys @ g_taken ex_sys @ g_waiting ex_sys @ g_forgotten ex_sys) = mset [1..<3]"
proof -
  have "g_issued ex_sys < 2 ^ 64 - 1" by (simp add: ex_sys_simps)
  from event_queue_accounting [OF ex_sys_reach this]
  have acc: "g_accepted ex_sys = g_delivered ex_sys @ eq_pending (es_q ex_sys)"
    and ms: "mset (map node_seq (g_accepted ex_sys @ g_freed ex_sys) @
     reported ex_sys @ g_taken ex_sys @ g_waiting ex_sys @ g_forgotten ex_sys) = mset [1..<Suc (g_issued ex_sys)]"
    by blast+
  have "g_delivered ex_sys = []"
    by (simp add: ex_sys_def eq_start_def issue_drop_def Let_def)
  then have "length (g_accepted ex_sys) = 1" using acc ex_sys_simps(3) by simp
  moreover have "Suc (g_issued ex_sys) = 3" by (simp add: ex_sys_simps)
  ultimately show ?thesis using ms by (simp only: simp_thms)
qed

text \<open>
  C9: drop reports are exact. Every report handed to the reader carries the number of the
  drops it covers and the first and last of their sequence numbers; the drops of successive
  reports and those still to come increase; and \<open>dropped_total\<close> counts them all.
\<close>

theorem drop_reports_exact:
  assumes "eq_reach mq mp s" "g_issued s < 2 ^ 64 - 1"
  shows "(\<forall>(i, ds) \<in> set (g_reports s). ds \<noteq> [] \<and> di_dropped i = of_nat (length ds) \<and>
      di_first_seq i = of_nat (hd ds) \<and> di_last_seq i = of_nat (last ds)) \<and>
    sorted_wrt (<) (reported s @ g_taken s @ g_waiting s) \<and>
    eq_dropped_total (es_q s) =
      of_nat (length (reported s @ g_taken s @ g_waiting s @ g_forgotten s))"
proof -
  have inv: "eq_inv s" using eq_reach_inv [OF assms(1)] assms(2) by (simp add: small_def)
  then have "\<forall>(i, ds) \<in> set (g_reports s). report_exact i ds"
    "sorted_wrt (<) (reported s @ g_taken s @ g_waiting s)"
    unfolding eq_inv_def inv_history_def by blast+
  moreover have "eq_dropped_total (es_q s) =
      of_nat (length (reported s @ g_taken s @ g_waiting s @ g_forgotten s))"
    using inv by (simp add: eq_inv_def inv_fields_def Let_def)
  ultimately show ?thesis by (simp only: report_exact_def simp_thms)
qed

lemma drop_reports_exact_witness:
  "eq_dropped_total (es_q ex_sys) =
     of_nat (length (reported ex_sys @ g_taken ex_sys @ g_waiting ex_sys @ g_forgotten ex_sys))"
  using drop_reports_exact [OF ex_sys_reach] by (simp only: ex_sys_simps) simp



text \<open>
  A read with room for everything drains the queue: it returns the drop report, if drops
  are waiting, followed by every record in order, and leaves no data behind.
\<close>

theorem read_drains:
  assumes "eq_reach mq mp s" "g_issued s < 2 ^ 64 - 1" "es_reader s = Idle"
    and "\<forall>off n. cp off n" "0 < cnt" "length (owed now (es_q s)) \<le> cnt" "has_data (es_q s)"
  shows "\<exists>q'. ksu_event_queue_read cp now False nonblock ws cnt (es_q s) = Some (Inr (owed now (es_q s)), q') \<and>
    \<not> has_data q' \<and> eq_queued q' = 0 \<and> eq_dropped_total q' = eq_dropped_total (es_q s)"
proof -
  have inv: "eq_inv s" using eq_reach_inv [OF assms(1)] assms(2) by (simp add: small_def)
  then have t: "g_taken s = []" using assms(3) by (simp add: eq_inv_def inv_reader_def)
  then have f: "eq_dropped_inflight (es_q s) = 0" "eq_queued (es_q s) = of_nat (length (eq_pending (es_q s)))"
    using inv by (simp_all add: eq_inv_def inv_fields_def Let_def)
  have "ksu_event_queue_read cp now False nonblock ws cnt (es_q s) = Some (read_loop cp now cnt [] (es_q s))"
    using assms(5,7) by (simp add: ksu_event_queue_read_def ksu_event_queue_wait_ready.simps)
  then show ?thesis
    unfolding read_loop_owed [OF assms(4) eq_reach_sized [OF assms(1)] assms(6)]
    using f by (simp add: has_data_def)
qed

lemma ex_sys_owed: "length (owed 9 (es_q ex_sys)) = 74"
  by (simp add: owed_def ex_sys_def ex_push_def ksu_event_queue_push_def eq_start_def
      ksu_event_queue_init_def issue_drop_def ksu_event_queue_drop_def note_drop_def Let_def
      node_image_def new_node_def)

lemma read_drains_witness:
  "\<exists>q'. ksu_event_queue_read (\<lambda>_ _. True) 9 False False [] 74 (es_q ex_sys) =
     Some (Inr (owed 9 (es_q ex_sys)), q') \<and> \<not> has_data q'"
  using read_drains [OF ex_sys_reach _ ex_sys_simps(2), of "\<lambda>_ _. True" 74 9 False "[]"] ex_sys_owed
  by (auto simp: ex_sys_simps has_data_def)

text \<open>
  Poll and read agree. On a queue whose reader is idle, a nonblocking read answers
  \<open>EAGAIN\<close> exactly when poll reports nothing, and it returns end of file (zero bytes) only
  when poll reports a hang-up and no input: the queue is closed and drained.
\<close>

theorem poll_read_agree:
  assumes "eq_reach mq mp s" "g_issued s < 2 ^ 64 - 1" "es_reader s = Idle" "0 < cnt"
    and "ksu_event_queue_read cp now False True ws cnt (es_q s) = Some (r, q')"
  shows "(r = Inl EAGAIN \<longleftrightarrow> ksu_event_queue_poll (es_q s) = 0) \<and>
    (r = Inr [] \<longrightarrow> ksu_event_queue_poll (es_q s) = POLLHUP)"
proof -
  let ?q = "es_q s"
  have inv: "eq_inv s" using eq_reach_inv [OF assms(1)] assms(2) by (simp add: small_def)
  then have "g_taken s = []" using assms(3) by (simp add: eq_inv_def inv_reader_def)
  then have f: "eq_dropped_inflight ?q = 0"
    using inv by (simp add: eq_inv_def inv_fields_def Let_def)
  show ?thesis
  proof (cases "has_data ?q \<or> eq_closed ?q")
    case True
    then have rl: "read_loop cp now cnt [] ?q = (r, q')"
      using assms(4,5) by (simp add: ksu_event_queue_read_def wait_ready_nonblock)
    have "r \<noteq> Inl EAGAIN" using read_loop_result [OF rl] by auto
    moreover have "r \<noteq> Inr []" if "has_data ?q"
      using read_loop_nonempty [OF assms(4), of ?q cp now] that f rl by (auto simp: has_data_def)
    ultimately show ?thesis using True by (auto simp: ksu_event_queue_poll_def)
  next
    case False
    then show ?thesis
      using assms(4,5) by (auto simp: ksu_event_queue_read_def wait_ready_nonblock ksu_event_queue_poll_def)
  qed
qed

lemma poll_read_agree_witness:
  "ksu_event_queue_poll (es_q (eq_start 1 16)) = 0"
  using poll_read_agree [OF eq_reach.start, of 1 16 8 "\<lambda>_ _. True" 9 "[]" "Inl EAGAIN"]
  by (simp add: eq_start_def ksu_event_queue_init_def ksu_event_queue_read_def
      wait_ready_nonblock has_data_def)

end
