(* ===== verification/Feature.thy ===== *)
theory Feature
  imports Ksu_Prelude
begin

text \<open>
  The feature registry of \<^verbatim>\<open>kernel/policy/feature.c\<close>: an array of handlers indexed by feature
  id, through which the manager reads and sets the switches of the other components. A handler
  acts on a state \<open>'s\<close>; the three switches that are plain flags
  (\<^verbatim>\<open>feature/sucompat.c\<close>, \<^verbatim>\<open>feature/kernel_umount.c\<close>, \<^verbatim>\<open>feature/sulog.c\<close>)
  are the record \<open>ksu_flags\<close>.
\<close>

section \<open>The registry\<close>

abbreviation (input) "KSU_FEATURE_SU_COMPAT \<equiv> (0 :: u32)"
abbreviation (input) "KSU_FEATURE_KERNEL_UMOUNT \<equiv> (1 :: u32)"
abbreviation (input) "KSU_FEATURE_SULOG \<equiv> (2 :: u32)"
abbreviation (input) "KSU_FEATURE_ADB_ROOT \<equiv> (3 :: u32)"
abbreviation (input) "KSU_FEATURE_SELINUX_HIDE \<equiv> (4 :: u32)"
abbreviation (input) "KSU_FEATURE_MAX \<equiv> (5 :: u32)"

record 's feature_handler =
  fh_feature_id :: u32
  fh_get_handler :: "('s \<Rightarrow> errno + u64) option"
  fh_set_handler :: "(u64 \<Rightarrow> 's \<Rightarrow> (errno + unit) \<times> 's) option"

type_synonym 's registry = "'s feature_handler option list"

definition ksu_feature_init :: "'s registry" where
  "ksu_feature_init = replicate (unat KSU_FEATURE_MAX) None"

definition ksu_register_feature_handler ::
    "'s feature_handler option \<Rightarrow> 's registry \<Rightarrow> (errno + unit) \<times> 's registry" where
  "ksu_register_feature_handler ho R =
     (case ho of
        None \<Rightarrow> (Inl EINVAL, R)
      | Some h \<Rightarrow>
          if fh_feature_id h \<ge> KSU_FEATURE_MAX then (Inl EINVAL, R)
          else if fh_get_handler h = None \<and> fh_set_handler h = None then (Inl EINVAL, R)
          else (Inr (), R[unat (fh_feature_id h) := Some h]))"

definition ksu_unregister_feature_handler :: "u32 \<Rightarrow> 's registry \<Rightarrow> (errno + unit) \<times> 's registry" where
  "ksu_unregister_feature_handler fid R =
     (if fid \<ge> KSU_FEATURE_MAX then (Inl EINVAL, R)
      else if R ! unat fid = None then (Inl ENOENT, R)
      else (Inr (), R[unat fid := None]))"

text \<open>
  \<open>ksu_get_feature\<close> has two out parameters; the result gives the return code and what was
  written to \<open>value\<close> and to \<open>supported\<close> (\<open>None\<close> when left alone). \<open>ptrs\<close> says that
  neither pointer is null.
\<close>

definition ksu_get_feature ::
    "bool \<Rightarrow> u32 \<Rightarrow> 's registry \<Rightarrow> 's \<Rightarrow> (errno + unit) \<times> u64 option \<times> bool option" where
  "ksu_get_feature ptrs fid R s =
     (if fid \<ge> KSU_FEATURE_MAX then (Inl EINVAL, None, None)
      else if \<not> ptrs then (Inl EINVAL, None, None)
      else case R ! unat fid of
          None \<Rightarrow> (Inr (), Some 0, Some False)
        | Some h \<Rightarrow>
            (case fh_get_handler h of
               None \<Rightarrow> (Inl EOPNOTSUPP, None, Some True)
             | Some get_handler \<Rightarrow>
                 (case get_handler s of
                    Inl e \<Rightarrow> (Inl e, None, Some True)
                  | Inr v \<Rightarrow> (Inr (), Some v, Some True))))"

definition ksu_set_feature :: "u32 \<Rightarrow> u64 \<Rightarrow> 's registry \<Rightarrow> 's \<Rightarrow> (errno + unit) \<times> 's" where
  "ksu_set_feature fid v R s =
     (if fid \<ge> KSU_FEATURE_MAX then (Inl EINVAL, s)
      else case R ! unat fid of
          None \<Rightarrow> (Inl EOPNOTSUPP, s)
        | Some h \<Rightarrow>
            (case fh_set_handler h of
               None \<Rightarrow> (Inl EOPNOTSUPP, s)
             | Some set_handler \<Rightarrow> set_handler v s))"

definition ksu_feature_exit :: "'s registry \<Rightarrow> 's registry" where
  "ksu_feature_exit R = replicate (length R) None"

lemma list_upd_nth: "(xs[i := x]) ! j = (if i = j \<and> i < length xs then x else xs ! j)"
  by (cases "i < length xs") (simp_all add: nth_list_update list_update_beyond)

definition wf_registry :: "'s registry \<Rightarrow> bool" where
  "wf_registry R \<longleftrightarrow> length R = 5 \<and>
     (\<forall>i < 5. \<forall>h. R ! i = Some h \<longrightarrow> unat (fh_feature_id h) = i \<and>
        (fh_get_handler h \<noteq> None \<or> fh_set_handler h \<noteq> None))"

lemma wf_init [simp]: "wf_registry ksu_feature_init"
  by (simp add: wf_registry_def ksu_feature_init_def)

lemma wf_exit [simp]: "wf_registry R \<Longrightarrow> wf_registry (ksu_feature_exit R)"
  by (simp add: wf_registry_def ksu_feature_exit_def)

lemma fid_bound: "\<not> (5 :: u32) \<le> fid \<Longrightarrow> unat fid < 5"
  by (simp add: word_le_nat_alt)

lemma wf_register [simp]: "wf_registry R \<Longrightarrow> wf_registry (snd (ksu_register_feature_handler ho R))"
  by (auto simp: wf_registry_def ksu_register_feature_handler_def list_upd_nth dest: fid_bound
      split: option.splits)

lemma wf_unregister [simp]: "wf_registry R \<Longrightarrow> wf_registry (snd (ksu_unregister_feature_handler fid R))"
  by (auto simp: wf_registry_def ksu_unregister_feature_handler_def list_upd_nth split: if_splits)

lemma register_lookup:
  assumes "wf_registry R" "ksu_register_feature_handler (Some h) R = (Inr (), R')"
  shows "R' ! unat fid = (if fid = fh_feature_id h then Some h else R ! unat fid)"
proof -
  have "\<not> fh_feature_id h \<ge> KSU_FEATURE_MAX" "R' = R[unat (fh_feature_id h) := Some h]"
    using assms(2) by (auto simp: ksu_register_feature_handler_def split: if_splits)
  then show ?thesis
    using assms(1) fid_bound [of "fh_feature_id h"] by (auto simp: wf_registry_def list_upd_nth word_unat_eq_iff)
qed

section \<open>Flag features\<close>

record ksu_flags =
  ksu_su_compat_enabled :: bool
  ksu_kernel_umount_enabled :: bool
  ksu_sulog_enabled :: bool
  ksu_adb_root :: bool

definition flags_at_load :: ksu_flags where
  "flags_at_load = \<lparr>ksu_su_compat_enabled = True, ksu_kernel_umount_enabled = True,
     ksu_sulog_enabled = False, ksu_adb_root = False\<rparr>"

definition su_compat_feature_get :: "ksu_flags \<Rightarrow> errno + u64" where
  "su_compat_feature_get F = Inr (if ksu_su_compat_enabled F then 1 else 0)"

definition su_compat_feature_set :: "u64 \<Rightarrow> ksu_flags \<Rightarrow> (errno + unit) \<times> ksu_flags" where
  "su_compat_feature_set v F = (Inr (), F\<lparr>ksu_su_compat_enabled := (v \<noteq> 0)\<rparr>)"

definition kernel_umount_feature_get :: "ksu_flags \<Rightarrow> errno + u64" where
  "kernel_umount_feature_get F = Inr (if ksu_kernel_umount_enabled F then 1 else 0)"

definition kernel_umount_feature_set :: "u64 \<Rightarrow> ksu_flags \<Rightarrow> (errno + unit) \<times> ksu_flags" where
  "kernel_umount_feature_set v F = (Inr (), F\<lparr>ksu_kernel_umount_enabled := (v \<noteq> 0)\<rparr>)"

definition sulog_feature_get :: "ksu_flags \<Rightarrow> errno + u64" where
  "sulog_feature_get F = Inr (if ksu_sulog_enabled F then 1 else 0)"

definition sulog_feature_set :: "u64 \<Rightarrow> ksu_flags \<Rightarrow> (errno + unit) \<times> ksu_flags" where
  "sulog_feature_set v F = (Inr (), F\<lparr>ksu_sulog_enabled := (v \<noteq> 0)\<rparr>)"

definition su_compat_handler :: "ksu_flags feature_handler" where
  "su_compat_handler = \<lparr>fh_feature_id = KSU_FEATURE_SU_COMPAT,
     fh_get_handler = Some su_compat_feature_get, fh_set_handler = Some su_compat_feature_set\<rparr>"

definition kernel_umount_handler :: "ksu_flags feature_handler" where
  "kernel_umount_handler = \<lparr>fh_feature_id = KSU_FEATURE_KERNEL_UMOUNT,
     fh_get_handler = Some kernel_umount_feature_get, fh_set_handler = Some kernel_umount_feature_set\<rparr>"

definition sulog_handler :: "ksu_flags feature_handler" where
  "sulog_handler = \<lparr>fh_feature_id = KSU_FEATURE_SULOG,
     fh_get_handler = Some sulog_feature_get, fh_set_handler = Some sulog_feature_set\<rparr>"

text \<open>A feature whose handlers read and write one flag.\<close>

locale flag_feature =
  fixes handler :: "'s feature_handler"
    and flag :: "'s \<Rightarrow> bool"
    and others :: "'s \<Rightarrow> 'o"
    and get :: "'s \<Rightarrow> errno + u64"
    and put :: "u64 \<Rightarrow> 's \<Rightarrow> (errno + unit) \<times> 's"
  assumes handler_get: "fh_get_handler handler = Some get"
    and handler_put: "fh_set_handler handler = Some put"
    and in_range: "fh_feature_id handler < KSU_FEATURE_MAX"
    and get_flag: "get s = Inr (of_bool (flag s))"
    and put_ok: "fst (put v s) = Inr ()"
    and put_flag: "flag (snd (put v s)) \<longleftrightarrow> v \<noteq> 0"
    and put_others: "others (snd (put v s)) = others s"
begin

lemma not_max: "\<not> KSU_FEATURE_MAX \<le> fh_feature_id handler"
  using in_range by (simp add: not_le)

lemma register_ok:
  "ksu_register_feature_handler (Some handler) R = (Inr (), R[unat (fh_feature_id handler) := Some handler])"
  using not_max by (simp add: ksu_register_feature_handler_def handler_get)

lemma get_registered:
  "R ! unat (fh_feature_id handler) = Some handler \<Longrightarrow>
   ksu_get_feature True (fh_feature_id handler) R s = (Inr (), Some (of_bool (flag s)), Some True)"
  using not_max by (simp add: ksu_get_feature_def handler_get get_flag)

lemma set_registered:
  assumes "R ! unat (fh_feature_id handler) = Some handler"
  shows "\<exists>s'. ksu_set_feature (fh_feature_id handler) v R s = (Inr (), s') \<and>
    (flag s' \<longleftrightarrow> v \<noteq> 0) \<and> others s' = others s"
proof -
  have "ksu_set_feature (fh_feature_id handler) v R s = put v s"
    using not_max assms by (simp add: ksu_set_feature_def handler_put)
  then show ?thesis
    using put_ok [of v s] put_flag [of v s] put_others [of v s] by (cases "put v s") auto
qed

end

interpretation su_compat: flag_feature su_compat_handler ksu_su_compat_enabled
  "\<lambda>F. (ksu_kernel_umount_enabled F, ksu_sulog_enabled F)" su_compat_feature_get su_compat_feature_set
  by unfold_locales (simp_all add: su_compat_handler_def su_compat_feature_get_def su_compat_feature_set_def)

interpretation kernel_umount: flag_feature kernel_umount_handler ksu_kernel_umount_enabled
  "\<lambda>F. (ksu_su_compat_enabled F, ksu_sulog_enabled F)" kernel_umount_feature_get kernel_umount_feature_set
  by unfold_locales
    (simp_all add: kernel_umount_handler_def kernel_umount_feature_get_def kernel_umount_feature_set_def)

interpretation sulog: flag_feature sulog_handler ksu_sulog_enabled
  "\<lambda>F. (ksu_su_compat_enabled F, ksu_kernel_umount_enabled F)" sulog_feature_get sulog_feature_set
  by unfold_locales (simp_all add: sulog_handler_def sulog_feature_get_def sulog_feature_set_def)

text \<open>The three registrations of the module's start.\<close>

definition register_flags :: "ksu_flags registry \<Rightarrow> ksu_flags registry" where
  "register_flags R =
     snd (ksu_register_feature_handler (Some sulog_handler)
       (snd (ksu_register_feature_handler (Some kernel_umount_handler)
         (snd (ksu_register_feature_handler (Some su_compat_handler) R)))))"

lemma flags_registered:
  assumes "length R = 5"
  shows "register_flags R ! unat (fh_feature_id su_compat_handler) = Some su_compat_handler"
    "register_flags R ! unat (fh_feature_id kernel_umount_handler) = Some kernel_umount_handler"
    "register_flags R ! unat (fh_feature_id sulog_handler) = Some sulog_handler"
  using assms
  by (simp_all add: register_flags_def su_compat.register_ok kernel_umount.register_ok sulog.register_ok
      list_upd_nth)
    (simp_all add: su_compat_handler_def kernel_umount_handler_def sulog_handler_def)

section \<open>Properties\<close>

text \<open>
  After the components register, setting a flag feature succeeds, a later get returns
  1 or 0 as the value set was nonzero or not, and no other feature's value changes.
\<close>

theorem flag_feature_set_get:
  assumes "R = register_flags ksu_feature_init" "fid < 3" "fid' < 3"
  shows "\<exists>F'. ksu_set_feature fid v R F = (Inr (), F') \<and>
    ksu_get_feature True fid' R F' =
      (if fid' = fid then (Inr (), Some (of_bool (v \<noteq> 0)), Some True) else ksu_get_feature True fid' R F)"
proof -
  have len: "length (ksu_feature_init :: ksu_flags registry) = 5" by (simp add: ksu_feature_init_def)
  note reg = flags_registered [OF len, folded assms(1)]
  have ids: "fh_feature_id su_compat_handler = 0" "fh_feature_id kernel_umount_handler = 1"
    "fh_feature_id sulog_handler = 2"
    by (simp_all add: su_compat_handler_def kernel_umount_handler_def sulog_handler_def)
  have cases: "f = 0 \<or> f = 1 \<or> f = 2" if "f < 3" for f :: u32
    using that by (simp add: word_unat_eq_iff word_less_nat_alt) linarith
  show ?thesis
    using cases [OF assms(2)] cases [OF assms(3)]
      su_compat.set_registered [OF reg(1), of v F] kernel_umount.set_registered [OF reg(2), of v F]
      sulog.set_registered [OF reg(3), of v F]
      su_compat.get_registered [OF reg(1)] kernel_umount.get_registered [OF reg(2)]
      sulog.get_registered [OF reg(3)]
    unfolding ids by (elim disjE) auto
qed

lemma flag_feature_set_get_witness:
  "\<exists>F'. ksu_set_feature 2 7 (register_flags ksu_feature_init) flags_at_load = (Inr (), F') \<and>
     ksu_get_feature True 2 (register_flags ksu_feature_init) F' = (Inr (), Some 1, Some True)"
  using flag_feature_set_get [OF refl, of 2 2 7 flags_at_load] by simp

end
