(* ===== verification/Event_Sink.thy ===== *)
theory Event_Sink
  imports Event_Queue
begin

text \<open>
  What a producer of events relies on: a sink numbers every event it is handed, and either holds
  it or counts it as lost. The laws are those the kernel log (\<^verbatim>\<open>kernel/sulog/event.c\<close>) uses;
  the event queue interprets them.
\<close>

locale event_sink =
  fixes push :: "'e \<Rightarrow> 'q \<Rightarrow> (errno + unit) \<times> 'q"
    and skip :: "'q \<Rightarrow> 'q"
    and issued :: "'q \<Rightarrow> u64"
    and lost :: "'q \<Rightarrow> u64"
    and held :: "'q \<Rightarrow> 'r list"
    and closed :: "'q \<Rightarrow> bool"
    and fits :: "'q \<Rightarrow> 'e \<Rightarrow> bool"
    and record_of :: "'e \<Rightarrow> 'q \<Rightarrow> 'r"
  assumes push_ok: "push e q = (Inr (), q') \<Longrightarrow>
      held q' = held q @ [record_of e q] \<and> lost q' = lost q \<and> issued q' = issued q + 1"
    and push_closed: "closed q \<Longrightarrow> snd (push e q) = q"
    and push_err: "push e q = (Inl x, q') \<Longrightarrow> \<not> closed q \<Longrightarrow> fits q e \<Longrightarrow>
      held q' = held q \<and> lost q' = lost q + 1 \<and> issued q' = issued q + 1"
    and push_frame: "closed (snd (push e q)) = closed q" "fits (snd (push e q)) = fits q"
    and skip_open: "\<not> closed q \<Longrightarrow>
      held (skip q) = held q \<and> lost (skip q) = lost q + 1 \<and> issued (skip q) = issued q + 1"
    and skip_closed: "closed q \<Longrightarrow> skip q = q"
    and skip_frame: "closed (skip q) = closed q" "fits (skip q) = fits q"
begin

lemma push_accounts:
  assumes "\<not> closed q" "fits q e"
  shows "issued (snd (push e q)) = issued q + 1 \<and>
    (held (snd (push e q)) = held q @ [record_of e q] \<and> lost (snd (push e q)) = lost q \<or>
     held (snd (push e q)) = held q \<and> lost (snd (push e q)) = lost q + 1)"
proof (cases "push e q")
  case (Pair r q')
  then show ?thesis using push_ok push_err assms by (cases r) auto
qed

text \<open>A producer's run: events it hands over, and events it could not build (\<open>None\<close>).\<close>

primrec feed :: "'e option \<Rightarrow> 'q \<Rightarrow> 'q" where
  "feed None q = skip q"
| "feed (Some e) q = snd (push e q)"

lemma feed_accounts:
  assumes "\<not> closed q" "\<forall>e. x = Some e \<longrightarrow> fits q e"
  shows "issued (feed x q) = issued q + 1 \<and>
    lost (feed x q) + of_nat (length (held (feed x q))) = lost q + of_nat (length (held q)) + 1 \<and>
    closed (feed x q) = closed q \<and> fits (feed x q) = fits q"
proof (cases x)
  case None
  then show ?thesis using skip_open [OF assms(1)] skip_frame by simp
next
  case (Some e)
  then have "fits q e" using assms(2) by simp
  from push_accounts [OF assms(1) this] show ?thesis
    using Some push_frame by (auto simp: algebra_simps)
qed

lemma run_accounts:
  assumes "\<not> closed q" "\<forall>e. Some e \<in> set xs \<longrightarrow> fits q e"
  shows "issued (fold feed xs q) = issued q + of_nat (length xs) \<and>
    lost (fold feed xs q) + of_nat (length (held (fold feed xs q))) =
      lost q + of_nat (length (held q)) + of_nat (length xs)"
  using assms
proof (induction xs arbitrary: q)
  case (Cons x xs)
  have "\<forall>e. x = Some e \<longrightarrow> fits q e" using Cons.prems by auto
  note f = feed_accounts [OF Cons.prems(1) this]
  from f have "\<not> closed (feed x q)" "\<forall>e. Some e \<in> set xs \<longrightarrow> fits (feed x q) e"
    using Cons.prems by auto
  from Cons.IH [OF this] f show ?case by simp
qed simp

end

section \<open>The event queue is a sink\<close>

type_synonym event = "u16 \<times> u16 \<times> bytes option \<times> u32 \<times> bool \<times> u64"

fun push_event :: "event \<Rightarrow> event_queue \<Rightarrow> (errno + unit) \<times> event_queue" where
  "push_event (ty, fl, pl, len, alloc, now) q = ksu_event_queue_push ty fl pl len alloc now q"

fun event_fits :: "event_queue \<Rightarrow> event \<Rightarrow> bool" where
  "event_fits q (ty, fl, pl, len, alloc, now) \<longleftrightarrow>
     len \<le> eq_max_payload_len q \<and> (len = 0 \<or> pl \<noteq> None)"

fun event_record :: "event \<Rightarrow> event_queue \<Rightarrow> event_node" where
  "event_record (ty, fl, pl, len, alloc, now) q = new_node ty fl pl len (eq_next_seq q) now"

lemma note_drop_frame [simp]:
  "eq_pending (note_drop n q) = eq_pending q" "eq_queued (note_drop n q) = eq_queued q"
  "eq_dropped_total (note_drop n q) = eq_dropped_total q + 1"
  "eq_next_seq (note_drop n q) = eq_next_seq q" "eq_closed (note_drop n q) = eq_closed q"
  "eq_max_payload_len (note_drop n q) = eq_max_payload_len q"
  "eq_max_queued (note_drop n q) = eq_max_queued q"
  by (simp_all add: note_drop_def Let_def)

interpretation queue: event_sink push_event ksu_event_queue_drop eq_next_seq eq_dropped_total
  eq_pending eq_closed event_fits event_record
proof
  fix e q q' assume "push_event e q = (Inr (), q')"
  then show "eq_pending q' = eq_pending q @ [event_record e q] \<and>
      eq_dropped_total q' = eq_dropped_total q \<and> eq_next_seq q' = eq_next_seq q + 1"
    by (cases e) (auto simp: ksu_event_queue_push_def Let_def split: if_splits)
next
  fix e q x q' assume "push_event e q = (Inl x, q')" "\<not> eq_closed q" "event_fits q e"
  then show "eq_pending q' = eq_pending q \<and> eq_dropped_total q' = eq_dropped_total q + 1 \<and>
      eq_next_seq q' = eq_next_seq q + 1"
    by (cases e) (auto simp: ksu_event_queue_push_def Let_def split: if_splits)
next
  fix e and q :: event_queue
  show "eq_closed (snd (push_event e q)) = eq_closed q"
    by (cases e) (simp add: ksu_event_queue_push_def Let_def)
  have "eq_max_payload_len (snd (push_event e q)) = eq_max_payload_len q"
    by (cases e) (simp add: ksu_event_queue_push_def Let_def)
  then show "event_fits (snd (push_event e q)) = event_fits q" by (auto simp: fun_eq_iff)
next
  fix q :: event_queue
  show "event_fits (ksu_event_queue_drop q) = event_fits q"
    by (auto simp: fun_eq_iff ksu_event_queue_drop_def)
next
  fix q :: event_queue and e assume "eq_closed q" then show "snd (push_event e q) = q"
    by (cases e) (simp add: ksu_event_queue_push_def)
qed (simp_all add: ksu_event_queue_drop_def)

end
