(* ===== verification/Sulog.thy ===== *)
theory Sulog
  imports Feature Event_Sink
begin

text \<open>
  The kernel log of root grants and su executions (\<^verbatim>\<open>kernel/sulog/event.c\<close>,
  \<^verbatim>\<open>kernel/sulog/fd.c\<close>, \<^verbatim>\<open>kernel/feature/sulog.c\<close>): an event is captured into a payload
  of at most 2048 bytes (header, file name, flattened arguments) and pushed to the event queue,
  which one reader drains through a file descriptor. User memory is an argument: a string the
  user pointer reaches is \<open>Some\<close> of its bytes before the NUL, a faulting one is \<open>None\<close>.
\<close>

abbreviation (input) "KSU_SULOG_MAX_QUEUED \<equiv> (256 :: u32)"
abbreviation (input) "KSU_SULOG_MAX_PAYLOAD_LEN \<equiv> (2048 :: u32)"
abbreviation (input) "KSU_SULOG_MAX_ARG_CHUNK \<equiv> (256 :: nat)"
abbreviation (input) "KSU_SULOG_MAX_FILENAME_LEN \<equiv> (256 :: nat)"
abbreviation (input) "KSU_SULOG_EVENT_ROOT_EXECVE \<equiv> (1 :: u16)"
abbreviation (input) "KSU_SULOG_EVENT_SUCOMPAT \<equiv> (2 :: u16)"
abbreviation (input) "KSU_SULOG_EVENT_IOCTL_GRANT_ROOT \<equiv> (3 :: u16)"

definition KSU_SULOG_MAX_ARG_STRINGS :: nat where
  "KSU_SULOG_MAX_ARG_STRINGS = 0x7FFFFFFF"

section \<open>Data\<close>

record sulog_event =
  se_version :: u16
  se_event_type :: u16
  se_retval :: s32
  se_pid :: u32
  se_tgid :: u32
  se_ppid :: u32
  se_uid :: u32
  se_euid :: u32
  se_comm :: bytes
  se_filename_len :: u32
  se_argv_len :: u32

text \<open>The packed structure occupies 52 bytes.\<close>

definition event_image :: "sulog_event \<Rightarrow> bytes" where
  "event_image e =
     le_enc 2 (unat (se_version e)) @ le_enc 2 (unat (se_event_type e)) @ le32 (se_retval e) @
     le32 (se_pid e) @ le32 (se_tgid e) @ le32 (se_ppid e) @ le32 (se_uid e) @ le32 (se_euid e) @
     se_comm e @ le32 (se_filename_len e) @ le32 (se_argv_len e)"

record task_info =
  ti_pid :: u32
  ti_tgid :: u32
  ti_ppid :: u32
  ti_uid :: u32
  ti_euid :: u32
  ti_comm :: bytes

definition wf_task :: "task_info \<Rightarrow> bool" where
  "wf_task t \<longleftrightarrow> length (ti_comm t) = 16"

definition fill_task_info :: "task_info \<Rightarrow> u16 \<Rightarrow> s32 \<Rightarrow> sulog_event" where
  "fill_task_info t ty retval =
     \<lparr>se_version = 1, se_event_type = ty, se_retval = retval, se_pid = ti_pid t,
      se_tgid = ti_tgid t, se_ppid = ti_ppid t, se_uid = ti_uid t, se_euid = ti_euid t,
      se_comm = ti_comm t, se_filename_len = 0, se_argv_len = 0\<rparr>"

text \<open>A captured event: header and the bytes of the two strings, with the length to push.\<close>

record pending_event =
  pe_event_type :: u16
  pe_event :: sulog_event
  pe_strings :: bytes
  pe_payload_len :: u32

definition payload :: "pending_event \<Rightarrow> bytes" where
  "payload p = event_image (pe_event p) @ pe_strings p"

section \<open>Copying from user memory\<close>

text \<open>
  \<open>strncpy_from_user_nofault\<close> of the kernel: the length including the NUL, with the bytes
  written; a longer string is cut to \<open>n - 1\<close> bytes and a NUL and answers \<open>n\<close>; a fault is
  \<open>None\<close>.
\<close>

definition strncpy_nofault :: "bytes option \<Rightarrow> nat \<Rightarrow> (nat \<times> bytes) option" where
  "strncpy_nofault src n =
     (case src of
        None \<Rightarrow> None
      | Some s \<Rightarrow> if length s < n then Some (length s + 1, s @ [0]) else Some (n, take (n - 1) s @ [0]))"

text \<open>
  The bytes \<open>ksu_sulog_copy_filename\<close> accounts for in the zeroed buffer; their number is its
  return value. \<open>None\<close> is a null pointer. A copied string counts one byte more than its NUL.
\<close>

definition ksu_sulog_copy_filename :: "bytes option option \<Rightarrow> nat \<Rightarrow> bytes" where
  "ksu_sulog_copy_filename fname dst_len =
     (if dst_len = 0 then []
      else case fname of
          None \<Rightarrow> [0]
        | Some src \<Rightarrow>
            (case strncpy_nofault src dst_len of
               None \<Rightarrow> [0]
             | Some (ret, bs) \<Rightarrow>
                 if ret \<ge> dst_len then (take dst_len bs)[dst_len - 1 := 0]
                 else bs @ [0]))"

text \<open>An element of the argument vector: reading its pointer faults, or it points to a string.\<close>

datatype arg_ptr = ArgFault | Arg "bytes option"

text \<open>
  The loop of \<open>ksu_sulog_flatten_argv\<close>: \<open>dst\<close> is what is used of the buffer, \<open>fatal i\<close>
  whether a fatal signal is pending in round \<open>i\<close>; the list ends at the null pointer. \<open>Inl\<close>
  is the early return with an empty string.
\<close>

primrec flatten_loop :: "(nat \<Rightarrow> bool) \<Rightarrow> nat \<Rightarrow> nat \<Rightarrow> arg_ptr list \<Rightarrow> bytes \<Rightarrow> unit + bytes" where
  "flatten_loop fatal dst_len i [] dst = Inr dst"
| "flatten_loop fatal dst_len i (a # as) dst =
     (if i \<ge> KSU_SULOG_MAX_ARG_STRINGS then Inr dst
      else if fatal i then Inr dst
      else case a of
          ArgFault \<Rightarrow> Inl ()
        | Arg src \<Rightarrow>
            (case strncpy_nofault src KSU_SULOG_MAX_ARG_CHUNK of
               None \<Rightarrow> Inl ()
             | Some (copied, bs) \<Rightarrow>
                 let arg = take (strnlen bs KSU_SULOG_MAX_ARG_CHUNK) bs in
                 if arg = [] then flatten_loop fatal dst_len (i + 1) as dst
                 else
                   let dst1 = (if dst \<noteq> [] \<and> length dst < dst_len - 1 then dst @ [32] else dst) in
                   if length dst1 \<ge> dst_len - 1 then Inr dst1
                   else
                     let dst2 = dst1 @ take (dst_len - length dst1 - 1) arg in
                     if length dst2 \<ge> dst_len - 1 then Inr dst2
                     else flatten_loop fatal dst_len (i + 1) as dst2))"

definition ksu_sulog_flatten_argv :: "(nat \<Rightarrow> bool) \<Rightarrow> arg_ptr list option \<Rightarrow> nat \<Rightarrow> bytes" where
  "ksu_sulog_flatten_argv fatal argv dst_len =
     (if dst_len = 0 then []
      else case argv of
          None \<Rightarrow> [0]
        | Some as \<Rightarrow>
            (case flatten_loop fatal dst_len 0 as [] of
               Inl _ \<Rightarrow> [0]
             | Inr dst \<Rightarrow> dst @ [0]))"

section \<open>The log\<close>

record sulog =
  sl_queue :: event_queue
  sl_fd_active :: bool

definition ksu_sulog_events_init :: "sulog \<Rightarrow> sulog" where
  "ksu_sulog_events_init s =
     s\<lparr>sl_queue := ksu_event_queue_init KSU_SULOG_MAX_QUEUED KSU_SULOG_MAX_PAYLOAD_LEN\<rparr>"

definition ksu_sulog_events_exit :: "sulog \<Rightarrow> sulog" where
  "ksu_sulog_events_exit s = s\<lparr>sl_queue := ksu_event_queue_destroy (sl_queue s)\<rparr>"

text \<open>\<open>alloc1\<close> and \<open>alloc2\<close> say whether the two allocations of a capture succeed.\<close>

record capture_env =
  ce_task :: task_info
  ce_alloc_pending :: bool
  ce_alloc_payload :: bool
  ce_fatal :: "nat \<Rightarrow> bool"

definition ksu_sulog_capture ::
    "capture_env \<Rightarrow> bool \<Rightarrow> u16 \<Rightarrow> bytes option option \<Rightarrow> arg_ptr list option \<Rightarrow> sulog \<Rightarrow>
       pending_event option \<times> sulog" where
  "ksu_sulog_capture ce enabled ty fname argv s =
     (let dropped = s\<lparr>sl_queue := ksu_event_queue_drop (sl_queue s)\<rparr> in
      if \<not> enabled then (None, s)
      else if \<not> ce_alloc_pending ce then (None, dropped)
      else if \<not> ce_alloc_payload ce then (None, dropped)
      else
        let event = fill_task_info (ce_task ce) ty 0;
            remaining = unat KSU_SULOG_MAX_PAYLOAD_LEN - 52;
            f = ksu_sulog_copy_filename fname (min remaining KSU_SULOG_MAX_FILENAME_LEN)
        in if f = [] then (None, dropped)
           else
             let a = ksu_sulog_flatten_argv (ce_fatal ce) argv (remaining - length f) in
             if a = [] then (None, dropped)
             else if 52 + length f + length a \<ge> 2 ^ 32 then (None, dropped)
             else (Some \<lparr>pe_event_type = ty,
                     pe_event = event\<lparr>se_filename_len := of_nat (length f),
                                      se_argv_len := of_nat (length a)\<rparr>,
                     pe_strings = f @ a, pe_payload_len = of_nat (52 + length f + length a)\<rparr>, s))"

definition ksu_sulog_capture_root_execve ::
    "capture_env \<Rightarrow> bool \<Rightarrow> bytes option option \<Rightarrow> arg_ptr list option \<Rightarrow> sulog \<Rightarrow>
       pending_event option \<times> sulog" where
  "ksu_sulog_capture_root_execve ce enabled = ksu_sulog_capture ce enabled KSU_SULOG_EVENT_ROOT_EXECVE"

definition ksu_sulog_capture_sucompat ::
    "capture_env \<Rightarrow> bool \<Rightarrow> bytes option option \<Rightarrow> arg_ptr list option \<Rightarrow> sulog \<Rightarrow>
       pending_event option \<times> sulog" where
  "ksu_sulog_capture_sucompat ce enabled = ksu_sulog_capture ce enabled KSU_SULOG_EVENT_SUCOMPAT"

definition ksu_sulog_capture_grant_root ::
    "capture_env \<Rightarrow> bool \<Rightarrow> u32 \<Rightarrow> u32 \<Rightarrow> sulog \<Rightarrow> pending_event option \<times> sulog" where
  "ksu_sulog_capture_grant_root ce enabled u eu s =
     (case ksu_sulog_capture ce enabled KSU_SULOG_EVENT_IOCTL_GRANT_ROOT None None s of
        (None, s1) \<Rightarrow> (None, s1)
      | (Some p, s1) \<Rightarrow> (Some (p\<lparr>pe_event := (pe_event p)\<lparr>se_uid := u, se_euid := eu\<rparr>\<rparr>), s1))"

definition pending_to_event :: "pending_event \<Rightarrow> s32 \<Rightarrow> bool \<Rightarrow> u64 \<Rightarrow> event" where
  "pending_to_event p retval alloc now =
     (pe_event_type p, 0, Some (payload (p\<lparr>pe_event := (pe_event p)\<lparr>se_retval := retval\<rparr>\<rparr>)),
      pe_payload_len p, alloc, now)"

definition ksu_sulog_emit_pending ::
    "bool \<Rightarrow> u64 \<Rightarrow> pending_event option \<Rightarrow> s32 \<Rightarrow> sulog \<Rightarrow> sulog" where
  "ksu_sulog_emit_pending alloc now po retval s =
     (case po of
        None \<Rightarrow> s
      | Some p \<Rightarrow> s\<lparr>sl_queue := snd (push_event (pending_to_event p retval alloc now) (sl_queue s))\<rparr>)"

definition ksu_sulog_emit_grant_root ::
    "capture_env \<Rightarrow> bool \<Rightarrow> bool \<Rightarrow> u64 \<Rightarrow> s32 \<Rightarrow> u32 \<Rightarrow> u32 \<Rightarrow> sulog \<Rightarrow> sulog" where
  "ksu_sulog_emit_grant_root ce enabled alloc now retval u eu s =
     (let (po, s1) = ksu_sulog_capture_grant_root ce enabled u eu s
      in ksu_sulog_emit_pending alloc now po retval s1)"

text \<open>
  The file descriptor: what the kernel answers when one is allocated (\<open>Inl\<close> an error) and
  when the anonymous file is created.
\<close>

definition ksu_install_sulog_fd ::
    "errno + nat \<Rightarrow> errno + unit \<Rightarrow> sulog \<Rightarrow> (errno + nat) \<times> sulog" where
  "ksu_install_sulog_fd unused file_ok s =
     (if sl_fd_active s then (Inl EBUSY, s)
      else if eq_closed (sl_queue s) then (Inl EPIPE, s)
      else case unused of
          Inl e \<Rightarrow> (Inl e, s)
        | Inr fd \<Rightarrow>
            (case file_ok of
               Inl e \<Rightarrow> (Inl e, s)
             | Inr _ \<Rightarrow> (Inr fd, s\<lparr>sl_fd_active := True\<rparr>)))"

definition ksu_sulog_release :: "sulog \<Rightarrow> sulog" where
  "ksu_sulog_release s = s\<lparr>sl_fd_active := False\<rparr>"

definition ksu_sulog_fd_init :: "sulog \<Rightarrow> sulog" where
  "ksu_sulog_fd_init s = s\<lparr>sl_fd_active := False\<rparr>"

definition ksu_sulog_fd_exit :: "sulog \<Rightarrow> sulog" where
  "ksu_sulog_fd_exit s = s\<lparr>sl_fd_active := False, sl_queue := ksu_event_queue_close (sl_queue s)\<rparr>"

definition ksu_sulog_init ::
    "ksu_flags registry \<Rightarrow> ksu_flags \<Rightarrow> sulog \<Rightarrow> ksu_flags registry \<times> ksu_flags \<times> sulog" where
  "ksu_sulog_init R F s =
     (let F1 = F\<lparr>ksu_sulog_enabled := False\<rparr> in
      case ksu_register_feature_handler (Some sulog_handler) R of
        (Inl _, R1) \<Rightarrow> (R1, F1, s)
      | (Inr _, R1) \<Rightarrow> (R1, F1, ksu_sulog_fd_init (ksu_sulog_events_init s)))"

definition ksu_sulog_exit :: "ksu_flags registry \<Rightarrow> sulog \<Rightarrow> ksu_flags registry \<times> sulog" where
  "ksu_sulog_exit R s =
     (snd (ksu_unregister_feature_handler KSU_FEATURE_SULOG R),
      ksu_sulog_events_exit (ksu_sulog_fd_exit s))"

section \<open>Bounds and content of the strings\<close>

lemma length_event_image: "length (se_comm e) = 16 \<Longrightarrow> length (event_image e) = 52"
  by (simp add: event_image_def)

lemma copy_filename_shape:
  assumes "0 < dst_len"
  shows "ksu_sulog_copy_filename f dst_len \<noteq> [] \<and> length (ksu_sulog_copy_filename f dst_len) \<le> dst_len \<and>
    last (ksu_sulog_copy_filename f dst_len) = 0"
  using assms
  by (auto simp: ksu_sulog_copy_filename_def strncpy_nofault_def last_list_update min_def
      split: option.splits if_splits)

lemma flatten_loop_length:
  "flatten_loop fatal dl i as dst = Inr dst' \<Longrightarrow> length dst \<le> dl - 1 \<Longrightarrow> length dst' \<le> dl - 1"
proof (induction as arbitrary: i dst)
  case (Cons a as)
  then show ?case
    by (auto simp: Let_def split: if_splits arg_ptr.splits option.splits)
qed simp

lemma flatten_shape:
  assumes "0 < dst_len"
  shows "ksu_sulog_flatten_argv fatal argv dst_len \<noteq> [] \<and>
    length (ksu_sulog_flatten_argv fatal argv dst_len) \<le> dst_len \<and>
    last (ksu_sulog_flatten_argv fatal argv dst_len) = 0"
proof (cases argv)
  case (Some as)
  show ?thesis
  proof (cases "flatten_loop fatal dst_len 0 as []")
    case (Inr dst)
    then have "length dst \<le> dst_len - 1" using flatten_loop_length [OF Inr] by simp
    then show ?thesis using assms Some Inr by (simp add: ksu_sulog_flatten_argv_def)
  qed (use assms Some in \<open>simp add: ksu_sulog_flatten_argv_def\<close>)
qed (use assms in \<open>simp add: ksu_sulog_flatten_argv_def\<close>)

text \<open>The arguments joined by spaces: after \<open>dst\<close>, or on their own.\<close>

definition join_after :: "bytes \<Rightarrow> bytes list \<Rightarrow> bytes" where
  "join_after dst xs =
     (if dst = [] then tl (concat (map (\<lambda>x. 32 # x) xs)) else dst @ concat (map (\<lambda>x. 32 # x) xs))"

definition shown_args :: "bytes list \<Rightarrow> bytes list" where
  "shown_args ss = filter (\<lambda>x. x \<noteq> []) (map (take 255) ss)"

lemma strnlen_nofault:
  assumes "0 \<notin> set s" "strncpy_nofault (Some s) 256 = Some (n, bs)"
  shows "take (strnlen bs 256) bs = take 255 s"
proof -
  let ?t = "take 255 s"
  have "0 \<notin> set ?t" using assms(1) by (meson in_set_takeD)
  then have c: "c_str (?t @ [0]) = ?t" by (auto simp: c_str_def takeWhile_append)
  have bs: "bs = ?t @ [0]" using assms(2) by (auto simp: strncpy_nofault_def split: if_splits)
  then have "take 256 bs = bs" by simp
  then have "strnlen bs 256 = length ?t" using c bs by (simp add: strnlen_def)
  then show ?thesis using bs by (cases "length s \<le> 255") simp_all
qed

lemma flatten_step:
  assumes "strncpy_nofault src 256 = Some (n, bs)" "take (strnlen bs 256) bs = x" "x \<noteq> []"
    "i < KSU_SULOG_MAX_ARG_STRINGS"
    "d = (if dst \<noteq> [] \<and> length dst < dl - 1 then dst @ [32] else dst)" "length d \<le> dl - 1"
  shows "flatten_loop (\<lambda>_. False) dl i (Arg src # as) dst =
    (if dl - 1 \<le> length (d @ x) then Inr (take (dl - 1) (d @ x))
     else flatten_loop (\<lambda>_. False) dl (i + 1) as (d @ x))"
proof -
  have step: "flatten_loop (\<lambda>_. False) dl i (Arg src # as) dst =
    (if length d \<ge> dl - 1 then Inr d
     else if length (d @ take (dl - length d - 1) x) \<ge> dl - 1 then Inr (d @ take (dl - length d - 1) x)
     else flatten_loop (\<lambda>_. False) dl (i + 1) as (d @ take (dl - length d - 1) x))"
    unfolding flatten_loop.simps arg_ptr.case assms(1) option.case prod.case assms(2) Let_def
      assms(5) [symmetric] using assms(3,4) by simp
  show ?thesis
  proof (cases "length d \<ge> dl - 1")
    case True
    then show ?thesis unfolding step using assms(6) by simp
  next
    case False
    then show ?thesis unfolding step by (cases "dl - 1 \<le> length (d @ x)") (auto simp: min_def)
  qed
qed

lemma join_after_step:
  "x \<noteq> [] \<Longrightarrow> join_after dst (x # xs) = join_after (if dst = [] then x else dst @ 32 # x) xs"
  by (simp add: join_after_def)

lemma join_after_prefix: "take (length dst) (join_after dst xs) = dst"
  by (simp add: join_after_def)

lemma take_join_full:
  assumes "n \<le> length (d @ e)" "d @ e \<noteq> []"
  shows "take n (join_after (d @ e) xs) = take n (d @ e)"
  using assms by (auto simp: join_after_def)

lemma flatten_loop_join:
  assumes "\<And>s. s \<in> set ss \<Longrightarrow> 0 \<notin> set s" "i + length ss \<le> KSU_SULOG_MAX_ARG_STRINGS"
    "length dst < dl - 1 \<or> dst = [] \<and> dl = 1"
  shows "flatten_loop (\<lambda>_. False) dl i (map (\<lambda>s. Arg (Some s)) ss) dst =
    Inr (take (dl - 1) (join_after dst (shown_args ss)))"
  using assms
proof (induction ss arbitrary: i dst)
  case Nil
  then show ?case by (auto simp: join_after_def shown_args_def)
next
  case (Cons s ss)
  obtain n bs where cp: "strncpy_nofault (Some s) 256 = Some (n, bs)"
    by (cases "length s < 256") (auto simp: strncpy_nofault_def)
  have "0 \<notin> set s" using Cons.prems(1) by simp
  note arg = strnlen_nofault [OF this cp]
  have i: "i < KSU_SULOG_MAX_ARG_STRINGS" "i + 1 + length ss \<le> KSU_SULOG_MAX_ARG_STRINGS"
    using Cons.prems(2) by auto
  note ih = Cons.IH [OF Cons.prems(1) i(2)]
  show ?case
  proof (cases "take 255 s = []")
    case True
    then have "shown_args (s # ss) = shown_args ss" by (simp add: shown_args_def)
    then show ?thesis using ih [of dst] Cons.prems(3) True i(1) arg cp by simp
  next
    case False
    let ?x = "take 255 s"
    have sh: "shown_args (s # ss) = ?x # shown_args ss" using False by (simp add: shown_args_def)
    let ?d = "if dst \<noteq> [] \<and> length dst < dl - 1 then dst @ [32] else dst"
    have join: "join_after dst (?x # shown_args ss) = join_after (?d @ ?x) (shown_args ss)"
      using join_after_step [OF False, of dst "shown_args ss"] Cons.prems(3) by auto
    have d: "length ?d \<le> dl - 1" using Cons.prems(3) by auto
    show ?thesis
    proof (cases "length (?d @ ?x) \<ge> dl - 1")
      case True
      have full: "take (dl - 1) (join_after (?d @ ?x) (shown_args ss)) = take (dl - 1) (?d @ ?x)"
        by (rule take_join_full [OF True]) (use False in simp)
      then show ?thesis
        unfolding sh join full list.map flatten_step [OF cp arg False i(1) refl d] using True by simp
    next
      case short: False
      have "flatten_loop (\<lambda>_. False) dl (i + 1) (map (\<lambda>s. Arg (Some s)) ss) (?d @ ?x) =
          Inr (take (dl - 1) (join_after (?d @ ?x) (shown_args ss)))"
        by (rule ih) (use short in auto)
      then show ?thesis
        unfolding sh join list.map flatten_step [OF cp arg False i(1) refl d] using short by simp
    qed
  qed
qed

section \<open>Captured events\<close>

text \<open>What a capture promises of the payload it hands on.\<close>

definition payload_good :: "pending_event \<Rightarrow> bool" where
  "payload_good p \<longleftrightarrow>
     (let e = pe_event p; n = unat (se_filename_len e); m = unat (se_argv_len e) in
      length (payload p) = unat (pe_payload_len p) \<and> pe_payload_len p \<le> KSU_SULOG_MAX_PAYLOAD_LEN \<and>
      length (payload p) = 52 + n + m \<and> 0 < n \<and> n \<le> 256 \<and> 0 < m \<and>
      payload p ! (52 + n - 1) = 0 \<and> payload p ! (52 + n + m - 1) = 0)"

lemma payload_goodI:
  assumes "length (se_comm e) = 16" "f \<noteq> []" "length f \<le> 256" "last f = 0" "a \<noteq> []" "last a = 0"
    "length f + length a \<le> 1996"
    "se_filename_len e = of_nat (length f)" "se_argv_len e = of_nat (length a)"
  shows "payload_good \<lparr>pe_event_type = ty, pe_event = e, pe_strings = f @ a,
      pe_payload_len = of_nat (52 + length f + length a)\<rparr>"
proof -
  let ?p = "\<lparr>pe_event_type = ty, pe_event = e, pe_strings = f @ a,
      pe_payload_len = of_nat (52 + length f + length a) :: u32\<rparr>"
  have ev: "length (event_image e) = 52" using assms(1) by (rule length_event_image)
  have u: "unat (of_nat k :: u32) = k" if "k \<le> 2048" for k :: nat
    using that by (simp add: unat_of_nat)
  have n: "unat (se_filename_len e) = length f" "unat (se_argv_len e) = length a"
    using assms(7-9) by (simp_all add: u)
  have len: "unat (of_nat (52 + length f + length a) :: u32) = 52 + length f + length a"
    by (rule u) (use assms(7) in simp)
  have pl: "payload \<lparr>pe_event_type = t, pe_event = e, pe_strings = f @ a, pe_payload_len = l\<rparr> =
      event_image e @ f @ a" for t l by (simp add: payload_def)
  have l1: "payload ?p ! (52 + length f - 1) = last f"
    unfolding pl using assms(2) ev by (simp add: nth_append last_conv_nth)
  have l2: "payload ?p ! (52 + length f + length a - 1) = last a"
    unfolding pl using assms(5) ev by (cases a) (simp_all add: nth_append last_conv_nth)
  have "of_nat (52 + length f + length a) \<le> (2048 :: u32)"
    using assms(7) len by (simp only: word_le_nat_alt) simp
  then show ?thesis
    using len l1 l2 assms(2-6) ev n by (simp add: payload_good_def Let_def pl)
qed

lemma capture_cases:
  assumes "ksu_sulog_capture ce enabled ty fname argv s = (po, s')" "wf_task (ce_task ce)"
  obtains (off) "\<not> enabled" "po = None" "s' = s"
  | (lost) "enabled" "\<not> ce_alloc_pending ce \<or> \<not> ce_alloc_payload ce" "po = None"
      "s' = s\<lparr>sl_queue := ksu_event_queue_drop (sl_queue s)\<rparr>"
  | (captured) p where "enabled" "po = Some p" "s' = s" "payload_good p" "pe_event_type p = ty"
      "pe_event p = (fill_task_info (ce_task ce) ty 0)\<lparr>se_filename_len := se_filename_len (pe_event p),
         se_argv_len := se_argv_len (pe_event p)\<rparr>"
proof -
  let ?f = "ksu_sulog_copy_filename fname 256"
  let ?a = "ksu_sulog_flatten_argv (ce_fatal ce) argv (1996 - length ?f)"
  have f: "?f \<noteq> []" "length ?f \<le> 256" "last ?f = 0" using copy_filename_shape [of 256 fname] by simp_all
  have a: "?a \<noteq> []" "length ?a \<le> 1996 - length ?f" "last ?a = 0"
    using flatten_shape [of "1996 - length ?f" "ce_fatal ce" argv] f(2) by simp_all
  have sum: "length ?f + length ?a \<le> 1996" using a(2) f(2) by simp
  let ?e = "(fill_task_info (ce_task ce) ty 0)\<lparr>se_filename_len := of_nat (length ?f),
      se_argv_len := of_nat (length ?a)\<rparr>"
  let ?p = "\<lparr>pe_event_type = ty, pe_event = ?e, pe_strings = ?f @ ?a,
      pe_payload_len = of_nat (52 + length ?f + length ?a)\<rparr>"
  have run: "(po, s') = (if \<not> enabled then (None, s)
      else if \<not> ce_alloc_pending ce \<or> \<not> ce_alloc_payload ce
      then (None, s\<lparr>sl_queue := ksu_event_queue_drop (sl_queue s)\<rparr>) else (Some ?p, s))"
    unfolding assms(1) [symmetric] using f(1) a(1) sum
    by (simp add: ksu_sulog_capture_def Let_def)
  have good: "payload_good ?p"
    by (rule payload_goodI)
      (use f a sum assms(2) in \<open>simp_all add: fill_task_info_def wf_task_def\<close>)
  show ?thesis
  proof (cases "enabled \<and> ce_alloc_pending ce \<and> ce_alloc_payload ce")
    case True
    then show ?thesis using run good by (intro captured [of ?p]) simp_all
  qed (use run off lost in \<open>auto split: if_splits\<close>)
qed

lemma payload_good_retval:
  "payload_good (p\<lparr>pe_event := e\<rparr>) = payload_good p"
  if "se_filename_len e = se_filename_len (pe_event p)" "se_argv_len e = se_argv_len (pe_event p)"
    "length (se_comm e) = 16" "length (se_comm (pe_event p)) = 16"
  using that length_event_image [of e] length_event_image [of "pe_event p"]
  by (simp add: payload_good_def payload_def Let_def nth_append)

section \<open>The log as a system\<close>

text \<open>
  The log with the descriptors that are open on it: captures and emissions by any task,
  installations and releases of the descriptor, reads and drops that only change the queue.
\<close>

inductive log_step :: "sulog \<times> nat list \<Rightarrow> sulog \<times> nat list \<Rightarrow> bool" where
  capture: "log_step (s, fds) (snd (ksu_sulog_capture ce enabled ty fname argv s), fds)"
| emit: "log_step (s, fds) (ksu_sulog_emit_pending alloc now po retval s, fds)"
| queue: "log_step (s, fds) (s\<lparr>sl_queue := q\<rparr>, fds)"
| install: "ksu_install_sulog_fd unused file_ok s = (Inr fd, s') \<Longrightarrow> log_step (s, fds) (s', fd # fds)"
| install_fails: "ksu_install_sulog_fd unused file_ok s = (Inl e, s') \<Longrightarrow> log_step (s, fds) (s', fds)"
| release: "fd \<in> set fds \<Longrightarrow> log_step (s, fds) (ksu_sulog_release s, remove1 fd fds)"

inductive log_reach :: "sulog \<times> nat list \<Rightarrow> bool" where
  start: "log_reach (ksu_sulog_fd_init (ksu_sulog_events_init s), [])"
| step: "log_reach x \<Longrightarrow> log_step x y \<Longrightarrow> log_reach y"

lemma capture_fd: "sl_fd_active (snd (ksu_sulog_capture ce enabled ty fname argv s)) = sl_fd_active s"
  by (simp add: ksu_sulog_capture_def Let_def)

lemma emit_fd: "sl_fd_active (ksu_sulog_emit_pending alloc now po retval s) = sl_fd_active s"
  by (simp add: ksu_sulog_emit_pending_def split: option.split)

lemma log_fds: "log_reach x \<Longrightarrow> length (snd x) = of_bool (sl_fd_active (fst x))"
proof (induction rule: log_reach.induct)
  case (start s)
  then show ?case by (simp add: ksu_sulog_fd_init_def)
next
  case (step x y)
  from step(2,3) show ?case
    by (induction rule: log_step.induct)
      (auto simp: capture_fd emit_fd ksu_install_sulog_fd_def ksu_sulog_release_def length_remove1
        split: if_splits sum.splits)
qed

section \<open>Properties\<close>

text \<open>
  What the log records of a command line. For strings without NUL the argument buffer
  holds the non-empty arguments, each cut to 255 bytes, joined by single spaces, cut to the
  room and NUL-terminated.
\<close>

theorem flatten_argv_joins:
  assumes "\<forall>s \<in> set ss. 0 \<notin> set s" "length ss \<le> KSU_SULOG_MAX_ARG_STRINGS" "0 < dst_len"
  shows "ksu_sulog_flatten_argv (\<lambda>_. False) (Some (map (\<lambda>s. Arg (Some s)) ss)) dst_len =
    take (dst_len - 1) (join_after [] (shown_args ss)) @ [0]"
proof -
  have "flatten_loop (\<lambda>_. False) dst_len 0 (map (\<lambda>s. Arg (Some s)) ss) [] =
      Inr (take (dst_len - 1) (join_after [] (shown_args ss)))"
    by (rule flatten_loop_join) (use assms in auto)
  then show ?thesis using assms(3) by (simp add: ksu_sulog_flatten_argv_def)
qed

lemma flatten_argv_joins_witness:
  "ksu_sulog_flatten_argv (\<lambda>_. False) (Some (map (\<lambda>s. Arg (Some s)) [[115, 117], [], [45, 99]])) 5 =
     [115, 117, 32, 45, 0]"
proof -
  have "ksu_sulog_flatten_argv (\<lambda>_. False) (Some (map (\<lambda>s. Arg (Some s)) [[115, 117], [], [45, 99]])) 5 =
      take (5 - 1) (join_after [] (shown_args [[115, 117], [], [45, 99]])) @ [0]"
    by (rule flatten_argv_joins) (simp_all add: KSU_SULOG_MAX_ARG_STRINGS_def)
  then show ?thesis by (simp add: join_after_def shown_args_def)
qed


definition ex_capture :: capture_env where
  "ex_capture = \<lparr>ce_task = \<lparr>ti_pid = 7, ti_tgid = 7, ti_ppid = 1, ti_uid = 10001, ti_euid = 10001,
       ti_comm = replicate 16 0\<rparr>,
     ce_alloc_pending = True, ce_alloc_payload = True, ce_fatal = (\<lambda>_. False)\<rparr>"

definition ex_log :: sulog where
  "ex_log = \<lparr>sl_queue = ksu_event_queue_init 256 2048, sl_fd_active = False\<rparr>"


text \<open>
  The log has at most one reader. However captures, emissions, installations and releases
  interleave, at most one descriptor is open, an installation while one is open is refused with
  \<open>EBUSY\<close>, and after a release the next one succeeds if the kernel provides the descriptor.
\<close>

theorem sulog_single_reader:
  assumes "log_reach (s, fds)"
  shows "length fds \<le> 1 \<and>
    (fds \<noteq> [] \<longrightarrow> ksu_install_sulog_fd unused file_ok s = (Inl EBUSY, s)) \<and>
    (fds = [] \<and> \<not> eq_closed (sl_queue s) \<longrightarrow>
       fst (ksu_install_sulog_fd (Inr fd) (Inr ()) s) = Inr fd)"
  using log_fds [OF assms] by (auto simp: ksu_install_sulog_fd_def split: if_splits)

lemma sulog_single_reader_witness:
  "fst (ksu_install_sulog_fd (Inr 5) (Inr ()) (ksu_sulog_fd_init (ksu_sulog_events_init ex_log))) = Inr 5"
  using sulog_single_reader [OF log_reach.start [of ex_log], where fd = 5 and unused = "Inr 5" and file_ok = "Inr ()"]
  by (simp add: ksu_sulog_fd_init_def ksu_sulog_events_init_def ksu_event_queue_init_def)

end
