(* ===== verification/Selinux.thy ===== *)
theory Selinux
  imports Ksu_Prelude
begin

text \<open>
  Security contexts (\<^verbatim>\<open>kernel/selinux/selinux.c\<close>): moving a credential to a domain, and
  deciding which domain a task runs in, by a cached security id or by comparing the context
  string. The security server of the kernel is a parameter: \<open>ctx_sid\<close> resolves a context to
  an id, \<open>sid_ctx\<close> gives back the context of an id with its length.
\<close>

definition KERNEL_SU_DOMAIN :: bytes where
  "KERNEL_SU_DOMAIN = lit ''ksu''"

definition KERNEL_SU_CONTEXT :: bytes where
  "KERNEL_SU_CONTEXT = lit ''u:r:ksu:s0''"

definition KSU_FILE_CONTEXT :: bytes where
  "KSU_FILE_CONTEXT = lit ''u:object_r:ksu_file:s0''"

definition ZYGOTE_CONTEXT :: bytes where
  "ZYGOTE_CONTEXT = lit ''u:r:zygote:s0''"

definition INIT_CONTEXT :: bytes where
  "INIT_CONTEXT = lit ''u:r:init:s0''"

record lsm =
  ctx_sid :: "bytes \<Rightarrow> u32 option"
  sid_ctx :: "u32 \<Rightarrow> (bytes \<times> nat) option"

record task_sec =
  ts_sid :: u32
  ts_exec_sid :: u32
  ts_create_sid :: u32
  ts_keycreate_sid :: u32
  ts_sockcreate_sid :: u32

section \<open>Changing domain\<close>

text \<open>The C result: \<open>True\<close> is zero. \<open>None\<close> is a credential without security blob.\<close>

definition transive_to_domain :: "lsm \<Rightarrow> bytes \<Rightarrow> bool \<Rightarrow> task_sec option \<Rightarrow> bool \<times> task_sec option" where
  "transive_to_domain L domain clear_exec tso =
     (case tso of
        None \<Rightarrow> (False, None)
      | Some ts \<Rightarrow>
          (case ctx_sid L (c_str domain) of
             None \<Rightarrow> (False, Some ts)
           | Some sid \<Rightarrow>
               let ts1 = ts\<lparr>ts_sid := sid, ts_create_sid := 0, ts_keycreate_sid := 0,
                            ts_sockcreate_sid := 0\<rparr>
               in (True, Some (if clear_exec then ts1\<lparr>ts_exec_sid := 0\<rparr> else ts1))))"

definition setup_selinux :: "lsm \<Rightarrow> bytes \<Rightarrow> task_sec option \<Rightarrow> task_sec option" where
  "setup_selinux L domain tso = snd (transive_to_domain L domain False tso)"

definition setup_ksu_cred :: "lsm \<Rightarrow> task_sec option \<Rightarrow> task_sec option" where
  "setup_ksu_cred L tso = snd (transive_to_domain L KERNEL_SU_CONTEXT False tso)"

text \<open>\<open>prepared\<close>: whether \<open>prepare_creds\<close> gave a copy; on failure nothing is committed.\<close>

definition escape_to_root_for_adb_root :: "lsm \<Rightarrow> bool \<Rightarrow> task_sec option \<Rightarrow> task_sec option" where
  "escape_to_root_for_adb_root L prepared tso =
     (if \<not> prepared then tso
      else let (ok, ts1) = transive_to_domain L KERNEL_SU_CONTEXT True tso in
        if \<not> ok then tso else ts1)"

section \<open>Enforcement\<close>

record enforce_config =
  ec_develop :: bool
  ec_disable :: bool

record enforce_state =
  es_enforcing :: bool
  es_disabled :: bool

definition setenforce :: "enforce_config \<Rightarrow> bool \<Rightarrow> enforce_state \<Rightarrow> enforce_state" where
  "setenforce c b s = (if ec_develop c then s\<lparr>es_enforcing := b\<rparr> else s)"

definition getenforce :: "enforce_config \<Rightarrow> enforce_state \<Rightarrow> bool" where
  "getenforce c s =
     (if ec_disable c \<and> es_disabled s then False
      else if ec_develop c then es_enforcing s else True)"

section \<open>Recognising domains\<close>

record sid_cache =
  cached_su_sid :: u32
  cached_zygote_sid :: u32
  cached_init_sid :: u32
  cached_file_sid :: u32

definition no_cache :: sid_cache where
  "no_cache = \<lparr>cached_su_sid = 0, cached_zygote_sid = 0, cached_init_sid = 0, cached_file_sid = 0\<rparr>"

definition resolve :: "lsm \<Rightarrow> bytes \<Rightarrow> u32" where
  "resolve L ctx = (case ctx_sid L ctx of Some sid \<Rightarrow> sid | None \<Rightarrow> 0)"

definition cache_sid :: "lsm \<Rightarrow> sid_cache" where
  "cache_sid L =
     \<lparr>cached_su_sid = resolve L KERNEL_SU_CONTEXT, cached_zygote_sid = resolve L ZYGOTE_CONTEXT,
      cached_init_sid = resolve L INIT_CONTEXT, cached_file_sid = resolve L KSU_FILE_CONTEXT\<rparr>"

definition is_sid_match :: "lsm \<Rightarrow> task_sec option \<Rightarrow> u32 \<Rightarrow> bytes \<Rightarrow> bool" where
  "is_sid_match L tso cached fallback =
     (case tso of
        None \<Rightarrow> False
      | Some ts \<Rightarrow>
          if cached \<noteq> 0 then ts_sid ts = cached
          else (case sid_ctx L (ts_sid ts) of
                  None \<Rightarrow> False
                | Some (ctx, len) \<Rightarrow> strn_eq len fallback ctx))"

definition is_task_ksu_domain :: "lsm \<Rightarrow> sid_cache \<Rightarrow> task_sec option \<Rightarrow> bool" where
  "is_task_ksu_domain L C tso = is_sid_match L tso (cached_su_sid C) KERNEL_SU_CONTEXT"

definition is_zygote :: "lsm \<Rightarrow> sid_cache \<Rightarrow> task_sec option \<Rightarrow> bool" where
  "is_zygote L C tso = is_sid_match L tso (cached_zygote_sid C) ZYGOTE_CONTEXT"

definition is_init :: "lsm \<Rightarrow> sid_cache \<Rightarrow> task_sec option \<Rightarrow> bool" where
  "is_init L C tso = is_sid_match L tso (cached_init_sid C) INIT_CONTEXT"

text \<open>
  What the security server documents: for the contexts the module asks about, resolving gives
  the one id that names the context (never the null id), and the reported length of a context
  covers the string and its NUL.
\<close>

definition module_contexts :: "bytes set" where
  "module_contexts = {KERNEL_SU_CONTEXT, ZYGOTE_CONTEXT, INIT_CONTEXT}"

definition lsm_ok :: "lsm \<Rightarrow> bool" where
  "lsm_ok L \<longleftrightarrow>
     (\<forall>ctx \<in> module_contexts. \<forall>sid. ctx_sid L ctx = Some sid \<longleftrightarrow>
        (\<exists>c. sid_ctx L sid = Some (c, Suc (length ctx)) \<and> c_str c = ctx)) \<and>
     (\<forall>ctx \<in> module_contexts. ctx_sid L ctx \<noteq> Some 0) \<and>
     (\<forall>sid c n. sid_ctx L sid = Some (c, n) \<longrightarrow> n = Suc (length (c_str c)))"

lemma strn_eq_all: "n = Suc (length (c_str b)) \<Longrightarrow> strn_eq n a b \<longleftrightarrow> c_str a = c_str b"
proof -
  assume n: "n = Suc (length (c_str b))"
  have "take n (c_str a) = c_str b \<longleftrightarrow> c_str a = c_str b"
  proof
    assume t: "take n (c_str a) = c_str b"
    then have "length (take n (c_str a)) = length (c_str b)" by simp
    then have "length (c_str a) \<le> length (c_str b)" using n by (simp add: min_def split: if_splits)
    then show "c_str a = c_str b" using t n by simp
  qed (use n in simp)
  then show ?thesis using n by (simp add: strn_eq_def)
qed

lemma contexts_are_strings:
  "c_str KERNEL_SU_CONTEXT = KERNEL_SU_CONTEXT" "c_str ZYGOTE_CONTEXT = ZYGOTE_CONTEXT"
  "c_str INIT_CONTEXT = INIT_CONTEXT" "c_str KSU_FILE_CONTEXT = KSU_FILE_CONTEXT"
  by (simp_all add: KERNEL_SU_CONTEXT_def ZYGOTE_CONTEXT_def INIT_CONTEXT_def KSU_FILE_CONTEXT_def
      lit_def c_str_def)

text \<open>With either path, a match says that the task's id resolves from the context.\<close>

lemma sid_match_iff:
  assumes "lsm_ok L" "ctx \<in> module_contexts" "c_str ctx = ctx" "cached = 0 \<or> ctx_sid L ctx = Some cached"
  shows "is_sid_match L tso cached ctx \<longleftrightarrow> (\<exists>ts. tso = Some ts \<and> ctx_sid L ctx = Some (ts_sid ts))"
proof (cases tso)
  case (Some ts)
  show ?thesis
  proof (cases "cached = 0")
    case True
    have len: "n = Suc (length (c_str c))" if "sid_ctx L sid = Some (c, n)" for sid c n
      using assms(1) that unfolding lsm_ok_def by blast
    have res: "ctx_sid L ctx = Some sid \<longleftrightarrow>
        (\<exists>c. sid_ctx L sid = Some (c, Suc (length ctx)) \<and> c_str c = ctx)" for sid
      using assms(1,2) unfolding lsm_ok_def by blast
    show ?thesis
    proof (cases "sid_ctx L (ts_sid ts)")
      case None
      then show ?thesis using Some True res by (simp add: is_sid_match_def)
    next
      case (Some p)
      obtain c n where p: "p = (c, n)" by force
      then have n: "n = Suc (length (c_str c))" using len Some by auto
      have "is_sid_match L tso cached ctx \<longleftrightarrow> c_str c = ctx"
        using Some p True \<open>tso = Some ts\<close> strn_eq_all [OF n, of ctx] assms(3)
        by (auto simp: is_sid_match_def)
      also have "\<dots> \<longleftrightarrow> ctx_sid L ctx = Some (ts_sid ts)"
        unfolding res using Some p n by auto
      finally show ?thesis using \<open>tso = Some ts\<close> by simp
    qed
  qed (use Some assms(4) in \<open>auto simp: is_sid_match_def\<close>)
qed (simp add: is_sid_match_def)

lemma resolve_cases: "resolve L ctx = 0 \<or> ctx_sid L ctx = Some (resolve L ctx)"
  by (cases "ctx_sid L ctx") (auto simp: resolve_def)

section \<open>Properties\<close>

text \<open>
  The fast path decides as the slow one. Under the documented behaviour of the security
  server, whether the cache is filled or not, a task is taken for a su, zygote or init task
  exactly when its id is the one its context resolves to; and a task moved to the module's
  domain is then recognised.
\<close>

theorem sid_cache_transparent:
  assumes "lsm_ok L" "C = no_cache \<or> C = cache_sid L"
  shows "(is_task_ksu_domain L C tso \<longleftrightarrow> (\<exists>ts. tso = Some ts \<and> ctx_sid L KERNEL_SU_CONTEXT = Some (ts_sid ts))) \<and>
    (is_zygote L C tso \<longleftrightarrow> (\<exists>ts. tso = Some ts \<and> ctx_sid L ZYGOTE_CONTEXT = Some (ts_sid ts))) \<and>
    (is_init L C tso \<longleftrightarrow> (\<exists>ts. tso = Some ts \<and> ctx_sid L INIT_CONTEXT = Some (ts_sid ts))) \<and>
    (fst (transive_to_domain L KERNEL_SU_CONTEXT b tso) \<longrightarrow>
       is_task_ksu_domain L C (snd (transive_to_domain L KERNEL_SU_CONTEXT b tso)))"
proof -
  have c: "cached_su_sid C = 0 \<or> ctx_sid L KERNEL_SU_CONTEXT = Some (cached_su_sid C)"
    "cached_zygote_sid C = 0 \<or> ctx_sid L ZYGOTE_CONTEXT = Some (cached_zygote_sid C)"
    "cached_init_sid C = 0 \<or> ctx_sid L INIT_CONTEXT = Some (cached_init_sid C)"
    using assms(2) resolve_cases [of L KERNEL_SU_CONTEXT] resolve_cases [of L ZYGOTE_CONTEXT]
      resolve_cases [of L INIT_CONTEXT]
    by (auto simp: no_cache_def cache_sid_def)
  have m: "KERNEL_SU_CONTEXT \<in> module_contexts" "ZYGOTE_CONTEXT \<in> module_contexts"
    "INIT_CONTEXT \<in> module_contexts" by (simp_all add: module_contexts_def)
  have su: "is_task_ksu_domain L C t \<longleftrightarrow> (\<exists>ts. t = Some ts \<and> ctx_sid L KERNEL_SU_CONTEXT = Some (ts_sid ts))" for t
    unfolding is_task_ksu_domain_def by (rule sid_match_iff [OF assms(1) m(1) contexts_are_strings(1) c(1)])
  have "fst (transive_to_domain L KERNEL_SU_CONTEXT b tso) \<longrightarrow>
      (\<exists>ts. snd (transive_to_domain L KERNEL_SU_CONTEXT b tso) = Some ts \<and>
        ctx_sid L KERNEL_SU_CONTEXT = Some (ts_sid ts))"
    by (auto simp: transive_to_domain_def contexts_are_strings Let_def split: option.splits)
  then show ?thesis
    unfolding su is_zygote_def is_init_def
    using sid_match_iff [OF assms(1) m(2) contexts_are_strings(2) c(2)]
      sid_match_iff [OF assms(1) m(3) contexts_are_strings(3) c(3)] by blast
qed

text \<open>A security server that knows one context.\<close>

definition ex_lsm :: lsm where
  "ex_lsm = \<lparr>ctx_sid = (\<lambda>c. if c = KERNEL_SU_CONTEXT then Some 7 else None),
     sid_ctx = (\<lambda>s. if s = 7 then Some (KERNEL_SU_CONTEXT @ [0], Suc (length KERNEL_SU_CONTEXT)) else None)\<rparr>"

lemma ex_lsm_ok: "lsm_ok ex_lsm"
proof -
  have "c_str (KERNEL_SU_CONTEXT @ [0]) = KERNEL_SU_CONTEXT" "KERNEL_SU_CONTEXT \<noteq> ZYGOTE_CONTEXT"
    "KERNEL_SU_CONTEXT \<noteq> INIT_CONTEXT"
    by (simp_all add: KERNEL_SU_CONTEXT_def ZYGOTE_CONTEXT_def INIT_CONTEXT_def lit_def c_str_def)
  then show ?thesis by (auto simp: lsm_ok_def ex_lsm_def module_contexts_def split: if_splits)
qed

lemma sid_cache_transparent_witness:
  "is_task_ksu_domain ex_lsm no_cache (Some \<lparr>ts_sid = 7, ts_exec_sid = 0, ts_create_sid = 0,
     ts_keycreate_sid = 0, ts_sockcreate_sid = 0\<rparr>)"
  using sid_cache_transparent [OF ex_lsm_ok, of no_cache] by (simp add: ex_lsm_def)

end
