(* ===== verification/Task.thy ===== *)
theory Task
  imports Allowlist_Safety Selinux
begin

text \<open>
  The tasks the module acts on: credentials, the syscall-tracepoint mark that routes a task's
  system calls through the module (\<^verbatim>\<open>kernel/hook/tp_marker.c\<close>), and the cached seccomp
  verdicts of its filter (\<^verbatim>\<open>kernel/infra/seccomp_cache.c\<close>). Thread ids are numbers, a
  seccomp filter is an address in \<open>k_filters\<close>.
\<close>

section \<open>Tasks\<close>

record cred =
  cr_uid :: u32
  cr_gid :: u32
  cr_suid :: u32
  cr_sgid :: u32
  cr_euid :: u32
  cr_egid :: u32
  cr_fsuid :: u32
  cr_fsgid :: u32
  cr_securebits :: u32
  cr_cap_inheritable :: u64
  cr_cap_permitted :: u64
  cr_cap_effective :: u64
  cr_cap_bset :: u64
  cr_user :: u32
  cr_ucounts :: u32
  cr_groups :: "u32 list"
  cr_security :: "task_sec option"

record thread =
  th_pid :: nat
  th_tgid :: nat
  th_has_mm :: bool
  th_cred :: cred
  th_tracepoint :: bool
  th_no_escape :: bool
  th_seccomp_mode :: nat
  th_seccomp_work :: bool
  th_filter :: "addr option"
  th_filter_count :: nat
  th_mnt_ns :: nat
  th_root_private :: bool
  th_pwd :: bytes

record action_cache =
  allow_native :: "nat \<Rightarrow> bool"
  allow_compat :: "nat \<Rightarrow> bool"

text \<open>\<open>k_released\<close> lists the filters handed to \<open>seccomp_filter_release\<close>.\<close>

record kernel =
  k_threads :: "thread list"
  k_reg_count :: int
  k_filters :: "addr \<Rightarrow> action_cache option"
  k_released :: "addr list"

definition find_thread :: "nat \<Rightarrow> kernel \<Rightarrow> thread option" where
  "find_thread pid k = find (\<lambda>t. th_pid t = pid) (k_threads k)"

definition update_threads :: "(thread \<Rightarrow> bool) \<Rightarrow> (thread \<Rightarrow> thread) \<Rightarrow> kernel \<Rightarrow> kernel" where
  "update_threads P f k = k\<lparr>k_threads := map (\<lambda>t. if P t then f t else t) (k_threads k)\<rparr>"

definition update_thread :: "nat \<Rightarrow> (thread \<Rightarrow> thread) \<Rightarrow> kernel \<Rightarrow> kernel" where
  "update_thread pid = update_threads (\<lambda>t. th_pid t = pid)"

section \<open>Marking tasks\<close>

definition set_flag :: "thread \<Rightarrow> thread" where
  "set_flag t = t\<lparr>th_tracepoint := True\<rparr>"

definition clear_flag :: "thread \<Rightarrow> thread" where
  "clear_flag t = t\<lparr>th_tracepoint := False\<rparr>"

definition ksu_tp_marker_inc_reg_count :: "kernel \<Rightarrow> kernel" where
  "ksu_tp_marker_inc_reg_count k = k\<lparr>k_reg_count := k_reg_count k + 1\<rparr>"

definition ksu_tp_marker_dec_reg_count :: "kernel \<Rightarrow> kernel" where
  "ksu_tp_marker_dec_reg_count k = k\<lparr>k_reg_count := k_reg_count k - 1\<rparr>"

definition ksu_clear_flag_if_needed :: "nat \<Rightarrow> kernel \<Rightarrow> kernel" where
  "ksu_clear_flag_if_needed pid k =
     (if k_reg_count k \<le> 1 then update_thread pid clear_flag k else k)"

definition handle_process_mark :: "bool \<Rightarrow> kernel \<Rightarrow> kernel" where
  "handle_process_mark mark k = update_threads (\<lambda>_. True) (if mark then set_flag else clear_flag) k"

definition ksu_mark_all_process :: "kernel \<Rightarrow> kernel" where
  "ksu_mark_all_process = handle_process_mark True"

definition ksu_unmark_all_process :: "kernel \<Rightarrow> kernel" where
  "ksu_unmark_all_process = handle_process_mark False"

definition wants_mark :: "ksu_env \<Rightarrow> u32 \<Rightarrow> lsm \<Rightarrow> sid_cache \<Rightarrow> allowlist \<Rightarrow> thread \<Rightarrow> bool" where
  "wants_mark E m L C al t =
     (let u = cr_uid (th_cred t); sec = cr_security (th_cred t) in
      (u = 0 \<and> is_task_ksu_domain L C sec) \<or> is_zygote L C sec \<or> u = SHELL_UID \<or>
      th_pid t = 1 \<or> ksu_is_allow_uid E m u al)"

definition ksu_mark_running_process_locked ::
    "ksu_env \<Rightarrow> u32 \<Rightarrow> lsm \<Rightarrow> sid_cache \<Rightarrow> allowlist \<Rightarrow> kernel \<Rightarrow> kernel" where
  "ksu_mark_running_process_locked E m L C al k =
     k\<lparr>k_threads := map (\<lambda>t.
        if th_pid t \<noteq> 1 \<and> \<not> th_has_mm t then t
        else if wants_mark E m L C al t then set_flag t else clear_flag t) (k_threads k)\<rparr>"

definition ksu_mark_running_process ::
    "ksu_env \<Rightarrow> u32 \<Rightarrow> lsm \<Rightarrow> sid_cache \<Rightarrow> allowlist \<Rightarrow> kernel \<Rightarrow> kernel" where
  "ksu_mark_running_process E m L C al k =
     (if k_reg_count k \<le> 1 then ksu_mark_running_process_locked E m L C al k else k)"

definition ksu_get_task_mark :: "nat \<Rightarrow> kernel \<Rightarrow> errno + bool" where
  "ksu_get_task_mark pid k =
     (case find_thread pid k of None \<Rightarrow> Inl ESRCH | Some t \<Rightarrow> Inr (th_tracepoint t))"

definition ksu_set_task_mark :: "nat \<Rightarrow> bool \<Rightarrow> kernel \<Rightarrow> (errno + unit) \<times> kernel" where
  "ksu_set_task_mark pid mark k =
     (case find_thread pid k of
        None \<Rightarrow> (Inl ESRCH, k)
      | Some t \<Rightarrow> (Inr (), update_thread pid (if mark then set_flag else clear_flag) k))"

section \<open>Seccomp verdict cache\<close>

text \<open>The bitmap sizes; a build without 32-bit tasks has no compat map.\<close>

record seccomp_arch =
  native_nr :: int
  compat_nr :: "int option"

definition put_bit :: "int \<Rightarrow> bool \<Rightarrow> (nat \<Rightarrow> bool) \<Rightarrow> nat \<Rightarrow> bool" where
  "put_bit nr b m = m(nat nr := b)"

definition write_cache :: "seccomp_arch \<Rightarrow> bool \<Rightarrow> int \<Rightarrow> action_cache \<Rightarrow> action_cache" where
  "write_cache A b nr c =
     (let c1 = (if 0 \<le> nr \<and> nr < native_nr A then c\<lparr>allow_native := put_bit nr b (allow_native c)\<rparr> else c)
      in case compat_nr A of
           None \<Rightarrow> c1
         | Some n \<Rightarrow> if 0 \<le> nr \<and> nr < n then c1\<lparr>allow_compat := put_bit nr b (allow_compat c1)\<rparr> else c1)"

definition on_filter :: "addr option \<Rightarrow> (action_cache \<Rightarrow> action_cache) \<Rightarrow> kernel \<Rightarrow> kernel" where
  "on_filter fo f k =
     (case fo of
        None \<Rightarrow> k
      | Some a \<Rightarrow> k\<lparr>k_filters := (k_filters k)(a := map_option f (k_filters k a))\<rparr>)"

definition ksu_seccomp_clear_cache :: "seccomp_arch \<Rightarrow> addr option \<Rightarrow> int \<Rightarrow> kernel \<Rightarrow> kernel" where
  "ksu_seccomp_clear_cache A fo nr = on_filter fo (write_cache A False nr)"

definition ksu_seccomp_allow_cache :: "seccomp_arch \<Rightarrow> addr option \<Rightarrow> int \<Rightarrow> kernel \<Rightarrow> kernel" where
  "ksu_seccomp_allow_cache A fo nr = on_filter fo (write_cache A True nr)"

lemma write_cache_bits:
  "allow_native (write_cache A b nr c) i = (if int i = nr \<and> nr < native_nr A then b else allow_native c i)"
  "allow_compat (write_cache A b nr c) i =
     (if \<exists>n. compat_nr A = Some n \<and> int i = nr \<and> nr < n then b else allow_compat c i)"
  by (auto simp: write_cache_def put_bit_def Let_def split: option.split)

section \<open>Frame lemmas\<close>

definition wf_kernel :: "kernel \<Rightarrow> bool" where
  "wf_kernel k \<longleftrightarrow> distinct (map th_pid (k_threads k))"

lemma find_thread_Some:
  "find_thread pid k = Some t \<Longrightarrow> t \<in> set (k_threads k) \<and> th_pid t = pid"
  by (auto simp: find_thread_def find_Some_iff)

lemma find_thread_update:
  assumes "\<And>t. th_pid (f t) = th_pid t"
  shows "find_thread pid (update_threads P f k) =
    map_option (\<lambda>t. if P t then f t else t) (find_thread pid k)"
proof -
  have "find (\<lambda>t. th_pid t = pid) (map (\<lambda>t. if P t then f t else t) ts) =
      map_option (\<lambda>t. if P t then f t else t) (find (\<lambda>t. th_pid t = pid) ts)" for ts
    using assms by (induction ts) auto
  then show ?thesis by (simp add: find_thread_def update_threads_def)
qed

lemma find_update_thread:
  assumes "\<And>t. th_pid (f t) = th_pid t"
  shows "find_thread pid (update_thread pid f k) = map_option f (find_thread pid k)"
  using find_thread_update [of f pid "\<lambda>t. th_pid t = pid" k, OF assms] find_thread_Some [of pid k]
  by (cases "find_thread pid k") (simp_all add: update_thread_def)

lemma flag_frame [simp]:
  "th_pid (set_flag t) = th_pid t" "th_pid (clear_flag t) = th_pid t"
  "th_tracepoint (set_flag t)" "\<not> th_tracepoint (clear_flag t)"
  "th_cred (set_flag t) = th_cred t" "th_cred (clear_flag t) = th_cred t"
  "th_filter (set_flag t) = th_filter t" "th_filter (clear_flag t) = th_filter t"
  "th_seccomp_mode (set_flag t) = th_seccomp_mode t" "th_no_escape (set_flag t) = th_no_escape t"
  "th_seccomp_mode (clear_flag t) = th_seccomp_mode t" "th_no_escape (clear_flag t) = th_no_escape t"
  by (simp_all add: set_flag_def clear_flag_def)

lemma update_threads_frame [simp]:
  "k_reg_count (update_threads P f k) = k_reg_count k"
  "k_filters (update_threads P f k) = k_filters k"
  "k_released (update_threads P f k) = k_released k"
  by (simp_all add: update_threads_def)

lemma on_filter_frame [simp]:
  "k_threads (on_filter fo f k) = k_threads k" "k_reg_count (on_filter fo f k) = k_reg_count k"
  "find_thread pid (on_filter fo f k) = find_thread pid k"
  by (simp_all add: on_filter_def find_thread_def split: option.split)

section \<open>Properties\<close>

text \<open>
  Which tasks the module intercepts. When nobody else uses the syscall tracepoint, marking
  the running processes leaves kernel threads alone and marks exactly the init process, the
  shell, zygotes, the module's own root processes, and every task whose uid is allowed;
  otherwise nothing changes.
\<close>

theorem mark_running_spec:
  assumes "al_reach E (h, al)" "find_thread pid k = Some t"
    and "k' = ksu_mark_running_process E m L C al k"
  shows "find_thread pid k' =
    Some (if k_reg_count k > 1 \<or> (pid \<noteq> 1 \<and> \<not> th_has_mm t) then t
          else t\<lparr>th_tracepoint :=
            pid = 1 \<or> cr_uid (th_cred t) = SHELL_UID \<or> is_zygote L C (cr_security (th_cred t)) \<or>
            (cr_uid (th_cred t) = 0 \<and> is_task_ksu_domain L C (cr_security (th_cred t))) \<or>
            (\<not> forbid_system_uid (cr_uid (th_cred t)) \<and>
              (is_uid_manager E m (cr_uid (th_cred t)) \<or>
               (\<exists>p. al_profile E al (cr_uid (th_cred t)) = Some p \<and> ap_allow_su p)))\<rparr>)"
proof -
  have ch: "inv_chains E al" using al_reach_inv [OF assms(1)] by (simp add: al_inv_def)
  have pid: "th_pid t = pid" using find_thread_Some [OF assms(2)] by simp
  have "find (\<lambda>t. th_pid t = pid) (map (\<lambda>t. if th_pid t \<noteq> 1 \<and> \<not> th_has_mm t then t
      else if wants_mark E m L C al t then set_flag t else clear_flag t) ts) =
      map_option (\<lambda>t. if th_pid t \<noteq> 1 \<and> \<not> th_has_mm t then t
      else if wants_mark E m L C al t then set_flag t else clear_flag t) (find (\<lambda>t. th_pid t = pid) ts)" for ts
    by (induction ts) auto
  then have mark: "find_thread pid (ksu_mark_running_process_locked E m L C al k) =
      Some (if pid \<noteq> 1 \<and> \<not> th_has_mm t then t
            else if wants_mark E m L C al t then set_flag t else clear_flag t)"
    using assms(2) pid by (simp add: find_thread_def ksu_mark_running_process_locked_def)
  show ?thesis
  proof (cases "k_reg_count k > 1")
    case True
    then show ?thesis using assms by (simp add: ksu_mark_running_process_def)
  next
    case False
    then have "find_thread pid k' = find_thread pid (ksu_mark_running_process_locked E m L C al k)"
      using assms(3) by (simp add: ksu_mark_running_process_def)
    then show ?thesis
      using False pid unfolding mark wants_mark_def Let_def is_allow_uid_iff [OF ch]
      by (auto simp: set_flag_def clear_flag_def)
  qed
qed

definition ex_cred :: "u32 \<Rightarrow> cred" where
  "ex_cred u = \<lparr>cr_uid = u, cr_gid = u, cr_suid = u, cr_sgid = u, cr_euid = u, cr_egid = u,
     cr_fsuid = u, cr_fsgid = u, cr_securebits = 3, cr_cap_inheritable = 0, cr_cap_permitted = 0,
     cr_cap_effective = 0, cr_cap_bset = 0, cr_user = u, cr_ucounts = u, cr_groups = [3003],
     cr_security = Some \<lparr>ts_sid = 9, ts_exec_sid = 0, ts_create_sid = 0, ts_keycreate_sid = 0,
       ts_sockcreate_sid = 0\<rparr>\<rparr>"

definition ex_thread :: "nat \<Rightarrow> u32 \<Rightarrow> thread" where
  "ex_thread pid u = \<lparr>th_pid = pid, th_tgid = pid, th_has_mm = True, th_cred = ex_cred u,
     th_tracepoint = False, th_no_escape = False, th_seccomp_mode = 2, th_seccomp_work = True,
     th_filter = Some 64, th_filter_count = 1, th_mnt_ns = 5, th_root_private = False,
     th_pwd = lit ''/''\<rparr>"

definition ex_kernel :: kernel where
  "ex_kernel = \<lparr>k_threads = [ex_thread 100 10001, ex_thread 200 10002], k_reg_count = 1,
     k_filters = [64 \<mapsto> \<lparr>allow_native = (\<lambda>_. False), allow_compat = (\<lambda>_. False)\<rparr>], k_released = []\<rparr>"

lemma ex_find: "find_thread 100 ex_kernel = Some (ex_thread 100 10001)"
  by (simp add: find_thread_def ex_kernel_def ex_thread_def)

lemma mark_running_spec_witness:
  "\<exists>t. find_thread 100 (ksu_mark_running_process ex_env 0xFFFFFFFF ex_lsm no_cache
      (ex_list 10001 True) ex_kernel) = Some t \<and> th_tracepoint t"
  using mark_running_spec [OF ex_list_reach [of 10001 True] ex_find refl,
      where m = "0xFFFFFFFF" and L = ex_lsm and C = no_cache]
  by (simp add: ex_kernel_def ex_thread_def ex_cred_def ex_list_profile forbid_system_uid_def)

text \<open>
  The seccomp cache. Allowing a system call sets its bit in each bitmap that has it and no
  other; clearing undoes it; numbers outside the bitmaps and a null filter change nothing.
\<close>

theorem seccomp_cache_exact:
  assumes "k_filters k a = Some c"
  shows "\<exists>c'. k_filters (ksu_seccomp_allow_cache A (Some a) nr k) = (k_filters k)(a \<mapsto> c') \<and>
      (\<forall>i. allow_native c' i \<longleftrightarrow> allow_native c i \<or> (int i = nr \<and> nr < native_nr A)) \<and>
      (\<forall>i. allow_compat c' i \<longleftrightarrow> allow_compat c i \<or>
         (\<exists>n. compat_nr A = Some n \<and> int i = nr \<and> nr < n)) \<and>
      (\<exists>d. k_filters (ksu_seccomp_clear_cache A (Some a) nr k) = (k_filters k)(a \<mapsto> d) \<and>
        (\<forall>i. allow_native d i \<longleftrightarrow> allow_native c i \<and> \<not> (int i = nr \<and> nr < native_nr A)) \<and>
        (\<forall>i. allow_compat d i \<longleftrightarrow> allow_compat c i \<and>
           \<not> (\<exists>n. compat_nr A = Some n \<and> int i = nr \<and> nr < n)))"
proof (rule exI [of _ "write_cache A True nr c"], intro conjI)
  show "\<exists>d. k_filters (ksu_seccomp_clear_cache A (Some a) nr k) = (k_filters k)(a \<mapsto> d) \<and>
      (\<forall>i. allow_native d i \<longleftrightarrow> allow_native c i \<and> \<not> (int i = nr \<and> nr < native_nr A)) \<and>
      (\<forall>i. allow_compat d i \<longleftrightarrow> allow_compat c i \<and>
         \<not> (\<exists>n. compat_nr A = Some n \<and> int i = nr \<and> nr < n))"
    by (rule exI [of _ "write_cache A False nr c"])
      (use assms in \<open>auto simp: ksu_seccomp_clear_cache_def on_filter_def write_cache_bits\<close>)
qed (use assms in \<open>auto simp: ksu_seccomp_allow_cache_def on_filter_def write_cache_bits\<close>)

lemma seccomp_cache_exact_witness:
  "\<exists>c'. k_filters (ksu_seccomp_allow_cache \<lparr>native_nr = 512, compat_nr = None\<rparr> (Some 64) 142 ex_kernel) 64 =
     Some c' \<and> allow_native c' 142 \<and> \<not> allow_native c' 143"
  using seccomp_cache_exact [of ex_kernel 64 "\<lparr>allow_native = (\<lambda>_. False), allow_compat = (\<lambda>_. False)\<rparr>"
      "\<lparr>native_nr = 512, compat_nr = None\<rparr>" 142]
  by (auto simp: ex_kernel_def)

end
