(* ===== verification/Escape.thy ===== *)
theory Escape
  imports Task "HOL-Library.Multiset"
begin

text \<open>
  Becoming root (\<^verbatim>\<open>kernel/policy/app_profile.c\<close>) and the mount namespace a root shell gets
  (\<^verbatim>\<open>kernel/infra/su_mount_ns.c\<close>). What the kernel answers on the way (allocations, gid
  validity, path lookups, system calls) is the environment argument; the task and the
  allowlist are the state.
\<close>

section \<open>Mount namespaces\<close>

abbreviation (input) "KSU_NS_INHERITED \<equiv> (0 :: s32)"
abbreviation (input) "KSU_NS_GLOBAL \<equiv> (1 :: s32)"
abbreviation (input) "KSU_NS_INDIVIDUAL \<equiv> (2 :: s32)"

text \<open>
  \<open>ns_d_path\<close> is the absolute path of the working directory, if it fits the buffer;
  \<open>ns_init\<close> and \<open>ns_fresh\<close> are the namespaces of init and of a successful unshare. The
  \<open>setns\<close> system call moves the working directory to the new root.
\<close>

record ns_env =
  ns_pwd_buf :: bool
  ns_d_path :: "bytes option"
  ns_pid1 :: bool
  ns_pid1_task :: bool
  ns_get_path :: bool
  ns_open :: bool
  ns_fd :: bool
  ns_setns :: bool
  ns_pwd_exists :: "bytes \<Rightarrow> bool"
  ns_unshare :: bool
  ns_make_private :: bool
  ns_init :: nat
  ns_fresh :: nat

definition ksu_mnt_ns_global :: "ns_env \<Rightarrow> thread \<Rightarrow> thread" where
  "ksu_mnt_ns_global n t =
     (let pwd_path = (if ns_pwd_buf n then ns_d_path n else None) in
      if \<not> ns_pid1 n then t
      else if \<not> ns_pid1_task n then t
      else if \<not> ns_get_path n then t
      else if \<not> ns_open n then t
      else if \<not> ns_fd n then t
      else if \<not> ns_setns n then t
      else let t1 = t\<lparr>th_mnt_ns := ns_init n, th_pwd := lit ''/''\<rparr> in
        case pwd_path of
          None \<Rightarrow> t1
        | Some p \<Rightarrow> if ns_pwd_exists n p then t1\<lparr>th_pwd := p\<rparr> else t1)"

definition ksu_mnt_ns_individual :: "ns_env \<Rightarrow> thread \<Rightarrow> thread" where
  "ksu_mnt_ns_individual n t =
     (if \<not> ns_unshare n then t
      else let t1 = t\<lparr>th_mnt_ns := ns_fresh n\<rparr> in
        if ns_make_private n then t1\<lparr>th_root_private := True\<rparr> else t1)"

definition setup_mount_ns :: "s32 \<Rightarrow> ns_env \<Rightarrow> thread \<Rightarrow> thread" where
  "setup_mount_ns mode n t =
     (if mode = KSU_NS_INHERITED then t
      else if mode \<noteq> KSU_NS_GLOBAL \<and> mode \<noteq> KSU_NS_INDIVIDUAL then t
      else if mode = KSU_NS_GLOBAL then ksu_mnt_ns_global n t
      else ksu_mnt_ns_individual n t)"

section \<open>Supplementary groups and seccomp\<close>

text \<open>\<open>ee_ucounts\<close> is \<open>None\<close> on a kernel without per-credential counts (before 5.14).\<close>

record escape_env =
  ee_prepare :: bool
  ee_alloc_uid :: bool
  ee_ucounts :: "bool option"
  ee_groups_alloc :: bool
  ee_gid_valid :: "u32 \<Rightarrow> bool"
  ee_fake :: bool
  ee_ns :: ns_env

text \<open>The static \<open>root_groups\<close> has no members.\<close>

definition root_groups :: "u32 list" where
  "root_groups = []"

fun fill_groups :: "(u32 \<Rightarrow> bool) \<Rightarrow> u32 list \<Rightarrow> u32 list \<Rightarrow> u32 list option" where
  "fill_groups valid [] acc = Some acc"
| "fill_groups valid (g # gs) acc = (if \<not> valid g then None else fill_groups valid gs (acc @ [g]))"

definition setup_groups :: "escape_env \<Rightarrow> root_profile \<Rightarrow> cred \<Rightarrow> cred" where
  "setup_groups ee p c =
     (if unat (rp_groups_count p) > KSU_MAX_GROUPS then c
      else if rp_groups_count p = 1 \<and> rp_groups p ! 0 = 0 then c\<lparr>cr_groups := root_groups\<rparr>
      else if \<not> ee_groups_alloc ee then c
      else case fill_groups (ee_gid_valid ee) (take (unat (rp_groups_count p)) (rp_groups p)) [] of
          None \<Rightarrow> c
        | Some gs \<Rightarrow> c\<lparr>cr_groups := sort gs\<rparr>)"

definition disable_seccomp :: "escape_env \<Rightarrow> nat \<Rightarrow> kernel \<Rightarrow> kernel" where
  "disable_seccomp ee pid k =
     (if \<not> ee_fake ee then k
      else case find_thread pid k of
          None \<Rightarrow> k
        | Some t \<Rightarrow>
            (update_thread pid (\<lambda>t. t\<lparr>th_seccomp_work := False, th_seccomp_mode := 0,
                th_filter := None, th_filter_count := 0\<rparr>) k)
              \<lparr>k_released := k_released k @ (case th_filter t of Some a \<Rightarrow> [a] | None \<Rightarrow> [])\<rparr>)"

section \<open>The escape\<close>

definition root_ids :: "root_profile \<Rightarrow> cred \<Rightarrow> cred" where
  "root_ids p c =
     c\<lparr>cr_uid := rp_uid p, cr_suid := rp_uid p, cr_euid := rp_uid p, cr_fsuid := rp_uid p,
       cr_gid := rp_gid p, cr_fsgid := rp_gid p, cr_sgid := rp_gid p, cr_egid := rp_gid p,
       cr_securebits := 0\<rparr>"

definition root_caps :: "root_profile \<Rightarrow> cred \<Rightarrow> cred" where
  "root_caps p c =
     c\<lparr>cr_cap_effective := rp_cap_effective p, cr_cap_permitted := rp_cap_effective p,
       cr_cap_bset := rp_cap_effective p\<rparr>"

text \<open>The credential a successful escape commits.\<close>

definition root_cred :: "lsm \<Rightarrow> escape_env \<Rightarrow> root_profile \<Rightarrow> cred \<Rightarrow> cred" where
  "root_cred L ee p c0 =
     (let c1 = root_ids p c0;
          c2 = c1\<lparr>cr_user := cr_uid c1\<rparr>;
          c3 = (if ee_ucounts ee = None then c2 else c2\<lparr>cr_ucounts := cr_uid c2\<rparr>);
          c4 = root_caps p c3;
          c5 = setup_groups ee p c4
      in c5\<lparr>cr_security := setup_selinux L (rp_selinux_domain p) (cr_security c5)\<rparr>)"

text \<open>
  \<open>pid\<close> is \<open>current\<close>. The result gives the return code with the allowlist (whose reference
  counts the lookup and the release change) and the kernel; \<open>None\<close> means that the profile
  lookup does not return. A failing \<open>set_cred_ucounts\<close> leaves the return code zero.
\<close>

definition escape_with_root_profile ::
    "ksu_env \<Rightarrow> u32 \<Rightarrow> lsm \<Rightarrow> escape_env \<Rightarrow> nat \<Rightarrow> allowlist \<times> kernel \<Rightarrow>
       ((errno + unit) \<times> allowlist \<times> kernel) option" where
  "escape_with_root_profile E m L ee pid s =
     (let (al, k) = s in
      if \<not> ee_prepare ee then Some (Inl ENOMEM, al, k)
      else case find_thread pid k of
          None \<Rightarrow> None
        | Some t \<Rightarrow>
            let c0 = th_cred t in
            if cr_euid c0 = 0 then Some (Inr (), al, k)
            else if th_no_escape t then Some (Inr (), al, k)
            else case ksu_get_root_profile E m (cr_uid c0) al of
                None \<Rightarrow> None
              | Some (r, al1) \<Rightarrow>
                  (case root_profile_of r al1 of
                     None \<Rightarrow> None
                   | Some p \<Rightarrow>
                       if \<not> ee_alloc_uid ee then Some (Inl ENOMEM, ksu_put_root_profile r al1, k)
                       else if ee_ucounts ee = Some False then Some (Inr (), ksu_put_root_profile r al1, k)
                       else
                         let k1 = update_thread pid (\<lambda>t. t\<lparr>th_cred := root_cred L ee p c0\<rparr>) k;
                             k2 = disable_seccomp ee pid k1;
                             k3 = (if rp_flags p AND FLAG_KSU_NO_NEW_PRIVS \<noteq> 0
                                   then update_thread pid (\<lambda>t. t\<lparr>th_no_escape := True\<rparr>) k2 else k2);
                             k4 = update_threads (\<lambda>u. th_tgid u = th_tgid t) set_flag k3;
                             k5 = update_thread pid (setup_mount_ns (rp_namespaces p) (ee_ns ee)) k4
                         in Some (Inr (), ksu_put_root_profile r al1, k5)))"

text \<open>The init process only changes its domain; a failing resolution still commits.\<close>

definition escape_to_root_for_init :: "lsm \<Rightarrow> bool \<Rightarrow> cred \<Rightarrow> cred" where
  "escape_to_root_for_init L prepared c =
     (if \<not> prepared then c
      else c\<lparr>cr_security := setup_selinux L KERNEL_SU_CONTEXT (cr_security c)\<rparr>)"

section \<open>Lemmas\<close>

lemma get_put_root_reach:
  assumes "al_reach E (h, al)" "ksu_get_root_profile E m u al = Some (r, al1)"
  shows "al_reach E (h, ksu_put_root_profile r al1)"
proof -
  have g: "al_reach E (hold_root r h, al1)"
    using al_reach.step [OF assms(1) al_step.get_root [OF assms(2)]] .
  show ?thesis
  proof (cases r)
    case DefaultRoot
    then show ?thesis using g by (simp add: hold_root_def ksu_put_root_profile_def)
  next
    case (NodeRoot a)
    have "al_step E (h(a := h a + 1), al1)
        ((h(a := h a + 1))(a := (h(a := h a + 1)) a - 1), ksu_put_root_profile (NodeRoot a) al1)"
      by (rule al_step.put_root) simp
    then show ?thesis using al_reach.step [of E "(h(a := h a + 1), al1)"] g NodeRoot
      by (simp add: hold_root_def)
  qed
qed

lemma put_root_profile_map:
  assumes "al_inv E h al" "ksu_get_root_profile E m u al = Some (r, al1)"
  shows "al_profile E (ksu_put_root_profile r al1) = al_profile E al"
  using assms
proof (cases r)
  case (NodeRoot a)
  obtain r' al' where "ksu_get_root_profile E m u al = Some (r', al')" "al_inv E (hold_root r' h) al'"
    "al_profile E al' = al_profile E al" by (rule get_root_profile_spec [OF assms(1)])
  then have "al_inv E (h(a := h a + 1)) al1" "al_profile E al1 = al_profile E al"
    using assms(2) NodeRoot by (auto simp: hold_root_def)
  then show ?thesis using NodeRoot by (simp add: ksu_put_root_profile_def al_profile_put)
next
  case DefaultRoot
  then show ?thesis
    using get_root_profile_spec [OF assms(1), of m u] assms(2)
    by (auto simp: ksu_put_root_profile_def)
qed

lemma setup_mount_ns_frame [simp]:
  "th_pid (setup_mount_ns mode n t) = th_pid t" "th_tgid (setup_mount_ns mode n t) = th_tgid t"
  "th_cred (setup_mount_ns mode n t) = th_cred t"
  "th_no_escape (setup_mount_ns mode n t) = th_no_escape t"
  "th_tracepoint (setup_mount_ns mode n t) = th_tracepoint t"
  "th_seccomp_mode (setup_mount_ns mode n t) = th_seccomp_mode t"
  "th_seccomp_work (setup_mount_ns mode n t) = th_seccomp_work t"
  "th_filter (setup_mount_ns mode n t) = th_filter t"
  by (simp_all add: setup_mount_ns_def ksu_mnt_ns_global_def ksu_mnt_ns_individual_def Let_def
      split: option.split)

lemma find_released [simp]: "find_thread pid (k\<lparr>k_released := r\<rparr>) = find_thread pid k"
  by (simp add: find_thread_def)

lemma fill_groups_spec: "fill_groups valid gs acc = (if list_all valid gs then Some (acc @ gs) else None)"
  by (induction gs arbitrary: acc) auto

lemma setup_groups_frame [simp]:
  "cr_uid (setup_groups ee p c) = cr_uid c"
  "cr_gid (setup_groups ee p c) = cr_gid c"
  "cr_suid (setup_groups ee p c) = cr_suid c"
  "cr_sgid (setup_groups ee p c) = cr_sgid c"
  "cr_euid (setup_groups ee p c) = cr_euid c"
  "cr_egid (setup_groups ee p c) = cr_egid c"
  "cr_fsuid (setup_groups ee p c) = cr_fsuid c"
  "cr_fsgid (setup_groups ee p c) = cr_fsgid c"
  "cr_securebits (setup_groups ee p c) = cr_securebits c"
  "cr_cap_inheritable (setup_groups ee p c) = cr_cap_inheritable c"
  "cr_cap_permitted (setup_groups ee p c) = cr_cap_permitted c"
  "cr_cap_effective (setup_groups ee p c) = cr_cap_effective c"
  "cr_cap_bset (setup_groups ee p c) = cr_cap_bset c"
  "cr_user (setup_groups ee p c) = cr_user c"
  "cr_ucounts (setup_groups ee p c) = cr_ucounts c"
  "cr_security (setup_groups ee p c) = cr_security c"
  by (simp_all add: setup_groups_def split: option.split)

lemma setup_groups_groups:
  "cr_groups (setup_groups ee p c) =
     (if unat (rp_groups_count p) > 32 then cr_groups c
      else if rp_groups_count p = 1 \<and> rp_groups p ! 0 = 0 then []
      else if ee_groups_alloc ee \<and> list_all (ee_gid_valid ee) (take (unat (rp_groups_count p)) (rp_groups p))
      then sort (take (unat (rp_groups_count p)) (rp_groups p)) else cr_groups c)"
  by (simp add: setup_groups_def fill_groups_spec root_groups_def)

lemma root_cred_fields:
  "cr_uid (root_cred L ee p c) = rp_uid p" "cr_suid (root_cred L ee p c) = rp_uid p"
  "cr_euid (root_cred L ee p c) = rp_uid p" "cr_fsuid (root_cred L ee p c) = rp_uid p"
  "cr_gid (root_cred L ee p c) = rp_gid p" "cr_sgid (root_cred L ee p c) = rp_gid p"
  "cr_egid (root_cred L ee p c) = rp_gid p" "cr_fsgid (root_cred L ee p c) = rp_gid p"
  "cr_securebits (root_cred L ee p c) = 0" "cr_user (root_cred L ee p c) = rp_uid p"
  "cr_ucounts (root_cred L ee p c) = (if ee_ucounts ee = None then cr_ucounts c else rp_uid p)"
  "cr_cap_effective (root_cred L ee p c) = rp_cap_effective p"
  "cr_cap_permitted (root_cred L ee p c) = rp_cap_effective p"
  "cr_cap_bset (root_cred L ee p c) = rp_cap_effective p"
  "cr_cap_inheritable (root_cred L ee p c) = cr_cap_inheritable c"
  "cr_security (root_cred L ee p c) = setup_selinux L (rp_selinux_domain p) (cr_security c)"
  by (simp_all add: root_cred_def root_ids_def root_caps_def Let_def)

lemma root_cred_groups:
  "cr_groups (root_cred L ee p c) = cr_groups (setup_groups ee p c)"
  by (simp add: root_cred_def root_ids_def root_caps_def Let_def setup_groups_groups)

lemma find_disable_seccomp:
  "find_thread pid (disable_seccomp ee pid k) =
     map_option (\<lambda>t. if ee_fake ee then t\<lparr>th_seccomp_work := False, th_seccomp_mode := 0,
                th_filter := None, th_filter_count := 0\<rparr> else t) (find_thread pid k)"
  by (auto simp: disable_seccomp_def find_update_thread split: option.split)

text \<open>The task a committed escape leaves.\<close>

definition escaped :: "lsm \<Rightarrow> escape_env \<Rightarrow> root_profile \<Rightarrow> thread \<Rightarrow> thread" where
  "escaped L ee p t =
     (let t1 = t\<lparr>th_cred := root_cred L ee p (th_cred t)\<rparr>;
          t2 = (if ee_fake ee then t1\<lparr>th_seccomp_work := False, th_seccomp_mode := 0,
                  th_filter := None, th_filter_count := 0\<rparr> else t1);
          t3 = (if rp_flags p AND FLAG_KSU_NO_NEW_PRIVS \<noteq> 0 then t2\<lparr>th_no_escape := True\<rparr> else t2)
      in setup_mount_ns (rp_namespaces p) (ee_ns ee) (set_flag t3))"

lemma escape_cases:
  assumes "al_reach E (h, al)" "find_thread pid k = Some t"
  obtains al' where "al_reach E (h, al')" "al_profile E al' = al_profile E al"
    "escape_with_root_profile E m L ee pid (al, k) =
      (if \<not> ee_prepare ee then Some (Inl ENOMEM, al, k)
       else if cr_euid (th_cred t) = 0 then Some (Inr (), al, k)
       else if th_no_escape t then Some (Inr (), al, k)
       else if \<not> ee_alloc_uid ee then Some (Inl ENOMEM, al', k)
       else if ee_ucounts ee = Some False then Some (Inr (), al', k)
       else let p = root_spec E m (cr_uid (th_cred t)) al;
                k1 = update_thread pid (\<lambda>t'. t'\<lparr>th_cred := root_cred L ee p (th_cred t)\<rparr>) k;
                k2 = disable_seccomp ee pid k1;
                k3 = (if rp_flags p AND FLAG_KSU_NO_NEW_PRIVS \<noteq> 0
                      then update_thread pid (\<lambda>t. t\<lparr>th_no_escape := True\<rparr>) k2 else k2);
                k4 = update_threads (\<lambda>u. th_tgid u = th_tgid t) set_flag k3
            in Some (Inr (), al', update_thread pid (setup_mount_ns (rp_namespaces p) (ee_ns ee)) k4))"
proof -
  have inv: "al_inv E h al" using al_reach_inv [OF assms(1)] by simp
  obtain r al1 where g: "ksu_get_root_profile E m (cr_uid (th_cred t)) al = Some (r, al1)"
    "root_profile_of r al1 = Some (root_spec E m (cr_uid (th_cred t)) al)"
    by (rule get_root_profile_spec [OF inv])
  show ?thesis
  proof (rule that [of "ksu_put_root_profile r al1"])
    show "al_reach E (h, ksu_put_root_profile r al1)" by (rule get_put_root_reach [OF assms(1) g(1)])
    show "al_profile E (ksu_put_root_profile r al1) = al_profile E al"
      by (rule put_root_profile_map [OF inv g(1)])
  qed (simp only: escape_with_root_profile_def assms(2) g Let_def prod.case option.case)
qed

lemma escape_granted:
  assumes "al_reach E (h, al)" "find_thread pid k = Some t"
    and "cr_euid (th_cred t) \<noteq> 0" "\<not> th_no_escape t"
    and "ee_prepare ee" "ee_alloc_uid ee" "ee_ucounts ee \<noteq> Some False" "ee_fake ee"
    and "p = root_spec E m (cr_uid (th_cred t)) al"
  obtains al' k' where "escape_with_root_profile E m L ee pid (al, k) = Some (Inr (), al', k')"
    "al_reach E (h, al')" "al_profile E al' = al_profile E al" "find_thread pid k' = Some (escaped L ee p t)"
proof -
  have tg: "th_pid t = pid" using find_thread_Some [OF assms(2)] by simp
  obtain al' where al': "al_reach E (h, al')" "al_profile E al' = al_profile E al"
    and run: "escape_with_root_profile E m L ee pid (al, k) =
      (let k1 = update_thread pid (\<lambda>t'. t'\<lparr>th_cred := root_cred L ee p (th_cred t)\<rparr>) k;
           k2 = disable_seccomp ee pid k1;
           k3 = (if rp_flags p AND FLAG_KSU_NO_NEW_PRIVS \<noteq> 0
                 then update_thread pid (\<lambda>t. t\<lparr>th_no_escape := True\<rparr>) k2 else k2);
           k4 = update_threads (\<lambda>u. th_tgid u = th_tgid t) set_flag k3
       in Some (Inr (), al', update_thread pid (setup_mount_ns (rp_namespaces p) (ee_ns ee)) k4))"
    by (rule escape_cases [OF assms(1,2), of m L ee]) (use assms(3-9) in \<open>simp add: Let_def\<close>)
  obtain k' where k': "escape_with_root_profile E m L ee pid (al, k) = Some (Inr (), al', k')"
    and f: "find_thread pid k' = Some (escaped L ee p t)"
    unfolding run Let_def
    by (simp add: find_update_thread find_thread_update find_disable_seccomp assms(2,8)
        escaped_def Let_def)
  show ?thesis by (rule that [OF k' al' f])
qed

section \<open>Properties\<close>


definition ex_ns :: ns_env where
  "ex_ns = \<lparr>ns_pwd_buf = True, ns_d_path = Some (lit ''/data''), ns_pid1 = True, ns_pid1_task = True,
     ns_get_path = True, ns_open = True, ns_fd = True, ns_setns = True, ns_pwd_exists = (\<lambda>_. True),
     ns_unshare = True, ns_make_private = True, ns_init = 1, ns_fresh = 77\<rparr>"

definition ex_escape :: escape_env where
  "ex_escape = \<lparr>ee_prepare = True, ee_alloc_uid = True, ee_ucounts = Some True,
     ee_groups_alloc = True, ee_gid_valid = (\<lambda>_. True), ee_fake = True, ee_ns = ex_ns\<rparr>"

lemma ex_thread_simps:
  "cr_euid (th_cred (ex_thread pid u)) = u" "cr_uid (th_cred (ex_thread pid u)) = u"
  "\<not> th_no_escape (ex_thread pid u)"
  by (simp_all add: ex_thread_def ex_cred_def)

lemma ex_root_spec:
  "root_spec ex_env 0xFFFFFFFF 10001 (ex_list 10001 True) =
     zero_root_profile\<lparr>rp_selinux_domain := strscpy_pad KSU_DEFAULT_SELINUX_DOMAIN 64\<rparr>"
  by (simp add: root_spec_def ex_list_profile is_uid_manager_def) (simp add: ex_app_def)


text \<open>
  An escape that does not happen changes nothing. It always returns; when the credentials
  cannot be prepared, the caller is already root or barred from escaping, or the user accounting
  fails, every task is left as it was and no reference to a profile leaks. The code is
  \<open>ENOMEM\<close> for the two allocations and zero otherwise, also when \<open>set_cred_ucounts\<close> fails.
\<close>

theorem escape_refused_unchanged:
  assumes "al_reach E (h, al)" "find_thread pid k = Some t"
    and "\<not> ee_prepare ee \<or> cr_euid (th_cred t) = 0 \<or> th_no_escape t \<or> \<not> ee_alloc_uid ee \<or>
      ee_ucounts ee = Some False"
  shows "\<exists>al'. escape_with_root_profile E m L ee pid (al, k) =
      Some (if \<not> ee_prepare ee \<or> (cr_euid (th_cred t) \<noteq> 0 \<and> \<not> th_no_escape t \<and> \<not> ee_alloc_uid ee)
            then Inl ENOMEM else Inr (), al', k) \<and>
    al_reach E (h, al') \<and> al_profile E al' = al_profile E al"
  by (rule escape_cases [OF assms(1,2), of m L ee]) (use assms(1,3) in auto)

lemma escape_refused_unchanged_witness:
  "\<exists>al'. escape_with_root_profile ex_env 0xFFFFFFFF ex_lsm (ex_escape\<lparr>ee_ucounts := Some False\<rparr>) 100
     (ex_list 10001 True, ex_kernel) = Some (Inr (), al', ex_kernel)"
  using escape_refused_unchanged [OF ex_list_reach ex_find,
      where m = "0xFFFFFFFF" and L = ex_lsm and ee = "ex_escape\<lparr>ee_ucounts := Some False\<rparr>"]
  by (auto simp: ex_escape_def)

text \<open>
  The no-new-privileges flag is final. Once a task has escaped with a profile that carries
  it, no later escape changes any task, whatever the allowlist and the kernel then answer.
\<close>

theorem no_new_privs_final:
  assumes "al_reach E (h, al)" "find_thread pid k = Some t"
    and "cr_euid (th_cred t) \<noteq> 0" "\<not> th_no_escape t"
    and "rp_flags (root_spec E m (cr_uid (th_cred t)) al) AND FLAG_KSU_NO_NEW_PRIVS \<noteq> 0"
    and "escape_with_root_profile E m L ee pid (al, k) = Some (res, al', k')" "k' \<noteq> k"
  shows "\<exists>r. escape_with_root_profile E' m' L' ee' pid (al2, k') = Some (r, al2, k')"
proof -
  let ?p = "root_spec E m (cr_uid (th_cred t)) al"
  obtain al1 where al1: "al_reach E (h, al1)" and
    run: "escape_with_root_profile E m L ee pid (al, k) =
      (if \<not> ee_prepare ee then Some (Inl ENOMEM, al, k)
       else if cr_euid (th_cred t) = 0 then Some (Inr (), al, k)
       else if th_no_escape t then Some (Inr (), al, k)
       else if \<not> ee_alloc_uid ee then Some (Inl ENOMEM, al1, k)
       else if ee_ucounts ee = Some False then Some (Inr (), al1, k)
       else let p = ?p;
                k1 = update_thread pid (\<lambda>t'. t'\<lparr>th_cred := root_cred L ee p (th_cred t)\<rparr>) k;
                k2 = disable_seccomp ee pid k1;
                k3 = (if rp_flags p AND FLAG_KSU_NO_NEW_PRIVS \<noteq> 0
                      then update_thread pid (\<lambda>t. t\<lparr>th_no_escape := True\<rparr>) k2 else k2);
                k4 = update_threads (\<lambda>u. th_tgid u = th_tgid t) set_flag k3
            in Some (Inr (), al1, update_thread pid (setup_mount_ns (rp_namespaces p) (ee_ns ee)) k4))"
    by (rule escape_cases [OF assms(1,2), of m L ee])
  have "k' = update_thread pid (setup_mount_ns (rp_namespaces ?p) (ee_ns ee))
      (update_threads (\<lambda>u. th_tgid u = th_tgid t) set_flag
        (update_thread pid (\<lambda>t. t\<lparr>th_no_escape := True\<rparr>)
          (disable_seccomp ee pid (update_thread pid (\<lambda>t'. t'\<lparr>th_cred := root_cred L ee ?p (th_cred t)\<rparr>) k))))"
    using assms(5-7) unfolding run Let_def by (simp split: if_splits)
  then have "\<exists>t'. find_thread pid k' = Some t' \<and> th_no_escape t'"
    by (simp add: find_update_thread find_thread_update find_disable_seccomp assms(2))
  then show ?thesis by (auto simp: escape_with_root_profile_def Let_def)
qed

text \<open>The sample profile with the flag set.\<close>

definition ex_nnp :: allowlist where
  "ex_nnp = snd (ksu_set_app_profile ex_env False
     ((ex_app 10001 True)\<lparr>ap_root := (ap_root (ex_app 10001 True))\<lparr>rp_flags := 1\<rparr>\<rparr>) (ksu_allowlist_init 0 None))"

lemma ex_nnp_facts:
  "al_reach ex_env ((\<lambda>_. 0), ex_nnp)" "rp_flags (root_spec ex_env 0xFFFFFFFF 10001 ex_nnp) = 1"
proof -
  let ?p = "(ex_app 10001 True)\<lparr>ap_root := (ap_root (ex_app 10001 True))\<lparr>rp_flags := 1\<rparr>\<rparr>"
  have wf: "wf_profile ?p" using wf_ex_app [of 10001 True] by (simp add: wf_profile_def wf_root_profile_def)
  have v: "profile_valid False ?p" using valid_ex_app [of 10001 True]
    by (auto simp: profile_valid_def Let_def split: if_splits)
  show "al_reach ex_env ((\<lambda>_. 0), ex_nnp)"
    unfolding ex_nnp_def by (rule al_reach.step [OF al_reach.start], rule al_step.set [OF wf])
  have "ksu_set_app_profile ex_env False ?p (ksu_allowlist_init 0 None) = (Inr (), ex_nnp)"
    using v by (simp add: ex_nnp_def ksu_set_app_profile_def stored_profile_def find_uid_def
        ksu_allowlist_init_def Let_def)
  from set_profile_ok [OF al_inv_init wf this]
  have "al_profile ex_env ex_nnp 10001 = Some ?p" by (simp add: stored_profile_def)
  then show "rp_flags (root_spec ex_env 0xFFFFFFFF 10001 ex_nnp) = 1"
    by (simp add: root_spec_def is_uid_manager_def)
qed

lemma no_new_privs_final_witness:
  "\<exists>al' k' r. escape_with_root_profile ex_env 0xFFFFFFFF ex_lsm ex_escape 100 (ex_nnp, ex_kernel) =
      Some (Inr (), al', k') \<and> k' \<noteq> ex_kernel \<and>
     escape_with_root_profile ex_env 0xFFFFFFFF ex_lsm ex_escape 100 (al', k') = Some (r, al', k')"
proof -
  have "\<exists>al' k'. escape_with_root_profile ex_env 0xFFFFFFFF ex_lsm ex_escape 100 (ex_nnp, ex_kernel) =
      Some (Inr (), al', k') \<and> (\<exists>t'. find_thread 100 k' = Some t' \<and> th_no_escape t')"
    by (rule escape_cases [OF ex_nnp_facts(1) ex_find, of "0xFFFFFFFF" ex_lsm ex_escape])
      (simp add: ex_escape_def ex_thread_simps ex_nnp_facts(2) Let_def find_update_thread
        find_thread_update find_disable_seccomp ex_find)
  then obtain al' k' t' where run: "escape_with_root_profile ex_env 0xFFFFFFFF ex_lsm ex_escape 100
      (ex_nnp, ex_kernel) = Some (Inr (), al', k')" and t': "find_thread 100 k' = Some t'" "th_no_escape t'"
    by blast
  have ne: "k' \<noteq> ex_kernel" using t' ex_find ex_thread_simps(3) by auto
  have "\<exists>r. escape_with_root_profile ex_env 0xFFFFFFFF ex_lsm ex_escape 100 (al', k') = Some (r, al', k')"
    by (rule no_new_privs_final [OF ex_nnp_facts(1) ex_find _ _ _ run ne])
      (simp_all add: ex_thread_simps ex_nnp_facts(2))
  then show ?thesis using run ne by blast
qed

end
