(* ===== verification/Apk_Sign.thy ===== *)
theory Apk_Sign
  imports Ksu_Prelude "HOL-Library.Monad_Syntax"
begin

text \<open>
  Recognising the manager's package, \<^verbatim>\<open>kernel/manager/apk_sign.c\<close>: the parser of the APK
  signing block, the certificate check, and the package name taken from an APK's path. File
  offsets (\<open>loff_t\<close>) are integers. The digest of the kernel's crypto API is a parameter.
  \<open>apk_layout\<close> states, without offsets, which files the check is to accept.
\<close>

section \<open>Files and hashing\<close>

text \<open>
  An opened file: \<open>af_ok off n\<close> says whether a read of \<open>n\<close> bytes at \<open>off\<close> succeeds, \<open>af_seek\<close>
  whether its size can be determined.
\<close>

record apk_file =
  af_data :: bytes
  af_ok :: "nat \<Rightarrow> nat \<Rightarrow> bool"
  af_seek :: bool

text \<open>The crypto API: allocation of the algorithm and of its descriptor, and the digest.\<close>

record hash_api =
  ha_alloc :: "errno + unit"
  ha_sdesc :: bool
  ha_digest :: "bytes \<Rightarrow> errno + bytes"

definition init_sdesc :: "hash_api \<Rightarrow> errno + unit" where
  "init_sdesc H = (if ha_sdesc H then Inr () else Inl ENOMEM)"

definition calc_hash :: "hash_api \<Rightarrow> bytes \<Rightarrow> errno + bytes" where
  "calc_hash H d = (case init_sdesc H of Inl e \<Rightarrow> Inl e | Inr _ \<Rightarrow> ha_digest H d)"

definition ksu_sha256 :: "hash_api \<Rightarrow> bytes \<Rightarrow> errno + bytes" where
  "ksu_sha256 H d = (case ha_alloc H of Inl e \<Rightarrow> Inl e | Inr _ \<Rightarrow> calc_hash H d)"

definition hex_digit :: "nat \<Rightarrow> u8" where
  "hex_digit n = (if n < 10 then of_nat (48 + n) else of_nat (87 + n))"

definition bin2hex :: "bytes \<Rightarrow> bytes" where
  "bin2hex bs = concat (map (\<lambda>b. [hex_digit (unat b div 16), hex_digit (unat b mod 16)]) bs)"

section \<open>The parser\<close>

abbreviation (input) "INT_MAX \<equiv> (2147483647 :: int)"
abbreviation (input) "CERT_MAX_LENGTH \<equiv> (1024 :: int)"
abbreviation (input) "EOCD_MAGIC \<equiv> (0x06054b50 :: u32)"
abbreviation (input) "ZIP64_MAGIC \<equiv> (0x07064b50 :: u32)"
abbreviation (input) "V2_ID \<equiv> (0x7109871a :: u32)"
abbreviation (input) "V3_ID \<equiv> (0xf05368c0 :: u32)"
abbreviation (input) "V31_ID \<equiv> (0x1b93ad61 :: u32)"

definition MAX_COMMENT :: nat where
  "MAX_COMMENT = 65535"

definition BLOCK_MAGIC :: bytes where
  "BLOCK_MAGIC = lit ''APK Sig Block 42''"

definition read_exact :: "apk_file \<Rightarrow> nat \<Rightarrow> int \<Rightarrow> int \<Rightarrow> (bytes \<times> int) option" where
  "read_exact fp n pos lim =
     (if pos < 0 \<or> pos > lim \<or> int n > lim - pos then None
      else if \<not> af_ok fp (nat pos) n then None
      else let bs = slice (nat pos) n (af_data fp) in
        if length bs = n then Some (bs, pos + int n) else None)"

text \<open>A length prefix: the position behind it and the end of the value.\<close>

definition read_length_prefixed_end :: "apk_file \<Rightarrow> int \<Rightarrow> int \<Rightarrow> (int \<times> int) option" where
  "read_length_prefixed_end fp pos lim = do {
     (b, pos1) \<leftarrow> read_exact fp 4 pos lim;
     let len = uint (get32 0 b);
     if len > INT_MAX \<or> len > lim - pos1 then None else Some (pos1, pos1 + len) }"

definition hash_matches :: "hash_api \<Rightarrow> bytes \<Rightarrow> bytes \<Rightarrow> bool" where
  "hash_matches H expected cert =
     (case ksu_sha256 H cert of
        Inl _ \<Rightarrow> False
      | Inr digest \<Rightarrow> str_eq expected (take 64 (bin2hex digest) @ [0]))"

definition check_block :: "hash_api \<Rightarrow> u32 \<Rightarrow> bytes \<Rightarrow> apk_file \<Rightarrow> int \<Rightarrow> int \<Rightarrow> bool" where
  "check_block H expected_size expected fp pos block_end =
     (do {
        (pos1, signers_end) \<leftarrow> read_length_prefixed_end fp pos block_end;
        (pos2, signer_end) \<leftarrow> read_length_prefixed_end fp pos1 signers_end;
        (pos3, signed_data_end) \<leftarrow> read_length_prefixed_end fp pos2 signer_end;
        (pos4, digests_end) \<leftarrow> read_length_prefixed_end fp pos3 signed_data_end;
        (pos5, certificates_end) \<leftarrow> read_length_prefixed_end fp digests_end signed_data_end;
        (b, pos6) \<leftarrow> read_exact fp 4 pos5 certificates_end;
        let certificate_size = uint (get32 0 b);
        if certificate_size > INT_MAX \<or> certificate_size > certificates_end - pos6 then None
        else if certificate_size \<noteq> uint expected_size then None
        else if certificate_size > CERT_MAX_LENGTH then None
        else do {
          (cert, _) \<leftarrow> read_exact fp (nat certificate_size) pos6 certificates_end;
          Some (hash_matches H expected cert) } } = Some True)"

text \<open>
  The search for the end-of-central-directory record: \<open>i\<close> is the tried length of the archive
  comment, counted up from zero.
\<close>

function find_eocd :: "apk_file \<Rightarrow> int \<Rightarrow> nat \<Rightarrow> int option" where
  "find_eocd fp file_size i =
     (case read_exact fp 2 (file_size - int i - 2) file_size of
        None \<Rightarrow> None
      | Some (b, pos) \<Rightarrow>
          (if le_dec b = i then
             (case read_exact fp 4 (pos - 22) file_size of
                None \<Rightarrow> None
              | Some (m, pos1) \<Rightarrow>
                  if get32 0 m = EOCD_MAGIC then Some (pos1 - 4)
                  else if i \<ge> MAX_COMMENT then None
                  else find_eocd fp file_size (i + 1))
           else if i \<ge> MAX_COMMENT then None
           else find_eocd fp file_size (i + 1)))"
  by pat_completeness auto
termination
  by (relation "measure (\<lambda>(fp, sz, i). Suc MAX_COMMENT - i)") auto

declare find_eocd.simps [simp del]

record block_scan =
  bs_valid :: bool
  bs_v2 :: nat
  bs_v3 :: bool
  bs_v31 :: bool

definition no_blocks :: block_scan where
  "no_blocks = \<lparr>bs_valid = False, bs_v2 = 0, bs_v3 = False, bs_v31 = False\<rparr>"

definition scan_pair ::
    "hash_api \<Rightarrow> u32 \<Rightarrow> bytes \<Rightarrow> apk_file \<Rightarrow> u32 \<Rightarrow> int \<Rightarrow> int \<Rightarrow> block_scan \<Rightarrow> block_scan" where
  "scan_pair H sz ex fp pid pos pair_end s =
     (if pid = V2_ID then s\<lparr>bs_v2 := bs_v2 s + 1, bs_valid := check_block H sz ex fp pos pair_end\<rparr>
      else if pid = V3_ID then s\<lparr>bs_v3 := True\<rparr>
      else if pid = V31_ID then s\<lparr>bs_v31 := True\<rparr>
      else s)"

text \<open>The loop over the pairs of the signing block; \<open>None\<close> is the jump to \<open>invalid\<close>.\<close>

function pairs_loop ::
    "hash_api \<Rightarrow> u32 \<Rightarrow> bytes \<Rightarrow> apk_file \<Rightarrow> int \<Rightarrow> int \<Rightarrow> block_scan \<Rightarrow> block_scan option" where
  "pairs_loop H sz ex fp pairs_end pos s =
     (if pos < pairs_end then
        (case read_exact fp 8 pos pairs_end of
           None \<Rightarrow> None
         | Some (b, pos1) \<Rightarrow>
             (let size_of_pair = uint (get64 0 b) in
              if size_of_pair < 4 \<or> size_of_pair > INT_MAX \<or> size_of_pair > pairs_end - pos1 then None
              else
                (case read_exact fp 4 pos1 (pos1 + size_of_pair) of
                   None \<Rightarrow> None
                 | Some (c, pos2) \<Rightarrow>
                     pairs_loop H sz ex fp pairs_end (pos1 + size_of_pair)
                       (scan_pair H sz ex fp (get32 0 c) pos2 (pos1 + size_of_pair) s))))
      else Some s)"
  by pat_completeness auto
termination
  by (relation "measure (\<lambda>(H, sz, ex, fp, e, pos, s). nat (e - pos))")
     (auto simp: read_exact_def Let_def split: if_splits)

declare pairs_loop.simps [simp del]

text \<open>The whole check; \<open>None\<close> is a file that cannot be opened.\<close>

definition scan_verdict :: "block_scan option \<Rightarrow> bool" where
  "scan_verdict r =
     (case r of
        None \<Rightarrow> False
      | Some s \<Rightarrow> bs_v2 s = 1 \<and> bs_valid s \<and> \<not> (bs_v3 s \<or> bs_v31 s))"

definition zip64_ok :: "apk_file \<Rightarrow> int \<Rightarrow> int \<Rightarrow> bool" where
  "zip64_ok fp eocd file_size =
     (if eocd \<ge> 20 then
        (case read_exact fp 4 (eocd - 20) file_size of
           None \<Rightarrow> False
         | Some (m, _) \<Rightarrow> get32 0 m \<noteq> ZIP64_MAGIC)
      else True)"

definition check_v2_signature ::
    "hash_api \<Rightarrow> u32 \<Rightarrow> bytes \<Rightarrow> apk_file option \<Rightarrow> bool" where
  "check_v2_signature H sz ex ofp =
     (case ofp of
        None \<Rightarrow> False
      | Some fp \<Rightarrow>
          if \<not> af_seek fp then False
          else scan_verdict (do {
            let file_size = int (length (af_data fp));
            eocd \<leftarrow> find_eocd fp file_size 0;
            if \<not> zip64_ok fp eocd file_size then None else do {
            (b, pos1) \<leftarrow> read_exact fp 4 (eocd + 12) file_size;
            (c, pos2) \<leftarrow> read_exact fp 4 pos1 file_size;
            let cd_size = uint (get32 0 b);
            let cd_offset = uint (get32 0 c);
            if cd_offset > eocd \<or> cd_size \<noteq> eocd - cd_offset then None
            else if cd_offset < 32 then None
            else do {
            let pairs_end = cd_offset - 24;
            (d, pos3) \<leftarrow> read_exact fp 8 pairs_end cd_offset;
            (buffer, pos4) \<leftarrow> read_exact fp 16 pos3 cd_offset;
            let size_of_block = uint (get64 0 d);
            if buffer \<noteq> BLOCK_MAGIC then None
            else if size_of_block < 24 \<or> size_of_block > INT_MAX - 8 \<or> size_of_block > cd_offset - 8
            then None
            else do {
            (e, pos5) \<leftarrow> read_exact fp 8 (cd_offset - size_of_block - 8) pairs_end;
            if uint (get64 0 e) \<noteq> size_of_block then None
            else pairs_loop H sz ex fp pairs_end pos5 no_blocks } } } }))"

section \<open>Files as lists\<close>

text \<open>A file every read of which succeeds.\<close>

definition disk_file :: "bytes \<Rightarrow> apk_file" where
  "disk_file d = \<lparr>af_data = d, af_ok = (\<lambda>_ _. True), af_seek = True\<rparr>"

text \<open>The bytes between two offsets.\<close>

definition seg :: "bytes \<Rightarrow> nat \<Rightarrow> nat \<Rightarrow> bytes" where
  "seg d a b = slice a (b - a) d"

definition prefixed :: "bytes \<Rightarrow> bytes" where
  "prefixed x = le32 (of_nat (length x)) @ x"

text \<open>Taking a length-prefixed value off a list.\<close>

definition split_prefixed :: "bytes \<Rightarrow> (bytes \<times> bytes) option" where
  "split_prefixed bs =
     (if length bs < 4 then None
      else let n = unat (get32 0 bs) in
        if n \<le> 2147483647 \<and> n \<le> length bs - 4 then Some (slice 4 n bs, drop (4 + n) bs) else None)"

lemma length_seg [simp]: "a \<le> b \<Longrightarrow> b \<le> length d \<Longrightarrow> length (seg d a b) = b - a"
  by (simp add: seg_def slice_def)

lemma seg_split: "a \<le> b \<Longrightarrow> b \<le> c \<Longrightarrow> seg d a c = seg d a b @ seg d b c"
proof -
  assume "a \<le> b" "b \<le> c"
  then have c: "c - a = (b - a) + (c - b)" by simp
  show ?thesis
    unfolding seg_def slice_def c take_add drop_drop using \<open>a \<le> b\<close> by simp
qed

lemma seg_all: "seg d 0 (length d) = d"
  by (simp add: seg_def slice_def)

lemma seg_same [simp]: "seg d a a = []"
  by (simp add: seg_def slice_def)

lemma seg_seg: "a + y \<le> b \<Longrightarrow> x \<le> y \<Longrightarrow> seg (seg d a b) x y = seg d (a + x) (a + y)"
  by (simp add: seg_def slice_def drop_take min_def add.commute)

lemma take_seg: "a + n \<le> b \<Longrightarrow> take n (seg d a b) = seg d a (a + n)"
  by (simp add: seg_def slice_def min_def)

lemma drop_seg: "drop n (seg d a b) = seg d (a + n) b"
  by (simp add: seg_def slice_def drop_take add.commute)

lemma le32_get32: "length bs = 4 \<Longrightarrow> le32 (get32 0 bs) = bs"
  using le_enc_dec [of bs] le_dec_bound [of bs]
  by (simp add: le32_def get32_def slice_def unat_of_nat)

lemma le64_get64: "length bs = 8 \<Longrightarrow> le64 (get64 0 bs) = bs"
  using le_enc_dec [of bs] le_dec_bound [of bs]
  by (simp add: le64_def get64_def slice_def unat_of_nat)

lemma get32_front [simp]: "get32 0 (le32 w @ q) = w"
  by (simp add: get32_def slice_0_append)

lemma get64_front [simp]: "get64 0 (le64 w @ q) = w"
  by (simp add: get64_def slice_0_append)

lemma read_exact_Some:
  "read_exact fp n pos lim = Some (bs, p) \<longleftrightarrow>
     0 \<le> pos \<and> pos + int n \<le> lim \<and> af_ok fp (nat pos) n \<and> (n = 0 \<or> nat pos + n \<le> length (af_data fp)) \<and>
     bs = seg (af_data fp) (nat pos) (nat pos + n) \<and> p = pos + int n" (is "?l \<longleftrightarrow> ?r")
proof
  assume ?l
  then show ?r
    by (auto simp: read_exact_def seg_def slice_def Let_def min_def split: if_splits)
next
  assume ?r
  then show ?l
    by (auto simp: read_exact_def seg_def slice_def Let_def min_def)
qed

lemma read_exact_disk:
  "b \<le> length d \<Longrightarrow>
   read_exact (disk_file d) n (int a) (int b) =
     (if a + n \<le> b then Some (seg d a (a + n), int (a + n)) else None)"
  by (auto simp: read_exact_def disk_file_def seg_def slice_def Let_def min_def)

lemma prefixed_split:
  "split_prefixed bs = Some (x, r) \<longleftrightarrow> bs = prefixed x @ r \<and> length x \<le> 2147483647"
  (is "?l \<longleftrightarrow> ?r")
proof
  assume l: ?l
  then have len: "4 \<le> length bs" and x: "x = slice 4 (unat (get32 0 bs)) bs"
    and r: "r = drop (4 + unat (get32 0 bs)) bs"
    and n: "unat (get32 0 bs) \<le> 2147483647" "unat (get32 0 bs) \<le> length bs - 4"
    by (auto simp: split_prefixed_def Let_def split: if_splits)
  have lx: "length x = unat (get32 0 bs)"
    using n(2) by (simp add: x slice_def)
  have "take 4 bs = le32 (of_nat (length x))"
    using le32_get32 [of "take 4 bs"] len by (simp add: lx get32_def slice_def)
  moreover have "drop 4 bs = x @ r"
    using append_take_drop_id [of "unat (get32 0 bs)" "drop 4 bs"]
    by (simp add: x r slice_def add.commute)
  ultimately have "bs = prefixed x @ r"
    by (metis append_take_drop_id append.assoc prefixed_def)
  then show ?r using n(1) lx by simp
next
  assume r: ?r
  then have bs: "bs = le32 (of_nat (length x)) @ x @ r" by (simp add: prefixed_def)
  have u: "unat (of_nat (length x) :: u32) = length x"
    using r by (simp add: unat_of_nat)
  show ?l using r unfolding bs by (simp add: split_prefixed_def u Let_def slice_def)
qed

lemma read_at:
  "x = int a \<Longrightarrow> a + n = c \<Longrightarrow> c \<le> b \<Longrightarrow> b \<le> length d \<Longrightarrow>
   read_exact (disk_file d) n x (int b) = Some (seg d a c, int c)"
  using read_exact_disk [of b d n a] by simp

lemma read_length_prefixed_disk:
  assumes "a \<le> b" "b \<le> length d"
  shows "read_length_prefixed_end (disk_file d) (int a) (int b) =
    (case split_prefixed (seg d a b) of
       None \<Rightarrow> None
     | Some (x, r) \<Rightarrow> Some (int (a + 4), int (a + 4 + length x)))"
proof (cases "a + 4 \<le> b")
  case True
  have t: "take 4 (seg d a b) = seg d a (a + 4)"
    using True by (simp add: take_seg)
  have g: "get32 0 (seg d a b) = get32 0 (seg d a (a + 4))"
    using True assms by (simp add: get32_def slice_def t)
  have l: "length (seg d a b) = b - a"
    using assms by simp
  define n where "n = unat (get32 0 (seg d a (a + 4)))"
  have u: "uint (get32 0 (seg d a (a + 4))) = int n"
    by (simp add: n_def)
  have "read_length_prefixed_end (disk_file d) (int a) (int b) =
      (if int n > INT_MAX \<or> int n > int b - int (a + 4) then None
       else Some (int (a + 4), int (a + 4) + int n))"
    using True assms by (simp add: read_length_prefixed_end_def read_exact_disk u)
  also have "\<dots> = (if n \<le> 2147483647 \<and> n \<le> b - a - 4 then Some (int (a + 4), int (a + 4 + n)) else None)"
    using True by auto
  also have "\<dots> = (case split_prefixed (seg d a b) of
      None \<Rightarrow> None | Some (x, r) \<Rightarrow> Some (int (a + 4), int (a + 4 + length x)))"
    using True assms l
    by (auto simp: split_prefixed_def Let_def g n_def [symmetric] slice_def not_less)
  finally show ?thesis .
next
  case False
  then show ?thesis
    using assms by (auto simp: read_length_prefixed_end_def read_exact_disk split_prefixed_def)
qed

text \<open>
  The value of a v2 block: its first signer's signed data holds, after the digests, the
  certificates, and \<open>cert\<close> is the first of them. Anything may follow each value.
\<close>

definition v2_value :: "bytes \<Rightarrow> bytes \<Rightarrow> bool" where
  "v2_value v cert \<longleftrightarrow>
     length v \<le> 2147483647 \<and>
     (\<exists>digests r1 r2 r3 r4 r5.
        v = prefixed (prefixed (prefixed (prefixed digests @ prefixed (prefixed cert @ r1) @ r2) @ r3)
              @ r4) @ r5)"

definition first_cert :: "bytes \<Rightarrow> bytes option" where
  "first_cert v = do {
     (signers, _) \<leftarrow> split_prefixed v;
     (signer, _) \<leftarrow> split_prefixed signers;
     (signed_data, _) \<leftarrow> split_prefixed signer;
     (digests, r) \<leftarrow> split_prefixed signed_data;
     (certs, _) \<leftarrow> split_prefixed r;
     (cert, _) \<leftarrow> split_prefixed certs;
     Some cert }"

text \<open>The certificate is the expected one.\<close>

definition cert_ok :: "hash_api \<Rightarrow> u32 \<Rightarrow> bytes \<Rightarrow> bytes \<Rightarrow> bool" where
  "cert_ok H sz ex cert \<longleftrightarrow>
     int (length cert) = uint sz \<and> int (length cert) \<le> CERT_MAX_LENGTH \<and> hash_matches H ex cert"

lemma length_prefixed: "length (prefixed x) = 4 + length x"
  by (simp add: prefixed_def)

lemma split_prefixed_prefixed [simp]:
  "length x \<le> 2147483647 \<Longrightarrow> split_prefixed (prefixed x @ r) = Some (x, r)"
  by (simp add: prefixed_split)

lemma first_cert_iff:
  assumes "length v \<le> 2147483647"
  shows "first_cert v = Some cert \<longleftrightarrow> v2_value v cert" (is "?l \<longleftrightarrow> ?r")
proof
  assume ?l
  then obtain signers r5 signer r4 sdata r3 digests r certs r2 r1 where
    "split_prefixed v = Some (signers, r5)" "split_prefixed signers = Some (signer, r4)"
    "split_prefixed signer = Some (sdata, r3)" "split_prefixed sdata = Some (digests, r)"
    "split_prefixed r = Some (certs, r2)" "split_prefixed certs = Some (cert, r1)"
    by (auto simp: first_cert_def split: Option.bind_splits)
  then have "v = prefixed (prefixed (prefixed (prefixed digests @ prefixed (prefixed cert @ r1) @ r2) @ r3)
      @ r4) @ r5"
    by (simp add: prefixed_split)
  then show ?r unfolding v2_value_def using assms by blast
next
  assume ?r
  then obtain digests r1 r2 r3 r4 r5 where v: "v = prefixed (prefixed (prefixed
      (prefixed digests @ prefixed (prefixed cert @ r1) @ r2) @ r3) @ r4) @ r5"
    unfolding v2_value_def by blast
  have "length v \<le> 2147483647" by (fact assms)
  then show ?l
    unfolding v by (simp add: first_cert_def length_prefixed)
qed

text \<open>Where the parts of a segment lie.\<close>

lemma split_seg:
  assumes "split_prefixed (seg d a b) = Some (x, r)" "a \<le> b" "b \<le> length d"
  shows "a + 4 + length x \<le> b \<and> x = seg d (a + 4) (a + 4 + length x) \<and> r = seg d (a + 4 + length x) b"
proof -
  have e: "seg d a b = prefixed x @ r" using assms(1) by (simp add: prefixed_split)
  have l: "b - a = 4 + length x + length r"
    using arg_cong [OF e, of length] assms by (simp add: length_prefixed)
  then have le: "a + 4 + length x \<le> b" using assms(2) by linarith
  have "r = drop (4 + length x) (seg d a b)"
    by (simp add: e prefixed_def)
  then have r: "r = seg d (a + 4 + length x) b" by (simp add: drop_seg add.assoc)
  have "x = drop 4 (take (4 + length x) (seg d a b))"
    by (simp add: e prefixed_def)
  then have "x = seg d (a + 4) (a + 4 + length x)"
    using le by (simp add: take_seg drop_seg add.assoc)
  with le r show ?thesis by simp
qed

text \<open>The parser by offsets finds what the parser of lists finds.\<close>

lemma read_prefixed_cases:
  assumes "a \<le> b" "b \<le> length d"
  obtains (fail) "split_prefixed (seg d a b) = None" "read_length_prefixed_end (disk_file d) (int a) (int b) = None"
  | (ok) e where "split_prefixed (seg d a b) = Some (seg d (a + 4) e, seg d e b)"
      "read_length_prefixed_end (disk_file d) (int a) (int b) = Some (int (a + 4), int e)"
      "a + 4 \<le> e" "e \<le> b"
proof (cases "split_prefixed (seg d a b)")
  case None
  then show ?thesis using fail assms by (simp add: read_length_prefixed_disk)
next
  case (Some xr)
  obtain x r where xr: "xr = (x, r)" by (cases xr)
  have s: "split_prefixed (seg d a b) = Some (x, r)" using Some xr by simp
  note p = split_seg [OF s assms]
  show ?thesis
  proof (rule ok [of "a + 4 + length x"])
    show "split_prefixed (seg d a b) = Some (seg d (a + 4) (a + 4 + length x), seg d (a + 4 + length x) b)"
      using s p by simp
    show "read_length_prefixed_end (disk_file d) (int a) (int b) = Some (int (a + 4), int (a + 4 + length x))"
      using s assms by (simp add: read_length_prefixed_disk)
    show "a + 4 + length x \<le> b" using p by simp
  qed simp
qed

lemma length_then:
  "do { (b, p) \<leftarrow> read_exact fp 4 pos lim;
        let n = uint (get32 0 b);
        if n > INT_MAX \<or> n > lim - p then None else K n p } =
   do { (p, e) \<leftarrow> read_length_prefixed_end fp pos lim; K (e - p) p }"
  by (auto simp: read_length_prefixed_end_def Let_def split: Option.bind_splits)

definition cert_found :: "hash_api \<Rightarrow> u32 \<Rightarrow> bytes \<Rightarrow> bytes option \<Rightarrow> bool" where
  "cert_found H sz ex o' = (case o' of None \<Rightarrow> False | Some cert \<Rightarrow> cert_ok H sz ex cert)"

lemma cert_found_simps [simp]:
  "cert_found H sz ex None = False" "cert_found H sz ex (Some c) = cert_ok H sz ex c"
  by (simp_all add: cert_found_def)

lemma read_cert:
  assumes "a \<le> e" "e \<le> b" "b \<le> length d"
  shows "(if int e - int a \<noteq> uint sz then None
          else if int e - int a > CERT_MAX_LENGTH then None
          else do { (cert, _) \<leftarrow> read_exact (disk_file d) (nat (int e - int a)) (int a) (int b);
                    Some (hash_matches H ex cert) }) = Some True \<longleftrightarrow>
     cert_found H sz ex (Some (seg d a e))"
proof -
  obtain n where e: "e = a + n" using assms(1) le_Suc_ex by blast
  have d: "int e - int a = int n" by (simp add: e)
  have l: "length (seg d a e) = n" using assms by (simp add: e)
  show ?thesis
    unfolding d nat_int cert_found_simps cert_ok_def l using assms by (auto simp: read_exact_disk e)
qed

lemma bind_prefixed:
  assumes "a \<le> b" "b \<le> length d"
    and "\<And>e. a + 4 \<le> e \<Longrightarrow> e \<le> b \<Longrightarrow> e \<le> length d \<Longrightarrow>
      K (int (a + 4), int e) = Some True \<longleftrightarrow> cert_found H sz ex (L (seg d (a + 4) e, seg d e b))"
  shows "(read_length_prefixed_end (disk_file d) (int a) (int b) \<bind> K) = Some True \<longleftrightarrow>
    cert_found H sz ex (split_prefixed (seg d a b) \<bind> L)"
  using assms(1,2)
proof (cases rule: read_prefixed_cases)
  case (ok e)
  then show ?thesis using assms(2) assms(3) [of e] by simp
qed simp

lemma check_block_disk:
  assumes "a \<le> b" "b \<le> length d"
  shows "check_block H sz ex (disk_file d) (int a) (int b) \<longleftrightarrow>
    cert_found H sz ex (first_cert (seg d a b))"
  unfolding check_block_def first_cert_def length_then
  using assms
  apply (rule bind_prefixed)
  apply (simp only: prod.case)
  apply (rule bind_prefixed, assumption, assumption)
  apply (simp only: prod.case)
  apply (rule bind_prefixed, assumption, assumption)
  apply (simp only: prod.case)
  apply (rule bind_prefixed, assumption, assumption)
  apply (simp only: prod.case)
  apply (rule bind_prefixed, assumption, assumption)
  apply (simp only: prod.case)
  apply (rule bind_prefixed, assumption, assumption)
  apply (simp only: prod.case)
  apply (rule read_cert, assumption+)
  done

text \<open>A pair of the signing block, and what the loop notes of it.\<close>

type_synonym sig_pair = "u32 \<times> bytes"

definition pair_image :: "sig_pair \<Rightarrow> bytes" where
  "pair_image p = le64 (of_nat (4 + length (snd p))) @ le32 (fst p) @ snd p"

definition split_pair :: "bytes \<Rightarrow> (sig_pair \<times> bytes) option" where
  "split_pair bs =
     (if length bs < 8 then None
      else let n = unat (get64 0 bs) in
        if 4 \<le> n \<and> n \<le> 2147483647 \<and> n \<le> length bs - 8
        then Some ((get32 8 bs, slice 12 (n - 4) bs), drop (8 + n) bs) else None)"

definition note_pair :: "hash_api \<Rightarrow> u32 \<Rightarrow> bytes \<Rightarrow> block_scan \<Rightarrow> sig_pair \<Rightarrow> block_scan" where
  "note_pair H sz ex s p =
     (if fst p = V2_ID then s\<lparr>bs_v2 := bs_v2 s + 1, bs_valid := cert_found H sz ex (first_cert (snd p))\<rparr>
      else if fst p = V3_ID then s\<lparr>bs_v3 := True\<rparr>
      else if fst p = V31_ID then s\<lparr>bs_v31 := True\<rparr>
      else s)"

lemma length_pair_image [simp]: "length (pair_image p) = 12 + length (snd p)"
  by (simp add: pair_image_def)

lemma split_pair_iff:
  "split_pair bs = Some (p, r) \<longleftrightarrow> bs = pair_image p @ r \<and> length (snd p) \<le> 2147483643"
  (is "?l \<longleftrightarrow> ?r")
proof
  assume l: ?l
  define n where "n = unat (get64 0 bs)"
  have n: "8 \<le> length bs" "4 \<le> n" "n \<le> 2147483647" "n \<le> length bs - 8"
    and p: "p = (get32 8 bs, slice 12 (n - 4) bs)" and r: "r = drop (8 + n) bs"
    using l by (auto simp: split_pair_def Let_def n_def split: if_splits)
  have lv: "length (snd p) = n - 4" using n by (simp add: p slice_def)
  have w: "of_nat (4 + length (snd p)) = get64 0 bs"
    using n(2) by (simp add: lv n_def)
  have t: "take 8 bs = le64 (get64 0 bs)"
    using le64_get64 [of "take 8 bs"] n(1) by (simp add: get64_def slice_def)
  have "take 4 (drop 8 bs) = le32 (get32 8 bs)"
    using le32_get32 [of "take 4 (drop 8 bs)"] n by (simp add: get32_def slice_def)
  moreover have "drop 12 bs = snd p @ r"
    using n(2) append_take_drop_id [of "n - 4" "drop 12 bs"] by (simp add: p r slice_def)
  moreover have "drop 8 bs = take 4 (drop 8 bs) @ drop 12 bs"
    using append_take_drop_id [of 4 "drop 8 bs"] by simp
  ultimately have "drop 8 bs = le32 (fst p) @ snd p @ r" by (simp add: p)
  then have "bs = pair_image p @ r"
    using append_take_drop_id [of 8 bs] by (simp add: pair_image_def w t del: of_nat_add)
  then show ?r using n(3) lv by simp
next
  assume r: ?r
  then have bs: "bs = le64 (of_nat (4 + length (snd p))) @ le32 (fst p) @ snd p @ r"
    by (simp add: pair_image_def)
  have u: "unat (of_nat (4 + length (snd p)) :: u64) = 4 + length (snd p)"
    using r by (subst unat_of_nat) simp
  have g: "get32 8 bs = fst p" unfolding bs by (simp add: get32_le32)
  have "slice 12 (length (snd p)) bs = snd p"
    unfolding bs by (simp add: slice_def)
  then show ?l
    using r g unfolding split_pair_def Let_def by (simp add: bs u del: of_nat_add)
qed

lemma pairs_loop_step:
  assumes "a < b" "b \<le> length d"
  shows "pairs_loop H sz ex (disk_file d) (int b) (int a) s =
    (case split_pair (seg d a b) of
       None \<Rightarrow> None
     | Some (p, r) \<Rightarrow>
         pairs_loop H sz ex (disk_file d) (int b) (int (a + 12 + length (snd p))) (note_pair H sz ex s p))"
proof (cases "a + 8 \<le> b")
  case True
  define n where "n = unat (get64 0 (seg d a (a + 8)))"
  have u: "uint (get64 0 (seg d a (a + 8))) = int n" by (simp add: n_def)
  have g: "get64 0 (seg d a b) = get64 0 (seg d a (a + 8))"
    using True by (simp add: get64_def slice_def take_seg)
  have l: "length (seg d a b) = b - a" using assms by simp
  show ?thesis
  proof (cases "4 \<le> n \<and> n \<le> 2147483647 \<and> n \<le> b - a - 8")
    case ok: True
    then have le: "a + 8 + n \<le> b" using True by linarith
    define p where "p = (get32 0 (seg d (a + 8) (a + 12)), seg d (a + 12) (a + 8 + n))"
    have lp: "length (snd p) = n - 4" using le assms ok by (simp add: p_def)
    have i: "get32 8 (seg d a b) = fst p"
      using le ok by (simp add: p_def get32_def slice_def drop_seg take_seg)
    have v: "slice 12 (n - 4) (seg d a b) = snd p"
      using le ok by (simp add: p_def slice_def drop_seg take_seg ac_simps)
    have sp: "split_pair (seg d a b) = Some (p, drop (8 + n) (seg d a b))"
      using ok True l i v by (simp add: split_pair_def Let_def g n_def [symmetric])
    have c: "check_block H sz ex (disk_file d) (int (a + 12)) (int (a + 8 + n)) \<longleftrightarrow>
        cert_found H sz ex (first_cert (snd p))"
      using ok le assms by (subst check_block_disk) (auto simp: p_def)
    have sc: "scan_pair H sz ex (disk_file d) (get32 0 (seg d (a + 8) (a + 12))) (int (a + 12)) (int (a + 8 + n)) s
        = note_pair H sz ex s p"
      using c by (simp add: scan_pair_def note_pair_def p_def)
    have e: "int (a + 12 + length (snd p)) = int (a + 8) + int n"
      using ok by (simp add: lp)
    have f: "int (a + 8) + int n = int (a + 8 + n)" by simp
    have r: "read_exact (disk_file d) 4 (int (a + 8)) (int (a + 8 + n)) =
        Some (seg d (a + 8) (a + 12), int (a + 12))"
      using ok le assms by (subst read_exact_disk) (auto simp: add.commute)
    have r8: "read_exact (disk_file d) 8 (int a) (int b) = Some (seg d a (a + 8), int (a + 8))"
      using True assms by (simp add: read_exact_disk)
    have "\<not> (int n < 4 \<or> int n > INT_MAX \<or> int n > int b - int (a + 8))"
      using ok True by auto
    then show ?thesis
      unfolding sp option.case prod.case e f
      by (subst pairs_loop.simps) (simp only: r8 option.case prod.case u Let_def f r sc
          of_nat_less_iff assms(1) if_True if_False)
  next
    case False
    have "split_pair (seg d a b) = None"
      using False l by (auto simp: split_pair_def Let_def g n_def [symmetric])
    moreover have "int n < 4 \<or> int n > INT_MAX \<or> int n > int b - int (a + 8)"
      using False True by auto
    ultimately show ?thesis
      using True assms by (subst pairs_loop.simps) (simp add: read_exact_disk u Let_def)
  qed
next
  case False
  then have "split_pair (seg d a b) = None"
    using assms by (auto simp: split_pair_def)
  then show ?thesis
    using False assms by (subst pairs_loop.simps) (simp add: read_exact_disk)
qed

lemma pairs_loop_disk:
  assumes "a \<le> b" "b \<le> length d"
  shows "pairs_loop H sz ex (disk_file d) (int b) (int a) s = Some s' \<longleftrightarrow>
    (\<exists>ps. seg d a b = concat (map pair_image ps) \<and> (\<forall>p\<in>set ps. length (snd p) \<le> 2147483643) \<and>
          s' = foldl (note_pair H sz ex) s ps)"
  using assms
proof (induction "b - a" arbitrary: a s rule: less_induct)
  case less
  show ?case
  proof (cases "a = b")
    case True
    have "concat (map pair_image ps) = [] \<longleftrightarrow> ps = []" for ps :: "sig_pair list"
      by (cases ps) (auto dest: arg_cong [of _ _ length])
    then show ?thesis using True by (subst pairs_loop.simps) auto
  next
    case False
    then have ab: "a < b" using less.prems by simp
    have rest: "pairs_loop H sz ex (disk_file d) (int b) (int (a + 12 + length (snd p))) t = Some s' \<longleftrightarrow>
        (\<exists>ps. r = concat (map pair_image ps) \<and> (\<forall>p\<in>set ps. length (snd p) \<le> 2147483643) \<and>
          s' = foldl (note_pair H sz ex) t ps)" if e: "seg d a b = pair_image p @ r" for p r t
    proof -
      have "b - a = 12 + length (snd p) + length r"
        using arg_cong [OF e, of length] less.prems by simp
      then have "a + 12 + length (snd p) \<le> b" using ab by linarith
      moreover have "r = seg d (a + 12 + length (snd p)) b"
        using drop_seg [of "12 + length (snd p)" d a b] by (simp add: e add.assoc)
      ultimately show ?thesis using less.hyps [of "a + 12 + length (snd p)"] less.prems ab by simp
    qed
    show ?thesis
    proof (cases "split_pair (seg d a b)")
      case None
      have "seg d a b \<noteq> concat (map pair_image ps)" if "\<forall>p\<in>set ps. length (snd p) \<le> 2147483643" for ps
      proof
        assume e: "seg d a b = concat (map pair_image ps)"
        have "ps \<noteq> []" using arg_cong [OF e, of length] ab less.prems by auto
        then obtain p qs where "ps = p # qs" by (cases ps) auto
        then have "split_pair (seg d a b) = Some (p, concat (map pair_image qs))"
          using e that by (simp add: split_pair_iff)
        with None show False by simp
      qed
      then show ?thesis using None ab less.prems by (auto simp: pairs_loop_step)
    next
      case (Some pr)
      obtain p r where pr: "pr = (p, r)" by (cases pr)
      have e: "seg d a b = pair_image p @ r" and l: "length (snd p) \<le> 2147483643"
        using Some pr by (simp_all add: split_pair_iff)
      have "(\<exists>ps. seg d a b = concat (map pair_image ps) \<and> (\<forall>p\<in>set ps. length (snd p) \<le> 2147483643) \<and>
          s' = foldl (note_pair H sz ex) s ps) \<longleftrightarrow>
        (\<exists>qs. r = concat (map pair_image qs) \<and> (\<forall>p\<in>set qs. length (snd p) \<le> 2147483643) \<and>
          s' = foldl (note_pair H sz ex) (note_pair H sz ex s p) qs)" (is "(\<exists>ps. ?P ps) \<longleftrightarrow> (\<exists>qs. ?Q qs)")
      proof
        assume "\<exists>ps. ?P ps"
        then obtain ps where ps: "?P ps" ..
        have "ps \<noteq> []" using arg_cong [OF conjunct1 [OF ps], of length] ab less.prems by auto
        then obtain p' qs where q: "ps = p' # qs" by (cases ps) auto
        then have "split_pair (seg d a b) = Some (p', concat (map pair_image qs))"
          using ps by (simp add: split_pair_iff)
        then have "p' = p" "r = concat (map pair_image qs)" using Some pr by simp_all
        then have "?Q qs" using ps q by simp
        then show "\<exists>qs. ?Q qs" ..
      next
        assume "\<exists>qs. ?Q qs"
        then obtain qs where "?Q qs" ..
        then have "?P (p # qs)" using e l by simp
        then show "\<exists>ps. ?P ps" ..
      qed
      then show ?thesis
        using Some pr ab less.prems rest [OF e] by (simp add: pairs_loop_step)
    qed
  qed
qed

text \<open>What a scan accepts: one v2 block with the expected certificate and no v3 block.\<close>

definition trusted_pairs :: "hash_api \<Rightarrow> u32 \<Rightarrow> bytes \<Rightarrow> sig_pair list \<Rightarrow> bool" where
  "trusted_pairs H sz ex ps \<longleftrightarrow>
     (\<exists>v cert. map snd (filter (\<lambda>p. fst p = V2_ID) ps) = [v] \<and> v2_value v cert \<and> cert_ok H sz ex cert) \<and>
     V3_ID \<notin> fst ` set ps \<and> V31_ID \<notin> fst ` set ps"

lemma scan_counts:
  "bs_v2 (foldl (note_pair H sz ex) s ps) = bs_v2 s + length (filter (\<lambda>p. fst p = V2_ID) ps)"
  "bs_v3 (foldl (note_pair H sz ex) s ps) \<longleftrightarrow> bs_v3 s \<or> V3_ID \<in> fst ` set ps"
  "bs_v31 (foldl (note_pair H sz ex) s ps) \<longleftrightarrow> bs_v31 s \<or> V31_ID \<in> fst ` set ps"
  by (induction ps arbitrary: s) (auto simp: note_pair_def)

lemma scan_valid:
  "bs_valid (foldl (note_pair H sz ex) s ps) \<longleftrightarrow>
     (if filter (\<lambda>p. fst p = V2_ID) ps = [] then bs_valid s
      else cert_found H sz ex (first_cert (snd (last (filter (\<lambda>p. fst p = V2_ID) ps)))))"
  by (induction ps arbitrary: s) (auto simp: note_pair_def)

lemma scan_verdict_trusted:
  assumes "\<forall>p\<in>set ps. length (snd p) \<le> 2147483643"
  shows "scan_verdict (Some (foldl (note_pair H sz ex) no_blocks ps)) \<longleftrightarrow> trusted_pairs H sz ex ps"
proof -
  let ?f = "filter (\<lambda>p. fst p = V2_ID) ps"
  have "(length ?f = 1 \<and> cert_found H sz ex (first_cert (snd (last ?f)))) \<longleftrightarrow>
      (\<exists>v cert. map snd ?f = [v] \<and> v2_value v cert \<and> cert_ok H sz ex cert)"
  proof (cases "length ?f = 1")
    case True
    then obtain p where p: "?f = [p]" by (auto simp: length_Suc_conv)
    then have "p \<in> set ps" by (metis filter_eq_ConsD in_set_conv_decomp)
    then have "length (snd p) \<le> 2147483647" using assms by fastforce
    then show ?thesis
      using first_cert_iff [of "snd p", symmetric] by (auto simp: p cert_found_def split: option.split)
  next
    case False
    then show ?thesis by (metis length_Cons length_map list.size(3) One_nat_def)
  qed
  then show ?thesis
    by (auto simp: scan_verdict_def scan_counts scan_valid no_blocks_def trusted_pairs_def)
qed

section \<open>The layout of an accepted file\<close>

text \<open>A record that ends a central directory starts \<open>22 + i\<close> bytes before the end.\<close>

definition eocd_at :: "bytes \<Rightarrow> nat \<Rightarrow> bool" where
  "eocd_at d i \<longleftrightarrow>
     22 + i \<le> length d \<and> le_dec (seg d (length d - i - 2) (length d - i)) = i \<and>
     seg d (length d - i - 22) (length d - i - 18) = le32 EOCD_MAGIC"

definition block_size :: "sig_pair list \<Rightarrow> nat" where
  "block_size ps = length (concat (map pair_image ps)) + 24"

definition sign_block :: "sig_pair list \<Rightarrow> bytes" where
  "sign_block ps =
     le64 (of_nat (block_size ps)) @ concat (map pair_image ps) @ le64 (of_nat (block_size ps)) @ BLOCK_MAGIC"

text \<open>
  An APK: archive members, signing block, central directory, and the record that ends it, with
  the eight bytes \<open>mid\<close> of disk numbers and entry counts and the archive comment.
\<close>

definition apk_image :: "bytes \<Rightarrow> sig_pair list \<Rightarrow> bytes \<Rightarrow> bytes \<Rightarrow> bytes \<Rightarrow> bytes" where
  "apk_image members ps cd mid comment =
     members @ sign_block ps @ cd @ le32 EOCD_MAGIC @ mid @ le32 (of_nat (length cd)) @
     le32 (of_nat (length members + length (sign_block ps))) @ le_enc 2 (length comment) @ comment"

definition apk_layout :: "hash_api \<Rightarrow> u32 \<Rightarrow> bytes \<Rightarrow> bytes \<Rightarrow> bool" where
  "apk_layout H sz ex d \<longleftrightarrow>
     (\<exists>members ps cd mid comment.
        d = apk_image members ps cd mid comment \<and> length mid = 8 \<and>
        length comment \<le> MAX_COMMENT \<and> (\<forall>i<length comment. \<not> eocd_at d i) \<and>
        length cd < 2 ^ 32 \<and> length members + length (sign_block ps) < 2 ^ 32 \<and>
        block_size ps \<le> 2147483639 \<and>
        seg d (length members + length (sign_block ps) + length cd - 20)
              (length members + length (sign_block ps) + length cd - 16) \<noteq> le32 ZIP64_MAGIC \<and>
        trusted_pairs H sz ex ps)"

lemma find_eocd_disk:
  "find_eocd (disk_file d) (int (length d)) i = Some e \<longleftrightarrow>
     (\<exists>j. i \<le> j \<and> (j \<le> MAX_COMMENT \<or> j = i) \<and> eocd_at d j \<and> (\<forall>k. i \<le> k \<and> k < j \<longrightarrow> \<not> eocd_at d k) \<and>
          e = int (length d - j - 22))" (is "_ \<longleftrightarrow> (\<exists>j. ?P i j)")
proof (induction "Suc MAX_COMMENT - i" arbitrary: i rule: less_induct)
  case less
  show ?case
  proof (cases "i + 2 \<le> length d")
    case False
    have "read_exact (disk_file d) 2 (int (length d) - int i - 2) (int (length d)) = None"
      using False by (simp add: read_exact_def)
    moreover have "\<not> eocd_at d j" if "i \<le> j" for j
      using False that by (simp add: eocd_at_def)
    ultimately show ?thesis by (subst find_eocd.simps) auto
  next
    case True
    define b where "b = seg d (length d - i - 2) (length d - i)"
    have pos: "int (length d) - int i - 2 = int (length d - i - 2)" using True by auto
    have r: "read_exact (disk_file d) 2 (int (length d) - int i - 2) (int (length d)) =
        Some (b, int (length d - i))"
    proof -
      have e2: "length d - i - 2 + 2 = length d - i" using True by simp
      show ?thesis
        unfolding pos b_def using read_exact_disk [of "length d" d 2 "length d - i - 2", unfolded e2]
        by simp
    qed
    have nxt: "(if i \<ge> MAX_COMMENT then None else find_eocd (disk_file d) (int (length d)) (i + 1)) = Some e \<longleftrightarrow>
        (\<exists>j. ?P i j)" if no: "\<not> eocd_at d i"
    proof (cases "i \<ge> MAX_COMMENT")
      case True
      have "\<not> ?P i j" for j using no True by (cases "j = i") auto
      then show ?thesis using True by auto
    next
      case False
      have "?P (i + 1) j \<longleftrightarrow> ?P i j" for j
      proof -
        have "\<not> eocd_at d k" if "\<forall>k. i + 1 \<le> k \<and> k < j \<longrightarrow> \<not> eocd_at d k" "i \<le> k" "k < j" for k
          using that no by (cases "k = i") auto
        then have a: "(\<forall>k. i + 1 \<le> k \<and> k < j \<longrightarrow> \<not> eocd_at d k) \<longleftrightarrow>
            (\<forall>k. i \<le> k \<and> k < j \<longrightarrow> \<not> eocd_at d k)" by auto
        have b: "i + 1 \<le> j \<longleftrightarrow> i \<le> j" if "eocd_at d j" using that no by (cases "j = i") auto
        show ?thesis unfolding a using b no False by (cases "j = i") auto
      qed
      then show ?thesis using False less.hyps [of "i + 1"] by simp
    qed
    show ?thesis
    proof (cases "le_dec b = i")
      case len: True
      show ?thesis
      proof (cases "i + 22 \<le> length d")
        case False
        have "read_exact (disk_file d) 4 (int (length d - i) - 22) (int (length d)) = None"
          using False True by (simp add: read_exact_def)
        moreover have "\<not> eocd_at d j" if "i \<le> j" for j
          using False that by (simp add: eocd_at_def)
        ultimately show ?thesis using r len by (subst find_eocd.simps) auto
      next
        case big: True
        define m where "m = seg d (length d - i - 22) (length d - i - 18)"
        have pos: "int (length d - i) - 22 = int (length d - i - 22)" using big by auto
        have r2: "read_exact (disk_file d) 4 (int (length d - i) - 22) (int (length d)) =
            Some (m, int (length d - i - 18))"
        proof -
          have "length d - i - 22 + 4 = length d - i - 18" using big by simp
          then show ?thesis unfolding pos using big by (subst read_exact_disk) (auto simp: m_def)
        qed
        have lm: "length m = 4" using big by (simp add: m_def)
        have mg: "get32 0 m = EOCD_MAGIC \<longleftrightarrow> eocd_at d i"
          using le32_get32 [OF lm] len big get32_front [of EOCD_MAGIC "[]"]
          by (auto simp: eocd_at_def m_def b_def add.commute)
        have e: "int (length d - i - 18) - 4 = int (length d - i - 22)" using big by auto
        show ?thesis
        proof (cases "eocd_at d i")
          case at: True
          have "(\<exists>j. ?P i j) \<longleftrightarrow> e = int (length d - i - 22)"
          proof -
            have "?P i j \<longleftrightarrow> j = i \<and> e = int (length d - i - 22)" for j
              using at by (cases "j = i") auto
            then show ?thesis by simp
          qed
          moreover have "find_eocd (disk_file d) (int (length d)) i = Some (int (length d - i - 22))"
            using at mg by (subst find_eocd.simps) (simp only: r r2 len e option.case prod.case if_True refl)
          ultimately show ?thesis by auto
        next
          case False
          then show ?thesis
            using nxt [OF False] mg
            by (subst find_eocd.simps) (simp only: r r2 len option.case prod.case if_True if_False refl)
        qed
      qed
    next
      case False
      then have "\<not> eocd_at d i" by (simp add: eocd_at_def b_def)
      then show ?thesis
        using nxt [OF \<open>\<not> eocd_at d i\<close>] False
        by (subst find_eocd.simps) (simp only: r option.case prod.case if_False)
    qed
  qed
qed

text \<open>The part of the check that follows the end record, on a file without read errors.\<close>

definition cd_check :: "hash_api \<Rightarrow> u32 \<Rightarrow> bytes \<Rightarrow> bytes \<Rightarrow> nat \<Rightarrow> bool" where
  "cd_check H sz ex d eocd \<longleftrightarrow>
     (let cdl = unat (get32 0 (seg d (eocd + 12) (eocd + 16)));
          off = unat (get32 0 (seg d (eocd + 16) (eocd + 20)));
          n = unat (get64 0 (seg d (off - 24) (off - 16))) in
      \<not> (20 \<le> eocd \<and> get32 0 (seg d (eocd - 20) (eocd - 16)) = ZIP64_MAGIC) \<and>
      off + cdl = eocd \<and> 32 \<le> off \<and> seg d (off - 16) off = BLOCK_MAGIC \<and>
      24 \<le> n \<and> n \<le> 2147483639 \<and> n + 8 \<le> off \<and>
      unat (get64 0 (seg d (off - n - 8) (off - n))) = n \<and>
      scan_verdict (pairs_loop H sz ex (disk_file d) (int (off - 24)) (int (off - n)) no_blocks))"

lemma check_eocd_none:
  "find_eocd fp (int (length (af_data fp))) 0 = None \<Longrightarrow> \<not> check_v2_signature H sz ex (Some fp)"
  by (simp add: check_v2_signature_def scan_verdict_def)

lemma zip64_ok_disk:
  "eocd + 22 \<le> length d \<Longrightarrow> zip64_ok (disk_file d) (int eocd) (int (length d)) \<longleftrightarrow>
     \<not> (20 \<le> eocd \<and> get32 0 (seg d (eocd - 20) (eocd - 16)) = ZIP64_MAGIC)"
proof (cases "20 \<le> eocd")
  case True
  assume l: "eocd + 22 \<le> length d"
  have "read_exact (disk_file d) 4 (int eocd - 20) (int (length d)) =
      Some (seg d (eocd - 20) (eocd - 16), int (eocd - 16))"
    using True l by (intro read_at) auto
  then show ?thesis using True by (simp add: zip64_ok_def)
qed (simp add: zip64_ok_def)

lemma check_at_eocd:
  assumes e: "find_eocd (disk_file d) (int (length d)) 0 = Some (int eocd)" and l: "eocd + 22 \<le> length d"
  shows "check_v2_signature H sz ex (Some (disk_file d)) \<longleftrightarrow> cd_check H sz ex d eocd"
proof -
  define cdl where "cdl = unat (get32 0 (seg d (eocd + 12) (eocd + 16)))"
  define off where "off = unat (get32 0 (seg d (eocd + 16) (eocd + 20)))"
  define n where "n = unat (get64 0 (seg d (off - 24) (off - 16)))"
  have af: "af_seek (disk_file d)" "af_data (disk_file d) = d" by (simp_all add: disk_file_def)
  have r1: "read_exact (disk_file d) 4 (int eocd + 12) (int (length d)) =
      Some (seg d (eocd + 12) (eocd + 16), int eocd + 16)"
    using l read_at [of "int eocd + 12" "eocd + 12" 4 "eocd + 16"] by simp
  have r2: "read_exact (disk_file d) 4 (int eocd + 16) (int (length d)) =
      Some (seg d (eocd + 16) (eocd + 20), int (eocd + 20))"
    using l by (intro read_at) auto
  have u: "uint (get32 0 (seg d (eocd + 12) (eocd + 16))) = int cdl"
    "uint (get32 0 (seg d (eocd + 16) (eocd + 20))) = int off"
    by (simp_all add: cdl_def off_def)
  note z = zip64_ok_disk [OF l]
  show ?thesis
  proof (cases "\<not> (20 \<le> eocd \<and> get32 0 (seg d (eocd - 20) (eocd - 16)) = ZIP64_MAGIC) \<and>
      off + cdl = eocd \<and> 32 \<le> off")
    case False
    have "\<not> zip64_ok (disk_file d) (int eocd) (int (length d)) \<or>
        int off > int eocd \<or> int cdl \<noteq> int eocd - int off \<or> int off < 32"
      using False z by auto
    then have "\<not> check_v2_signature H sz ex (Some (disk_file d))"
      by (auto simp: check_v2_signature_def af e r1 r2 u scan_verdict_def Let_def)
    moreover have "\<not> cd_check H sz ex d eocd"
      using False by (auto simp: cd_check_def Let_def cdl_def off_def)
    ultimately show ?thesis by simp
  next
    case True
    then have z64: "zip64_ok (disk_file d) (int eocd) (int (length d))"
      and cd: "\<not> (int off > int eocd \<or> int cdl \<noteq> int eocd - int off)" "\<not> int off < 32"
      and ol: "off \<le> length d" "32 \<le> off"
      using z l by auto
    have pe: "int off - 24 = int (off - 24)" "int off - 16 = int (off - 16)" using ol by auto
    have r3: "read_exact (disk_file d) 8 (int off - 24) (int off) =
        Some (seg d (off - 24) (off - 16), int off - 16)"
      unfolding pe using ol by (intro read_at) auto
    have r4: "read_exact (disk_file d) 16 (int off - 16) (int off) = Some (seg d (off - 16) off, int off)"
      unfolding pe using ol by (intro read_at) auto
    have un: "uint (get64 0 (seg d (off - 24) (off - 16))) = int n" by (simp add: n_def)
    have st: "check_v2_signature H sz ex (Some (disk_file d)) \<longleftrightarrow> scan_verdict
      (if seg d (off - 16) off \<noteq> BLOCK_MAGIC then None
       else if int n < 24 \<or> int n > INT_MAX - 8 \<or> int n > int off - 8 then None
       else do {
         (e, pos5) \<leftarrow> read_exact (disk_file d) 8 (int off - int n - 8) (int off - 24);
         if uint (get64 0 e) \<noteq> int n then None
         else pairs_loop H sz ex (disk_file d) (int off - 24) pos5 no_blocks })"
      unfolding check_v2_signature_def option.case af e Let_def u r1 r2 prod.case
        Option.bind.bind_lunit r3 r4 un
      using z64 cd by (simp only: af not_True_eq_False if_False simp_thms)
    have cc: "cd_check H sz ex d eocd \<longleftrightarrow> seg d (off - 16) off = BLOCK_MAGIC \<and>
      24 \<le> n \<and> n \<le> 2147483639 \<and> n + 8 \<le> off \<and>
      unat (get64 0 (seg d (off - n - 8) (off - n))) = n \<and>
      scan_verdict (pairs_loop H sz ex (disk_file d) (int (off - 24)) (int (off - n)) no_blocks)"
      using True unfolding cd_check_def Let_def cdl_def [symmetric] off_def [symmetric] n_def [symmetric]
      by blast
    show ?thesis
    proof (cases "seg d (off - 16) off = BLOCK_MAGIC \<and> 24 \<le> n \<and> n \<le> 2147483639 \<and> n + 8 \<le> off")
      case False
      have "seg d (off - 16) off \<noteq> BLOCK_MAGIC \<or> int n < 24 \<or> int n > INT_MAX - 8 \<or> int n > int off - 8"
        using False by auto
      then show ?thesis using False cc by (auto simp: st scan_verdict_def)
    next
      case ok: True
      have p: "int off - int n - 8 = int (off - n - 8)" using ok by auto
      have le: "off - n - 8 + 8 = off - n" "off - n \<le> off - 24" using ok ol by auto
      have r5: "read_exact (disk_file d) 8 (int (off - n - 8)) (int (off - 24)) =
          Some (seg d (off - n - 8) (off - n), int (off - n))"
        using ol le by (intro read_at) auto
      have ui: "uint w \<noteq> int n \<longleftrightarrow> unat w \<noteq> n" for w :: u64
        by (metis uint_nat of_nat_eq_iff)
      have nf: "\<not> (int n < 24 \<or> int n > INT_MAX - 8 \<or> int n > int off - 8)" using ok by auto
      show ?thesis
        unfolding st cc p pe(1) r5 ui using ok nf by (simp add: scan_verdict_def [of None])
    qed
  qed
qed

lemma seg_at: "d = p @ x @ q \<Longrightarrow> length p = a \<Longrightarrow> a + length x = b \<Longrightarrow> seg d a b = x"
  by (auto simp: seg_def slice_def)

lemma le_enc_2: "length bs = 2 \<Longrightarrow> le_enc 2 (le_dec bs) = bs"
  using le_enc_dec [of bs] by simp

lemma pairs_verdict:
  assumes "a \<le> b" "b \<le> length d"
  shows "scan_verdict (pairs_loop H sz ex (disk_file d) (int b) (int a) no_blocks) \<longleftrightarrow>
    (\<exists>ps. seg d a b = concat (map pair_image ps) \<and> (\<forall>p\<in>set ps. length (snd p) \<le> 2147483643) \<and>
          trusted_pairs H sz ex ps)"
proof -
  have "scan_verdict (pairs_loop H sz ex (disk_file d) (int b) (int a) no_blocks) \<longleftrightarrow>
    (\<exists>s. pairs_loop H sz ex (disk_file d) (int b) (int a) no_blocks = Some s \<and> scan_verdict (Some s))"
    by (cases "pairs_loop H sz ex (disk_file d) (int b) (int a) no_blocks") (simp_all add: scan_verdict_def)
  then show ?thesis
    unfolding pairs_loop_disk [OF assms] using scan_verdict_trusted by blast
qed

lemma find_eocd_first:
  "find_eocd (disk_file d) (int (length d)) 0 = Some e \<longleftrightarrow>
     (\<exists>j\<le>MAX_COMMENT. eocd_at d j \<and> (\<forall>k<j. \<not> eocd_at d k) \<and> e = int (length d - j - 22))"
  unfolding find_eocd_disk by auto

lemma check_layout:
  assumes "check_v2_signature H sz ex (Some (disk_file d))"
  shows "apk_layout H sz ex d"
proof -
  have "find_eocd (disk_file d) (int (length d)) 0 \<noteq> None"
    using assms check_eocd_none [of "disk_file d"] by (auto simp: disk_file_def)
  then obtain j where j: "j \<le> MAX_COMMENT" "eocd_at d j" "\<forall>k<j. \<not> eocd_at d k"
    and f: "find_eocd (disk_file d) (int (length d)) 0 = Some (int (length d - j - 22))"
    using find_eocd_first [of d] by (metis not_None_eq)
  define eocd where "eocd = length d - j - 22"
  have l: "eocd + 22 + j = length d" using j(2) by (simp add: eocd_def eocd_at_def)
  have pos: "length d - j - 2 = eocd + 20" "length d - j = eocd + 22" "length d - j - 22 = eocd"
    "length d - j - 18 = eocd + 4"
    using l by auto
  have at: "le_dec (seg d (eocd + 20) (eocd + 22)) = j" "seg d eocd (eocd + 4) = le32 EOCD_MAGIC"
    using j(2) unfolding eocd_at_def pos(1,3,4) unfolding pos(2) by auto
  have "cd_check H sz ex d eocd"
    using assms check_at_eocd [OF f [folded eocd_def]] l by simp
  then obtain cdl off n where
    defs: "unat (get32 0 (seg d (eocd + 12) (eocd + 16))) = cdl"
      "unat (get32 0 (seg d (eocd + 16) (eocd + 20))) = off"
      "unat (get64 0 (seg d (off - 24) (off - 16))) = n"
    and z: "\<not> (20 \<le> eocd \<and> get32 0 (seg d (eocd - 20) (eocd - 16)) = ZIP64_MAGIC)"
    and sum: "off + cdl = eocd" and o32: "32 \<le> off" and m: "seg d (off - 16) off = BLOCK_MAGIC"
    and n: "24 \<le> n" "n \<le> 2147483639" "n + 8 \<le> off"
    and head: "unat (get64 0 (seg d (off - n - 8) (off - n))) = n"
    and sv: "scan_verdict (pairs_loop H sz ex (disk_file d) (int (off - 24)) (int (off - n)) no_blocks)"
    unfolding cd_check_def Let_def by blast
  have ol: "off \<le> length d" using sum l by simp
  obtain ps where ps: "seg d (off - n) (off - 24) = concat (map pair_image ps)" "trusted_pairs H sz ex ps"
    using sv n ol by (subst (asm) pairs_verdict) auto
  have bs: "block_size ps = n"
    using arg_cong [OF ps(1), of length] n ol by (simp add: block_size_def)
  have w32: "unat w = a \<Longrightarrow> of_nat a = w" for w :: u32 and a by auto
  have w64: "unat w = a \<Longrightarrow> of_nat a = w" for w :: u64 and a by auto
  define members where "members = seg d 0 (off - n - 8)"
  define cd where "cd = seg d off eocd"
  define mid where "mid = seg d (eocd + 4) (eocd + 12)"
  define comment where "comment = seg d (eocd + 22) (length d)"
  have lens: "length members = off - n - 8" "length cd = cdl" "length mid = 8" "length comment = j"
    using l sum n ol by (auto simp: members_def cd_def mid_def comment_def)
  have lb: "length (sign_block ps) = n + 8"
    using bs n by (simp add: sign_block_def BLOCK_MAGIC_def lit_def block_size_def)
  have "le64 (of_nat n) = seg d (off - n - 8) (off - n)" "le64 (of_nat n) = seg d (off - 24) (off - 16)"
    using le64_get64 [of "seg d (off - n - 8) (off - n)"] le64_get64 [of "seg d (off - 24) (off - 16)"]
      w64 [OF head] w64 [OF defs(3)] n ol by auto
  moreover have "seg d (off - n - 8) off = seg d (off - n - 8) (off - n) @ seg d (off - n) (off - 24) @
      seg d (off - 24) (off - 16) @ seg d (off - 16) off"
    using n by (simp flip: seg_split)
  ultimately have blk: "sign_block ps = seg d (off - n - 8) off"
    by (simp only: sign_block_def bs ps(1) m append.assoc)
  have fl: "le32 (of_nat cdl) = seg d (eocd + 12) (eocd + 16)" "le32 (of_nat off) = seg d (eocd + 16) (eocd + 20)"
    "le_enc 2 j = seg d (eocd + 20) (eocd + 22)"
    using le32_get32 [of "seg d (eocd + 12) (eocd + 16)"] le32_get32 [of "seg d (eocd + 16) (eocd + 20)"]
      le_enc_2 [of "seg d (eocd + 20) (eocd + 22)"] w32 [OF defs(1)] w32 [OF defs(2)] l at(1) by auto
  have tail: "seg d eocd (length d) = le32 EOCD_MAGIC @ mid @ le32 (of_nat cdl) @ le32 (of_nat off) @ le_enc 2 j @ comment"
    unfolding fl mid_def comment_def at(2) [symmetric] using l by (simp flip: seg_split)
  have oeq: "length members + length (sign_block ps) = off" using lens lb n by simp
  have "d = seg d 0 (off - n - 8) @ seg d (off - n - 8) off @ seg d off eocd @ seg d eocd (length d)"
    using n ol sum l seg_all [of d] by (simp flip: seg_split)
  also have "\<dots> = members @ sign_block ps @ cd @ seg d eocd (length d)"
    by (simp only: blk members_def cd_def)
  also have "\<dots> = apk_image members ps cd mid comment"
    by (simp only: apk_image_def oeq lens(2-4) tail append.assoc)
  finally have img: "d = apk_image members ps cd mid comment" .
  have b32: "cdl < 2 ^ 32" "off < 2 ^ 32"
    using unat_bound [of "get32 0 (seg d (eocd + 12) (eocd + 16))"] unat_bound [of "get32 0 (seg d (eocd + 16) (eocd + 20))"]
    by (simp_all add: defs)
  have zz: "seg d (eocd - 20) (eocd - 16) \<noteq> le32 ZIP64_MAGIC"
    using z o32 sum get32_front [of ZIP64_MAGIC "[]"] by auto
  show ?thesis
    unfolding apk_layout_def
    using img lens j b32 bs n zz ps(2) sum oeq
    by (intro exI [of _ members] exI [of _ ps] exI [of _ cd] exI [of _ mid] exI [of _ comment]) auto
qed

text \<open>Where the fields of an image lie.\<close>

lemma image_segs:
  assumes dd: "d = members @ le64 (of_nat n) @ body @ le64 (of_nat n) @ BLOCK_MAGIC @ cd @ le32 EOCD_MAGIC @ mid @
      le32 (of_nat (length cd)) @ le32 (of_nat off) @ le_enc 2 (length comment) @ comment"
    and off: "off = length members + (n + 8)" and lb: "length body + 24 = n" and mid: "length mid = 8"
    and eocd_def: "eocd = off + length cd" and lm: "length BLOCK_MAGIC = 16"
  shows "seg d (length members) (length members + 8) = le64 (of_nat n)"
    and "seg d (length members + 8) (length members + n - 16) = body"
    and "seg d (off - 24) (off - 16) = le64 (of_nat n)"
    and "seg d (off - 16) off = BLOCK_MAGIC"
    and "seg d eocd (eocd + 4) = le32 EOCD_MAGIC"
    and "seg d (eocd + 12) (eocd + 16) = le32 (of_nat (length cd))"
    and "seg d (eocd + 16) (eocd + 20) = le32 (of_nat off)"
    and "seg d (eocd + 20) (eocd + 22) = le_enc 2 (length comment)"
proof -
  let ?pre = "members @ le64 (of_nat n) @ body @ le64 (of_nat n) @ BLOCK_MAGIC @ cd"
  let ?e = "le32 EOCD_MAGIC @ mid @ le32 (of_nat (length cd)) @ le32 (of_nat off) @ le_enc 2 (length comment) @ comment"
  have lp: "length ?pre = eocd" using lm lb by (simp add: eocd_def off)
  show "seg d (length members) (length members + 8) = le64 (of_nat n)"
    by (rule seg_at [OF dd]) auto
  show "seg d (length members + 8) (length members + n - 16) = body"
    by (rule seg_at [of _ "members @ le64 (of_nat n)" _ "le64 (of_nat n) @ BLOCK_MAGIC @ cd @ ?e"])
      (use dd lb in auto)
  show "seg d (off - 24) (off - 16) = le64 (of_nat n)"
    by (rule seg_at [of _ "members @ le64 (of_nat n) @ body" _ "BLOCK_MAGIC @ cd @ ?e"])
      (use dd lb off in auto)
  show "seg d (off - 16) off = BLOCK_MAGIC"
    by (rule seg_at [of _ "members @ le64 (of_nat n) @ body @ le64 (of_nat n)" _ "cd @ ?e"])
      (use dd lb lm off in auto)
  show "seg d eocd (eocd + 4) = le32 EOCD_MAGIC"
    by (rule seg_at [of _ ?pre _ "mid @ le32 (of_nat (length cd)) @ le32 (of_nat off) @ le_enc 2 (length comment) @ comment"])
      (use dd lp in auto)
  show "seg d (eocd + 12) (eocd + 16) = le32 (of_nat (length cd))"
    by (rule seg_at [of _ "?pre @ le32 EOCD_MAGIC @ mid" _ "le32 (of_nat off) @ le_enc 2 (length comment) @ comment"])
      (use dd lp mid in auto)
  show "seg d (eocd + 16) (eocd + 20) = le32 (of_nat off)"
    by (rule seg_at [of _ "?pre @ le32 EOCD_MAGIC @ mid @ le32 (of_nat (length cd))" _ "le_enc 2 (length comment) @ comment"])
      (use dd lp mid in auto)
  show "seg d (eocd + 20) (eocd + 22) = le_enc 2 (length comment)"
    by (rule seg_at [of _ "?pre @ le32 EOCD_MAGIC @ mid @ le32 (of_nat (length cd)) @ le32 (of_nat off)" _ comment])
      (use dd lp mid in auto)
qed

lemma layout_check:
  assumes "apk_layout H sz ex d"
  shows "check_v2_signature H sz ex (Some (disk_file d))"
proof -
  obtain members ps cd mid comment where
    d: "d = apk_image members ps cd mid comment" and mid: "length mid = 8"
    and c: "length comment \<le> MAX_COMMENT" and first: "\<forall>i<length comment. \<not> eocd_at d i"
    and b32: "length cd < 2 ^ 32" "length members + length (sign_block ps) < 2 ^ 32"
    and bs: "block_size ps \<le> 2147483639"
    and z: "seg d (length members + length (sign_block ps) + length cd - 20)
              (length members + length (sign_block ps) + length cd - 16) \<noteq> le32 ZIP64_MAGIC"
    and tr: "trusted_pairs H sz ex ps"
    using assms unfolding apk_layout_def by blast
  define n where "n = block_size ps"
  define body where "body = concat (map pair_image ps)"
  define off where "off = length members + length (sign_block ps)"
  define eocd where "eocd = off + length cd"
  have lm: "length BLOCK_MAGIC = 16" by (simp add: BLOCK_MAGIC_def lit_def)
  have lb: "length body + 24 = n" by (simp add: n_def body_def block_size_def)
  have off: "off = length members + (n + 8)"
    using lm lb by (simp add: off_def sign_block_def body_def [symmetric])
  have dd: "d = members @ le64 (of_nat n) @ body @ le64 (of_nat n) @ BLOCK_MAGIC @ cd @ le32 EOCD_MAGIC @ mid @
      le32 (of_nat (length cd)) @ le32 (of_nat off) @ le_enc 2 (length comment) @ comment"
    by (simp add: d apk_image_def sign_block_def n_def body_def off_def)
  have ld: "length d = eocd + 22 + length comment"
    unfolding dd using lm lb mid by (simp add: eocd_def off)
  have cmt: "le_dec (le_enc 2 (length comment)) = length comment"
    using c by (intro le_dec_enc) (simp add: MAX_COMMENT_def)
  note s = image_segs [OF dd off lb mid eocd_def lm]
  have pos: "length d - length comment - 2 = eocd + 20" "length d - length comment = eocd + 22"
    "length d - length comment - 22 = eocd" "length d - length comment - 18 = eocd + 4"
    using ld by auto
  have at: "eocd_at d (length comment)"
    unfolding eocd_at_def pos(1,3,4) unfolding pos(2) using s(5,8) cmt ld by simp
  then have f: "find_eocd (disk_file d) (int (length d)) 0 = Some (int eocd)"
    using find_eocd_first [of d "int eocd"] first c pos(3) by auto
  have u: "unat (of_nat (length cd) :: u32) = length cd" "unat (of_nat off :: u32) = off"
    "unat (of_nat n :: u64) = n"
    using b32 bs by (auto simp: unat_of_nat off_def [symmetric] n_def [symmetric])
  have g: "get32 0 (le32 w) = w" "get64 0 (le64 v) = v" for w v
    using get32_front [of w "[]"] get64_front [of v "[]"] by simp_all
  have n24: "24 \<le> n" using lb by simp
  have e: "off - n - 8 = length members" "off - n = length members + 8" "off - 24 = length members + n - 16"
    using off n24 by auto
  have "scan_verdict (pairs_loop H sz ex (disk_file d) (int (off - 24)) (int (off - n)) no_blocks)"
  proof (subst pairs_verdict)
    have "length (snd p) \<le> 2147483643" if "p \<in> set ps" for p
    proof -
      have "length (pair_image p) \<le> length body"
        using that unfolding body_def by (simp add: length_concat member_le_sum_list)
      then show ?thesis using bs lb n_def by simp
    qed
    then show "\<exists>ps. seg d (off - n) (off - 24) = concat (map pair_image ps) \<and>
        (\<forall>p\<in>set ps. length (snd p) \<le> 2147483643) \<and> trusted_pairs H sz ex ps"
      using s(2) tr unfolding e body_def by blast
  qed (use off n24 ld eocd_def in auto)
  moreover have "get32 0 (seg d (eocd - 20) (eocd - 16)) \<noteq> ZIP64_MAGIC"
  proof
    assume "get32 0 (seg d (eocd - 20) (eocd - 16)) = ZIP64_MAGIC"
    moreover have "length (seg d (eocd - 20) (eocd - 16)) = 4"
      using ld off n24 by (simp add: eocd_def)
    ultimately have "seg d (eocd - 20) (eocd - 16) = le32 ZIP64_MAGIC"
      using le32_get32 by metis
    then show False using z by (simp add: eocd_def off_def)
  qed
  ultimately have "cd_check H sz ex d eocd"
    unfolding cd_check_def s(6,7) g u Let_def
    using s(1,3,4) e off n24 bs by (simp add: g u n_def [symmetric] eocd_def)
  then show ?thesis using check_at_eocd [OF f] ld by simp
qed

text \<open>Reads that fail only make the check refuse more.\<close>

definition reads_more :: "apk_file \<Rightarrow> apk_file \<Rightarrow> bool" where
  "reads_more fp gp \<longleftrightarrow> af_data fp = af_data gp \<and> (af_seek fp \<longrightarrow> af_seek gp) \<and>
     (\<forall>off n. af_ok fp off n \<longrightarrow> af_ok gp off n)"

lemma read_exact_mono:
  "reads_more fp gp \<Longrightarrow> read_exact fp n pos lim = Some x \<Longrightarrow> read_exact gp n pos lim = Some x"
  by (cases x) (simp add: read_exact_Some reads_more_def)

lemma read_length_prefixed_mono:
  "reads_more fp gp \<Longrightarrow> read_length_prefixed_end fp pos lim = Some x \<Longrightarrow>
   read_length_prefixed_end gp pos lim = Some x"
  by (auto simp: read_length_prefixed_end_def Let_def bind_eq_Some_conv dest!: read_exact_mono split: if_splits)

text \<open>Carrying a property \<open>Q\<close> of the result through the binds and the tests of two runs.\<close>

lemma bind_run:
  assumes "f \<bind> K = Some y" "\<And>x. f = Some x \<Longrightarrow> g = Some x" "\<And>a b. K (a, b) = Some y \<Longrightarrow> Q (L (a, b))"
  shows "Q (g \<bind> L)"
  using assms by (cases f) auto

lemma bind_run1:
  assumes "f \<bind> K = Some y" "\<And>x. f = Some x \<Longrightarrow> g = Some x" "\<And>a. K a = Some y \<Longrightarrow> Q (L a)"
  shows "Q (g \<bind> L)"
  using assms by (cases f) auto

lemma if_run:
  assumes "(if P then None else X) = Some y" "P' \<Longrightarrow> P" "X = Some y \<Longrightarrow> Q X'"
  shows "Q (if P' then None else X')"
  using assms by (auto split: if_splits)

lemma check_block_mono:
  assumes m: "reads_more fp gp" and c: "check_block H sz ex fp pos lim"
  shows "check_block H sz ex gp pos lim"
proof -
  note b = bind_run [where Q = "\<lambda>r. r = Some True", OF _ read_length_prefixed_mono [OF m]]
    and b' = bind_run [where Q = "\<lambda>r. r = Some True", OF _ read_exact_mono [OF m]]
    and i = if_run [where Q = "\<lambda>r. r = Some True"]
  from c show ?thesis
    unfolding check_block_def length_then
    apply -
    apply (erule b, assumption, simp only: prod.case)+
    apply (erule i, assumption)+
    apply (erule b', assumption, simp only: prod.case)
    done
qed

lemma find_eocd_mono:
  assumes "reads_more fp gp"
  shows "find_eocd fp sz i = Some e \<Longrightarrow> find_eocd gp sz i = Some e"
  using assms
proof (induction fp sz i rule: find_eocd.induct)
  case (1 fp sz i)
  note m = read_exact_mono [OF "1.prems"(2)]
  from "1.prems"(1) obtain b p where b: "read_exact fp 2 (sz - int i - 2) sz = Some (b, p)"
    by (subst (asm) find_eocd.simps) (auto split: option.splits)
  show ?case
  proof (cases "le_dec b = i")
    case True
    from "1.prems"(1) True b obtain c q where c: "read_exact fp 4 (p - 22) sz = Some (c, q)"
      by (subst (asm) find_eocd.simps) (auto split: option.splits)
    show ?thesis
      using "1.prems" True "1.IH"(1) [OF b refl True c refl]
      by (subst (asm) (1) find_eocd.simps, subst find_eocd.simps) (auto simp: b c m [OF b] m [OF c] split: if_splits)
  next
    case False
    show ?thesis
      using "1.prems" False "1.IH"(2) [OF b refl False]
      by (subst (asm) (1) find_eocd.simps, subst find_eocd.simps) (auto simp: b m [OF b] split: if_splits)
  qed
qed

definition scan_le :: "block_scan \<Rightarrow> block_scan \<Rightarrow> bool" where
  "scan_le s t \<longleftrightarrow> bs_v2 s = bs_v2 t \<and> bs_v3 s = bs_v3 t \<and> bs_v31 s = bs_v31 t \<and> (bs_valid s \<longrightarrow> bs_valid t)"

lemma scan_pair_mono:
  "reads_more fp gp \<Longrightarrow> scan_le s t \<Longrightarrow>
   scan_le (scan_pair H sz ex fp i a b s) (scan_pair H sz ex gp i a b t)"
  by (auto simp: scan_le_def scan_pair_def dest: check_block_mono)

lemma pairs_loop_mono:
  assumes "reads_more fp gp"
  shows "pairs_loop H sz ex fp lim pos s = Some s' \<Longrightarrow> scan_le s t \<Longrightarrow>
   \<exists>t'. pairs_loop H sz ex gp lim pos t = Some t' \<and> scan_le s' t'"
  using assms
proof (induction H sz ex fp lim pos s arbitrary: t rule: pairs_loop.induct)
  case (1 H sz ex fp lim pos s)
  show ?case
  proof (cases "pos < lim")
    case False
    then show ?thesis using "1.prems" by (simp add: pairs_loop.simps)
  next
    case True
    from "1.prems"(1) True obtain b p where b: "read_exact fp 8 pos lim = Some (b, p)"
      by (subst (asm) pairs_loop.simps) (auto split: option.splits)
    define n where "n = uint (get64 0 b)"
    from "1.prems"(1) True b have n: "\<not> (n < 4 \<or> n > INT_MAX \<or> n > lim - p)"
      by (subst (asm) pairs_loop.simps) (auto simp: Let_def n_def split: if_splits)
    from "1.prems"(1) True b n obtain c q where c: "read_exact fp 4 p (p + n) = Some (c, q)"
      by (subst (asm) pairs_loop.simps) (auto simp: Let_def n_def [symmetric] split: option.splits if_splits)
    have rec: "pairs_loop H sz ex fp lim (p + n) (scan_pair H sz ex fp (get32 0 c) q (p + n) s) = Some s'"
      using "1.prems"(1) by (subst (asm) pairs_loop.simps) (use True n in \<open>simp add: b c Let_def n_def [symmetric]\<close>)
    note IH = "1.IH" [OF True b refl n_def n c refl rec
        scan_pair_mono [OF "1.prems"(3,2)] "1.prems"(3)]
    show ?thesis
      using IH True n
      by (subst pairs_loop.simps)
        (simp add: read_exact_mono [OF "1.prems"(3) b] read_exact_mono [OF "1.prems"(3) c] Let_def n_def [symmetric])
  qed
qed

lemma scan_verdictE:
  assumes "scan_verdict r"
  obtains s where "r = Some s" "scan_verdict (Some s)"
  using assms by (cases r) (simp_all add: scan_verdict_def)

lemma scan_verdict_mono:
  assumes "reads_more fp gp" "pairs_loop H sz ex fp lim pos no_blocks = Some s" "scan_verdict (Some s)"
  shows "scan_verdict (pairs_loop H sz ex gp lim pos no_blocks)"
proof -
  obtain t where "pairs_loop H sz ex gp lim pos no_blocks = Some t" "scan_le s t"
    using pairs_loop_mono [OF assms(1,2), of no_blocks] by (auto simp: scan_le_def)
  then show ?thesis using assms(3) by (auto simp: scan_verdict_def scan_le_def)
qed

lemma zip64_mono: "reads_more fp gp \<Longrightarrow> \<not> zip64_ok gp a b \<Longrightarrow> \<not> zip64_ok fp a b"
  by (auto simp: zip64_ok_def dest: read_exact_mono split: option.splits if_splits)

lemma check_mono:
  assumes m: "reads_more fp gp" and c: "check_v2_signature H sz ex (Some fp)"
  shows "check_v2_signature H sz ex (Some gp)"
proof -
  have d: "af_data gp = af_data fp" and seek: "af_seek fp" "af_seek gp"
    using m c by (auto simp: reads_more_def check_v2_signature_def split: if_splits)
  note b = bind_run [where Q = scan_verdict, OF _ read_exact_mono [OF m]]
    and b1 = bind_run1 [where Q = scan_verdict, OF _ find_eocd_mono [OF m]]
    and i = if_run [where Q = scan_verdict]
  from c show ?thesis
    unfolding check_v2_signature_def option.case Let_def d
    apply (simp only: seek not_True_eq_False if_False)
    apply (erule scan_verdictE)
    apply (erule b1, assumption)
    apply (erule i, erule zip64_mono [OF m])
    apply (erule b, assumption, simp only: prod.case)+
    apply (erule i, assumption)+
    apply (erule b, assumption, simp only: prod.case)+
    apply (erule i, assumption)+
    apply (erule b, assumption, simp only: prod.case)
    apply (erule i, assumption)
    apply (erule scan_verdict_mono [OF m], assumption)
    done
qed

lemma reads_more_disk: "reads_more fp (disk_file (af_data fp))"
  by (simp add: reads_more_def disk_file_def)

section \<open>The package of a path\<close>

text \<open>The loop from the end of the path: the last slash, and the one before it.\<close>

primrec scan_back :: "bytes \<Rightarrow> nat \<Rightarrow> nat option \<Rightarrow> nat option \<times> nat option" where
  "scan_back p 0 l = (l, None)"
| "scan_back p (Suc i) l =
     (if p ! i = 47 then (case l of None \<Rightarrow> scan_back p i (Some i) | Some _ \<Rightarrow> (l, Some i))
      else scan_back p i l)"

definition strchr_from :: "bytes \<Rightarrow> nat \<Rightarrow> u8 \<Rightarrow> nat option" where
  "strchr_from p i c = find (\<lambda>j. p ! j = c) [i..<length p]"

text \<open>The name copied to \<open>pkg\<close>; \<open>None\<close> is the return value -1.\<close>

definition get_pkg_from_apk_path :: "bytes \<Rightarrow> bytes option" where
  "get_pkg_from_apk_path path =
     (let p = c_str path; len = length p in
      if len \<ge> 256 \<or> len < 1 then None
      else case scan_back p len None of
          (Some lst, Some second) \<Rightarrow>
            (case strchr_from p second 45 of
               None \<Rightarrow> None
             | Some hyphen \<Rightarrow>
                 if hyphen > lst then None
                 else let pkg_len = int hyphen - int second - 1 in
                   if pkg_len \<ge> 256 \<or> pkg_len \<le> 0 then None
                   else Some (slice (second + 1) (nat pkg_len) p))
        | _ \<Rightarrow> None)"

text \<open>What the build fixes of the manager: its package name, if any, and one or two certificates.\<close>

record sign_config =
  sc_package :: "bytes option"
  sc_size :: u32
  sc_hash :: bytes
  sc_second :: "(u32 \<times> bytes) option"

definition is_manager_apk :: "sign_config \<Rightarrow> hash_api \<Rightarrow> (bytes \<Rightarrow> apk_file option) \<Rightarrow> bytes \<Rightarrow> bool" where
  "is_manager_apk cfg H fs path =
     (let named = (case sc_package cfg of
            None \<Rightarrow> True
          | Some name \<Rightarrow>
              (case get_pkg_from_apk_path path of
                 None \<Rightarrow> False
               | Some pkg \<Rightarrow> strn_eq (length name + 1) pkg name)) in
      if \<not> named then False
      else if check_v2_signature H (sc_size cfg) (sc_hash cfg) (fs path) then True
      else case sc_second cfg of
          Some (sz, h) \<Rightarrow> check_v2_signature H sz h (fs path)
        | None \<Rightarrow> False)"

lemma scan_back_Some:
  "scan_back p n (Some l) = (Some l', Some s) \<longleftrightarrow>
     l' = l \<and> s < n \<and> p ! s = 47 \<and> (\<forall>j. s < j \<and> j < n \<longrightarrow> p ! j \<noteq> 47)"
proof (induction n)
  case (Suc n)
  show ?case
  proof (cases "p ! n = 47")
    case True
    then have "(\<forall>j. s < j \<and> j < Suc n \<longrightarrow> p ! j \<noteq> 47) \<longleftrightarrow> n \<le> s"
      by (auto simp: less_Suc_eq intro: leI)
    then show ?thesis using True by auto
  next
    case False
    then show ?thesis using Suc by (auto simp: less_Suc_eq)
  qed
qed simp

lemma scan_back_None:
  "scan_back p n None = (Some l, Some s) \<longleftrightarrow>
     s < l \<and> l < n \<and> p ! l = 47 \<and> p ! s = 47 \<and>
     (\<forall>j. l < j \<and> j < n \<longrightarrow> p ! j \<noteq> 47) \<and> (\<forall>j. s < j \<and> j < l \<longrightarrow> p ! j \<noteq> 47)"
proof (induction n)
  case (Suc n)
  show ?case
  proof (cases "p ! n = 47")
    case True
    then have "(\<forall>j. l < j \<and> j < Suc n \<longrightarrow> p ! j \<noteq> 47) \<longleftrightarrow> n \<le> l"
      by (auto simp: less_Suc_eq intro: leI)
    then show ?thesis using True by (auto simp: scan_back_Some)
  next
    case False
    then show ?thesis using Suc by (auto simp: less_Suc_eq)
  qed
qed simp

lemma strchr_from_Some:
  "strchr_from p i c = Some h \<longleftrightarrow> i \<le> h \<and> h < length p \<and> p ! h = c \<and> (\<forall>j. i \<le> j \<and> j < h \<longrightarrow> p ! j \<noteq> c)"
  (is "?l \<longleftrightarrow> ?r")
proof
  assume ?l
  then obtain k where k: "k < length [i..<length p]" "p ! ([i..<length p] ! k) = c" "h = [i..<length p] ! k"
    "\<forall>j<k. p ! ([i..<length p] ! j) \<noteq> c"
    by (auto simp: strchr_from_def find_Some_iff)
  then have h: "h = i + k" "h < length p" by auto
  have "p ! j \<noteq> c" if "i \<le> j" "j < h" for j
  proof -
    have "j - i < k" using that h by auto
    then have "p ! ([i..<length p] ! (j - i)) \<noteq> c" using k(4) by blast
    then show ?thesis using that h by simp
  qed
  then show ?r using k h by auto
next
  assume r: ?r
  show ?l
    unfolding strchr_from_def find_Some_iff
    using r by (intro exI [of _ "h - i"]) auto
qed

lemma not_in_seg: "b \<le> length p \<Longrightarrow> c \<notin> set (seg p a b) \<longleftrightarrow> (\<forall>j. a \<le> j \<and> j < b \<longrightarrow> p ! j \<noteq> c)"
proof
  assume b: "b \<le> length p" and n: "c \<notin> set (seg p a b)"
  show "\<forall>j. a \<le> j \<and> j < b \<longrightarrow> p ! j \<noteq> c"
  proof (intro allI impI)
    fix j assume j: "a \<le> j \<and> j < b"
    then have "seg p a b ! (j - a) = p ! j" "j - a < length (seg p a b)"
      using b by (auto simp: seg_def slice_def)
    then show "p ! j \<noteq> c" using n nth_mem by metis
  qed
next
  assume b: "b \<le> length p" and n: "\<forall>j. a \<le> j \<and> j < b \<longrightarrow> p ! j \<noteq> c"
  show "c \<notin> set (seg p a b)"
  proof
    assume "c \<in> set (seg p a b)"
    then obtain k where "k < length (seg p a b)" "seg p a b ! k = c" by (auto simp: in_set_conv_nth)
    then have "a + k < b" "p ! (a + k) = c" using b by (auto simp: seg_def slice_def)
    then show False using n by auto
  qed
qed

lemma seg_single: "a < length p \<Longrightarrow> seg p a (a + 1) = [p ! a]"
  by (simp add: seg_def slice_def take_Suc_conv_app_nth hd_drop_conv_nth take_Suc Cons_nth_drop_Suc [symmetric])

text \<open>The path around the two slashes and the first hyphen behind the first of them.\<close>

definition pkg_path :: "bytes \<Rightarrow> bytes \<Rightarrow> bool" where
  "pkg_path path pkg \<longleftrightarrow>
     (\<exists>pre tag file'. path = pre @ [47] @ pkg @ [45] @ tag @ [47] @ file' \<and>
        47 \<notin> set pkg \<and> 47 \<notin> set tag \<and> 47 \<notin> set file' \<and> 45 \<notin> set pkg \<and> pkg \<noteq> [])"

lemma pkg_path_index:
  "pkg_path p pkg \<longleftrightarrow>
     (\<exists>s h l. s < h \<and> h < l \<and> l < length p \<and> p ! s = 47 \<and> p ! l = 47 \<and> p ! h = 45 \<and>
        (\<forall>j. l < j \<and> j < length p \<longrightarrow> p ! j \<noteq> 47) \<and> (\<forall>j. s < j \<and> j < l \<longrightarrow> p ! j \<noteq> 47) \<and>
        (\<forall>j. s \<le> j \<and> j < h \<longrightarrow> p ! j \<noteq> 45) \<and> s + 1 < h \<and> pkg = seg p (s + 1) h)" (is "_ \<longleftrightarrow> ?r")
proof
  assume "pkg_path p pkg"
  then obtain pre tag f where p: "p = pre @ [47] @ pkg @ [45] @ tag @ [47] @ f"
    and n: "47 \<notin> set pkg" "47 \<notin> set tag" "47 \<notin> set f" "45 \<notin> set pkg" "pkg \<noteq> []"
    by (auto simp: pkg_path_def)
  define s where "s = length pre"
  define h where "h = s + 1 + length pkg"
  define l where "l = h + 1 + length tag"
  have s1: "seg p (s + 1) h = pkg"
    by (rule seg_at [of _ "pre @ [47]" _ "[45] @ tag @ [47] @ f"]) (simp_all add: p s_def h_def)
  have s2: "seg p (h + 1) l = tag"
    by (rule seg_at [of _ "pre @ [47] @ pkg @ [45]" _ "[47] @ f"]) (simp_all add: p s_def h_def l_def)
  have s3: "seg p (l + 1) (length p) = f"
    by (rule seg_at [of _ "pre @ [47] @ pkg @ [45] @ tag @ [47]" _ "[]"]) (simp_all add: p s_def h_def l_def)
  note segs = s1 s2 s3
  have at: "p ! s = 47" "p ! h = 45" "p ! l = 47" "l < length p"
    by (simp_all add: p s_def h_def l_def nth_append)
  have len: "h \<le> length p" "l \<le> length p" using at by (simp_all add: l_def)
  have b: "\<forall>j. s < j \<and> j < l \<longrightarrow> p ! j \<noteq> 47"
  proof (intro allI impI)
    fix j assume j: "s < j \<and> j < l"
    consider "s + 1 \<le> j \<and> j < h" | "j = h" | "h + 1 \<le> j \<and> j < l" using j by linarith
    then show "p ! j \<noteq> 47"
      using n(1,2) segs at len not_in_seg [of h p 47 "s + 1"] not_in_seg [of l p 47 "h + 1"] by cases auto
  qed
  have c: "\<forall>j. s \<le> j \<and> j < h \<longrightarrow> p ! j \<noteq> 45"
  proof (intro allI impI)
    fix j assume j: "s \<le> j \<and> j < h"
    consider "s + 1 \<le> j \<and> j < h" | "j = s" using j by linarith
    then show "p ! j \<noteq> 45" using n(4) segs at len not_in_seg [of h p 45 "s + 1"] by cases auto
  qed
  have d: "\<forall>j. l < j \<and> j < length p \<longrightarrow> p ! j \<noteq> 47"
    using n(3) segs not_in_seg [of "length p" p 47 "l + 1"] by auto
  have "s + 1 < h" using n(5) by (simp add: h_def)
  then show ?r
    using at b c d segs by (intro exI [of _ s] exI [of _ h] exI [of _ l]) (auto simp: l_def)
next
  assume ?r
  then obtain s h l where
    i: "s + 1 < h" "h < l" "l < length p" and at: "p ! s = 47" "p ! l = 47" "p ! h = 45"
    and n: "\<forall>j. l < j \<and> j < length p \<longrightarrow> p ! j \<noteq> 47" "\<forall>j. s < j \<and> j < l \<longrightarrow> p ! j \<noteq> 47"
      "\<forall>j. s \<le> j \<and> j < h \<longrightarrow> p ! j \<noteq> 45"
    and pkg: "pkg = seg p (s + 1) h" by blast
  have e: "seg p s (s + 1) = [47]" "seg p h (h + 1) = [45]" "seg p l (l + 1) = [47]"
    using i at seg_single [of s p] seg_single [of h p] seg_single [of l p] by simp_all
  have "p = seg p 0 s @ seg p s (length p)"
    using i seg_all [of p] by (simp flip: seg_split)
  also have "seg p s (length p) = seg p s (s + 1) @ seg p (s + 1) h @ seg p h (length p)"
    using i by (simp flip: seg_split)
  also have "seg p h (length p) = seg p h (h + 1) @ seg p (h + 1) l @ seg p l (length p)"
    using i by (simp flip: seg_split)
  also have "seg p l (length p) = seg p l (l + 1) @ seg p (l + 1) (length p)"
    using i by (simp flip: seg_split)
  finally have "p = seg p 0 s @ [47] @ pkg @ [45] @ seg p (h + 1) l @ [47] @ seg p (l + 1) (length p)"
    by (simp only: e pkg append.assoc)
  moreover have "47 \<notin> set pkg" "47 \<notin> set (seg p (h + 1) l)" "47 \<notin> set (seg p (l + 1) (length p))" "45 \<notin> set pkg"
    using i n by (auto simp: not_in_seg pkg)
  moreover have "length pkg \<noteq> 0" using i by (simp add: pkg)
  ultimately show "pkg_path p pkg" unfolding pkg_path_def by blast
qed

lemma pkg_of_path_iff:
  "get_pkg_from_apk_path path = Some pkg \<longleftrightarrow> length (c_str path) < 256 \<and> pkg_path (c_str path) pkg"
proof -
  define p where "p = c_str path"
  have "get_pkg_from_apk_path path = Some pkg \<longleftrightarrow> length p < 256 \<and>
      (\<exists>l s h. scan_back p (length p) None = (Some l, Some s) \<and> strchr_from p s 45 = Some h \<and>
        h \<le> l \<and> s + 1 < h \<and> int h - int s - 1 < 256 \<and> pkg = slice (s + 1) (nat (int h - int s - 1)) p)"
    unfolding get_pkg_from_apk_path_def Let_def p_def [symmetric]
    by (auto split: option.splits prod.splits)
  also have "\<dots> \<longleftrightarrow> length p < 256 \<and> pkg_path p pkg"
    unfolding pkg_path_index scan_back_None strchr_from_Some
  proof (intro conj_cong refl iffI)
    have n: "nat (int h - int s - 1) = h - (s + 1)" for s h by auto
    assume "\<exists>l s h. (s < l \<and> l < length p \<and> p ! l = 47 \<and> p ! s = 47 \<and>
        (\<forall>j. l < j \<and> j < length p \<longrightarrow> p ! j \<noteq> 47) \<and> (\<forall>j. s < j \<and> j < l \<longrightarrow> p ! j \<noteq> 47)) \<and>
        (s \<le> h \<and> h < length p \<and> p ! h = 45 \<and> (\<forall>j. s \<le> j \<and> j < h \<longrightarrow> p ! j \<noteq> 45)) \<and>
        h \<le> l \<and> s + 1 < h \<and> int h - int s - 1 < 256 \<and> pkg = slice (s + 1) (nat (int h - int s - 1)) p"
    then obtain l s h where a: "s < l" "l < length p" "p ! l = 47" "p ! s = 47"
        "\<forall>j. l < j \<and> j < length p \<longrightarrow> p ! j \<noteq> 47" "\<forall>j. s < j \<and> j < l \<longrightarrow> p ! j \<noteq> 47"
        "p ! h = 45" "\<forall>j. s \<le> j \<and> j < h \<longrightarrow> p ! j \<noteq> 45" "h \<le> l" "s + 1 < h"
        "pkg = seg p (s + 1) h"
      unfolding n seg_def by blast
    moreover have "h \<noteq> l" using a(3,7) by auto
    ultimately have "s < h \<and> h < l" by auto
    then show "\<exists>s h l. s < h \<and> h < l \<and> l < length p \<and> p ! s = 47 \<and> p ! l = 47 \<and> p ! h = 45 \<and>
        (\<forall>j. l < j \<and> j < length p \<longrightarrow> p ! j \<noteq> 47) \<and> (\<forall>j. s < j \<and> j < l \<longrightarrow> p ! j \<noteq> 47) \<and>
        (\<forall>j. s \<le> j \<and> j < h \<longrightarrow> p ! j \<noteq> 45) \<and> s + 1 < h \<and> pkg = seg p (s + 1) h"
      using a by blast
  next
    assume len: "length p < 256" and "\<exists>s h l. s < h \<and> h < l \<and> l < length p \<and> p ! s = 47 \<and> p ! l = 47 \<and> p ! h = 45 \<and>
        (\<forall>j. l < j \<and> j < length p \<longrightarrow> p ! j \<noteq> 47) \<and> (\<forall>j. s < j \<and> j < l \<longrightarrow> p ! j \<noteq> 47) \<and>
        (\<forall>j. s \<le> j \<and> j < h \<longrightarrow> p ! j \<noteq> 45) \<and> s + 1 < h \<and> pkg = seg p (s + 1) h"
    then obtain s h l where a: "s < h" "h < l" "l < length p" "p ! s = 47" "p ! l = 47" "p ! h = 45"
        "\<forall>j. l < j \<and> j < length p \<longrightarrow> p ! j \<noteq> 47" "\<forall>j. s < j \<and> j < l \<longrightarrow> p ! j \<noteq> 47"
        "\<forall>j. s \<le> j \<and> j < h \<longrightarrow> p ! j \<noteq> 45" "s + 1 < h" "pkg = seg p (s + 1) h" by blast
    have n: "nat (int h - int s - 1) = h - (s + 1)" "int h - int s - 1 < 256" using a len by auto
    show "\<exists>l s h. (s < l \<and> l < length p \<and> p ! l = 47 \<and> p ! s = 47 \<and>
        (\<forall>j. l < j \<and> j < length p \<longrightarrow> p ! j \<noteq> 47) \<and> (\<forall>j. s < j \<and> j < l \<longrightarrow> p ! j \<noteq> 47)) \<and>
        (s \<le> h \<and> h < length p \<and> p ! h = 45 \<and> (\<forall>j. s \<le> j \<and> j < h \<longrightarrow> p ! j \<noteq> 45)) \<and>
        h \<le> l \<and> s + 1 < h \<and> int h - int s - 1 < 256 \<and> pkg = slice (s + 1) (nat (int h - int s - 1)) p"
      using a n by (intro exI [of _ l] exI [of _ s] exI [of _ h]) (simp add: seg_def)
  qed
  finally show ?thesis by (simp add: p_def)
qed

lemma pkg_of_path: "get_pkg_from_apk_path path = Some pkg \<Longrightarrow> pkg_path (c_str path) pkg"
  by (simp add: pkg_of_path_iff)

text \<open>
  The package name taken from a path is exactly the part between the last but one slash
  and the first hyphen behind it, provided that hyphen stands before the last slash, the name
  is not empty and the path is shorter than the buffer; otherwise there is none.
\<close>

theorem get_pkg_exact:
  "get_pkg_from_apk_path path = Some pkg \<longleftrightarrow> length (c_str path) < 256 \<and> pkg_path (c_str path) pkg"
  by (rule pkg_of_path_iff)


text \<open>A small package: no members, a signing block with one v2 pair, an empty directory.\<close>

definition ex_api :: hash_api where
  "ex_api = \<lparr>ha_alloc = Inr (), ha_sdesc = True, ha_digest = (\<lambda>_. Inr (replicate 32 0))\<rparr>"

definition ex_digest :: bytes where
  "ex_digest = replicate 64 48"

definition ex_pairs :: "sig_pair list" where
  "ex_pairs = [(V2_ID, prefixed (prefixed (prefixed (prefixed [] @ prefixed (prefixed [1, 2])))))]"

definition ex_apk :: bytes where
  "ex_apk = apk_image [] ex_pairs [7] (replicate 8 0) []"

lemma ex_pairs_trusted: "trusted_pairs ex_api 2 ex_digest ex_pairs"
proof -
  have "v2_value (prefixed (prefixed (prefixed (prefixed [] @ prefixed (prefixed [1, 2]))))) [1, 2]"
    unfolding v2_value_def
    by (intro conjI exI [of _ "[]"]) (simp_all add: length_prefixed)
  moreover have "cert_ok ex_api 2 ex_digest [1, 2]"
    unfolding cert_ok_def by (intro conjI) (simp, simp, code_simp)
  ultimately show ?thesis by (auto simp: trusted_pairs_def ex_pairs_def)
qed

lemma ex_apk_accepted: "check_v2_signature ex_api 2 ex_digest (Some (disk_file ex_apk))"
proof (rule layout_check)
  have l: "length (sign_block ex_pairs) = 70" "block_size ex_pairs = 62"
    by (simp_all add: sign_block_def block_size_def ex_pairs_def BLOCK_MAGIC_def lit_def length_prefixed)
  let ?b = "concat (map pair_image ex_pairs)"
  have lb: "length ?b = 38" by (simp add: ex_pairs_def length_prefixed)
  have n: "le64 62 = [62, 0, 0, 0, 0] @ [0, 0, 0]" by code_simp
  have m: "BLOCK_MAGIC = [65] @ tl BLOCK_MAGIC" by (simp add: BLOCK_MAGIC_def lit_def)
  have nm: "le64 62 @ BLOCK_MAGIC = [62, 0, 0, 0, 0] @ [0, 0, 0, 65] @ tl BLOCK_MAGIC"
    by (subst m) (simp add: n)
  have "sign_block ex_pairs = le64 62 @ ?b @ le64 62 @ BLOCK_MAGIC"
    unfolding sign_block_def l by simp
  then have blk: "sign_block ex_pairs = (le64 62 @ ?b @ [62, 0, 0, 0, 0]) @ [0, 0, 0, 65] @ tl BLOCK_MAGIC"
    unfolding nm by simp
  have "ex_apk = (le64 62 @ ?b @ [62, 0, 0, 0, 0]) @ [0, 0, 0, 65] @ (tl BLOCK_MAGIC @ [7] @ le32 EOCD_MAGIC @
        replicate 8 0 @ le32 1 @ le32 70 @ le_enc 2 0)"
    unfolding ex_apk_def apk_image_def l(1) unfolding blk by simp
  then have "seg ex_apk 51 55 = [0, 0, 0, 65]"
    by (rule seg_at) (simp_all add: lb)
  moreover have "le32 ZIP64_MAGIC = of_nat (unat ZIP64_MAGIC mod 256) # le_enc 3 (unat ZIP64_MAGIC div 256)"
    using le_enc.simps(2) [of 3 "unat ZIP64_MAGIC"] by (simp add: le32_def)
  ultimately have z: "seg ex_apk 51 55 \<noteq> le32 ZIP64_MAGIC" by simp
  show "apk_layout ex_api 2 ex_digest ex_apk"
    unfolding apk_layout_def
    by (intro exI [of _ "[]"] exI [of _ ex_pairs] exI [of _ "[7]"] exI [of _ "replicate 8 0"] exI [of _ "[]"])
      (use z in \<open>simp add: ex_apk_def [symmetric] ex_pairs_trusted l\<close>)
qed


end
