(* ===== verification/Throne_Tracker.thy ===== *)
theory Throne_Tracker
  imports Apk_Sign Allowlist_Safety "HOL-Library.Multiset"
begin

text \<open>
  Following the manager application, \<^verbatim>\<open>kernel/manager/throne_tracker.c\<close>: reading
  \<^verbatim>\<open>/data/system/packages.list\<close>, searching the installed packages for the manager, and
  pruning the allowlist. The file system is a parameter; the state is the manager's app id, the
  list of known APK path hashes and the allowlist.
\<close>

abbreviation (input) "DATA_PATH_LEN \<equiv> (384 :: nat)"

text \<open>One line of the package list.\<close>

record uid_data =
  ud_uid :: u32
  ud_package :: bytes

record apk_path_hash =
  ah_hash :: u32
  ah_exists :: bool

record dir_entry =
  de_name :: bytes
  de_dir :: bool

record directory =
  dr_magic :: nat
  dr_entries :: "dir_entry list"

text \<open>
  What the kernel gives: the package list with the offsets where reading a character or a line
  fails and the lines for which memory is missing; directories and packages by path; and the
  kernel's name hash.
\<close>

record throne_fs =
  tf_list :: "bytes option"
  tf_char_ok :: "nat \<Rightarrow> bool"
  tf_line_ok :: "nat \<Rightarrow> bool"
  tf_line_alloc :: "nat \<Rightarrow> bool"
  tf_dir :: "bytes \<Rightarrow> directory option"
  tf_apk :: "bytes \<Rightarrow> apk_file option"
  tf_path_alloc :: "bytes \<Rightarrow> bool"
  tf_hash_alloc :: "bytes \<Rightarrow> bool"
  tf_name_hash :: "bytes \<Rightarrow> u32"

section \<open>The package list\<close>

text \<open>\<open>strsep\<close> with a blank: the token and what is left behind the blank, if there is one.\<close>

definition strsep :: "bytes \<Rightarrow> bytes \<times> bytes option" where
  "strsep s =
     (takeWhile (\<lambda>b. b \<noteq> 32) s,
      (case dropWhile (\<lambda>b. b \<noteq> 32) s of [] \<Rightarrow> None | _ # r \<Rightarrow> Some r))"

definition is_digit :: "u8 \<Rightarrow> bool" where
  "is_digit b \<longleftrightarrow> 48 \<le> b \<and> b \<le> 57"

definition dec_value :: "bytes \<Rightarrow> nat" where
  "dec_value ds = foldl (\<lambda>n b. 10 * n + (unat b - 48)) 0 ds"

text \<open>
  \<open>kstrtou32\<close> in base 10: an optional plus sign, at least one digit, an optional newline, and
  a value that fits.
\<close>

definition kstrtou32 :: "bytes \<Rightarrow> u32 option" where
  "kstrtou32 s =
     (let t = (case s of b # r \<Rightarrow> if b = 43 then r else s | [] \<Rightarrow> s);
          ds = takeWhile is_digit t;
          rest = dropWhile is_digit t in
      if ds = [] then None
      else if dec_value ds \<ge> 2 ^ 32 then None
      else if rest = [] \<or> rest = [10] then Some (of_nat (dec_value ds))
      else None)"

definition parse_line :: "bytes \<Rightarrow> uid_data option" where
  "parse_line buf =
     (let (package, tmp) = strsep (c_str buf) in
      case tmp of
        None \<Rightarrow> None
      | Some r \<Rightarrow>
          (case kstrtou32 (fst (strsep r)) of
             None \<Rightarrow> None
           | Some res \<Rightarrow> Some \<lparr>ud_uid = res, ud_package = take 255 package\<rparr>))"

text \<open>
  The reading loop: \<open>pos\<close> is where the next character is read, \<open>ls\<close> the start of the line.
  \<open>None\<close> is the jump to \<open>out\<close> when memory is missing.
\<close>

function read_list :: "throne_fs \<Rightarrow> bytes \<Rightarrow> nat \<Rightarrow> nat \<Rightarrow> uid_data list \<Rightarrow> uid_data list option" where
  "read_list fs d pos ls acc =
     (if \<not> tf_char_ok fs pos \<or> length d \<le> pos then Some acc
      else if d ! pos \<noteq> 10 then read_list fs d (pos + 1) ls acc
      else let buf = slice ls 255 d in
        if \<not> tf_line_ok fs ls \<or> buf = [] then Some acc
        else if \<not> tf_line_alloc fs ls then None
        else case parse_line buf of
            None \<Rightarrow> Some acc
          | Some u \<Rightarrow> read_list fs d (pos + 1) (pos + 1) (acc @ [u]))"
  by pat_completeness auto
termination
  by (relation "measure (\<lambda>(fs, d, pos, ls, acc). length d - pos)") auto

declare read_list.simps [simp del]

definition is_uid_exist :: "uid_data list \<Rightarrow> uid \<Rightarrow> bytes \<Rightarrow> bool" where
  "is_uid_exist us uid package =
     list_ex (\<lambda>np. ud_uid np = uid mod PER_USER_RANGE \<and> strn_eq 256 (ud_package np) package) us"

section \<open>The search for the manager\<close>

definition crown_manager :: "ksu_env \<Rightarrow> uid_data list \<Rightarrow> bytes \<Rightarrow> u32 \<Rightarrow> u32" where
  "crown_manager E us apk m =
     (case get_pkg_from_apk_path apk of
        None \<Rightarrow> m
      | Some pkg \<Rightarrow>
          (case find (\<lambda>np. strn_eq 256 (ud_package np) pkg) us of
             None \<Rightarrow> m
           | Some np \<Rightarrow> ksu_set_manager_appid E (ud_uid np) m))"

text \<open>The state of a search: \<open>se_new\<close> lists the directories appended to the work list.\<close>

record search =
  se_stop :: bool
  se_new :: "(bytes \<times> nat) list"
  se_cache :: "apk_path_hash list"
  se_appid :: u32
  se_magic :: nat

text \<open>Marking the first cache entry of a hash; \<open>None\<close> when there is none.\<close>

fun mark_exists :: "u32 \<Rightarrow> apk_path_hash list \<Rightarrow> apk_path_hash list option" where
  "mark_exists h [] = None"
| "mark_exists h (p # ps) =
     (if h = ah_hash p then Some (p\<lparr>ah_exists := True\<rparr> # ps)
      else map_option ((#) p) (mark_exists h ps))"

text \<open>The directory callback; the result says whether the iteration goes on.\<close>

definition my_actor ::
    "ksu_env \<Rightarrow> throne_fs \<Rightarrow> (bytes \<Rightarrow> bool) \<Rightarrow> uid_data list \<Rightarrow> bytes \<Rightarrow> nat \<Rightarrow> dir_entry \<Rightarrow> search \<Rightarrow> bool \<times> search" where
  "my_actor E fs mgr us parent depth e s =
     (let name = de_name e; namelen = length name; dirpath = parent @ [47] @ name in
      if se_stop s then (False, s)
      else if strn_eq namelen name (lit ''..'') \<or> strn_eq namelen name (lit ''.'') then (True, s)
      else if de_dir e \<and> namelen \<ge> 8 \<and> strn_eq 4 name (lit ''vmdl'') \<and>
              strn_eq 4 (drop (namelen - 4) name) (lit ''.tmp'') then (True, s)
      else if length dirpath \<ge> DATA_PATH_LEN then (True, s)
      else if de_dir e \<and> depth > 0 \<and> \<not> se_stop s then
        (if \<not> tf_path_alloc fs dirpath then (True, s)
         else (True, s\<lparr>se_new := se_new s @ [(dirpath, depth - 1)]\<rparr>))
      else if namelen = 8 \<and> strn_eq namelen name (lit ''base.apk'') then
        (case mark_exists (tf_name_hash fs dirpath) (se_cache s) of
           Some c \<Rightarrow> (True, s\<lparr>se_cache := c\<rparr>)
         | None \<Rightarrow>
             if mgr dirpath then
               (True, s\<lparr>se_appid := crown_manager E us dirpath (se_appid s), se_stop := True, se_cache := []\<rparr>)
             else if \<not> tf_hash_alloc fs dirpath then (True, s)
             else (True, s\<lparr>se_cache := se_cache s @
                      [\<lparr>ah_hash = tf_name_hash fs dirpath, ah_exists = True\<rparr>]\<rparr>))
      else (True, s))"

text \<open>\<open>iterate_dir\<close> calls the actor on each entry until it answers to stop.\<close>

primrec iterate_dir ::
    "(dir_entry \<Rightarrow> search \<Rightarrow> bool \<times> search) \<Rightarrow> dir_entry list \<Rightarrow> search \<Rightarrow> search" where
  "iterate_dir act [] s = s"
| "iterate_dir act (e # es) s = (let (go, s1) = act e s in if go then iterate_dir act es s1 else s1)"

text \<open>The body of the loop over the work list, for one directory.\<close>

definition visit_dir ::
    "ksu_env \<Rightarrow> throne_fs \<Rightarrow> (bytes \<Rightarrow> bool) \<Rightarrow> uid_data list \<Rightarrow> bytes \<times> nat \<Rightarrow> search \<Rightarrow> search" where
  "visit_dir E fs mgr us p s =
     (if se_stop s then s
      else case tf_dir fs (fst p) of
          None \<Rightarrow> s
        | Some d \<Rightarrow>
            if se_magic s = 0 \<and> dr_magic d = 0 then s
            else let s1 = (if se_magic s = 0 then s\<lparr>se_magic := dr_magic d\<rparr> else s) in
              if dr_magic d \<noteq> se_magic s1 then s1
              else iterate_dir (my_actor E fs mgr us (fst p) (snd p)) (dr_entries d) s1)"

text \<open>A visit appends sub-directories only, one level down.\<close>

definition grows :: "nat \<Rightarrow> search \<Rightarrow> search \<Rightarrow> bool" where
  "grows k s s' \<longleftrightarrow> (\<exists>new. se_new s' = se_new s @ new \<and> (\<forall>p\<in>set new. snd p < k \<and> snd p = k - 1))"

lemma grows_refl [simp]: "grows k s s"
  by (simp add: grows_def)

lemma grows_trans: "grows k s t \<Longrightarrow> grows k t u \<Longrightarrow> grows k s u"
  unfolding grows_def by (elim exE conjE) (simp, blast)

lemma my_actor_grows: "grows k s (snd (my_actor E fs mgr us parent k e s))"
  by (auto simp: my_actor_def Let_def grows_def split: option.split)

lemma iterate_grows:
  assumes "\<And>e s. grows k s (snd (act e s))"
  shows "grows k s (iterate_dir act es s)"
proof (induction es arbitrary: s)
  case (Cons e es)
  then show ?case
    using assms [of s e] by (auto split: prod.split intro: grows_trans)
qed simp

lemma visit_grows: "grows (snd p) s (visit_dir E fs mgr us p s)"
proof -
  have it: "grows (snd p) t (iterate_dir (my_actor E fs mgr us (fst p) (snd p)) es t)" for t es
    by (rule iterate_grows) (rule my_actor_grows)
  have m: "grows (snd p) s (s\<lparr>se_magic := x\<rparr>)" for x
    by (simp add: grows_def)
  show ?thesis
    using it [of s] grows_trans [OF m it] m
    by (simp add: visit_dir_def Let_def split: option.split)
qed

lemma visit_new:
  "q \<in> set (se_new (visit_dir E fs mgr us p (s\<lparr>se_new := []\<rparr>))) \<Longrightarrow> snd q < snd p \<and> snd q = snd p - 1"
  using visit_grows [of p "s\<lparr>se_new := []\<rparr>" E fs mgr us] by (auto simp: grows_def)

text \<open>
  One run of \<open>list_for_each_entry_safe\<close> over the work list: the successor is fixed before the
  body, so what the last element appends is left for the next run.
\<close>

function search_pass ::
    "ksu_env \<Rightarrow> throne_fs \<Rightarrow> (bytes \<Rightarrow> bool) \<Rightarrow> uid_data list \<Rightarrow> (bytes \<times> nat) list \<Rightarrow> search \<Rightarrow>
       (bytes \<times> nat) list \<times> search" where
  "search_pass E fs mgr us [] s = ([], s)"
| "search_pass E fs mgr us [p] s =
     (let s1 = visit_dir E fs mgr us p (s\<lparr>se_new := []\<rparr>) in (se_new s1, s1))"
| "search_pass E fs mgr us (p # q # r) s =
     (let s1 = visit_dir E fs mgr us p (s\<lparr>se_new := []\<rparr>) in
      search_pass E fs mgr us (q # r @ se_new s1) s1)"
  by pat_completeness auto

lemma work_decreases:
  assumes "\<forall>x\<in>set new. snd x < snd p"
  shows "(mset (map snd (q # r @ new)), mset (map snd (p # q # r))) \<in> mult (less_than :: (nat \<times> nat) set)"
proof -
  have "(mset (map snd (q # r)) + mset (map snd new), mset (map snd (q # r)) + {#snd p#}) \<in> mult less_than"
    by (rule one_step_implies_mult) (use assms in auto)
  then show ?thesis by (simp add: ac_simps add_mset_commute)
qed

termination search_pass
proof (relation "inv_image (mult less_than) (\<lambda>(E, fs, mgr, us, q, s). mset (map snd q))")
  show "wf (inv_image (mult (less_than :: (nat \<times> nat) set)) (\<lambda>(E, fs, mgr, us, q, s). mset (map snd q)))"
    by (intro wf_inv_image wf_mult) simp
next
  fix E fs mgr us s1 and p q :: "bytes \<times> nat" and r s
  assume s1: "s1 = visit_dir E fs mgr us p (s\<lparr>se_new := []\<rparr>)"
  show "((E, fs, mgr, us, q # r @ se_new s1, s1), E, fs, mgr, us, p # q # r, s)
    \<in> inv_image (mult less_than) (\<lambda>(E, fs, mgr, us, q, s). mset (map snd q))"
    using work_decreases [of "se_new s1" p q r] visit_new [of _ E fs mgr us p s]
    by (simp only: in_inv_image prod.case s1) blast
qed

primrec search_passes ::
    "ksu_env \<Rightarrow> throne_fs \<Rightarrow> (bytes \<Rightarrow> bool) \<Rightarrow> uid_data list \<Rightarrow> nat \<Rightarrow> (bytes \<times> nat) list \<Rightarrow> search \<Rightarrow>
       (bytes \<times> nat) list \<times> search" where
  "search_passes E fs mgr us 0 q s = (q, s)"
| "search_passes E fs mgr us (Suc n) q s =
     (let (q1, s1) = search_pass E fs mgr us q s in search_passes E fs mgr us n q1 s1)"

text \<open>The result also shows what is left of the work list.\<close>

definition search_manager ::
    "ksu_env \<Rightarrow> throne_fs \<Rightarrow> (bytes \<Rightarrow> bool) \<Rightarrow> uid_data list \<Rightarrow> bytes \<Rightarrow> nat \<Rightarrow> apk_path_hash list \<times> u32 \<Rightarrow>
       (bytes \<times> nat) list \<times> apk_path_hash list \<times> u32" where
  "search_manager E fs mgr us path depth st =
     (let (cache, m) = st;
          s0 = \<lparr>se_stop = False, se_new = [], se_cache = map (ah_exists_update (\<lambda>_. False)) cache,
                se_appid = m, se_magic = 0\<rparr>;
          (q, s) = search_passes E fs mgr us (depth + 1) [(take (DATA_PATH_LEN - 1) path, depth)] s0
      in (q, filter ah_exists (se_cache s), se_appid s))"

section \<open>Tracking\<close>

record throne =
  tt_appid :: u32
  tt_cache :: "apk_path_hash list"

definition track_throne ::
    "ksu_env \<Rightarrow> sign_config \<Rightarrow> hash_api \<Rightarrow> throne_fs \<Rightarrow> bool \<Rightarrow> persist_env \<Rightarrow> bool \<Rightarrow> throne \<times> allowlist \<Rightarrow>
       throne \<times> allowlist" where
  "track_throne E cfg H fs boot_completed pe prune_only st =
     (let (th, al) = st in
      case tf_list fs of
        None \<Rightarrow> (th, al)
      | Some d \<Rightarrow>
          (case read_list fs d 0 0 [] of
             None \<Rightarrow> (th, al)
           | Some us \<Rightarrow>
               let th1 =
                 (if prune_only then th
                  else if list_ex (\<lambda>np. ud_uid np = ksu_get_manager_appid E (tt_appid th)) us then th
                  else if ksu_is_manager_appid_valid E (tt_appid th)
                  then th\<lparr>tt_appid := ksu_invalidate_manager_uid E (tt_appid th)\<rparr>
                  else let (_, cache, m) = search_manager E fs (is_manager_apk cfg H (tf_apk fs)) us
                             (lit ''/data/app'') 2 (tt_cache th, tt_appid th)
                    in th\<lparr>tt_appid := m, tt_cache := cache\<rparr>)
               in (th1, ksu_prune_allowlist boot_completed pe (is_uid_exist us) al)))"

definition ksu_throne_tracker_exit :: "throne \<Rightarrow> throne" where
  "ksu_throne_tracker_exit th = th\<lparr>tt_cache := []\<rparr>"

end
