(* ===== verification/Throne_Search.thy ===== *)
theory Throne_Search
  imports Throne_Tracker
begin

text \<open>
  What the search for the manager finds: the directories and packages in reach, stated as a
  relation, against the work list of \<^verbatim>\<open>kernel/manager/throne_tracker.c\<close>.
\<close>

section \<open>Directories in reach\<close>

definition skipped :: "dir_entry \<Rightarrow> bool" where
  "skipped e \<longleftrightarrow>
     (let name = de_name e; n = length name in
      strn_eq n name (lit ''..'') \<or> strn_eq n name (lit ''.'') \<or>
      (de_dir e \<and> n \<ge> 8 \<and> strn_eq 4 name (lit ''vmdl'') \<and> strn_eq 4 (drop (n - 4) name) (lit ''.tmp'')))"

definition below :: "bytes \<Rightarrow> dir_entry \<Rightarrow> bytes" where
  "below parent e = parent @ [47] @ de_name e"

definition is_apk :: "dir_entry \<Rightarrow> bool" where
  "is_apk e \<longleftrightarrow> length (de_name e) = 8 \<and> strn_eq 8 (de_name e) (lit ''base.apk'')"

definition subdirs :: "throne_fs \<Rightarrow> bytes \<times> nat \<Rightarrow> dir_entry list \<Rightarrow> (bytes \<times> nat) list" where
  "subdirs fs p es =
     map (\<lambda>e. (below (fst p) e, snd p - 1))
       (filter (\<lambda>e. \<not> skipped e \<and> length (below (fst p) e) < DATA_PATH_LEN \<and> de_dir e \<and> 0 < snd p \<and>
                    tf_path_alloc fs (below (fst p) e)) es)"

definition apks :: "bytes \<times> nat \<Rightarrow> dir_entry list \<Rightarrow> bytes list" where
  "apks p es =
     map (below (fst p))
       (filter (\<lambda>e. \<not> skipped e \<and> length (below (fst p) e) < DATA_PATH_LEN \<and> \<not> (de_dir e \<and> 0 < snd p) \<and>
                    is_apk e) es)"

text \<open>The directories the search reads: those on the file system of the root.\<close>

definition good_dir :: "throne_fs \<Rightarrow> bytes \<Rightarrow> bytes \<Rightarrow> dir_entry list" where
  "good_dir fs root p =
     (case tf_dir fs root of
        None \<Rightarrow> []
      | Some d0 \<Rightarrow>
          (case tf_dir fs p of
             None \<Rightarrow> []
           | Some d \<Rightarrow> if dr_magic d0 \<noteq> 0 \<and> dr_magic d = dr_magic d0 then dr_entries d else []))"

inductive within :: "throne_fs \<Rightarrow> bytes \<Rightarrow> nat \<Rightarrow> bytes \<times> nat \<Rightarrow> bool" for fs root depth where
  within_root: "within fs root depth (root, depth)"
| within_sub: "within fs root depth p \<Longrightarrow> q \<in> set (subdirs fs p (good_dir fs root (fst p))) \<Longrightarrow>
    within fs root depth q"

definition in_reach :: "throne_fs \<Rightarrow> bytes \<Rightarrow> nat \<Rightarrow> bytes \<Rightarrow> bool" where
  "in_reach fs root depth c \<longleftrightarrow> (\<exists>p. within fs root depth p \<and> c \<in> set (apks p (good_dir fs root (fst p))))"

text \<open>The hashes marked as seen.\<close>

definition live :: "apk_path_hash list \<Rightarrow> u32 set" where
  "live c = set (map ah_hash (filter ah_exists c))"

section \<open>One directory\<close>

lemma my_actor_eq:
  "\<not> se_stop s \<Longrightarrow> my_actor E fs mgr us (fst p) (snd p) e s =
     (True,
      if skipped e \<or> length (below (fst p) e) \<ge> DATA_PATH_LEN then s
      else if de_dir e \<and> 0 < snd p then
        (if tf_path_alloc fs (below (fst p) e) then s\<lparr>se_new := se_new s @ [(below (fst p) e, snd p - 1)]\<rparr> else s)
      else if \<not> is_apk e then s
      else case mark_exists (tf_name_hash fs (below (fst p) e)) (se_cache s) of
          Some c \<Rightarrow> s\<lparr>se_cache := c\<rparr>
        | None \<Rightarrow>
            if mgr (below (fst p) e) then
              s\<lparr>se_appid := crown_manager E us (below (fst p) e) (se_appid s), se_stop := True, se_cache := []\<rparr>
            else if tf_hash_alloc fs (below (fst p) e) then
              s\<lparr>se_cache := se_cache s @ [\<lparr>ah_hash = tf_name_hash fs (below (fst p) e), ah_exists = True\<rparr>]\<rparr>
            else s)"
  by (auto simp: my_actor_def Let_def skipped_def below_def is_apk_def split: option.split)

lemma live_simps [simp]:
  "live [] = {}" "live (p # c) = (if ah_exists p then insert (ah_hash p) (live c) else live c)"
  by (simp_all add: live_def)

lemma mark_exists_live: "mark_exists h c = Some c' \<Longrightarrow> live c' = insert h (live c)"
  by (induction h c arbitrary: c' rule: mark_exists.induct)
    (auto split: if_splits)

lemma live_append: "live (c @ [\<lparr>ah_hash = h, ah_exists = True\<rparr>]) = insert h (live c)"
  by (auto simp: live_def)

text \<open>How a run over entries ends: with a manager found in one of the packages, or without.\<close>

definition found_one :: "ksu_env \<Rightarrow> (bytes \<Rightarrow> bool) \<Rightarrow> uid_data list \<Rightarrow> bytes set \<Rightarrow> u32 \<Rightarrow> search \<Rightarrow> bool" where
  "found_one E mgr us C m s \<longleftrightarrow>
     se_stop s \<and> se_cache s = [] \<and> (\<exists>c\<in>C. mgr c \<and> se_appid s = crown_manager E us c m)"

definition not_found :: "throne_fs \<Rightarrow> (bytes \<Rightarrow> bool) \<Rightarrow> bytes set \<Rightarrow> search \<Rightarrow> search \<Rightarrow> bool" where
  "not_found fs mgr C s s' \<longleftrightarrow>
     \<not> se_stop s' \<and> se_appid s' = se_appid s \<and> se_magic s' = se_magic s \<and> live (se_cache s) \<subseteq> live (se_cache s') \<and>
     (\<forall>c\<in>C. mgr c \<longrightarrow> tf_name_hash fs c \<in> live (se_cache s'))"

lemma iterate_stopped:
  "se_stop s \<Longrightarrow> iterate_dir (my_actor E fs mgr us parent k) es s = s"
  by (cases es) (simp_all add: my_actor_def Let_def)

lemma iterate_spec:
  assumes "\<not> se_stop s"
  shows "found_one E mgr us (set (apks p es)) (se_appid s) (iterate_dir (my_actor E fs mgr us (fst p) (snd p)) es s) \<or>
    (not_found fs mgr (set (apks p es)) s (iterate_dir (my_actor E fs mgr us (fst p) (snd p)) es s) \<and>
     se_new (iterate_dir (my_actor E fs mgr us (fst p) (snd p)) es s) = se_new s @ subdirs fs p es)"
  using assms
proof (induction es arbitrary: s)
  case Nil
  then show ?case by (simp add: not_found_def apks_def subdirs_def)
next
  case (Cons e es)
  let ?c = "below (fst p) e" and ?act = "my_actor E fs mgr us (fst p) (snd p)"
  obtain t where t: "?act e s = (True, t)" using Cons.prems by (simp add: my_actor_eq)
  have it: "iterate_dir ?act (e # es) s = iterate_dir ?act es t" by (simp add: t)
  have ap: "set (apks p es) \<subseteq> set (apks p (e # es))" by (auto simp: apks_def)
  show ?case
  proof (cases "se_stop t")
    case True
    then have "?c \<in> set (apks p (e # es))" "mgr ?c" "se_appid t = crown_manager E us ?c (se_appid s)" "se_cache t = []"
      using t Cons.prems by (auto simp: my_actor_eq apks_def split: if_splits option.splits)
    then have "found_one E mgr us (set (apks p (e # es))) (se_appid s) t"
      using True by (auto simp: found_one_def)
    then show ?thesis unfolding it by (simp add: iterate_stopped True)
  next
    case False
    have step: "se_appid t = se_appid s" "se_magic t = se_magic s" "live (se_cache s) \<subseteq> live (se_cache t)"
      "\<forall>c\<in>set (apks p [e]). mgr c \<longrightarrow> tf_name_hash fs c \<in> live (se_cache t)"
      "se_new t = se_new s @ subdirs fs p [e]"
      using t False Cons.prems
      by (auto simp: my_actor_eq apks_def subdirs_def live_append dest: mark_exists_live
          split: if_splits option.splits)
    have a: "set (apks p (e # es)) = set (apks p [e]) \<union> set (apks p es)"
      and b: "subdirs fs p (e # es) = subdirs fs p [e] @ subdirs fs p es"
      by (auto simp: apks_def subdirs_def)
    from Cons.IH [OF False] show ?thesis
    proof
      assume "found_one E mgr us (set (apks p es)) (se_appid t) (iterate_dir ?act es t)"
      then show ?thesis using step(1) ap by (auto simp: found_one_def it simp del: iterate_dir.simps)
    next
      assume "not_found fs mgr (set (apks p es)) t (iterate_dir ?act es t) \<and>
          se_new (iterate_dir ?act es t) = se_new t @ subdirs fs p es"
      then show ?thesis using step by (auto simp: not_found_def a b it simp del: iterate_dir.simps)
    qed
  qed
qed

section \<open>The work list\<close>

text \<open>
  What holds between two visits: \<open>V\<close> are the directories visited, \<open>q\<close> those still to visit.
  Nothing was found, and then every sub-directory of a visited one is known and every package of
  one is checked or its hash was seen; or a manager was found.
\<close>

definition found_here :: "ksu_env \<Rightarrow> throne_fs \<Rightarrow> (bytes \<Rightarrow> bool) \<Rightarrow> uid_data list \<Rightarrow> bytes \<Rightarrow> nat \<Rightarrow> u32 \<Rightarrow> search \<Rightarrow> bool" where
  "found_here E fs mgr us root depth m s \<longleftrightarrow> found_one E mgr us (Collect (in_reach fs root depth)) m s"

definition searching ::
    "throne_fs \<Rightarrow> (bytes \<Rightarrow> bool) \<Rightarrow> bytes \<Rightarrow> nat \<Rightarrow> u32 \<Rightarrow> (bytes \<times> nat) set \<Rightarrow> (bytes \<times> nat) set \<Rightarrow> search \<Rightarrow> bool" where
  "searching fs mgr root depth m V q s \<longleftrightarrow>
     \<not> se_stop s \<and> se_appid s = m \<and> (\<forall>p\<in>V \<union> q. within fs root depth p) \<and> (root, depth) \<in> V \<union> q \<and>
     (\<forall>p\<in>V. set (subdirs fs p (good_dir fs root (fst p))) \<subseteq> V \<union> q) \<and>
     (\<forall>p\<in>V. \<forall>c\<in>set (apks p (good_dir fs root (fst p))). mgr c \<longrightarrow> tf_name_hash fs c \<in> live (se_cache s)) \<and>
     (if se_magic s = 0 then q \<subseteq> {(root, depth)}
      else \<exists>d0. tf_dir fs root = Some d0 \<and> se_magic s = dr_magic d0)"

text \<open>A visit reads exactly the good directories, and fixes the magic number.\<close>

lemma visit_reads:
  assumes s: "\<not> se_stop s"
    and m: "(se_magic s = 0 \<and> fst p = root) \<or>
      (se_magic s \<noteq> 0 \<and> (\<exists>d0. tf_dir fs root = Some d0 \<and> se_magic s = dr_magic d0))"
  shows "visit_dir E fs mgr us p s =
    iterate_dir (my_actor E fs mgr us (fst p) (snd p)) (good_dir fs root (fst p))
      (s\<lparr>se_magic := (case tf_dir fs root of None \<Rightarrow> 0 | Some d \<Rightarrow> dr_magic d)\<rparr>)"
proof -
  have self: "se_magic s = x \<Longrightarrow> s\<lparr>se_magic := x\<rparr> = s" for x by (cases s) simp
  show ?thesis
    using assms by (auto simp: self visit_dir_def good_dir_def Let_def split: option.split)
qed

lemma found_mono: "found_one E mgr us C m s \<Longrightarrow> C \<subseteq> D \<Longrightarrow> found_one E mgr us D m s"
  by (auto simp: found_one_def)

lemma visit_step:
  assumes "searching fs mgr root depth m V (insert p q) s" "se_new s = []"
  shows "found_here E fs mgr us root depth m (visit_dir E fs mgr us p s) \<or>
    searching fs mgr root depth m (insert p V) (q \<union> set (se_new (visit_dir E fs mgr us p s)))
      (visit_dir E fs mgr us p s)"
proof -
  let ?M = "case tf_dir fs root of None \<Rightarrow> 0 | Some d \<Rightarrow> dr_magic d"
  let ?t = "s\<lparr>se_magic := ?M\<rparr>"
  let ?v = "visit_dir E fs mgr us p s"
  let ?es = "good_dir fs root (fst p)"
  have ns: "\<not> se_stop s" and w: "within fs root depth p"
    using assms(1) by (auto simp: searching_def)
  have m: "(se_magic s = 0 \<and> fst p = root) \<or>
      (se_magic s \<noteq> 0 \<and> (\<exists>d0. tf_dir fs root = Some d0 \<and> se_magic s = dr_magic d0))"
    using assms(1) by (auto simp: searching_def split: if_splits option.splits)
  have v: "?v = iterate_dir (my_actor E fs mgr us (fst p) (snd p)) ?es ?t"
    by (rule visit_reads [OF ns m])
  have nt: "\<not> se_stop ?t" using ns by simp
  from iterate_spec [OF nt, of E mgr us p ?es fs] show ?thesis
  proof (elim disjE)
    assume "found_one E mgr us (set (apks p ?es)) (se_appid ?t) (iterate_dir (my_actor E fs mgr us (fst p) (snd p)) ?es ?t)"
    moreover have "set (apks p ?es) \<subseteq> Collect (in_reach fs root depth)"
      unfolding in_reach_def using w by blast
    moreover have "se_appid ?t = m" using assms(1) by (simp add: searching_def)
    ultimately show ?thesis
      unfolding v found_here_def by (metis found_mono)
  next
    assume nf: "not_found fs mgr (set (apks p ?es)) ?t (iterate_dir (my_actor E fs mgr us (fst p) (snd p)) ?es ?t) \<and>
      se_new (iterate_dir (my_actor E fs mgr us (fst p) (snd p)) ?es ?t) = se_new ?t @ subdirs fs p ?es"
    then have new: "set (se_new ?v) = set (subdirs fs p ?es)"
      and st: "\<not> se_stop ?v" "se_appid ?v = m" "se_magic ?v = ?M" "live (se_cache s) \<subseteq> live (se_cache ?v)"
        "\<forall>c\<in>set (apks p ?es). mgr c \<longrightarrow> tf_name_hash fs c \<in> live (se_cache ?v)"
      using assms unfolding v by (auto simp: not_found_def searching_def)
    have wi: "within fs root depth x" if "x \<in> set (subdirs fs p ?es)" for x
      using within_sub [OF w that] .
    have mg: "if ?M = 0 then q \<union> set (subdirs fs p ?es) \<subseteq> {(root, depth)}
        else \<exists>d0. tf_dir fs root = Some d0 \<and> ?M = dr_magic d0"
      using assms(1) by (auto simp: searching_def good_dir_def subdirs_def split: if_splits option.splits)
    have "searching fs mgr root depth m (insert p V) (q \<union> set (subdirs fs p ?es)) ?v"
      unfolding searching_def st(3)
      by (intro conjI) (use assms(1) st wi w mg in \<open>auto simp: searching_def\<close>)
    then show ?thesis unfolding new by blast
  qed
qed

lemma searching_new [simp]: "searching fs mgr root depth m V q (s\<lparr>se_new := x\<rparr>) \<longleftrightarrow> searching fs mgr root depth m V q s"
  by (simp add: searching_def)

lemma found_here_new [simp]: "found_here E fs mgr us root depth m (s\<lparr>se_new := x\<rparr>) \<longleftrightarrow> found_here E fs mgr us root depth m s"
  by (simp add: found_here_def found_one_def)

lemma found_here_stays:
  "found_here E fs mgr us root depth m s \<Longrightarrow> found_here E fs mgr us root depth m (visit_dir E fs mgr us p s)"
  by (simp add: found_here_def found_one_def visit_dir_def)

definition progress ::
    "ksu_env \<Rightarrow> throne_fs \<Rightarrow> (bytes \<Rightarrow> bool) \<Rightarrow> uid_data list \<Rightarrow> bytes \<Rightarrow> nat \<Rightarrow> u32 \<Rightarrow> (bytes \<times> nat) list \<Rightarrow> search \<Rightarrow> bool" where
  "progress E fs mgr us root depth m q s \<longleftrightarrow>
     found_here E fs mgr us root depth m s \<or> (\<exists>V. searching fs mgr root depth m V (set q) s)"

lemma visit_progress:
  assumes "progress E fs mgr us root depth m (p # q) s"
  shows "progress E fs mgr us root depth m (q @ se_new (visit_dir E fs mgr us p (s\<lparr>se_new := []\<rparr>)))
    (visit_dir E fs mgr us p (s\<lparr>se_new := []\<rparr>))"
  using assms unfolding progress_def
proof (elim disjE exE)
  assume "found_here E fs mgr us root depth m s"
  then have "found_here E fs mgr us root depth m (visit_dir E fs mgr us p (s\<lparr>se_new := []\<rparr>))"
    by (intro found_here_stays) simp
  then show "found_here E fs mgr us root depth m (visit_dir E fs mgr us p (s\<lparr>se_new := []\<rparr>)) \<or> (\<exists>V. searching fs mgr root depth m V
      (set (q @ se_new (visit_dir E fs mgr us p (s\<lparr>se_new := []\<rparr>)))) (visit_dir E fs mgr us p (s\<lparr>se_new := []\<rparr>)))" ..
next
  fix V assume "searching fs mgr root depth m V (set (p # q)) s"
  then have "searching fs mgr root depth m V (insert p (set q)) (s\<lparr>se_new := []\<rparr>)" by simp
  from visit_step [OF this, of E us]
  show "found_here E fs mgr us root depth m (visit_dir E fs mgr us p (s\<lparr>se_new := []\<rparr>)) \<or> (\<exists>V. searching fs mgr root depth m V
      (set (q @ se_new (visit_dir E fs mgr us p (s\<lparr>se_new := []\<rparr>)))) (visit_dir E fs mgr us p (s\<lparr>se_new := []\<rparr>)))"
    by auto
qed

lemma pass_progress:
  "progress E fs mgr us root depth m q s \<Longrightarrow>
   progress E fs mgr us root depth m (fst (search_pass E fs mgr us q s)) (snd (search_pass E fs mgr us q s))"
proof (induction E fs mgr us q s rule: search_pass.induct)
  case (2 E fs mgr us p s)
  then show ?case using visit_progress [of E fs mgr us root depth m p "[]" s] by (simp add: Let_def)
next
  case (3 E fs mgr us p q r s)
  then show ?case using visit_progress [of E fs mgr us root depth m p "q # r" s] by (simp add: Let_def)
qed simp

lemma passes_progress:
  "progress E fs mgr us root depth m q s \<Longrightarrow>
   progress E fs mgr us root depth m (fst (search_passes E fs mgr us n q s)) (snd (search_passes E fs mgr us n q s))"
proof (induction n arbitrary: q s)
  case (Suc n)
  then show ?case using pass_progress [of E fs mgr us root depth m q s] by (simp add: split_def Let_def)
qed simp

text \<open>Each run over the work list lowers the depth, so the runs empty it.\<close>

lemma pass_depth:
  "\<forall>p\<in>set q. snd p \<le> n \<Longrightarrow> \<forall>p\<in>set (fst (search_pass E fs mgr us q s)). snd p < n"
proof (induction E fs mgr us q s rule: search_pass.induct)
  case (2 E fs mgr us p s)
  then show ?case by (auto simp: Let_def dest!: visit_new)
next
  case (3 E fs mgr us p q r s)
  have "\<forall>x\<in>set (se_new (visit_dir E fs mgr us p (s\<lparr>se_new := []\<rparr>))). snd x \<le> n"
    using 3(2) by (force dest!: visit_new)
  then show ?case using 3 by (simp add: Let_def ball_Un)
qed simp

lemma passes_empty:
  "\<forall>p\<in>set q. snd p < n \<Longrightarrow> fst (search_passes E fs mgr us n q s) = []"
proof (induction n arbitrary: q s)
  case (Suc n)
  have "\<forall>p\<in>set (fst (search_pass E fs mgr us q s)). snd p < n"
    using Suc.prems by (intro pass_depth) auto
  then show ?case using Suc.IH by (simp add: split_def Let_def)
next
  case 0
  then show ?case by (cases q) auto
qed

lemma searching_end:
  assumes "searching fs mgr root depth m V {} s"
  shows "within fs root depth p \<Longrightarrow> p \<in> V"
proof (induction rule: within.induct)
  case within_root
  then show ?case using assms by (simp add: searching_def)
next
  case (within_sub p q)
  then show ?case using assms by (auto simp: searching_def)
qed

lemma search_outcome:
  "case search_manager E fs mgr us path depth (cache, m) of (q, cache', m') \<Rightarrow>
     q = [] \<and>
     ((\<exists>c. in_reach fs (take 383 path) depth c \<and> mgr c \<and> m' = crown_manager E us c m \<and> cache' = []) \<or>
      (m' = m \<and> tf_name_hash fs ` {c. in_reach fs (take 383 path) depth c \<and> mgr c} \<subseteq> ah_hash ` set cache'))"
proof -
  let ?root = "take 383 path"
  define s0 where "s0 = \<lparr>se_stop = False, se_new = [], se_cache = map (ah_exists_update (\<lambda>_. False)) cache,
    se_appid = m, se_magic = 0\<rparr>"
  obtain q s where qs: "search_passes E fs mgr us (depth + 1) [(?root, depth)] s0 = (q, s)"
    by (cases "search_passes E fs mgr us (depth + 1) [(?root, depth)] s0")
  have "progress E fs mgr us ?root depth m [(?root, depth)] s0"
    unfolding progress_def searching_def
    by (intro disjI2 exI [of _ "{}"]) (simp add: s0_def within_root)
  from passes_progress [OF this, of "depth + 1"]
  have pr: "progress E fs mgr us ?root depth m q s" unfolding qs by simp
  have q: "q = []"
    using passes_empty [of "[(?root, depth)]" "depth + 1" E fs mgr us s0] unfolding qs by simp
  have sm: "search_manager E fs mgr us path depth (cache, m) = (q, filter ah_exists (se_cache s), se_appid s)"
  proof -
    have n: "DATA_PATH_LEN - 1 = (383 :: nat)" by simp
    show ?thesis
      unfolding search_manager_def Let_def prod.case s0_def [symmetric] n qs ..
  qed
  have lv: "live c = ah_hash ` set (filter ah_exists c)" for c by (simp add: live_def)
  from pr show ?thesis
    unfolding progress_def
  proof (elim disjE exE)
    assume "found_here E fs mgr us ?root depth m s"
    then show ?thesis by (auto simp: sm q found_here_def found_one_def)
  next
    fix V assume V: "searching fs mgr ?root depth m V (set q) s"
    have "tf_name_hash fs c \<in> live (se_cache s)" if c: "in_reach fs ?root depth c" "mgr c" for c
    proof -
      from c(1) obtain p where "within fs ?root depth p" "c \<in> set (apks p (good_dir fs ?root (fst p)))"
        by (auto simp: in_reach_def)
      moreover have "searching fs mgr ?root depth m V {} s" using V by (simp add: q)
      ultimately have "p \<in> V" "c \<in> set (apks p (good_dir fs ?root (fst p)))"
        using searching_end by blast+
      then show ?thesis using V c(2) unfolding searching_def by blast
    qed
    moreover have "se_appid s = m" using V by (simp add: searching_def)
    ultimately show ?thesis by (auto simp: sm q lv)
  qed
qed

text \<open>
  C15: The search ends with an empty work list. Either it stops at a package in reach that passes the
  signature check, crowns its uid and forgets the known packages; or the app id is unchanged and
  the hash of every package in reach that would pass the check is a known one.
\<close>

theorem search_manager_spec:
  "case search_manager E fs mgr us path depth (cache, m) of (q, cache', m') \<Rightarrow>
     q = [] \<and>
     ((\<exists>c. in_reach fs (take 383 path) depth c \<and> mgr c \<and> m' = crown_manager E us c m \<and> cache' = []) \<or>
      (m' = m \<and> tf_name_hash fs ` {c. in_reach fs (take 383 path) depth c \<and> mgr c} \<subseteq> ah_hash ` set cache'))"
  by (rule search_outcome)

section \<open>Reading the package list\<close>

text \<open>A line of the list: name, uid in decimal, and further columns.\<close>

fun dec :: "nat \<Rightarrow> bytes" where
  "dec n = (if n < 10 then [of_nat (48 + n)] else dec (n div 10) @ [of_nat (48 + n mod 10)])"

declare dec.simps [simp del]

definition line_image :: "uid_data \<times> bytes \<Rightarrow> bytes" where
  "line_image l = ud_package (fst l) @ [32] @ dec (unat (ud_uid (fst l))) @ [32] @ snd l @ [10]"

definition line_ok :: "uid_data \<times> bytes \<Rightarrow> bool" where
  "line_ok l \<longleftrightarrow>
     0 \<notin> set (ud_package (fst l)) \<and> 10 \<notin> set (ud_package (fst l)) \<and> 32 \<notin> set (ud_package (fst l)) \<and>
     10 \<notin> set (snd l) \<and> length (ud_package (fst l)) + length (dec (unat (ud_uid (fst l)))) + 2 \<le> 255"

definition reads_fine :: "throne_fs \<Rightarrow> bool" where
  "reads_fine fs \<longleftrightarrow> (\<forall>i. tf_char_ok fs i \<and> tf_line_ok fs i \<and> tf_line_alloc fs i)"

lemma digit_word: "d < 10 \<Longrightarrow> unat (of_nat (48 + d) :: u8) = 48 + d"
  by (subst unat_of_nat) simp

lemma dec_digits: "list_all is_digit (dec n)"
proof (induction n rule: dec.induct)
  case (1 n)
  have "is_digit (of_nat (48 + d))" if "d < 10" for d
    using digit_word [OF that] that unfolding is_digit_def word_le_nat_alt by simp
  then show ?case using 1 by (subst dec.simps) auto
qed

lemma dec_value_dec: "dec_value (dec n) = n"
proof (induction n rule: dec.induct)
  case (1 n)
  show ?case
  proof (cases "n < 10")
    case True
    then show ?thesis
      using digit_word [OF True] by (subst dec.simps) (simp add: dec_value_def del: of_nat_add)
  next
    case False
    then show ?thesis
      using 1 digit_word [of "n mod 10"]
      by (subst dec.simps) (simp add: dec_value_def del: of_nat_add)
  qed
qed

lemma dec_nonempty [simp]: "dec n \<noteq> []"
  by (subst dec.simps) simp

lemma not_digit: "\<not> is_digit 0" "\<not> is_digit 10" "\<not> is_digit 32" "\<not> is_digit 43"
  by (simp_all add: is_digit_def)

lemma digits_free: "list_all is_digit ds \<Longrightarrow> 0 \<notin> set ds \<and> 10 \<notin> set ds \<and> 32 \<notin> set ds \<and> 43 \<notin> set ds"
  using not_digit by (auto simp: list_all_iff)

lemma strsep_at: "32 \<notin> set s \<Longrightarrow> strsep (s @ 32 # r) = (s, Some r)"
  by (induction s) (auto simp: strsep_def)

lemma kstrtou32_dec: "kstrtou32 (dec (unat u)) = Some u"
proof -
  have d: "list_all is_digit (dec (unat u))" by (rule dec_digits)
  have t: "takeWhile is_digit (dec (unat u)) = dec (unat u)" "dropWhile is_digit (dec (unat u)) = []"
    using d by (simp_all add: list_all_iff takeWhile_eq_all_conv dropWhile_eq_Nil_conv)
  have h: "(case dec (unat u) of b # r \<Rightarrow> if b = 43 then r else dec (unat u) | [] \<Rightarrow> dec (unat u)) = dec (unat u)"
    using digits_free [OF d] by (auto split: list.split)
  show ?thesis
    unfolding kstrtou32_def h Let_def t dec_value_dec using unat_bound [of u] by simp
qed

lemma parse_line_image:
  assumes "line_ok l"
  shows "parse_line (take 255 (line_image l @ tl1)) = Some (fst l)"
proof -
  let ?p = "ud_package (fst l)" and ?d = "dec (unat (ud_uid (fst l)))"
  define rest where "rest = snd l @ [10] @ tl1"
  have fr: "0 \<notin> set (?p @ 32 # ?d)" "32 \<notin> set ?p" "32 \<notin> set ?d"
    using assms digits_free [OF dec_digits, of "unat (ud_uid (fst l))"] by (auto simp: line_ok_def)
  have len: "length (?p @ 32 # ?d @ [32]) \<le> 255" using assms by (simp add: line_ok_def)
  have "line_image l @ tl1 = (?p @ 32 # ?d @ [32]) @ rest"
    by (simp add: line_image_def rest_def)
  then have tk: "take 255 (line_image l @ tl1) = (?p @ 32 # ?d @ [32]) @ take (255 - length (?p @ 32 # ?d @ [32])) rest"
  proof -
    have "length x \<le> 255 \<Longrightarrow> take 255 (x @ y) = x @ take (255 - length x) y" for x y :: bytes
      by simp
    then show ?thesis using len \<open>line_image l @ tl1 = _\<close> by metis
  qed
  have c: "c_str ((?p @ 32 # ?d @ [32]) @ t) = ?p @ 32 # (?d @ 32 # c_str t)" for t
    using fr(1) by (simp add: c_str_def takeWhile_append)
  have "length ?p \<le> 255" using len by simp
  then show ?thesis
    unfolding parse_line_def tk c by (simp add: strsep_at fr kstrtou32_dec)
qed

lemma read_scan:
  assumes "reads_fine fs" "pos \<le> n" "n \<le> length d" "\<forall>j. pos \<le> j \<and> j < n \<longrightarrow> d ! j \<noteq> 10"
  shows "read_list fs d pos ls acc = read_list fs d n ls acc"
  using assms(2,4)
proof (induction "n - pos" arbitrary: pos)
  case (Suc k)
  have "pos < n" "pos < length d" "d ! pos \<noteq> 10" using Suc.hyps(2) Suc.prems assms(3) by auto
  then have "read_list fs d pos ls acc = read_list fs d (pos + 1) ls acc"
    using assms(1) by (subst read_list.simps) (simp add: reads_fine_def)
  also have "\<dots> = read_list fs d n ls acc"
    by (rule Suc.hyps(1)) (use Suc.prems Suc.hyps(2) in auto)
  finally show ?case .
qed simp

text \<open>One line: the loop runs to its newline and parses what follows its start.\<close>

lemma read_line:
  assumes "reads_fine fs" "10 \<notin> set line"
  shows "read_list fs (pre @ line @ [10] @ rest) (length pre) (length pre) acc =
    (case parse_line (take 255 (line @ [10] @ rest)) of
       None \<Rightarrow> Some acc
     | Some u \<Rightarrow> read_list fs (pre @ line @ [10] @ rest) (length (pre @ line @ [10])) (length (pre @ line @ [10])) (acc @ [u]))"
proof -
  let ?d = "pre @ line @ [10] @ rest" and ?n = "length pre + length line"
  have "\<forall>j. length pre \<le> j \<and> j < ?n \<longrightarrow> ?d ! j \<noteq> 10"
  proof (intro allI impI)
    fix j assume j: "length pre \<le> j \<and> j < ?n"
    then have "j - length pre < length line" by auto
    then have "?d ! j = line ! (j - length pre)" "line ! (j - length pre) \<in> set line"
      using j by (simp_all add: nth_append)
    then show "?d ! j \<noteq> 10" using assms(2) by auto
  qed
  then have "read_list fs ?d (length pre) (length pre) acc = read_list fs ?d ?n (length pre) acc"
    by (intro read_scan) (simp_all add: assms(1))
  also have "\<dots> = (case parse_line (take 255 (line @ [10] @ rest)) of
       None \<Rightarrow> Some acc
     | Some u \<Rightarrow> read_list fs ?d (?n + 1) (?n + 1) (acc @ [u]))"
    using assms(1) by (subst read_list.simps) (auto simp: reads_fine_def slice_def Let_def nth_append)
  finally show ?thesis by (simp cong: option.case_cong)
qed

lemma read_lines:
  assumes "reads_fine fs"
  shows "\<forall>l\<in>set ls. line_ok l \<Longrightarrow>
   read_list fs (pre @ concat (map line_image ls) @ rest) (length pre) (length pre) acc =
   read_list fs (pre @ concat (map line_image ls) @ rest) (length (pre @ concat (map line_image ls)))
     (length (pre @ concat (map line_image ls))) (acc @ map fst ls)"
proof (induction ls arbitrary: pre acc)
  case (Cons l ls)
  let ?line = "ud_package (fst l) @ [32] @ dec (unat (ud_uid (fst l))) @ [32] @ snd l"
  have img: "line_image l = ?line @ [10]" by (simp add: line_image_def)
  have "10 \<notin> set ?line"
    using Cons.prems digits_free [OF dec_digits, of "unat (ud_uid (fst l))"] by (auto simp: line_ok_def)
  from read_line [OF assms this, of pre "concat (map line_image ls) @ rest" acc]
  have "read_list fs (pre @ line_image l @ concat (map line_image ls) @ rest) (length pre) (length pre) acc =
      read_list fs (pre @ line_image l @ concat (map line_image ls) @ rest) (length (pre @ line_image l))
        (length (pre @ line_image l)) (acc @ [fst l])"
    using Cons.prems parse_line_image [of l "concat (map line_image ls) @ rest"] by (simp add: img)
  then show ?case
    using Cons.IH [of "pre @ line_image l" "acc @ [fst l]"] Cons.prems by simp
qed simp

text \<open>
  A package list written line by line is read back as it was: every name and uid, in the order of
  the file, provided names hold no blank, newline or NUL and the two first columns of a line
  fit the buffer.
\<close>

theorem package_list_roundtrip:
  assumes "reads_fine fs" "\<forall>l\<in>set ls. line_ok l"
  shows "read_list fs (concat (map line_image ls)) 0 0 [] = Some (map fst ls)"
proof -
  have "read_list fs d (length d) k acc = Some acc" for d k acc
    by (subst read_list.simps) simp
  then show ?thesis using read_lines [OF assms, of "[]" "[]" "[]"] by simp
qed

definition ex_fs :: throne_fs where
  "ex_fs = \<lparr>tf_list = None, tf_char_ok = (\<lambda>_. True), tf_line_ok = (\<lambda>_. True), tf_line_alloc = (\<lambda>_. True),
     tf_dir = (\<lambda>_. None), tf_apk = (\<lambda>_. None), tf_path_alloc = (\<lambda>_. True), tf_hash_alloc = (\<lambda>_. True),
     tf_name_hash = (\<lambda>_. 0)\<rparr>"

definition ex_line :: "uid_data \<times> bytes" where
  "ex_line = (\<lparr>ud_uid = 7, ud_package = lit ''me''\<rparr>, lit ''0'')"

lemma ex_fs_fine: "reads_fine ex_fs"
  by (simp add: reads_fine_def ex_fs_def)

lemma ex_line_ok: "line_ok ex_line"
  by (simp add: line_ok_def ex_line_def lit_def dec.simps)

theorem package_list_roundtrip_witness:
  "read_list ex_fs (concat (map line_image [ex_line, ex_line])) 0 0 [] = Some [fst ex_line, fst ex_line]"
  using package_list_roundtrip [of ex_fs "[ex_line, ex_line]"] by (simp add: ex_fs_fine ex_line_ok)

text \<open>
  A line that cannot be parsed ends the reading without an error: every package behind it is
  missing from the list that the allowlist is then pruned with.
\<close>

theorem bad_line_truncates:
  assumes "reads_fine fs" "\<forall>l\<in>set ls. line_ok l" "10 \<notin> set bad"
    and "parse_line (take 255 (bad @ [10] @ rest)) = None"
    and "tf_list fs = Some (concat (map line_image ls) @ bad @ [10] @ rest)"
  shows "read_list fs (concat (map line_image ls) @ bad @ [10] @ rest) 0 0 [] = Some (map fst ls) \<and>
    track_throne E cfg H fs True pe True (th, al) =
      (th, ksu_prune_allowlist True pe (is_uid_exist (map fst ls)) al)"
proof -
  have "read_list fs (concat (map line_image ls) @ bad @ [10] @ rest) 0 0 [] = Some (map fst ls)"
    using read_lines [OF assms(1,2), of "[]" "bad @ [10] @ rest" "[]"]
      read_line [OF assms(1,3), of "concat (map line_image ls)" rest "map fst ls"] assms(4) by simp
  then show ?thesis by (simp add: track_throne_def assms(5))
qed

theorem bad_line_truncates_witness:
  "read_list (ex_fs\<lparr>tf_list := Some (line_image ex_line @ [97, 32, 98] @ [10] @ line_image ex_line)\<rparr>)
     (line_image ex_line @ [97, 32, 98] @ [10] @ line_image ex_line) 0 0 [] = Some [fst ex_line]"
proof -
  have "parse_line (take 255 ([97, 32, 98] @ [10] @ line_image ex_line)) = None"
    by (simp add: parse_line_def line_image_def ex_line_def lit_def dec.simps c_str_def strsep_def kstrtou32_def
        is_digit_def)
  moreover have "reads_fine (ex_fs\<lparr>tf_list := x\<rparr>)" for x by (simp add: reads_fine_def ex_fs_def)
  ultimately show ?thesis
    using bad_line_truncates [of "ex_fs\<lparr>tf_list := Some (line_image ex_line @ [97, 32, 98] @ [10] @ line_image ex_line)\<rparr>"
        "[ex_line]" "[97, 32, 98]" "line_image ex_line"]
    by (simp add: ex_line_ok)
qed

section \<open>Who becomes the manager\<close>

lemma crown_manager_cases:
  "crown_manager E us c m = m \<or>
   (\<exists>pkg np. pkg_path (c_str c) pkg \<and> np \<in> set us \<and> strn_eq 256 (ud_package np) pkg \<and>
      crown_manager E us c m = ud_uid np)"
proof (cases "get_pkg_from_apk_path c")
  case (Some pkg)
  show ?thesis
  proof (cases "find (\<lambda>np. strn_eq 256 (ud_package np) pkg) us")
    case None
    then show ?thesis using Some by (simp add: crown_manager_def)
  next
    case (Some np)
    then have "np \<in> set us" "strn_eq 256 (ud_package np) pkg"
      by (auto simp: find_Some_iff)
    moreover have "pkg_path (c_str c) pkg" using \<open>get_pkg_from_apk_path c = Some pkg\<close> by (rule pkg_of_path)
    ultimately show ?thesis
      using Some \<open>get_pkg_from_apk_path c = Some pkg\<close>
      by (auto simp: crown_manager_def ksu_set_manager_appid_def)
  qed
qed (simp add: crown_manager_def)

lemma search_appid:
  assumes "search_manager E fs mgr us path depth (cache, m) = (q, cache', m')" "m' \<noteq> m"
  shows "\<exists>c pkg np. in_reach fs (take 383 path) depth c \<and> mgr c \<and> pkg_path (c_str c) pkg \<and> np \<in> set us \<and>
    strn_eq 256 (ud_package np) pkg \<and> m' = ud_uid np"
proof -
  have "(\<exists>c. in_reach fs (take 383 path) depth c \<and> mgr c \<and> m' = crown_manager E us c m) \<or> m' = m"
    using search_outcome [where E = E and fs = fs and mgr = mgr and us = us and path = path and depth = depth
        and cache = cache and m = m]
    unfolding assms(1) by auto
  then obtain c where c: "in_reach fs (take 383 path) depth c" "mgr c" "m' = crown_manager E us c m"
    using assms(2) by blast
  show ?thesis
    using crown_manager_cases [of E us c m] c assms(2) by auto
qed

text \<open>
  C14: The manager's app id changes only in two ways, and never when the tracker only prunes. It becomes
  invalid when no listed package has it; or it becomes the uid listed for the package name in the path
  of an APK in reach below \<^verbatim>\<open>/data/app\<close> that passes the signature check.
\<close>

theorem manager_appid_changes:
  assumes "track_throne E cfg H fs boot pe prune_only (th, al) = (th', al')" "tt_appid th' \<noteq> tt_appid th"
  shows "\<not> prune_only \<and>
    (\<exists>d us. tf_list fs = Some d \<and> read_list fs d 0 0 [] = Some us \<and>
       ((tt_appid th' = KSU_INVALID_APPID \<and> tt_appid th \<notin> ud_uid ` set us) \<or>
        (\<exists>c pkg np. in_reach fs (lit ''/data/app'') 2 c \<and> is_manager_apk cfg H (tf_apk fs) c \<and>
           pkg_path (c_str c) pkg \<and> np \<in> set us \<and> strn_eq 256 (ud_package np) pkg \<and> tt_appid th' = ud_uid np)))"
proof -
  have tk: "take 383 (lit ''/data/app'') = lit ''/data/app''" by (simp add: lit_def)
  obtain d where d: "tf_list fs = Some d" using assms by (auto simp: track_throne_def split: option.splits)
  obtain us where us: "read_list fs d 0 0 [] = Some us"
    using assms d by (auto simp: track_throne_def split: option.splits)
  obtain q c m where sm: "search_manager E fs (is_manager_apk cfg H (tf_apk fs)) us (lit ''/data/app'') 2
      (tt_cache th, tt_appid th) = (q, c, m)"
    by (metis prod_cases3)
  have th': "th' = (if prune_only then th
      else if list_ex (\<lambda>np. ud_uid np = ksu_get_manager_appid E (tt_appid th)) us then th
      else if ksu_is_manager_appid_valid E (tt_appid th) then th\<lparr>tt_appid := ksu_invalidate_manager_uid E (tt_appid th)\<rparr>
      else th\<lparr>tt_appid := m, tt_cache := c\<rparr>)"
    using assms(1) by (simp add: track_throne_def d us sm split: if_splits)
  show ?thesis
  proof (cases "ksu_is_manager_appid_valid E (tt_appid th)")
    case True
    then show ?thesis
      using assms(2) d us unfolding th'
      by (auto simp: ksu_invalidate_manager_uid_def ksu_get_manager_appid_def list_ex_iff split: if_splits)
  next
    case False
    then have "m \<noteq> tt_appid th" "\<not> prune_only" "tt_appid th' = m"
      using assms(2) unfolding th' by (auto split: if_splits)
    then show ?thesis
      using search_appid [OF sm, unfolded tk] d us by blast
  qed
qed

text \<open>One installed package, \<^verbatim>\<open>me\<close>, in \<^verbatim>\<open>/data/app/me-1/base.apk\<close>.\<close>

definition ex_disk :: throne_fs where
  "ex_disk = ex_fs\<lparr>tf_list := Some (line_image ex_line),
     tf_dir := [lit ''/data/app'' \<mapsto> \<lparr>dr_magic = 1, dr_entries = [\<lparr>de_name = lit ''me-1'', de_dir = True\<rparr>]\<rparr>,
                lit ''/data/app/me-1'' \<mapsto> \<lparr>dr_magic = 1, dr_entries = [\<lparr>de_name = lit ''base.apk'', de_dir = False\<rparr>]\<rparr>],
     tf_apk := [lit ''/data/app/me-1/base.apk'' \<mapsto> disk_file ex_apk]\<rparr>"

definition ex_config :: sign_config where
  "ex_config = \<lparr>sc_package = None, sc_size = 2, sc_hash = ex_digest, sc_second = None\<rparr>"

definition ex_build :: ksu_env where
  "ex_build = \<lparr>disable_policy = False, disable_manager = False, allow_shell = False, uid_hash = (\<lambda>_. 0)\<rparr>"

definition ex_throne :: throne where
  "ex_throne = \<lparr>tt_appid = KSU_INVALID_APPID, tt_cache = []\<rparr>"

lemma ex_disk_list: "read_list ex_disk (line_image ex_line) 0 0 [] = Some [\<lparr>ud_uid = 7, ud_package = lit ''me''\<rparr>]"
proof -
  have "reads_fine ex_disk" by (simp add: reads_fine_def ex_disk_def ex_fs_def)
  from read_lines [OF this, of "[ex_line]" "[]" "[]" "[]"]
  have "read_list ex_disk (line_image ex_line) 0 0 [] = read_list ex_disk (line_image ex_line)
      (length (line_image ex_line)) (length (line_image ex_line)) [fst ex_line]"
    using ex_line_ok by simp
  also have "\<dots> = Some [fst ex_line]" by (subst read_list.simps) simp
  finally show ?thesis by (simp add: ex_line_def)
qed

lemma ex_disk_search:
  "search_manager ex_build ex_disk (is_manager_apk ex_config ex_api (tf_apk ex_disk))
     [\<lparr>ud_uid = 7, ud_package = lit ''me''\<rparr>] (lit ''/data/app'') 2 ([], KSU_INVALID_APPID) = ([], [], 7)"
proof -
  have m: "is_manager_apk ex_config ex_api (tf_apk ex_disk) (lit ''/data/app/me-1/base.apk'')"
    using ex_apk_accepted by (simp add: is_manager_apk_def ex_config_def ex_disk_def)
  have p: "get_pkg_from_apk_path (lit ''/data/app/me-1/base.apk'') = Some (lit ''me'')"
    by code_simp
  have c: "crown_manager ex_build [\<lparr>ud_uid = 7, ud_package = lit ''me''\<rparr>] (lit ''/data/app/me-1/base.apk'') a = 7" for a
    by (simp add: crown_manager_def p strn_eq_def ksu_set_manager_appid_def ex_build_def)
  show ?thesis
    using m c
    by (simp add: search_manager_def numeral_3_eq_3 visit_dir_def ex_disk_def my_actor_def lit_def strn_eq_def c_str_def
        ex_fs_def)
qed

lemma ex_track:
  "track_throne ex_build ex_config ex_api ex_disk True pe False (ex_throne, al) =
     (\<lparr>tt_appid = 7, tt_cache = []\<rparr>,
      ksu_prune_allowlist True pe (is_uid_exist [\<lparr>ud_uid = 7, ud_package = lit ''me''\<rparr>]) al)"
proof -
  have "tf_list ex_disk = Some (line_image ex_line)" by (simp add: ex_disk_def)
  then show ?thesis
    using ex_disk_search
    by (simp add: track_throne_def ex_disk_list ex_throne_def ksu_get_manager_appid_def
        ksu_is_manager_appid_valid_def ex_build_def)
qed

theorem manager_appid_changes_witness:
  "\<exists>d us. tf_list ex_disk = Some d \<and> read_list ex_disk d 0 0 [] = Some us \<and>
     (\<exists>c pkg np. in_reach ex_disk (lit ''/data/app'') 2 c \<and> is_manager_apk ex_config ex_api (tf_apk ex_disk) c \<and>
        pkg_path (c_str c) pkg \<and> np \<in> set us \<and> strn_eq 256 (ud_package np) pkg \<and> ud_uid np = 7)"
proof -
  have "(7 :: u32) \<noteq> KSU_INVALID_APPID" by simp
  then show ?thesis
    using manager_appid_changes [OF ex_track] by (auto simp: ex_throne_def)
qed

end
