(* ===== verification/User_Mem.thy ===== *)
theory User_Mem
  imports Ksu_Prelude
begin

text \<open>
  The user-space memory a system call hands to the module. An address is mapped or not; a copy
  stops at the first byte that is not, and a copy to user space reports how many bytes it left
  out. The accessors are those the module calls (\<^verbatim>\<open>copy_from_user\<close>, \<^verbatim>\<open>copy_to_user\<close>,
  \<^verbatim>\<open>get_user\<close>, \<^verbatim>\<open>strncpy_from_user\<close> and its \<^verbatim>\<open>_nofault\<close> form). User pointers are
  64-bit words and are not offset past the end of the address space, so an address is the
  number a pointer denotes. The collection \<open>umem_simps\<close> holds the rules that read memory back
  after a write.
\<close>

named_theorems umem_simps

type_synonym umem = "nat \<Rightarrow> u8 option"

definition is_mapped :: "umem \<Rightarrow> nat \<Rightarrow> nat \<Rightarrow> bool" where
  "is_mapped m a n \<longleftrightarrow> list_all (\<lambda>i. m (a + i) \<noteq> None) [0..<n]"

definition read_bytes :: "umem \<Rightarrow> nat \<Rightarrow> nat \<Rightarrow> bytes" where
  "read_bytes m a n = map (\<lambda>i. the (m (a + i))) [0..<n]"

definition write_bytes :: "nat \<Rightarrow> bytes \<Rightarrow> umem \<Rightarrow> umem" where
  "write_bytes a bs m x = (if a \<le> x \<and> x < a + length bs then Some (bs ! (x - a)) else m x)"

section \<open>The accessors\<close>

definition mapped_prefix :: "umem \<Rightarrow> nat \<Rightarrow> nat \<Rightarrow> nat" where
  "mapped_prefix m a n = length (takeWhile (\<lambda>i. m (a + i) \<noteq> None) [0..<n])"

text \<open>The C result of \<open>copy_to_user\<close> comes first: the number of bytes not copied.\<close>

definition copy_to_user :: "nat \<Rightarrow> bytes \<Rightarrow> umem \<Rightarrow> nat \<times> umem" where
  "copy_to_user a bs m =
     (let k = mapped_prefix m a (length bs) in (length bs - k, write_bytes a (take k bs) m))"

definition copy_from_user :: "nat \<Rightarrow> nat \<Rightarrow> umem \<Rightarrow> bytes option" where
  "copy_from_user a n m = (if is_mapped m a n then Some (read_bytes m a n) else None)"

text \<open>Up to \<open>n\<close> bytes of a string, and whether its NUL was among them.\<close>

primrec user_string :: "nat \<Rightarrow> nat \<Rightarrow> umem \<Rightarrow> (bytes \<times> bool) option" where
  "user_string 0 a m = Some ([], False)"
| "user_string (Suc n) a m =
     (case m a of
        None \<Rightarrow> None
      | Some b \<Rightarrow>
          if b = 0 then Some ([], True)
          else map_option (\<lambda>(s, z). (b # s, z)) (user_string n (a + 1) m))"

text \<open>
  The destination array of \<open>n\<close> bytes (its bytes past the string keep their old value \<open>old\<close>),
  and the C result: the length without the NUL, or \<open>n\<close> for a string that does not fit.
\<close>

definition strncpy_from_user :: "bytes \<Rightarrow> nat \<Rightarrow> nat \<Rightarrow> umem \<Rightarrow> int \<times> bytes" where
  "strncpy_from_user old a n m =
     (case user_string n a m of
        None \<Rightarrow> (neg_errno EFAULT, old)
      | Some (s, z) \<Rightarrow>
          let w = (if z then s @ [0] else s) in (int (length s), w @ drop (length w) old))"

text \<open>The \<open>_nofault\<close> form counts the NUL and always terminates the array.\<close>

definition strncpy_from_user_nofault :: "bytes \<Rightarrow> nat \<Rightarrow> nat \<Rightarrow> umem \<Rightarrow> int \<times> bytes" where
  "strncpy_from_user_nofault old a n m =
     (if n = 0 then (0, old)
      else let (r, buf) = strncpy_from_user old a n m in
        if int n \<le> r then (int n, buf[n - 1 := 0])
        else if 0 \<le> r then (r + 1, buf)
        else (r, buf))"

section \<open>Reading back\<close>

lemma is_mapped_iff: "is_mapped m a n \<longleftrightarrow> (\<forall>i<n. m (a + i) \<noteq> None)"
  by (auto simp: is_mapped_def list_all_iff)

lemma is_mapped_le: "is_mapped m a n \<Longrightarrow> k \<le> n \<Longrightarrow> is_mapped m a k"
  by (auto simp: is_mapped_iff)

lemma is_mapped_0 [simp, umem_simps]: "is_mapped m a 0"
  by (simp add: is_mapped_def)

lemma is_mapped_offset: "is_mapped m a n \<Longrightarrow> j + k \<le> n \<Longrightarrow> is_mapped m (a + j) k"
  by (auto simp: is_mapped_iff add.assoc)

lemma is_mapped_write [simp, umem_simps]: "is_mapped m a n \<Longrightarrow> is_mapped (write_bytes b bs m) a n"
  by (auto simp: is_mapped_iff write_bytes_def)

lemma length_read_bytes [simp, umem_simps]: "length (read_bytes m a n) = n"
  by (simp add: read_bytes_def)

lemma mapped_prefix_all: "is_mapped m a n \<Longrightarrow> mapped_prefix m a n = n"
proof -
  assume "is_mapped m a n"
  then have "takeWhile (\<lambda>i. m (a + i) \<noteq> None) [0..<n] = [0..<n]"
    unfolding takeWhile_eq_all_conv by (auto simp: is_mapped_iff)
  then show ?thesis by (simp only: mapped_prefix_def length_upt minus_nat.diff_0)
qed

lemma copy_to_user_ok [simp, umem_simps]:
  "is_mapped m a (length bs) \<Longrightarrow> copy_to_user a bs m = (0, write_bytes a bs m)"
  by (simp add: copy_to_user_def mapped_prefix_all)

lemma copy_from_user_ok [simp, umem_simps]:
  "is_mapped m a n \<Longrightarrow> copy_from_user a n m = Some (read_bytes m a n)"
  by (simp add: copy_from_user_def)

lemma read_write_same [simp, umem_simps]:
  "length bs = n \<Longrightarrow> read_bytes (write_bytes a bs m) a n = bs"
  by (auto simp: read_bytes_def write_bytes_def intro!: nth_equalityI)

lemma read_write_other [umem_simps]:
  "a + n \<le> b \<or> b + length bs \<le> a \<Longrightarrow> read_bytes (write_bytes b bs m) a n = read_bytes m a n"
  by (auto simp: read_bytes_def write_bytes_def)

lemma write_bytes_Nil [simp, umem_simps]: "write_bytes a [] m = m"
  by (rule ext) (auto simp: write_bytes_def)

lemma write_write_next [umem_simps]:
  "b = a + length xs \<Longrightarrow> write_bytes b ys (write_bytes a xs m) = write_bytes a (xs @ ys) m"
  by (rule ext) (auto simp: write_bytes_def nth_append)

lemma user_string_length: "user_string n a m = Some (s, z) \<Longrightarrow> length s \<le> n \<and> (z \<longrightarrow> length s < n)"
  by (induction n arbitrary: a s) (fastforce split: option.splits if_splits)+

lemma user_string_no_nul: "user_string n a m = Some (s, z) \<Longrightarrow> 0 \<notin> set s"
  by (induction n arbitrary: a s) (fastforce split: option.splits if_splits)+

lemma user_string_full: "user_string n a m = Some (s, False) \<Longrightarrow> length s = n"
  by (induction n arbitrary: a s) (fastforce split: option.splits if_splits)+

text \<open>A terminated string is read with any bound that leaves room for it.\<close>

lemma user_string_cut:
  "user_string k a m = Some (p, True) \<Longrightarrow> length p < n \<Longrightarrow> user_string n a m = Some (p, True)"
proof (induction k arbitrary: n a p)
  case (Suc k)
  obtain j where n: "n = Suc j" using Suc.prems(2) by (cases n) simp_all
  obtain b where b: "m a = Some b" using Suc.prems(1) by (cases "m a") simp_all
  show ?case
  proof (cases "b = 0")
    case True
    then show ?thesis using Suc.prems(1) n b by simp
  next
    case False
    then have e: "map_option (\<lambda>(s, z). (b # s, z)) (user_string k (a + 1) m) = Some (p, True)"
      using Suc.prems(1) b by simp
    then obtain r where r: "user_string k (a + 1) m = Some r" "(\<lambda>(s, z). (b # s, z)) r = (p, True)"
      by (auto simp del: split_paired_Ex)
    obtain q z where rz: "r = (q, z)" by (cases r)
    have q: "p = b # q" "user_string k (a + 1) m = Some (q, True)"
      using r by (simp_all add: rz)
    have "length q < j" using Suc.prems(2) n q(1) by simp
    with q(2) have "user_string j (a + 1) m = Some (q, True)" by (rule Suc.IH)
    then show ?thesis using n b False q by simp
  qed
qed simp

text \<open>A string stored with its NUL is read back, cut to the bound.\<close>

lemma user_string_stored:
  "0 \<notin> set s \<Longrightarrow> user_string n a (write_bytes a (s @ [0]) m) = Some (take n s, length s < n)"
proof (induction s arbitrary: n a m)
  case Nil
  then show ?case by (cases n) (simp_all add: write_bytes_def)
next
  case (Cons b s)
  show ?case
  proof (cases n)
    case (Suc k)
    have "write_bytes a ((b # s) @ [0]) m = write_bytes (a + 1) (s @ [0]) (write_bytes a [b] m)"
      by (simp add: write_write_next)
    moreover have "write_bytes (a + 1) (s @ [0]) (write_bytes a [b] m) a = Some b"
      by (simp add: write_bytes_def)
    ultimately show ?thesis using Suc Cons by simp
  qed simp
qed

text \<open>The array \<open>strncpy_from_user_nofault\<close> leaves always holds a terminated string.\<close>

lemma strncpy_nofault_terminated:
  assumes "strncpy_from_user_nofault old a n m = (r, buf)" "0 < r" "length old = n"
  shows "length buf = n \<and> 0 < n \<and> nat r \<le> n \<and> buf ! (nat r - 1) = 0 \<and> length (c_str buf) = nat r - 1"
proof (cases "user_string n a m")
  case None
  have "\<not> int n \<le> neg_errno EFAULT" by (simp add: neg_errno_def)
  then show ?thesis
    using None assms
    by (auto simp: strncpy_from_user_nofault_def strncpy_from_user_def split: if_splits)
next
  case (Some p)
  obtain s z where p: "p = (s, z)" by (cases p)
  note s = user_string_length [OF Some [unfolded p]] user_string_no_nul [OF Some [unfolded p]]
  have n0: "0 < n" using assms by (auto simp: strncpy_from_user_nofault_def split: if_splits)
  show ?thesis
  proof (cases z)
    case True
    then have "r = int (length s) + 1" "buf = s @ [0] @ drop (length s + 1) old"
      using assms(1) s(1) n0
      by (auto simp: strncpy_from_user_nofault_def strncpy_from_user_def Some p split: if_splits)
    moreover have "nat (int (length s) + 1) = length s + 1" by simp
    ultimately show ?thesis
      using s True n0 assms(3) by (simp add: c_str_append_nul nth_append)
  next
    case False
    have l: "length s = n" using user_string_full Some p False by simp
    have r: "r = int n" "buf = s[n - 1 := 0]"
      using assms(1) l False n0 assms(3)
      by (auto simp: strncpy_from_user_nofault_def strncpy_from_user_def Some p split: if_splits)
    have e: "s[n - 1 := 0] = butlast s @ [0]"
      using l n0 by (metis One_nat_def length_greater_0_conv list_update_length append_butlast_last_id length_butlast)
    have "0 \<notin> set (butlast s)" using s(2) by (auto dest: in_set_butlastD)
    then have "c_str buf = butlast s" using r(2) e by (simp add: c_str_append_nul)
    then show ?thesis using r l n0 by simp
  qed
qed

end
