(* ===== verification/Rc_Inject.thy ===== *)
theory Rc_Inject
  imports User_Mem Selinux
begin

text \<open>
  Adding the module's services to init's script (\<^verbatim>\<open>kernel/runtime/ksud_integration.c\<close>): the
  first read of \<^verbatim>\<open>/system/etc/init/hw/init.rc\<close> by \<^verbatim>\<open>init\<close> replaces the file's operations, and
  the replacements append the script of the module and of the installed modules once the file
  itself is exhausted. The file's own read methods are a parameter, with the contract of
  \<open>stream_reader\<close>; \<open>fstat\<close> reports the larger size beforehand.
\<close>

section \<open>The script\<close>

definition KSUD_PATH :: bytes where
  "KSUD_PATH = lit ''/data/adb/ksud''"

definition exec_line :: "string \<Rightarrow> bytes" where
  "exec_line stage =
     lit ''    exec u:r:'' @ KERNEL_SU_DOMAIN @ lit '':s0 root -- '' @ KSUD_PATH @ lit '' '' @ lit stage @ [10]"

definition rc_line :: "string \<Rightarrow> bytes" where
  "rc_line s = lit s @ [10]"

definition KERNEL_SU_RC :: bytes where
  "KERNEL_SU_RC =
     rc_line '''' @
     rc_line ''on post-fs-data'' @ rc_line ''    start logd'' @ exec_line ''post-fs-data'' @ rc_line '''' @
     rc_line ''on nonencrypted'' @ exec_line ''services'' @ rc_line '''' @
     rc_line ''on property:vold.decrypt=trigger_restart_framework'' @ exec_line ''services'' @ rc_line '''' @
     rc_line ''on property:sys.boot_completed=1'' @ exec_line ''boot-completed'' @ rc_line '''' @
     rc_line ''''"

definition ksu_rc_len :: nat where
  "ksu_rc_len = length KERNEL_SU_RC"

section \<open>State and the modules' script\<close>

text \<open>\<open>rc_sys_hooked\<close>: whether the read and fstat entries of the system call table are hooked.\<close>

record rc_state =
  rc_pos :: nat
  mod_buf :: "bytes option"
  mod_len :: nat
  mod_pos :: nat
  mod_loaded :: bool
  rc_hooked :: bool
  rc_sys_hooked :: bool

definition rc_state0 :: rc_state where
  "rc_state0 = \<lparr>rc_pos = 0, mod_buf = None, mod_len = 0, mod_pos = 0, mod_loaded = False,
                rc_hooked = False, rc_sys_hooked = True\<rparr>"

text \<open>
  What the module finds when it looks for \<^verbatim>\<open>modules.rc\<close>: the files that open, whether memory
  is available, and the \<^verbatim>\<open>norc\<close> parameter. \<open>mf_read\<close> is the result of reading up to the given
  number of bytes from the start.
\<close>

record module_file =
  mf_regular :: bool
  mf_size :: nat
  mf_read :: "nat \<Rightarrow> errno + bytes"

record rc_env =
  re_open :: "bytes \<Rightarrow> module_file option"
  re_alloc_ok :: bool
  re_no_custom_rc :: bool

definition MODULE_RC_PATH_WATCHDOG :: bytes where
  "MODULE_RC_PATH_WATCHDOG = lit ''/metadata/watchdog/ksu/modules.rc''"

definition MODULE_RC_PATH_DEFAULT :: bytes where
  "MODULE_RC_PATH_DEFAULT = lit ''/metadata/ksu/modules.rc''"

definition open_module_rc :: "rc_env \<Rightarrow> module_file option" where
  "open_module_rc R =
     (case re_open R MODULE_RC_PATH_WATCHDOG of
        Some f \<Rightarrow> Some f
      | None \<Rightarrow> re_open R MODULE_RC_PATH_DEFAULT)"

definition load_module_rc_once :: "rc_env \<Rightarrow> rc_state \<Rightarrow> rc_state" where
  "load_module_rc_once R s =
     (if mod_loaded s then s
      else let s1 = s\<lparr>mod_loaded := True\<rparr> in
        if re_no_custom_rc R then s1
        else (case open_module_rc R of
            None \<Rightarrow> s1
          | Some f \<Rightarrow>
              if \<not> mf_regular f then s1
              else if mf_size f = 0 then s1
              else if \<not> re_alloc_ok R then s1
              else (case mf_read f (mf_size f) of
                  Inl _ \<Rightarrow> s1\<lparr>mod_buf := None\<rparr>
                | Inr d \<Rightarrow>
                    if d = [] then s1\<lparr>mod_buf := None\<rparr>
                    else s1\<lparr>mod_buf := Some d, mod_len := length d\<rparr>)))"

definition free_module_rc :: "rc_state \<Rightarrow> rc_state" where
  "free_module_rc s = s\<lparr>mod_buf := None, mod_len := 0\<rparr>"

text \<open>The bytes of a kernel buffer a copy reads; an absent buffer has none.\<close>

definition mod_bytes :: "rc_state \<Rightarrow> nat \<Rightarrow> bytes" where
  "mod_bytes s k = (case mod_buf s of None \<Rightarrow> [] | Some b \<Rightarrow> slice (mod_pos s) k b)"

section \<open>The read method\<close>

text \<open>A user buffer: address, size, and the memory it is in.\<close>

type_synonym user_buf = "nat \<times> nat \<times> umem"

definition append_module_rc :: "nat \<Rightarrow> rc_state \<Rightarrow> user_buf \<Rightarrow> int \<times> rc_state \<times> user_buf" where
  "append_module_rc ret s b =
     (let (buf, n, m) = b in
      if mod_pos s < mod_len s \<and> ret < n then
        let k = min (mod_len s - mod_pos s) (n - ret);
            (left, m1) = copy_to_user (buf + ret) (mod_bytes s k) m
        in if left \<noteq> 0 then (int ret, s, buf, n, m1)
           else let s1 = s\<lparr>mod_pos := mod_pos s + k\<rparr>
             in (int (ret + k), if mod_pos s1 = mod_len s1 then free_module_rc s1 else s1, buf, n, m1)
      else (int ret, s, buf, n, m))"

definition append_ksu_rc :: "rc_state \<Rightarrow> user_buf \<Rightarrow> int \<times> rc_state \<times> user_buf" where
  "append_ksu_rc s b =
     (let (buf, n, m) = b in
      if rc_pos s < ksu_rc_len then
        let k = min (ksu_rc_len - rc_pos s) n;
            (left, m1) = copy_to_user buf (slice (rc_pos s) k KERNEL_SU_RC) m
        in if left \<noteq> 0 then (0, s, buf, n, m1)
           else append_module_rc k (s\<lparr>rc_pos := rc_pos s + k\<rparr>) (buf, n, m1)
      else append_module_rc 0 s (buf, n, m))"

definition read_proxy ::
    "('f \<Rightarrow> user_buf \<Rightarrow> int \<times> 'f \<times> user_buf) \<Rightarrow> 'f \<times> rc_state \<Rightarrow> user_buf \<Rightarrow> int \<times> ('f \<times> rc_state) \<times> user_buf" where
  "read_proxy orig_read fs b =
     (let (f, s) = fs in
      if 0 < rc_pos s \<and> rc_pos s < ksu_rc_len then
        let (r, s1, b1) = append_ksu_rc s b in (r, (f, s1), b1)
      else if ksu_rc_len \<le> rc_pos s \<and> mod_pos s < mod_len s then
        let (r, s1, b1) = append_module_rc 0 s b in (r, (f, s1), b1)
      else
        let (ret, f1, b1) = orig_read f b in
        if ret \<noteq> 0 then (ret, (f1, s), b1)
        else if ksu_rc_len \<le> rc_pos s \<and> mod_len s \<le> mod_pos s then (ret, (f1, s), b1)
        else let (r, s1, b2) = append_ksu_rc s b1 in (r, (f1, s1), b2))"

section \<open>The read\_iter method\<close>

text \<open>An iterator: the bytes it still takes (up to its end or the first fault), and those it got.\<close>

record iov_iter =
  it_room :: nat
  it_data :: bytes

definition copy_to_iter :: "bytes \<Rightarrow> iov_iter \<Rightarrow> nat \<times> iov_iter" where
  "copy_to_iter bs it =
     (let k = min (length bs) (it_room it)
      in (k, it\<lparr>it_room := it_room it - k, it_data := it_data it @ take k bs\<rparr>))"

definition iter_module_rc :: "nat \<Rightarrow> rc_state \<Rightarrow> iov_iter \<Rightarrow> int \<times> rc_state \<times> iov_iter" where
  "iter_module_rc ret s it =
     (if mod_pos s < mod_len s then
        let (k, it1) = copy_to_iter (mod_bytes s (mod_len s - mod_pos s)) it
        in if k = 0 then (int ret, s, it1)
           else let s1 = s\<lparr>mod_pos := mod_pos s + k\<rparr>
             in (int (ret + k), if mod_pos s1 = mod_len s1 then free_module_rc s1 else s1, it1)
      else (int ret, s, it))"

definition iter_ksu_rc :: "rc_state \<Rightarrow> iov_iter \<Rightarrow> int \<times> rc_state \<times> iov_iter" where
  "iter_ksu_rc s it =
     (if rc_pos s < ksu_rc_len then
        let (k, it1) = copy_to_iter (slice (rc_pos s) (ksu_rc_len - rc_pos s) KERNEL_SU_RC) it
        in if k = 0 then (0, s, it1)
           else iter_module_rc k (s\<lparr>rc_pos := rc_pos s + k\<rparr>) it1
      else iter_module_rc 0 s it)"

definition read_iter_proxy ::
    "('f \<Rightarrow> iov_iter \<Rightarrow> int \<times> 'f \<times> iov_iter) \<Rightarrow> 'f \<times> rc_state \<Rightarrow> iov_iter \<Rightarrow> int \<times> ('f \<times> rc_state) \<times> iov_iter" where
  "read_iter_proxy orig_read_iter fs it =
     (let (f, s) = fs in
      if 0 < rc_pos s \<and> rc_pos s < ksu_rc_len then
        let (r, s1, it1) = iter_ksu_rc s it in (r, (f, s1), it1)
      else if ksu_rc_len \<le> rc_pos s \<and> mod_pos s < mod_len s then
        let (r, s1, it1) = iter_module_rc 0 s it in (r, (f, s1), it1)
      else
        let (ret, f1, it1) = orig_read_iter f it in
        if ret \<noteq> 0 then (ret, (f1, s), it1)
        else if ksu_rc_len \<le> rc_pos s \<and> mod_len s \<le> mod_pos s then (ret, (f1, s), it1)
        else let (r, s1, it2) = iter_ksu_rc s it1 in (r, (f1, s1), it2))"

section \<open>Installing the proxies\<close>

text \<open>
  A file as the hooks see it: the name of the task that uses it, whether it is regular, its
  last name component, and what \<^verbatim>\<open>d_path\<close> says of it (\<open>None\<close> for an error).
\<close>

record rc_file =
  rf_comm :: bytes
  rf_regular :: bool
  rf_name :: bytes
  rf_dpath :: "bytes option"

definition INIT_RC_PATH :: bytes where
  "INIT_RC_PATH = lit ''/system/etc/init/hw/init.rc''"

definition is_init_rc :: "rc_file \<Rightarrow> bool" where
  "is_init_rc fp =
     (if \<not> str_eq (rf_comm fp) (lit ''init'') then False
      else if \<not> rf_regular fp then False
      else if \<not> str_eq (rf_name fp) (lit ''init.rc'') then False
      else (case rf_dpath fp of None \<Rightarrow> False | Some p \<Rightarrow> str_eq p INIT_RC_PATH))"

definition stop_init_rc_hook :: "rc_state \<Rightarrow> rc_state" where
  "stop_init_rc_hook s = s\<lparr>rc_sys_hooked := False\<rparr>"

text \<open>The first component: whether the operations of the file were replaced.\<close>

definition ksu_install_rc_hook :: "rc_env \<Rightarrow> rc_file \<Rightarrow> rc_state \<Rightarrow> bool \<times> rc_state" where
  "ksu_install_rc_hook R fp s =
     (if \<not> is_init_rc fp then (False, s)
      else if rc_hooked s then (False, s)
      else (True, load_module_rc_once R (stop_init_rc_hook (s\<lparr>rc_hooked := True\<rparr>))))"

definition ksu_handle_sys_read :: "rc_env \<Rightarrow> rc_file option \<Rightarrow> rc_state \<Rightarrow> bool \<times> rc_state" where
  "ksu_handle_sys_read R fo s =
     (case fo of None \<Rightarrow> (False, s) | Some fp \<Rightarrow> ksu_install_rc_hook R fp s)"

text \<open>
  The hooked fstat. The system call itself is a parameter (its result and the memory it
  leaves); \<open>size_ptr\<close> is the address of the \<open>st_size\<close> field of the caller's buffer, a
  64-bit \<open>long\<close>.
\<close>

definition ksu_sys_fstat ::
    "rc_env \<Rightarrow> (umem \<Rightarrow> int \<times> umem) \<Rightarrow> nat \<Rightarrow> rc_file option \<Rightarrow> rc_state \<Rightarrow> umem \<Rightarrow> int \<times> rc_state \<times> umem" where
  "ksu_sys_fstat R orig_fstat size_ptr fo s m =
     (let is_rc = (case fo of None \<Rightarrow> False | Some fp \<Rightarrow> is_init_rc fp);
          s1 = (if is_rc then load_module_rc_once R s else s);
          (ret, m1) = orig_fstat m
      in if is_rc then
           (case copy_from_user size_ptr 8 m1 of
              None \<Rightarrow> (ret, s1, m1)
            | Some sz \<Rightarrow>
                let new_size = (of_nat (le_dec sz) :: u64) + of_nat (ksu_rc_len + mod_len s1)
                in (ret, s1, snd (copy_to_user size_ptr (le64 new_size) m1)))
         else (ret, s1, m1))"

end
