(* ===== verification/Rc_Reader.thy ===== *)
theory Rc_Reader
  imports Rc_Inject
begin

text \<open>
  What the proxies of \<^verbatim>\<open>ksud_integration.c\<close> promise to the task that reads \<^verbatim>\<open>init.rc\<close>. The
  contract \<open>stream_reader\<close> is that of a read method over a stream of pending bytes: a call
  delivers a prefix of them and returns its length, and delivers nothing only when there is no
  room or nothing is left. A reader that loops until it gets nothing then receives exactly the
  pending bytes. Whatever read method the file has, if it keeps the contract then so do the
  proxies, for the file's bytes followed by the two scripts.
\<close>

section \<open>The contract\<close>

text \<open>The loop of a client: one destination for each call, until a call returns nothing.\<close>

fun drain_loop ::
    "('s \<Rightarrow> 'd \<Rightarrow> int \<times> 's \<times> 'd) \<Rightarrow> (nat \<Rightarrow> 'd \<Rightarrow> bytes) \<Rightarrow> 'd list \<Rightarrow> 's \<Rightarrow> bytes \<times> bool \<times> 's" where
  "drain_loop rd got [] s = ([], False, s)"
| "drain_loop rd got (d # ds) s =
     (let (r, s1, d1) = rd s d in
      if r \<le> 0 then ([], True, s1)
      else let (x, e, s2) = drain_loop rd got ds s1 in (got (nat r) d1 @ x, e, s2))"

locale destination =
  fixes room :: "'d \<Rightarrow> nat" and put :: "bytes \<Rightarrow> 'd \<Rightarrow> 'd" and fits :: "'d \<Rightarrow> bool"
    and got :: "nat \<Rightarrow> 'd \<Rightarrow> bytes"
  assumes got_put: "fits d \<Longrightarrow> length x \<le> room d \<Longrightarrow> got (length x) (put x d) = x"

locale stream_reader = destination room put fits got
  for room :: "'d \<Rightarrow> nat" and put :: "bytes \<Rightarrow> 'd \<Rightarrow> 'd" and fits :: "'d \<Rightarrow> bool"
    and got :: "nat \<Rightarrow> 'd \<Rightarrow> bytes" +
  fixes rd :: "'s \<Rightarrow> 'd \<Rightarrow> int \<times> 's \<times> 'd" and pending :: "'s \<Rightarrow> bytes" and ok :: "'s \<Rightarrow> bool"
  assumes rd_step: "ok s \<Longrightarrow> fits d \<Longrightarrow>
      \<exists>x s1. rd s d = (int (length x), s1, put x d) \<and> ok s1 \<and> pending s = x @ pending s1 \<and>
             length x \<le> room d \<and> (x = [] \<longrightarrow> room d = 0 \<or> pending s = [])"
begin

lemma loop_prefix:
  assumes "ok s" "\<forall>d\<in>set ds. fits d \<and> 0 < room d"
  shows "case drain_loop rd got ds s of
           (x, e, s1) \<Rightarrow> ok s1 \<and> pending s = x @ pending s1 \<and> (e \<longrightarrow> pending s1 = []) \<and>
             (\<not> e \<longrightarrow> length ds \<le> length x)"
  using assms
proof (induction ds arbitrary: s)
  case (Cons d ds)
  obtain x s1 where x: "rd s d = (int (length x), s1, put x d)" "ok s1" "pending s = x @ pending s1"
      "length x \<le> room d" "x = [] \<longrightarrow> room d = 0 \<or> pending s = []"
    using rd_step [of s d] Cons.prems by auto
  show ?case
  proof (cases "x = []")
    case True
    then show ?thesis using x Cons.prems by simp
  next
    case False
    obtain y e s2 where y: "drain_loop rd got ds s1 = (y, e, s2)" by (cases "drain_loop rd got ds s1")
    have "got (length x) (put x d) = x" using got_put x(4) Cons.prems by simp
    then have "drain_loop rd got (d # ds) s = (x @ y, e, s2)"
      using x(1) False y by (simp add: Let_def)
    moreover have "Suc (length ds) \<le> length (x @ y)" if "length ds \<le> length y"
      using that False by (cases x) simp_all
    ultimately show ?thesis
      using Cons.IH [OF x(2)] Cons.prems x(3) y by simp
  qed
qed simp

text \<open>With more calls than pending bytes the loop ends, and its data is all of them.\<close>

lemma loop_reads_all:
  assumes "ok s" "\<forall>d\<in>set ds. fits d \<and> 0 < room d" "length (pending s) < length ds"
  obtains s1 where "drain_loop rd got ds s = (pending s, True, s1)" "ok s1" "pending s1 = []"
proof -
  obtain x e s1 where r: "drain_loop rd got ds s = (x, e, s1)" by (cases "drain_loop rd got ds s")
  note p = loop_prefix [OF assms(1,2), unfolded r, simplified]
  have e using p assms(3) by (auto intro: ccontr)
  then show thesis using that p r by auto
qed

end

section \<open>Destinations\<close>

definition user_room :: "user_buf \<Rightarrow> nat" where
  "user_room b = fst (snd b)"

definition user_put :: "bytes \<Rightarrow> user_buf \<Rightarrow> user_buf" where
  "user_put x b = (case b of (a, n, m) \<Rightarrow> (a, n, write_bytes a x m))"

definition user_fits :: "user_buf \<Rightarrow> bool" where
  "user_fits b = (case b of (a, n, m) \<Rightarrow> is_mapped m a n)"

definition user_got :: "nat \<Rightarrow> user_buf \<Rightarrow> bytes" where
  "user_got k b = (case b of (a, n, m) \<Rightarrow> read_bytes m a k)"

interpretation user_dest: destination user_room user_put user_fits user_got
  by unfold_locales (auto simp: user_put_def user_got_def)

definition iter_put :: "bytes \<Rightarrow> iov_iter \<Rightarrow> iov_iter" where
  "iter_put x it = it\<lparr>it_room := it_room it - length x, it_data := it_data it @ x\<rparr>"

definition iter_fresh :: "iov_iter \<Rightarrow> bool" where
  "iter_fresh it \<longleftrightarrow> it_data it = []"

definition iter_got :: "nat \<Rightarrow> iov_iter \<Rightarrow> bytes" where
  "iter_got k it = take k (it_data it)"

interpretation iter_dest: destination it_room iter_put iter_fresh iter_got
  by unfold_locales (auto simp: iter_put_def iter_got_def iter_fresh_def)

lemma user_put_Nil [simp]: "user_put [] b = b"
  by (cases b) (simp add: user_put_def)

lemma iter_put_Nil [simp]: "iter_put [] it = it"
  by (simp add: iter_put_def)

section \<open>The scripts\<close>

lemma ksu_rc_len_pos [simp]: "0 < ksu_rc_len"
  by (simp add: ksu_rc_len_def KERNEL_SU_RC_def rc_line_def)

lemma ksu_rc_len_nz [simp]: "ksu_rc_len \<noteq> 0"
  using ksu_rc_len_pos by (rule gr_implies_not0)

definition rc_ok :: "rc_state \<Rightarrow> bool" where
  "rc_ok s \<longleftrightarrow> rc_pos s \<le> ksu_rc_len \<and>
     (case mod_buf s of None \<Rightarrow> mod_len s = 0 | Some b \<Rightarrow> mod_len s = length b) \<and>
     (0 < mod_pos s \<longrightarrow> rc_pos s = ksu_rc_len)"

definition rc_pending :: "rc_state \<Rightarrow> bytes" where
  "rc_pending s =
     drop (rc_pos s) KERNEL_SU_RC @ (case mod_buf s of None \<Rightarrow> [] | Some b \<Rightarrow> drop (mod_pos s) b)"

lemma rc_ok_mod: "rc_ok s \<Longrightarrow> length (case mod_buf s of None \<Rightarrow> [] | Some b \<Rightarrow> b) = mod_len s"
  by (auto simp: rc_ok_def split: option.splits)

lemma rc_pending_done:
  "rc_ok s \<Longrightarrow> ksu_rc_len \<le> rc_pos s \<Longrightarrow> mod_len s \<le> mod_pos s \<Longrightarrow> rc_pending s = []"
  by (auto simp: rc_pending_def rc_ok_def ksu_rc_len_def split: option.splits)

lemma rc_pending_Nil: "rc_ok s \<Longrightarrow> rc_pending s = [] \<longleftrightarrow> ksu_rc_len \<le> rc_pos s \<and> mod_len s \<le> mod_pos s"
  by (auto simp: rc_pending_def rc_ok_def ksu_rc_len_def split: option.splits)

text \<open>Advancing through the modules' script, the freeing of its buffer at the end included.\<close>

definition mod_advance :: "nat \<Rightarrow> rc_state \<Rightarrow> rc_state" where
  "mod_advance k s =
     (let s1 = s\<lparr>mod_pos := mod_pos s + k\<rparr> in if mod_pos s1 = mod_len s1 then free_module_rc s1 else s1)"

lemma mod_advance:
  assumes "rc_ok s" "rc_pos s = ksu_rc_len" "mod_pos s < mod_len s" "k \<le> mod_len s - mod_pos s"
  shows "rc_ok (mod_advance k s)" "rc_pending s = mod_bytes s k @ rc_pending (mod_advance k s)"
    "length (mod_bytes s k) = k" "rc_pos (mod_advance k s) = ksu_rc_len"
proof -
  obtain b where b: "mod_buf s = Some b" "mod_len s = length b"
    using assms by (auto simp: rc_ok_def split: option.splits)
  show "rc_ok (mod_advance k s)"
    using assms b by (auto simp: mod_advance_def rc_ok_def free_module_rc_def Let_def)
  show "length (mod_bytes s k) = k" using assms b by (simp add: mod_bytes_def slice_def)
  show "rc_pos (mod_advance k s) = ksu_rc_len"
    using assms by (simp add: mod_advance_def Let_def free_module_rc_def)
  have "drop (mod_pos s) b = take k (drop (mod_pos s) b) @ drop (mod_pos s + k) b"
    by (metis append_take_drop_id drop_drop add.commute)
  moreover have "mod_pos s + k = length b \<Longrightarrow> drop (mod_pos s + k) b = []" by simp
  ultimately show "rc_pending s = mod_bytes s k @ rc_pending (mod_advance k s)"
    using assms b
    by (auto simp: rc_pending_def mod_advance_def mod_bytes_def slice_def free_module_rc_def Let_def ksu_rc_len_def)
qed

lemma rc_advance:
  assumes "rc_ok s" "rc_pos s < ksu_rc_len" "k \<le> ksu_rc_len - rc_pos s"
  defines "s1 \<equiv> s\<lparr>rc_pos := rc_pos s + k\<rparr>"
  shows "rc_ok s1" "rc_pending s = slice (rc_pos s) k KERNEL_SU_RC @ rc_pending s1"
    "length (slice (rc_pos s) k KERNEL_SU_RC) = k"
proof -
  show "rc_ok s1" using assms by (auto simp: rc_ok_def split: option.splits)
  show "length (slice (rc_pos s) k KERNEL_SU_RC) = k"
    using assms by (simp add: slice_def ksu_rc_len_def)
  have "drop (rc_pos s) KERNEL_SU_RC = take k (drop (rc_pos s) KERNEL_SU_RC) @ drop (rc_pos s + k) KERNEL_SU_RC"
    by (metis append_take_drop_id drop_drop add.commute)
  then show "rc_pending s = slice (rc_pos s) k KERNEL_SU_RC @ rc_pending s1"
    by (simp add: rc_pending_def s1_def slice_def split: option.split)
qed

section \<open>The proxies keep the contract\<close>

lemma append_module_step:
  assumes "rc_ok s" "rc_pos s = ksu_rc_len" "is_mapped m a n" "ret \<le> n"
  shows "\<exists>x s1. append_module_rc ret s (a, n, m) = (int (ret + length x), s1, a, n, write_bytes (a + ret) x m) \<and>
           rc_ok s1 \<and> rc_pending s = x @ rc_pending s1 \<and> ret + length x \<le> n \<and>
           (x = [] \<longrightarrow> ret = n \<or> rc_pending s = [])"
proof (cases "mod_pos s < mod_len s \<and> ret < n")
  case True
  define k where "k = min (mod_len s - mod_pos s) (n - ret)"
  have k: "k \<le> mod_len s - mod_pos s" "0 < k" "ret + k \<le> n" using True by (auto simp: k_def)
  note A = mod_advance [OF assms(1,2) conjunct1 [OF True] k(1)]
  have "is_mapped m (a + ret) k" using assms(3) k(3) by (rule is_mapped_offset)
  then have "append_module_rc ret s (a, n, m) =
      (int (ret + k), mod_advance k s, a, n, write_bytes (a + ret) (mod_bytes s k) m)"
    using True A(3) by (simp add: append_module_rc_def mod_advance_def Let_def flip: k_def)
  then show ?thesis using A k by (intro exI [of _ "mod_bytes s k"] exI [of _ "mod_advance k s"]) auto
next
  case False
  then have "append_module_rc ret s (a, n, m) = (int ret, s, a, n, m)"
    by (simp only: append_module_rc_def Let_def split if_False)
  moreover have "ret = n \<or> rc_pending s = []"
    using False assms by (auto simp: rc_pending_Nil)
  ultimately show ?thesis using assms by (intro exI [of _ "[]"] exI [of _ s]) auto
qed

lemma append_rc_step:
  assumes "rc_ok s" "is_mapped m a n"
  shows "\<exists>x s1. append_ksu_rc s (a, n, m) = (int (length x), s1, user_put x (a, n, m)) \<and>
           rc_ok s1 \<and> rc_pending s = x @ rc_pending s1 \<and> length x \<le> n \<and>
           (x = [] \<longrightarrow> n = 0 \<or> rc_pending s = [])"
proof (cases "rc_pos s < ksu_rc_len")
  case True
  define k where "k = min (ksu_rc_len - rc_pos s) n"
  define x where "x = slice (rc_pos s) k KERNEL_SU_RC"
  define s1 where "s1 = s\<lparr>rc_pos := rc_pos s + k\<rparr>"
  have k: "k \<le> ksu_rc_len - rc_pos s" "k \<le> n" by (auto simp: k_def)
  note A = rc_advance [OF assms(1) True k(1), folded s1_def x_def]
  have m: "is_mapped m a k" "is_mapped (write_bytes a x m) a n"
    using assms(2) k(2) by (auto intro: is_mapped_le)
  have e: "append_ksu_rc s (a, n, m) = append_module_rc k s1 (a, n, write_bytes a x m)"
    using True m(1) A(3) by (simp add: append_ksu_rc_def Let_def flip: k_def x_def s1_def)
  show ?thesis
  proof (cases "rc_pos s1 = ksu_rc_len")
    case rc: True
    obtain y s2 where y: "append_module_rc k s1 (a, n, write_bytes a x m) =
        (int (k + length y), s2, a, n, write_bytes (a + k) y (write_bytes a x m))"
      "rc_ok s2" "rc_pending s1 = y @ rc_pending s2" "k + length y \<le> n"
      "y = [] \<longrightarrow> k = n \<or> rc_pending s1 = []"
      using append_module_step [OF A(1) rc m(2) k(2)] by blast
    have "x \<noteq> []" using True rc A(3) by (auto simp: s1_def)
    then show ?thesis
      using e y A by (intro exI [of _ "x @ y"] exI [of _ s2]) (simp add: user_put_def write_write_next)
  next
    case False
    then have n: "k = n" "mod_pos s1 = 0"
      using A(1) True by (auto simp: k_def s1_def rc_ok_def min_def split: if_splits)
    then have "append_module_rc k s1 (a, n, write_bytes a x m) = (int k, s1, a, n, write_bytes a x m)"
      by (simp add: append_module_rc_def)
    then show ?thesis
      using e A n by (intro exI [of _ x] exI [of _ s1]) (auto simp: user_put_def)
  qed
next
  case False
  then have "rc_pos s = ksu_rc_len" using assms(1) by (simp add: rc_ok_def)
  then show ?thesis
    using append_module_step [OF assms(1) _ assms(2), of 0] False by (simp add: append_ksu_rc_def user_put_def)
qed

lemma copy_to_iter_put:
  "copy_to_iter bs it = (min (length bs) (it_room it), iter_put (take (it_room it) bs) it)"
  by (cases "length bs \<le> it_room it") (simp_all add: copy_to_iter_def iter_put_def Let_def)

lemma iter_put_put [simp]: "iter_put y (iter_put x it) = iter_put (x @ y) it"
  by (simp add: iter_put_def)

lemma it_room_put [simp]: "it_room (iter_put x it) = it_room it - length x"
  by (simp add: iter_put_def)

lemma mod_bytes_take: "k \<le> j \<Longrightarrow> take k (mod_bytes s j) = mod_bytes s k"
  by (simp add: mod_bytes_def slice_def min_def split: option.split)

lemma iter_module_step:
  assumes "rc_ok s" "rc_pos s = ksu_rc_len"
  shows "\<exists>x s1. iter_module_rc ret s it = (int (ret + length x), s1, iter_put x it) \<and>
           rc_ok s1 \<and> rc_pending s = x @ rc_pending s1 \<and> length x \<le> it_room it \<and>
           (x = [] \<longrightarrow> it_room it = 0 \<or> rc_pending s = [])"
proof (cases "mod_pos s < mod_len s \<and> 0 < it_room it")
  case True
  define k where "k = min (mod_len s - mod_pos s) (it_room it)"
  have k: "k \<le> mod_len s - mod_pos s" "0 < k" "k \<le> it_room it" using True by (auto simp: k_def)
  note A = mod_advance [OF assms conjunct1 [OF True]]
  have "copy_to_iter (mod_bytes s (mod_len s - mod_pos s)) it = (k, iter_put (mod_bytes s k) it)"
  proof -
    have "take (it_room it) (mod_bytes s (mod_len s - mod_pos s)) = mod_bytes s k"
      using A(3) [of "mod_len s - mod_pos s"] by (simp add: mod_bytes_take k_def min_def)
    then show ?thesis using A(3) [of "mod_len s - mod_pos s"] by (simp add: copy_to_iter_put k_def)
  qed
  then have "iter_module_rc ret s it = (int (ret + k), mod_advance k s, iter_put (mod_bytes s k) it)"
    using True k by (simp add: iter_module_rc_def mod_advance_def Let_def)
  then show ?thesis
    using A [OF k(1)] k by (intro exI [of _ "mod_bytes s k"] exI [of _ "mod_advance k s"]) auto
next
  case False
  then have "iter_module_rc ret s it = (int ret, s, iter_put [] it)"
    by (auto simp: iter_module_rc_def copy_to_iter_put)
  moreover have "it_room it = 0 \<or> rc_pending s = []"
    using False assms by (auto simp: rc_pending_Nil)
  ultimately show ?thesis using assms by (intro exI [of _ "[]"] exI [of _ s]) auto
qed

lemma iter_rc_step:
  assumes "rc_ok s"
  shows "\<exists>x s1. iter_ksu_rc s it = (int (length x), s1, iter_put x it) \<and>
           rc_ok s1 \<and> rc_pending s = x @ rc_pending s1 \<and> length x \<le> it_room it \<and>
           (x = [] \<longrightarrow> it_room it = 0 \<or> rc_pending s = [])"
proof (cases "rc_pos s < ksu_rc_len")
  case True
  define l where "l = ksu_rc_len - rc_pos s"
  define k where "k = min l (it_room it)"
  define x where "x = slice (rc_pos s) k KERNEL_SU_RC"
  define s1 where "s1 = s\<lparr>rc_pos := rc_pos s + k\<rparr>"
  have k: "k \<le> l" "k \<le> it_room it" by (auto simp: k_def)
  note A = rc_advance [OF assms True k(1) [unfolded l_def], folded s1_def x_def]
  have x: "take (it_room it) (slice (rc_pos s) l KERNEL_SU_RC) = x"
    by (simp add: x_def slice_def k_def min.commute)
  have c: "copy_to_iter (slice (rc_pos s) l KERNEL_SU_RC) it = (k, iter_put x it)"
    using rc_advance(3) [OF assms True, of l] x by (simp add: copy_to_iter_put k_def l_def)
  show ?thesis
  proof (cases "k = 0")
    case True
    then have "it_room it = 0" "x = []" using \<open>rc_pos s < ksu_rc_len\<close> A(3) by (auto simp: k_def l_def)
    then show ?thesis
      using True c assms \<open>rc_pos s < ksu_rc_len\<close>
      by (intro exI [of _ "[]"] exI [of _ s]) (simp add: iter_ksu_rc_def flip: l_def)
  next
    case nz: False
    have e: "iter_ksu_rc s it = iter_module_rc k s1 (iter_put x it)"
      using True c nz by (simp add: iter_ksu_rc_def flip: l_def s1_def)
    show ?thesis
    proof (cases "rc_pos s1 = ksu_rc_len")
      case rc: True
      obtain y s2 where "iter_module_rc k s1 (iter_put x it) = (int (k + length y), s2, iter_put (x @ y) it)"
        "rc_ok s2" "rc_pending s1 = y @ rc_pending s2" "length y \<le> it_room it - k"
        using iter_module_step [OF A(1) rc, of k "iter_put x it"] A(3) by auto
      then show ?thesis
        using e A nz k by (intro exI [of _ "x @ y"] exI [of _ s2]) auto
    next
      case False
      then have "mod_pos s1 = 0" "k = it_room it"
        using A(1) True by (auto simp: k_def l_def s1_def rc_ok_def min_def split: if_splits)
      then have "iter_module_rc k s1 (iter_put x it) = (int k, s1, iter_put x it)"
        using A(3) by (auto simp: iter_module_rc_def copy_to_iter_put)
      then show ?thesis
        using e A nz k by (intro exI [of _ x] exI [of _ s1]) auto
    qed
  qed
next
  case False
  then have "rc_pos s = ksu_rc_len" using assms by (simp add: rc_ok_def)
  then show ?thesis
    using iter_module_step [OF assms, of 0] False by (simp add: iter_ksu_rc_def)
qed

text \<open>
  The state of an opened \<^verbatim>\<open>init.rc\<close> behind the proxies: once appending has begun, the file
  itself has nothing left.
\<close>

definition proxy_ok :: "('f \<Rightarrow> bool) \<Rightarrow> ('f \<Rightarrow> bytes) \<Rightarrow> 'f \<times> rc_state \<Rightarrow> bool" where
  "proxy_ok ok pending fs \<longleftrightarrow>
     ok (fst fs) \<and> rc_ok (snd fs) \<and> (0 < rc_pos (snd fs) \<longrightarrow> pending (fst fs) = [])"

definition proxy_pending :: "('f \<Rightarrow> bytes) \<Rightarrow> 'f \<times> rc_state \<Rightarrow> bytes" where
  "proxy_pending pending fs = pending (fst fs) @ rc_pending (snd fs)"

lemma proxy_step:
  assumes "rc_ok s" "0 < rc_pos s \<longrightarrow> pending f = []"
    "\<not> (0 < rc_pos s \<and> rc_pos s < ksu_rc_len)" "\<not> (ksu_rc_len \<le> rc_pos s \<and> mod_pos s < mod_len s)"
  shows "rc_pos s = 0 \<or> rc_pending s = []"
    "ksu_rc_len \<le> rc_pos s \<and> mod_len s \<le> mod_pos s \<longleftrightarrow> rc_pending s = []"
  using assms by (auto simp: rc_pending_Nil)

lemma read_proxy_step:
  assumes orig: "stream_reader user_room user_put user_fits user_got orig pending ok"
    and st: "proxy_ok ok pending fs" "user_fits b"
  shows "\<exists>x fs1. read_proxy orig fs b = (int (length x), fs1, user_put x b) \<and> proxy_ok ok pending fs1 \<and>
      proxy_pending pending fs = x @ proxy_pending pending fs1 \<and> length x \<le> user_room b \<and>
      (x = [] \<longrightarrow> user_room b = 0 \<or> proxy_pending pending fs = [])"
proof -
  obtain f s where fs: "fs = (f, s)" by (cases fs)
  obtain a n m where b: "b = (a, n, m)" by (cases b)
  have s: "ok f" "rc_ok s" "0 < rc_pos s \<longrightarrow> pending f = []" using st(1) by (simp_all add: proxy_ok_def fs)
  have m: "is_mapped m a n" "user_room b = n" using st(2) by (simp_all add: user_fits_def user_room_def b)
  obtain x s1 where A: "append_ksu_rc s b = (int (length x), s1, user_put x b)" "rc_ok s1"
      "rc_pending s = x @ rc_pending s1" "length x \<le> n" "x = [] \<longrightarrow> n = 0 \<or> rc_pending s = []"
    using append_rc_step [OF s(2) m(1)] b by auto
  show ?thesis
  proof (cases "0 < rc_pos s \<and> rc_pos s < ksu_rc_len \<or> ksu_rc_len \<le> rc_pos s \<and> mod_pos s < mod_len s")
    case True
    have p: "pending f = []" using True s(3) ksu_rc_len_pos by auto
    have "append_module_rc 0 s b = append_ksu_rc s b" if "ksu_rc_len \<le> rc_pos s"
      using that by (simp add: append_ksu_rc_def b)
    then have "read_proxy orig fs b = (int (length x), (f, s1), user_put x b)"
      using True A(1) by (auto simp: read_proxy_def fs)
    then show ?thesis
      using A p s m by (intro exI [of _ x] exI [of _ "(f, s1)"]) (simp add: fs proxy_ok_def proxy_pending_def)
  next
    case outside: False
    note P = proxy_step [of s pending f, OF s(2,3)]
    obtain y f1 where O: "orig f b = (int (length y), f1, user_put y b)" "ok f1"
        "pending f = y @ pending f1" "length y \<le> user_room b" "y = [] \<longrightarrow> user_room b = 0 \<or> pending f = []"
      using stream_reader.rd_step [OF orig s(1) st(2)] by blast
    show ?thesis
    proof (cases "y = [] \<and> rc_pending s \<noteq> []")
      case True
      then have "read_proxy orig fs b = (int (length x), (f1, s1), user_put x b)"
        using outside O(1) A(1) P(2) by (auto simp: read_proxy_def fs)
      moreover have "0 < rc_pos s1 \<longrightarrow> pending f1 = []"
      proof (cases "n = 0")
        case n: True
        then have "s1 = s" using A(1) b P(1) True outside
          by (auto simp: append_ksu_rc_def append_module_rc_def Let_def user_put_def slice_0_0)
        then show ?thesis using P(1) True outside by auto
      next
        case False
        then show ?thesis using O True m by simp
      qed
      ultimately show ?thesis
        using A O m True
        by (intro exI [of _ x] exI [of _ "(f1, s1)"]) (auto simp: fs proxy_ok_def proxy_pending_def)
    next
      case False
      have drained: "y = [] \<Longrightarrow> rc_pending s = []" using False by blast
      have "read_proxy orig fs b = (int (length y), (f1, s), user_put y b)"
        using False outside O(1) P(2) by (auto simp: read_proxy_def fs)
      moreover have "proxy_pending pending fs = y @ proxy_pending pending (f1, s)"
        using O(3) by (simp add: fs proxy_pending_def)
      moreover have "proxy_ok ok pending (f1, s)"
        using O(2,3) s by (auto simp: proxy_ok_def)
      moreover have "proxy_pending pending fs = []" if "pending f = []" "y = []"
        by (simp only: fs proxy_pending_def fst_conv snd_conv that(1) drained [OF that(2)] append_Nil)
      ultimately show ?thesis using O(4,5) by blast
    qed
  qed
qed

lemma read_iter_proxy_step:
  assumes orig: "stream_reader it_room iter_put iter_fresh iter_got orig pending ok"
    and st: "proxy_ok ok pending fs" "iter_fresh it"
  shows "\<exists>x fs1. read_iter_proxy orig fs it = (int (length x), fs1, iter_put x it) \<and> proxy_ok ok pending fs1 \<and>
      proxy_pending pending fs = x @ proxy_pending pending fs1 \<and> length x \<le> it_room it \<and>
      (x = [] \<longrightarrow> it_room it = 0 \<or> proxy_pending pending fs = [])"
proof -
  obtain f s where fs: "fs = (f, s)" by (cases fs)
  have s: "ok f" "rc_ok s" "0 < rc_pos s \<longrightarrow> pending f = []" using st(1) by (simp_all add: proxy_ok_def fs)
  obtain x s1 where A: "iter_ksu_rc s it = (int (length x), s1, iter_put x it)" "rc_ok s1"
      "rc_pending s = x @ rc_pending s1" "length x \<le> it_room it" "x = [] \<longrightarrow> it_room it = 0 \<or> rc_pending s = []"
    using iter_rc_step [OF s(2), of it] by auto
  show ?thesis
  proof (cases "0 < rc_pos s \<and> rc_pos s < ksu_rc_len \<or> ksu_rc_len \<le> rc_pos s \<and> mod_pos s < mod_len s")
    case True
    have p: "pending f = []" using True s(3) ksu_rc_len_pos by auto
    have "iter_module_rc 0 s it = iter_ksu_rc s it" if "ksu_rc_len \<le> rc_pos s"
      using that by (simp add: iter_ksu_rc_def)
    then have "read_iter_proxy orig fs it = (int (length x), (f, s1), iter_put x it)"
      using True A(1) by (auto simp: read_iter_proxy_def fs)
    then show ?thesis
      using A p s by (intro exI [of _ x] exI [of _ "(f, s1)"]) (simp add: fs proxy_ok_def proxy_pending_def)
  next
    case outside: False
    note P = proxy_step [of s pending f, OF s(2,3)]
    obtain y f1 where O: "orig f it = (int (length y), f1, iter_put y it)" "ok f1"
        "pending f = y @ pending f1" "length y \<le> it_room it" "y = [] \<longrightarrow> it_room it = 0 \<or> pending f = []"
      using stream_reader.rd_step [OF orig s(1) st(2)] by blast
    show ?thesis
    proof (cases "y = [] \<and> rc_pending s \<noteq> []")
      case True
      then have "read_iter_proxy orig fs it = (int (length x), (f1, s1), iter_put x it)"
        using outside O(1) A(1) P(2) by (auto simp: read_iter_proxy_def fs)
      moreover have "0 < rc_pos s1 \<longrightarrow> pending f1 = []"
      proof (cases "it_room it = 0")
        case n: True
        then have "s1 = s" using A(1) P(1) True outside
          by (auto simp: iter_ksu_rc_def iter_module_rc_def copy_to_iter_put split: if_splits)
        then show ?thesis using P(1) True outside by auto
      next
        case False
        then show ?thesis using O True by simp
      qed
      ultimately show ?thesis
        using A O True
        by (intro exI [of _ x] exI [of _ "(f1, s1)"]) (auto simp: fs proxy_ok_def proxy_pending_def)
    next
      case False
      have drained: "y = [] \<Longrightarrow> rc_pending s = []" using False by blast
      have "read_iter_proxy orig fs it = (int (length y), (f1, s), iter_put y it)"
        using False outside O(1) P(2) by (auto simp: read_iter_proxy_def fs)
      moreover have "proxy_pending pending fs = y @ proxy_pending pending (f1, s)"
        using O(3) by (simp add: fs proxy_pending_def)
      moreover have "proxy_ok ok pending (f1, s)"
        using O(2,3) s by (auto simp: proxy_ok_def)
      moreover have "proxy_pending pending fs = []" if "pending f = []" "y = []"
        by (simp only: fs proxy_pending_def fst_conv snd_conv that(1) drained [OF that(2)] append_Nil)
      ultimately show ?thesis using O(4,5) by blast
    qed
  qed
qed

locale rc_file = stream_reader user_room user_put user_fits user_got orig pending ok
  for orig :: "'f \<Rightarrow> user_buf \<Rightarrow> int \<times> 'f \<times> user_buf" and pending :: "'f \<Rightarrow> bytes" and ok :: "'f \<Rightarrow> bool"

sublocale rc_file \<subseteq> injected: stream_reader user_room user_put user_fits user_got
    "read_proxy orig" "proxy_pending pending" "proxy_ok ok pending"
  by unfold_locales (rule read_proxy_step [OF stream_reader_axioms])

locale rc_iter_file = stream_reader it_room iter_put iter_fresh iter_got orig pending ok
  for orig :: "'f \<Rightarrow> iov_iter \<Rightarrow> int \<times> 'f \<times> iov_iter" and pending :: "'f \<Rightarrow> bytes" and ok :: "'f \<Rightarrow> bool"

sublocale rc_iter_file \<subseteq> injected: stream_reader it_room iter_put iter_fresh iter_got
    "read_iter_proxy orig" "proxy_pending pending" "proxy_ok ok pending"
  by unfold_locales (rule read_iter_proxy_step [OF stream_reader_axioms])

section \<open>What init reads\<close>

text \<open>The modules' script that loading finds.\<close>

definition module_script :: "rc_env \<Rightarrow> bytes" where
  "module_script R =
     (case open_module_rc R of
        None \<Rightarrow> []
      | Some f \<Rightarrow>
          if re_no_custom_rc R \<or> \<not> mf_regular f \<or> mf_size f = 0 \<or> \<not> re_alloc_ok R then []
          else (case mf_read f (mf_size f) of Inl _ \<Rightarrow> [] | Inr d \<Rightarrow> d))"

lemma load_module_rc_fresh:
  assumes "\<not> mod_loaded s" "mod_buf s = None" "mod_len s = 0"
  shows "load_module_rc_once R s = s\<lparr>mod_loaded := True,
           mod_buf := (if module_script R = [] then None else Some (module_script R)),
           mod_len := length (module_script R)\<rparr>"
  using assms
  by (auto simp: load_module_rc_once_def module_script_def Let_def split: option.split sum.split)

lemma load_module_rc_loaded [simp]: "mod_loaded s \<Longrightarrow> load_module_rc_once R s = s"
  by (simp add: load_module_rc_once_def)

lemma installed_state:
  assumes "is_init_rc fp"
  shows "fst (ksu_install_rc_hook R fp rc_state0)"
    "rc_ok (snd (ksu_install_rc_hook R fp rc_state0))"
    "rc_pos (snd (ksu_install_rc_hook R fp rc_state0)) = 0"
    "rc_pending (snd (ksu_install_rc_hook R fp rc_state0)) = KERNEL_SU_RC @ module_script R"
proof -
  have e: "ksu_install_rc_hook R fp rc_state0 =
      (True, \<lparr>rc_pos = 0, mod_buf = (if module_script R = [] then None else Some (module_script R)),
              mod_len = length (module_script R), mod_pos = 0, mod_loaded = True, rc_hooked = True,
              rc_sys_hooked = False\<rparr>)"
    using assms
    by (simp add: ksu_install_rc_hook_def rc_state0_def stop_init_rc_hook_def load_module_rc_fresh)
  show "fst (ksu_install_rc_hook R fp rc_state0)"
    "rc_ok (snd (ksu_install_rc_hook R fp rc_state0))"
    "rc_pos (snd (ksu_install_rc_hook R fp rc_state0)) = 0"
    "rc_pending (snd (ksu_install_rc_hook R fp rc_state0)) = KERNEL_SU_RC @ module_script R"
    by (simp_all add: e rc_ok_def rc_pending_def)
qed

text \<open>The size fstat stores, and that loading the modules' script early changes nothing later.\<close>

lemma fstat_init_rc:
  assumes "is_init_rc fp" "orig_fstat m = (ret, m1)" "is_mapped m1 size_ptr 8"
  shows "ksu_sys_fstat R orig_fstat size_ptr (Some fp) rc_state0 m =
     (ret, load_module_rc_once R rc_state0,
      write_bytes size_ptr (le64 (get64 0 (read_bytes m1 size_ptr 8) +
        of_nat (ksu_rc_len + length (module_script R)))) m1)"
  using assms
  by (simp add: ksu_sys_fstat_def Let_def get64_def slice_0_all load_module_rc_fresh rc_state0_def)

lemma install_after_fstat:
  "ksu_install_rc_hook R fp (load_module_rc_once R rc_state0) = ksu_install_rc_hook R fp rc_state0 \<or> \<not> is_init_rc fp"
  by (simp add: ksu_install_rc_hook_def rc_state0_def load_module_rc_fresh stop_init_rc_hook_def)

section \<open>An ordinary file\<close>

text \<open>A read method that keeps the contract: the bytes of a file from a position on.\<close>

definition plain_read :: "bytes \<Rightarrow> user_buf \<Rightarrow> int \<times> bytes \<times> user_buf" where
  "plain_read d b =
     (let x = take (user_room b) d in (int (length x), drop (length x) d, user_put x b))"

definition plain_read_iter :: "bytes \<Rightarrow> iov_iter \<Rightarrow> int \<times> bytes \<times> iov_iter" where
  "plain_read_iter d it =
     (let x = take (it_room it) d in (int (length x), drop (length x) d, iter_put x it))"

interpretation plain: rc_file plain_read "\<lambda>d. d" "\<lambda>_. True"
proof
  fix d :: bytes and b :: user_buf
  show "\<exists>x s1. plain_read d b = (int (length x), s1, user_put x b) \<and> True \<and> d = x @ s1 \<and>
      length x \<le> user_room b \<and> (x = [] \<longrightarrow> user_room b = 0 \<or> d = [])"
    by (intro exI [of _ "take (user_room b) d"] exI [of _ "drop (user_room b) d"])
      (auto simp: plain_read_def Let_def min_def)
qed

interpretation plain_iter: rc_iter_file plain_read_iter "\<lambda>d. d" "\<lambda>_. True"
proof
  fix d :: bytes and it :: iov_iter
  show "\<exists>x s1. plain_read_iter d it = (int (length x), s1, iter_put x it) \<and> True \<and> d = x @ s1 \<and>
      length x \<le> it_room it \<and> (x = [] \<longrightarrow> it_room it = 0 \<or> d = [])"
    by (intro exI [of _ "take (it_room it) d"] exI [of _ "drop (it_room it) d"])
      (auto simp: plain_read_iter_def Let_def min_def)
qed

section \<open>Properties\<close>

lemma read_proxy_reader:
  "stream_reader user_room user_put user_fits user_got orig pending ok \<Longrightarrow>
   stream_reader user_room user_put user_fits user_got (read_proxy orig) (proxy_pending pending) (proxy_ok ok pending)"
  by (intro stream_reader.intro stream_reader_axioms.intro user_dest.destination_axioms)
    (rule read_proxy_step)

lemma read_iter_proxy_reader:
  "stream_reader it_room iter_put iter_fresh iter_got orig pending ok \<Longrightarrow>
   stream_reader it_room iter_put iter_fresh iter_got (read_iter_proxy orig) (proxy_pending pending) (proxy_ok ok pending)"
  by (intro stream_reader.intro stream_reader_axioms.intro iter_dest.destination_axioms)
    (rule read_iter_proxy_step)

lemma installed_proxy:
  assumes "is_init_rc fp" "ok f" "s = snd (ksu_install_rc_hook R fp rc_state0)"
  shows "proxy_ok ok pending (f, s)" "proxy_pending pending (f, s) = pending f @ KERNEL_SU_RC @ module_script R"
  using assms(2,3) installed_state [OF assms(1), of R] by (simp_all add: proxy_ok_def proxy_pending_def)

lemma proxy_delivers:
  assumes "stream_reader room put fits got rd (proxy_pending pending) (proxy_ok ok pending)"
    and "is_init_rc fp" "ok f" "\<forall>b\<in>set bs. fits b \<and> 0 < room b"
    and "length (pending f) + ksu_rc_len + length (module_script R) < length bs"
  shows "\<exists>st. drain_loop rd got bs (f, snd (ksu_install_rc_hook R fp rc_state0)) =
      (pending f @ KERNEL_SU_RC @ module_script R, True, st)"
proof -
  define s where "s = snd (ksu_install_rc_hook R fp rc_state0)"
  note I = installed_proxy [where ok = ok and f = f and s = s and pending = pending, OF assms(2,3) s_def]
  have "length (proxy_pending pending (f, s)) < length bs" using assms(5) by (simp add: I(2) ksu_rc_len_def)
  then obtain st where "drain_loop rd got bs (f, s) = (proxy_pending pending (f, s), True, st)"
    by (rule stream_reader.loop_reads_all [OF assms(1) I(1) assms(4)])
  then show ?thesis unfolding s_def [symmetric] I(2) by (rule exI)
qed

text \<open>
  C20: whatever sizes init reads \<^verbatim>\<open>init.rc\<close> with, once its first read has installed the proxy
  the bytes it gets until end of file are those of the file, then the module's services, then
  the modules' script, each once and in order. The file's own read method may return less than
  it was asked for.
\<close>

theorem init_rc_injected:
  assumes "stream_reader user_room user_put user_fits user_got orig pending ok" "ok f"
    and "is_init_rc fp" "\<forall>b\<in>set bs. user_fits b \<and> 0 < user_room b"
    and "length (pending f) + ksu_rc_len + length (module_script R) < length bs"
  shows "fst (ksu_install_rc_hook R fp rc_state0) \<and>
    (\<exists>st. drain_loop (read_proxy orig) user_got bs (f, snd (ksu_install_rc_hook R fp rc_state0)) =
      (pending f @ KERNEL_SU_RC @ module_script R, True, st))"
  using proxy_delivers [OF read_proxy_reader [OF assms(1)] assms(3,2,4,5)] installed_state(1) [OF assms(3), of R]
  by blast

text \<open>
  Reading through the file's \<open>read\<close> or through its \<open>read_iter\<close> method makes no
  difference: a task that reads until end of file receives the same bytes.
\<close>

theorem read_paths_agree:
  assumes "stream_reader user_room user_put user_fits user_got orig pending ok" "ok f"
    and "stream_reader it_room iter_put iter_fresh iter_got orig' pending' ok'" "ok' f'"
    and "pending f = pending' f'" "is_init_rc fp"
    and "\<forall>b\<in>set bs. user_fits b \<and> 0 < user_room b" "\<forall>it\<in>set its. iter_fresh it \<and> 0 < it_room it"
    and "length (pending f) + ksu_rc_len + length (module_script R) < min (length bs) (length its)"
  defines "s \<equiv> snd (ksu_install_rc_hook R fp rc_state0)"
  shows "fst (drain_loop (read_proxy orig) user_got bs (f, s)) =
         fst (drain_loop (read_iter_proxy orig') iter_got its (f', s))"
proof -
  have len: "length (pending f) + ksu_rc_len + length (module_script R) < length bs"
    "length (pending' f') + ksu_rc_len + length (module_script R) < length its"
    using assms(5,9) by simp_all
  show ?thesis
    using proxy_delivers [OF read_proxy_reader [OF assms(1)] assms(6,2,7) len(1)]
      proxy_delivers [OF read_iter_proxy_reader [OF assms(3)] assms(6,4,8) len(2)] assms(5)
    unfolding s_def by auto
qed

text \<open>
  The size fstat reports for \<^verbatim>\<open>init.rc\<close>, before the first read, is the number of bytes
  reading it will deliver, provided the two scripts leave it below \<open>2 ^ 64\<close>.
\<close>

theorem fstat_size_is_read_length:
  assumes "stream_reader user_room user_put user_fits user_got orig pending ok" "ok f" "is_init_rc fp"
    and "orig_fstat m = (ret, m1)" "is_mapped m1 size_ptr 8"
    and "get64 0 (read_bytes m1 size_ptr 8) = of_nat (length (pending f))"
    and "length (pending f) + ksu_rc_len + length (module_script R) < 2 ^ 64"
    and "\<forall>b\<in>set bs. user_fits b \<and> 0 < user_room b"
    and "length (pending f) + ksu_rc_len + length (module_script R) < length bs"
  shows "case ksu_sys_fstat R orig_fstat size_ptr (Some fp) rc_state0 m of
    (r, s, m2) \<Rightarrow> r = ret \<and>
      unat (get64 0 (read_bytes m2 size_ptr 8)) =
        length (fst (drain_loop (read_proxy orig) user_got bs (f, snd (ksu_install_rc_hook R fp s))))"
proof -
  have g: "get64 0 (le64 w) = w" for w using get64_le64 [of "[]" 0 w "[]"] by simp
  have "unat (of_nat (length (pending f)) + (of_nat (ksu_rc_len + length (module_script R)) :: u64)) =
      length (pending f) + ksu_rc_len + length (module_script R)"
    using assms(7) by (simp add: unat_of_nat add.assoc flip: of_nat_add)
  then show ?thesis
    using install_after_fstat [of R fp] assms(3,6)
      proxy_delivers [OF read_proxy_reader [OF assms(1)] assms(3,2,8,9)]
    by (auto simp: fstat_init_rc [where orig_fstat = orig_fstat and m = m, OF assms(3-5)] g ksu_rc_len_def add.assoc)
qed

section \<open>The properties at an example\<close>

definition ex_init_rc :: rc_file where
  "ex_init_rc = \<lparr>rf_comm = lit ''init'', rf_regular = True, rf_name = lit ''init.rc'',
                 rf_dpath = Some INIT_RC_PATH\<rparr>"

definition ex_rc_env :: rc_env where
  "ex_rc_env = \<lparr>re_open = (\<lambda>p. if p = MODULE_RC_PATH_DEFAULT
                               then Some \<lparr>mf_regular = True, mf_size = 8, mf_read = (\<lambda>n. Inr (take n (lit ''on boot'')))\<rparr>
                               else None),
                re_alloc_ok = True, re_no_custom_rc = False\<rparr>"

definition ex_bufs :: "user_buf list" where
  "ex_bufs = replicate 500 (4096, 100, \<lambda>_. Some 0)"

definition ex_iters :: "iov_iter list" where
  "ex_iters = replicate 500 \<lparr>it_room = 33, it_data = []\<rparr>"

lemma ex_rc_facts:
  "is_init_rc ex_init_rc" "module_script ex_rc_env = lit ''on boot''" "ksu_rc_len \<le> 440"
  "\<forall>b\<in>set ex_bufs. user_fits b \<and> 0 < user_room b"
  "\<forall>it\<in>set ex_iters. iter_fresh it \<and> 0 < it_room it"
proof -
  show "is_init_rc ex_init_rc" by (simp add: is_init_rc_def ex_init_rc_def str_eq_def)
  have "MODULE_RC_PATH_WATCHDOG \<noteq> MODULE_RC_PATH_DEFAULT" by code_simp
  then show "module_script ex_rc_env = lit ''on boot''"
    by (simp add: module_script_def open_module_rc_def ex_rc_env_def lit_def)
  show "ksu_rc_len \<le> 440" by code_simp
  show "\<forall>b\<in>set ex_bufs. user_fits b \<and> 0 < user_room b"
    by (simp add: ex_bufs_def user_fits_def user_room_def is_mapped_iff)
  show "\<forall>it\<in>set ex_iters. iter_fresh it \<and> 0 < it_room it" by (simp add: ex_iters_def iter_fresh_def)
qed

theorem init_rc_injected_witness:
  "\<exists>st. drain_loop (read_proxy plain_read) user_got ex_bufs
      (lit ''import'', snd (ksu_install_rc_hook ex_rc_env ex_init_rc rc_state0)) =
    (lit ''import'' @ KERNEL_SU_RC @ lit ''on boot'', True, st)"
  using init_rc_injected [OF plain.stream_reader_axioms TrueI ex_rc_facts(1,4), of "lit ''import''" ex_rc_env]
    ex_rc_facts(2,3) by (simp add: ex_bufs_def lit_def)

theorem read_paths_agree_witness:
  "fst (drain_loop (read_proxy plain_read) user_got ex_bufs
      (lit ''import'', snd (ksu_install_rc_hook ex_rc_env ex_init_rc rc_state0))) =
   fst (drain_loop (read_iter_proxy plain_read_iter) iter_got ex_iters
      (lit ''import'', snd (ksu_install_rc_hook ex_rc_env ex_init_rc rc_state0)))"
  using read_paths_agree [OF plain.stream_reader_axioms TrueI plain_iter.stream_reader_axioms TrueI
      refl ex_rc_facts(1,4,5), of "lit ''import''" ex_rc_env]
    ex_rc_facts(2,3) by (simp add: ex_bufs_def ex_iters_def lit_def)

theorem fstat_size_is_read_length_witness:
  "case ksu_sys_fstat ex_rc_env (\<lambda>m. (0, write_bytes 48 (le64 6) m)) 48 (Some ex_init_rc) rc_state0 (\<lambda>_. Some 0) of
    (r, s, m2) \<Rightarrow> r = 0 \<and>
      unat (get64 0 (read_bytes m2 48 8)) =
        length (fst (drain_loop (read_proxy plain_read) user_got ex_bufs
          (lit ''import'', snd (ksu_install_rc_hook ex_rc_env ex_init_rc s))))"
proof (rule fstat_size_is_read_length [OF plain.stream_reader_axioms TrueI ex_rc_facts(1)])
  show "(0 :: int, write_bytes 48 (le64 6) (\<lambda>_. Some 0)) = (0, write_bytes 48 (le64 6) (\<lambda>_. Some 0))" ..
  show "is_mapped (write_bytes 48 (le64 6) (\<lambda>_. Some 0)) 48 8" by (simp add: is_mapped_iff write_bytes_def)
  show "get64 0 (read_bytes (write_bytes 48 (le64 6) (\<lambda>_. Some 0)) 48 8) = of_nat (length (lit ''import''))"
    using get64_le64 [of "[]" 0 6 "[]"] by (simp add: lit_def)
  show "length (lit ''import'') + ksu_rc_len + length (module_script ex_rc_env) < 2 ^ 64"
    "length (lit ''import'') + ksu_rc_len + length (module_script ex_rc_env) < length ex_bufs"
    using ex_rc_facts(2,3) by (simp_all add: ex_bufs_def lit_def)
qed (rule ex_rc_facts)

end
