(* ===== verification/Driver_Fd.thy ===== *)
theory Driver_Fd
  imports User_Mem
begin

text \<open>
  Getting the driver descriptor (\<^verbatim>\<open>kernel/supercall/supercall.c\<close>): a \<^verbatim>\<open>reboot\<close> system call
  with two magic numbers queues a task work, which on the way back to user space opens the
  driver and writes the descriptor number to the address the caller gave.
\<close>

text \<open>Whether a descriptor number is free and whether the anonymous file can be created.\<close>

record fd_env =
  fe_unused :: "errno + nat"
  fe_getfile :: "errno + unit"

text \<open>
  A task's side of it: the descriptors that are the driver, and the queued works with the
  address each is to write to.
\<close>

record driver =
  dr_fds :: "nat list"
  dr_works :: "u64 list"

definition ksu_install_fd :: "fd_env \<Rightarrow> driver \<Rightarrow> int \<times> driver" where
  "ksu_install_fd F d =
     (case fe_unused F of
        Inl e \<Rightarrow> (neg_errno e, d)
      | Inr fd \<Rightarrow>
          (case fe_getfile F of
             Inl e \<Rightarrow> (neg_errno e, d)
           | Inr _ \<Rightarrow> (int fd, d\<lparr>dr_fds := dr_fds d @ [fd]\<rparr>)))"

text \<open>Closing a number that is not open, a negative one included, does nothing.\<close>

definition ksu_close_fd :: "int \<Rightarrow> driver \<Rightarrow> driver" where
  "ksu_close_fd fd d = d\<lparr>dr_fds := filter (\<lambda>n. int n \<noteq> fd) (dr_fds d)\<rparr>"

definition ksu_install_fd_tw_func :: "fd_env \<Rightarrow> u64 \<Rightarrow> driver \<times> umem \<Rightarrow> driver \<times> umem" where
  "ksu_install_fd_tw_func F outp s =
     (let (d, m) = s;
          (fd, d1) = ksu_install_fd F d;
          (left, m1) = copy_to_user (unat outp) (le32 (word_of_int fd)) m
      in if left \<noteq> 0 then (ksu_close_fd fd d1, m1) else (d1, m1))"

definition KSU_INSTALL_MAGIC1 :: u32 where "KSU_INSTALL_MAGIC1 = 0xDEADBEEF"

definition KSU_INSTALL_MAGIC2 :: u32 where "KSU_INSTALL_MAGIC2 = 0xCAFEBABE"

text \<open>The registers are 64 bits wide; the magic numbers are their low halves.\<close>

definition reboot_handler_pre :: "bool \<Rightarrow> bool \<Rightarrow> u64 \<Rightarrow> u64 \<Rightarrow> u64 \<Rightarrow> driver \<Rightarrow> driver" where
  "reboot_handler_pre alloc_ok add_ok parm1 parm2 parm4 d =
     (let magic1 = ucast parm1 :: u32; magic2 = ucast parm2 :: u32 in
      if magic1 = KSU_INSTALL_MAGIC1 \<and> magic2 = KSU_INSTALL_MAGIC2 then
        if \<not> alloc_ok then d
        else if \<not> add_ok then d
        else d\<lparr>dr_works := dr_works d @ [parm4]\<rparr>
      else d)"

text \<open>Back in user space the works have run, in order.\<close>

definition run_works :: "fd_env \<Rightarrow> driver \<times> umem \<Rightarrow> driver \<times> umem" where
  "run_works F s =
     (let (d, m) = s in
      foldl (\<lambda>s outp. ksu_install_fd_tw_func F outp s) (d\<lparr>dr_works := []\<rparr>, m) (dr_works d))"

section \<open>Property\<close>

text \<open>
  A call with the magic numbers leaves either a driver descriptor whose number is at the
  given address, or, when the number cannot be written, no descriptor that was not there
  before; any other call leaves the driver alone.
\<close>

theorem reboot_installs_fd:
  assumes "fe_unused F = Inr fd" "fe_getfile F = Inr ()" "fd < 2 ^ 31" "fd \<notin> set (dr_fds d)" "dr_works d = []"
  shows "run_works F (reboot_handler_pre True True p1 p2 p4 d, m) =
     (if ucast p1 = KSU_INSTALL_MAGIC1 \<and> ucast p2 = KSU_INSTALL_MAGIC2 then
        if is_mapped m (unat p4) 4
        then (d\<lparr>dr_fds := dr_fds d @ [fd]\<rparr>, write_bytes (unat p4) (le32 (of_nat fd)) m)
        else (d, snd (copy_to_user (unat p4) (le32 (of_nat fd)) m))
      else (d, m))"
proof -
  have k: "filter (\<lambda>n. n \<noteq> fd) (dr_fds d) = dr_fds d"
    using assms(4) by (auto simp: filter_id_conv)
  have left: "mapped_prefix m (unat p4) 4 < 4" if "\<not> is_mapped m (unat p4) 4"
  proof (rule ccontr)
    assume "\<not> mapped_prefix m (unat p4) 4 < 4"
    then have "length (takeWhile (\<lambda>i. m (unat p4 + i) \<noteq> None) [0..<4]) = length [0..<4]"
      using length_takeWhile_le [of "\<lambda>i. m (unat p4 + i) \<noteq> None" "[0..<4]"]
      by (simp only: mapped_prefix_def length_upt)
    then have "takeWhile (\<lambda>i. m (unat p4 + i) \<noteq> None) [0..<4] = [0..<4]"
      by (metis takeWhile_eq_take take_all_iff order_refl)
    then have "\<forall>i\<in>set [0..<4]. m (unat p4 + i) \<noteq> None" by (simp only: takeWhile_eq_all_conv)
    then show False using that by (auto simp: is_mapped_iff)
  qed
  show ?thesis
    using assms(1-3,5) k left
    by (auto simp: run_works_def reboot_handler_pre_def ksu_install_fd_tw_func_def ksu_install_fd_def
        ksu_close_fd_def copy_to_user_def mapped_prefix_all Let_def)
qed

definition ex_fd_env :: fd_env where
  "ex_fd_env = \<lparr>fe_unused = Inr 7, fe_getfile = Inr ()\<rparr>"

theorem reboot_installs_fd_witness:
  "run_works ex_fd_env (reboot_handler_pre True True 0x1DEADBEEF 0xCAFEBABE 16 \<lparr>dr_fds = [3], dr_works = []\<rparr>, \<lambda>_. Some 0) =
   (\<lparr>dr_fds = [3, 7], dr_works = []\<rparr>, write_bytes 16 (le32 7) (\<lambda>_. Some 0))"
  using reboot_installs_fd [of ex_fd_env 7 "\<lparr>dr_fds = [3], dr_works = []\<rparr>" "0x1DEADBEEF" "0xCAFEBABE" 16 "\<lambda>_. Some 0"]
  by (simp add: ex_fd_env_def KSU_INSTALL_MAGIC1_def KSU_INSTALL_MAGIC2_def is_mapped_iff)

end
