(* ===== verification/Setuid_Hook.thy ===== *)
theory Setuid_Hook
  imports Task Feature Driver_Fd
begin

text \<open>
  What the module does when zygote turns a fresh process into an application
  (\<^verbatim>\<open>kernel/hook/setuid_hook.c\<close>): the manager gets the driver and a mark, an allowed uid gets
  a mark, and for the others the listed mounts of the modules are undone in the process's
  mount namespace (\<^verbatim>\<open>kernel/feature/kernel_umount.c\<close>). The kernel's path lookup and unmount
  act on a namespace of any type \<open>'ns\<close>.
\<close>

section \<open>Unmounting\<close>

record mount_entry =
  me_umountable :: bytes
  me_flags :: u32

text \<open>
  \<open>ma_path\<close>: whether a path resolves, and then whether it is the root of a mount;
  \<open>ma_umount\<close>: \<^verbatim>\<open>path_umount\<close> with its error, which is only logged.
\<close>

record 'ns mnt_api =
  ma_path :: "'ns \<Rightarrow> bytes \<Rightarrow> bool option"
  ma_umount :: "bytes \<Rightarrow> u32 \<Rightarrow> 'ns \<Rightarrow> (errno + unit) \<times> 'ns"

definition ksu_umount_mnt :: "'ns mnt_api \<Rightarrow> bytes \<Rightarrow> u32 \<Rightarrow> 'ns \<Rightarrow> 'ns" where
  "ksu_umount_mnt A mnt flags ns = snd (ma_umount A mnt flags ns)"

definition try_umount :: "'ns mnt_api \<Rightarrow> bytes \<Rightarrow> u32 \<Rightarrow> 'ns \<Rightarrow> 'ns" where
  "try_umount A mnt flags ns =
     (case ma_path A ns mnt of
        None \<Rightarrow> ns
      | Some is_root \<Rightarrow> if \<not> is_root then ns else ksu_umount_mnt A mnt flags ns)"

definition umount_all :: "'ns mnt_api \<Rightarrow> mount_entry list \<Rightarrow> 'ns \<Rightarrow> 'ns" where
  "umount_all A es ns = foldl (\<lambda>ns e. try_umount A (me_umountable e) (me_flags e) ns) ns es"

text \<open>
  The surroundings of the current task's system call, and the state it changes. \<open>hs_driver\<close>
  and \<open>hs_ns\<close> are the driver descriptors and the mount namespace of the current task.
\<close>

record 'ns hook_env =
  he_ksu :: ksu_env
  he_appid :: u32
  he_lsm :: lsm
  he_sids :: sid_cache
  he_arch :: seccomp_arch
  he_reboot_nr :: int
  he_fd :: fd_env
  he_flags :: ksu_flags
  he_module_mounted :: bool
  he_mounts :: "mount_entry list"
  he_mnt :: "'ns mnt_api"

record 'ns hook_state =
  hs_allow :: allowlist
  hs_kernel :: kernel
  hs_driver :: driver
  hs_ns :: 'ns

text \<open>\<open>None\<close> is a profile lookup that does not return. \<open>sec\<close> is the credential of the task before the call.\<close>

definition ksu_handle_umount ::
    "'ns hook_env \<Rightarrow> task_sec option \<Rightarrow> uid \<Rightarrow> 'ns hook_state \<Rightarrow> 'ns hook_state option" where
  "ksu_handle_umount H sec new_uid s =
     (if \<not> he_module_mounted H then Some s
      else if \<not> ksu_kernel_umount_enabled (he_flags H) then Some s
      else if \<not> is_appuid new_uid \<and> \<not> is_isolated_process new_uid then Some s
      else case ksu_uid_should_umount (he_ksu H) (he_appid H) new_uid (hs_allow s) of
          None \<Rightarrow> None
        | Some (should, al1) \<Rightarrow>
            let s1 = s\<lparr>hs_allow := al1\<rparr> in
            if \<not> should \<and> \<not> is_isolated_process new_uid then Some s1
            else if \<not> is_zygote (he_lsm H) (he_sids H) sec then Some s1
            else Some (s1\<lparr>hs_ns := umount_all (he_mnt H) (he_mounts H) (hs_ns s1)\<rparr>))"

section \<open>The hook\<close>

definition SECCOMP_MODE_FILTER :: nat where "SECCOMP_MODE_FILTER = 2"

definition allow_reboot :: "'ns hook_env \<Rightarrow> addr option \<Rightarrow> kernel \<Rightarrow> kernel" where
  "allow_reboot H fo = ksu_seccomp_allow_cache (he_arch H) fo (he_reboot_nr H)"

definition ksu_handle_setresuid ::
    "'ns hook_env \<Rightarrow> nat \<Rightarrow> uid \<Rightarrow> 'ns hook_state \<Rightarrow> 'ns hook_state option" where
  "ksu_handle_setresuid H pid new_uid s =
     (case find_thread pid (hs_kernel s) of
        None \<Rightarrow> None
      | Some t \<Rightarrow>
          if is_uid_manager (he_ksu H) (he_appid H) new_uid then
            let k1 = allow_reboot H (th_filter t) (hs_kernel s);
                k2 = update_thread pid set_flag k1;
                (fd, d1) = ksu_install_fd (he_fd H) (hs_driver s)
            in Some (s\<lparr>hs_kernel := k2, hs_driver := d1\<rparr>)
          else
            let in_ksu = is_task_ksu_domain (he_lsm H) (he_sids H) (cr_security (th_cred t));
                k1 = (if ksu_is_allow_uid_for_current (he_ksu H) (he_appid H) in_ksu new_uid (hs_allow s) then
                        update_thread pid set_flag
                          (if th_seccomp_mode t = SECCOMP_MODE_FILTER \<and> th_filter t \<noteq> None
                           then allow_reboot H (th_filter t) (hs_kernel s) else hs_kernel s)
                      else ksu_clear_flag_if_needed pid (hs_kernel s))
            in ksu_handle_umount H (cr_security (th_cred t)) new_uid (s\<lparr>hs_kernel := k1\<rparr>))"

definition ksu_kernel_umount_init :: "ksu_flags registry \<Rightarrow> ksu_flags registry" where
  "ksu_kernel_umount_init R = snd (ksu_register_feature_handler (Some kernel_umount_handler) R)"

definition ksu_kernel_umount_exit :: "ksu_flags registry \<Rightarrow> ksu_flags registry" where
  "ksu_kernel_umount_exit R = snd (ksu_unregister_feature_handler KSU_FEATURE_KERNEL_UMOUNT R)"

definition ksu_setuid_hook_init :: "ksu_flags registry \<Rightarrow> ksu_flags registry" where
  "ksu_setuid_hook_init R = ksu_kernel_umount_init R"

definition ksu_setuid_hook_exit :: "ksu_flags registry \<Rightarrow> ksu_flags registry" where
  "ksu_setuid_hook_exit R = ksu_kernel_umount_exit R"

section \<open>Lemmas\<close>

definition umounts_for :: "'ns hook_env \<Rightarrow> allowlist \<Rightarrow> task_sec option \<Rightarrow> uid \<Rightarrow> bool" where
  "umounts_for H al sec u \<longleftrightarrow>
     he_module_mounted H \<and> ksu_kernel_umount_enabled (he_flags H) \<and> is_zygote (he_lsm H) (he_sids H) sec \<and>
     (is_isolated_process u \<or>
      is_appuid u \<and>
      \<not> (ksu_is_manager_appid_valid (he_ksu H) (he_appid H) \<and>
         ksu_get_manager_appid (he_ksu H) (he_appid H) = u mod PER_USER_RANGE) \<and>
      (if disable_policy (he_ksu H) then \<not> ksu_is_allow_uid (he_ksu H) (he_appid H) u al
       else umount_of_profile al (al_profile (he_ksu H) al u)))"

lemma webview_not_app: "\<not> is_appuid WEBVIEW_ZYGOTE_UID"
  by (simp add: is_appuid_def Let_def)

lemma handle_umount_spec:
  assumes "al_inv (he_ksu H) held (hs_allow s)"
  obtains al1 where "ksu_handle_umount H sec u s =
      Some (s\<lparr>hs_allow := al1,
             hs_ns := if umounts_for H (hs_allow s) sec u then umount_all (he_mnt H) (he_mounts H) (hs_ns s)
                      else hs_ns s\<rparr>)"
    "al_inv (he_ksu H) held al1" "al_profile (he_ksu H) al1 = al_profile (he_ksu H) (hs_allow s)"
proof -
  obtain al1 where U: "ksu_uid_should_umount (he_ksu H) (he_appid H) u (hs_allow s) =
      Some (if ksu_is_manager_appid_valid (he_ksu H) (he_appid H) \<and>
                 ksu_get_manager_appid (he_ksu H) (he_appid H) = u mod PER_USER_RANGE
               \<or> u = WEBVIEW_ZYGOTE_UID then False
            else if disable_policy (he_ksu H) then \<not> ksu_is_allow_uid (he_ksu H) (he_appid H) u (hs_allow s)
            else umount_of_profile (hs_allow s) (al_profile (he_ksu H) (hs_allow s) u), al1)"
    "al_inv (he_ksu H) held al1" "al_profile (he_ksu H) al1 = al_profile (he_ksu H) (hs_allow s)"
    using should_umount_spec [OF assms] by blast
  show thesis
  proof (cases "he_module_mounted H \<and> ksu_kernel_umount_enabled (he_flags H) \<and>
      (is_appuid u \<or> is_isolated_process u)")
    case False
    then have "ksu_handle_umount H sec u s = Some s" by (auto simp: ksu_handle_umount_def)
    moreover have "\<not> umounts_for H (hs_allow s) sec u" using False by (auto simp: umounts_for_def)
    ultimately show thesis using that [of "hs_allow s"] assms by simp
  next
    case True
    then show thesis
      using U webview_not_app that [of al1]
      by (auto simp: ksu_handle_umount_def umounts_for_def Let_def split: if_splits)
  qed
qed

lemma allow_reboot_frame [simp]: "find_thread pid (allow_reboot H fo k) = find_thread pid k"
  by (simp add: allow_reboot_def ksu_seccomp_allow_cache_def)

lemma allowed_not_umounted:
  assumes "inv_chains (he_ksu H) al" "u \<noteq> 0" "\<not> is_uid_manager (he_ksu H) (he_appid H) u"
    and "ksu_is_allow_uid (he_ksu H) (he_appid H) u al" "\<not> is_isolated_process u"
  shows "\<not> umounts_for H al sec u"
proof -
  have "is_appuid u \<Longrightarrow> u \<noteq> SHELL_UID" by (auto simp: is_appuid_def Let_def)
  then show ?thesis
    using assms by (auto simp: umounts_for_def is_allow_uid_iff umount_of_profile_def)
qed

section \<open>Properties\<close>

text \<open>
  C19: what setresuid in a zygote child leads to. The call always returns and keeps the
  allowlist sound with the same profiles. The manager is marked and receives the driver
  descriptor; any other process is marked exactly when its new uid may become root (a mark stays
  when other users hold the tracepoint), and its modules are unmounted, every listed path in
  order, exactly when \<open>umounts_for\<close> says so: modules are mounted, the feature is on, the
  process comes from zygote, and the uid is isolated or an application whose profile (or the
  default) asks for it. An allowed uid that is not isolated keeps its mounts.
\<close>

theorem setresuid_spec:
  fixes H :: "'ns hook_env" and u :: uid
  assumes "al_inv (he_ksu H) held (hs_allow s)" "find_thread pid (hs_kernel s) = Some t"
  defines "mgr \<equiv> is_uid_manager (he_ksu H) (he_appid H) u"
    and "allowed \<equiv> ksu_is_allow_uid_for_current (he_ksu H) (he_appid H)
      (is_task_ksu_domain (he_lsm H) (he_sids H) (cr_security (th_cred t))) u (hs_allow s)"
  shows "\<exists>s' t'. ksu_handle_setresuid H pid u s = Some s' \<and>
    al_inv (he_ksu H) held (hs_allow s') \<and> al_profile (he_ksu H) (hs_allow s') = al_profile (he_ksu H) (hs_allow s) \<and>
    find_thread pid (hs_kernel s') = Some t' \<and>
    th_tracepoint t' = (mgr \<or> allowed \<or> k_reg_count (hs_kernel s) > 1 \<and> th_tracepoint t) \<and>
    hs_driver s' = (if mgr then snd (ksu_install_fd (he_fd H) (hs_driver s)) else hs_driver s) \<and>
    hs_ns s' = (if \<not> mgr \<and> umounts_for H (hs_allow s) (cr_security (th_cred t)) u
                then umount_all (he_mnt H) (he_mounts H) (hs_ns s) else hs_ns s) \<and>
    (u \<noteq> 0 \<and> allowed \<and> \<not> is_isolated_process u \<longrightarrow> hs_ns s' = hs_ns s)"
proof (cases mgr)
  case True
  define s' where "s' = s\<lparr>hs_kernel := update_thread pid set_flag (allow_reboot H (th_filter t) (hs_kernel s)),
                          hs_driver := snd (ksu_install_fd (he_fd H) (hs_driver s))\<rparr>"
  have e: "ksu_handle_setresuid H pid u s = Some s'"
    using True assms(2) by (simp add: ksu_handle_setresuid_def mgr_def s'_def Let_def split_beta)
  have "find_thread pid (hs_kernel s') = Some (set_flag t)"
    using assms(2) by (simp add: find_update_thread s'_def)
  then show ?thesis
    using True assms(1) e by (intro exI [of _ s'] exI [of _ "set_flag t"]) (simp add: s'_def)
next
  case False
  define k1 where "k1 = (if allowed then
      update_thread pid set_flag (if th_seccomp_mode t = SECCOMP_MODE_FILTER \<and> th_filter t \<noteq> None
        then allow_reboot H (th_filter t) (hs_kernel s) else hs_kernel s)
    else ksu_clear_flag_if_needed pid (hs_kernel s))"
  obtain t' where t': "find_thread pid k1 = Some t'"
      "th_tracepoint t' = (allowed \<or> k_reg_count (hs_kernel s) > 1 \<and> th_tracepoint t)"
  proof (cases allowed)
    case True
    then have "find_thread pid k1 = Some (set_flag t)" using assms(2) by (simp add: k1_def find_update_thread)
    then show thesis using that [of "set_flag t"] True by simp
  next
    case False
    then have "find_thread pid k1 = Some (if k_reg_count (hs_kernel s) \<le> 1 then clear_flag t else t)"
      using assms(2) by (simp add: k1_def ksu_clear_flag_if_needed_def find_update_thread)
    then show thesis using that False by simp
  qed
  define s1 where "s1 = s\<lparr>hs_kernel := k1\<rparr>"
  have s1: "hs_allow s1 = hs_allow s" "hs_kernel s1 = k1" "hs_driver s1 = hs_driver s" "hs_ns s1 = hs_ns s"
    by (simp_all add: s1_def)
  have "al_inv (he_ksu H) held (hs_allow s1)" using assms(1) by (simp add: s1)
  then obtain al1 where U: "ksu_handle_umount H (cr_security (th_cred t)) u s1 =
      Some (s1\<lparr>hs_allow := al1,
             hs_ns := if umounts_for H (hs_allow s1) (cr_security (th_cred t)) u
                      then umount_all (he_mnt H) (he_mounts H) (hs_ns s1) else hs_ns s1\<rparr>)"
    "al_inv (he_ksu H) held al1" "al_profile (he_ksu H) al1 = al_profile (he_ksu H) (hs_allow s1)"
    by (rule handle_umount_spec)
  have e: "ksu_handle_setresuid H pid u s = ksu_handle_umount H (cr_security (th_cred t)) u s1"
    using False assms(2) by (simp add: ksu_handle_setresuid_def mgr_def allowed_def k1_def s1_def Let_def)
  have n: "\<not> umounts_for H (hs_allow s) (cr_security (th_cred t)) u"
    if "u \<noteq> 0" allowed "\<not> is_isolated_process u"
  proof (rule allowed_not_umounted)
    show "inv_chains (he_ksu H) (hs_allow s)" using assms(1) by (simp add: al_inv_def)
    show "ksu_is_allow_uid (he_ksu H) (he_appid H) u (hs_allow s)"
      using that by (simp add: allowed_def ksu_is_allow_uid_for_current_def)
  qed (use that False in \<open>simp_all add: mgr_def\<close>)
  define s' where "s' = s1\<lparr>hs_allow := al1,
             hs_ns := if umounts_for H (hs_allow s1) (cr_security (th_cred t)) u
                      then umount_all (he_mnt H) (he_mounts H) (hs_ns s1) else hs_ns s1\<rparr>"
  have p: "hs_allow s' = al1" "hs_kernel s' = k1" "hs_driver s' = hs_driver s"
    "hs_ns s' = (if umounts_for H (hs_allow s) (cr_security (th_cred t)) u
                 then umount_all (he_mnt H) (he_mounts H) (hs_ns s) else hs_ns s)"
    by (simp_all add: s'_def s1)
  have "ksu_handle_setresuid H pid u s = Some s'" unfolding e U(1) s'_def ..
  then show ?thesis
    using U(2,3) t' False n by (intro exI [of _ s'] exI [of _ t']) (auto simp: p s1)
qed

section \<open>The property at an example\<close>

text \<open>A namespace as the list of its mount points; unmounting removes the topmost of a path.\<close>

definition list_mnt :: "bytes list mnt_api" where
  "list_mnt = \<lparr>ma_path = (\<lambda>ns p. Some (p \<in> set ns)), ma_umount = (\<lambda>p f ns. (Inr (), remove1 p ns))\<rparr>"

definition zygote_lsm :: lsm where
  "zygote_lsm = \<lparr>ctx_sid = (\<lambda>c. if c = ZYGOTE_CONTEXT then Some 9 else None), sid_ctx = (\<lambda>_. None)\<rparr>"

definition ex_hook :: "bytes list hook_env" where
  "ex_hook = \<lparr>he_ksu = ex_env, he_appid = 10009, he_lsm = zygote_lsm, he_sids = no_cache\<lparr>cached_zygote_sid := 9\<rparr>,
     he_arch = \<lparr>native_nr = 512, compat_nr = None\<rparr>, he_reboot_nr = 142,
     he_fd = \<lparr>fe_unused = Inr 7, fe_getfile = Inr ()\<rparr>, he_flags = flags_at_load, he_module_mounted = True,
     he_mounts = [\<lparr>me_umountable = [1], me_flags = 2\<rparr>, \<lparr>me_umountable = [2], me_flags = 0\<rparr>], he_mnt = list_mnt\<rparr>"

definition ex_zygote_child :: thread where
  "ex_zygote_child = (ex_thread 100 0)\<lparr>th_cred := (ex_cred 0)\<lparr>cr_security :=
     Some \<lparr>ts_sid = 9, ts_exec_sid = 0, ts_create_sid = 0, ts_keycreate_sid = 0, ts_sockcreate_sid = 0\<rparr>\<rparr>\<rparr>"

definition ex_hook_state :: "bytes list hook_state" where
  "ex_hook_state = \<lparr>hs_allow = ex_list 10001 True,
     hs_kernel = ex_kernel\<lparr>k_threads := [ex_zygote_child]\<rparr>,
     hs_driver = \<lparr>dr_fds = [], dr_works = []\<rparr>, hs_ns = [[2], [1], [3], [2]]\<rparr>"

text \<open>The allowed application keeps its mounts; another one loses a layer of each listed path.\<close>

theorem setresuid_spec_witness:
  "\<exists>s1 s2. ksu_handle_setresuid ex_hook 100 10001 ex_hook_state = Some s1 \<and> hs_ns s1 = hs_ns ex_hook_state \<and>
     ksu_handle_setresuid ex_hook 100 10002 ex_hook_state = Some s2 \<and> hs_ns s2 = [[3], [2]]"
proof -
  have inv: "al_inv (he_ksu ex_hook) (\<lambda>_. 0) (hs_allow ex_hook_state)"
    using ex_list_inv by (simp add: ex_hook_def ex_hook_state_def)
  have t: "find_thread 100 (hs_kernel ex_hook_state) = Some ex_zygote_child"
    by (simp add: find_thread_def ex_hook_state_def ex_zygote_child_def ex_thread_def)
  have d: "al_default_umount (ex_list 10001 True)"
    by (simp add: ex_list_def ksu_set_app_profile_def stored_profile_def find_uid_def
        ksu_allowlist_init_def Let_def add_node_def note_default_def)
  have umount: "umounts_for ex_hook (hs_allow ex_hook_state) (cr_security (th_cred ex_zygote_child)) 10002"
    by (simp add: umounts_for_def ex_hook_def ex_hook_state_def ex_zygote_child_def ex_list_profile
        umount_of_profile_def is_zygote_def is_sid_match_def no_cache_def flags_at_load_def is_appuid_def
        ksu_get_manager_appid_def d)
  have ids: "\<not> is_uid_manager (he_ksu ex_hook) (he_appid ex_hook) 10001"
    "\<not> is_uid_manager (he_ksu ex_hook) (he_appid ex_hook) 10002" "\<not> is_isolated_process 10001"
    by (simp_all add: is_uid_manager_def ex_hook_def is_isolated_process_def Let_def)
  have allowed: "ksu_is_allow_uid_for_current (he_ksu ex_hook) (he_appid ex_hook) b 10001 (hs_allow ex_hook_state)" for b
    using inv
    by (simp add: ksu_is_allow_uid_for_current_def is_allow_uid_iff al_inv_def ex_hook_def ex_hook_state_def
        ex_list_profile forbid_system_uid_def)
  have ns: "umount_all (he_mnt ex_hook) (he_mounts ex_hook) (hs_ns ex_hook_state) = [[3], [2]]"
    by (simp add: umount_all_def try_umount_def ksu_umount_mnt_def ex_hook_def ex_hook_state_def list_mnt_def)
  show ?thesis
    using setresuid_spec [OF inv t, of 10001] setresuid_spec [OF inv t, of 10002] ids allowed umount ns by auto
qed

end
