(* ===== verification/Boot.thy ===== *)
theory Boot
  imports User_Mem Selinux Throne_Tracker Allowlist_Store
begin

text \<open>
  What happens while the device boots (\<^verbatim>\<open>kernel/runtime/boot_event.c\<close>,
  \<^verbatim>\<open>kernel/runtime/ksud_integration.c\<close>, \<^verbatim>\<open>kernel/manager/pkg_observer.c\<close>): the module watches
  init and the first zygote being executed, counts volume-down presses for safe mode, loads
  the allowlist once the data partition is there, and follows \<^verbatim>\<open>packages.list\<close>. Calls into
  \<^verbatim>\<open>selinux_hide.c\<close>, \<^verbatim>\<open>rules.c\<close> and the hook tables change nothing the other theories keep;
  they are recorded in order in \<open>bt_calls\<close>.
\<close>

section \<open>State\<close>

datatype boot_call =
    Hide_Second_Stage | Hide_Post_Fs_Data | Hide_Drop_Backup | Apply_Rules
  | Stop_Execve_Hook | Stop_Input_Work

text \<open>The notification group: never created, the error its creation gave, or a group.\<close>

datatype group_ptr = Group_Null | Group_Err errno | Group_Live

text \<open>
  The watched directory. \<open>wd_dentry\<close>: the stored path has a dentry; \<open>wd_path_refs\<close> and
  \<open>wd_inode_refs\<close> count the references this module took and has not dropped.
\<close>

record watch_dir =
  wd_dentry :: bool
  wd_path_refs :: int
  wd_inode :: bool
  wd_inode_refs :: int
  wd_mark :: bool

record boot =
  bt_post_fs_data_done :: bool
  bt_module_mounted :: bool
  bt_boot_completed :: bool
  bt_first_zygote :: bool
  bt_second_stage :: bool
  bt_volumedown :: u32
  bt_input_stopped :: bool
  bt_safe_mode :: bool
  bt_group :: group_ptr
  bt_watch :: watch_dir
  bt_allow :: allowlist
  bt_throne :: throne
  bt_sids :: sid_cache
  bt_ksu_cred :: "task_sec option"
  bt_calls :: "boot_call list"

text \<open>
  The surroundings: the build, the security server, the signature check, the file systems,
  whether the module was loaded late, and the outcomes of the notification calls.
\<close>

record boot_env =
  be_ksu :: ksu_env
  be_lsm :: lsm
  be_sign :: sign_config
  be_hash :: hash_api
  be_fs :: throne_fs
  be_read :: read_env
  be_persist :: persist_env
  be_late_loaded :: bool
  be_group :: "errno + unit"
  be_watch_path :: "errno + unit"
  be_mark_alloc :: bool
  be_mark_added :: bool
  be_untag :: "u64 \<Rightarrow> u64"
  be_fatal :: "nat \<Rightarrow> bool"

definition log_call :: "boot_call \<Rightarrow> boot \<Rightarrow> boot" where
  "log_call c b = b\<lparr>bt_calls := bt_calls b @ [c]\<rparr>"

section \<open>Following the package list\<close>

definition add_mark_on_inode :: "boot_env \<Rightarrow> errno + unit" where
  "add_mark_on_inode B =
     (if \<not> be_mark_alloc B then Inl ENOMEM
      else if \<not> be_mark_added B then Inl EINVAL
      else Inr ())"

definition watch_one_dir :: "boot_env \<Rightarrow> watch_dir \<Rightarrow> (errno + unit) \<times> watch_dir" where
  "watch_one_dir B w =
     (case be_watch_path B of
        Inl e \<Rightarrow> (Inl e, w)
      | Inr _ \<Rightarrow>
          let w1 = w\<lparr>wd_dentry := True, wd_path_refs := wd_path_refs w + 1, wd_inode := True,
                     wd_inode_refs := wd_inode_refs w + 1\<rparr>
          in case add_mark_on_inode B of
              Inl e \<Rightarrow> (Inl e, w1\<lparr>wd_path_refs := wd_path_refs w1 - 1,
                                wd_inode_refs := wd_inode_refs w1 - 1, wd_inode := False\<rparr>)
            | Inr _ \<Rightarrow> (Inr (), w1\<lparr>wd_mark := True\<rparr>))"

definition unwatch_one_dir :: "watch_dir \<Rightarrow> watch_dir" where
  "unwatch_one_dir w =
     (let w1 = (if wd_mark w then w\<lparr>wd_mark := False\<rparr> else w);
          w2 = (if wd_inode w1 then w1\<lparr>wd_inode_refs := wd_inode_refs w1 - 1, wd_inode := False\<rparr> else w1)
      in if wd_dentry w2 then w2\<lparr>wd_path_refs := wd_path_refs w2 - 1, wd_dentry := False\<rparr> else w2)"

definition ksu_observer_init :: "boot_env \<Rightarrow> boot \<Rightarrow> (errno + unit) \<times> boot" where
  "ksu_observer_init B b =
     (if disable_manager (be_ksu B) then (Inr (), b)
      else case be_group B of
          Inl e \<Rightarrow> (Inl e, b\<lparr>bt_group := Group_Err e\<rparr>)
        | Inr _ \<Rightarrow>
            let (_, w) = watch_one_dir B (bt_watch b) in (Inr (), b\<lparr>bt_group := Group_Live, bt_watch := w\<rparr>))"

text \<open>\<open>None\<close>: \<^verbatim>\<open>fsnotify_put_group\<close> is given a pointer that is no group.\<close>

definition ksu_observer_exit :: "boot_env \<Rightarrow> boot \<Rightarrow> boot option" where
  "ksu_observer_exit B b =
     (if disable_manager (be_ksu B) then Some b
      else let b1 = b\<lparr>bt_watch := unwatch_one_dir (bt_watch b)\<rparr> in
        if bt_group b1 = Group_Live then Some (b1\<lparr>bt_group := Group_Null\<rparr>) else None)"

definition boot_track :: "boot_env \<Rightarrow> bool \<Rightarrow> boot \<Rightarrow> boot" where
  "boot_track B prune_only b =
     (let (th, al) = track_throne (be_ksu B) (be_sign B) (be_hash B) (be_fs B) (bt_boot_completed b)
                       (be_persist B) prune_only (bt_throne b, bt_allow b)
      in b\<lparr>bt_throne := th, bt_allow := al\<rparr>)"

text \<open>An event in the directory: its mask says whether it is about a directory.\<close>

definition ksu_handle_inode_event :: "boot_env \<Rightarrow> bool \<Rightarrow> bytes option \<Rightarrow> boot \<Rightarrow> boot" where
  "ksu_handle_inode_event B isdir name b =
     (case name of
        None \<Rightarrow> b
      | Some n \<Rightarrow>
          if isdir then b
          else if length n = 13 \<and> n = lit ''packages.list'' then boot_track B False b
          else b)"

section \<open>Volume keys and safe mode\<close>

definition is_volumedown_enough :: "u32 \<Rightarrow> bool" where
  "is_volumedown_enough c \<longleftrightarrow> 3 \<le> c"

definition ksu_stop_input_hook_runtime :: "boot \<Rightarrow> boot" where
  "ksu_stop_input_hook_runtime b =
     (if bt_input_stopped b then b
      else log_call Stop_Input_Work (b\<lparr>bt_input_stopped := True\<rparr>))"

definition EV_KEY :: u32 where "EV_KEY = 1"

definition KEY_VOLUMEDOWN :: u32 where "KEY_VOLUMEDOWN = 114"

definition ksu_handle_input_handle_event :: "u32 \<Rightarrow> u32 \<Rightarrow> s32 \<Rightarrow> boot \<Rightarrow> boot" where
  "ksu_handle_input_handle_event type code val b =
     (if type = EV_KEY \<and> code = KEY_VOLUMEDOWN then
        if val \<noteq> 0 then
          let b1 = b\<lparr>bt_volumedown := bt_volumedown b + 1\<rparr> in
          if is_volumedown_enough (bt_volumedown b1) then ksu_stop_input_hook_runtime b1 else b1
        else b
      else b)"

definition ksu_is_safe_mode :: "boot_env \<Rightarrow> boot \<Rightarrow> bool \<times> boot" where
  "ksu_is_safe_mode B b =
     (if bt_safe_mode b then (True, b)
      else if be_late_loaded B then (False, b)
      else let b1 = ksu_stop_input_hook_runtime b in
        if is_volumedown_enough (bt_volumedown b1) then (True, b1\<lparr>bt_safe_mode := True\<rparr>)
        else (False, b1))"

section \<open>Boot events\<close>

definition on_post_fs_data :: "boot_env \<Rightarrow> boot \<Rightarrow> boot" where
  "on_post_fs_data B b =
     (if bt_post_fs_data_done b then b
      else let b1 = b\<lparr>bt_post_fs_data_done := True\<rparr>;
               b2 = b1\<lparr>bt_allow := ksu_load_allow_list (be_ksu B) (be_read B) (be_persist B) (bt_allow b1)\<rparr>;
               b3 = snd (ksu_observer_init B b2);
               b4 = ksu_stop_input_hook_runtime b3
        in log_call Hide_Post_Fs_Data b4)"

text \<open>
  \<open>kern_path\<close> and \<open>ext4_unregister_sysfs\<close> are the kernel's; the environment says whether
  the path resolves and what its file system is called.
\<close>

definition nuke_ext4_sysfs :: "(bytes \<Rightarrow> errno + bytes) \<Rightarrow> bytes \<Rightarrow> int \<times> bool" where
  "nuke_ext4_sysfs kern_path mnt =
     (case kern_path mnt of
        Inl e \<Rightarrow> (neg_errno e, False)
      | Inr fstype \<Rightarrow> if \<not> str_eq fstype (lit ''ext4'') then (neg_errno EINVAL, False) else (0, True))"

definition on_module_mounted :: "boot \<Rightarrow> boot" where
  "on_module_mounted b = b\<lparr>bt_module_mounted := True\<rparr>"

definition on_boot_completed :: "boot_env \<Rightarrow> boot \<Rightarrow> boot" where
  "on_boot_completed B b =
     log_call Hide_Drop_Backup (boot_track B True (b\<lparr>bt_boot_completed := True\<rparr>))"

section \<open>The exec hook\<close>

definition MAX_ARG_STRINGS :: nat where
  "MAX_ARG_STRINGS = 0x7FFFFFFF"

record user_arg_ptr =
  ua_compat :: bool
  ua_ptr :: u64

text \<open>The kernel's error pointers are the last 4095 values of a pointer.\<close>

definition err_ptr :: "errno \<Rightarrow> u64" where
  "err_ptr e = word_of_int (neg_errno e)"

definition is_err_ptr :: "u64 \<Rightarrow> bool" where
  "is_err_ptr p \<longleftrightarrow> word_of_int (- 4095) \<le> p"

definition get_user_arg_ptr :: "user_arg_ptr \<Rightarrow> nat \<Rightarrow> umem \<Rightarrow> u64" where
  "get_user_arg_ptr argv nr m =
     (if ua_compat argv then
        case copy_from_user (unat (ua_ptr argv) + 4 * nr) 4 m of
          None \<Rightarrow> err_ptr EFAULT
        | Some d \<Rightarrow> of_nat (le_dec d)
      else
        case copy_from_user (unat (ua_ptr argv) + 8 * nr) 8 m of
          None \<Rightarrow> err_ptr EFAULT
        | Some d \<Rightarrow> of_nat (le_dec d))"

text \<open>The loop of \<^verbatim>\<open>count()\<close> from index \<open>i\<close>; \<open>fatal i\<close>: a fatal signal is pending after \<open>i\<close> arguments.\<close>

function count_from :: "user_arg_ptr \<Rightarrow> (nat \<Rightarrow> bool) \<Rightarrow> umem \<Rightarrow> nat \<Rightarrow> nat \<Rightarrow> errno + nat" where
  "count_from argv fatal m mx i =
     (let p = get_user_arg_ptr argv i m in
      if p = 0 then Inr i
      else if is_err_ptr p then Inl EFAULT
      else if mx \<le> i then Inl E2BIG
      else if fatal (i + 1) then Inl ERESTARTNOHAND
      else count_from argv fatal m mx (i + 1))"
  by pat_completeness auto
termination
  by (relation "measure (\<lambda>(argv, fatal, m, mx, i). Suc mx - i)") auto

declare count_from.simps [simp del]

definition count_args :: "user_arg_ptr \<Rightarrow> (nat \<Rightarrow> bool) \<Rightarrow> umem \<Rightarrow> nat \<Rightarrow> errno + nat" where
  "count_args argv fatal m mx = (if ua_ptr argv \<noteq> 0 then count_from argv fatal m mx 0 else Inr 0)"

text \<open>
  \<open>buf\<close> is the caller's array of \<open>length buf\<close> bytes, not initialised; the comparison reads
  it up to the NUL only.
\<close>

definition check_argv :: "(nat \<Rightarrow> bool) \<Rightarrow> umem \<Rightarrow> user_arg_ptr \<Rightarrow> nat \<Rightarrow> bytes \<Rightarrow> bytes \<Rightarrow> bool" where
  "check_argv fatal m argv index expected buf =
     (case count_args argv fatal m MAX_ARG_STRINGS of
        Inl _ \<Rightarrow> False
      | Inr argc \<Rightarrow>
          if argc \<le> index then False
          else let p = get_user_arg_ptr argv index m in
            if p = 0 \<or> is_err_ptr p then False
            else let (r, buf1) = strncpy_from_user_nofault buf (unat p) (length buf) m in
              if r \<le> 0 then False
              else str_eq (buf1[length buf - 1 := 0]) expected)"

definition ksu_handle_execveat_ksud :: "boot_env \<Rightarrow> umem \<Rightarrow> bytes \<Rightarrow> bytes \<Rightarrow> user_arg_ptr option \<Rightarrow> boot \<Rightarrow> boot" where
  "ksu_handle_execveat_ksud B m stack path argv b =
     (case argv of
        None \<Rightarrow> b
      | Some av \<Rightarrow>
          let system_bin_init = lit ''/system/bin/init'';
              app_process = lit ''/system/bin/app_process'';
              b1 = (if take (length system_bin_init) path = system_bin_init \<and> \<not> bt_second_stage b \<and>
                       check_argv (be_fatal B) m av 1 (lit ''second_stage'') stack
                    then let c = log_call Apply_Rules (log_call Hide_Second_Stage b)
                      in c\<lparr>bt_sids := cache_sid (be_lsm B), bt_ksu_cred := setup_ksu_cred (be_lsm B) (bt_ksu_cred c),
                           bt_second_stage := True\<rparr>
                    else b)
          in if bt_first_zygote b1 \<and> take (length app_process) path = app_process \<and>
                check_argv (be_fatal B) m av 1 (lit ''-Xzygote'') stack
             then log_call Stop_Execve_Hook ((on_post_fs_data B b1)\<lparr>bt_first_zygote := False\<rparr>)
             else b1)"

definition ksu_execve_hook_ksud :: "boot_env \<Rightarrow> umem \<Rightarrow> bytes \<Rightarrow> u64 \<Rightarrow> u64 \<Rightarrow> boot \<Rightarrow> boot" where
  "ksu_execve_hook_ksud B m stack filename argv b =
     (let (r, path) = strncpy_from_user (replicate 32 0) (unat (be_untag B filename)) 32 m in
      if r < 0 then b
      else ksu_handle_execveat_ksud B m stack path (Some \<lparr>ua_compat = False, ua_ptr = argv\<rparr>) b)"

end
