(* ===== verification/Supercall.thy ===== *)
theory Supercall
  imports Setuid_Hook Boot Escape Sulog
begin

text \<open>
  The ioctl interface of the driver (\<^verbatim>\<open>kernel/supercall/dispatch.c\<close>, \<^verbatim>\<open>perm.c\<close>,
  \<^verbatim>\<open>uapi/supercall.h\<close>): a table of commands, each with a permission check and a handler that
  reads its arguments from user memory, calls the components and writes its reply back. The
  state is that of all components together. A handler gives the C result with the new state;
  \<open>None\<close> is a profile lookup that does not return.
\<close>

section \<open>State\<close>

text \<open>
  Calls into two components that keep nothing the others see are recorded: a policy command
  stream (\<^verbatim>\<open>rules.c\<close>) and a wrapped file (\<^verbatim>\<open>file_wrapper.c\<close>).
\<close>

datatype ext_call = Call_Sepolicy u64 u64 | Call_File_Wrapper u32

text \<open>
  \<open>mo_init_group\<close> lists the thread groups moved to the process group of init, \<open>mo_nuked\<close> the
  mount points whose sysfs entries were removed; the two locks are the static flags of
  \<open>do_report_event\<close>.
\<close>

record module_state =
  mo_boot :: boot
  mo_kernel :: kernel
  mo_log :: sulog
  mo_flags :: ksu_flags
  mo_registry :: "ksu_flags registry"
  mo_mounts :: "mount_entry list"
  mo_post_fs_data_lock :: bool
  mo_boot_complete_lock :: bool
  mo_init_group :: "nat list"
  mo_nuked :: "bytes list"
  mo_calls :: "ext_call list"
  mo_mem :: umem

text \<open>
  The surroundings of one call: build constants, the outcome of allocations, the answers of
  the kernel. \<open>su_stale\<close> is what the uninitialised local \<open>supported\<close> of \<open>do_get_feature\<close> holds.
\<close>

record sup_env =
  su_boot :: boot_env
  su_version :: u32
  su_lkm :: bool
  su_pr_build :: bool
  su_escape :: escape_env
  su_capture :: capture_env
  su_event_alloc :: bool
  su_now :: u64
  su_fd :: fd_env
  su_oom :: bool
  su_arr_alloc :: bool
  su_entry_alloc :: bool
  su_path_dup :: bool
  su_sepolicy :: "u64 \<Rightarrow> u64 \<Rightarrow> umem \<Rightarrow> int"
  su_wrapper :: "u32 \<Rightarrow> int"
  su_kern_path :: "bytes \<Rightarrow> errno + bytes"
  su_same_session :: bool
  su_in_init_group :: bool
  su_stale :: bool

text \<open>\<open>current\<close> is the thread the call comes from.\<close>

type_synonym handler = "sup_env \<Rightarrow> thread \<Rightarrow> u64 \<Rightarrow> module_state \<Rightarrow> (int \<times> module_state) option"

abbreviation build :: "sup_env \<Rightarrow> ksu_env" where
  "build U \<equiv> be_ksu (su_boot U)"

abbreviation security :: "sup_env \<Rightarrow> lsm" where
  "security U \<equiv> be_lsm (su_boot U)"

abbreviation allow_of :: "module_state \<Rightarrow> allowlist" where
  "allow_of s \<equiv> bt_allow (mo_boot s)"

abbreviation appid_of :: "module_state \<Rightarrow> u32" where
  "appid_of s \<equiv> tt_appid (bt_throne (mo_boot s))"

abbreviation sids_of :: "module_state \<Rightarrow> sid_cache" where
  "sids_of s \<equiv> bt_sids (mo_boot s)"

definition current_uid :: "thread \<Rightarrow> u32" where
  "current_uid t = cr_uid (th_cred t)"

definition set_allow :: "allowlist \<Rightarrow> module_state \<Rightarrow> module_state" where
  "set_allow al s = s\<lparr>mo_boot := (mo_boot s)\<lparr>bt_allow := al\<rparr>\<rparr>"

definition mark_running :: "sup_env \<Rightarrow> module_state \<Rightarrow> module_state" where
  "mark_running U s =
     s\<lparr>mo_kernel := ksu_mark_running_process (build U) (appid_of s) (security U) (sids_of s) (allow_of s) (mo_kernel s)\<rparr>"

text \<open>Writing a reply: the C result is zero or the fault.\<close>

definition put_user :: "nat \<Rightarrow> bytes \<Rightarrow> module_state \<Rightarrow> int \<times> module_state" where
  "put_user a bs s =
     (let (left, m) = copy_to_user a bs (mo_mem s)
      in (if left \<noteq> 0 then neg_errno EFAULT else 0, s\<lparr>mo_mem := m\<rparr>))"

section \<open>Permissions\<close>

definition is_manager :: "sup_env \<Rightarrow> thread \<Rightarrow> module_state \<Rightarrow> bool" where
  "is_manager U t s =
     (if disable_manager (build U) then current_uid t = 0 else appid_of s = current_uid t mod PER_USER_RANGE)"

definition only_manager :: "sup_env \<Rightarrow> thread \<Rightarrow> module_state \<Rightarrow> bool" where
  "only_manager U t s = is_manager U t s"

definition only_root :: "sup_env \<Rightarrow> thread \<Rightarrow> module_state \<Rightarrow> bool" where
  "only_root U t s = (current_uid t = 0)"

definition manager_or_root :: "sup_env \<Rightarrow> thread \<Rightarrow> module_state \<Rightarrow> bool" where
  "manager_or_root U t s = (current_uid t = 0 \<or> is_manager U t s)"

definition always_allow :: "sup_env \<Rightarrow> thread \<Rightarrow> module_state \<Rightarrow> bool" where
  "always_allow U t s = True"

definition in_ksu_domain :: "sup_env \<Rightarrow> thread \<Rightarrow> module_state \<Rightarrow> bool" where
  "in_ksu_domain U t s = is_task_ksu_domain (security U) (sids_of s) (cr_security (th_cred t))"

definition allowed_for_su :: "sup_env \<Rightarrow> thread \<Rightarrow> module_state \<Rightarrow> bool" where
  "allowed_for_su U t s =
     (is_manager U t s \<or>
      ksu_is_allow_uid_for_current (build U) (appid_of s) (in_ksu_domain U t s) (current_uid t) (allow_of s))"

section \<open>Root, information, events\<close>

definition do_grant_root :: handler where
  "do_grant_root U t arg s =
     (case escape_with_root_profile (build U) (appid_of s) (security U) (su_escape U) (th_pid t)
             (allow_of s, mo_kernel s) of
        None \<Rightarrow> None
      | Some (r, al1, k1) \<Rightarrow>
          let ret = (case r of Inl e \<Rightarrow> neg_errno e | Inr _ \<Rightarrow> 0);
              log1 = ksu_sulog_emit_grant_root (su_capture U) (ksu_sulog_enabled (mo_flags s))
                       (su_event_alloc U) (su_now U) (word_of_int ret)
                       (current_uid t) (cr_euid (th_cred t)) (mo_log s)
          in Some (ret, (set_allow al1 s)\<lparr>mo_kernel := k1, mo_log := log1\<rparr>))"

definition KSU_GET_INFO_FLAG_LKM :: u32 where "KSU_GET_INFO_FLAG_LKM = 1"
definition KSU_GET_INFO_FLAG_MANAGER :: u32 where "KSU_GET_INFO_FLAG_MANAGER = 2"
definition KSU_GET_INFO_FLAG_LATE_LOAD :: u32 where "KSU_GET_INFO_FLAG_LATE_LOAD = 4"
definition KSU_GET_INFO_FLAG_PR_BUILD :: u32 where "KSU_GET_INFO_FLAG_PR_BUILD = 8"
definition KERNEL_SU_UAPI_VERSION :: u32 where "KERNEL_SU_UAPI_VERSION = 2"

definition info_flags :: "sup_env \<Rightarrow> thread \<Rightarrow> module_state \<Rightarrow> u32" where
  "info_flags U t s =
     (if su_lkm U then KSU_GET_INFO_FLAG_LKM else 0) OR
     (if is_manager U t s then KSU_GET_INFO_FLAG_MANAGER else 0) OR
     (if be_late_loaded (su_boot U) then KSU_GET_INFO_FLAG_LATE_LOAD else 0) OR
     (if su_pr_build U then KSU_GET_INFO_FLAG_PR_BUILD else 0)"

definition do_get_info :: handler where
  "do_get_info U t arg s =
     Some (put_user (unat arg)
       (le32 (su_version U) @ le32 (info_flags U t s) @ le32 KSU_FEATURE_MAX @ le32 KERNEL_SU_UAPI_VERSION) s)"

definition do_get_info_legacy :: handler where
  "do_get_info_legacy U t arg s =
     Some (put_user (unat arg) (le32 (su_version U) @ le32 (info_flags U t s) @ le32 KSU_FEATURE_MAX) s)"

definition EVENT_POST_FS_DATA :: u32 where "EVENT_POST_FS_DATA = 1"
definition EVENT_BOOT_COMPLETED :: u32 where "EVENT_BOOT_COMPLETED = 2"
definition EVENT_MODULE_MOUNTED :: u32 where "EVENT_MODULE_MOUNTED = 3"

definition do_report_event :: handler where
  "do_report_event U t arg s =
     (case copy_from_user (unat arg) 4 (mo_mem s) of
        None \<Rightarrow> Some (neg_errno EFAULT, s)
      | Some cmd \<Rightarrow>
          let event = get32 0 cmd in
          Some (0,
            if event = EVENT_POST_FS_DATA then
              if mo_post_fs_data_lock s then s
              else let s1 = s\<lparr>mo_post_fs_data_lock := True\<rparr> in
                if be_late_loaded (su_boot U) then s1
                else s1\<lparr>mo_boot := on_post_fs_data (su_boot U) (mo_boot s1)\<rparr>
            else if event = EVENT_BOOT_COMPLETED then
              if mo_boot_complete_lock s then s
              else let s1 = s\<lparr>mo_boot_complete_lock := True\<rparr> in
                if be_late_loaded (su_boot U) then s1
                else s1\<lparr>mo_boot := on_boot_completed (su_boot U) (mo_boot s1)\<rparr>
            else if event = EVENT_MODULE_MOUNTED then s\<lparr>mo_boot := on_module_mounted (mo_boot s)\<rparr>
            else s))"

definition do_set_sepolicy :: handler where
  "do_set_sepolicy U t arg s =
     (case copy_from_user (unat arg) 16 (mo_mem s) of
        None \<Rightarrow> Some (neg_errno EFAULT, s)
      | Some cmd \<Rightarrow>
          let len = get64 0 cmd; data = get64 8 cmd in
          Some (su_sepolicy U data len (mo_mem s), s\<lparr>mo_calls := mo_calls s @ [Call_Sepolicy data len]\<rparr>))"

definition do_check_safemode :: handler where
  "do_check_safemode U t arg s =
     (let (safe, b) = ksu_is_safe_mode (su_boot U) (mo_boot s)
      in Some (put_user (unat arg) [of_bool safe] (s\<lparr>mo_boot := b\<rparr>)))"

section \<open>The allowlist\<close>

text \<open>The two counts are 16 bits wide and share the head of the argument with the list after it.\<close>

definition do_new_get_allow_list_common :: "bool \<Rightarrow> handler" where
  "do_new_get_allow_list_common allow U t arg s =
     (case copy_from_user (unat arg) 4 (mo_mem s) of
        None \<Rightarrow> Some (neg_errno EFAULT, s)
      | Some cmd \<Rightarrow>
          let len = get16 0 cmd in
          if len \<noteq> 0 \<and> \<not> su_arr_alloc U then Some (neg_errno ENOMEM, s)
          else
            let (arr, c, total) = ksu_get_allow_list (build U) (appid_of s) len allow (allow_of s);
                (r, s1) = put_user (unat arg) (le_enc 2 (unat c) @ le_enc 2 (unat total)) s
            in if r \<noteq> 0 then Some (r, s1)
               else if c \<noteq> 0 then Some (put_user (unat arg + 4) (concat (map le32 (take (unat c) arr))) s1)
               else Some (0, s1))"

definition do_new_get_deny_list :: handler where
  "do_new_get_deny_list = do_new_get_allow_list_common False"

definition do_new_get_allow_list :: handler where
  "do_new_get_allow_list = do_new_get_allow_list_common True"

definition do_get_allow_list_common :: "bool \<Rightarrow> handler" where
  "do_get_allow_list_common allow U t arg s =
     (if \<not> su_arr_alloc U then Some (neg_errno ENOMEM, s)
      else
        let kSize = 128;
            (arr, c, total) = ksu_get_allow_list (build U) (appid_of s) kSize allow (allow_of s);
            (r, s1) = put_user (unat arg + 512) (le32 (ucast c)) s
        in if r \<noteq> 0 then Some (r, s1)
           else Some (put_user (unat arg) (concat (map le32 (take (unat c) arr))) s1))"

definition do_get_deny_list :: handler where
  "do_get_deny_list = do_get_allow_list_common False"

definition do_get_allow_list :: handler where
  "do_get_allow_list = do_get_allow_list_common True"

text \<open>The two queries answer in the byte after the uid and copy the padding back as it came.\<close>

definition do_uid_granted_root :: handler where
  "do_uid_granted_root U t arg s =
     (case copy_from_user (unat arg) 8 (mo_mem s) of
        None \<Rightarrow> Some (neg_errno EFAULT, s)
      | Some cmd \<Rightarrow>
          let granted = ksu_is_allow_uid_for_current (build U) (appid_of s) (in_ksu_domain U t s)
                          (get32 0 cmd) (allow_of s)
          in Some (put_user (unat arg) (cmd[4 := of_bool granted]) s))"

definition do_uid_should_umount :: handler where
  "do_uid_should_umount U t arg s =
     (case copy_from_user (unat arg) 8 (mo_mem s) of
        None \<Rightarrow> Some (neg_errno EFAULT, s)
      | Some cmd \<Rightarrow>
          (case ksu_uid_should_umount (build U) (appid_of s) (get32 0 cmd) (allow_of s) of
             None \<Rightarrow> None
           | Some (should, al1) \<Rightarrow> Some (put_user (unat arg) (cmd[4 := of_bool should]) (set_allow al1 s))))"

definition do_get_manager_appid :: handler where
  "do_get_manager_appid U t arg s =
     Some (put_user (unat arg) (le32 (ksu_get_manager_appid (build U) (appid_of s))) s)"

definition do_get_app_profile :: handler where
  "do_get_app_profile U t arg s =
     (if disable_policy (build U) then Some (neg_errno EOPNOTSUPP, s)
      else case copy_from_user (unat arg + 260) 4 (mo_mem s) of
          None \<Rightarrow> Some (neg_errno EFAULT, s)
        | Some u \<Rightarrow>
            (case ksu_get_app_profile (build U) (get32 0 u) (allow_of s) of
               None \<Rightarrow> None
             | Some (None, al1) \<Rightarrow> Some (neg_errno ENOENT, set_allow al1 s)
             | Some (Some a, al1) \<Rightarrow>
                 (case prof_at al1 a of
                    None \<Rightarrow> None
                  | Some p \<Rightarrow>
                      let (r, s1) = put_user (unat arg) (profile_image p) (set_allow al1 s)
                      in Some (r, set_allow (ksu_put_app_profile a (allow_of s1)) s1))))"

definition do_set_app_profile :: handler where
  "do_set_app_profile U t arg s =
     (if disable_policy (build U) then Some (neg_errno EOPNOTSUPP, s)
      else case copy_from_user (unat arg) sizeof_app_profile (mo_mem s) of
          None \<Rightarrow> Some (neg_errno EFAULT, s)
        | Some img \<Rightarrow>
            (case ksu_set_app_profile (build U) (su_oom U) (profile_of_image img) (allow_of s) of
               (Inl e, al1) \<Rightarrow> Some (neg_errno e, set_allow al1 s)
             | (Inr _, al1) \<Rightarrow>
                 Some (0, mark_running U
                   (set_allow (ksu_persistent_allow_list (be_persist (su_boot U)) al1) s))))"

section \<open>Features, marks, files\<close>

text \<open>
  The argument is 24 bytes: the id, padding, the value at 8 and the answer \<open>supported\<close> at 16.
  The local \<open>supported\<close> keeps whatever it held when \<open>ksu_get_feature\<close> does not write it.
\<close>

definition do_get_feature :: handler where
  "do_get_feature U t arg s =
     (case copy_from_user (unat arg) 24 (mo_mem s) of
        None \<Rightarrow> Some (neg_errno EFAULT, s)
      | Some cmd \<Rightarrow>
          let (r, value, sup) = ksu_get_feature True (get32 0 cmd) (mo_registry s) (mo_flags s);
              supported = (case sup of Some b \<Rightarrow> b | None \<Rightarrow> su_stale U);
              v = (case value of Some w \<Rightarrow> le64 w | None \<Rightarrow> slice 8 8 cmd);
              out = take 8 cmd @ v @ [of_bool supported] @ drop 17 cmd
          in case r of
              Inl e \<Rightarrow> if supported then Some (neg_errno e, s) else Some (put_user (unat arg) out s)
            | Inr _ \<Rightarrow> Some (put_user (unat arg) out s))"

definition do_set_feature :: handler where
  "do_set_feature U t arg s =
     (case copy_from_user (unat arg) 16 (mo_mem s) of
        None \<Rightarrow> Some (neg_errno EFAULT, s)
      | Some cmd \<Rightarrow>
          let (r, F) = ksu_set_feature (get32 0 cmd) (get64 8 cmd) (mo_registry s) (mo_flags s);
              s1 = s\<lparr>mo_flags := F\<rparr>
          in case r of Inl e \<Rightarrow> Some (neg_errno e, s1) | Inr _ \<Rightarrow> Some (0, s1))"

definition do_get_wrapper_fd :: handler where
  "do_get_wrapper_fd U t arg s =
     (if cached_file_sid (sids_of s) = 0 then Some (neg_errno EINVAL, s)
      else case copy_from_user (unat arg) 8 (mo_mem s) of
          None \<Rightarrow> Some (neg_errno EFAULT, s)
        | Some cmd \<Rightarrow>
            Some (su_wrapper U (get32 0 cmd), s\<lparr>mo_calls := mo_calls s @ [Call_File_Wrapper (get32 0 cmd)]\<rparr>))"

definition KSU_MARK_GET :: u32 where "KSU_MARK_GET = 1"
definition KSU_MARK_MARK :: u32 where "KSU_MARK_MARK = 2"
definition KSU_MARK_UNMARK :: u32 where "KSU_MARK_UNMARK = 3"
definition KSU_MARK_REFRESH :: u32 where "KSU_MARK_REFRESH = 4"

text \<open>Marking by pid, zero standing for every process; a negative pid names no thread.\<close>

definition set_mark :: "bool \<Rightarrow> s32 \<Rightarrow> module_state \<Rightarrow> int \<times> module_state" where
  "set_mark mark pid s =
     (if pid = 0 then
        (0, s\<lparr>mo_kernel := (if mark then ksu_mark_all_process else ksu_unmark_all_process) (mo_kernel s)\<rparr>)
      else let (r, k) = ksu_set_task_mark (unat pid) mark (mo_kernel s)
        in (case r of Inl e \<Rightarrow> neg_errno e | Inr _ \<Rightarrow> 0, s\<lparr>mo_kernel := k\<rparr>))"

definition do_manage_mark :: handler where
  "do_manage_mark U t arg s =
     (case copy_from_user (unat arg) 12 (mo_mem s) of
        None \<Rightarrow> Some (neg_errno EFAULT, s)
      | Some cmd \<Rightarrow>
          let operation = get32 0 cmd; pid = get32 4 cmd in
          if operation = KSU_MARK_GET then
            (case ksu_get_task_mark (unat pid) (mo_kernel s) of
               Inl e \<Rightarrow> Some (neg_errno e, s)
             | Inr b \<Rightarrow> Some (put_user (unat arg) (take 8 cmd @ le32 (of_bool b)) s))
          else if operation = KSU_MARK_MARK \<or> operation = KSU_MARK_UNMARK then
            (let (r, s1) = set_mark (operation = KSU_MARK_MARK) pid s
             in if r < 0 then Some (r, s1) else Some (put_user (unat arg) cmd s1))
          else if operation = KSU_MARK_REFRESH then Some (put_user (unat arg) cmd (mark_running U s))
          else Some (neg_errno EINVAL, s))"

definition do_nuke_ext4_sysfs :: handler where
  "do_nuke_ext4_sysfs U t arg s =
     (case copy_from_user (unat arg) 8 (mo_mem s) of
        None \<Rightarrow> Some (neg_errno EFAULT, s)
      | Some cmd \<Rightarrow>
          let p = get64 0 cmd in
          if p = 0 then Some (neg_errno EINVAL, s)
          else
            let (ret, mnt) = strncpy_from_user (replicate 256 0) (unat p) 256 (mo_mem s) in
            if ret < 0 then Some (neg_errno EFAULT, s)
            else if ret = 256 then Some (neg_errno ENAMETOOLONG, s)
            else
              let (r, gone) = nuke_ext4_sysfs (su_kern_path U) (c_str mnt)
              in Some (r, if gone then s\<lparr>mo_nuked := mo_nuked s @ [c_str mnt]\<rparr> else s))"

section \<open>The unmount list\<close>

definition KSU_UMOUNT_WIPE :: u8 where "KSU_UMOUNT_WIPE = 0"
definition KSU_UMOUNT_ADD :: u8 where "KSU_UMOUNT_ADD = 1"
definition KSU_UMOUNT_DEL :: u8 where "KSU_UMOUNT_DEL = 2"

text \<open>The argument is 16 bytes: the address of the path, the flags at 8 and the mode at 12.\<close>

definition add_try_umount :: handler where
  "add_try_umount U t arg s =
     (case copy_from_user (unat arg) 16 (mo_mem s) of
        None \<Rightarrow> Some (neg_errno EFAULT, s)
      | Some cmd \<Rightarrow>
          let path = get64 0 cmd; flags = get32 8 cmd; mode = cmd ! 12 in
          if mode = KSU_UMOUNT_WIPE then Some (0, s\<lparr>mo_mounts := []\<rparr>)
          else if mode = KSU_UMOUNT_ADD then
            (let (len, buf) = strncpy_from_user (replicate 256 0) (unat path) 256 (mo_mem s) in
             if len \<le> 0 then Some (neg_errno EFAULT, s)
             else
               let buf1 = buf[255 := 0] in
               if \<not> su_entry_alloc U then Some (neg_errno ENOMEM, s)
               else if \<not> su_path_dup U then Some (neg_errno ENOMEM, s)
               else if list_ex (\<lambda>e. str_eq (me_umountable e) buf1) (mo_mounts s)
               then Some (neg_errno EEXIST, s)
               else Some (0, s\<lparr>mo_mounts := \<lparr>me_umountable = c_str buf1, me_flags = flags\<rparr> # mo_mounts s\<rparr>))
          else if mode = KSU_UMOUNT_DEL then
            (let (len, buf) = strncpy_from_user (replicate 256 0) (unat path) 255 (mo_mem s) in
             if len \<le> 0 then Some (neg_errno EFAULT, s)
             else
               let buf1 = buf[255 := 0]
               in Some (0, s\<lparr>mo_mounts := filter (\<lambda>e. \<not> str_eq (me_umountable e) buf1) (mo_mounts s)\<rparr>))
          else Some (neg_errno EINVAL, s))"

section \<open>The rest\<close>

text \<open>The leader of the caller's thread group moves to the process group of init, once.\<close>

definition do_set_init_pgrp :: handler where
  "do_set_init_pgrp U t arg s =
     (if \<not> su_same_session U then Some (neg_errno EPERM, s)
      else if su_in_init_group U \<or> th_tgid t \<in> set (mo_init_group s) then Some (0, s)
      else Some (0, s\<lparr>mo_init_group := mo_init_group s @ [th_tgid t]\<rparr>))"

definition do_get_sulog_fd :: handler where
  "do_get_sulog_fd U t arg s =
     (case copy_from_user (unat arg) 4 (mo_mem s) of
        None \<Rightarrow> Some (neg_errno EFAULT, s)
      | Some cmd \<Rightarrow>
          if get32 0 cmd \<noteq> 0 then Some (neg_errno EINVAL, s)
          else
            let (r, log1) = ksu_install_sulog_fd (fe_unused (su_fd U)) (fe_getfile (su_fd U)) (mo_log s);
                s1 = s\<lparr>mo_log := log1\<rparr>
            in case r of Inl e \<Rightarrow> Some (neg_errno e, s1) | Inr fd \<Rightarrow> Some (int fd, s1))"

definition do_disable_escape_to_root :: handler where
  "do_disable_escape_to_root U t arg s =
     Some (0, s\<lparr>mo_kernel := update_thread (th_pid t) (\<lambda>t. t\<lparr>th_no_escape := True\<rparr>) (mo_kernel s)\<rparr>)"

definition ksu_supercall_cleanup_state :: "module_state \<Rightarrow> module_state" where
  "ksu_supercall_cleanup_state s = s\<lparr>mo_mounts := []\<rparr>"

section \<open>The table\<close>

text \<open>\<^verbatim>\<open>_IOC\<close>: direction, size, type and number; the type of every command is \<open>'K'\<close>.\<close>

definition ioc :: "u32 \<Rightarrow> u32 \<Rightarrow> u32 \<Rightarrow> u32" where
  "ioc dir nr sz = push_bit 30 dir OR push_bit 16 sz OR push_bit 8 0x4B OR nr"

abbreviation (input) "IOC_NONE \<equiv> (0 :: u32)"
abbreviation (input) "IOC_WRITE \<equiv> (1 :: u32)"
abbreviation (input) "IOC_READ \<equiv> (2 :: u32)"
abbreviation (input) "IOC_RW \<equiv> (3 :: u32)"

definition KSU_IOCTL_GRANT_ROOT :: u32 where "KSU_IOCTL_GRANT_ROOT = ioc IOC_NONE 1 0"
definition KSU_IOCTL_GET_INFO :: u32 where "KSU_IOCTL_GET_INFO = ioc IOC_READ 2 16"
definition KSU_IOCTL_GET_INFO_LEGACY :: u32 where "KSU_IOCTL_GET_INFO_LEGACY = ioc IOC_READ 2 0"
definition KSU_IOCTL_REPORT_EVENT :: u32 where "KSU_IOCTL_REPORT_EVENT = ioc IOC_WRITE 3 0"
definition KSU_IOCTL_SET_SEPOLICY :: u32 where "KSU_IOCTL_SET_SEPOLICY = ioc IOC_RW 4 0"
definition KSU_IOCTL_CHECK_SAFEMODE :: u32 where "KSU_IOCTL_CHECK_SAFEMODE = ioc IOC_READ 5 0"
definition KSU_IOCTL_GET_ALLOW_LIST :: u32 where "KSU_IOCTL_GET_ALLOW_LIST = ioc IOC_RW 6 0"
definition KSU_IOCTL_GET_DENY_LIST :: u32 where "KSU_IOCTL_GET_DENY_LIST = ioc IOC_RW 7 0"
definition KSU_IOCTL_NEW_GET_ALLOW_LIST :: u32 where "KSU_IOCTL_NEW_GET_ALLOW_LIST = ioc IOC_RW 6 4"
definition KSU_IOCTL_NEW_GET_DENY_LIST :: u32 where "KSU_IOCTL_NEW_GET_DENY_LIST = ioc IOC_RW 7 4"
definition KSU_IOCTL_UID_GRANTED_ROOT :: u32 where "KSU_IOCTL_UID_GRANTED_ROOT = ioc IOC_RW 8 0"
definition KSU_IOCTL_UID_SHOULD_UMOUNT :: u32 where "KSU_IOCTL_UID_SHOULD_UMOUNT = ioc IOC_RW 9 0"
definition KSU_IOCTL_GET_MANAGER_APPID :: u32 where "KSU_IOCTL_GET_MANAGER_APPID = ioc IOC_READ 10 0"
definition KSU_IOCTL_GET_APP_PROFILE :: u32 where "KSU_IOCTL_GET_APP_PROFILE = ioc IOC_RW 11 0"
definition KSU_IOCTL_SET_APP_PROFILE :: u32 where "KSU_IOCTL_SET_APP_PROFILE = ioc IOC_WRITE 12 0"
definition KSU_IOCTL_GET_FEATURE :: u32 where "KSU_IOCTL_GET_FEATURE = ioc IOC_RW 13 0"
definition KSU_IOCTL_SET_FEATURE :: u32 where "KSU_IOCTL_SET_FEATURE = ioc IOC_WRITE 14 0"
definition KSU_IOCTL_GET_WRAPPER_FD :: u32 where "KSU_IOCTL_GET_WRAPPER_FD = ioc IOC_WRITE 15 0"
definition KSU_IOCTL_MANAGE_MARK :: u32 where "KSU_IOCTL_MANAGE_MARK = ioc IOC_RW 16 0"
definition KSU_IOCTL_NUKE_EXT4_SYSFS :: u32 where "KSU_IOCTL_NUKE_EXT4_SYSFS = ioc IOC_WRITE 17 0"
definition KSU_IOCTL_ADD_TRY_UMOUNT :: u32 where "KSU_IOCTL_ADD_TRY_UMOUNT = ioc IOC_WRITE 18 0"
definition KSU_IOCTL_SET_INIT_PGRP :: u32 where "KSU_IOCTL_SET_INIT_PGRP = ioc IOC_NONE 19 0"
definition KSU_IOCTL_GET_SULOG_FD :: u32 where "KSU_IOCTL_GET_SULOG_FD = ioc IOC_WRITE 20 4"
definition KSU_IOCTL_DISABLE_ESCAPE_TO_ROOT :: u32 where "KSU_IOCTL_DISABLE_ESCAPE_TO_ROOT = ioc IOC_NONE 21 0"

record ioctl_cmd_map =
  ic_cmd :: u32
  ic_handler :: handler
  ic_perm_check :: "sup_env \<Rightarrow> thread \<Rightarrow> module_state \<Rightarrow> bool"

definition entry :: "u32 \<Rightarrow> handler \<Rightarrow> (sup_env \<Rightarrow> thread \<Rightarrow> module_state \<Rightarrow> bool) \<Rightarrow> ioctl_cmd_map" where
  "entry c h p = \<lparr>ic_cmd = c, ic_handler = h, ic_perm_check = p\<rparr>"

lemmas ioctl_numbers =
  KSU_IOCTL_GRANT_ROOT_def
  KSU_IOCTL_GET_INFO_def
  KSU_IOCTL_GET_INFO_LEGACY_def
  KSU_IOCTL_REPORT_EVENT_def
  KSU_IOCTL_SET_SEPOLICY_def
  KSU_IOCTL_CHECK_SAFEMODE_def
  KSU_IOCTL_GET_ALLOW_LIST_def
  KSU_IOCTL_GET_DENY_LIST_def
  KSU_IOCTL_NEW_GET_ALLOW_LIST_def
  KSU_IOCTL_NEW_GET_DENY_LIST_def
  KSU_IOCTL_UID_GRANTED_ROOT_def
  KSU_IOCTL_UID_SHOULD_UMOUNT_def
  KSU_IOCTL_GET_MANAGER_APPID_def
  KSU_IOCTL_GET_APP_PROFILE_def
  KSU_IOCTL_SET_APP_PROFILE_def
  KSU_IOCTL_GET_FEATURE_def
  KSU_IOCTL_SET_FEATURE_def
  KSU_IOCTL_GET_WRAPPER_FD_def
  KSU_IOCTL_MANAGE_MARK_def
  KSU_IOCTL_NUKE_EXT4_SYSFS_def
  KSU_IOCTL_ADD_TRY_UMOUNT_def
  KSU_IOCTL_SET_INIT_PGRP_def
  KSU_IOCTL_GET_SULOG_FD_def
  KSU_IOCTL_DISABLE_ESCAPE_TO_ROOT_def

definition ksu_ioctl_handlers :: "ioctl_cmd_map list" where
  "ksu_ioctl_handlers =
     [entry KSU_IOCTL_GRANT_ROOT do_grant_root allowed_for_su,
      entry KSU_IOCTL_GET_INFO do_get_info always_allow,
      entry KSU_IOCTL_GET_INFO_LEGACY do_get_info_legacy always_allow,
      entry KSU_IOCTL_REPORT_EVENT do_report_event only_root,
      entry KSU_IOCTL_SET_SEPOLICY do_set_sepolicy only_root,
      entry KSU_IOCTL_CHECK_SAFEMODE do_check_safemode always_allow,
      entry KSU_IOCTL_GET_ALLOW_LIST do_get_allow_list manager_or_root,
      entry KSU_IOCTL_GET_DENY_LIST do_get_deny_list manager_or_root,
      entry KSU_IOCTL_NEW_GET_ALLOW_LIST do_new_get_allow_list manager_or_root,
      entry KSU_IOCTL_NEW_GET_DENY_LIST do_new_get_deny_list manager_or_root,
      entry KSU_IOCTL_UID_GRANTED_ROOT do_uid_granted_root manager_or_root,
      entry KSU_IOCTL_UID_SHOULD_UMOUNT do_uid_should_umount manager_or_root,
      entry KSU_IOCTL_GET_MANAGER_APPID do_get_manager_appid manager_or_root,
      entry KSU_IOCTL_GET_APP_PROFILE do_get_app_profile only_manager,
      entry KSU_IOCTL_SET_APP_PROFILE do_set_app_profile only_manager,
      entry KSU_IOCTL_GET_FEATURE do_get_feature manager_or_root,
      entry KSU_IOCTL_SET_FEATURE do_set_feature manager_or_root,
      entry KSU_IOCTL_GET_WRAPPER_FD do_get_wrapper_fd manager_or_root,
      entry KSU_IOCTL_MANAGE_MARK do_manage_mark manager_or_root,
      entry KSU_IOCTL_NUKE_EXT4_SYSFS do_nuke_ext4_sysfs manager_or_root,
      entry KSU_IOCTL_ADD_TRY_UMOUNT add_try_umount manager_or_root,
      entry KSU_IOCTL_SET_INIT_PGRP do_set_init_pgrp only_root,
      entry KSU_IOCTL_GET_SULOG_FD do_get_sulog_fd only_root,
      entry KSU_IOCTL_DISABLE_ESCAPE_TO_ROOT do_disable_escape_to_root only_root]"

definition ksu_supercall_handle_ioctl :: "sup_env \<Rightarrow> thread \<Rightarrow> u32 \<Rightarrow> u64 \<Rightarrow> module_state \<Rightarrow> (int \<times> module_state) option" where
  "ksu_supercall_handle_ioctl U t cmd arg s =
     (case find (\<lambda>h. ic_cmd h = cmd) ksu_ioctl_handlers of
        None \<Rightarrow> Some (neg_errno ENOTTY, s)
      | Some h \<Rightarrow>
          if \<not> ic_perm_check h U t s then Some (neg_errno EPERM, s)
          else ic_handler h U t arg s)"

text \<open>The driver's \<^verbatim>\<open>unlocked_ioctl\<close> and \<^verbatim>\<open>compat_ioctl\<close>.\<close>

definition anon_ksu_ioctl :: "sup_env \<Rightarrow> thread \<Rightarrow> u32 \<Rightarrow> u64 \<Rightarrow> module_state \<Rightarrow> (int \<times> module_state) option" where
  "anon_ksu_ioctl U t cmd arg s = ksu_supercall_handle_ioctl U t cmd arg s"

end
