(* ===== verification/Boot_Steps.thy ===== *)
theory Boot_Steps
  imports Boot Throne_Search
begin

text \<open>
  The order of boot events is up to user space: the steps of \<^verbatim>\<open>Boot\<close> interleave freely. An
  inductive set of reachable states gives what holds in every order: each once-only action
  runs once, the second trigger of post-fs-data (the first zygote, or the report of ksud) finds
  it done, and safe mode is decided by the presses seen.
\<close>

named_theorems boot_simps

section \<open>What the operations leave alone\<close>

lemma log_call_simps [simp, boot_simps]:
  "bt_calls (log_call c b) = bt_calls b @ [c]"
  "bt_post_fs_data_done (log_call c b) = bt_post_fs_data_done b"
  "bt_first_zygote (log_call c b) = bt_first_zygote b"
  "bt_second_stage (log_call c b) = bt_second_stage b"
  "bt_volumedown (log_call c b) = bt_volumedown b"
  "bt_input_stopped (log_call c b) = bt_input_stopped b"
  "bt_safe_mode (log_call c b) = bt_safe_mode b"
  "bt_group (log_call c b) = bt_group b"
  "bt_watch (log_call c b) = bt_watch b"
  "bt_allow (log_call c b) = bt_allow b"
  by (simp_all add: log_call_def)

lemma boot_track_simps [simp, boot_simps]:
  "bt_calls (boot_track B p b) = bt_calls b"
  "bt_post_fs_data_done (boot_track B p b) = bt_post_fs_data_done b"
  "bt_first_zygote (boot_track B p b) = bt_first_zygote b"
  "bt_second_stage (boot_track B p b) = bt_second_stage b"
  "bt_volumedown (boot_track B p b) = bt_volumedown b"
  "bt_input_stopped (boot_track B p b) = bt_input_stopped b"
  "bt_safe_mode (boot_track B p b) = bt_safe_mode b"
  "bt_group (boot_track B p b) = bt_group b"
  "bt_watch (boot_track B p b) = bt_watch b"
  by (simp_all add: boot_track_def split: prod.split)

lemma observer_init_simps [simp, boot_simps]:
  "bt_calls (snd (ksu_observer_init B b)) = bt_calls b"
  "bt_post_fs_data_done (snd (ksu_observer_init B b)) = bt_post_fs_data_done b"
  "bt_first_zygote (snd (ksu_observer_init B b)) = bt_first_zygote b"
  "bt_second_stage (snd (ksu_observer_init B b)) = bt_second_stage b"
  "bt_volumedown (snd (ksu_observer_init B b)) = bt_volumedown b"
  "bt_input_stopped (snd (ksu_observer_init B b)) = bt_input_stopped b"
  "bt_safe_mode (snd (ksu_observer_init B b)) = bt_safe_mode b"
  "bt_allow (snd (ksu_observer_init B b)) = bt_allow b"
  by (simp_all add: ksu_observer_init_def split: sum.split prod.split)

lemma stop_input_simps [simp, boot_simps]:
  "bt_calls (ksu_stop_input_hook_runtime b) =
     bt_calls b @ (if bt_input_stopped b then [] else [Stop_Input_Work])"
  "bt_post_fs_data_done (ksu_stop_input_hook_runtime b) = bt_post_fs_data_done b"
  "bt_first_zygote (ksu_stop_input_hook_runtime b) = bt_first_zygote b"
  "bt_second_stage (ksu_stop_input_hook_runtime b) = bt_second_stage b"
  "bt_volumedown (ksu_stop_input_hook_runtime b) = bt_volumedown b"
  "bt_input_stopped (ksu_stop_input_hook_runtime b)"
  "bt_safe_mode (ksu_stop_input_hook_runtime b) = bt_safe_mode b"
  "bt_group (ksu_stop_input_hook_runtime b) = bt_group b"
  "bt_watch (ksu_stop_input_hook_runtime b) = bt_watch b"
  "bt_allow (ksu_stop_input_hook_runtime b) = bt_allow b"
  by (simp_all add: ksu_stop_input_hook_runtime_def)

lemma post_fs_data_simps [simp, boot_simps]:
  "bt_calls (on_post_fs_data B b) =
     bt_calls b @ (if bt_post_fs_data_done b then []
                   else (if bt_input_stopped b then [] else [Stop_Input_Work]) @ [Hide_Post_Fs_Data])"
  "bt_post_fs_data_done (on_post_fs_data B b)"
  "bt_first_zygote (on_post_fs_data B b) = bt_first_zygote b"
  "bt_second_stage (on_post_fs_data B b) = bt_second_stage b"
  "bt_volumedown (on_post_fs_data B b) = bt_volumedown b"
  "bt_input_stopped (on_post_fs_data B b) = (bt_input_stopped b \<or> \<not> bt_post_fs_data_done b)"
  "bt_safe_mode (on_post_fs_data B b) = bt_safe_mode b"
  by (auto simp: on_post_fs_data_def Let_def)

section \<open>Steps\<close>

text \<open>
  What reaches the module: a program is executed, a key event, ksud asks for safe mode,
  post-fs-data or boot-completed is triggered, a module reports its mounts, the package list
  changes. Each step may find other surroundings, in the one build and load mode.
\<close>

inductive boot_step :: "boot_env \<Rightarrow> boot \<Rightarrow> boot \<Rightarrow> bool" for B where
  exec_step: "boot_step B b (ksu_execve_hook_ksud B m stack fn argv b)"
| key_step: "boot_step B b (ksu_handle_input_handle_event type code val b)"
| safe_mode_step: "boot_step B b (snd (ksu_is_safe_mode B b))"
| post_fs_data_step: "boot_step B b (on_post_fs_data B b)"
| mounted_step: "boot_step B b (on_module_mounted b)"
| completed_step: "boot_step B b (on_boot_completed B b)"
| packages_step: "bt_group b = Group_Live \<Longrightarrow> wd_mark (bt_watch b) \<Longrightarrow>
    boot_step B b (ksu_handle_inode_event B isdir name b)"

definition boot0 :: "u64 \<Rightarrow> bytes option \<Rightarrow> task_sec option \<Rightarrow> boot" where
  "boot0 full_cap file sec = \<lparr>bt_post_fs_data_done = False, bt_module_mounted = False, bt_boot_completed = False,
     bt_first_zygote = True, bt_second_stage = False, bt_volumedown = 0, bt_input_stopped = False,
     bt_safe_mode = False, bt_group = Group_Null,
     bt_watch = \<lparr>wd_dentry = False, wd_path_refs = 0, wd_inode = False, wd_inode_refs = 0, wd_mark = False\<rparr>,
     bt_allow = ksu_allowlist_init full_cap file, bt_throne = \<lparr>tt_appid = 0xFFFFFFFF, tt_cache = []\<rparr>, bt_sids = no_cache,
     bt_ksu_cred = sec, bt_calls = []\<rparr>"

inductive boot_reachable :: "boot \<Rightarrow> bool" where
  boot_start: "boot_reachable (boot0 full_cap file sec)"
| boot_next: "boot_reachable b \<Longrightarrow> boot_step B b b' \<Longrightarrow> boot_reachable b'"

inductive_cases boot_stepE: "boot_step B b b'"

text \<open>How often each action has run, and which follow from which.\<close>

definition once :: "boot \<Rightarrow> bool" where
  "once b \<longleftrightarrow>
     count_list (bt_calls b) Hide_Post_Fs_Data = of_bool (bt_post_fs_data_done b) \<and>
     count_list (bt_calls b) Stop_Input_Work = of_bool (bt_input_stopped b) \<and>
     count_list (bt_calls b) Hide_Second_Stage = of_bool (bt_second_stage b) \<and>
     count_list (bt_calls b) Apply_Rules = of_bool (bt_second_stage b) \<and>
     count_list (bt_calls b) Stop_Execve_Hook = of_bool (\<not> bt_first_zygote b)"

definition ordered :: "boot \<Rightarrow> bool" where
  "ordered b \<longleftrightarrow>
     (bt_post_fs_data_done b \<longrightarrow> bt_input_stopped b) \<and>
     (\<not> bt_first_zygote b \<longrightarrow> bt_post_fs_data_done b) \<and>
     (bt_group b \<noteq> Group_Null \<longrightarrow> bt_post_fs_data_done b) \<and>
     (bt_safe_mode b \<longrightarrow> bt_input_stopped b)"

lemma exec_cases:
  obtains "ksu_execve_hook_ksud B m stack fn argv b = b"
  | b1 z where "b1 = b \<or> (\<not> bt_second_stage b \<and>
        b1 = (log_call Apply_Rules (log_call Hide_Second_Stage b))
               \<lparr>bt_sids := cache_sid (be_lsm B), bt_ksu_cred := setup_ksu_cred (be_lsm B) (bt_ksu_cred b),
                bt_second_stage := True\<rparr>)"
      "z \<longrightarrow> bt_first_zygote b"
      "ksu_execve_hook_ksud B m stack fn argv b =
         (if z then log_call Stop_Execve_Hook ((on_post_fs_data B b1)\<lparr>bt_first_zygote := False\<rparr>) else b1)"
proof -
  obtain r path where r: "strncpy_from_user (replicate 32 0) (unat (be_untag B fn)) 32 m = (r, path)"
    by (cases "strncpy_from_user (replicate 32 0) (unat (be_untag B fn)) 32 m")
  show thesis
  proof (cases "r < 0")
    case True
    then show thesis using that(1) r by (simp add: ksu_execve_hook_ksud_def)
  next
    case False
    define P where "P = (take 16 path = lit ''/system/bin/init'' \<and> \<not> bt_second_stage b \<and>
      check_argv (be_fatal B) m \<lparr>ua_compat = False, ua_ptr = argv\<rparr> 1 (lit ''second_stage'') stack)"
    define Q where "Q = (take 23 path = lit ''/system/bin/app_process'' \<and>
      check_argv (be_fatal B) m \<lparr>ua_compat = False, ua_ptr = argv\<rparr> 1 (lit ''-Xzygote'') stack)"
    define c where "c = (log_call Apply_Rules (log_call Hide_Second_Stage b))
      \<lparr>bt_sids := cache_sid (be_lsm B), bt_ksu_cred := setup_ksu_cred (be_lsm B) (bt_ksu_cred b),
       bt_second_stage := True\<rparr>"
    have c: "bt_first_zygote c = bt_first_zygote b" by (simp add: c_def)
    have len: "length (lit ''/system/bin/init'') = 16" "length (lit ''/system/bin/app_process'') = 23"
      by (simp_all add: lit_def)
    have "ksu_execve_hook_ksud B m stack fn argv b =
        (let b1 = if P then c else b in
         if bt_first_zygote b1 \<and> Q
         then log_call Stop_Execve_Hook ((on_post_fs_data B b1)\<lparr>bt_first_zygote := False\<rparr>) else b1)"
      using r False
      by (simp add: ksu_execve_hook_ksud_def ksu_handle_execveat_ksud_def P_def Q_def c_def len log_call_def Let_def)
    then show thesis
      using that(2) [of "if P then c else b" "bt_first_zygote b \<and> Q"] c
      by (auto simp: P_def c_def Let_def split: if_splits)
  qed
qed

lemma post_fs_data_inv: "once b \<and> ordered b \<Longrightarrow> once (on_post_fs_data B b) \<and> ordered (on_post_fs_data B b)"
  by (cases "bt_post_fs_data_done b") (auto simp: once_def ordered_def)

lemma stop_execve_inv:
  "once c \<and> ordered c \<Longrightarrow> bt_first_zygote c \<Longrightarrow> bt_post_fs_data_done c \<Longrightarrow>
   once (log_call Stop_Execve_Hook (c\<lparr>bt_first_zygote := False\<rparr>)) \<and>
   ordered (log_call Stop_Execve_Hook (c\<lparr>bt_first_zygote := False\<rparr>))"
  by (simp add: once_def ordered_def)

lemma exec_inv:
  assumes "once b \<and> ordered b"
  shows "once (ksu_execve_hook_ksud B m stack fn argv b) \<and> ordered (ksu_execve_hook_ksud B m stack fn argv b)"
proof (rule exec_cases [of B m stack fn argv b])
  assume "ksu_execve_hook_ksud B m stack fn argv b = b"
  then show ?thesis using assms by simp
next
  fix b1 z
  assume b1: "b1 = b \<or> (\<not> bt_second_stage b \<and>
        b1 = (log_call Apply_Rules (log_call Hide_Second_Stage b))
               \<lparr>bt_sids := cache_sid (be_lsm B), bt_ksu_cred := setup_ksu_cred (be_lsm B) (bt_ksu_cred b),
                bt_second_stage := True\<rparr>)"
    and z: "z \<longrightarrow> bt_first_zygote b"
    and e: "ksu_execve_hook_ksud B m stack fn argv b =
         (if z then log_call Stop_Execve_Hook ((on_post_fs_data B b1)\<lparr>bt_first_zygote := False\<rparr>) else b1)"
  have i1: "once b1 \<and> ordered b1"
  proof (rule disjE [OF b1])
    assume "b1 = b"
    then show ?thesis using assms by simp
  next
    assume c: "\<not> bt_second_stage b \<and>
        b1 = (log_call Apply_Rules (log_call Hide_Second_Stage b))
               \<lparr>bt_sids := cache_sid (be_lsm B), bt_ksu_cred := setup_ksu_cred (be_lsm B) (bt_ksu_cred b),
                bt_second_stage := True\<rparr>"
    have "once b" "ordered b" using assms by simp_all
    then show ?thesis using conjunct1 [OF c] by (simp add: conjunct2 [OF c] once_def ordered_def)
  qed
  have z1: "z \<longrightarrow> bt_first_zygote b1" using b1 z by auto
  show ?thesis
  proof (cases z)
    case False
    then show ?thesis using i1 by (simp add: e)
  next
    case True
    then show ?thesis
      using stop_execve_inv [OF post_fs_data_inv [OF i1, of B]] z1 by (simp add: e)
  qed
qed

lemma boot_step_inv:
  assumes "boot_step B b b'" "once b \<and> ordered b"
  shows "once b' \<and> ordered b'"
  using assms
proof (cases rule: boot_step.cases)
  case (exec_step m stack fn argv)
  then show ?thesis using exec_inv assms(2) by simp
next
  case (key_step type code val)
  then show ?thesis
    using assms(2)
    by (auto simp: ksu_handle_input_handle_event_def Let_def once_def ordered_def)
next
  case safe_mode_step
  then show ?thesis
    using assms(2) by (auto simp: ksu_is_safe_mode_def Let_def once_def ordered_def)
next
  case post_fs_data_step
  then show ?thesis using post_fs_data_inv assms(2) by simp
next
  case completed_step
  then show ?thesis using assms(2) by (auto simp: on_boot_completed_def once_def ordered_def)
next
  case (packages_step isdir name)
  then show ?thesis
    using assms(2)
    by (auto simp: ksu_handle_inode_event_def once_def ordered_def split: option.split)
next
  case mounted_step
  then show ?thesis using assms(2) by (simp add: on_module_mounted_def once_def ordered_def)
qed

section \<open>Properties\<close>


text \<open>The volume-down presses among key events.\<close>

definition presses :: "(u32 \<times> u32 \<times> s32) list \<Rightarrow> nat" where
  "presses evs = length (filter (\<lambda>(t, c, v). t = EV_KEY \<and> c = KEY_VOLUMEDOWN \<and> v \<noteq> 0) evs)"

definition press_all :: "(u32 \<times> u32 \<times> s32) list \<Rightarrow> boot \<Rightarrow> boot" where
  "press_all evs b = foldl (\<lambda>b (t, c, v). ksu_handle_input_handle_event t c v b) b evs"

lemma key_event:
  "bt_volumedown (ksu_handle_input_handle_event t c v b) =
     bt_volumedown b + of_bool (t = EV_KEY \<and> c = KEY_VOLUMEDOWN \<and> v \<noteq> 0)"
  "bt_safe_mode (ksu_handle_input_handle_event t c v b) = bt_safe_mode b"
  by (auto simp: ksu_handle_input_handle_event_def Let_def)

lemma press_all_count:
  "bt_volumedown (press_all evs b) = bt_volumedown b + of_nat (presses evs) \<and>
   bt_safe_mode (press_all evs b) = bt_safe_mode b"
proof (induction evs arbitrary: b)
  case (Cons e evs)
  obtain t c v where e: "e = (t, c, v)" by (cases e)
  have "press_all (e # evs) b = press_all evs (ksu_handle_input_handle_event t c v b)"
    by (simp add: press_all_def e)
  moreover have "presses (e # evs) = of_bool (t = EV_KEY \<and> c = KEY_VOLUMEDOWN \<and> v \<noteq> 0) + presses evs"
    by (simp add: presses_def e)
  ultimately show ?case using Cons.IH by (simp only: key_event of_nat_add of_nat_of_bool add.assoc)
qed (simp add: press_all_def presses_def)

text \<open>
  Safe mode is entered exactly when volume-down was pressed three times or more by the
  time it is first asked for, releases and other keys not counting; the answer then stays.
\<close>

theorem safe_mode_iff_three_presses:
  assumes "bt_volumedown b = 0" "\<not> bt_safe_mode b" "\<not> be_late_loaded B" "presses evs < 2 ^ 32"
  shows "fst (ksu_is_safe_mode B (press_all evs b)) = (3 \<le> presses evs) \<and>
    (3 \<le> presses evs \<longrightarrow> fst (ksu_is_safe_mode B (snd (ksu_is_safe_mode B (press_all evs b)))))"
proof -
  have "is_volumedown_enough (of_nat (presses evs)) = (3 \<le> presses evs)"
    using assms(4) by (simp add: is_volumedown_enough_def word_le_nat_alt unat_of_nat)
  then show ?thesis
    using press_all_count [of evs b] assms by (auto simp: ksu_is_safe_mode_def Let_def)
qed

section \<open>The package observer\<close>

text \<open>
  When the watched path cannot be resolved, or the mark is added, every reference the
  observer takes is dropped when it stops.
\<close>

theorem observer_balanced:
  assumes "wd_path_refs w = 0" "wd_inode_refs w = 0" "\<not> wd_dentry w" "\<not> wd_inode w"
    and "isl (be_watch_path B) \<or> add_mark_on_inode B = Inr ()"
  shows "wd_path_refs (unwatch_one_dir (snd (watch_one_dir B w))) = 0 \<and>
         wd_inode_refs (unwatch_one_dir (snd (watch_one_dir B w))) = 0"
  using assms by (auto simp: watch_one_dir_def unwatch_one_dir_def Let_def split: sum.split)

text \<open>
  When adding the mark fails, the path is put back but its dentry pointer stays in the record,
  so stopping the observer puts it a second time.
\<close>

lemma observer_path_put_twice:
  assumes "be_watch_path B = Inr ()" "add_mark_on_inode B = Inl e" "\<not> wd_mark w"
  shows "wd_path_refs (unwatch_one_dir (snd (watch_one_dir B w))) = wd_path_refs w - 1"
  using assms by (simp add: watch_one_dir_def unwatch_one_dir_def Let_def)

section \<open>The properties at an example\<close>

definition ex_presses :: "(u32 \<times> u32 \<times> s32) list" where
  "ex_presses = [(1, 114, 1), (1, 114, 0), (1, 115, 1), (1, 114, 1), (0, 0, 0), (1, 114, 2)]"

definition ex_boot_env :: boot_env where
  "ex_boot_env = \<lparr>be_ksu = ex_env, be_lsm = ex_lsm, be_sign = ex_config, be_hash = ex_api, be_fs = ex_fs,
     be_read = ex_read, be_persist = \<lparr>init_task_found = True, cb_allocated = True, work_added = True\<rparr>,
     be_late_loaded = False, be_group = Inr (), be_watch_path = Inr (), be_mark_alloc = True,
     be_mark_added = True, be_untag = (\<lambda>p. p), be_fatal = (\<lambda>_. False)\<rparr>"

definition ex_boot :: boot where
  "ex_boot = boot0 0x1FFFFFFFFFF None None"


theorem safe_mode_iff_three_presses_witness:
  "fst (ksu_is_safe_mode ex_boot_env (press_all ex_presses ex_boot)) \<and>
   \<not> fst (ksu_is_safe_mode ex_boot_env (press_all (take 5 ex_presses) ex_boot))"
  using safe_mode_iff_three_presses [of ex_boot ex_boot_env ex_presses]
    safe_mode_iff_three_presses [of ex_boot ex_boot_env "take 5 ex_presses"]
  by (simp add: ex_boot_def boot0_def ex_boot_env_def presses_def ex_presses_def EV_KEY_def KEY_VOLUMEDOWN_def)

theorem observer_balanced_witness:
  "wd_path_refs (unwatch_one_dir (snd (watch_one_dir ex_boot_env (bt_watch ex_boot)))) = 0 \<and>
   wd_inode_refs (unwatch_one_dir (snd (watch_one_dir ex_boot_env (bt_watch ex_boot)))) = 0"
  by (rule observer_balanced)
    (simp_all add: ex_boot_def boot0_def ex_boot_env_def add_mark_on_inode_def)

end
