(* ===== verification/Supercall_Safety.thy ===== *)
theory Supercall_Safety
  imports Supercall Boot_Steps
begin

text \<open>
  What holds of the module as a whole under its ioctl interface: every command returns and keeps
  the state of all components sound, and a caller without privileges changes nothing but its
  own memory. \<open>keeps\<close> is the contract of a handler; \<open>handler_keeps\<close> collects the lemma of each.
\<close>

named_theorems sound_simps
named_theorems handler_keeps

section \<open>Soundness of the whole state\<close>

definition path_ok :: "bytes \<Rightarrow> bool" where
  "path_ok p \<longleftrightarrow> p \<noteq> [] \<and> length p < 256 \<and> 0 \<notin> set p"

definition mounts_ok :: "mount_entry list \<Rightarrow> bool" where
  "mounts_ok ms \<longleftrightarrow> distinct (map me_umountable ms) \<and> list_all (\<lambda>e. path_ok (me_umountable e)) ms"

text \<open>\<open>h\<close> counts the references to profiles that other callers hold.\<close>

definition sound :: "sup_env \<Rightarrow> (addr \<Rightarrow> nat) \<Rightarrow> module_state \<Rightarrow> bool" where
  "sound U h s \<longleftrightarrow>
     al_reach (build U) (h, allow_of s) \<and> mounts_ok (mo_mounts s) \<and> wf_registry (mo_registry s) \<and>
     wf_kernel (mo_kernel s)"

text \<open>\<open>current\<close>: the calling thread is one of the kernel's.\<close>

definition is_current :: "thread \<Rightarrow> module_state \<Rightarrow> bool" where
  "is_current t s \<longleftrightarrow> find_thread (th_pid t) (mo_kernel s) = Some t"

definition keeps :: "handler \<Rightarrow> bool" where
  "keeps f \<longleftrightarrow> (\<forall>U h t arg s. sound U h s \<longrightarrow> is_current t s \<longrightarrow>
     (\<exists>r s'. f U t arg s = Some (r, s') \<and> sound U h s'))"

lemma keepsI:
  "(\<And>U h t arg s. sound U h s \<Longrightarrow> is_current t s \<Longrightarrow> \<exists>r s'. f U t arg s = Some (r, s') \<and> sound U h s') \<Longrightarrow>
   keeps f"
  by (simp add: keeps_def)

lemma keepsD:
  assumes "keeps f" "sound U h s" "is_current t s"
  obtains r s' where "f U t arg s = Some (r, s')" "sound U h s'"
  using assms unfolding keeps_def by blast

section \<open>Frames\<close>

lemma sound_frame [simp, sound_simps]:
  "sound U h (s\<lparr>mo_mem := m\<rparr>) = sound U h s"
  "sound U h (s\<lparr>mo_calls := c\<rparr>) = sound U h s"
  "sound U h (s\<lparr>mo_log := l\<rparr>) = sound U h s"
  "sound U h (s\<lparr>mo_flags := f\<rparr>) = sound U h s"
  "sound U h (s\<lparr>mo_nuked := n\<rparr>) = sound U h s"
  "sound U h (s\<lparr>mo_init_group := g\<rparr>) = sound U h s"
  "sound U h (s\<lparr>mo_post_fs_data_lock := b\<rparr>) = sound U h s"
  "sound U h (s\<lparr>mo_boot_complete_lock := b\<rparr>) = sound U h s"
  by (simp_all add: sound_def)

lemma sound_boot:
  "sound U h s \<Longrightarrow> al_reach (build U) (h, bt_allow b) \<Longrightarrow> sound U h (s\<lparr>mo_boot := b\<rparr>)"
  by (simp add: sound_def)

lemma sound_set_allow: "sound U h s \<Longrightarrow> al_reach (build U) (h, al) \<Longrightarrow> sound U h (set_allow al s)"
  by (simp add: sound_def set_allow_def)

lemma allow_of_set_allow [simp]: "allow_of (set_allow al s) = al"
  by (simp add: set_allow_def)

lemma sound_kernel: "sound U h s \<Longrightarrow> wf_kernel k \<Longrightarrow> sound U h (s\<lparr>mo_kernel := k\<rparr>)"
  by (simp add: sound_def)

lemma put_user_frame: "\<exists>r m. put_user a bs s = (r, s\<lparr>mo_mem := m\<rparr>)"
  by (cases "copy_to_user a bs (mo_mem s)") (auto simp: put_user_def)

lemma put_user_keeps:
  assumes "sound U h s"
  shows "\<exists>r s'. Some (put_user a bs s) = Some (r, s') \<and> sound U h s'"
proof -
  obtain r m where "put_user a bs s = (r, s\<lparr>mo_mem := m\<rparr>)" using put_user_frame by blast
  then show ?thesis using assms by simp
qed

lemma put_user_sound: "sound U h s \<Longrightarrow> \<exists>r s'. put_user a bs s = (r, s') \<and> sound U h s'"
  using put_user_keeps [of U h s a bs] by simp

text \<open>No operation on threads adds, removes or renumbers one.\<close>

definition same_pids :: "kernel \<Rightarrow> kernel \<Rightarrow> bool" where
  "same_pids k k' \<longleftrightarrow> map th_pid (k_threads k') = map th_pid (k_threads k)"

lemma same_pids_wf: "same_pids k k' \<Longrightarrow> wf_kernel k \<Longrightarrow> wf_kernel k'"
  by (simp add: same_pids_def wf_kernel_def)

lemma same_pids_refl [simp]: "same_pids k k"
  by (simp add: same_pids_def)

lemma same_pids_update: "(\<And>t. th_pid (f t) = th_pid t) \<Longrightarrow> same_pids k (update_threads P f k)"
  by (simp add: same_pids_def update_threads_def comp_def if_distrib cong: if_cong)

lemma same_pids_update_thread: "(\<And>t. th_pid (f t) = th_pid t) \<Longrightarrow> same_pids k (update_thread pid f k)"
  by (simp add: update_thread_def same_pids_update)

lemma same_pids_trans: "same_pids k k1 \<Longrightarrow> same_pids k1 k2 \<Longrightarrow> same_pids k k2"
  by (simp add: same_pids_def)

lemma same_pids_disable_seccomp: "same_pids k (disable_seccomp ee pid k)"
  using same_pids_update_thread [of "\<lambda>t. t\<lparr>th_seccomp_work := False, th_seccomp_mode := 0,
      th_filter := None, th_filter_count := 0\<rparr>" k pid]
  by (simp add: disable_seccomp_def same_pids_def split: option.split)

lemma same_pids_mark_running: "same_pids k (ksu_mark_running_process E m L C al k)"
proof -
  have "map th_pid (map (\<lambda>t. if th_pid t \<noteq> 1 \<and> \<not> th_has_mm t then t
      else if wants_mark E m L C al t then set_flag t else clear_flag t) ts) = map th_pid ts" for ts
    by (induction ts) simp_all
  then show ?thesis
    by (simp add: ksu_mark_running_process_def ksu_mark_running_process_locked_def same_pids_def)
qed

lemma same_pids_escape:
  assumes "escape_with_root_profile E m L ee pid (al, k) = Some (r, al1, k1)"
    "al_reach E (h, al)" "find_thread pid k = Some t"
  shows "same_pids k k1 \<and> al_reach E (h, al1)"
proof -
  obtain al' where al': "al_reach E (h, al')"
    and e: "escape_with_root_profile E m L ee pid (al, k) =
      (if \<not> ee_prepare ee then Some (Inl ENOMEM, al, k)
       else if cr_euid (th_cred t) = 0 then Some (Inr (), al, k)
       else if th_no_escape t then Some (Inr (), al, k)
       else if \<not> ee_alloc_uid ee then Some (Inl ENOMEM, al', k)
       else if ee_ucounts ee = Some False then Some (Inr (), al', k)
       else let p = root_spec E m (cr_uid (th_cred t)) al;
                k1 = update_thread pid (\<lambda>t'. t'\<lparr>th_cred := root_cred L ee p (th_cred t)\<rparr>) k;
                k2 = disable_seccomp ee pid k1;
                k3 = (if rp_flags p AND FLAG_KSU_NO_NEW_PRIVS \<noteq> 0
                      then update_thread pid (\<lambda>t. t\<lparr>th_no_escape := True\<rparr>) k2 else k2);
                k4 = update_threads (\<lambda>u. th_tgid u = th_tgid t) set_flag k3
            in Some (Inr (), al', update_thread pid (setup_mount_ns (rp_namespaces p) (ee_ns ee)) k4))"
    by (rule escape_cases [OF assms(2,3), of m L ee])
  have upd: "same_pids j (update_thread pid (setup_mount_ns n (ee_ns ee))
      (update_threads P set_flag
        (if b then update_thread pid (\<lambda>t. t\<lparr>th_no_escape := True\<rparr>) (disable_seccomp ee pid (update_thread pid (\<lambda>t'. t'\<lparr>th_cred := c\<rparr>) j))
         else disable_seccomp ee pid (update_thread pid (\<lambda>t'. t'\<lparr>th_cred := c\<rparr>) j))))" for j n P b c
  proof -
    have d: "same_pids j (disable_seccomp ee pid (update_thread pid (\<lambda>t'. t'\<lparr>th_cred := c\<rparr>) j))"
      by (rule same_pids_trans [OF same_pids_update_thread same_pids_disable_seccomp]) simp
    have "same_pids j (if b then update_thread pid (\<lambda>t. t\<lparr>th_no_escape := True\<rparr>)
          (disable_seccomp ee pid (update_thread pid (\<lambda>t'. t'\<lparr>th_cred := c\<rparr>) j))
        else disable_seccomp ee pid (update_thread pid (\<lambda>t'. t'\<lparr>th_cred := c\<rparr>) j))"
      using same_pids_trans [OF d same_pids_update_thread] d by simp
    then show ?thesis
      by (intro same_pids_trans [OF _ same_pids_update_thread] same_pids_trans [OF _ same_pids_update]) simp_all
  qed
  show ?thesis
    using assms(1,2) al' upd [where b = True] upd [where b = False]
    unfolding e by (auto simp: Let_def split: if_splits)
qed

section \<open>Every handler keeps the state sound\<close>

lemma sound_parts:
  assumes "sound U h s"
  shows "al_reach (build U) (h, allow_of s)" "al_inv (build U) h (allow_of s)" "mounts_ok (mo_mounts s)"
    "wf_registry (mo_registry s)" "wf_kernel (mo_kernel s)"
  using assms al_reach_inv [of "build U" "(h, allow_of s)"] by (auto simp: sound_def)

lemma mark_running_keeps: "sound U h s \<Longrightarrow> sound U h (mark_running U s)"
  using same_pids_wf [OF same_pids_mark_running] by (simp add: mark_running_def sound_def)

lemma grant_root_keeps [handler_keeps]: "keeps do_grant_root"
proof (rule keepsI)
  fix U h t arg s
  assume s: "sound U h s" and cur: "is_current t s"
  note p = sound_parts [OF s]
  have f: "find_thread (th_pid t) (mo_kernel s) = Some t" using cur by (simp add: is_current_def)
  obtain r al1 k1 where e: "escape_with_root_profile (build U) (appid_of s) (security U) (su_escape U) (th_pid t)
      (allow_of s, mo_kernel s) = Some (r, al1, k1)"
    by (rule escape_cases [OF p(1) f, of "appid_of s" "security U" "su_escape U"])
      (auto simp: Let_def split: if_splits)
  then have "same_pids (mo_kernel s) k1 \<and> al_reach (build U) (h, al1)"
    using same_pids_escape [OF e p(1) f] by simp
  then have "sound U h ((set_allow al1 s)\<lparr>mo_kernel := k1\<rparr>)"
    using s same_pids_wf p(5) by (auto simp: sound_def set_allow_def)
  then show "\<exists>r s'. do_grant_root U t arg s = Some (r, s') \<and> sound U h s'"
    unfolding do_grant_root_def e by (simp add: Let_def)
qed

lemma info_keeps [handler_keeps]: "keeps do_get_info" "keeps do_get_info_legacy" "keeps do_get_manager_appid"
  unfolding do_get_info_def do_get_info_legacy_def do_get_manager_appid_def
  by (rule keepsI, erule put_user_keeps)+

lemma track_reach:
  assumes "al_reach E (h, al)" "track_throne E cfg H fs bc pe po (th, al) = (th1, al1)"
  shows "al_reach E (h, al1)"
proof -
  have "al1 = al \<or> (\<exists>us. al1 = ksu_prune_allowlist bc pe (is_uid_exist us) al)"
    using assms(2) by (auto simp: track_throne_def Let_def split: option.splits)
  then show ?thesis using assms(1) by (auto intro: al_reach.step al_step.prune)
qed

lemma boot_reach:
  assumes "al_reach (be_ksu B) (h, bt_allow b)"
  shows "al_reach (be_ksu B) (h, bt_allow (boot_track B p b))"
    "al_reach (be_ksu B) (h, bt_allow (on_post_fs_data B b))"
    "al_reach (be_ksu B) (h, bt_allow (on_boot_completed B b))"
    "al_reach (be_ksu B) (h, bt_allow (on_module_mounted b))"
    "al_reach (be_ksu B) (h, bt_allow (snd (ksu_is_safe_mode B b)))"
proof -
  have t: "al_reach (be_ksu B) (h, bt_allow (boot_track B p b))"
    if "al_reach (be_ksu B) (h, bt_allow b)" for b p
    using track_reach [OF that] by (auto simp: boot_track_def split: prod.split)
  show "al_reach (be_ksu B) (h, bt_allow (boot_track B p b))" using assms by (rule t)
  show "al_reach (be_ksu B) (h, bt_allow (on_post_fs_data B b))"
    using assms load_reach by (simp add: on_post_fs_data_def Let_def)
  show "al_reach (be_ksu B) (h, bt_allow (on_boot_completed B b))"
    using t [of "b\<lparr>bt_boot_completed := True\<rparr>"] assms by (simp add: on_boot_completed_def)
  show "al_reach (be_ksu B) (h, bt_allow (on_module_mounted b))"
    using assms by (simp add: on_module_mounted_def)
  show "al_reach (be_ksu B) (h, bt_allow (snd (ksu_is_safe_mode B b)))"
    using assms by (simp add: ksu_is_safe_mode_def Let_def)
qed

lemma report_event_keeps [handler_keeps]: "keeps do_report_event"
proof (rule keepsI)
  fix U h t arg s
  assume s: "sound U h s"
  note b = boot_reach [of "su_boot U" h "mo_boot s", OF sound_parts(1) [OF s]]
  note sb = b(2-4) [THEN sound_boot [OF s]]
  show "\<exists>r s'. do_report_event U t arg s = Some (r, s') \<and> sound U h s'"
  proof (cases "copy_from_user (unat arg) 4 (mo_mem s)")
    case (Some cmd)
    then show ?thesis using s sb by (simp add: do_report_event_def Let_def sound_def)
  qed (use s in \<open>simp add: do_report_event_def\<close>)
qed

lemma sepolicy_keeps [handler_keeps]: "keeps do_set_sepolicy" "keeps do_get_wrapper_fd"
  by (rule keepsI, simp add: do_set_sepolicy_def do_get_wrapper_fd_def Let_def split: option.split)+

lemma safemode_keeps [handler_keeps]: "keeps do_check_safemode"
proof (rule keepsI)
  fix U h t arg s
  assume s: "sound U h s"
  obtain safe b where e: "ksu_is_safe_mode (su_boot U) (mo_boot s) = (safe, b)"
    by (cases "ksu_is_safe_mode (su_boot U) (mo_boot s)")
  have "sound U h (s\<lparr>mo_boot := b\<rparr>)"
    using boot_reach(5) [OF sound_parts(1) [OF s]] e by (intro sound_boot [OF s]) simp
  from put_user_keeps [OF this]
  show "\<exists>r s'. do_check_safemode U t arg s = Some (r, s') \<and> sound U h s'"
    by (simp only: do_check_safemode_def e Let_def prod.case)
qed

lemma allow_list_keeps_aux: "keeps (do_new_get_allow_list_common b)" "keeps (do_get_allow_list_common b)"
proof -
  show "keeps (do_new_get_allow_list_common b)"
  proof (rule keepsI)
    fix U h t arg s
    assume s: "sound U h s"
    show "\<exists>r s'. do_new_get_allow_list_common b U t arg s = Some (r, s') \<and> sound U h s'"
    proof (cases "copy_from_user (unat arg) 4 (mo_mem s)")
      case (Some cmd)
      obtain arr c total where e: "ksu_get_allow_list (build U) (appid_of s) (get16 0 cmd) b (allow_of s) = (arr, c, total)"
        by (cases "ksu_get_allow_list (build U) (appid_of s) (get16 0 cmd) b (allow_of s)")
      obtain r m where p: "put_user (unat arg) (le_enc 2 (unat c) @ le_enc 2 (unat total)) s = (r, s\<lparr>mo_mem := m\<rparr>)"
        using put_user_frame by blast
      show ?thesis
        using s put_user_keeps [of U h "s\<lparr>mo_mem := m\<rparr>"]
        by (simp add: do_new_get_allow_list_common_def Some Let_def e p)
    qed (use s in \<open>simp add: do_new_get_allow_list_common_def\<close>)
  qed
  show "keeps (do_get_allow_list_common b)"
  proof (rule keepsI)
    fix U h t s and arg :: u64
    assume s: "sound U h s"
    obtain arr c total where e: "ksu_get_allow_list (build U) (appid_of s) 128 b (allow_of s) = (arr, c, total)"
      by (cases "ksu_get_allow_list (build U) (appid_of s) 128 b (allow_of s)")
    obtain r m where p: "put_user (unat arg + 512) (le32 (ucast c)) s = (r, s\<lparr>mo_mem := m\<rparr>)"
      using put_user_frame by blast
    show "\<exists>r s'. do_get_allow_list_common b U t arg s = Some (r, s') \<and> sound U h s'"
      using s put_user_keeps [of U h "s\<lparr>mo_mem := m\<rparr>"]
      by (simp add: do_get_allow_list_common_def Let_def e p)
  qed
qed

lemma allow_list_keeps [handler_keeps]:
  "keeps do_new_get_allow_list" "keeps do_new_get_deny_list" "keeps do_get_allow_list" "keeps do_get_deny_list"
  by (simp_all add: do_new_get_allow_list_def do_new_get_deny_list_def do_get_allow_list_def
      do_get_deny_list_def allow_list_keeps_aux)

lemma granted_keeps [handler_keeps]: "keeps do_uid_granted_root"
  by (rule keepsI, simp only: do_uid_granted_root_def Let_def split: option.split)
    (auto intro: put_user_sound)

lemma should_umount_keeps [handler_keeps]: "keeps do_uid_should_umount"
proof (rule keepsI)
  fix U h t arg s
  assume s: "sound U h s"
  show "\<exists>r s'. do_uid_should_umount U t arg s = Some (r, s') \<and> sound U h s'"
  proof (cases "copy_from_user (unat arg) 8 (mo_mem s)")
    case (Some cmd)
    obtain should al1 where e: "ksu_uid_should_umount (build U) (appid_of s) (get32 0 cmd) (allow_of s) = Some (should, al1)"
      using should_umount_spec [OF sound_parts(2) [OF s]] by metis
    have "al_reach (build U) (h, al1)"
      using al_reach.step [OF sound_parts(1) [OF s] al_step.umount [OF e]] .
    from put_user_keeps [OF sound_set_allow [OF s this]]
    show ?thesis by (simp add: do_uid_should_umount_def Some e)
  qed (use s in \<open>simp add: do_uid_should_umount_def\<close>)
qed

lemma get_profile_keeps [handler_keeps]: "keeps do_get_app_profile"
proof (rule keepsI)
  fix U h t arg s
  assume s: "sound U h s"
  note p = sound_parts [OF s]
  show "\<exists>r s'. do_get_app_profile U t arg s = Some (r, s') \<and> sound U h s'"
  proof (cases "disable_policy (build U) \<or> copy_from_user (unat arg + 260) 4 (mo_mem s) = None")
    case True
    then show ?thesis using s by (auto simp: do_get_app_profile_def)
  next
    case False
    then obtain u where u: "\<not> disable_policy (build U)" "copy_from_user (unat arg + 260) 4 (mo_mem s) = Some u" by auto
    show ?thesis
    proof (rule get_profile_cases [OF p(2), of "get32 0 u"])
      assume "ksu_get_app_profile (build U) (get32 0 u) (allow_of s) = Some (None, allow_of s)"
      then show ?thesis using u sound_set_allow [OF s p(1)] by (simp add: do_get_app_profile_def)
    next
      fix a q
      assume q: "prof_at (allow_of s) a = Some q"
        and g: "ksu_get_app_profile (build U) (get32 0 u) (allow_of s) = Some (Some a, get_ref a (allow_of s))"
      have r1: "al_reach (build U) (h(a := h a + 1), get_ref a (allow_of s))"
        using al_reach.step [OF p(1) al_step.get [OF g]] .
      have "al_step (build U) (h(a := h a + 1), get_ref a (allow_of s))
          ((h(a := h a + 1))(a := (h(a := h a + 1)) a - 1), ksu_put_app_profile a (get_ref a (allow_of s)))"
        by (rule al_step.put) simp
      then have r2: "al_reach (build U) (h, ksu_put_app_profile a (get_ref a (allow_of s)))"
        using al_reach.step [OF r1] by simp
      obtain r m where w: "put_user (unat arg) (profile_image q) (set_allow (get_ref a (allow_of s)) s) =
          (r, (set_allow (get_ref a (allow_of s)) s)\<lparr>mo_mem := m\<rparr>)" using put_user_frame by blast
      show ?thesis
        using u q g w sound_set_allow [OF s r2]
        by (simp add: do_get_app_profile_def set_allow_def sound_def Let_def)
    qed
  qed
qed

lemma set_profile_keeps [handler_keeps]: "keeps do_set_app_profile"
proof (rule keepsI)
  fix U h t arg s
  assume s: "sound U h s"
  note p = sound_parts [OF s]
  show "\<exists>r s'. do_set_app_profile U t arg s = Some (r, s') \<and> sound U h s'"
  proof (cases "disable_policy (build U) \<or> copy_from_user (unat arg) sizeof_app_profile (mo_mem s) = None")
    case True
    then show ?thesis using s by (auto simp: do_set_app_profile_def)
  next
    case False
    then obtain img where i: "\<not> disable_policy (build U)"
      "copy_from_user (unat arg) sizeof_app_profile (mo_mem s) = Some img" by auto
    then have "wf_profile (profile_of_image img)"
      by (intro wf_profile_of_image) (auto simp: copy_from_user_def split: if_splits)
    then have al: "al_reach (build U) (h, snd (ksu_set_app_profile (build U) (su_oom U) (profile_of_image img) (allow_of s)))"
      using al_reach.step [OF p(1) al_step.set] by blast
    obtain r al1 where e: "ksu_set_app_profile (build U) (su_oom U) (profile_of_image img) (allow_of s) = (r, al1)"
      by (cases "ksu_set_app_profile (build U) (su_oom U) (profile_of_image img) (allow_of s)")
    have al1: "al_reach (build U) (h, al1)" using al by (simp add: e)
    have "al_reach (build U) (h, ksu_persistent_allow_list (be_persist (su_boot U)) al1)"
      using al_reach.step [OF al1 al_step.persist] .
    then show ?thesis
      using i e sound_set_allow [OF s al1] mark_running_keeps [OF sound_set_allow [OF s]]
      by (cases r) (simp_all add: do_set_app_profile_def)
  qed
qed

lemma feature_keeps [handler_keeps]: "keeps do_get_feature" "keeps do_set_feature"
proof -
  show "keeps do_get_feature"
  proof (rule keepsI)
    fix U h t arg s
    assume s: "sound U h s"
    show "\<exists>r s'. do_get_feature U t arg s = Some (r, s') \<and> sound U h s'"
    proof (cases "copy_from_user (unat arg) 24 (mo_mem s)")
      case (Some cmd)
      obtain r v b where "ksu_get_feature True (get32 0 cmd) (mo_registry s) (mo_flags s) = (r, v, b)"
        by (cases "ksu_get_feature True (get32 0 cmd) (mo_registry s) (mo_flags s)")
      then show ?thesis
        using s put_user_sound [OF s] by (cases r) (simp_all add: do_get_feature_def Some Let_def)
    qed (use s in \<open>simp add: do_get_feature_def\<close>)
  qed
  show "keeps do_set_feature"
    by (rule keepsI) (simp add: do_set_feature_def Let_def split: option.split prod.split sum.split)
qed

lemma set_mark_sound: "sound U h s \<Longrightarrow> sound U h (snd (set_mark b pid s))"
  using same_pids_wf [OF same_pids_update_thread, of set_flag] same_pids_wf [OF same_pids_update_thread, of clear_flag]
    same_pids_wf [OF same_pids_update, of set_flag] same_pids_wf [OF same_pids_update, of clear_flag]
  by (auto simp: set_mark_def ksu_set_task_mark_def ksu_mark_all_process_def ksu_unmark_all_process_def
      handle_process_mark_def sound_def split: option.split)

lemma manage_mark_keeps [handler_keeps]: "keeps do_manage_mark"
proof (rule keepsI)
  fix U h t arg s
  assume s: "sound U h s"
  show "\<exists>r s'. do_manage_mark U t arg s = Some (r, s') \<and> sound U h s'"
  proof (cases "copy_from_user (unat arg) 12 (mo_mem s)")
    case (Some cmd)
    define op where "op = get32 0 cmd"
    obtain r s1 where m: "set_mark (op = KSU_MARK_MARK) (get32 4 cmd) s = (r, s1)"
      by (cases "set_mark (op = KSU_MARK_MARK) (get32 4 cmd) s")
    have "sound U h s1" using set_mark_sound [OF s, of "op = KSU_MARK_MARK" "get32 4 cmd"] m by simp
    then show ?thesis
      using s m put_user_sound [of U h s1] put_user_sound [OF s]
        put_user_sound [OF mark_running_keeps [OF s]]
      by (auto simp: do_manage_mark_def Some Let_def simp flip: op_def split: sum.split)
  qed (use s in \<open>simp add: do_manage_mark_def\<close>)
qed

lemma nuke_keeps [handler_keeps]: "keeps do_nuke_ext4_sysfs"
proof (rule keepsI)
  fix U h t arg s
  assume s: "sound U h s"
  show "\<exists>r s'. do_nuke_ext4_sysfs U t arg s = Some (r, s') \<and> sound U h s'"
  proof (cases "copy_from_user (unat arg) 8 (mo_mem s)")
    case (Some cmd)
    obtain ret mnt where a: "strncpy_from_user (replicate 256 0) (unat (get64 0 cmd)) 256 (mo_mem s) = (ret, mnt)"
      by (cases "strncpy_from_user (replicate 256 0) (unat (get64 0 cmd)) 256 (mo_mem s)")
    obtain r gone where n: "nuke_ext4_sysfs (su_kern_path U) (c_str mnt) = (r, gone)"
      by (cases "nuke_ext4_sysfs (su_kern_path U) (c_str mnt)")
    show ?thesis using s by (simp add: do_nuke_ext4_sysfs_def Some a n Let_def)
  qed (use s in \<open>simp add: do_nuke_ext4_sysfs_def\<close>)
qed

lemma rest_keeps [handler_keeps]: "keeps do_set_init_pgrp" "keeps do_get_sulog_fd" "keeps do_disable_escape_to_root"
proof -
  show "keeps do_set_init_pgrp" by (rule keepsI) (simp add: do_set_init_pgrp_def)
  show "keeps do_get_sulog_fd"
    by (rule keepsI) (simp add: do_get_sulog_fd_def Let_def split: option.split prod.split sum.split)
  show "keeps do_disable_escape_to_root"
    using same_pids_wf [OF same_pids_update_thread, of "\<lambda>t. t\<lparr>th_no_escape := True\<rparr>"]
    by (intro keepsI) (simp add: do_disable_escape_to_root_def sound_def)
qed

section \<open>The unmount list\<close>

text \<open>The path that \<open>strncpy_from_user\<close> and the forced NUL leave in the 256-byte array.\<close>

lemma copied_path:
  assumes "strncpy_from_user (replicate 256 0) a n m = (len, buf)" "0 < len" "n \<le> 256" "255 \<le> n"
  obtains s z where "user_string n a m = Some (s, z)" "path_ok (c_str (buf[255 := 0]))"
    "c_str (buf[255 := 0]) = take 255 s"
proof -
  obtain s z where u: "user_string n a m = Some (s, z)"
    using assms(1,2) by (auto simp: strncpy_from_user_def split: option.splits prod.splits)
  have len: "len = int (length s)" and buf: "buf = (if z then s @ [0] else s) @ drop (length (if z then s @ [0] else s)) (replicate 256 0)"
    using assms(1) u by (auto simp: strncpy_from_user_def Let_def)
  note us = user_string_length [OF u] user_string_no_nul [OF u]
  have s0: "s \<noteq> []" using len assms(2) by auto
  have t: "0 \<notin> set (take 255 s)" using us(2) by (auto dest: in_set_takeD)
  have c: "c_str (buf[255 := 0]) = take 255 s"
  proof (cases "length s < 256")
    case True
    have l: "length s \<le> 255" using True by simp
    have pad: "buf = s @ replicate (256 - length s) 0"
    proof (cases z)
      case True
      have "256 - length s = Suc (256 - Suc (length s))" using l by arith
      then have "replicate (256 - length s) (0 :: u8) = 0 # replicate (256 - Suc (length s)) 0" by simp
      then show ?thesis using True buf by simp
    qed (simp add: buf)
    have "buf[255 := 0] = buf"
    proof (rule list_update_same_conv [THEN iffD2])
      show "255 < length buf" using pad l by simp
      show "buf ! 255 = 0" using pad l by (simp add: nth_append)
    qed
    then show ?thesis using pad l us(2) by (simp add: c_str_append_zeros)
  next
    case False
    then have "length s = 256" "\<not> z" using us(1) assms(3) by auto
    then have "buf[255 := 0] = take 255 s @ [0]"
      using buf by (simp add: list_update_append take_Suc_conv_app_nth upd_conv_take_nth_drop)
    then show ?thesis using t by (simp add: c_str_append_nul)
  qed
  have "path_ok (take 255 s)" using s0 t by (simp add: path_ok_def)
  then show thesis using that u c by simp
qed

lemma mounts_ok_Nil [simp]: "mounts_ok []"
  by (simp add: mounts_ok_def)

lemma mounts_ok_filter: "mounts_ok ms \<Longrightarrow> mounts_ok (filter P ms)"
  by (auto simp: mounts_ok_def list_all_iff distinct_map intro: inj_on_subset)

lemma mounts_ok_str: "mounts_ok ms \<Longrightarrow> e \<in> set ms \<Longrightarrow> c_str (me_umountable e) = me_umountable e"
  by (auto simp: mounts_ok_def list_all_iff path_ok_def intro: c_str_ident)

lemma mounts_ok_add:
  assumes "mounts_ok ms" "path_ok (c_str b)" "\<not> list_ex (\<lambda>e. str_eq (me_umountable e) b) ms"
  shows "mounts_ok (\<lparr>me_umountable = c_str b, me_flags = f\<rparr> # ms)"
proof -
  have "c_str b \<notin> me_umountable ` set ms"
    using assms(3) mounts_ok_str [OF assms(1)] by (fastforce simp: list_ex_iff str_eq_def)
  then show ?thesis using assms(1,2) by (simp add: mounts_ok_def)
qed

lemma sound_mounts: "sound U h s \<Longrightarrow> mounts_ok ms \<Longrightarrow> sound U h (s\<lparr>mo_mounts := ms\<rparr>)"
  by (simp add: sound_def)

lemma try_umount_keeps [handler_keeps]: "keeps add_try_umount"
proof (rule keepsI)
  fix U h t arg s
  assume s: "sound U h s"
  note ms = sound_parts(3) [OF s]
  show "\<exists>r s'. add_try_umount U t arg s = Some (r, s') \<and> sound U h s'"
  proof (cases "copy_from_user (unat arg) 16 (mo_mem s)")
    case (Some cmd)
    obtain len buf where a: "strncpy_from_user (replicate 256 0) (unat (get64 0 cmd)) 256 (mo_mem s) = (len, buf)"
      by (cases "strncpy_from_user (replicate 256 0) (unat (get64 0 cmd)) 256 (mo_mem s)")
    obtain len' buf' where d: "strncpy_from_user (replicate 256 0) (unat (get64 0 cmd)) 255 (mo_mem s) = (len', buf')"
      by (cases "strncpy_from_user (replicate 256 0) (unat (get64 0 cmd)) 255 (mo_mem s)")
    have add: "sound U h (s\<lparr>mo_mounts := \<lparr>me_umountable = c_str (buf[255 := 0]), me_flags = f\<rparr> # mo_mounts s\<rparr>)"
      if "0 < len" "\<not> list_ex (\<lambda>e. str_eq (me_umountable e) (buf[255 := 0])) (mo_mounts s)" for f
    proof (rule sound_mounts [OF s mounts_ok_add [OF ms _ that(2)]])
      show "path_ok (c_str (buf[255 := 0]))" by (rule copied_path [OF a that(1)]) simp_all
    qed
    show ?thesis
      using s add sound_mounts [OF s mounts_ok_Nil] sound_mounts [OF s mounts_ok_filter [OF ms]]
      by (simp add: add_try_umount_def Some a d Let_def)
  qed (use s in \<open>simp add: add_try_umount_def\<close>)
qed

section \<open>The table\<close>

lemma handlers_keep: "list_all (\<lambda>e. keeps (ic_handler e)) ksu_ioctl_handlers"
  by (simp add: ksu_ioctl_handlers_def entry_def handler_keeps)

text \<open>
  C17: no ioctl, whoever sends it and whatever its argument memory holds, hangs the module or
  breaks its state: every command returns, the allowlist stays reachable by its own operations
  with the references others hold counted, the unmount list stays free of duplicates with
  bounded nonempty paths, the feature registry and the thread table stay well formed.
\<close>

theorem ioctl_keeps_sound:
  assumes "sound U h s" "is_current t s"
  shows "\<exists>r s'. anon_ksu_ioctl U t cmd arg s = Some (r, s') \<and> sound U h s'"
proof (cases "find (\<lambda>h. ic_cmd h = cmd) ksu_ioctl_handlers")
  case (Some e)
  then have "e \<in> set ksu_ioctl_handlers" by (auto simp: find_Some_iff)
  then have "keeps (ic_handler e)" using handlers_keep by (simp add: list_all_iff)
  then obtain r s' where "ic_handler e U t arg s = Some (r, s')" "sound U h s'"
    using assms by (rule keepsD)
  then show ?thesis
    using Some assms(1) by (simp add: anon_ksu_ioctl_def ksu_supercall_handle_ioctl_def)
qed (use assms(1) in \<open>simp add: anon_ksu_ioctl_def ksu_supercall_handle_ioctl_def\<close>)

section \<open>Callers without privileges\<close>

text \<open>What may change: the caller's memory, and that safe mode was asked for.\<close>

definition only_memory :: "sup_env \<Rightarrow> module_state \<Rightarrow> module_state \<Rightarrow> bool" where
  "only_memory U s s' \<longleftrightarrow>
     (\<exists>m. s' = s\<lparr>mo_mem := m\<rparr> \<or> s' = s\<lparr>mo_boot := snd (ksu_is_safe_mode (su_boot U) (mo_boot s)), mo_mem := m\<rparr>)"

definition unprivileged :: "sup_env \<Rightarrow> thread \<Rightarrow> module_state \<Rightarrow> bool" where
  "unprivileged U t s \<longleftrightarrow> current_uid t \<noteq> 0 \<and> \<not> is_manager U t s \<and>
     \<not> ksu_is_allow_uid (build U) (appid_of s) (current_uid t) (allow_of s)"

lemma unprivileged_perms:
  assumes "unprivileged U t s"
  shows "\<not> only_manager U t s" "\<not> only_root U t s" "\<not> manager_or_root U t s" "\<not> allowed_for_su U t s"
  using assms
  by (simp_all add: unprivileged_def only_manager_def only_root_def manager_or_root_def allowed_for_su_def
      ksu_is_allow_uid_for_current_def)

definition open_command :: "ioctl_cmd_map \<Rightarrow> bool" where
  "open_command e \<longleftrightarrow> ic_perm_check e = always_allow"

lemma put_user_only_memory: "\<exists>r s'. put_user a bs s = (r, s') \<and> only_memory U s s'"
  using put_user_frame [of a bs s] by (auto simp: only_memory_def)

lemma safemode_only_memory:
  "\<exists>r s'. put_user a bs (s\<lparr>mo_boot := snd (ksu_is_safe_mode (su_boot U) (mo_boot s))\<rparr>) = (r, s') \<and> only_memory U s s'"
  using put_user_frame [of a bs "s\<lparr>mo_boot := snd (ksu_is_safe_mode (su_boot U) (mo_boot s))\<rparr>"]
  by (auto simp: only_memory_def)

text \<open>
  C16: an application that is neither root, nor the manager, nor on the allowlist gets nothing
  out of the driver: whatever command it sends, the module's state stays the same except that
  asking for safe mode decides it, every command other than the two information queries and
  that question is refused with EPERM, and an unknown one with ENOTTY.
\<close>

theorem unprivileged_ioctl_harmless:
  assumes "unprivileged U t s"
  shows "\<exists>r s'. anon_ksu_ioctl U t cmd arg s = Some (r, s') \<and> only_memory U s s' \<and>
    (cmd \<notin> {KSU_IOCTL_GET_INFO, KSU_IOCTL_GET_INFO_LEGACY, KSU_IOCTL_CHECK_SAFEMODE} \<longrightarrow>
       s' = s \<and> r = (if cmd \<in> ic_cmd ` set ksu_ioctl_handlers then neg_errno EPERM else neg_errno ENOTTY))"
proof -
  note up = unprivileged_perms [OF assms]
  have same: "only_memory U s s" using put_user_frame by (auto simp: only_memory_def intro: exI [of _ "mo_mem s"])
  show ?thesis
  proof (cases "find (\<lambda>h. ic_cmd h = cmd) ksu_ioctl_handlers")
    case None
    then have "cmd \<notin> ic_cmd ` set ksu_ioctl_handlers" by (auto simp: find_None_iff)
    then show ?thesis using None same by (simp add: anon_ksu_ioctl_def ksu_supercall_handle_ioctl_def)
  next
    case (Some e)
    then have e: "e \<in> set ksu_ioctl_handlers" "ic_cmd e = cmd" by (auto simp: find_Some_iff)
    have cases: "\<not> ic_perm_check e U t s \<or>
        e = entry KSU_IOCTL_GET_INFO do_get_info always_allow \<or>
        e = entry KSU_IOCTL_GET_INFO_LEGACY do_get_info_legacy always_allow \<or>
        e = entry KSU_IOCTL_CHECK_SAFEMODE do_check_safemode always_allow"
      using e(1) up by (auto simp: ksu_ioctl_handlers_def entry_def)
    show ?thesis
    proof (cases "ic_perm_check e U t s")
      case False
      then show ?thesis
        using Some e same by (auto simp: anon_ksu_ioctl_def ksu_supercall_handle_ioctl_def)
    next
      case True
      then have "cmd \<in> {KSU_IOCTL_GET_INFO, KSU_IOCTL_GET_INFO_LEGACY, KSU_IOCTL_CHECK_SAFEMODE} \<and>
          (\<exists>p. ic_handler e U t arg s = Some p \<and> only_memory U s (snd p))"
        using cases e(2) put_user_only_memory safemode_only_memory
        by (auto simp: entry_def do_get_info_def do_get_info_legacy_def do_check_safemode_def split_beta)
      then show ?thesis
        using Some True by (auto simp: anon_ksu_ioctl_def ksu_supercall_handle_ioctl_def)
    qed
  qed
qed

section \<open>The unmount list\<close>

text \<open>What one command with a 16-byte argument of address, flags and mode does, for a readable path.\<close>

definition umount_arg :: "u64 \<Rightarrow> u32 \<Rightarrow> u8 \<Rightarrow> bytes \<Rightarrow> bool" where
  "umount_arg path flags mode cmd \<longleftrightarrow>
     length cmd = 16 \<and> get64 0 cmd = path \<and> get32 8 cmd = flags \<and> cmd ! 12 = mode"

lemma copied_path_short:
  assumes "user_string 256 a m = Some (p, True)" "p \<noteq> []" "n = 256 \<or> n = 255 \<and> length p < 255"
  shows "\<exists>buf. strncpy_from_user (replicate 256 0) a n m = (int (length p), buf) \<and> c_str (buf[255 := 0]) = p"
proof -
  have l: "length p < 256" using user_string_length [OF assms(1)] by simp
  then have "length p < n" using assms(3) by auto
  with assms(1) have u: "user_string n a m = Some (p, True)" by (rule user_string_cut)
  define buf where "buf = (p @ [0]) @ drop (length (p @ [0])) (replicate 256 0)"
  have b: "strncpy_from_user (replicate 256 0) a n m = (int (length p), buf)"
    by (simp only: strncpy_from_user_def u Let_def option.case prod.case if_True buf_def)
  obtain s z where "user_string n a m = Some (s, z)" "c_str (buf[255 := 0]) = take 255 s"
    by (rule copied_path [OF b]) (use assms(2,3) in auto)
  then have "c_str (buf[255 := 0]) = p" using u l by simp
  then show ?thesis using b by (intro exI conjI)
qed

text \<open>
  The unmount list under its three commands, for a path of at most 254 bytes. Adding puts
  the path in front, or answers EEXIST when it is listed; deleting takes it out; wiping empties
  the list; any other mode is refused. Flags are those given.
\<close>

theorem umount_list_commands:
  assumes "sound U h s" "copy_from_user (unat arg) 16 (mo_mem s) = Some cmd" "umount_arg ptr flags mode cmd"
    and "user_string 256 (unat ptr) (mo_mem s) = Some (p, True)" "p \<noteq> []" "length p < 255"
    and "su_entry_alloc U" "su_path_dup U"
  shows "add_try_umount U t arg s =
    (if mode = KSU_UMOUNT_WIPE then Some (0, s\<lparr>mo_mounts := []\<rparr>)
     else if mode = KSU_UMOUNT_ADD then
       if p \<in> me_umountable ` set (mo_mounts s) then Some (neg_errno EEXIST, s)
       else Some (0, s\<lparr>mo_mounts := \<lparr>me_umountable = p, me_flags = flags\<rparr> # mo_mounts s\<rparr>)
     else if mode = KSU_UMOUNT_DEL then
       Some (0, s\<lparr>mo_mounts := filter (\<lambda>e. me_umountable e \<noteq> p) (mo_mounts s)\<rparr>)
     else Some (neg_errno EINVAL, s))"
proof -
  note ms = sound_parts(3) [OF assms(1)]
  obtain b where b: "strncpy_from_user (replicate 256 0) (unat ptr) 256 (mo_mem s) = (int (length p), b)"
      "c_str (b[255 := 0]) = p" using copied_path_short [OF assms(4,5)] by blast
  obtain b' where b': "strncpy_from_user (replicate 256 0) (unat ptr) 255 (mo_mem s) = (int (length p), b')"
      "c_str (b'[255 := 0]) = p" using copied_path_short [OF assms(4,5)] assms(6) by blast
  have l: "str_eq (me_umountable e) (b[255 := 0]) = (me_umountable e = p)"
    "str_eq (me_umountable e) (b'[255 := 0]) = (me_umountable e = p)" if "e \<in> set (mo_mounts s)" for e
    using mounts_ok_str [OF ms that] b b' by (auto simp: str_eq_def)
  have ex: "list_ex (\<lambda>e. str_eq (me_umountable e) (b[255 := 0])) (mo_mounts s) = (p \<in> me_umountable ` set (mo_mounts s))"
    using l(1) by (auto simp: list_ex_iff)
  have fl: "filter (\<lambda>e. \<not> str_eq (me_umountable e) (b'[255 := 0])) (mo_mounts s) =
      filter (\<lambda>e. me_umountable e \<noteq> p) (mo_mounts s)"
    using l(2) by (intro filter_cong) auto
  have arg: "get64 0 cmd = ptr" "get32 8 cmd = flags" "cmd ! 12 = mode"
    using assms(3) by (simp_all add: umount_arg_def)
  show ?thesis
    using assms(5,7,8) b b' unfolding add_try_umount_def assms(2) option.case arg Let_def
    by (simp add: ex fl)
qed

section \<open>Profiles through the driver\<close>

lemma put_user_ok: "is_mapped (mo_mem s) a (length bs) \<Longrightarrow> put_user a bs s = (0, s\<lparr>mo_mem := write_bytes a bs (mo_mem s)\<rparr>)"
  by (simp add: put_user_def)

lemma mark_running_frame [simp]:
  "mo_mem (mark_running U s) = mo_mem s" "mo_boot (mark_running U s) = mo_boot s"
  by (simp_all add: mark_running_def)

text \<open>
  A profile the manager sets is the profile it gets. When setting succeeds, asking for
  the uid of the profile succeeds and writes the memory image of the stored profile.
\<close>

theorem set_get_profile_roundtrip:
  assumes "sound U h s" "wf_profile p"
    and "copy_from_user (unat arg) sizeof_app_profile (mo_mem s) = Some (profile_image p)"
    and "do_set_app_profile U t arg s = Some (0, s1)"
    and "is_mapped (mo_mem s1) (unat arg') sizeof_app_profile"
    and "read_bytes (mo_mem s1) (unat arg' + 260) 4 = le32 (ap_curr_uid p)"
  shows "\<exists>s2. do_get_app_profile U t' arg' s1 = Some (0, s2) \<and>
    read_bytes (mo_mem s2) (unat arg') sizeof_app_profile = profile_image p"
proof -
  note sp = sound_parts [OF assms(1)]
  have pol: "\<not> disable_policy (build U)" using assms(4) by (auto simp: do_set_app_profile_def)
  obtain r al1 where e: "ksu_set_app_profile (build U) (su_oom U) p (allow_of s) = (r, al1)"
    by (cases "ksu_set_app_profile (build U) (su_oom U) p (allow_of s)")
  obtain x where r: "r = Inr x"
    using assms(3,4) pol e
    by (cases r) (simp_all add: do_set_app_profile_def profile_of_profile_image [OF assms(2)])
  have s1: "s1 = mark_running U (set_allow (ksu_persistent_allow_list (be_persist (su_boot U)) al1) s)"
    using assms(3,4) pol e r
    by (simp add: do_set_app_profile_def profile_of_profile_image [OF assms(2)])
  have reach: "al_reach (build U) (h, al1)"
    using al_reach.step [OF sp(1) al_step.set [OF assms(2)], of "su_oom U"] e by simp
  define al2 where "al2 = ksu_persistent_allow_list (be_persist (su_boot U)) al1"
  have inv2: "al_inv (build U) h al2"
    using al_reach_inv [OF al_reach.step [OF reach al_step.persist]] by (simp add: al2_def)
  have prof: "al_profile (build U) al2 (ap_curr_uid p) = Some p"
    using set_profile_ok [OF sp(2) assms(2), of "su_oom U" al1] e r pol by (simp add: al2_def stored_profile_def)
  have al: "allow_of s1 = al2" by (simp add: s1 al2_def)
  have len: "length (profile_image p) = sizeof_app_profile"
    by (rule length_profile_image [OF assms(2)])
  have m4: "is_mapped (mo_mem s1) (unat arg' + 260) 4"
    by (rule is_mapped_offset [OF assms(5)]) simp
  have u: "get32 0 (le32 w) = w" for w
    using get32_le32 [of "[]" 0 w "[]"] by simp
  show ?thesis
  proof (rule get_profile_cases [OF inv2, of "ap_curr_uid p"])
    assume "al_profile (build U) al2 (ap_curr_uid p) = None"
    then show ?thesis using prof by simp
  next
    fix a q
    assume a: "al_profile (build U) al2 (ap_curr_uid p) = Some q" "prof_at al2 a = Some q"
      "ksu_get_app_profile (build U) (ap_curr_uid p) al2 = Some (Some a, get_ref a al2)"
    then have "q = p" using prof by simp
    then show ?thesis
      using a pol m4 assms(5,6) al len u
      by (simp add: do_get_app_profile_def put_user_ok set_allow_def Let_def)
  qed
qed

text \<open>
  C18: the list reply stays inside the caller's buffer. Whatever the table holds, the command
  with room for \<open>n\<close> uids writes only the four bytes of its head and the \<open>n\<close> words after it,
  also when a copy faults half way.
\<close>

theorem allow_list_reply_in_bounds:
  assumes "do_new_get_allow_list_common allow U t arg s = Some (r, s')"
    and "copy_from_user (unat arg) 4 (mo_mem s) = Some cmd"
    and "x < unat arg \<or> unat arg + 4 + 4 * unat (get16 0 cmd) \<le> x"
  shows "mo_mem s' x = mo_mem s x"
proof -
  have put: "mo_mem (snd (put_user a bs s)) x = mo_mem s x" if "x < a \<or> a + length bs \<le> x" for a bs s
    using that by (auto simp: put_user_def copy_to_user_def write_bytes_def Let_def)
  define len where "len = get16 0 cmd"
  obtain arr c total where e: "ksu_get_allow_list (build U) (appid_of s) len allow (allow_of s) = (arr, c, total)"
    by (cases "ksu_get_allow_list (build U) (appid_of s) len allow (allow_of s)")
  have c: "unat c \<le> unat len"
  proof -
    have "c = of_nat (min (unat len) (length (list_matches (build U) (appid_of s) allow (allow_of s) (all_nodes (allow_of s)))))"
      using e by (simp add: get_allow_list_spec Let_def)
    then show ?thesis using unat_bound [of len] by (simp add: unat_of_nat)
  qed
  define s1 where "s1 = snd (put_user (unat arg) (le_enc 2 (unat c) @ le_enc 2 (unat total)) s)"
  have m1: "mo_mem s1 x = mo_mem s x"
    unfolding s1_def using assms(3) by (intro put) (auto simp: len_def)
  have "length (concat (map le32 (take (unat c) arr))) \<le> 4 * unat len" using c by simp
  then have m2: "mo_mem (snd (put_user (unat arg + 4) (concat (map le32 (take (unat c) arr))) s1)) x = mo_mem s x"
    using m1 assms(3) by (subst put) (auto simp: len_def)
  have "s' = s \<or> s' = s1 \<or> s' = snd (put_user (unat arg + 4) (concat (map le32 (take (unat c) arr))) s1)"
    using assms(1,2) e
    by (auto simp: do_new_get_allow_list_common_def Let_def len_def s1_def split: if_splits prod.splits)
  then show ?thesis using m1 m2 by auto
qed

section \<open>The properties at an example\<close>

definition ex_sup :: sup_env where
  "ex_sup = \<lparr>su_boot = ex_boot_env, su_version = 12345, su_lkm = True, su_pr_build = False, su_escape = ex_escape,
     su_capture = ex_capture, su_event_alloc = True, su_now = 0, su_fd = ex_fd_env, su_oom = False,
     su_arr_alloc = True, su_entry_alloc = True, su_path_dup = True, su_sepolicy = (\<lambda>_ _ _. 0),
     su_wrapper = (\<lambda>_. 5), su_kern_path = (\<lambda>_. Inl ENOENT), su_same_session = True, su_in_init_group = False,
     su_stale = True\<rparr>"

definition ex_state :: "allowlist \<Rightarrow> umem \<Rightarrow> module_state" where
  "ex_state al m = \<lparr>mo_boot = ex_boot\<lparr>bt_allow := al, bt_throne := \<lparr>tt_appid = 10009, tt_cache = []\<rparr>\<rparr>,
     mo_kernel = ex_kernel, mo_log = ex_log, mo_flags = flags_at_load,
     mo_registry = register_flags ksu_feature_init, mo_mounts = [\<lparr>me_umountable = [47, 98], me_flags = 0\<rparr>],
     mo_post_fs_data_lock = False, mo_boot_complete_lock = False, mo_init_group = [], mo_nuked = [], mo_calls = [],
     mo_mem = m\<rparr>"

lemma ex_state_simps [simp]:
  "mo_mem (ex_state al m) = m" "allow_of (ex_state al m) = al" "appid_of (ex_state al m) = 10009"
  "build ex_sup = ex_env" "mo_kernel (ex_state al m) = ex_kernel"
  "mo_mounts (ex_state al m) = [\<lparr>me_umountable = [47, 98], me_flags = 0\<rparr>]"
  by (simp_all add: ex_state_def ex_sup_def ex_boot_env_def)

lemma ex_state_sound: "al_reach ex_env (h, al) \<Longrightarrow> sound ex_sup h (ex_state al m)"
  by (simp add: sound_def mounts_ok_def path_ok_def ex_state_def register_flags_def wf_kernel_def
      ex_kernel_def ex_thread_def ex_sup_def ex_boot_env_def)

lemma ex_current: "is_current (ex_thread 200 10002) (ex_state al m)"
  by (simp add: is_current_def find_thread_def ex_kernel_def ex_thread_def)

lemma zeros_mapped [simp]: "is_mapped (\<lambda>_. Some b) a n"
  by (simp add: is_mapped_iff)

theorem ioctl_keeps_sound_witness:
  "\<exists>r s'. anon_ksu_ioctl ex_sup (ex_thread 200 10002) KSU_IOCTL_GRANT_ROOT 0
     (ex_state (ex_list 10002 True) (\<lambda>_. Some 0)) = Some (r, s') \<and> sound ex_sup (\<lambda>_. 0) s'"
  by (rule ioctl_keeps_sound [OF ex_state_sound [OF ex_list_reach] ex_current])

theorem unprivileged_ioctl_harmless_witness:
  "anon_ksu_ioctl ex_sup (ex_thread 200 10002) KSU_IOCTL_SET_APP_PROFILE 4096 (ex_state (ex_list 10001 True) (\<lambda>_. Some 0)) =
     Some (neg_errno EPERM, ex_state (ex_list 10001 True) (\<lambda>_. Some 0))"
proof -
  have "unprivileged ex_sup (ex_thread 200 10002) (ex_state (ex_list 10001 True) (\<lambda>_. Some 0))"
    using al_reach_inv [OF ex_list_reach [of 10001 True]]
    by (simp add: unprivileged_def is_manager_def current_uid_def ex_thread_def ex_cred_def is_allow_uid_iff
        al_inv_def ex_list_profile is_uid_manager_def)
  moreover have "KSU_IOCTL_SET_APP_PROFILE \<in> ic_cmd ` set ksu_ioctl_handlers"
    by (simp add: ksu_ioctl_handlers_def entry_def)
  moreover have "KSU_IOCTL_SET_APP_PROFILE \<notin> {KSU_IOCTL_GET_INFO, KSU_IOCTL_GET_INFO_LEGACY, KSU_IOCTL_CHECK_SAFEMODE}"
    by (simp add: ioctl_numbers ioc_def)
  ultimately show ?thesis using unprivileged_ioctl_harmless by fastforce
qed

definition ex_umount_mem :: umem where
  "ex_umount_mem = write_bytes 512 [47, 97, 0] (write_bytes 256 (le64 512 @ le32 2 @ [1, 0, 0, 0]) (\<lambda>_. Some 0))"

theorem umount_list_commands_witness:
  "add_try_umount ex_sup (ex_thread 200 0) 256 (ex_state (ex_list 10001 True) ex_umount_mem) =
     Some (0, (ex_state (ex_list 10001 True) ex_umount_mem)
       \<lparr>mo_mounts := [\<lparr>me_umountable = [47, 97], me_flags = 2\<rparr>, \<lparr>me_umountable = [47, 98], me_flags = 0\<rparr>]\<rparr>)"
proof -
  let ?cmd = "le64 512 @ le32 2 @ [1, 0, 0, 0]"
  have m: "is_mapped ex_umount_mem 256 16" by (simp add: ex_umount_mem_def)
  have "read_bytes ex_umount_mem 256 16 = ?cmd"
    unfolding ex_umount_mem_def by (subst read_write_other) simp_all
  then have c: "copy_from_user (unat (256 :: u64)) 16 (mo_mem (ex_state (ex_list 10001 True) ex_umount_mem)) = Some ?cmd"
    using m by simp
  have a: "umount_arg 512 2 1 ?cmd"
    using get64_le64 [of "[]" 0 512 "le32 2 @ [1, 0, 0, 0]"] get32_le32 [of "le64 512" 8 2 "[1, 0, 0, 0]"]
    by (simp add: umount_arg_def nth_append)
  have u: "user_string 256 (unat (512 :: u64)) (mo_mem (ex_state (ex_list 10001 True) ex_umount_mem)) = Some ([47, 97], True)"
    using user_string_stored [of "[47, 97]" 256 512] by (simp add: ex_umount_mem_def)
  show ?thesis
    using umount_list_commands [OF ex_state_sound [OF ex_list_reach [of 10001 True]] c a u]
    by (simp add: KSU_UMOUNT_WIPE_def KSU_UMOUNT_ADD_def ex_sup_def)
qed

definition ex_profile_mem :: umem where
  "ex_profile_mem = write_bytes 8192 (profile_image (ex_app 10001 True)) (write_bytes 4356 (le32 10001) (\<lambda>_. Some 0))"

theorem set_get_profile_roundtrip_witness:
  "\<exists>s1 s2. do_set_app_profile ex_sup (ex_thread 200 10009) 8192 (ex_state (ksu_allowlist_init 0 None) ex_profile_mem) =
       Some (0, s1) \<and>
     do_get_app_profile ex_sup (ex_thread 200 10009) 4096 s1 = Some (0, s2) \<and>
     read_bytes (mo_mem s2) 4096 sizeof_app_profile = profile_image (ex_app 10001 True)"
proof -
  let ?s = "ex_state (ksu_allowlist_init 0 None) ex_profile_mem"
  have len: "length (profile_image (ex_app 10001 True)) = sizeof_app_profile" by (simp add: length_profile_image)
  have c: "copy_from_user (unat (8192 :: u64)) sizeof_app_profile (mo_mem ?s) = Some (profile_image (ex_app 10001 True))"
    using len by (simp add: ex_profile_mem_def)
  have oom: "su_oom ex_sup = False" by (simp add: ex_sup_def)
  obtain s1 where set: "do_set_app_profile ex_sup (ex_thread 200 10009) 8192 ?s = Some (0, s1)"
    and m: "mo_mem s1 = ex_profile_mem"
    using c ex_set_ok [of 10001 True]
    by (simp add: do_set_app_profile_def profile_of_profile_image oom set_allow_def)
  have "read_bytes ex_profile_mem 4356 4 = le32 10001"
    unfolding ex_profile_mem_def by (subst read_write_other) simp_all
  then show ?thesis
    using set_get_profile_roundtrip [OF ex_state_sound [OF al_reach.start] _ c set, of 4096 "ex_thread 200 10009"] set m
    by (auto simp: ex_profile_mem_def)
qed

theorem allow_list_reply_in_bounds_witness:
  "\<exists>r s'. do_new_get_allow_list_common True ex_sup (ex_thread 200 0) 4096
       (ex_state (ex_list 10001 True) (write_bytes 4096 [1, 0, 0, 0] (\<lambda>_. Some 7))) = Some (r, s') \<and>
     mo_mem s' 4104 = Some 7 \<and> mo_mem s' 4095 = Some 7"
proof -
  let ?m = "write_bytes 4096 [1, 0, 0, 0] (\<lambda>_. Some 7)"
  let ?s = "ex_state (ex_list 10001 True) ?m"
  have c: "copy_from_user (unat (4096 :: u64)) 4 (mo_mem ?s) = Some [1, 0, 0, 0]"
    by simp
  have n: "unat (get16 0 [1, 0, 0, 0]) = 1" by (simp add: get16_def slice_def)
  have "is_current (ex_thread 200 10002) ?s" by (rule ex_current)
  then obtain r s' where e: "do_new_get_allow_list_common True ex_sup (ex_thread 200 0) 4096 ?s = Some (r, s')"
    using allow_list_keeps_aux(1) [of True] ex_state_sound [OF ex_list_reach [of 10001 True]]
    unfolding keeps_def do_new_get_allow_list_common_def by blast
  show ?thesis
    using allow_list_reply_in_bounds [OF e c, of 4104] allow_list_reply_in_bounds [OF e c, of 4095] e n
    by (simp add: write_bytes_def)
qed

end
