(* ===== verification/Syscall_Hook.thy ===== *)
theory Syscall_Hook
  imports Ksu_Prelude
begin

text \<open>
  Redirecting system calls (\<^verbatim>\<open>kernel/hook/arm64/syscall_hook.c\<close> and its x86_64 twin): one
  unused slot of the system-call table is patched to a dispatcher; the tracepoint handler of a
  marked task rewrites the number of a hooked call to that slot and keeps the original number
  in a spare register; the dispatcher restores the registers and calls the registered handler.
  Besides this the module can patch entries of the table directly, recording up to sixteen
  originals. \<open>'f\<close> is the type of the table's functions, \<open>'h\<close> that of the handlers.
\<close>

section \<open>State\<close>

text \<open>
  The registers that play a part. \<open>pr_syscallno\<close> and \<open>pr_x8\<close> exist on arm64,
  \<open>pr_orig_ax\<close> and \<open>pr_ax\<close> on x86_64.
\<close>

record pt_regs =
  pr_parm1 :: u64
  pr_parm2 :: u64
  pr_parm3 :: u64
  pr_parm4 :: u64
  pr_parm5 :: u64
  pr_sp :: u64
  pr_syscallno :: s32
  pr_x8 :: u64
  pr_orig_ax :: u64
  pr_ax :: u64

text \<open>
  \<open>sh_table\<close> is the kernel's table, \<open>None\<close> while its symbol is not resolved; \<open>sh_hooks\<close> the
  routing table, \<open>None\<close> for a null pointer; \<open>sh_entries\<close> the first \<open>hooked_count\<close> entries of
  the restoration array.
\<close>

record ('f, 'h) syscall_hooks =
  sh_table :: "'f list option"
  sh_dispatcher_nr :: s32
  sh_hooks :: "'h option list"
  sh_entries :: "(s32 \<times> 'f) list"

definition HOOKED_ENTRIES :: nat where "HOOKED_ENTRIES = 16"

text \<open>The guard \<open>nr < 0 || nr >= __NR_syscalls\<close> of every operation, negated.\<close>

definition nr_ok :: "nat \<Rightarrow> s32 \<Rightarrow> bool" where
  "nr_ok N nr \<longleftrightarrow> 0 \<le> sint nr \<and> sint nr < int N"

section \<open>Patching the table\<close>

text \<open>\<open>ok\<close> tells whether \<open>ksu_patch_text\<close> succeeds.\<close>

definition patch_syscall_table ::
    "nat \<Rightarrow> bool \<Rightarrow> s32 \<Rightarrow> 'f \<Rightarrow> ('f, 'h) syscall_hooks \<Rightarrow> int \<times> ('f, 'h) syscall_hooks" where
  "patch_syscall_table N ok nr fn s =
     (case sh_table s of
        None \<Rightarrow> (neg_errno ENOENT, s)
      | Some tb \<Rightarrow>
          if \<not> nr_ok N nr then (neg_errno EINVAL, s)
          else if \<not> ok then (neg_errno EIO, s)
          else (0, s\<lparr>sh_table := Some (tb[unat nr := fn])\<rparr>))"

text \<open>The result is what \<open>*old\<close> is set to, if it is set.\<close>

definition ksu_syscall_table_hook ::
    "nat \<Rightarrow> bool \<Rightarrow> s32 \<Rightarrow> 'f \<Rightarrow> ('f, 'h) syscall_hooks \<Rightarrow> 'f option \<times> ('f, 'h) syscall_hooks" where
  "ksu_syscall_table_hook N ok nr fn s =
     (case sh_table s of
        None \<Rightarrow> (None, s)
      | Some tb \<Rightarrow>
          if \<not> nr_ok N nr then (None, s)
          else
            let orig = tb ! unat nr;
                found = list_ex (\<lambda>e. fst e = nr) (sh_entries s);
                s1 = (if \<not> found \<and> length (sh_entries s) < HOOKED_ENTRIES
                      then s\<lparr>sh_entries := sh_entries s @ [(nr, orig)]\<rparr> else s)
            in (Some orig, snd (patch_syscall_table N ok nr fn s1)))"

text \<open>Removing entry \<open>i\<close> moves the last one into its place.\<close>

definition swap_remove :: "nat \<Rightarrow> 'a list \<Rightarrow> 'a list" where
  "swap_remove i xs = butlast (xs[i := xs ! (length xs - 1)])"

primrec index_of :: "('a \<Rightarrow> bool) \<Rightarrow> 'a list \<Rightarrow> nat option" where
  "index_of P [] = None"
| "index_of P (x # xs) = (if P x then Some 0 else map_option Suc (index_of P xs))"

definition ksu_syscall_table_unhook ::
    "nat \<Rightarrow> bool \<Rightarrow> s32 \<Rightarrow> ('f, 'h) syscall_hooks \<Rightarrow> ('f, 'h) syscall_hooks" where
  "ksu_syscall_table_unhook N ok nr s =
     (if sh_table s = None then s
      else if \<not> nr_ok N nr then s
      else case index_of (\<lambda>e. fst e = nr) (sh_entries s) of
             None \<Rightarrow> s
           | Some i \<Rightarrow>
               let s1 = snd (patch_syscall_table N ok nr (snd (sh_entries s ! i)) s)
               in s1\<lparr>sh_entries := swap_remove i (sh_entries s1)\<rparr>)"

section \<open>The routing table\<close>

definition ksu_register_syscall_hook ::
    "nat \<Rightarrow> s32 \<Rightarrow> 'h \<Rightarrow> ('f, 'h) syscall_hooks \<Rightarrow> int \<times> ('f, 'h) syscall_hooks" where
  "ksu_register_syscall_hook N nr fn s =
     (if \<not> nr_ok N nr then (neg_errno EINVAL, s)
      else if sh_hooks s ! unat nr \<noteq> None then (neg_errno EEXIST, s)
      else (0, s\<lparr>sh_hooks := (sh_hooks s)[unat nr := Some fn]\<rparr>))"

definition ksu_unregister_syscall_hook ::
    "nat \<Rightarrow> s32 \<Rightarrow> ('f, 'h) syscall_hooks \<Rightarrow> ('f, 'h) syscall_hooks" where
  "ksu_unregister_syscall_hook N nr s =
     (if \<not> nr_ok N nr then s else s\<lparr>sh_hooks := (sh_hooks s)[unat nr := None]\<rparr>)"

definition ksu_has_syscall_hook :: "nat \<Rightarrow> s32 \<Rightarrow> ('f, 'h) syscall_hooks \<Rightarrow> bool" where
  "ksu_has_syscall_hook N nr s = (nr_ok N nr \<and> sh_hooks s ! unat nr \<noteq> None)"

section \<open>The dispatcher\<close>

text \<open>
  An error, or the handler that is called with the original number and the registers it sees.
\<close>

definition ksu_syscall_dispatcher ::
    "nat \<Rightarrow> ('f, 'h) syscall_hooks \<Rightarrow> pt_regs \<Rightarrow> (errno + 'h \<times> s32) \<times> pt_regs" where
  "ksu_syscall_dispatcher N s regs =
     (if pr_syscallno regs \<noteq> sh_dispatcher_nr s then (Inl ENOSYS, regs)
      else
        let orig_nr = ucast (pr_x8 regs) :: s32 in
        if pr_syscallno regs = orig_nr then (Inl ENOSYS, regs)
        else
          let regs1 = regs\<lparr>pr_syscallno := orig_nr, pr_x8 := scast orig_nr\<rparr> in
          if nr_ok N orig_nr then
            (case sh_hooks s ! unat orig_nr of
               None \<Rightarrow> (Inl ENOSYS, regs1)
             | Some fn \<Rightarrow> (Inr (fn, orig_nr), regs1))
          else (Inl ENOSYS, regs1))"

definition ksu_syscall_dispatcher_x86 ::
    "nat \<Rightarrow> ('f, 'h) syscall_hooks \<Rightarrow> pt_regs \<Rightarrow> (errno + 'h \<times> s32) \<times> pt_regs" where
  "ksu_syscall_dispatcher_x86 N s regs =
     (if pr_orig_ax regs \<noteq> scast (sh_dispatcher_nr s) then (Inl ENOSYS, regs)
      else
        let orig_nr = ucast (pr_ax regs) :: s32 in
        if pr_orig_ax regs = scast orig_nr then (Inl ENOSYS, regs)
        else
          let regs1 = regs\<lparr>pr_orig_ax := scast orig_nr\<rparr> in
          if nr_ok N orig_nr then
            (case sh_hooks s ! unat orig_nr of
               None \<Rightarrow> (Inl ENOSYS, regs1)
             | Some fn \<Rightarrow> (Inr (fn, orig_nr), regs1))
          else (Inl ENOSYS, regs1))"

text \<open>The tracepoint handler. \<open>compat_task\<close>: the task runs 32-bit code; \<open>nr\<close> is the call's number.\<close>

definition ksu_sys_enter_handler ::
    "nat \<Rightarrow> bool \<Rightarrow> ('f, 'h) syscall_hooks \<Rightarrow> u64 \<Rightarrow> pt_regs \<Rightarrow> pt_regs" where
  "ksu_sys_enter_handler N compat_task s nr regs =
     (if compat_task then regs
      else if sint (sh_dispatcher_nr s) < 0 then regs
      else if ksu_has_syscall_hook N (ucast nr) s
      then regs\<lparr>pr_x8 := nr, pr_syscallno := sh_dispatcher_nr s\<rparr>
      else regs)"

definition ksu_sys_enter_handler_x86 ::
    "nat \<Rightarrow> bool \<Rightarrow> ('f, 'h) syscall_hooks \<Rightarrow> u64 \<Rightarrow> pt_regs \<Rightarrow> pt_regs" where
  "ksu_sys_enter_handler_x86 N compat_task s nr regs =
     (if compat_task then regs
      else if sint (sh_dispatcher_nr s) < 0 then regs
      else if ksu_has_syscall_hook N (ucast nr) s
      then regs\<lparr>pr_ax := nr, pr_orig_ax := scast (sh_dispatcher_nr s)\<rparr>
      else regs)"

section \<open>Start and stop\<close>

text \<open>The loop over the table, and the slots it found so far.\<close>

fun find_ni_loop :: "'f \<Rightarrow> nat \<Rightarrow> 'f list \<Rightarrow> nat \<Rightarrow> nat list \<Rightarrow> nat list" where
  "find_ni_loop ni i [] lim out = out"
| "find_ni_loop ni i (f # fs) lim out =
     (if length out < lim
      then find_ni_loop ni (i + 1) fs lim (if f = ni then out @ [i] else out)
      else out)"

definition ksu_find_ni_syscall_slots ::
    "'f option \<Rightarrow> s32 \<Rightarrow> ('f, 'h) syscall_hooks \<Rightarrow> nat list" where
  "ksu_find_ni_syscall_slots ni_syscall max_slots s =
     (case sh_table s of
        None \<Rightarrow> []
      | Some tb \<Rightarrow>
          if sint max_slots \<le> 0 then []
          else case ni_syscall of None \<Rightarrow> [] | Some ni \<Rightarrow> find_ni_loop ni 0 tb (unat max_slots) [])"

definition NO_DISPATCHER :: s32 where "NO_DISPATCHER = - 1"

definition no_hooks :: "nat \<Rightarrow> 'h option list" where
  "no_hooks N = replicate N None"

text \<open>The values of the module's variables when it is loaded.\<close>

definition hooks_at_load :: "nat \<Rightarrow> ('f, 'h) syscall_hooks" where
  "hooks_at_load N = \<lparr>sh_table = None, sh_dispatcher_nr = NO_DISPATCHER, sh_hooks = no_hooks N, sh_entries = []\<rparr>"

text \<open>\<open>tab\<close> and \<open>ni\<close>: what the two symbols resolve to; \<open>disp\<close>: the dispatcher as a table function.\<close>

definition ksu_syscall_hook_init ::
    "nat \<Rightarrow> bool \<Rightarrow> 'f list option \<Rightarrow> 'f option \<Rightarrow> 'f \<Rightarrow> ('f, 'h) syscall_hooks \<Rightarrow> ('f, 'h) syscall_hooks" where
  "ksu_syscall_hook_init N ok tab ni disp s =
     (let s1 = s\<lparr>sh_hooks := no_hooks N, sh_table := tab\<rparr> in
      if tab = None then s1
      else case ksu_find_ni_syscall_slots ni 1 s1 of
             [] \<Rightarrow> s1
           | ni_slot # _ \<Rightarrow>
               let s2 = s1\<lparr>sh_dispatcher_nr := of_nat ni_slot\<rparr>
               in snd (ksu_syscall_table_hook N ok (sh_dispatcher_nr s2) disp s2))"

text \<open>\<open>ok i\<close>: whether the patch of entry \<open>i\<close> succeeds; a failure is only reported.\<close>

fun restore_loop :: "(nat \<Rightarrow> bool) \<Rightarrow> nat \<Rightarrow> (s32 \<times> 'f) list \<Rightarrow> 'f list \<Rightarrow> 'f list" where
  "restore_loop ok i [] tb = tb"
| "restore_loop ok i ((nr, orig) # es) tb =
     restore_loop ok (i + 1) es (if ok i then tb[unat nr := orig] else tb)"

definition ksu_syscall_hook_exit :: "nat \<Rightarrow> (nat \<Rightarrow> bool) \<Rightarrow> ('f, 'h) syscall_hooks \<Rightarrow> ('f, 'h) syscall_hooks" where
  "ksu_syscall_hook_exit N ok s =
     (let s1 = (case sh_table s of
                  None \<Rightarrow> s
                | Some tb \<Rightarrow> s\<lparr>sh_table := Some (restore_loop ok 0 (sh_entries s) tb), sh_entries := []\<rparr>)
      in s1\<lparr>sh_hooks := no_hooks N, sh_dispatcher_nr := NO_DISPATCHER\<rparr>)"

end
