(* ===== verification/Sucompat.thy ===== *)
theory Sucompat
  imports Escape Sulog User_Mem Syscall_Hook Rc_Inject
begin

text \<open>
  Running \<^verbatim>\<open>su\<close> (\<^verbatim>\<open>kernel/feature/sucompat.c\<close>): for an allowed uid, a file test or a stat of
  \<^verbatim>\<open>/system/bin/su\<close> is answered for the module's daemon, and an execution of it becomes an
  execution of the daemon with root credentials. The handlers edit the registers of the system
  call, write a path below the user stack pointer, and call the original functions of the
  system-call table, which are a parameter that may change the whole state.
\<close>

section \<open>State\<close>

text \<open>
  \<open>ss_tmp_fds\<close> lists the descriptors of the daemon's file; \<open>ss_override\<close> tells whether the
  task runs under the module's own credential; \<open>ss_world\<close> is what else the system calls act on.
\<close>

record 'w sys_state =
  ss_regs :: pt_regs
  ss_mem :: umem
  ss_tmp_fds :: "nat list"
  ss_override :: bool
  ss_allow :: allowlist
  ss_kernel :: kernel
  ss_log :: sulog
  ss_world :: 'w

text \<open>
  The surroundings of one call of thread \<open>sy_pid\<close>: \<open>sy_call\<close> is the system-call table,
  \<open>sy_kern_path\<close> the path lookup under the module's credential, \<open>sy_fd\<close> and \<open>sy_open\<close> the
  answers of \<^verbatim>\<open>get_unused_fd_flags\<close> and \<^verbatim>\<open>filp_open\<close>.
\<close>

record 'w sys_env =
  sy_ksu :: ksu_env
  sy_appid :: u32
  sy_lsm :: lsm
  sy_sids :: sid_cache
  sy_escape :: escape_env
  sy_flags :: ksu_flags
  sy_capture :: capture_env
  sy_event_alloc :: bool
  sy_now :: u64
  sy_untag :: "u64 \<Rightarrow> u64"
  sy_kern_path :: "bytes \<Rightarrow> errno + unit"
  sy_fd :: "errno + nat"
  sy_open :: "errno + unit"
  sy_call :: "s32 \<Rightarrow> 'w sys_state \<Rightarrow> int \<times> 'w sys_state"
  sy_execveat :: s32
  sy_pid :: nat

definition SU_PATH :: bytes where
  "SU_PATH = lit ''/system/bin/su''"

text \<open>\<open>su_path\<close> is the array with its NUL; the buffers have one byte more.\<close>

definition su_path :: bytes where
  "su_path = SU_PATH @ [0]"

section \<open>Paths below the stack pointer\<close>

text \<open>The address is null when the copy fails; what was copied stays.\<close>

definition userspace_stack_buffer :: "bytes \<Rightarrow> 'w sys_state \<Rightarrow> u64 \<times> 'w sys_state" where
  "userspace_stack_buffer d s =
     (let p = pr_sp (ss_regs s) - of_nat (length d);
          (left, m) = copy_to_user (unat p) d (ss_mem s)
      in (if left \<noteq> 0 then 0 else p, s\<lparr>ss_mem := m\<rparr>))"

definition ksud_user_path :: "'w sys_state \<Rightarrow> u64 \<times> 'w sys_state" where
  "ksud_user_path = userspace_stack_buffer (KSUD_PATH @ [0])"

definition empty_user_path :: "'w sys_state \<Rightarrow> u64 \<times> 'w sys_state" where
  "empty_user_path = userspace_stack_buffer [0]"

definition is_ksud_exists :: "'w sys_env \<Rightarrow> bool" where
  "is_ksud_exists V = (case sy_kern_path V KSUD_PATH of Inl _ \<Rightarrow> False | Inr _ \<Rightarrow> True)"

section \<open>File tests\<close>

definition current_allowed :: "'w sys_env \<Rightarrow> thread \<Rightarrow> 'w sys_state \<Rightarrow> bool" where
  "current_allowed V t s =
     ksu_is_allow_uid_for_current (sy_ksu V) (sy_appid V)
       (is_task_ksu_domain (sy_lsm V) (sy_sids V) (cr_security (th_cred t))) (cr_uid (th_cred t)) (ss_allow s)"

definition set_parm2 :: "u64 \<Rightarrow> 'w sys_state \<Rightarrow> 'w sys_state" where
  "set_parm2 p s = s\<lparr>ss_regs := (ss_regs s)\<lparr>pr_parm2 := p\<rparr>\<rparr>"

text \<open>The body both file tests have after the permission check.\<close>

definition redirect_su :: "'w sys_env \<Rightarrow> s32 \<Rightarrow> 'w sys_state \<Rightarrow> int \<times> 'w sys_state" where
  "redirect_su V orig_nr s =
     (let filename = pr_parm2 (ss_regs s);
          path = snd (strncpy_from_user_nofault (replicate 16 0) (unat filename) 16 (ss_mem s))
      in if take 15 path = su_path then
           let s1 = s\<lparr>ss_override := True\<rparr> in
           if is_ksud_exists V then
             let (p, s2) = ksud_user_path s1;
                 (ret, s3) = sy_call V orig_nr (set_parm2 p s2);
                 s4 = s3\<lparr>ss_override := False\<rparr>
             in (ret, set_parm2 filename s4)
           else sy_call V orig_nr (s1\<lparr>ss_override := False\<rparr>)
         else sy_call V orig_nr s)"

definition ksu_handle_faccessat_sucompat :: "'w sys_env \<Rightarrow> s32 \<Rightarrow> 'w sys_state \<Rightarrow> (int \<times> 'w sys_state) option" where
  "ksu_handle_faccessat_sucompat V orig_nr s =
     (case find_thread (sy_pid V) (ss_kernel s) of
        None \<Rightarrow> None
      | Some t \<Rightarrow>
          if \<not> current_allowed V t s then Some (sy_call V orig_nr s)
          else Some (redirect_su V orig_nr s))"

definition ksu_handle_stat_sucompat :: "'w sys_env \<Rightarrow> s32 \<Rightarrow> 'w sys_state \<Rightarrow> (int \<times> 'w sys_state) option" where
  "ksu_handle_stat_sucompat V orig_nr s =
     (case find_thread (sy_pid V) (ss_kernel s) of
        None \<Rightarrow> None
      | Some t \<Rightarrow>
          if \<not> current_allowed V t s then Some (sy_call V orig_nr s)
          else Some (redirect_su V orig_nr s))"

section \<open>Execution\<close>

text \<open>
  How the log sees a path and an argument vector in user memory: a chunk of a string, and the
  pointers up to the null pointer or the first that faults.
\<close>

definition user_chunk :: "nat \<Rightarrow> nat \<Rightarrow> umem \<Rightarrow> bytes option" where
  "user_chunk n a m = map_option fst (user_string n a m)"

definition get_ptr :: "nat \<Rightarrow> umem \<Rightarrow> u64 option" where
  "get_ptr a m = map_option (\<lambda>bs. of_nat (le_dec bs)) (copy_from_user a 8 m)"

fun arg_ptrs :: "nat \<Rightarrow> u64 \<Rightarrow> umem \<Rightarrow> arg_ptr list" where
  "arg_ptrs n argv m =
     (if n = 0 then []
      else case get_ptr (unat argv) m of
          None \<Rightarrow> [ArgFault]
        | Some p \<Rightarrow> if p = 0 then [] else Arg (user_chunk 256 (unat p) m) # arg_ptrs (n - 1) (argv + 8) m)"

declare arg_ptrs.simps [simp del]

definition log_filename :: "'w sys_env \<Rightarrow> u64 \<Rightarrow> umem \<Rightarrow> bytes option option" where
  "log_filename V p m = (if p = 0 then None else Some (user_chunk 256 (unat (sy_untag V p)) m))"

definition log_argv :: "u64 \<Rightarrow> umem \<Rightarrow> arg_ptr list option" where
  "log_argv argv m = (if argv = 0 then None else Some (arg_ptrs KSU_SULOG_MAX_ARG_STRINGS argv m))"

definition AT_EMPTY_PATH :: u64 where "AT_EMPTY_PATH = 0x1000"

text \<open>Turning the registers of \<^verbatim>\<open>execve\<close> into those of \<^verbatim>\<open>execveat\<close>, and back.\<close>

definition execveat_regs :: "nat \<Rightarrow> u64 \<Rightarrow> pt_regs \<Rightarrow> pt_regs" where
  "execveat_regs fd nopath r =
     r\<lparr>pr_parm1 := of_nat fd, pr_parm2 := nopath, pr_parm3 := pr_parm2 r, pr_parm4 := pr_parm3 r,
       pr_parm5 := AT_EMPTY_PATH\<rparr>"

definition restore_regs :: "pt_regs \<Rightarrow> pt_regs \<Rightarrow> pt_regs" where
  "restore_regs orig r =
     r\<lparr>pr_parm1 := pr_parm1 orig, pr_parm2 := pr_parm2 orig, pr_parm3 := pr_parm3 orig,
       pr_parm4 := pr_parm4 orig, pr_parm5 := pr_parm5 orig\<rparr>"

text \<open>What follows the installation of the daemon's file under \<open>fd\<close>.\<close>

definition exec_ksud :: "'w sys_env \<Rightarrow> nat \<Rightarrow> u64 \<Rightarrow> 'w sys_state \<Rightarrow> (int \<times> 'w sys_state) option" where
  "exec_ksud V fd filename s =
     (let orig = ss_regs s;
          (pending, log1) = ksu_sulog_capture_sucompat (sy_capture V) (ksu_sulog_enabled (sy_flags V))
             (log_filename V filename (ss_mem s)) (log_argv (pr_parm2 orig) (ss_mem s)) (ss_log s);
          (nopath, s1) = empty_user_path (s\<lparr>ss_log := log1\<rparr>);
          s2 = s1\<lparr>ss_regs := execveat_regs fd nopath orig\<rparr>
      in case escape_with_root_profile (sy_ksu V) (sy_appid V) (sy_lsm V) (sy_escape V) (sy_pid V)
               (ss_allow s2, ss_kernel s2) of
           None \<Rightarrow> None
         | Some (res, al, k) \<Rightarrow>
             let esc = (case res of Inl e \<Rightarrow> neg_errno e | Inr _ \<Rightarrow> 0);
                 log2 = ksu_sulog_emit_pending (sy_event_alloc V) (sy_now V) pending (word_of_int esc) (ss_log s2);
                 (ret, s3) = sy_call V (sy_execveat V) (s2\<lparr>ss_allow := al, ss_kernel := k, ss_log := log2\<rparr>)
             in if ret < 0
                then Some (ret, s3\<lparr>ss_tmp_fds := filter (\<lambda>n. n \<noteq> fd) (ss_tmp_fds s3),
                                  ss_regs := restore_regs orig (ss_regs s3)\<rparr>)
                else Some (ret, s3))"

text \<open>\<open>filename_user\<close> is the address of the register, null or not.\<close>

definition ksu_handle_execve_sucompat ::
    "'w sys_env \<Rightarrow> bool \<Rightarrow> s32 \<Rightarrow> 'w sys_state \<Rightarrow> (int \<times> 'w sys_state) option" where
  "ksu_handle_execve_sucompat V filename_user orig_nr s =
     (case find_thread (sy_pid V) (ss_kernel s) of
        None \<Rightarrow> None
      | Some t \<Rightarrow>
          if \<not> filename_user then Some (sy_call V orig_nr s)
          else if \<not> current_allowed V t s then Some (sy_call V orig_nr s)
          else
            let filename = pr_parm1 (ss_regs s);
                (ret, path) = strncpy_from_user (replicate 16 0) (unat (sy_untag V filename)) 16 (ss_mem s)
            in if ret < 0 then Some (sy_call V orig_nr s)
               else if take 15 path \<noteq> su_path then Some (sy_call V orig_nr s)
               else case sy_fd V of
                   Inl _ \<Rightarrow> Some (sy_call V orig_nr s)
                 | Inr fd \<Rightarrow>
                     (case sy_open V of
                        Inl _ \<Rightarrow> Some (sy_call V orig_nr s)
                      | Inr _ \<Rightarrow> exec_ksud V fd filename (s\<lparr>ss_tmp_fds := ss_tmp_fds s @ [fd]\<rparr>)))"

definition ksu_sucompat_init :: "ksu_flags registry \<Rightarrow> ksu_flags registry" where
  "ksu_sucompat_init R = snd (ksu_register_feature_handler (Some su_compat_handler) R)"

definition ksu_sucompat_exit :: "ksu_flags registry \<Rightarrow> ksu_flags registry" where
  "ksu_sucompat_exit R = snd (ksu_unregister_feature_handler KSU_FEATURE_SU_COMPAT R)"

section \<open>Lemmas\<close>

text \<open>The user string at an address is the path of \<^verbatim>\<open>su\<close>.\<close>

definition names_su :: "umem \<Rightarrow> nat \<Rightarrow> bool" where
  "names_su m a \<longleftrightarrow> user_string 16 a m = Some (SU_PATH, True)"

lemma su_path_facts: "length SU_PATH = 14" "0 \<notin> set SU_PATH"
  by (simp_all add: SU_PATH_def lit_def)

lemma take_su_path:
  assumes "0 \<notin> set s"
  shows "take 15 (s @ 0 # r) = su_path \<longleftrightarrow> s = SU_PATH"
proof
  assume eq: "take 15 (s @ 0 # r) = su_path"
  have "c_str (take 15 (s @ 0 # r)) = take 15 s"
  proof (cases "15 \<le> length s")
    case True
    then have "take 15 (s @ 0 # r) = take 15 s" by simp
    moreover have "\<forall>b\<in>set (take 15 s). b \<noteq> 0" using assms in_set_takeD [of 0 15 s] by auto
    ultimately show ?thesis by (simp add: c_str_def takeWhile_eq_all_conv)
  next
    case False
    then have "take 15 (s @ 0 # r) = s @ 0 # take (14 - length s) r" by (simp add: take_Cons')
    then show ?thesis using False assms by (simp add: c_str_append_nul)
  qed
  moreover have "c_str su_path = SU_PATH"
    using su_path_facts(2) by (simp add: su_path_def c_str_append_nul)
  ultimately have t: "take 15 s = SU_PATH" using eq by simp
  have "length (take 15 s) = 14" unfolding t by (rule su_path_facts(1))
  then have "length s = 14" by (simp split: if_splits)
  with t show "s = SU_PATH" by simp
qed (simp add: su_path_def su_path_facts)

lemma take_no_su_path:
  assumes "0 \<notin> set s" "15 \<le> length s"
  shows "take 15 (s @ r) \<noteq> su_path"
proof
  assume "take 15 (s @ r) = su_path"
  then have "take 15 s = su_path" using assms(2) by simp
  moreover have "0 \<in> set su_path" by (simp add: su_path_def)
  ultimately show False using assms(1) in_set_takeD by metis
qed

lemma reads_su_nofault:
  "take 15 (snd (strncpy_from_user_nofault (replicate 16 0) a 16 m)) = su_path \<longleftrightarrow> names_su m a"
proof (cases "user_string 16 a m")
  case None
  have "su_path ! 0 = 0x2F" by (simp add: su_path_def SU_PATH_def lit_def)
  moreover have "replicate 15 (0 :: u8) ! 0 = 0" by (rule nth_replicate) simp
  ultimately have "replicate 15 0 \<noteq> su_path" by (intro notI) simp
  then have "take 15 (replicate 16 0) \<noteq> su_path" by simp
  then show ?thesis
    using None by (simp add: strncpy_from_user_nofault_def strncpy_from_user_def names_su_def neg_errno_def)
next
  case (Some p)
  obtain s z where p: "p = (s, z)" by (cases p)
  note l = user_string_length [OF Some [unfolded p]] and n = user_string_no_nul [OF Some [unfolded p]]
  show ?thesis
  proof (cases z)
    case True
    then show ?thesis
      using l Some p take_su_path [OF n]
      by (simp add: strncpy_from_user_nofault_def strncpy_from_user_def names_su_def)
  next
    case False
    then have len: "length s = 16" using user_string_full Some p by simp
    have "take 15 (s[15 := 0]) = take 15 s" by simp
    moreover have "take 15 s \<noteq> su_path" using take_no_su_path [OF n, of "[]"] len by simp
    ultimately show ?thesis
      using Some p False len
      by (simp add: strncpy_from_user_nofault_def strncpy_from_user_def names_su_def)
  qed
qed

lemma reads_su:
  "(case strncpy_from_user (replicate 16 0) a 16 m of (ret, path) \<Rightarrow> 0 \<le> ret \<and> take 15 path = su_path) \<longleftrightarrow> names_su m a"
proof (cases "user_string 16 a m")
  case (Some p)
  obtain s z where p: "p = (s, z)" by (cases p)
  note l = user_string_length [OF Some [unfolded p]] and n = user_string_no_nul [OF Some [unfolded p]]
  show ?thesis
  proof (cases z)
    case True
    then show ?thesis
      using l Some p take_su_path [OF n] by (simp add: strncpy_from_user_def names_su_def)
  next
    case False
    then have "length s = 16" using user_string_full Some p by simp
    then show ?thesis
      using Some p False take_no_su_path [OF n, of "[]"] by (simp add: strncpy_from_user_def names_su_def)
  qed
qed (simp add: strncpy_from_user_def names_su_def)

lemma ksud_path_facts: "length KSUD_PATH = 14" "0 \<notin> set KSUD_PATH"
  by (simp_all add: KSUD_PATH_def lit_def)

text \<open>The outcome of the execution hook, in terms of what the user asked for.\<close>

definition takes_over :: "'w sys_env \<Rightarrow> thread \<Rightarrow> 'w sys_state \<Rightarrow> bool" where
  "takes_over V t s \<longleftrightarrow> current_allowed V t s \<and> names_su (ss_mem s) (unat (sy_untag V (pr_parm1 (ss_regs s)))) \<and>
     (\<exists>fd. sy_fd V = Inr fd) \<and> sy_open V = Inr ()"

lemma execve_cases:
  assumes "find_thread (sy_pid V) (ss_kernel s) = Some t"
  shows "ksu_handle_execve_sucompat V True nr s =
     (if takes_over V t s
      then exec_ksud V (projr (sy_fd V)) (pr_parm1 (ss_regs s)) (s\<lparr>ss_tmp_fds := ss_tmp_fds s @ [projr (sy_fd V)]\<rparr>)
      else Some (sy_call V nr s))"
proof -
  obtain ret path where r: "strncpy_from_user (replicate 16 0) (unat (sy_untag V (pr_parm1 (ss_regs s)))) 16 (ss_mem s)
      = (ret, path)" by (cases "strncpy_from_user (replicate 16 0) (unat (sy_untag V (pr_parm1 (ss_regs s)))) 16 (ss_mem s)")
  have "0 \<le> ret \<and> take 15 path = su_path \<longleftrightarrow> names_su (ss_mem s) (unat (sy_untag V (pr_parm1 (ss_regs s))))"
    using reads_su [of "unat (sy_untag V (pr_parm1 (ss_regs s)))" "ss_mem s"] by (simp add: r)
  then show ?thesis
    using assms by (auto simp: ksu_handle_execve_sucompat_def r takes_over_def split: sum.split)
qed

text \<open>The two file tests share one contract.\<close>

lemma redirect_cases:
  "redirect_su V nr s =
     (if \<not> names_su (ss_mem s) (unat (pr_parm2 (ss_regs s))) then sy_call V nr s
      else if \<not> is_ksud_exists V then sy_call V nr (s\<lparr>ss_override := False\<rparr>)
      else case ksud_user_path (s\<lparr>ss_override := True\<rparr>) of (p, s2) \<Rightarrow>
        case sy_call V nr (set_parm2 p s2) of (ret, s3) \<Rightarrow>
          (ret, set_parm2 (pr_parm2 (ss_regs s)) (s3\<lparr>ss_override := False\<rparr>)))"
  by (simp add: redirect_su_def reads_su_nofault Let_def split: prod.split)

lemma stack_buffer_ok:
  assumes "is_mapped (ss_mem s) (unat (pr_sp (ss_regs s) - of_nat (length d))) (length d)"
  shows "userspace_stack_buffer d s =
     (pr_sp (ss_regs s) - of_nat (length d),
      s\<lparr>ss_mem := write_bytes (unat (pr_sp (ss_regs s) - of_nat (length d))) d (ss_mem s)\<rparr>)"
  using assms by (simp add: userspace_stack_buffer_def Let_def)

section \<open>Properties\<close>

text \<open>
  Only allowed uids are redirected, and only for the path of \<^verbatim>\<open>su\<close>: when the caller is not
  allowed, or the path it passes is another, or cannot be read, each of the three hooked calls
  is the original system call on the unchanged state.
\<close>

theorem su_redirection_guarded:
  assumes "find_thread (sy_pid V) (ss_kernel s) = Some t"
  shows "(\<not> current_allowed V t s \<or> \<not> names_su (ss_mem s) (unat (pr_parm2 (ss_regs s))) \<longrightarrow>
      ksu_handle_faccessat_sucompat V nr s = Some (sy_call V nr s) \<and>
      ksu_handle_stat_sucompat V nr s = Some (sy_call V nr s)) \<and>
    (\<not> current_allowed V t s \<or> \<not> names_su (ss_mem s) (unat (sy_untag V (pr_parm1 (ss_regs s)))) \<longrightarrow>
      ksu_handle_execve_sucompat V f nr s = Some (sy_call V nr s))"
proof -
  have "ksu_handle_execve_sucompat V f nr s = Some (sy_call V nr s)"
    if "\<not> current_allowed V t s \<or> \<not> names_su (ss_mem s) (unat (sy_untag V (pr_parm1 (ss_regs s))))"
  proof (cases f)
    case True
    then show ?thesis using that by (auto simp: execve_cases [OF assms] takes_over_def)
  qed (simp add: ksu_handle_execve_sucompat_def assms)
  then show ?thesis
    using assms by (auto simp: ksu_handle_faccessat_sucompat_def ksu_handle_stat_sucompat_def redirect_cases)
qed

text \<open>
  A stat (or a file test) of \<^verbatim>\<open>su\<close> by an allowed uid is answered for the daemon: the original
  call sees the path of the daemon, written below the user stack pointer, and otherwise the
  registers and the memory of the caller; it runs under the module's credential; afterwards the
  credential and the path register are the caller's again.
\<close>

theorem stat_su_redirected:
  fixes s :: "'w sys_state"
  assumes "find_thread (sy_pid V) (ss_kernel s) = Some t" "current_allowed V t s"
    "names_su (ss_mem s) (unat (pr_parm2 (ss_regs s)))" "is_ksud_exists V"
    "15 \<le> pr_sp (ss_regs s)" "is_mapped (ss_mem s) (unat (pr_sp (ss_regs s)) - 15) 15"
    "(ret, s2) = sy_call V nr s1"
    "s1 = s\<lparr>ss_regs := (ss_regs s)\<lparr>pr_parm2 := pr_sp (ss_regs s) - 15\<rparr>, ss_override := True,
            ss_mem := write_bytes (unat (pr_sp (ss_regs s)) - 15) (KSUD_PATH @ [0]) (ss_mem s)\<rparr>"
  shows "ksu_handle_stat_sucompat V nr s =
      Some (ret, s2\<lparr>ss_override := False, ss_regs := (ss_regs s2)\<lparr>pr_parm2 := pr_parm2 (ss_regs s)\<rparr>\<rparr>) \<and>
    ksu_handle_faccessat_sucompat V nr s = ksu_handle_stat_sucompat V nr s \<and>
    user_string 4096 (unat (pr_parm2 (ss_regs s1))) (ss_mem s1) = Some (KSUD_PATH, True)"
proof (intro conjI)
  have a: "unat (pr_sp (ss_regs s) - 15) = unat (pr_sp (ss_regs s)) - 15"
    using assms(5) by (simp add: unat_sub)
  have "ksud_user_path (s\<lparr>ss_override := True\<rparr>) = (pr_sp (ss_regs s) - 15, s\<lparr>ss_override := True,
      ss_mem := write_bytes (unat (pr_sp (ss_regs s)) - 15) (KSUD_PATH @ [0]) (ss_mem s)\<rparr>)"
    using assms(6) stack_buffer_ok [of "s\<lparr>ss_override := True\<rparr>" "KSUD_PATH @ [0]"] ksud_path_facts(1)
    by (simp add: ksud_user_path_def a)
  moreover have "set_parm2 (pr_sp (ss_regs s) - 15) (s\<lparr>ss_override := True,
      ss_mem := write_bytes (unat (pr_sp (ss_regs s)) - 15) (KSUD_PATH @ [0]) (ss_mem s)\<rparr>) = s1"
    using assms(8) by (simp add: set_parm2_def)
  ultimately have "redirect_su V nr s = (ret, set_parm2 (pr_parm2 (ss_regs s)) (s2\<lparr>ss_override := False\<rparr>))"
    using assms(3,4) by (simp add: redirect_cases assms(7) [symmetric])
  then show "ksu_handle_stat_sucompat V nr s =
      Some (ret, s2\<lparr>ss_override := False, ss_regs := (ss_regs s2)\<lparr>pr_parm2 := pr_parm2 (ss_regs s)\<rparr>\<rparr>)"
    using assms(1,2) by (simp add: ksu_handle_stat_sucompat_def set_parm2_def)
  show "ksu_handle_faccessat_sucompat V nr s = ksu_handle_stat_sucompat V nr s"
    by (simp add: ksu_handle_faccessat_sucompat_def ksu_handle_stat_sucompat_def)
  show "user_string 4096 (unat (pr_parm2 (ss_regs s1))) (ss_mem s1) = Some (KSUD_PATH, True)"
    using user_string_stored [OF ksud_path_facts(2), of 4096 "unat (pr_sp (ss_regs s)) - 15" "ss_mem s"] a assms(8)
      ksud_path_facts(1)
    by simp
qed

text \<open>
  C24: An execution of \<^verbatim>\<open>su\<close> by an allowed uid becomes an execution of the daemon's file with root
  credentials: the call that runs is \<^verbatim>\<open>execveat\<close> on the new descriptor with an empty path and the
  caller's argument and environment vectors, in a task that already has the root profile of its
  uid. When that call fails, the descriptor is closed and the five argument registers are the
  caller's again.
\<close>

theorem execve_su_runs_ksud:
  assumes "find_thread (sy_pid V) (ss_kernel s) = Some t" "takes_over V t s" "sy_fd V = Inr fd"
    and "al_reach (sy_ksu V) (h, ss_allow s)"
    and "cr_euid (th_cred t) \<noteq> 0" "\<not> th_no_escape t" "ee_prepare (sy_escape V)" "ee_alloc_uid (sy_escape V)"
      "ee_ucounts (sy_escape V) \<noteq> Some False" "ee_fake (sy_escape V)"
    and "1 \<le> pr_sp (ss_regs s)" "ss_mem s (unat (pr_sp (ss_regs s)) - 1) \<noteq> None"
    and "p = root_spec (sy_ksu V) (sy_appid V) (cr_uid (th_cred t)) (ss_allow s)"
  shows "\<exists>s1 ret s2. sy_call V (sy_execveat V) s1 = (ret, s2) \<and>
    ksu_handle_execve_sucompat V True nr s = Some (ret,
      if ret < 0 then s2\<lparr>ss_tmp_fds := filter (\<lambda>n. n \<noteq> fd) (ss_tmp_fds s2), ss_regs := restore_regs (ss_regs s) (ss_regs s2)\<rparr>
      else s2) \<and>
    ss_regs s1 = (ss_regs s)\<lparr>pr_parm1 := of_nat fd, pr_parm2 := pr_sp (ss_regs s) - 1, pr_parm3 := pr_parm2 (ss_regs s),
      pr_parm4 := pr_parm3 (ss_regs s), pr_parm5 := AT_EMPTY_PATH\<rparr> \<and>
    user_string 4096 (unat (pr_parm2 (ss_regs s1))) (ss_mem s1) = Some ([], True) \<and>
    ss_tmp_fds s1 = ss_tmp_fds s @ [fd] \<and>
    find_thread (sy_pid V) (ss_kernel s1) = Some (escaped (sy_lsm V) (sy_escape V) p t) \<and>
    al_reach (sy_ksu V) (h, ss_allow s1) \<and>
    al_profile (sy_ksu V) (ss_allow s1) = al_profile (sy_ksu V) (ss_allow s)"
proof -
  obtain al' k' where esc: "escape_with_root_profile (sy_ksu V) (sy_appid V) (sy_lsm V) (sy_escape V) (sy_pid V)
      (ss_allow s, ss_kernel s) = Some (Inr (), al', k')"
    and al': "al_reach (sy_ksu V) (h, al')" "al_profile (sy_ksu V) al' = al_profile (sy_ksu V) (ss_allow s)"
    and k': "find_thread (sy_pid V) k' = Some (escaped (sy_lsm V) (sy_escape V) p t)"
    by (rule escape_granted [OF assms(4,1,5-10,13), where L = "sy_lsm V"])
  obtain pending log1 where cap: "ksu_sulog_capture_sucompat (sy_capture V) (ksu_sulog_enabled (sy_flags V))
      (log_filename V (pr_parm1 (ss_regs s)) (ss_mem s)) (log_argv (pr_parm2 (ss_regs s)) (ss_mem s)) (ss_log s) = (pending, log1)"
    by (metis prod.exhaust)
  define s0 where "s0 = s\<lparr>ss_tmp_fds := ss_tmp_fds s @ [fd], ss_log := log1\<rparr>"
  define m where "m = write_bytes (unat (pr_sp (ss_regs s)) - 1) [0] (ss_mem s)"
  define s1 where "s1 = s0\<lparr>ss_mem := m, ss_regs := execveat_regs fd (pr_sp (ss_regs s) - 1) (ss_regs s), ss_allow := al',
     ss_kernel := k', ss_log := ksu_sulog_emit_pending (sy_event_alloc V) (sy_now V) pending 0 log1\<rparr>"
  have a: "unat (pr_sp (ss_regs s) - 1) = unat (pr_sp (ss_regs s)) - 1"
    using assms(11) by (simp add: unat_sub)
  have stack: "empty_user_path s0 = (pr_sp (ss_regs s) - 1, s0\<lparr>ss_mem := m\<rparr>)"
    using assms(12) stack_buffer_ok [of s0 "[0]"] by (simp add: empty_user_path_def s0_def m_def a is_mapped_iff)
  obtain ret s2 where call: "sy_call V (sy_execveat V) s1 = (ret, s2)" by fastforce
  have "exec_ksud V fd (pr_parm1 (ss_regs s)) (s\<lparr>ss_tmp_fds := ss_tmp_fds s @ [fd]\<rparr>) = Some (ret,
      if ret < 0 then s2\<lparr>ss_tmp_fds := filter (\<lambda>n. n \<noteq> fd) (ss_tmp_fds s2), ss_regs := restore_regs (ss_regs s) (ss_regs s2)\<rparr>
      else s2)"
    using cap stack esc call by (simp add: exec_ksud_def Let_def s0_def s1_def)
  moreover have "user_string 4096 (unat (pr_sp (ss_regs s) - 1)) m = Some ([], True)"
    using user_string_stored [of "[]" 4096 "unat (pr_sp (ss_regs s)) - 1" "ss_mem s"] by (simp add: a m_def)
  ultimately show ?thesis
    using execve_cases [OF assms(1), of nr] assms(2,3) call k' al'
    by (intro exI [of _ s1] exI [of _ ret] exI [of _ s2]) (simp add: s1_def s0_def execveat_regs_def)
qed

section \<open>An example\<close>

definition ex_user_regs :: "u64 \<Rightarrow> u64 \<Rightarrow> pt_regs" where
  "ex_user_regs a b = \<lparr>pr_parm1 = a, pr_parm2 = b, pr_parm3 = 300, pr_parm4 = 400, pr_parm5 = 500, pr_sp = 4096,
     pr_syscallno = 0, pr_x8 = 0, pr_orig_ax = 0, pr_ax = 0\<rparr>"

text \<open>
  Uid 10001 is allowed; its memory is all zero but for the path of \<^verbatim>\<open>su\<close> at 100, and its system
  calls answer 0, or an error when they come to \<^verbatim>\<open>execveat\<close>.
\<close>

definition ex_su_env :: "unit sys_env" where
  "ex_su_env = \<lparr>sy_ksu = ex_env, sy_appid = 0xFFFFFFFF, sy_lsm = ex_lsm, sy_sids = no_cache, sy_escape = ex_escape,
     sy_flags = flags_at_load, sy_capture = ex_capture, sy_event_alloc = True, sy_now = 0, sy_untag = (\<lambda>p. p),
     sy_kern_path = (\<lambda>_. Inr ()), sy_fd = Inr 5, sy_open = Inr (),
     sy_call = (\<lambda>nr s. (if nr = 281 then - 2 else 0, s)), sy_execveat = 281, sy_pid = 100\<rparr>"

definition ex_su_state :: "unit sys_state" where
  "ex_su_state = \<lparr>ss_regs = (ex_user_regs 100 100), ss_mem = write_bytes 100 su_path (\<lambda>_. Some 0), ss_tmp_fds = [],
     ss_override = False, ss_allow = ex_list 10001 True, ss_kernel = ex_kernel, ss_log = ex_log, ss_world = ()\<rparr>"

lemma ex_su_facts:
  "find_thread (sy_pid ex_su_env) (ss_kernel ex_su_state) = Some (ex_thread 100 10001)"
  "current_allowed ex_su_env (ex_thread 100 10001) ex_su_state"
  "names_su (ss_mem ex_su_state) 100" "\<not> names_su (ss_mem ex_su_state) 300"
proof -
  have "inv_chains ex_env (ex_list 10001 True)" using ex_list_inv by (simp add: al_inv_def)
  from is_allow_uid_iff [OF this, of "0xFFFFFFFF" 10001]
  show "current_allowed ex_su_env (ex_thread 100 10001) ex_su_state"
    by (simp add: current_allowed_def ksu_is_allow_uid_for_current_def ex_su_env_def ex_su_state_def ex_thread_def
        ex_cred_def ex_list_profile forbid_system_uid_def)
  show "names_su (ss_mem ex_su_state) 100"
    using user_string_stored [OF su_path_facts(2), of 16 100] su_path_facts(1)
    by (simp add: names_su_def ex_su_state_def su_path_def)
  have "ss_mem ex_su_state 300 = Some 0"
    by (simp add: ex_su_state_def write_bytes_def su_path_def su_path_facts)
  then have "user_string 16 300 (ss_mem ex_su_state) = Some ([], True)" by (simp add: numeral_eq_Suc)
  moreover have "SU_PATH \<noteq> []" using su_path_facts(1) by auto
  ultimately show "\<not> names_su (ss_mem ex_su_state) 300" by (auto simp: names_su_def)
qed (simp_all add: ex_su_env_def ex_su_state_def ex_find)

theorem su_redirection_guarded_witness:
  "ksu_handle_stat_sucompat ex_su_env 79 (ex_su_state\<lparr>ss_regs := ex_user_regs 100 300\<rparr>) =
     Some (0, ex_su_state\<lparr>ss_regs := ex_user_regs 100 300\<rparr>)"
  using su_redirection_guarded [of ex_su_env "ex_su_state\<lparr>ss_regs := ex_user_regs 100 300\<rparr>" "ex_thread 100 10001" 79 True]
    ex_su_facts
  by (simp add: ex_user_regs_def) (simp add: ex_su_env_def)

theorem stat_su_redirected_witness:
  "\<exists>s2. ksu_handle_stat_sucompat ex_su_env 79 ex_su_state = Some (0, s2) \<and> ss_regs s2 = ss_regs ex_su_state \<and>
     \<not> ss_override s2"
proof -
  have m: "is_mapped (ss_mem ex_su_state) 4081 15"
    by (simp add: is_mapped_iff ex_su_state_def write_bytes_def)
  have k: "is_ksud_exists ex_su_env" by (simp add: is_ksud_exists_def ex_su_env_def)
  show ?thesis
    using stat_su_redirected [OF ex_su_facts(1,2) _ k _ _ _ refl, where nr = 79] ex_su_facts(3) m
    by (simp add: ex_su_env_def ex_su_state_def ex_user_regs_def)
qed

theorem execve_su_runs_ksud_witness:
  "\<exists>s2. ksu_handle_execve_sucompat ex_su_env True 221 ex_su_state = Some (- 2, s2) \<and> ss_regs s2 = ss_regs ex_su_state \<and>
     ss_tmp_fds s2 = []"
proof -
  have t: "takes_over ex_su_env (ex_thread 100 10001) ex_su_state"
    using ex_su_facts(2,3) by (simp add: takes_over_def) (simp add: ex_su_env_def ex_su_state_def ex_user_regs_def)
  have m: "ss_mem ex_su_state (unat (pr_sp (ss_regs ex_su_state)) - 1) \<noteq> None" "1 \<le> pr_sp (ss_regs ex_su_state)"
    by (auto simp: ex_su_state_def ex_user_regs_def write_bytes_def)
  have fd: "sy_fd ex_su_env = Inr 5" and sp: "sy_execveat ex_su_env = 281"
    and call: "sy_call ex_su_env 281 s1 = (- 2, s1)" for s1
    by (simp_all add: ex_su_env_def)
  have r: "al_reach (sy_ksu ex_su_env) (\<lambda>_. 0, ss_allow ex_su_state)"
    using ex_list_reach [of 10001 True] by (simp add: ex_su_env_def ex_su_state_def)
  have e: "sy_escape ex_su_env = ex_escape" by (simp add: ex_su_env_def)
  have "\<exists>s1 ret s2. sy_call ex_su_env 281 s1 = (ret, s2) \<and>
    ksu_handle_execve_sucompat ex_su_env True 221 ex_su_state = Some (ret,
      if ret < 0 then s2\<lparr>ss_tmp_fds := filter (\<lambda>n. n \<noteq> 5) (ss_tmp_fds s2),
         ss_regs := restore_regs (ss_regs ex_su_state) (ss_regs s2)\<rparr> else s2) \<and>
    ss_regs s1 = (ss_regs ex_su_state)\<lparr>pr_parm1 := of_nat 5, pr_parm2 := pr_sp (ss_regs ex_su_state) - 1,
      pr_parm3 := pr_parm2 (ss_regs ex_su_state), pr_parm4 := pr_parm3 (ss_regs ex_su_state), pr_parm5 := AT_EMPTY_PATH\<rparr> \<and>
    ss_tmp_fds s1 = ss_tmp_fds ex_su_state @ [5]"
  proof -
    note c = execve_su_runs_ksud [OF ex_su_facts(1) t fd r _ _ _ _ _ _ m(2,1) refl, of 221, unfolded sp e]
    have "cr_euid (th_cred (ex_thread 100 10001)) \<noteq> 0" "\<not> th_no_escape (ex_thread 100 10001)" "ee_prepare ex_escape"
      "ee_alloc_uid ex_escape" "ee_ucounts ex_escape \<noteq> Some False" "ee_fake ex_escape"
      by (simp_all add: ex_thread_simps ex_escape_def)
    from c [OF this] show ?thesis by (elim exE conjE) (intro exI conjI)
  qed
  then obtain s1 where run: "ksu_handle_execve_sucompat ex_su_env True 221 ex_su_state = Some (- 2,
      s1\<lparr>ss_tmp_fds := filter (\<lambda>n. n \<noteq> 5) (ss_tmp_fds s1), ss_regs := restore_regs (ss_regs ex_su_state) (ss_regs s1)\<rparr>)"
    and s1: "ss_regs s1 = (ss_regs ex_su_state)\<lparr>pr_parm1 := of_nat 5, pr_parm2 := pr_sp (ss_regs ex_su_state) - 1,
      pr_parm3 := pr_parm2 (ss_regs ex_su_state), pr_parm4 := pr_parm3 (ss_regs ex_su_state), pr_parm5 := AT_EMPTY_PATH\<rparr>"
    "ss_tmp_fds s1 = ss_tmp_fds ex_su_state @ [5]"
    unfolding call by auto
  show ?thesis
    by (intro exI conjI, rule run) (use s1 in \<open>simp_all add: restore_regs_def ex_su_state_def ex_user_regs_def\<close>)
qed

end
