(* ===== verification/Adb_Root.thy ===== *)
theory Adb_Root
  imports Sucompat
begin

text \<open>
  Starting the debug bridge daemon as root (\<^verbatim>\<open>kernel/feature/adb_root.c\<close>): when init executes
  \<^verbatim>\<open>adbd\<close> and the feature is on, two variables that preload a library are put below the user
  stack pointer, the environment vector is copied there with them appended, and the task moves
  to the module's domain. The vector is read in batches of sixteen pointers into a buffer that
  grows by the batch and two spare slots.
\<close>

section \<open>Which executions\<close>

definition kAdbd :: bytes where "kAdbd = lit ''/adbd''"

definition is_exec_adbd :: "'w sys_env \<Rightarrow> 'w sys_state \<Rightarrow> int" where
  "is_exec_adbd V s =
     (let fn = sy_untag V (pr_parm1 (ss_regs s));
          (ret, buf) = strncpy_from_user (replicate 40 0) (unat fn) 40 (ss_mem s)
      in if ret < 0 then ret
         else if nat ret < length kAdbd \<or> 40 \<le> nat ret
              \<or> slice (nat ret - length kAdbd) (length kAdbd + 1) buf \<noteq> kAdbd @ [0] then 0
         else 1)"

definition kLibAdbRoot :: bytes where "kLibAdbRoot = lit ''/data/adb/ksu/lib/libadbroot.so''"

definition is_libadbroot_ok :: "'w sys_env \<Rightarrow> int" where
  "is_libadbroot_ok V =
     (case sy_kern_path V kLibAdbRoot of
        Inl e \<Rightarrow> if e = ENOENT then 0 else neg_errno e
      | Inr _ \<Rightarrow> 1)"

section \<open>The environment vector\<close>

definition kLdPreload :: bytes where "kLdPreload = lit ''LD_PRELOAD=/data/adb/ksu/lib/libadbroot.so'' @ [0]"

definition kLdLibraryPath :: bytes where "kLdLibraryPath = lit ''LD_LIBRARY_PATH=/data/adb/ksu/lib'' @ [0]"

definition align_down8 :: "u64 \<Rightarrow> u64" where "align_down8 x = x AND NOT 7"

text \<open>The whole pointers among the first \<open>got\<close> bytes at \<open>a\<close>.\<close>

definition ptrs_at :: "nat \<Rightarrow> nat \<Rightarrow> umem \<Rightarrow> u64 list" where
  "ptrs_at a got m = map (\<lambda>i. of_nat (le_dec (read_bytes m (a + 8 * i) 8))) [0..<got div 8]"

text \<open>
  The loop. \<open>rounds\<close> is the number of times \<open>krealloc\<close> still succeeds, \<open>acc\<close> the pointers kept
  so far, and the result carries the slots of the buffer. \<open>copy_from_user\<close> reports the bytes it
  left out, so the test for a negative result never holds.
\<close>

primrec read_envp :: "nat \<Rightarrow> u64 \<Rightarrow> umem \<Rightarrow> u64 list \<Rightarrow> errno + u64 list \<times> nat" where
  "read_envp 0 envp m acc = Inl ENOMEM"
| "read_envp (Suc rounds) envp m acc =
     (let a = unat (envp + of_nat (length acc) * 8);
          read_count = mapped_prefix m a (16 * 8);
          ret = 16 * 8 - read_count;
          ptrs = ptrs_at a read_count m;
          fresh = takeWhile (\<lambda>p. p \<noteq> 0) ptrs;
          meet_zero = (length fresh < length ptrs)
      in if \<not> meet_zero \<and> read_count mod 8 \<noteq> 0 then Inl EFAULT
         else if \<not> meet_zero \<and> ret \<noteq> 0 then Inl EFAULT
         else if meet_zero then Inr (acc @ fresh, length acc + 16 + 2)
         else read_envp rounds envp m (acc @ fresh))"

definition le64s :: "u64 list \<Rightarrow> bytes" where
  "le64s ps = concat (map le64 ps)"

definition setup_ld_preload :: "nat \<Rightarrow> 'w sys_env \<Rightarrow> 'w sys_state \<Rightarrow> int \<times> 'w sys_state" where
  "setup_ld_preload rounds V s =
     (let envp = sy_untag V (pr_parm3 (ss_regs s));
          ld_preload_p = align_down8 (pr_sp (ss_regs s) - of_nat (length kLdPreload));
          (ret1, m1) = copy_to_user (unat ld_preload_p) kLdPreload (ss_mem s)
      in if ret1 \<noteq> 0 then (neg_errno EFAULT, s\<lparr>ss_mem := m1\<rparr>)
         else
           let ld_library_path_p = align_down8 (ld_preload_p - of_nat (length kLdLibraryPath));
               (ret2, m2) = copy_to_user (unat ld_library_path_p) kLdLibraryPath m1
           in if ret2 \<noteq> 0 then (neg_errno EFAULT, s\<lparr>ss_mem := m2\<rparr>)
              else case read_envp rounds envp m2 [] of
                  Inl e \<Rightarrow> (neg_errno e, s\<lparr>ss_mem := m2\<rparr>)
                | Inr (env, _) \<Rightarrow>
                    let tmp_env = env @ [ld_preload_p, ld_library_path_p, 0];
                        stackp = ld_library_path_p - of_nat (length tmp_env * 8);
                        (ret3, m3) = copy_to_user (unat stackp) (le64s tmp_env) m2
                    in if ret3 \<noteq> 0 then (neg_errno EFAULT, s\<lparr>ss_mem := m3\<rparr>)
                       else (0, s\<lparr>ss_mem := m3, ss_regs := (ss_regs s)\<lparr>pr_parm3 := stackp\<rparr>\<rparr>))"

section \<open>The hook\<close>

definition adb_task :: "'w sys_env \<Rightarrow> thread \<Rightarrow> thread" where
  "adb_task V t = t\<lparr>th_cred := (th_cred t)\<lparr>cr_security :=
     escape_to_root_for_adb_root (sy_lsm V) (ee_prepare (sy_escape V)) (cr_security (th_cred t))\<rparr>\<rparr>"

definition do_ksu_adb_root_handle_execve :: "nat \<Rightarrow> 'w sys_env \<Rightarrow> 'w sys_state \<Rightarrow> int \<times> 'w sys_state" where
  "do_ksu_adb_root_handle_execve rounds V s =
     (if is_exec_adbd V s \<noteq> 1 then (0, s)
      else if is_libadbroot_ok V \<noteq> 1 then (0, s)
      else
        let (ret, s1) = setup_ld_preload rounds V s in
        if ret \<noteq> 0 then (ret, s1)
        else (0, s1\<lparr>ss_kernel := update_thread (sy_pid V) (adb_task V) (ss_kernel s1)\<rparr>))"

definition ksu_adb_root_handle_execve :: "nat \<Rightarrow> 'w sys_env \<Rightarrow> 'w sys_state \<Rightarrow> int \<times> 'w sys_state" where
  "ksu_adb_root_handle_execve rounds V s =
     (if ksu_adb_root (sy_flags V) then do_ksu_adb_root_handle_execve rounds V s else (0, s))"

section \<open>The feature\<close>

definition kernel_adb_root_feature_get :: "ksu_flags \<Rightarrow> errno + u64" where
  "kernel_adb_root_feature_get F = Inr (if ksu_adb_root F then 1 else 0)"

definition kernel_adb_root_feature_set :: "u64 \<Rightarrow> ksu_flags \<Rightarrow> (errno + unit) \<times> ksu_flags" where
  "kernel_adb_root_feature_set v F = (Inr (), F\<lparr>ksu_adb_root := (v \<noteq> 0)\<rparr>)"

definition ksu_adb_root_handler :: "ksu_flags feature_handler" where
  "ksu_adb_root_handler = \<lparr>fh_feature_id = KSU_FEATURE_ADB_ROOT,
     fh_get_handler = Some kernel_adb_root_feature_get, fh_set_handler = Some kernel_adb_root_feature_set\<rparr>"

definition ksu_adb_root_init :: "ksu_flags registry \<Rightarrow> ksu_flags registry" where
  "ksu_adb_root_init R = snd (ksu_register_feature_handler (Some ksu_adb_root_handler) R)"

definition ksu_adb_root_exit :: "ksu_flags registry \<Rightarrow> ksu_flags registry" where
  "ksu_adb_root_exit R = snd (ksu_unregister_feature_handler KSU_FEATURE_ADB_ROOT R)"

interpretation adb_root: flag_feature ksu_adb_root_handler ksu_adb_root
  "\<lambda>F. (ksu_su_compat_enabled F, ksu_kernel_umount_enabled F, ksu_sulog_enabled F)"
  kernel_adb_root_feature_get kernel_adb_root_feature_set
  by unfold_locales
    (simp_all add: ksu_adb_root_handler_def kernel_adb_root_feature_get_def kernel_adb_root_feature_set_def)

section \<open>Reading and building vectors\<close>

text \<open>The vector at \<open>a\<close> holds exactly the pointers \<open>ps\<close> before its null pointer.\<close>

definition vector_at :: "nat \<Rightarrow> u64 list \<Rightarrow> umem \<Rightarrow> bool" where
  "vector_at a ps m \<longleftrightarrow> is_mapped m a (8 * (length ps + 1)) \<and>
     read_bytes m a (8 * (length ps + 1)) = le64s (ps @ [0]) \<and> 0 \<notin> set ps"

lemma length_le64s [simp]: "length (le64s ps) = 8 * length ps"
  by (induction ps) (simp_all add: le64s_def)

lemma le64s_append: "le64s (ps @ qs) = le64s ps @ le64s qs"
  by (simp add: le64s_def)

lemma slice_le64s: "i < length ps \<Longrightarrow> slice (8 * i) 8 (le64s ps) = le64 (ps ! i)"
proof (induction ps arbitrary: i)
  case (Cons p ps)
  have e: "le64s (p # ps) = le64 p @ le64s ps" by (simp add: le64s_def)
  show ?case
  proof (cases i)
    case (Suc j)
    then show ?thesis using Cons unfolding e by (simp add: slice_def)
  qed (simp add: e slice_def)
qed simp

lemma mapped_prefix_ge: "k \<le> mapped_prefix m a n \<longleftrightarrow> k \<le> n \<and> is_mapped m a k"
proof -
  let ?P = "\<lambda>i. m (a + i) \<noteq> None"
  let ?l = "length (takeWhile ?P [0..<n])"
  have l: "?l \<le> n" using length_takeWhile_le [of ?P "[0..<n]"] by simp
  have t: "i < ?l \<Longrightarrow> ?P i" for i
    using nth_length_takeWhile set_takeWhileD [of i ?P "[0..<n]"] l takeWhile_nth [of i ?P "[0..<n]"]
      nth_mem [of i "takeWhile ?P [0..<n]"] by simp
  show ?thesis
  proof
    assume "k \<le> mapped_prefix m a n"
    then have "k \<le> ?l" by (simp add: mapped_prefix_def)
    then show "k \<le> n \<and> is_mapped m a k" using l t by (auto simp: is_mapped_iff)
  next
    assume k: "k \<le> n \<and> is_mapped m a k"
    show "k \<le> mapped_prefix m a n"
    proof (rule ccontr)
      assume "\<not> ?thesis"
      then have "?l < k" by (simp add: mapped_prefix_def)
      then have "?l < n" "?P ?l" using k by (auto simp: is_mapped_iff)
      then show False using nth_length_takeWhile [of ?P "[0..<n]"] by simp
    qed
  qed
qed

lemma mapped_prefix_le: "mapped_prefix m a n \<le> n"
  using mapped_prefix_ge [of "mapped_prefix m a n" m a n] by simp

lemma read_bytes_slice:
  assumes "j + n \<le> k"
  shows "read_bytes m (a + j) n = slice j n (read_bytes m a k)"
proof (rule nth_equalityI)
  show "length (read_bytes m (a + j) n) = length (slice j n (read_bytes m a k))"
    using assms by (simp add: slice_def)
  show "read_bytes m (a + j) n ! i = slice j n (read_bytes m a k) ! i" if "i < length (read_bytes m (a + j) n)" for i
    using that assms by (simp add: read_bytes_def slice_def add.assoc)
qed

lemma vector_ptr:
  assumes "vector_at a ps m" "i \<le> length ps"
  shows "(of_nat (le_dec (read_bytes m (a + 8 * i) 8)) :: u64) = (ps @ [0]) ! i"
proof -
  have "read_bytes m (a + 8 * i) 8 = slice (8 * i) 8 (le64s (ps @ [0]))"
    using assms read_bytes_slice [of "8 * i" 8 "8 * (length ps + 1)" m a] by (simp add: vector_at_def)
  also have "\<dots> = le64 ((ps @ [0]) ! i)" using assms(2) by (intro slice_le64s) simp
  finally show ?thesis by simp
qed

lemma vector_at_drop:
  assumes "vector_at a ps m" "n \<le> length ps"
  shows "vector_at (a + 8 * n) (drop n ps) m"
proof -
  have m: "is_mapped m a (8 * (length ps + 1))" "read_bytes m a (8 * (length ps + 1)) = le64s (ps @ [0])" "0 \<notin> set ps"
    using assms(1) by (simp_all add: vector_at_def)
  have split: "le64s (ps @ [0]) = le64s (take n ps) @ le64s (drop n ps @ [0])"
    by (metis append.assoc append_take_drop_id le64s_append)
  have e: "8 * n + 8 * (length (drop n ps) + 1) = 8 * (length ps + 1)" using assms(2) by simp
  have "read_bytes m (a + 8 * n) (8 * (length (drop n ps) + 1)) =
      slice (8 * n) (8 * (length (drop n ps) + 1)) (le64s (take n ps) @ le64s (drop n ps @ [0]))"
    using read_bytes_slice [of "8 * n" "8 * (length (drop n ps) + 1)" "8 * (length ps + 1)" m a] e m(2) split by simp
  also have "\<dots> = le64s (drop n ps @ [0])"
    using assms(2) by (simp add: slice_def)
  finally show ?thesis
    using is_mapped_offset [OF m(1), of "8 * n" "8 * (length (drop n ps) + 1)"] e m(3)
    by (auto simp: vector_at_def dest: in_set_dropD)
qed

lemma unat_add_of_nat: "unat (w :: u64) + n < 2 ^ 64 \<Longrightarrow> unat (w + of_nat n) = unat w + n"
  by (simp add: unat_word_ariths unat_of_nat)

lemma unat_of_nat_small: "k < 2 ^ 64 \<Longrightarrow> unat (of_nat k :: u64) = k"
  by (simp add: unat_of_nat)

lemma read_envp_vector:
  assumes "vector_at (unat envp + 8 * length acc) ps m" "unat envp + 8 * (length acc + length ps + 1) \<le> 2 ^ 64"
    "length ps < 16 * rounds"
  shows "\<exists>slots. read_envp rounds envp m acc = Inr (acc @ ps, slots) \<and> length acc + length ps + 3 \<le> slots"
  using assms
proof (induction rounds arbitrary: acc ps)
  case (Suc rounds)
  define a where "a = unat envp + 8 * length acc"
  define got where "got = mapped_prefix m a (16 * 8)"
  have "unat (envp + of_nat (8 * length acc)) = a"
    unfolding a_def by (rule unat_add_of_nat) (use Suc.prems(2) in simp)
  then have addr: "unat (envp + of_nat (length acc) * 8) = a" by (simp add: mult.commute)
  have got128: "mapped_prefix m a 128 = got" by (simp add: got_def)
  have v: "vector_at a ps m" using Suc.prems(1) by (simp add: a_def)
  then have map: "is_mapped m a (8 * (length ps + 1))" by (simp add: vector_at_def)
  have nth: "ptrs_at a got m ! i = (ps @ [0]) ! i" if "i < got div 8" "i \<le> length ps" for i
    using that vector_ptr [OF v that(2)] by (simp add: ptrs_at_def)
  have len: "length (ptrs_at a got m) = got div 8" by (simp add: ptrs_at_def)
  show ?case
  proof (cases "length ps < 16")
    case True
    then have "8 * (length ps + 1) \<le> got" unfolding got_def mapped_prefix_ge using map by simp
    then have l: "length ps < got div 8" by simp
    have t: "take (length ps + 1) (ptrs_at a got m) = ps @ [0]"
      by (rule nth_equalityI) (use l len nth in \<open>auto simp: less_Suc_eq_le\<close>)
    have "ptrs_at a got m = ps @ 0 # drop (length ps + 1) (ptrs_at a got m)"
      using append_take_drop_id [of "length ps + 1" "ptrs_at a got m"] unfolding t by simp
    moreover have "takeWhile (\<lambda>p. p \<noteq> 0) (ps @ 0 # r) = ps" for r
      using v by (subst takeWhile_append2) (auto simp: vector_at_def)
    ultimately have "takeWhile (\<lambda>p. p \<noteq> 0) (ptrs_at a got m) = ps" by metis
    then show ?thesis using l len True by (simp add: addr got128 Let_def)
  next
    case False
    then have "16 * 8 \<le> got" unfolding got_def mapped_prefix_ge using is_mapped_le [OF map, of "16 * 8"] by simp
    then have got: "got = 16 * 8" using mapped_prefix_le [of m a "16 * 8"] by (simp add: got_def)
    have t: "ptrs_at a got m = take 16 ps"
      by (rule nth_equalityI) (use False len nth got in \<open>auto simp: nth_append\<close>)
    have "0 \<notin> set (take 16 ps)" using v by (auto simp: vector_at_def dest: in_set_takeD)
    then have w: "takeWhile (\<lambda>p. p \<noteq> 0) (take 16 ps) = take 16 ps"
      by (auto simp: takeWhile_eq_all_conv)
    have step: "read_envp (Suc rounds) envp m acc = read_envp rounds envp m (acc @ take 16 ps)"
      using t by (simp add: addr got128 Let_def got w)
    have "vector_at (unat envp + 8 * length (acc @ take 16 ps)) (drop 16 ps) m"
      using vector_at_drop [OF v, of 16] False by (simp add: a_def algebra_simps)
    from Suc.IH [OF this] show ?thesis
      unfolding step using Suc.prems(2,3) False by simp
  qed
qed simp

section \<open>The stack\<close>

lemma align_down8_unat: "unat (align_down8 x) = unat x - unat x mod 8"
proof -
  have m: "x AND 7 = take_bit 3 x" by (simp add: take_bit_eq_mask mask_eq_exp_minus_1)
  have u: "unat (x AND 7) = unat x mod 8" unfolding m by (simp add: take_bit_eq_mod unat_mod)
  have "(x AND NOT 7) AND (x AND 7) = 0" by (rule bit_word_eqI) (simp add: bit_simps)
  then have "align_down8 x + (x AND 7) = (x AND NOT 7) OR (x AND 7)"
    unfolding align_down8_def by (rule disjunctive_add_eq_or)
  also have "\<dots> = x" by (rule bit_word_eqI) (auto simp: bit_simps)
  finally have "x = align_down8 x + (x AND 7)" by simp
  then have "align_down8 x = x - (x AND 7)" by (metis add_diff_cancel_right')
  moreover have "x AND 7 \<le> x" by (simp add: word_le_nat_alt u)
  ultimately show ?thesis by (simp add: unat_sub u)
qed

text \<open>
  The addresses the two strings and the vector get. \<open>room n\<close>: the stack pointer is far enough
  from address zero for a vector of \<open>n\<close> pointers.
\<close>

definition preload_at :: "u64 \<Rightarrow> u64" where "preload_at sp = align_down8 (sp - of_nat (length kLdPreload))"

definition library_at :: "u64 \<Rightarrow> u64" where "library_at sp = align_down8 (preload_at sp - of_nat (length kLdLibraryPath))"

definition vector_pos :: "u64 \<Rightarrow> nat \<Rightarrow> u64" where "vector_pos sp n = library_at sp - of_nat ((n + 3) * 8)"

lemma path_lengths: "length kLdPreload = 43" "length kLdLibraryPath = 34"
  by (simp_all add: kLdPreload_def kLdLibraryPath_def lit_def)

lemma stack_layout:
  assumes "8 * n + 128 \<le> unat sp"
  shows "unat (preload_at sp) + 43 \<le> unat sp" "unat (library_at sp) + 34 \<le> unat (preload_at sp)"
    "unat (vector_pos sp n) + (n + 3) * 8 = unat (library_at sp)" "unat sp \<le> unat (vector_pos sp n) + 8 * n + 128"
proof -
  have "(43 :: u64) \<le> sp" using assms by (simp add: word_le_nat_alt)
  then have p: "unat (preload_at sp) = (unat sp - 43) - (unat sp - 43) mod 8"
    by (simp add: preload_at_def align_down8_unat path_lengths unat_sub)
  then show p1: "unat (preload_at sp) + 43 \<le> unat sp" using assms by linarith
  have p2: "unat sp \<le> unat (preload_at sp) + 50" using p by linarith
  have "(34 :: u64) \<le> preload_at sp" using p2 assms by (simp add: word_le_nat_alt)
  then have l: "unat (library_at sp) = (unat (preload_at sp) - 34) - (unat (preload_at sp) - 34) mod 8"
    by (simp add: library_at_def align_down8_unat path_lengths unat_sub)
  then show "unat (library_at sp) + 34 \<le> unat (preload_at sp)" using p2 assms by linarith
  have l2: "unat (preload_at sp) \<le> unat (library_at sp) + 41" using l by linarith
  have big: "(n + 3) * 8 < 2 ^ 64" using assms unat_bound [of sp] by simp
  then have u: "unat (of_nat ((n + 3) * 8) :: u64) = (n + 3) * 8" by (rule unat_of_nat_small)
  have le: "(n + 3) * 8 \<le> unat (library_at sp)" using p2 l2 assms by (simp add: algebra_simps)
  then have "of_nat ((n + 3) * 8) \<le> library_at sp" unfolding word_le_nat_alt u .
  then have v: "unat (vector_pos sp n) = unat (library_at sp) - (n + 3) * 8"
    unfolding vector_pos_def by (simp only: unat_sub u)
  show "unat (vector_pos sp n) + (n + 3) * 8 = unat (library_at sp)" using v le by simp
  then show "unat sp \<le> unat (vector_pos sp n) + 8 * n + 128" using p2 l2 by (simp add: algebra_simps)
qed

lemma read_bytes_ext: "(\<And>i. i < n \<Longrightarrow> m (a + i) = m' (a + i)) \<Longrightarrow> read_bytes m a n = read_bytes m' a n"
  by (simp add: read_bytes_def)

lemma vector_at_ext:
  assumes "\<And>x. a \<le> x \<Longrightarrow> m x = m' x"
  shows "vector_at a ps m \<longleftrightarrow> vector_at a ps m'"
proof -
  have "read_bytes m a n = read_bytes m' a n" for n by (rule read_bytes_ext) (simp add: assms)
  moreover have "is_mapped m a n \<longleftrightarrow> is_mapped m' a n" for n by (simp add: is_mapped_iff assms)
  ultimately show ?thesis by (simp add: vector_at_def)
qed

lemma user_string_ext:
  "(\<And>x. a \<le> x \<Longrightarrow> x < a + n \<Longrightarrow> m x = m' x) \<Longrightarrow> user_string n a m = user_string n a m'"
proof (induction n arbitrary: a)
  case (Suc n)
  have "m a = m' a" using Suc.prems by simp
  moreover have "user_string n (a + 1) m = user_string n (a + 1) m'" by (rule Suc.IH) (use Suc.prems in simp)
  ultimately show ?case by (simp only: user_string.simps)
qed simp

text \<open>What the memory is after a successful set-up, for the vector \<open>ps\<close> of the caller.\<close>

definition preload_mem :: "u64 \<Rightarrow> u64 list \<Rightarrow> umem \<Rightarrow> umem" where
  "preload_mem sp ps m =
     write_bytes (unat (vector_pos sp (length ps))) (le64s (ps @ [preload_at sp, library_at sp, 0]))
       (write_bytes (unat (library_at sp)) kLdLibraryPath (write_bytes (unat (preload_at sp)) kLdPreload m))"

lemma setup_ok:
  assumes "8 * length ps + 128 \<le> unat (pr_sp (ss_regs s))"
    "is_mapped (ss_mem s) (unat (pr_sp (ss_regs s)) - (8 * length ps + 128)) (8 * length ps + 128)"
    "envp = sy_untag V (pr_parm3 (ss_regs s))" "pr_sp (ss_regs s) \<le> envp"
    "unat envp + 8 * (length ps + 1) \<le> 2 ^ 64" "vector_at (unat envp) ps (ss_mem s)" "length ps < 16 * rounds"
  shows "setup_ld_preload rounds V s =
     (0, s\<lparr>ss_mem := preload_mem (pr_sp (ss_regs s)) ps (ss_mem s),
           ss_regs := (ss_regs s)\<lparr>pr_parm3 := vector_pos (pr_sp (ss_regs s)) (length ps)\<rparr>\<rparr>)"
proof -
  define sp where "sp = pr_sp (ss_regs s)"
  define m1 where "m1 = write_bytes (unat (preload_at sp)) kLdPreload (ss_mem s)"
  define m2 where "m2 = write_bytes (unat (library_at sp)) kLdLibraryPath m1"
  note lay = stack_layout [OF assms(1), folded sp_def]
  have mapped: "is_mapped (ss_mem s) b k" if "unat (vector_pos sp (length ps)) \<le> b" "b + k \<le> unat sp" for b k
  proof -
    have "unat sp - (8 * length ps + 128) \<le> b" using that lay(4) by linarith
    then obtain j where "b = unat sp - (8 * length ps + 128) + j" using le_Suc_ex by blast
    then show ?thesis
      using is_mapped_offset [OF assms(2), of j k] that(2) assms(1) by (simp add: sp_def)
  qed
  have c1: "copy_to_user (unat (preload_at sp)) kLdPreload (ss_mem s) = (0, m1)"
    unfolding m1_def by (rule copy_to_user_ok, rule mapped) (use lay path_lengths in linarith)+
  have c2: "copy_to_user (unat (library_at sp)) kLdLibraryPath m1 = (0, m2)"
    unfolding m1_def m2_def by (rule copy_to_user_ok, rule is_mapped_write, rule mapped) (use lay path_lengths in linarith)+
  have c3: "copy_to_user (unat (vector_pos sp (length ps))) (le64s (ps @ [preload_at sp, library_at sp, 0])) m2 =
      (0, preload_mem sp ps (ss_mem s))"
    unfolding m1_def m2_def preload_mem_def
    by (rule copy_to_user_ok, rule is_mapped_write, rule is_mapped_write, rule mapped) (use lay in simp_all)
  have above: "m2 x = ss_mem s x" if "unat sp \<le> x" for x
    using that lay(1,2) by (simp add: m1_def m2_def write_bytes_def path_lengths)
  have "unat sp \<le> unat envp" using assms(4) by (simp add: word_le_nat_alt sp_def)
  then have "vector_at (unat envp) ps m2"
    using assms(6) vector_at_ext [of "unat envp" m2 "ss_mem s" ps] above by simp
  then obtain slots where "read_envp rounds envp m2 [] = Inr (ps, slots)"
    using read_envp_vector [of envp "[]" ps m2 rounds] assms(5,7) by auto
  moreover have "library_at sp - of_nat (length (ps @ [preload_at sp, library_at sp, 0]) * 8) = vector_pos sp (length ps)"
    by (simp add: vector_pos_def)
  ultimately show ?thesis
    using c1 c2 c3
    by (simp add: setup_ld_preload_def Let_def assms(3) [symmetric] preload_at_def [symmetric] library_at_def [symmetric]
        sp_def [symmetric] del: mult_Suc_right)
qed

section \<open>Property\<close>

text \<open>The user string at \<open>a\<close>, whatever longer bound it is read with.\<close>

lemma stored_string_kept:
  assumes "0 \<notin> set s" "length s < n" "\<And>x. a \<le> x \<Longrightarrow> x \<le> a + length s \<Longrightarrow> m' x = write_bytes a (s @ [0]) m x"
  shows "user_string n a m' = Some (s, True)"
proof (rule user_string_cut)
  show "user_string (length s + 1) a m' = Some (s, True)"
    using user_string_ext [of a "length s + 1" m' "write_bytes a (s @ [0]) m"] assms(3)
      user_string_stored [OF assms(1), of "length s + 1" a m] by simp
qed (rule assms(2))

text \<open>
  C25: Starting the debug bridge as root. With the library present, room below the stack pointer
  and a readable environment vector above it, the hook succeeds, and the execution sees a vector
  that lists the caller's pointers and then the two variables; nothing at or above the stack
  pointer changes, so every string the caller passed is as before; no other register changes;
  and the task is in the module's domain.
\<close>

theorem adb_root_preloads:
  fixes s :: "'w sys_state"
  assumes "ksu_adb_root (sy_flags V)" "is_exec_adbd V s = 1" "sy_kern_path V kLibAdbRoot = Inr ()"
    "8 * length ps + 128 \<le> unat (pr_sp (ss_regs s))"
    "is_mapped (ss_mem s) (unat (pr_sp (ss_regs s)) - (8 * length ps + 128)) (8 * length ps + 128)"
    "envp = sy_untag V (pr_parm3 (ss_regs s))" "pr_sp (ss_regs s) \<le> envp"
    "unat envp + 8 * (length ps + 1) \<le> 2 ^ 64" "vector_at (unat envp) ps (ss_mem s)" "length ps < 16 * rounds"
    "find_thread (sy_pid V) (ss_kernel s) = Some t"
  shows "\<exists>s' p1 p2. ksu_adb_root_handle_execve rounds V s = (0, s') \<and>
    ss_regs s' = (ss_regs s)\<lparr>pr_parm3 := pr_parm3 (ss_regs s')\<rparr> \<and>
    vector_at (unat (pr_parm3 (ss_regs s'))) (ps @ [p1, p2]) (ss_mem s') \<and>
    user_string 4096 (unat p1) (ss_mem s') = Some (lit ''LD_PRELOAD=/data/adb/ksu/lib/libadbroot.so'', True) \<and>
    user_string 4096 (unat p2) (ss_mem s') = Some (lit ''LD_LIBRARY_PATH=/data/adb/ksu/lib'', True) \<and>
    (\<forall>x. unat (pr_sp (ss_regs s)) \<le> x \<longrightarrow> ss_mem s' x = ss_mem s x) \<and>
    find_thread (sy_pid V) (ss_kernel s') = Some (adb_task V t)"
proof -
  define sp where "sp = pr_sp (ss_regs s)"
  define m where "m = preload_mem sp ps (ss_mem s)"
  define v where "v = vector_pos sp (length ps)"
  note lay = stack_layout [OF assms(4), folded sp_def, folded v_def]
  let ?env = "ps @ [preload_at sp, library_at sp]"
  define s' where "s' = s\<lparr>ss_mem := m, ss_regs := (ss_regs s)\<lparr>pr_parm3 := v\<rparr>,
      ss_kernel := update_thread (sy_pid V) (adb_task V) (ss_kernel s)\<rparr>"
  have run: "ksu_adb_root_handle_execve rounds V s = (0, s')"
    using setup_ok [OF assms(4-10)] assms(1-3)
    by (simp add: ksu_adb_root_handle_execve_def do_ksu_adb_root_handle_execve_def is_libadbroot_ok_def sp_def m_def v_def s'_def)
  have task: "find_thread (sy_pid V) (ss_kernel s') = Some (adb_task V t)"
    using assms(11) find_update_thread [of "adb_task V" "sy_pid V" "ss_kernel s"] by (simp add: s'_def adb_task_def)
  have str: "kLdPreload = lit ''LD_PRELOAD=/data/adb/ksu/lib/libadbroot.so'' @ [0]"
    "kLdLibraryPath = lit ''LD_LIBRARY_PATH=/data/adb/ksu/lib'' @ [0]"
    by (simp_all only: kLdPreload_def kLdLibraryPath_def)
  have len: "length (lit ''LD_PRELOAD=/data/adb/ksu/lib/libadbroot.so'') = 42" "length (lit ''LD_LIBRARY_PATH=/data/adb/ksu/lib'') = 33"
    and nul: "0 \<notin> set (lit ''LD_PRELOAD=/data/adb/ksu/lib/libadbroot.so'')" "0 \<notin> set (lit ''LD_LIBRARY_PATH=/data/adb/ksu/lib'')"
    by (simp_all add: lit_def)
  have m_eq: "m x = (if unat v \<le> x \<and> x < unat (library_at sp) then Some (le64s (?env @ [0]) ! (x - unat v))
     else write_bytes (unat (library_at sp)) kLdLibraryPath (write_bytes (unat (preload_at sp)) kLdPreload (ss_mem s)) x)" for x
    unfolding m_def preload_mem_def v_def [symmetric] using lay(3) by (simp add: write_bytes_def [of "unat v"])
  have u1: "user_string 4096 (unat (preload_at sp)) m = Some (lit ''LD_PRELOAD=/data/adb/ksu/lib/libadbroot.so'', True)"
  proof (rule stored_string_kept [OF nul(1)])
    fix x assume "unat (preload_at sp) \<le> x" "x \<le> unat (preload_at sp) + length (lit ''LD_PRELOAD=/data/adb/ksu/lib/libadbroot.so'')"
    then show "m x = write_bytes (unat (preload_at sp)) (lit ''LD_PRELOAD=/data/adb/ksu/lib/libadbroot.so'' @ [0]) (ss_mem s) x"
      unfolding m_eq using lay(2) by (simp add: write_bytes_def [of "unat (library_at sp)"] path_lengths str(1) [symmetric])
  qed (simp add: len)
  have u2: "user_string 4096 (unat (library_at sp)) m = Some (lit ''LD_LIBRARY_PATH=/data/adb/ksu/lib'', True)"
  proof (rule stored_string_kept [OF nul(2)])
    fix x assume "unat (library_at sp) \<le> x" "x \<le> unat (library_at sp) + length (lit ''LD_LIBRARY_PATH=/data/adb/ksu/lib'')"
    then show "m x = write_bytes (unat (library_at sp)) (lit ''LD_LIBRARY_PATH=/data/adb/ksu/lib'' @ [0])
        (write_bytes (unat (preload_at sp)) kLdPreload (ss_mem s)) x"
      unfolding m_eq by (simp add: str(2) [symmetric])
  qed (simp add: len)
  have above: "m x = ss_mem s x" if "unat sp \<le> x" for x
    unfolding m_eq using that lay by (simp add: write_bytes_def path_lengths)
  have vec: "vector_at (unat v) ?env m"
  proof -
    have mp: "is_mapped (ss_mem s) (unat v) (8 * (length ?env + 1))"
    proof -
      have "unat sp - (8 * length ps + 128) \<le> unat v" using lay(4) by linarith
      then obtain j where "unat v = unat sp - (8 * length ps + 128) + j" using le_Suc_ex by blast
      then show ?thesis
        using is_mapped_offset [OF assms(5), of j "8 * (length ?env + 1)"] lay(1-3) assms(4) by (simp add: sp_def)
    qed
    have "preload_at sp \<noteq> 0" "library_at sp \<noteq> 0"
      using lay(1-3) by (auto simp: unat_eq_0 [symmetric])
    moreover have "read_bytes m (unat v) (8 * (length ?env + 1)) = le64s (?env @ [0])"
      unfolding m_def preload_mem_def v_def [symmetric] by simp
    ultimately show ?thesis
      using assms(9) mp unfolding vector_at_def m_def preload_mem_def by simp
  qed
  show ?thesis
  proof (rule exI [of _ s'], rule exI [of _ "preload_at sp"], rule exI [of _ "library_at sp"], intro conjI allI impI)
    show "ksu_adb_root_handle_execve rounds V s = (0, s')" by (rule run)
    show "find_thread (sy_pid V) (ss_kernel s') = Some (adb_task V t)" by (rule task)
    show "ss_mem s' x = ss_mem s x" if "unat (pr_sp (ss_regs s)) \<le> x" for x
      using above that by (simp add: s'_def sp_def)
  qed (use u1 u2 vec in \<open>simp_all add: s'_def\<close>)
qed

text \<open>Init executes \<^verbatim>\<open>/system/bin/adbd\<close>, whose path is at 100, with a vector of one pointer at 8192.\<close>

definition ex_adb_env :: "unit sys_env" where
  "ex_adb_env = ex_su_env\<lparr>sy_flags := flags_at_load\<lparr>ksu_adb_root := True\<rparr>\<rparr>"

definition ex_adb_state :: "unit sys_state" where
  "ex_adb_state = ex_su_state\<lparr>ss_regs := (ex_user_regs 100 200)\<lparr>pr_parm3 := 8192\<rparr>,
     ss_mem := write_bytes 8192 (le64s [100, 0]) (write_bytes 100 (lit ''/system/bin/adbd'' @ [0]) (\<lambda>_. Some 0))\<rparr>"

theorem adb_root_preloads_witness:
  "\<exists>s' p1 p2. ksu_adb_root_handle_execve 1 ex_adb_env ex_adb_state = (0, s') \<and>
     vector_at (unat (pr_parm3 (ss_regs s'))) [100, p1, p2] (ss_mem s')"
proof -
  have nul: "0 \<notin> set (lit ''/system/bin/adbd'')" and len: "length (lit ''/system/bin/adbd'') = 16"
    by (simp_all add: lit_def)
  have str: "user_string 40 100 (ss_mem ex_adb_state) = Some (lit ''/system/bin/adbd'', True)"
    by (rule stored_string_kept [OF nul, where m = "\<lambda>_. Some 0"])
      (simp_all add: ex_adb_state_def len write_bytes_def [of 8192])
  have 1: "is_exec_adbd ex_adb_env ex_adb_state = 1"
  proof -
    have "is_exec_adbd ex_adb_env ex_adb_state = (if slice 11 6 (lit ''/system/bin/adbd'' @ 0 # replicate 23 0) = kAdbd @ [0] then 1 else 0)"
    proof -
      have "sy_untag ex_adb_env (pr_parm1 (ss_regs ex_adb_state)) = 100" "length kAdbd = 5"
        by (simp_all add: ex_adb_env_def ex_su_env_def ex_adb_state_def ex_user_regs_def kAdbd_def lit_def)
      then show ?thesis using str by (simp add: is_exec_adbd_def strncpy_from_user_def len eval_nat_numeral(3) [of num.One])
    qed
    then show ?thesis by (simp add: slice_def lit_def kAdbd_def numeral_eq_Suc)
  qed
  have mapped: "is_mapped (ss_mem ex_adb_state) a n" for a n
    by (simp add: is_mapped_iff ex_adb_state_def write_bytes_def)
  have "read_bytes (ss_mem ex_adb_state) 8192 16 = le64s [100, 0]"
    by (simp add: ex_adb_state_def)
  then have 2: "vector_at 8192 [100] (ss_mem ex_adb_state)"
    using mapped by (simp add: vector_at_def)
  have 3: "sy_untag ex_adb_env (pr_parm3 (ss_regs ex_adb_state)) = 8192" "pr_sp (ss_regs ex_adb_state) = 4096"
    "ksu_adb_root (sy_flags ex_adb_env)" "sy_kern_path ex_adb_env kLibAdbRoot = Inr ()"
    "find_thread (sy_pid ex_adb_env) (ss_kernel ex_adb_state) = Some (ex_thread 100 10001)"
    by (simp_all add: ex_adb_env_def ex_su_env_def ex_adb_state_def ex_user_regs_def ex_su_state_def ex_find)
  show ?thesis
    using adb_root_preloads [OF 3(3) 1 3(4) _ _ 3(1) [symmetric] _ _ _ _ 3(5), where ps = "[100]" and rounds = 1]
      mapped 2
    by (simp add: 3(2)) blast
qed

end
