(* ===== verification/Syscall_Restore.thy ===== *)
theory Syscall_Restore
  imports Syscall_Hook "HOL-Library.Multiset"
begin

text \<open>
  What the redirection of system calls promises. The locale \<open>redirection\<close> states what a
  tracepoint handler and a dispatcher must do together, and is interpreted on both
  architectures; the second part shows that unloading gives the system-call table back.
\<close>

section \<open>Routing\<close>

lemma sint_nonneg_unat: "0 \<le> sint (x :: s32) \<Longrightarrow> int (unat x) = sint x"
proof -
  assume "0 \<le> sint x"
  moreover have "sint x < 2 ^ 31" using sint_lt [of x] by simp
  moreover have "uint x = sint x mod 2 ^ 32" by (simp add: uint_sint take_bit_eq_mod)
  ultimately show ?thesis by simp
qed

lemma nr_ok_bound: "nr_ok N nr \<Longrightarrow> unat nr < N"
  unfolding nr_ok_def using sint_nonneg_unat [of nr] by linarith

lemma enosys_no_nr: "\<not> nr_ok N (ucast (word_of_int (neg_errno ENOSYS) :: u64))"
  by (simp add: nr_ok_def neg_errno_def)

definition hooks_ok :: "nat \<Rightarrow> ('f, 'h) syscall_hooks \<Rightarrow> bool" where
  "hooks_ok N s \<longleftrightarrow> length (sh_hooks s) = N \<and>
     (0 \<le> sint (sh_dispatcher_nr s) \<longrightarrow> nr_ok N (sh_dispatcher_nr s) \<and> \<not> ksu_has_syscall_hook N (sh_dispatcher_nr s) s)"

text \<open>What becomes of a call: a table function runs, or a handler, or it fails.\<close>

datatype ('f, 'h) served = Table 'f | Handler 'h s32 | Failed errno

text \<open>
  After the tracepoint the kernel takes the number again from the registers and calls the
  table's function; \<open>disp\<close> is the dispatcher's address.
\<close>

definition serve ::
    "(pt_regs \<Rightarrow> s32) \<Rightarrow> (pt_regs \<Rightarrow> (errno + 'h \<times> s32) \<times> pt_regs) \<Rightarrow> nat \<Rightarrow> 'f \<Rightarrow> 'f list \<Rightarrow> pt_regs \<Rightarrow>
     ('f, 'h) served \<times> pt_regs" where
  "serve number dispatch N disp tb regs =
     (if \<not> nr_ok N (number regs) then (Failed ENOSYS, regs)
      else if tb ! unat (number regs) = disp then
        (case dispatch regs of
           (Inl e, regs1) \<Rightarrow> (Failed e, regs1)
         | (Inr (h, nr), regs1) \<Rightarrow> (Handler h nr, regs1))
      else (Table (tb ! unat (number regs)), regs))"

text \<open>
  \<open>native nr regs\<close>: the registers as the kernel sets them up for call \<open>nr\<close>; \<open>seen\<close>: those a
  handler gets.
\<close>

locale redirection =
  fixes native :: "s32 \<Rightarrow> pt_regs \<Rightarrow> bool"
    and number :: "pt_regs \<Rightarrow> s32"
    and enter :: "nat \<Rightarrow> bool \<Rightarrow> ('f, 'h) syscall_hooks \<Rightarrow> u64 \<Rightarrow> pt_regs \<Rightarrow> pt_regs"
    and dispatch :: "nat \<Rightarrow> ('f, 'h) syscall_hooks \<Rightarrow> pt_regs \<Rightarrow> (errno + 'h \<times> s32) \<times> pt_regs"
    and seen :: "s32 \<Rightarrow> pt_regs \<Rightarrow> pt_regs"
  assumes number_native: "native nr regs \<Longrightarrow> number regs = nr"
    and enter_plain: "c \<or> sint (sh_dispatcher_nr s) < 0 \<or> \<not> ksu_has_syscall_hook N nr s \<Longrightarrow>
      enter N c s (scast nr) regs = regs"
    and enter_number: "\<not> c \<Longrightarrow> 0 \<le> sint (sh_dispatcher_nr s) \<Longrightarrow> ksu_has_syscall_hook N nr s \<Longrightarrow>
      number (enter N c s (scast nr) regs) = sh_dispatcher_nr s"
    and dispatch_entered: "native nr regs \<Longrightarrow> \<not> c \<Longrightarrow> 0 \<le> sint (sh_dispatcher_nr s) \<Longrightarrow> nr_ok N nr \<Longrightarrow>
      sh_hooks s ! unat nr = Some h \<Longrightarrow> nr \<noteq> sh_dispatcher_nr s \<Longrightarrow>
      dispatch N s (enter N c s (scast nr) regs) = (Inr (h, nr), seen nr regs)"
    and dispatch_spurious: "native (sh_dispatcher_nr s) regs \<Longrightarrow> fst (dispatch N s regs) = Inl ENOSYS"
begin

lemma routing:
  assumes "native nr regs" "hooks_ok N s" "0 \<le> sint (sh_dispatcher_nr s)"
    "tb ! unat (sh_dispatcher_nr s) = disp" "\<And>i. i < N \<Longrightarrow> tb ! i = disp \<Longrightarrow> i = unat (sh_dispatcher_nr s)"
  shows "case serve number (dispatch N s) N disp tb (enter N c s (scast nr) regs) of (out, regs1) \<Rightarrow>
     if \<not> nr_ok N nr \<or> nr = sh_dispatcher_nr s then out = Failed ENOSYS
     else case sh_hooks s ! unat nr of
            Some h \<Rightarrow> if c then out = Table (tb ! unat nr) \<and> regs1 = regs
                      else out = Handler h nr \<and> regs1 = seen nr regs
          | None \<Rightarrow> out = Table (tb ! unat nr) \<and> regs1 = regs"
proof -
  have slot: "nr_ok N (sh_dispatcher_nr s)" "\<not> ksu_has_syscall_hook N (sh_dispatcher_nr s) s"
    using assms(2,3) by (simp_all add: hooks_ok_def)
  have inj: "unat nr = unat (sh_dispatcher_nr s) \<Longrightarrow> nr = sh_dispatcher_nr s"
    by (rule word_unat_eq_iff [THEN iffD2])
  show ?thesis
  proof (cases "\<not> c \<and> ksu_has_syscall_hook N nr s")
    case True
    then obtain h where h: "nr_ok N nr" "sh_hooks s ! unat nr = Some h"
      by (auto simp: ksu_has_syscall_hook_def)
    have ne: "nr \<noteq> sh_dispatcher_nr s" using True slot by auto
    show ?thesis
      using True h ne slot assms(4) enter_number [OF _ assms(3), of c N nr regs]
        dispatch_entered [OF assms(1) _ assms(3) h ne, of c]
      by (simp add: serve_def)
  next
    case False
    then have e: "enter N c s (scast nr) regs = regs" by (intro enter_plain) auto
    have n: "number regs = nr" by (rule number_native [OF assms(1)])
    show ?thesis
    proof (cases "nr_ok N nr")
      case nr: True
      show ?thesis
      proof (cases "nr = sh_dispatcher_nr s")
        case True
        then show ?thesis
          using assms(1,4) nr n e dispatch_spurious [of s regs N]
          by (auto simp: serve_def split: prod.splits sum.splits)
      next
        case ne: False
        have "tb ! unat nr \<noteq> disp"
          using assms(5) [OF nr_ok_bound [OF nr]] ne inj by blast
        then show ?thesis
          using False nr ne n e by (auto simp: serve_def ksu_has_syscall_hook_def split: option.splits)
      qed
    qed (use n e in \<open>simp add: serve_def\<close>)
  qed
qed

end

text \<open>On arm64 the kernel keeps the number twice; on x86_64 it presets the result with \<open>-ENOSYS\<close>.\<close>

definition native_arm :: "s32 \<Rightarrow> pt_regs \<Rightarrow> bool" where
  "native_arm nr regs \<longleftrightarrow> pr_syscallno regs = nr \<and> pr_x8 regs = scast nr"

definition native_x86 :: "s32 \<Rightarrow> pt_regs \<Rightarrow> bool" where
  "native_x86 nr regs \<longleftrightarrow> pr_orig_ax regs = scast nr \<and> pr_ax regs = word_of_int (neg_errno ENOSYS)"

lemma ucast_scast_32 [simp]: "ucast (scast (x :: s32) :: u64) = x"
  by (rule bit_word_eqI) (auto simp: bit_simps)

lemma scast_inj_32: "(scast (x :: s32) :: u64) = scast y \<longleftrightarrow> x = y"
  by (metis ucast_scast_32)

interpretation arm: redirection native_arm pr_syscallno ksu_sys_enter_handler ksu_syscall_dispatcher "\<lambda>nr regs. regs"
  by unfold_locales
    (auto simp: native_arm_def ksu_sys_enter_handler_def ksu_syscall_dispatcher_def ksu_has_syscall_hook_def Let_def
      split: option.splits)

interpretation x86: redirection native_x86 "\<lambda>regs. ucast (pr_orig_ax regs)" ksu_sys_enter_handler_x86
    ksu_syscall_dispatcher_x86 "\<lambda>nr regs. regs\<lparr>pr_ax := scast nr\<rparr>"
  by unfold_locales
    (auto simp: native_x86_def ksu_sys_enter_handler_x86_def ksu_syscall_dispatcher_x86_def
      ksu_has_syscall_hook_def scast_inj_32 enosys_no_nr Let_def split: option.splits)

section \<open>Restoring the table\<close>

lemma swap_remove_mset:
  assumes "i < length xs"
  shows "add_mset (xs ! i) (mset (swap_remove i xs)) = mset xs"
proof (cases "i = length xs - 1")
  case True
  moreover have "xs \<noteq> []" using assms by auto
  ultimately have "swap_remove i xs = butlast xs" "xs ! i = last xs" "xs \<noteq> []"
    using assms by (simp_all add: swap_remove_def last_conv_nth)
  then show ?thesis by (metis append_butlast_last_id mset.simps(2) mset_rev rev.simps(2) rev_rev_ident)
next
  case False
  define ys where "ys = xs[i := xs ! (length xs - 1)]"
  have ys1: "ys \<noteq> []" using assms by (auto simp: ys_def)
  then have ys: "ys \<noteq> []" "last ys = xs ! (length xs - 1)"
    using assms False by (simp_all add: ys_def last_conv_nth)
  have "mset ys = add_mset (xs ! (length xs - 1)) (mset xs - {#xs ! i#})"
    using assms by (simp add: ys_def mset_update)
  moreover have "mset ys = add_mset (last ys) (mset (butlast ys))"
    using ys(1) by (metis append_butlast_last_id mset.simps(2) mset_rev rev.simps(2) rev_rev_ident)
  ultimately have "mset (butlast ys) = mset xs - {#xs ! i#}" using ys(2) by simp
  then show ?thesis using assms by (simp add: swap_remove_def ys_def)
qed

lemma index_of_Some: "index_of P xs = Some i \<Longrightarrow> i < length xs \<and> P (xs ! i)"
  by (induction xs arbitrary: i) (auto split: if_splits)

lemma index_of_None: "index_of P xs = None \<longleftrightarrow> (\<forall>x\<in>set xs. \<not> P x)"
  by (induction xs) auto

text \<open>
  \<open>orig\<close> is the table before the module touched it: every recorded entry is the original of
  its slot, and a slot that differs from the original is recorded.
\<close>

definition tracked :: "nat \<Rightarrow> 'f list \<Rightarrow> ('f, 'h) syscall_hooks \<Rightarrow> bool" where
  "tracked N orig s \<longleftrightarrow> length orig = N \<and> distinct (map fst (sh_entries s)) \<and>
     (\<forall>(nr, f)\<in>set (sh_entries s). nr_ok N nr \<and> f = orig ! unat nr) \<and>
     (\<exists>tb. sh_table s = Some tb \<and> length tb = N \<and>
        (\<forall>i<N. tb ! i \<noteq> orig ! i \<longrightarrow> i \<in> (unat \<circ> fst) ` set (sh_entries s)))"

lemma trackedE:
  assumes "tracked N orig s"
  obtains tb where "sh_table s = Some tb" "length tb = N" "length orig = N" "distinct (map fst (sh_entries s))"
    "\<And>nr f. (nr, f) \<in> set (sh_entries s) \<Longrightarrow> nr_ok N nr \<and> f = orig ! unat nr"
    "\<And>i. i < N \<Longrightarrow> tb ! i \<noteq> orig ! i \<Longrightarrow> i \<in> (unat \<circ> fst) ` set (sh_entries s)"
  using assms by (auto simp: tracked_def)

text \<open>Room for one more entry, or the slot is recorded already.\<close>

definition has_room :: "s32 \<Rightarrow> ('f, 'h) syscall_hooks \<Rightarrow> bool" where
  "has_room nr s \<longleftrightarrow> nr \<in> fst ` set (sh_entries s) \<or> length (sh_entries s) < HOOKED_ENTRIES"

lemma hook_tracked:
  assumes "tracked N orig s" "has_room nr s"
  shows "tracked N orig (snd (ksu_syscall_table_hook N ok nr f s))"
    "set (map fst (sh_entries (snd (ksu_syscall_table_hook N ok nr f s)))) \<subseteq> insert nr (set (map fst (sh_entries s)))"
proof -
  obtain tb where tb: "sh_table s = Some tb" "length tb = N" "length orig = N" "distinct (map fst (sh_entries s))"
    "\<And>nr f. (nr, f) \<in> set (sh_entries s) \<Longrightarrow> nr_ok N nr \<and> f = orig ! unat nr"
    "\<And>i. i < N \<Longrightarrow> tb ! i \<noteq> orig ! i \<Longrightarrow> i \<in> (unat \<circ> fst) ` set (sh_entries s)"
    using assms(1) by (rule trackedE) blast
  have found: "list_ex (\<lambda>e. fst e = nr) (sh_entries s) \<longleftrightarrow> nr \<in> fst ` set (sh_entries s)"
    by (auto simp: list_ex_iff)
  show "set (map fst (sh_entries (snd (ksu_syscall_table_hook N ok nr f s)))) \<subseteq> insert nr (set (map fst (sh_entries s)))"
    by (auto simp: ksu_syscall_table_hook_def patch_syscall_table_def Let_def split: option.splits)
  show "tracked N orig (snd (ksu_syscall_table_hook N ok nr f s))"
  proof (cases "nr_ok N nr")
    case nr: True
    have lt: "unat nr < N" by (rule nr_ok_bound [OF nr])
    have same: "tb ! unat nr = orig ! unat nr" if "nr \<notin> fst ` set (sh_entries s)"
      using tb(6) [OF lt] that by (auto simp: image_iff word_unat_eq_iff)
    define es where "es = sh_entries s @ (if nr \<in> fst ` set (sh_entries s) then [] else [(nr, tb ! unat nr)])"
    have eq: "snd (ksu_syscall_table_hook N ok nr f s) =
        s\<lparr>sh_entries := es, sh_table := Some (if ok then tb[unat nr := f] else tb)\<rparr>"
      using tb(1) nr assms(2)
      by (auto simp: ksu_syscall_table_hook_def patch_syscall_table_def Let_def found has_room_def es_def)
    have mem: "nr \<in> fst ` set es" by (auto simp: es_def)
    have sub: "set (sh_entries s) \<subseteq> set es" by (auto simp: es_def)
    have "distinct (map fst es)" using tb(4) by (auto simp: es_def)
    moreover have "\<forall>(m, g)\<in>set es. nr_ok N m \<and> g = orig ! unat m"
      using tb(5) nr same by (auto simp: es_def)
    moreover have "i \<in> (unat \<circ> fst) ` set es"
      if "i < N" "(if ok then tb[unat nr := f] else tb) ! i \<noteq> orig ! i" for i
    proof (cases "i = unat nr")
      case True
      with mem show ?thesis by (metis image_comp image_eqI)
    next
      case False
      with that have "tb ! i \<noteq> orig ! i" by (auto split: if_splits)
      with tb(6) [OF that(1)] sub show ?thesis by (meson image_mono subsetD)
    qed
    ultimately show ?thesis using tb(2,3) unfolding eq by (simp add: tracked_def)
  next
    case False
    then show ?thesis
      using assms(1) tb(1) by (simp add: ksu_syscall_table_hook_def)
  qed
qed

lemma unhook_tracked:
  assumes "tracked N orig s"
  shows "tracked N orig (ksu_syscall_table_unhook N True nr s)"
    "set (map fst (sh_entries (ksu_syscall_table_unhook N True nr s))) \<subseteq> set (map fst (sh_entries s))"
proof -
  obtain tb where tb: "sh_table s = Some tb" "length tb = N" "length orig = N" "distinct (map fst (sh_entries s))"
    "\<And>nr f. (nr, f) \<in> set (sh_entries s) \<Longrightarrow> nr_ok N nr \<and> f = orig ! unat nr"
    "\<And>i. i < N \<Longrightarrow> tb ! i \<noteq> orig ! i \<Longrightarrow> i \<in> (unat \<circ> fst) ` set (sh_entries s)"
    using assms by (rule trackedE) blast
  consider (same) "ksu_syscall_table_unhook N True nr s = s"
    | (found) i where "nr_ok N nr" "index_of (\<lambda>e. fst e = nr) (sh_entries s) = Some i"
    by (cases "nr_ok N nr"; cases "index_of (\<lambda>e. fst e = nr) (sh_entries s)")
      (simp_all add: ksu_syscall_table_unhook_def)
  then have "tracked N orig (ksu_syscall_table_unhook N True nr s) \<and>
      set (map fst (sh_entries (ksu_syscall_table_unhook N True nr s))) \<subseteq> set (map fst (sh_entries s))"
  proof cases
    case found
    define e where "e = sh_entries s ! i"
    define es where "es = swap_remove i (sh_entries s)"
    have i: "i < length (sh_entries s)" "fst e = nr"
      using index_of_Some [OF found(2)] by (simp_all add: e_def)
    have es: "add_mset e (mset es) = mset (sh_entries s)"
      unfolding e_def es_def by (rule swap_remove_mset [OF i(1)])
    then have set_es: "set (sh_entries s) = insert e (set es)"
      by (metis set_mset_add_mset_insert set_mset_mset)
    have "mset (map fst (sh_entries s)) = add_mset nr (mset (map fst es))"
      using es i(2) by (metis image_mset_add_mset mset_map)
    then have "mset (map fst (sh_entries s)) = mset (nr # map fst es)" by simp
    then have "distinct (nr # map fst es)" using tb(4) mset_eq_imp_distinct_iff by blast
    then have dis: "distinct (map fst es)" "nr \<notin> fst ` set es" by simp_all
    have lt: "unat nr < N" by (rule nr_ok_bound [OF found(1)])
    have "(nr, snd e) \<in> set (sh_entries s)" unfolding set_es i(2) [symmetric] by simp
    then have e: "snd e = orig ! unat nr" using tb(5) by blast
    have eq: "ksu_syscall_table_unhook N True nr s = s\<lparr>sh_entries := es, sh_table := Some (tb[unat nr := orig ! unat nr])\<rparr>"
      using tb(1) found e [unfolded e_def]
      by (simp add: es_def ksu_syscall_table_unhook_def patch_syscall_table_def)
    have "i \<in> (unat \<circ> fst) ` set es" if "i < N" "tb[unat nr := orig ! unat nr] ! i \<noteq> orig ! i" for i
    proof -
      have "i \<noteq> unat nr" using that lt tb(2) by auto
      moreover have "i \<in> (unat \<circ> fst) ` set (sh_entries s)"
        using tb(6) [OF that(1)] that(2) \<open>i \<noteq> unat nr\<close> by simp
      ultimately show ?thesis using set_es i(2) by auto
    qed
    moreover have "\<forall>(m, g)\<in>set es. nr_ok N m \<and> g = orig ! unat m" using tb(5) set_es by auto
    ultimately show ?thesis
      using tb(2,3) dis(1) set_es unfolding eq by (auto simp: tracked_def)
  qed (use assms in simp)
  then show "tracked N orig (ksu_syscall_table_unhook N True nr s)"
    "set (map fst (sh_entries (ksu_syscall_table_unhook N True nr s))) \<subseteq> set (map fst (sh_entries s))"
    by blast+
qed

lemma restore_loop_nth:
  assumes "\<forall>(nr, f)\<in>set es. unat nr < length tb" "distinct (map fst es)"
  shows "length (restore_loop (\<lambda>_. True) k es tb) = length tb"
    "restore_loop (\<lambda>_. True) k es tb ! i =
       (case find (\<lambda>e. unat (fst e) = i) es of Some e \<Rightarrow> snd e | None \<Rightarrow> tb ! i)"
  using assms
proof (induction es arbitrary: k tb)
  case (Cons e es)
  obtain nr f where e: "e = (nr, f)" by (cases e)
  {
    case 1
    with Cons.IH(1) [of "tb[unat nr := f]" "k + 1"] e show ?case by simp
  next
    case 2
    have none: "find (\<lambda>e. unat (fst e) = unat nr) es = None"
      using 2(2) e by (auto simp: find_None_iff image_iff word_unat_eq_iff)
    show ?case
      using Cons.IH(2) [of "tb[unat nr := f]" "k + 1"] 2 e none by (auto simp: nth_list_update split: option.split)
  }
qed simp_all

lemma exit_restores:
  assumes "tracked N orig s"
  shows "ksu_syscall_hook_exit N (\<lambda>_. True) s =
    \<lparr>sh_table = Some orig, sh_dispatcher_nr = NO_DISPATCHER, sh_hooks = no_hooks N, sh_entries = []\<rparr>"
proof -
  obtain tb where tb: "sh_table s = Some tb" "length tb = N" "length orig = N" "distinct (map fst (sh_entries s))"
    "\<And>nr f. (nr, f) \<in> set (sh_entries s) \<Longrightarrow> nr_ok N nr \<and> f = orig ! unat nr"
    "\<And>i. i < N \<Longrightarrow> tb ! i \<noteq> orig ! i \<Longrightarrow> i \<in> (unat \<circ> fst) ` set (sh_entries s)"
    using assms by (rule trackedE) blast
  have bound: "\<forall>(nr, f)\<in>set (sh_entries s). unat nr < length tb"
    using tb(2,5) nr_ok_bound by blast
  note r = restore_loop_nth [OF bound tb(4)]
  have "restore_loop (\<lambda>_. True) 0 (sh_entries s) tb ! i = orig ! i" if "i < N" for i
  proof (cases "find (\<lambda>e. unat (fst e) = i) (sh_entries s)")
    case None
    then have "i \<notin> (unat \<circ> fst) ` set (sh_entries s)" by (auto simp: find_None_iff)
    then have "tb ! i = orig ! i" using tb(6) [OF that] by blast
    then show ?thesis using r(2) [of 0 i] None by simp
  next
    case (Some e)
    then have "e \<in> set (sh_entries s)" "unat (fst e) = i"
      by (auto simp: find_Some_iff)
    then have "snd e = orig ! i" using tb(5) [of "fst e" "snd e"] by simp
    then show ?thesis using r(2) [of 0 i] Some by simp
  qed
  then have "restore_loop (\<lambda>_. True) 0 (sh_entries s) tb = orig"
    using r(1) tb(2,3) by (intro nth_equalityI) simp_all
  then show ?thesis using tb(1) by (simp add: ksu_syscall_hook_exit_def)
qed

section \<open>Properties\<close>

text \<open>The direct hooks set and removed while the module is loaded; the patch of a set may fail.\<close>

datatype 'f table_op = Hook_Entry bool s32 'f | Unhook_Entry s32

primrec run_op :: "nat \<Rightarrow> 'f table_op \<Rightarrow> ('f, 'h) syscall_hooks \<Rightarrow> ('f, 'h) syscall_hooks" where
  "run_op N (Hook_Entry ok nr f) s = snd (ksu_syscall_table_hook N ok nr f s)"
| "run_op N (Unhook_Entry nr) s = ksu_syscall_table_unhook N True nr s"

primrec op_nr :: "'f table_op \<Rightarrow> s32 set" where
  "op_nr (Hook_Entry ok nr f) = {nr}"
| "op_nr (Unhook_Entry nr) = {}"

lemma room_for:
  assumes "distinct (map fst (sh_entries s))" "set (map fst (sh_entries s)) \<subseteq> A" "finite A" "nr \<in> A"
    "card A \<le> HOOKED_ENTRIES"
  shows "has_room nr s"
proof (cases "nr \<in> fst ` set (sh_entries s)")
  case False
  then have "set (map fst (sh_entries s)) \<subset> A" using assms(2,4) by auto
  then have "card (set (map fst (sh_entries s))) < card A" by (rule psubset_card_mono [OF assms(3)])
  then have "length (sh_entries s) < HOOKED_ENTRIES"
    using distinct_card [OF assms(1)] assms(5) by simp
  then show ?thesis by (simp add: has_room_def)
qed (simp add: has_room_def)

lemma run_ops_tracked:
  assumes "tracked N orig s" "set (map fst (sh_entries s)) \<subseteq> A" "finite A" "(\<Union>x\<in>set ops. op_nr x) \<subseteq> A"
    "card A \<le> HOOKED_ENTRIES"
  shows "tracked N orig (fold (run_op N) ops s)"
  using assms(1,2,4)
proof (induction ops arbitrary: s)
  case (Cons x ops)
  have d: "distinct (map fst (sh_entries s))" using Cons.prems(1) by (simp add: tracked_def)
  have "tracked N orig (run_op N x s) \<and> set (map fst (sh_entries (run_op N x s))) \<subseteq> A"
  proof (cases x)
    case (Hook_Entry ok nr f)
    have "nr \<in> A" using Cons.prems(3) Hook_Entry by simp
    then have "has_room nr s" by (rule room_for [OF d Cons.prems(2) assms(3) _ assms(5)])
    note h = hook_tracked [OF Cons.prems(1) this, of ok f]
    have "set (map fst (sh_entries (run_op N x s))) \<subseteq> A"
      unfolding Hook_Entry run_op.simps by (rule subset_trans [OF h(2)]) (use \<open>nr \<in> A\<close> Cons.prems(2) in blast)
    then show ?thesis using h(1) Hook_Entry by simp
  next
    case (Unhook_Entry nr)
    note u = unhook_tracked [OF Cons.prems(1), of nr]
    have "set (map fst (sh_entries (run_op N x s))) \<subseteq> A"
      unfolding Unhook_Entry run_op.simps by (rule subset_trans [OF u(2) Cons.prems(2)])
    then show ?thesis using u(1) Unhook_Entry by simp
  qed
  with Cons.IH [of "run_op N x s"] Cons.prems(3) show ?case by (simp only: fold_simps list.set UN_insert Un_subset_iff comp_apply)
qed simp

lemma find_ni_loop_one:
  "find_ni_loop ni k tb (Suc 0) [] = (case index_of (\<lambda>f. f = ni) tb of None \<Rightarrow> [] | Some i \<Rightarrow> [k + i])"
proof (induction tb arbitrary: k)
  case (Cons f tb)
  have "find_ni_loop ni (Suc k) tb (Suc 0) [k] = [k]" by (cases tb) simp_all
  with Cons show ?case by (auto split: option.split)
qed simp

lemma init_tracked:
  fixes s0 :: "('f, 'h) syscall_hooks"
  assumes "length orig = N" "s0 = hooks_at_load N"
  shows "tracked N orig (ksu_syscall_hook_init N ok (Some orig) ni disp s0)"
    "length (sh_entries (ksu_syscall_hook_init N ok (Some orig) ni disp s0)) \<le> 1"
proof -
  define s1 where "s1 = s0\<lparr>sh_hooks := no_hooks N, sh_table := Some orig\<rparr>"
  have t: "tracked N orig s1" "sh_entries s1 = []" and t1: "\<And>d. tracked N orig (s1\<lparr>sh_dispatcher_nr := d\<rparr>)"
    and room: "\<And>d. has_room d (s1\<lparr>sh_dispatcher_nr := d\<rparr>)"
    using assms by (simp_all add: tracked_def s1_def hooks_at_load_def has_room_def HOOKED_ENTRIES_def)
  have e: "length (sh_entries (snd (ksu_syscall_table_hook N ok d disp (s1\<lparr>sh_dispatcher_nr := d\<rparr>)))) \<le> 1" for d
    using t(2) by (auto simp: ksu_syscall_table_hook_def patch_syscall_table_def Let_def split: option.split)
  have eq: "ksu_syscall_hook_init N ok (Some orig) ni disp s0 =
     (case ksu_find_ni_syscall_slots ni 1 s1 of [] \<Rightarrow> s1
      | ni_slot # _ \<Rightarrow> snd (ksu_syscall_table_hook N ok (of_nat ni_slot) disp (s1\<lparr>sh_dispatcher_nr := of_nat ni_slot\<rparr>)))"
    unfolding ksu_syscall_hook_init_def Let_def s1_def [symmetric]
    by (cases "ksu_find_ni_syscall_slots ni 1 s1") simp_all
  have "tracked N orig (ksu_syscall_hook_init N ok (Some orig) ni disp s0) \<and>
     length (sh_entries (ksu_syscall_hook_init N ok (Some orig) ni disp s0)) \<le> 1"
    unfolding eq using hook_tracked(1) [OF t1 room] e t by (cases "ksu_find_ni_syscall_slots ni 1 s1") simp_all
  then show "tracked N orig (ksu_syscall_hook_init N ok (Some orig) ni disp s0)"
    "length (sh_entries (ksu_syscall_hook_init N ok (Some orig) ni disp s0)) \<le> 1" by blast+
qed

text \<open>
  C22: Unloading gives the system-call table back: whatever entries are hooked and unhooked
  while the module is loaded, with at most fifteen different numbers besides the dispatcher's
  slot, the table is in the end the one the module found, and no handler, dispatcher slot or
  record is left.
\<close>

theorem syscall_table_restored:
  assumes "length orig = N" "finite A" "card A \<le> 15" "(\<Union>x\<in>set ops. op_nr x) \<subseteq> A"
  shows "ksu_syscall_hook_exit N (\<lambda>_. True)
       (fold (run_op N) ops (ksu_syscall_hook_init N ok (Some orig) ni disp (hooks_at_load N :: ('f, 'h) syscall_hooks))) =
     \<lparr>sh_table = Some orig, sh_dispatcher_nr = NO_DISPATCHER, sh_hooks = no_hooks N, sh_entries = []\<rparr>"
proof (rule exit_restores)
  let ?s = "ksu_syscall_hook_init N ok (Some orig) ni disp (hooks_at_load N :: ('f, 'h) syscall_hooks)"
  let ?B = "set (map fst (sh_entries ?s))"
  note i = init_tracked [OF assms(1) refl, of ok ni disp, where ?'h = 'h]
  have "card ?B \<le> 1" using card_length [of "map fst (sh_entries ?s)"] i(2) by simp
  then have "card (?B \<union> A) \<le> HOOKED_ENTRIES"
    using card_Un_le [of ?B A] assms(3) by (simp add: HOOKED_ENTRIES_def)
  then show "tracked N orig (fold (run_op N) ops ?s)"
    using assms(2,4) by (intro run_ops_tracked [OF i(1), of "?B \<union> A"]) auto
qed

theorem syscall_table_restored_witness:
  "ksu_syscall_hook_exit 3 (\<lambda>_. True)
     (fold (run_op 3) [Hook_Entry True 2 9, Hook_Entry True 0 8, Unhook_Entry 2, Hook_Entry False 2 7]
       (ksu_syscall_hook_init 3 True (Some [4, 1 :: nat, 5]) (Some 1) 77 (hooks_at_load 3))) =
   \<lparr>sh_table = Some [4, 1, 5], sh_dispatcher_nr = NO_DISPATCHER, sh_hooks = no_hooks 3 :: nat option list, sh_entries = []\<rparr>"
  using syscall_table_restored [of "[4, 1 :: nat, 5]" 3 "{0, 2}"
      "[Hook_Entry True 2 9, Hook_Entry True 0 8, Unhook_Entry 2, Hook_Entry False 2 7]" True "Some 1" 77]
  by simp

text \<open>
  C23: On arm64, with the dispatcher installed, a call with a registered handler reaches that
  handler with its own number and the registers the caller gave; any other call reaches the
  function of the table with unchanged registers; a call of the dispatcher's slot itself fails
  as the unused slot did; and a 32-bit task never reaches a handler.
\<close>

theorem syscall_routing:
  assumes "native_arm nr regs" "hooks_ok N s" "0 \<le> sint (sh_dispatcher_nr s)"
    "tb ! unat (sh_dispatcher_nr s) = disp" "\<And>i. i < N \<Longrightarrow> tb ! i = disp \<Longrightarrow> i = unat (sh_dispatcher_nr s)"
  shows "case serve pr_syscallno (ksu_syscall_dispatcher N s) N disp tb (ksu_sys_enter_handler N compat_task s (scast nr) regs)
     of (out, regs1) \<Rightarrow>
     if \<not> nr_ok N nr \<or> nr = sh_dispatcher_nr s then out = Failed ENOSYS
     else case sh_hooks s ! unat nr of
            Some h \<Rightarrow> if compat_task then out = Table (tb ! unat nr) \<and> regs1 = regs
                      else out = Handler h nr \<and> regs1 = regs
          | None \<Rightarrow> out = Table (tb ! unat nr) \<and> regs1 = regs"
  by (rule arm.routing [OF assms])

text \<open>On x86_64 the handler sees the call's number where the kernel preset the result.\<close>

theorem syscall_routing_x86:
  assumes "native_x86 nr regs" "hooks_ok N s" "0 \<le> sint (sh_dispatcher_nr s)"
    "tb ! unat (sh_dispatcher_nr s) = disp" "\<And>i. i < N \<Longrightarrow> tb ! i = disp \<Longrightarrow> i = unat (sh_dispatcher_nr s)"
  shows "case serve (\<lambda>regs. ucast (pr_orig_ax regs)) (ksu_syscall_dispatcher_x86 N s) N disp tb
       (ksu_sys_enter_handler_x86 N compat_task s (scast nr) regs)
     of (out, regs1) \<Rightarrow>
     if \<not> nr_ok N nr \<or> nr = sh_dispatcher_nr s then out = Failed ENOSYS
     else case sh_hooks s ! unat nr of
            Some h \<Rightarrow> if compat_task then out = Table (tb ! unat nr) \<and> regs1 = regs
                      else out = Handler h nr \<and> regs1 = regs\<lparr>pr_ax := scast nr\<rparr>
          | None \<Rightarrow> out = Table (tb ! unat nr) \<and> regs1 = regs"
  by (rule x86.routing [OF assms])

definition ex_regs :: "s32 \<Rightarrow> pt_regs" where
  "ex_regs nr = \<lparr>pr_parm1 = 10, pr_parm2 = 20, pr_parm3 = 30, pr_parm4 = 40, pr_parm5 = 50, pr_sp = 4096,
     pr_syscallno = nr, pr_x8 = scast nr, pr_orig_ax = 0, pr_ax = 0\<rparr>"

definition ex_hooks :: "(nat, nat) syscall_hooks" where
  "ex_hooks = \<lparr>sh_table = Some [4, 77, 5], sh_dispatcher_nr = 1, sh_hooks = [None, None, Some 8], sh_entries = [(1, 1)]\<rparr>"

theorem syscall_routing_witness:
  "fst (serve pr_syscallno (ksu_syscall_dispatcher 3 ex_hooks) 3 77 [4, 77, 5 :: nat]
      (ksu_sys_enter_handler 3 False ex_hooks (scast (2 :: s32)) (ex_regs 2))) = Handler 8 2"
proof -
  have "native_arm 2 (ex_regs 2)" "hooks_ok 3 ex_hooks"
    by (simp_all add: native_arm_def ex_regs_def hooks_ok_def ex_hooks_def nr_ok_def ksu_has_syscall_hook_def)
  moreover have "i = 1" if "i < 3" "[4, 77, 5 :: nat] ! i = 77" for i
    using that by (simp add: less_Suc_eq numeral_3_eq_3 numeral_2_eq_2) auto
  ultimately show ?thesis
    using syscall_routing [of 2 "ex_regs 2" 3 ex_hooks "[4, 77, 5 :: nat]" 77 False]
    by (simp add: ex_hooks_def nr_ok_def split: prod.splits)
qed

end
