(* ===== verification/Hook_Manager.thy ===== *)
theory Hook_Manager
  imports Adb_Root Setuid_Hook Boot_Steps Syscall_Restore
begin

text \<open>
  The four hooked system calls and their registration
  (\<^verbatim>\<open>kernel/hook/syscall_event_bridge.c\<close>, \<^verbatim>\<open>kernel/hook/syscall_hook_manager.c\<close>): the bridge
  composes the boot observer, the log, the su and adb handlers and the setuid hook around the
  original calls; the manager marks threads as tracepoints come and go, and registers and
  removes everything.
\<close>

section \<open>The bridge\<close>

text \<open>
  What the handlers change beside the state of \<^theory_text>\<open>Sucompat\<close>: the boot state (whose own table
  is not used here: \<open>ss_allow\<close> is the table), the driver descriptors and the mount namespace of
  the current task. The static key of the boot observer is on until \<open>Stop_Execve_Hook\<close> is
  among the recorded calls.
\<close>

record 'ns hook_world =
  hw_boot :: boot
  hw_driver :: driver
  hw_ns :: 'ns

text \<open>
  \<open>br_stack\<close>: what the uninitialised argument buffer of the boot observer holds; \<open>br_rounds\<close>:
  how often the environment buffer can grow.
\<close>

record 'ns bridge_env =
  br_sys :: "'ns hook_world sys_env"
  br_boot :: boot_env
  br_setuid :: "'ns hook_env"
  br_stack :: bytes
  br_rounds :: nat

abbreviation current :: "'ns bridge_env \<Rightarrow> 'ns hook_world sys_state \<Rightarrow> thread option" where
  "current H s \<equiv> find_thread (sy_pid (br_sys H)) (ss_kernel s)"

abbreviation call_orig :: "'ns bridge_env \<Rightarrow> s32 \<Rightarrow> 'ns hook_world sys_state \<Rightarrow> int \<times> 'ns hook_world sys_state" where
  "call_orig H \<equiv> sy_call (br_sys H)"

text \<open>\<open>strstr\<close> on NUL-terminated arrays.\<close>

definition strstr :: "bytes \<Rightarrow> bytes \<Rightarrow> bool" where
  "strstr a b = (let s = c_str a; p = c_str b in list_ex (\<lambda>i. take (length p) (drop i s) = p) [0..<Suc (length s)])"

text \<open>The part of the array past the string is not initialised in C and not read.\<close>

definition ksu_handle_init_mark_tracker ::
    "'ns bridge_env \<Rightarrow> bool \<Rightarrow> 'ns hook_world sys_state \<Rightarrow> 'ns hook_world sys_state" where
  "ksu_handle_init_mark_tracker H filename_user s =
     (let V = br_sys H in
      if \<not> filename_user then s
      else
        let fn = sy_untag V (pr_parm1 (ss_regs s));
            (ret, buf) = strncpy_from_user (replicate 64 0) (unat fn) 64 (ss_mem s)
        in if ret < 0 then s
           else
             let path = buf[63 := 0] in
             if str_eq path KSUD_PATH then
               s\<lparr>ss_kernel := update_thread (sy_pid V)
                  (\<lambda>t. t\<lparr>th_cred := escape_to_root_for_init (sy_lsm V) (ee_prepare (sy_escape V)) (th_cred t)\<rparr>) (ss_kernel s)\<rparr>
             else if \<not> strstr path (lit ''/app_process'') \<and> \<not> strstr path (lit ''/adbd'') \<and>
                     \<not> strstr path (lit ''/stub_zygote'')
             then s\<lparr>ss_kernel := ksu_clear_flag_if_needed (sy_pid V) (ss_kernel s)\<rparr>
             else s)"

definition ksu_hook_newfstatat ::
    "'ns bridge_env \<Rightarrow> s32 \<Rightarrow> 'ns hook_world sys_state \<Rightarrow> (int \<times> 'ns hook_world sys_state) option" where
  "ksu_hook_newfstatat H nr s =
     (if \<not> ksu_su_compat_enabled (sy_flags (br_sys H)) then Some (call_orig H nr s)
      else ksu_handle_stat_sucompat (br_sys H) nr s)"

definition ksu_hook_faccessat ::
    "'ns bridge_env \<Rightarrow> s32 \<Rightarrow> 'ns hook_world sys_state \<Rightarrow> (int \<times> 'ns hook_world sys_state) option" where
  "ksu_hook_faccessat H nr s =
     (if \<not> ksu_su_compat_enabled (sy_flags (br_sys H)) then Some (call_orig H nr s)
      else ksu_handle_faccessat_sucompat (br_sys H) nr s)"

definition ksu_stop_ksud_execve_hook :: "boot \<Rightarrow> boot" where
  "ksu_stop_ksud_execve_hook b = log_call Stop_Execve_Hook b"

definition ksud_execve_key :: "boot \<Rightarrow> bool" where
  "ksud_execve_key b \<longleftrightarrow> Stop_Execve_Hook \<notin> set (bt_calls b)"

text \<open>The boot observer on the registers of the call.\<close>

definition observe_execve :: "'ns bridge_env \<Rightarrow> 'ns hook_world sys_state \<Rightarrow> 'ns hook_world sys_state" where
  "observe_execve H s =
     (let w = ss_world s;
          b = ksu_execve_hook_ksud (br_boot H) (ss_mem s) (br_stack H) (pr_parm1 (ss_regs s)) (pr_parm2 (ss_regs s))
                ((hw_boot w)\<lparr>bt_allow := ss_allow s\<rparr>)
      in s\<lparr>ss_allow := bt_allow b, ss_world := w\<lparr>hw_boot := b\<rparr>\<rparr>)"

definition emit_root_execve ::
    "'w sys_env \<Rightarrow> pending_event option \<Rightarrow> int \<times> 'w sys_state \<Rightarrow> int \<times> 'w sys_state" where
  "emit_root_execve V pending r =
     (let (ret, s) = r
      in (ret, s\<lparr>ss_log := ksu_sulog_emit_pending (sy_event_alloc V) (sy_now V) pending (word_of_int ret) (ss_log s)\<rparr>))"

definition ksu_hook_execve ::
    "'ns bridge_env \<Rightarrow> s32 \<Rightarrow> 'ns hook_world sys_state \<Rightarrow> (int \<times> 'ns hook_world sys_state) option" where
  "ksu_hook_execve H nr s =
     (let V = br_sys H in
      case current H s of
        None \<Rightarrow> None
      | Some t \<Rightarrow>
          let current_is_init = is_init (sy_lsm V) (sy_sids V) (cr_security (th_cred t));
              s1 = (if ksud_execve_key (hw_boot (ss_world s)) then observe_execve H s else s);
              (pending, log1) =
                (if cr_euid (th_cred t) = 0
                 then ksu_sulog_capture_root_execve (sy_capture V) (ksu_sulog_enabled (sy_flags V))
                        (log_filename V (pr_parm1 (ss_regs s1)) (ss_mem s1)) (log_argv (pr_parm2 (ss_regs s1)) (ss_mem s1))
                        (ss_log s1)
                 else (None, ss_log s1));
              s2 = s1\<lparr>ss_log := log1\<rparr>
          in if th_pid t \<noteq> 1 \<and> current_is_init then
               let s3 = ksu_handle_init_mark_tracker H True s2;
                   (_, s4) = ksu_adb_root_handle_execve (br_rounds H) V s3
               in Some (emit_root_execve V pending (call_orig H nr s4))
             else if ksu_su_compat_enabled (sy_flags V) then
               map_option (emit_root_execve V pending) (ksu_handle_execve_sucompat V True nr s2)
             else Some (emit_root_execve V pending (call_orig H nr s2)))"

text \<open>The setuid hook runs after the original call, on the task's new uid.\<close>

definition ksu_hook_setresuid ::
    "'ns bridge_env \<Rightarrow> s32 \<Rightarrow> 'ns hook_world sys_state \<Rightarrow> (int \<times> 'ns hook_world sys_state) option" where
  "ksu_hook_setresuid H nr s =
     (let (ret, s1) = call_orig H nr s in
      if ret < 0 then Some (ret, s1)
      else case current H s1 of
          None \<Rightarrow> None
        | Some t \<Rightarrow>
            map_option
              (\<lambda>hs. (ret, s1\<lparr>ss_allow := hs_allow hs, ss_kernel := hs_kernel hs,
                       ss_world := (ss_world s1)\<lparr>hw_driver := hs_driver hs, hw_ns := hs_ns hs\<rparr>\<rparr>))
              (ksu_handle_setresuid (br_setuid H) (sy_pid (br_sys H)) (cr_uid (th_cred t))
                 \<lparr>hs_allow = ss_allow s1, hs_kernel = ss_kernel s1, hs_driver = hw_driver (ss_world s1),
                  hs_ns = hw_ns (ss_world s1)\<rparr>))"

section \<open>Tracepoints coming and going\<close>

text \<open>The kernel's own registration counter has just been, or is being, changed.\<close>

definition syscall_regfunc_handler :: "ksu_env \<Rightarrow> u32 \<Rightarrow> lsm \<Rightarrow> sid_cache \<Rightarrow> allowlist \<Rightarrow> kernel \<Rightarrow> kernel" where
  "syscall_regfunc_handler E m L C al k =
     (let k1 = (if k_reg_count k < 1 then ksu_mark_running_process_locked E m L C al k
                else if k_reg_count k = 1 then ksu_mark_all_process k else k)
      in ksu_tp_marker_inc_reg_count k1)"

definition syscall_unregfunc_handler :: "ksu_env \<Rightarrow> u32 \<Rightarrow> lsm \<Rightarrow> sid_cache \<Rightarrow> allowlist \<Rightarrow> kernel \<Rightarrow> kernel" where
  "syscall_unregfunc_handler E m L C al k =
     (let k1 = ksu_tp_marker_dec_reg_count k in
      if k_reg_count k1 \<le> 0 then ksu_unmark_all_process k1
      else if k_reg_count k1 = 1 then ksu_mark_running_process_locked E m L C al k1
      else k1)"

section \<open>Registration\<close>

datatype hook_handler = Hook_Setresuid | Hook_Execve | Hook_Newfstatat | Hook_Faccessat

text \<open>The numbers of the four calls.\<close>

record call_nrs =
  nr_setresuid :: s32
  nr_execve :: s32
  nr_newfstatat :: s32
  nr_faccessat :: s32

text \<open>
  \<open>hm_regfunc_rp\<close> and \<open>hm_unregfunc_rp\<close>: the two return probes are installed; \<open>hm_tracepoint\<close>:
  so is the tracepoint handler.
\<close>

record 'f hook_manager =
  hm_hooks :: "('f, hook_handler) syscall_hooks"
  hm_registry :: "ksu_flags registry"
  hm_kernel :: kernel
  hm_regfunc_rp :: bool
  hm_unregfunc_rp :: bool
  hm_tracepoint :: bool

text \<open>
  \<open>me_probe\<close>: registering a return probe succeeds (by symbol; the allocation is part of it);
  \<open>me_trace\<close>: registering the tracepoint handler succeeds. Both make the kernel run its
  function, which the return probe observes.
\<close>

record manager_env =
  me_ksu :: ksu_env
  me_appid :: u32
  me_lsm :: lsm
  me_sids :: sid_cache
  me_allow :: allowlist
  me_regfunc_probe :: bool
  me_unregfunc_probe :: bool
  me_trace :: bool

definition init_kretprobe :: "bool \<Rightarrow> bool" where
  "init_kretprobe registered = registered"

definition destroy_kretprobe :: "bool \<Rightarrow> bool" where
  "destroy_kretprobe rp = False"

definition register_sys_enter :: "manager_env \<Rightarrow> 'f hook_manager \<Rightarrow> 'f hook_manager" where
  "register_sys_enter M s =
     (if \<not> me_trace M then s
      else s\<lparr>hm_tracepoint := True,
             hm_kernel := if hm_regfunc_rp s
               then syscall_regfunc_handler (me_ksu M) (me_appid M) (me_lsm M) (me_sids M) (me_allow M) (hm_kernel s)
               else hm_kernel s\<rparr>)"

definition unregister_sys_enter :: "manager_env \<Rightarrow> 'f hook_manager \<Rightarrow> 'f hook_manager" where
  "unregister_sys_enter M s =
     (if \<not> hm_tracepoint s then s
      else s\<lparr>hm_tracepoint := False,
             hm_kernel := if hm_unregfunc_rp s
               then syscall_unregfunc_handler (me_ksu M) (me_appid M) (me_lsm M) (me_sids M) (me_allow M) (hm_kernel s)
               else hm_kernel s\<rparr>)"

definition ksu_syscall_hook_manager_init ::
    "nat \<Rightarrow> call_nrs \<Rightarrow> manager_env \<Rightarrow> 'f hook_manager \<Rightarrow> 'f hook_manager" where
  "ksu_syscall_hook_manager_init N nrs M s =
     (let s1 = s\<lparr>hm_regfunc_rp := init_kretprobe (me_regfunc_probe M),
                 hm_unregfunc_rp := init_kretprobe (me_unregfunc_probe M)\<rparr>;
          h1 = snd (ksu_register_syscall_hook N (nr_setresuid nrs) Hook_Setresuid (hm_hooks s1));
          h2 = snd (ksu_register_syscall_hook N (nr_execve nrs) Hook_Execve h1);
          h3 = snd (ksu_register_syscall_hook N (nr_newfstatat nrs) Hook_Newfstatat h2);
          h4 = snd (ksu_register_syscall_hook N (nr_faccessat nrs) Hook_Faccessat h3);
          s2 = register_sys_enter M (s1\<lparr>hm_hooks := h4\<rparr>)
      in s2\<lparr>hm_registry := ksu_sucompat_init (ksu_setuid_hook_init (hm_registry s2))\<rparr>)"

definition ksu_syscall_hook_manager_exit ::
    "nat \<Rightarrow> (nat \<Rightarrow> bool) \<Rightarrow> call_nrs \<Rightarrow> manager_env \<Rightarrow> 'f hook_manager \<Rightarrow> 'f hook_manager" where
  "ksu_syscall_hook_manager_exit N ok nrs M s =
     (let s1 = unregister_sys_enter M s;
          s2 = s1\<lparr>hm_regfunc_rp := destroy_kretprobe (hm_regfunc_rp s1),
                  hm_unregfunc_rp := destroy_kretprobe (hm_unregfunc_rp s1)\<rparr>;
          h1 = ksu_unregister_syscall_hook N (nr_setresuid nrs) (hm_hooks s2);
          h2 = ksu_unregister_syscall_hook N (nr_execve nrs) h1;
          h3 = ksu_unregister_syscall_hook N (nr_newfstatat nrs) h2;
          h4 = ksu_unregister_syscall_hook N (nr_faccessat nrs) h3;
          h5 = ksu_syscall_hook_exit N ok h4
      in s2\<lparr>hm_hooks := h5, hm_registry := ksu_setuid_hook_exit (ksu_sucompat_exit (hm_registry s2))\<rparr>)"

section \<open>Properties\<close>

text \<open>
  C26: An ordinary application does not notice the hooks. For a task whose uid is not allowed,
  that is not root and not in init's domain, once the boot observer is switched off, an
  execution, a stat or a file test is exactly the original system call.
\<close>

theorem ordinary_apps_unaffected:
  assumes "current H s = Some t" "\<not> current_allowed (br_sys H) t s" "cr_euid (th_cred t) \<noteq> 0"
    "\<not> is_init (sy_lsm (br_sys H)) (sy_sids (br_sys H)) (cr_security (th_cred t))"
    "\<not> ksud_execve_key (hw_boot (ss_world s))"
  shows "ksu_hook_execve H nr s = Some (call_orig H nr s) \<and>
    ksu_hook_newfstatat H nr s = Some (call_orig H nr s) \<and>
    ksu_hook_faccessat H nr s = Some (call_orig H nr s)"
proof -
  have "emit_root_execve V None r = r" for V and r :: "int \<times> 'a hook_world sys_state"
    by (simp add: emit_root_execve_def ksu_sulog_emit_pending_def split: prod.split)
  moreover have "ksu_handle_execve_sucompat (br_sys H) True nr s = Some (call_orig H nr s)"
    using assms(2) by (simp add: execve_cases [OF assms(1)] takes_over_def)
  ultimately have "ksu_hook_execve H nr s = Some (call_orig H nr s)"
    using assms by (simp add: ksu_hook_execve_def Let_def)
  then show ?thesis
    using assms(1,2)
    by (simp add: ksu_hook_newfstatat_def ksu_hook_faccessat_def ksu_handle_stat_sucompat_def
        ksu_handle_faccessat_sucompat_def)
qed

definition ex_bridge :: "bytes list bridge_env" where
  "ex_bridge = \<lparr>br_sys = \<lparr>sy_ksu = ex_env, sy_appid = 0xFFFFFFFF, sy_lsm = ex_lsm, sy_sids = no_cache, sy_escape = ex_escape,
       sy_flags = flags_at_load, sy_capture = ex_capture, sy_event_alloc = True, sy_now = 0, sy_untag = (\<lambda>p. p),
       sy_kern_path = (\<lambda>_. Inr ()), sy_fd = Inr 5, sy_open = Inr (),
       sy_call = (\<lambda>nr s. (- 2, s)), sy_execveat = 281, sy_pid = 200\<rparr>,
     br_boot = ex_boot_env, br_setuid = ex_hook, br_stack = replicate 16 0, br_rounds = 4\<rparr>"

definition ex_bridge_state :: "bytes list hook_world sys_state" where
  "ex_bridge_state = \<lparr>ss_regs = ex_user_regs 100 100, ss_mem = write_bytes 100 su_path (\<lambda>_. Some 0), ss_tmp_fds = [],
     ss_override = False, ss_allow = ex_list 10001 True, ss_kernel = ex_kernel, ss_log = ex_log,
     ss_world = \<lparr>hw_boot = ex_boot\<lparr>bt_calls := [Stop_Execve_Hook]\<rparr>, hw_driver = \<lparr>dr_fds = [], dr_works = []\<rparr>, hw_ns = []\<rparr>\<rparr>"

theorem ordinary_apps_unaffected_witness:
  "ksu_hook_execve ex_bridge 221 ex_bridge_state = Some (- 2, ex_bridge_state)"
proof -
  have c: "current ex_bridge ex_bridge_state = Some (ex_thread 200 10002)"
    by (simp add: ex_bridge_def ex_bridge_state_def find_thread_def ex_kernel_def ex_thread_def)
  have "inv_chains ex_env (ex_list 10001 True)" using ex_list_inv by (simp add: al_inv_def)
  from is_allow_uid_iff [OF this, of "0xFFFFFFFF" 10002]
  have a: "\<not> current_allowed (br_sys ex_bridge) (ex_thread 200 10002) ex_bridge_state"
    by (simp add: current_allowed_def ksu_is_allow_uid_for_current_def ex_bridge_def ex_bridge_state_def ex_thread_def
        ex_cred_def ex_list_profile is_uid_manager_def)
  have i: "\<not> is_init (sy_lsm (br_sys ex_bridge)) (sy_sids (br_sys ex_bridge)) (cr_security (th_cred (ex_thread 200 10002)))"
    by (simp add: ex_bridge_def ex_thread_def ex_cred_def is_init_def no_cache_def is_sid_match_def ex_lsm_def)
  show ?thesis
    using ordinary_apps_unaffected [OF c a _ i, of 221]
    by (simp add: ex_thread_def ex_cred_def ksud_execve_key_def ex_bridge_state_def) (simp add: ex_bridge_def)
qed

text \<open>
  The marks and the tracepoints. \<open>n\<close> registrations are active; the configuration (the manager's
  id, the cached ids, the allowlist) changes with a refresh of the marks, as its changes do.
\<close>

inductive tp_reach :: "ksu_env \<Rightarrow> lsm \<Rightarrow> nat \<Rightarrow> u32 \<Rightarrow> sid_cache \<Rightarrow> allowlist \<Rightarrow> kernel \<Rightarrow> bool" for E L where
  start: "k_reg_count k = 0 \<Longrightarrow> \<forall>t\<in>set (k_threads k). \<not> th_tracepoint t \<Longrightarrow> tp_reach E L 0 m C al k"
| reg: "tp_reach E L n m C al k \<Longrightarrow> tp_reach E L (Suc n) m C al (syscall_regfunc_handler E m L C al k)"
| unreg: "tp_reach E L (Suc n) m C al k \<Longrightarrow> tp_reach E L n m C al (syscall_unregfunc_handler E m L C al k)"
| refresh: "tp_reach E L n m C al k \<Longrightarrow> 0 < n \<Longrightarrow> tp_reach E L n m' C' al' (ksu_mark_running_process E m' L C' al' k)"

definition user_thread :: "thread \<Rightarrow> bool" where
  "user_thread t \<longleftrightarrow> th_pid t = 1 \<or> th_has_mm t"

lemma wants_mark_flag [simp]: "wants_mark E m L C al (set_flag t) = wants_mark E m L C al t"
  "wants_mark E m L C al (clear_flag t) = wants_mark E m L C al t"
  by (simp_all add: wants_mark_def set_flag_def clear_flag_def)

lemma marked_locked:
  "t \<in> set (k_threads (ksu_mark_running_process_locked E m L C al k)) \<Longrightarrow> user_thread t \<Longrightarrow>
   th_tracepoint t = wants_mark E m L C al t"
  by (auto simp: ksu_mark_running_process_locked_def user_thread_def set_flag_def clear_flag_def wants_mark_def split: if_splits)

lemma mark_all_threads:
  "t \<in> set (k_threads (ksu_mark_all_process k)) \<Longrightarrow> th_tracepoint t"
  "t \<in> set (k_threads (ksu_unmark_all_process k)) \<Longrightarrow> \<not> th_tracepoint t"
  by (auto simp: ksu_mark_all_process_def ksu_unmark_all_process_def handle_process_mark_def update_threads_def
      set_flag_def clear_flag_def)

lemma reg_counts [simp]:
  "k_reg_count (ksu_mark_running_process_locked E m L C al k) = k_reg_count k"
  "k_reg_count (ksu_mark_all_process k) = k_reg_count k" "k_reg_count (ksu_unmark_all_process k) = k_reg_count k"
  by (simp_all add: ksu_mark_running_process_locked_def ksu_mark_all_process_def ksu_unmark_all_process_def
      handle_process_mark_def update_threads_def)



text \<open>The manager as it is when the hook tables are ready and nothing is registered.\<close>

definition fresh_manager ::
    "nat \<Rightarrow> 'f list \<Rightarrow> 'f option \<Rightarrow> 'f \<Rightarrow> ksu_flags registry \<Rightarrow> kernel \<Rightarrow> 'f hook_manager" where
  "fresh_manager N orig ni disp R k =
     \<lparr>hm_hooks = ksu_syscall_hook_init N True (Some orig) ni disp (hooks_at_load N), hm_registry = R, hm_kernel = k,
      hm_regfunc_rp = False, hm_unregfunc_rp = False, hm_tracepoint = False\<rparr>"

lemma register_frame:
  "sh_table (snd (ksu_register_syscall_hook N nr h s)) = sh_table s"
  "sh_entries (snd (ksu_register_syscall_hook N nr h s)) = sh_entries s"
  "sh_table (ksu_unregister_syscall_hook N nr s) = sh_table s"
  "sh_entries (ksu_unregister_syscall_hook N nr s) = sh_entries s"
  by (simp_all add: ksu_register_syscall_hook_def ksu_unregister_syscall_hook_def)

lemma tracked_frame:
  "sh_table s = sh_table s' \<Longrightarrow> sh_entries s = sh_entries s' \<Longrightarrow> tracked N orig s \<longleftrightarrow> tracked N orig s'"
  by (simp add: tracked_def)

definition handlers_set :: "nat \<Rightarrow> call_nrs \<Rightarrow> hook_handler option list \<Rightarrow> bool" where
  "handlers_set N nrs hs \<longleftrightarrow> hs ! unat (nr_setresuid nrs) = Some Hook_Setresuid \<and>
     hs ! unat (nr_execve nrs) = Some Hook_Execve \<and> hs ! unat (nr_newfstatat nrs) = Some Hook_Newfstatat \<and>
     hs ! unat (nr_faccessat nrs) = Some Hook_Faccessat"

definition nrs_ok :: "nat \<Rightarrow> call_nrs \<Rightarrow> bool" where
  "nrs_ok N nrs \<longleftrightarrow> list_all (nr_ok N) [nr_setresuid nrs, nr_execve nrs, nr_newfstatat nrs, nr_faccessat nrs] \<and>
     distinct [nr_setresuid nrs, nr_execve nrs, nr_newfstatat nrs, nr_faccessat nrs]"

lemma init_hooks: "sh_hooks (ksu_syscall_hook_init N ok tab ni disp s) = no_hooks N"
  by (auto simp: ksu_syscall_hook_init_def ksu_syscall_table_hook_def patch_syscall_table_def Let_def
      split: option.split list.split)

lemma register_one:
  assumes "nr_ok N nr" "length hs = N" "hs ! unat nr = None" "sh_hooks s = hs"
  shows "sh_hooks (snd (ksu_register_syscall_hook N nr h s)) = hs[unat nr := Some h]"
  using assms by (simp add: ksu_register_syscall_hook_def)

lemma manager_registers:
  assumes "nrs_ok N nrs" "sh_hooks (hm_hooks s) = no_hooks N"
  shows "handlers_set N nrs (sh_hooks (hm_hooks (ksu_syscall_hook_manager_init N nrs M s)))"
proof -
  define a b c d where abcd: "a = unat (nr_setresuid nrs)" "b = unat (nr_execve nrs)" "c = unat (nr_newfstatat nrs)"
    "d = unat (nr_faccessat nrs)"
  have ok: "nr_ok N (nr_setresuid nrs)" "nr_ok N (nr_execve nrs)" "nr_ok N (nr_newfstatat nrs)" "nr_ok N (nr_faccessat nrs)"
    using assms(1) by (simp_all add: nrs_ok_def)
  have lt: "a < N" "b < N" "c < N" "d < N" using ok nr_ok_bound unfolding abcd by blast+
  have ne: "a \<noteq> b" "a \<noteq> c" "a \<noteq> d" "b \<noteq> c" "b \<noteq> d" "c \<noteq> d"
    using assms(1) unfolding abcd by (simp_all add: nrs_ok_def word_unat_eq_iff)
  define h1 where "h1 = snd (ksu_register_syscall_hook N (nr_setresuid nrs) Hook_Setresuid (hm_hooks s))"
  define h2 where "h2 = snd (ksu_register_syscall_hook N (nr_execve nrs) Hook_Execve h1)"
  define h3 where "h3 = snd (ksu_register_syscall_hook N (nr_newfstatat nrs) Hook_Newfstatat h2)"
  define h4 where "h4 = snd (ksu_register_syscall_hook N (nr_faccessat nrs) Hook_Faccessat h3)"
  have s1: "sh_hooks h1 = (no_hooks N)[a := Some Hook_Setresuid]"
    unfolding h1_def abcd by (rule register_one [OF ok(1) _ _ assms(2)]) (use lt in \<open>simp_all add: no_hooks_def abcd\<close>)
  have s2: "sh_hooks h2 = (sh_hooks h1)[b := Some Hook_Execve]"
    unfolding h2_def abcd by (rule register_one [OF ok(2) _ _ refl]) (use lt ne s1 in \<open>simp_all add: no_hooks_def abcd\<close>)
  have s3: "sh_hooks h3 = (sh_hooks h2)[c := Some Hook_Newfstatat]"
    unfolding h3_def abcd by (rule register_one [OF ok(3) _ _ refl]) (use lt ne s1 s2 in \<open>simp_all add: no_hooks_def abcd\<close>)
  have s4: "sh_hooks h4 = (sh_hooks h3)[d := Some Hook_Faccessat]"
    unfolding h4_def abcd by (rule register_one [OF ok(4) _ _ refl]) (use lt ne s1 s2 s3 in \<open>simp_all add: no_hooks_def abcd\<close>)
  have "hm_hooks (ksu_syscall_hook_manager_init N nrs M s) = h4"
    by (simp add: ksu_syscall_hook_manager_init_def register_sys_enter_def Let_def h1_def h2_def h3_def h4_def)
  then show ?thesis
    using lt ne s1 s2 s3 s4 unfolding handlers_set_def abcd [symmetric] by (simp add: no_hooks_def nth_list_update)
qed

text \<open>
  Loading and unloading the hooks. When the probes and the tracepoint register, the four
  calls get their handlers, the two features are in the registry and the user threads the module
  cares about are marked; unloading gives back the original system-call table, empties the
  routing table, frees the two feature slots and leaves no thread marked.
\<close>

theorem hook_manager_lifecycle:
  assumes "length orig = N" "nrs_ok N nrs" "length R = 5" "k_reg_count k = 0"
    "me_regfunc_probe M" "me_unregfunc_probe M" "me_trace M"
    "s1 = ksu_syscall_hook_manager_init N nrs M (fresh_manager N orig ni disp R k)"
    "s2 = ksu_syscall_hook_manager_exit N (\<lambda>_. True) nrs M s1"
  shows "handlers_set N nrs (sh_hooks (hm_hooks s1)) \<and>
    hm_registry s1 = R[1 := Some kernel_umount_handler, 0 := Some su_compat_handler] \<and>
    (\<forall>t\<in>set (k_threads (hm_kernel s1)). user_thread t \<longrightarrow>
       th_tracepoint t = wants_mark (me_ksu M) (me_appid M) (me_lsm M) (me_sids M) (me_allow M) t) \<and>
    hm_hooks s2 = \<lparr>sh_table = Some orig, sh_dispatcher_nr = NO_DISPATCHER, sh_hooks = no_hooks N, sh_entries = []\<rparr> \<and>
    hm_registry s2 = R[1 := None, 0 := None] \<and>
    (\<forall>t\<in>set (k_threads (hm_kernel s2)). \<not> th_tracepoint t)"
proof (intro conjI)
  let ?h = "ksu_syscall_hook_init N True (Some orig) ni disp (hooks_at_load N) :: (_, hook_handler) syscall_hooks"
  have f: "hm_hooks (fresh_manager N orig ni disp R k) = ?h" "hm_registry (fresh_manager N orig ni disp R k) = R"
    "hm_kernel (fresh_manager N orig ni disp R k) = k" "\<not> hm_tracepoint (fresh_manager N orig ni disp R k)"
    by (simp_all add: fresh_manager_def)
  show "handlers_set N nrs (sh_hooks (hm_hooks s1))"
    unfolding assms(8) by (rule manager_registers [OF assms(2)]) (simp add: f init_hooks)
  have k1: "hm_kernel s1 = syscall_regfunc_handler (me_ksu M) (me_appid M) (me_lsm M) (me_sids M) (me_allow M) k"
    and tp: "hm_tracepoint s1" "hm_regfunc_rp s1" "hm_unregfunc_rp s1"
    using assms(5-7) unfolding assms(8)
    by (simp_all add: ksu_syscall_hook_manager_init_def register_sys_enter_def init_kretprobe_def Let_def f)
  show "\<forall>t\<in>set (k_threads (hm_kernel s1)). user_thread t \<longrightarrow>
       th_tracepoint t = wants_mark (me_ksu M) (me_appid M) (me_lsm M) (me_sids M) (me_allow M) t"
    unfolding k1 using assms(4) marked_locked
    by (auto simp: syscall_regfunc_handler_def ksu_tp_marker_inc_reg_count_def Let_def)
  have k2: "hm_kernel s2 = syscall_unregfunc_handler (me_ksu M) (me_appid M) (me_lsm M) (me_sids M) (me_allow M) (hm_kernel s1)"
    using tp unfolding assms(9) by (simp add: ksu_syscall_hook_manager_exit_def unregister_sys_enter_def Let_def)
  show "\<forall>t\<in>set (k_threads (hm_kernel s2)). \<not> th_tracepoint t"
    unfolding k2 k1 using assms(4) mark_all_threads(2)
    by (auto simp: syscall_unregfunc_handler_def syscall_regfunc_handler_def ksu_tp_marker_dec_reg_count_def
        ksu_tp_marker_inc_reg_count_def Let_def)
  have e: "sh_table (hm_hooks s1) = sh_table ?h" "sh_entries (hm_hooks s1) = sh_entries ?h"
    unfolding assms(8) by (simp_all add: ksu_syscall_hook_manager_init_def register_sys_enter_def Let_def register_frame f)
  have t1: "tracked N orig (hm_hooks s1)"
    using tracked_frame [OF e] init_tracked(1) [OF assms(1) refl] by blast
  define h4 where "h4 = ksu_unregister_syscall_hook N (nr_faccessat nrs) (ksu_unregister_syscall_hook N (nr_newfstatat nrs)
     (ksu_unregister_syscall_hook N (nr_execve nrs) (ksu_unregister_syscall_hook N (nr_setresuid nrs) (hm_hooks s1))))"
  have "tracked N orig h4"
    using t1 tracked_frame [of h4 "hm_hooks s1"] by (simp add: h4_def register_frame)
  moreover have "hm_hooks s2 = ksu_syscall_hook_exit N (\<lambda>_. True) h4"
    unfolding assms(9) by (simp add: ksu_syscall_hook_manager_exit_def unregister_sys_enter_def Let_def h4_def)
  ultimately show "hm_hooks s2 = \<lparr>sh_table = Some orig, sh_dispatcher_nr = NO_DISPATCHER, sh_hooks = no_hooks N, sh_entries = []\<rparr>"
    using exit_restores by simp
  have ids: "fh_feature_id su_compat_handler = 0" "fh_feature_id kernel_umount_handler = 1"
    by (simp_all add: su_compat_handler_def kernel_umount_handler_def)
  show r1: "hm_registry s1 = R[1 := Some kernel_umount_handler, 0 := Some su_compat_handler]"
    unfolding assms(8)
    by (simp add: ksu_syscall_hook_manager_init_def register_sys_enter_def Let_def f ksu_sucompat_init_def
        ksu_setuid_hook_init_def ksu_kernel_umount_init_def su_compat.register_ok kernel_umount.register_ok ids)
  have "hm_registry s2 = ksu_setuid_hook_exit (ksu_sucompat_exit (hm_registry s1))"
    unfolding assms(9) by (simp add: ksu_syscall_hook_manager_exit_def unregister_sys_enter_def Let_def)
  then show "hm_registry s2 = R[1 := None, 0 := None]"
    using assms(3) unfolding r1
    by (simp add: ksu_setuid_hook_exit_def ksu_kernel_umount_exit_def ksu_sucompat_exit_def ksu_unregister_feature_handler_def
        list_update_swap word_le_nat_alt)
qed

definition ex_manager_env :: manager_env where
  "ex_manager_env = \<lparr>me_ksu = ex_env, me_appid = 10001, me_lsm = ex_lsm, me_sids = no_cache, me_allow = ex_list 10001 True,
     me_regfunc_probe = True, me_unregfunc_probe = True, me_trace = True\<rparr>"

theorem hook_manager_lifecycle_witness:
  "sh_table (hm_hooks (ksu_syscall_hook_manager_exit 6 (\<lambda>_. True) \<lparr>nr_setresuid = 0, nr_execve = 1, nr_newfstatat = 2, nr_faccessat = 3\<rparr>
     ex_manager_env (ksu_syscall_hook_manager_init 6 \<lparr>nr_setresuid = 0, nr_execve = 1, nr_newfstatat = 2, nr_faccessat = 3\<rparr>
       ex_manager_env (fresh_manager 6 [9, 8, 7, 6, 1, 1 :: nat] (Some 1) 77 ksu_feature_init (ex_kernel\<lparr>k_reg_count := 0\<rparr>))))) =
   Some [9, 8, 7, 6, 1, 1]"
proof -
  have "nrs_ok 6 \<lparr>nr_setresuid = 0, nr_execve = 1, nr_newfstatat = 2, nr_faccessat = 3\<rparr>"
    by (simp add: nrs_ok_def nr_ok_def)
  from hook_manager_lifecycle [OF _ this _ _ _ _ _ refl refl, of "[9, 8, 7, 6, 1, 1 :: nat]" ksu_feature_init
      "ex_kernel\<lparr>k_reg_count := 0\<rparr>" ex_manager_env "Some 1" 77]
  show ?thesis by (simp add: ksu_feature_init_def ex_manager_env_def)
qed

end
