(* ===== verification/Policydb.thy ===== *)
theory Policydb
  imports Ksu_Prelude
begin

text \<open>
  The policy database that \<^verbatim>\<open>kernel/selinux/sepolicy.c\<close> edits, and the two operations on its
  access vector table (\<open>get_avtab_node\<close>, \<open>remove_avtab_node\<close>) the rules rest on. The structures
  are those of the security server as far as the file reads or writes them: the table is the
  list of its nodes in the order of the buckets and chains, a node is referred to by its
  position; a symbol table is the list of its entries in iteration order, a bit map is the set of
  its bits. What the file calls of the security server (search and insertion in the table,
  insertion of symbols, the outcome of each allocation, the hexadecimal scanner) is the parameter
  \<open>ss_lib\<close>; \<open>ss_ok\<close> states the documented behaviour of the search and insertion functions.
\<close>

named_theorems policy_simps
named_theorems avtab_intros

abbreviation (input) "AVTAB_ALLOWED \<equiv> (0x1 :: u16)"
abbreviation (input) "AVTAB_AUDITALLOW \<equiv> (0x2 :: u16)"
abbreviation (input) "AVTAB_AUDITDENY \<equiv> (0x4 :: u16)"
abbreviation (input) "AVTAB_AV \<equiv> (0x7 :: u16)"
abbreviation (input) "AVTAB_TRANSITION \<equiv> (0x10 :: u16)"
abbreviation (input) "AVTAB_MEMBER \<equiv> (0x20 :: u16)"
abbreviation (input) "AVTAB_CHANGE \<equiv> (0x40 :: u16)"
abbreviation (input) "AVTAB_XPERMS_ALLOWED \<equiv> (0x100 :: u16)"
abbreviation (input) "AVTAB_XPERMS_AUDITALLOW \<equiv> (0x200 :: u16)"
abbreviation (input) "AVTAB_XPERMS_DONTAUDIT \<equiv> (0x400 :: u16)"
abbreviation (input) "AVTAB_XPERMS \<equiv> (0x700 :: u16)"
abbreviation (input) "AVTAB_XPERMS_IOCTLFUNCTION \<equiv> (1 :: u8)"
abbreviation (input) "AVTAB_XPERMS_IOCTLDRIVER \<equiv> (2 :: u8)"
abbreviation (input) "CEXPR_NAMES \<equiv> (5 :: u32)"

section \<open>Data\<close>

record avtab_key =
  ak_source :: u16
  ak_target :: u16
  ak_class :: u16
  ak_spec :: u16

record extended_perms =
  xp_specified :: u8
  xp_driver :: u8
  xp_p :: "u32 list"

text \<open>The two members of the union \<open>datum.u\<close>; a node uses the one its key asks for.\<close>

record avtab_node =
  an_key :: avtab_key
  an_data :: u32
  an_xperms :: "extended_perms option"

record type_datum =
  ty_value :: u32
  ty_primary :: bool
  ty_attribute :: bool

record constraint_expr =
  ce_type :: u32
  ce_type_names :: "nat set"
  ce_names :: "nat set"

text \<open>A class: permissions with their values, the inherited common ones, the constraints.\<close>

record class_datum =
  cl_value :: u32
  cl_permissions :: "(bytes \<times> u32) list"
  cl_comdatum :: "(bytes \<times> u32) list option"
  cl_constraints :: "constraint_expr list list"

record filename_trans_key =
  fk_ttype :: u32
  fk_tclass :: u16
  fk_name :: bytes

record filename_trans_datum =
  fd_stypes :: "nat set"
  fd_otype :: u32

text \<open>
  The three arrays indexed by type values are \<open>None\<close> when the database still points to an array
  that has been freed, or the array has an element nobody initialised. The roles are the sets of their types, in the order of their values.
\<close>

record policydb =
  pd_avtab :: "avtab_node list"
  pd_nel :: nat
  pd_types :: "(bytes \<times> type_datum) list"
  pd_types_nprim :: u32
  pd_classes :: "(bytes \<times> class_datum) list"
  pd_attr_map :: "nat set list option"
  pd_val_to_struct :: "type_datum list option"
  pd_val_to_name :: "bytes list option"
  pd_role_types :: "nat set list"
  pd_permissive :: "nat set"
  pd_filename_trans :: "(filename_trans_key \<times> filename_trans_datum list) list"
  pd_compat_count :: u32
  pd_len :: nat
  pd_policyvers :: nat
  pd_netlink_route :: bool
  pd_netlink_getneigh :: bool

section \<open>What the security server provides\<close>

datatype alloc_site =
    Alloc_Type | Alloc_Name | Alloc_Attr_Map | Alloc_Val_Struct | Alloc_Val_Name
  | Alloc_Trans | Alloc_Trans_Key | Alloc_Trans_Name | Alloc_Trans_Node | Alloc_Xperms

text \<open>
  \<open>ss_search\<close>, \<open>ss_next\<close>: \<open>avtab_search_node\<close> and \<open>avtab_search_node_next\<close>. \<open>ss_place\<close>: where
  \<open>avtab_insert_nonunique\<close> puts a node, \<open>None\<close> when it fails. \<open>ss_scratch\<close>: whether
  \<open>avtab_alloc\<close> of the one-bucket table succeeds. \<open>ss_sym_place\<close>: where \<open>symtab_insert\<close> puts a
  new name among the present ones. \<open>ss_bit\<close>: whether \<open>ebitmap_set_bit\<close> gets its memory.
  \<open>ss_hex\<close>: the conversion \<open>%hx\<close> of \<open>sscanf\<close> with what follows it; \<open>ss_junk\<close>: what an
  uninitialised \<open>u16\<close> holds.
\<close>

record ss_lib =
  ss_search :: "avtab_node list \<Rightarrow> avtab_key \<Rightarrow> nat option"
  ss_next :: "avtab_node list \<Rightarrow> nat \<Rightarrow> u16 \<Rightarrow> nat option"
  ss_place :: "avtab_node list \<Rightarrow> avtab_key \<Rightarrow> nat option"
  ss_scratch :: "avtab_node list \<Rightarrow> bool"
  ss_sym_place :: "bytes list \<Rightarrow> bytes \<Rightarrow> nat option"
  ss_bit :: "nat set \<Rightarrow> nat \<Rightarrow> bool"
  ss_mem :: "alloc_site \<Rightarrow> bytes \<Rightarrow> bool"
  ss_hex :: "bytes \<Rightarrow> (u16 \<times> bytes) option"
  ss_junk :: "u16 \<times> u16"

text \<open>A node answers a search when the three ids agree and the kinds overlap.\<close>

definition same_ids :: "avtab_key \<Rightarrow> avtab_key \<Rightarrow> bool" where
  "same_ids a b \<longleftrightarrow> ak_source a = ak_source b \<and> ak_target a = ak_target b \<and> ak_class a = ak_class b"

definition av_match :: "avtab_key \<Rightarrow> avtab_node \<Rightarrow> bool" where
  "av_match k n \<longleftrightarrow> same_ids k (an_key n) \<and> ak_spec k AND ak_spec (an_key n) \<noteq> 0"

text \<open>The position of the first element with a property, from a position on.\<close>

fun first_from :: "('a \<Rightarrow> bool) \<Rightarrow> nat \<Rightarrow> 'a list \<Rightarrow> nat option" where
  "first_from P i [] = None"
| "first_from P 0 (x # xs) = (if P x then Some 0 else map_option Suc (first_from P 0 xs))"
| "first_from P (Suc i) (x # xs) = map_option Suc (first_from P i xs)"

text \<open>
  The documented behaviour: the searches give the first and the next answering node, an
  insertion puts the node in front of those it would compete with.
\<close>

definition ss_ok :: "ss_lib \<Rightarrow> bool" where
  "ss_ok K \<longleftrightarrow>
     (\<forall>ns k. ss_search K ns k = first_from (av_match k) 0 ns) \<and>
     (\<forall>ns i sp. i < length ns \<longrightarrow>
        ss_next K ns i sp = first_from (av_match (an_key (ns ! i)\<lparr>ak_spec := sp\<rparr>)) (Suc i) ns) \<and>
     (\<forall>ns k p. ss_place K ns k = Some p \<longrightarrow> p \<le> length ns \<and> (\<forall>j<p. \<not> av_match k (ns ! j))) \<and>
     (\<forall>xs x p. ss_sym_place K xs x = Some p \<longrightarrow> p \<le> length xs)"

definition ebitmap_set_bit :: "ss_lib \<Rightarrow> nat set \<Rightarrow> nat \<Rightarrow> bool \<Rightarrow> bool \<times> nat set" where
  "ebitmap_set_bit K e b v =
     (if \<not> v then (True, e - {b}) else if b \<in> e then (True, e)
      else if ss_bit K e b then (True, insert b e) else (False, e))"

definition insert_at :: "nat \<Rightarrow> 'a \<Rightarrow> 'a list \<Rightarrow> 'a list" where
  "insert_at i x xs = take i xs @ x # drop i xs"

definition remove_at :: "nat \<Rightarrow> 'a list \<Rightarrow> 'a list" where
  "remove_at i xs = take i xs @ drop (Suc i) xs"

section \<open>Nodes of the access vector table\<close>

text \<open>
  The loop over the nodes of an extended key: \<open>fuel\<close> bounds the steps, and the number of nodes is
  enough because each step goes to a later node.
\<close>

fun find_xperms ::
    "ss_lib \<Rightarrow> nat \<Rightarrow> avtab_node list \<Rightarrow> u16 \<Rightarrow> extended_perms \<Rightarrow> nat option \<Rightarrow> nat option" where
  "find_xperms K fuel ns sp x None = None"
| "find_xperms K 0 ns sp x (Some i) = None"
| "find_xperms K (Suc fuel) ns sp x (Some i) =
     (if (case an_xperms (ns ! i) of
            None \<Rightarrow> False
          | Some y \<Rightarrow> xp_specified y = xp_specified x \<and> xp_driver y = xp_driver x)
      then Some i
      else find_xperms K fuel ns sp x (ss_next K ns i sp))"

text \<open>\<open>sizeof(struct avtab_key) + sizeof(struct avtab_datum)\<close>, and what extended permissions add.\<close>

definition avtab_entry_size :: nat where
  "avtab_entry_size = 8 + 8"

definition xperms_size :: nat where
  "xperms_size = 1 + 1 + 4 * 8"

definition get_avtab_node ::
    "ss_lib \<Rightarrow> avtab_key \<Rightarrow> extended_perms option \<Rightarrow> policydb \<Rightarrow> nat option \<times> policydb" where
  "get_avtab_node K k xperms db =
     (let ns = pd_avtab db; ext = ak_spec k AND AVTAB_XPERMS \<noteq> 0;
          found = (case xperms of
                     Some x \<Rightarrow>
                       if ext then find_xperms K (length ns) ns (ak_spec k) x (ss_search K ns k)
                       else ss_search K ns k
                   | None \<Rightarrow> ss_search K ns k)
      in case found of
           Some i \<Rightarrow> (Some i, db)
         | None \<Rightarrow>
             (case ss_place K ns k of
                None \<Rightarrow> (None, db)
              | Some p \<Rightarrow>
                  let n = \<lparr>an_key = k,
                           an_data = (if ext then 0 else if ak_spec k = AVTAB_AUDITDENY then - 1 else 0),
                           an_xperms = (if ext then xperms else None)\<rparr>
                  in (Some p,
                      db\<lparr>pd_avtab := insert_at p n ns, pd_nel := pd_nel db + 1,
                         pd_len := pd_len db + avtab_entry_size + (if ext then xperms_size else 0)\<rparr>)))"

definition is_redundant_avtab_node :: "avtab_node \<Rightarrow> bool" where
  "is_redundant_avtab_node n =
     (if ak_spec (an_key n) AND AVTAB_XPERMS \<noteq> 0 then an_xperms n = None
      else if ak_spec (an_key n) AND AVTAB_AV = 0 then False
      else if ak_spec (an_key n) AND AVTAB_AUDITDENY \<noteq> 0 then an_data n = - 1
      else an_data n = 0)"

definition remove_avtab_node :: "ss_lib \<Rightarrow> nat \<Rightarrow> policydb \<Rightarrow> bool \<times> policydb" where
  "remove_avtab_node K i db =
     (let ns = pd_avtab db in
      if \<not> ss_scratch K ns then (False, db)
      else if i < length ns then
        let n = ns ! i;
            shrink_size = avtab_entry_size +
              (if ak_spec (an_key n) AND AVTAB_XPERMS \<noteq> 0 \<and> an_xperms n \<noteq> None then xperms_size else 0)
        in (True,
            db\<lparr>pd_avtab := remove_at i ns,
               pd_nel := (if pd_nel db > 0 then pd_nel db - 1 else pd_nel db),
               pd_len := (if pd_len db \<ge> shrink_size then pd_len db - shrink_size else pd_len db)\<rparr>)
      else (False, db))"

section \<open>Positions\<close>

lemma first_from_Some:
  "first_from P i xs = Some j \<Longrightarrow> i \<le> j \<and> j < length xs \<and> P (xs ! j) \<and> (\<forall>m. i \<le> m \<and> m < j \<longrightarrow> \<not> P (xs ! m))"
proof (induction P i xs arbitrary: j rule: first_from.induct)
  case (2 P x xs)
  then show ?case by (auto split: if_splits simp: less_Suc_eq_0_disj)
next
  case (3 P i x xs)
  then obtain j' where j: "first_from P i xs = Some j'" "j = Suc j'" by auto
  show ?case
  proof (intro conjI allI impI)
    fix m
    assume m: "Suc i \<le> m \<and> m < j"
    then obtain m' where "m = Suc m'" by (cases m) simp_all
    then show "\<not> P ((x # xs) ! m)" using 3(1) [OF j(1)] m j(2) by simp
  qed (use 3(1) [OF j(1)] j(2) in simp_all)
qed simp

lemma first_from_None:
  "first_from P i xs = None \<longleftrightarrow> (\<forall>m. i \<le> m \<and> m < length xs \<longrightarrow> \<not> P (xs ! m))"
proof (induction P i xs rule: first_from.induct)
  case (2 P x xs)
  then show ?case by (auto simp: less_Suc_eq_0_disj nth_Cons' All_less_Suc2)
next
  case (3 P i x xs)
  have "(\<forall>m. Suc i \<le> m \<and> m < length (x # xs) \<longrightarrow> \<not> P ((x # xs) ! m)) \<longleftrightarrow>
      (\<forall>m. i \<le> m \<and> m < length xs \<longrightarrow> \<not> P (xs ! m))"
  proof (intro iffI allI impI)
    fix m
    assume a: "\<forall>m. Suc i \<le> m \<and> m < length (x # xs) \<longrightarrow> \<not> P ((x # xs) ! m)" and m: "i \<le> m \<and> m < length xs"
    show "\<not> P (xs ! m)" using a [rule_format, of "Suc m"] m by simp
  next
    fix m
    assume a: "\<forall>m. i \<le> m \<and> m < length xs \<longrightarrow> \<not> P (xs ! m)" and m: "Suc i \<le> m \<and> m < length (x # xs)"
    then obtain m' where "m = Suc m'" by (cases m) simp_all
    then show "\<not> P ((x # xs) ! m)" using a [rule_format, of m'] m by simp
  qed
  then show ?case using 3 by simp
qed simp

lemma map_of_insert_at:
  assumes "\<forall>j<p. j < length xs \<longrightarrow> fst (xs ! j) \<noteq> k"
  shows "map_of (insert_at p (k, v) xs) = (map_of xs)(k \<mapsto> v)"
  using assms
proof (induction xs arbitrary: p)
  case (Cons x xs)
  show ?case
  proof (cases p)
    case (Suc q)
    have "fst x \<noteq> k" using Cons.prems Suc by auto
    moreover have "map_of (insert_at q (k, v) xs) = (map_of xs)(k \<mapsto> v)"
      using Cons.prems Suc by (intro Cons.IH) auto
    ultimately show ?thesis using Suc by (cases x) (auto simp: insert_at_def)
  next
    case 0
    then show ?thesis by (cases x) (auto simp: insert_at_def fun_eq_iff)
  qed
qed (simp add: insert_at_def)

lemma map_of_update_at:
  assumes "i < length xs" "fst (xs ! i) = k" "\<forall>j<i. fst (xs ! j) \<noteq> k"
  shows "map_of (xs[i := (k, v)]) = (map_of xs)(k \<mapsto> v)"
  using assms
proof (induction xs arbitrary: i)
  case (Cons x xs)
  show ?case
  proof (cases i)
    case 0
    then show ?thesis using Cons.prems(2) by (cases x) auto
  next
    case (Suc j)
    have "fst x \<noteq> k" using Cons.prems(3) Suc by auto
    moreover have "map_of (xs[j := (k, v)]) = (map_of xs)(k \<mapsto> v)"
      using Cons.prems Suc by (intro Cons.IH) auto
    ultimately show ?thesis using Suc by (cases x) auto
  qed
qed simp

lemma map_of_remove_at:
  assumes "i < length xs" "fst (xs ! i) = k" "\<forall>j<length xs. j \<noteq> i \<longrightarrow> fst (xs ! j) \<noteq> k"
  shows "map_of (remove_at i xs) = (map_of xs)(k := None)"
  using assms
proof (induction xs arbitrary: i)
  case (Cons x xs)
  show ?case
  proof (cases i)
    case 0
    have "k \<notin> fst ` set xs" using Cons.prems(3) 0 by (force simp: in_set_conv_nth)
    then have "map_of xs k = None" by (simp add: map_of_eq_None_iff)
    then show ?thesis using 0 Cons.prems(2) by (cases x) (auto simp: remove_at_def)
  next
    case (Suc j)
    have "fst x \<noteq> k" using Cons.prems(3) Suc by auto
    moreover have "map_of (remove_at j xs) = (map_of xs)(k := None)"
      using Cons.prems Suc by (intro Cons.IH) auto
    ultimately show ?thesis using Suc by (cases x) (auto simp: remove_at_def)
  qed
qed simp

lemma set_insert_at: "set (insert_at p x xs) = insert x (set xs)"
proof -
  have "set (take p xs) \<union> set (drop p xs) = set xs" by (simp only: set_append [symmetric] append_take_drop_id)
  then show ?thesis by (auto simp: insert_at_def)
qed

lemma set_remove_at: "set (remove_at i xs) \<subseteq> set xs"
  by (auto simp: remove_at_def dest: in_set_takeD in_set_dropD)

lemma insert_at_nth [simp]: "p \<le> length xs \<Longrightarrow> insert_at p x xs ! p = x"
  by (simp add: insert_at_def nth_append)

lemma length_insert_at [simp]: "length (insert_at p x xs) = Suc (length xs)"
  by (simp add: insert_at_def)

section \<open>The table as a function\<close>

text \<open>
  A well-formed table: each node has exactly one kind, extended nodes have their permissions, and
  no two other nodes have the same key. The loader of the kernel establishes it.
\<close>

definition av_kinds :: "u16 list" where
  "av_kinds = [AVTAB_ALLOWED, AVTAB_AUDITALLOW, AVTAB_AUDITDENY, AVTAB_TRANSITION, AVTAB_MEMBER,
     AVTAB_CHANGE, AVTAB_XPERMS_ALLOWED, AVTAB_XPERMS_AUDITALLOW, AVTAB_XPERMS_DONTAUDIT]"

definition is_ext :: "avtab_key \<Rightarrow> bool" where
  "is_ext k \<longleftrightarrow> ak_spec k AND AVTAB_XPERMS \<noteq> 0"

definition wf_avtab :: "avtab_node list \<Rightarrow> bool" where
  "wf_avtab ns \<longleftrightarrow>
     (\<forall>n\<in>set ns. ak_spec (an_key n) \<in> set av_kinds \<and> (is_ext (an_key n) \<longrightarrow> an_xperms n \<noteq> None)) \<and>
     distinct (filter (\<lambda>k. \<not> is_ext k) (map an_key ns))"

definition av_assoc :: "avtab_node list \<Rightarrow> (avtab_key \<times> u32) list" where
  "av_assoc ns = map (\<lambda>n. (an_key n, an_data n)) ns"

text \<open>What the table says of a key: the data of its node, or what a missing node means.\<close>

definition av_default :: "avtab_key \<Rightarrow> u32" where
  "av_default k = (if ak_spec k = AVTAB_AUDITDENY then - 1 else 0)"

definition av_data :: "avtab_node list \<Rightarrow> avtab_key \<Rightarrow> u32" where
  "av_data ns k =
     (case first_from (av_match k) 0 ns of Some i \<Rightarrow> an_data (ns ! i) | None \<Rightarrow> av_default k)"

lemma avtab_key_eqI: "same_ids a b \<Longrightarrow> ak_spec a = ak_spec b \<Longrightarrow> a = b"
  by (cases a; cases b) (simp add: same_ids_def)

lemma kinds_overlap:
  "a \<in> set av_kinds \<Longrightarrow> b \<in> set av_kinds \<Longrightarrow> a AND b \<noteq> 0 \<longleftrightarrow> a = b"
  by (auto simp: av_kinds_def)

lemma av_match_key:
  assumes "ak_spec k \<in> set av_kinds" "ak_spec (an_key n) \<in> set av_kinds"
  shows "av_match k n \<longleftrightarrow> an_key n = k"
  using assms avtab_key_eqI [of k "an_key n"] by (auto simp: av_match_def kinds_overlap same_ids_def)

lemma av_data_map_of:
  assumes "\<forall>n\<in>set ns. ak_spec (an_key n) \<in> set av_kinds" "ak_spec k \<in> set av_kinds"
  shows "av_data ns k = (case map_of (av_assoc ns) k of Some v \<Rightarrow> v | None \<Rightarrow> av_default k)"
  using assms(1)
proof (induction ns)
  case (Cons n ns)
  have "av_match k n \<longleftrightarrow> an_key n = k" using Cons.prems assms(2) by (intro av_match_key) simp_all
  then show ?case
    using Cons by (cases "first_from (av_match k) 0 ns") (auto simp: av_data_def av_assoc_def)
qed (simp add: av_data_def av_assoc_def)

lemma av_data_wf:
  "wf_avtab ns \<Longrightarrow> ak_spec k \<in> set av_kinds \<Longrightarrow>
     av_data ns k = (case map_of (av_assoc ns) k of Some v \<Rightarrow> v | None \<Rightarrow> av_default k)"
  by (rule av_data_map_of) (simp_all add: wf_avtab_def)

lemma wf_unique:
  assumes "wf_avtab ns" "i < length ns" "j < length ns" "an_key (ns ! i) = an_key (ns ! j)"
    "\<not> is_ext (an_key (ns ! i))"
  shows "i = j"
  using assms(1) [unfolded wf_avtab_def, THEN conjunct2] assms(2-)
proof (induction ns arbitrary: i j)
  case (Cons n ns)
  have notin: "an_key n \<notin> an_key ` set ns" if "\<not> is_ext (an_key n)" using Cons.prems(1) that by auto
  have d: "distinct (filter (\<lambda>k. \<not> is_ext k) (map an_key ns))" using Cons.prems(1) by (auto split: if_splits)
  have img: "an_key (ns ! b) \<in> an_key ` set ns" if "b < length ns" for b using that by simp
  show ?case
  proof (cases i; cases j)
    fix b assume "i = 0" "j = Suc b"
    then show ?thesis using Cons.prems notin img [of b] by simp
  next
    fix a assume "i = Suc a" "j = 0"
    then show ?thesis using Cons.prems notin img [of a] by simp
  qed (use Cons.prems Cons.IH [OF d] in simp_all)
qed simp

lemma wf_insert_at:
  assumes "wf_avtab ns" "an_key n = k" "ak_spec k \<in> set av_kinds" "is_ext k \<longrightarrow> an_xperms n \<noteq> None"
    "\<not> is_ext k \<longrightarrow> k \<notin> an_key ` set ns"
  shows "wf_avtab (insert_at p n ns)"
proof -
  have split: "filter (\<lambda>k. \<not> is_ext k) (map an_key ns) =
      filter (\<lambda>k. \<not> is_ext k) (map an_key (take p ns)) @ filter (\<lambda>k. \<not> is_ext k) (map an_key (drop p ns))"
    by (simp only: filter_append [symmetric] map_append [symmetric] append_take_drop_id)
  have "k \<notin> set (filter (\<lambda>k. \<not> is_ext k) (map an_key (take p ns)))"
    "k \<notin> set (filter (\<lambda>k. \<not> is_ext k) (map an_key (drop p ns)))"
    using assms(5) by (auto dest: in_set_takeD in_set_dropD)
  then have "distinct (filter (\<lambda>k. \<not> is_ext k) (map an_key (insert_at p n ns)))"
    using assms(1,2) unfolding wf_avtab_def split by (auto simp: insert_at_def)
  then show ?thesis using assms by (auto simp: wf_avtab_def set_insert_at)
qed

lemma wf_remove_at:
  assumes "wf_avtab ns"
  shows "wf_avtab (remove_at i ns)"
proof (cases "i < length ns")
  case True
  have "ns = take i ns @ ns ! i # drop (Suc i) ns" using True by (rule id_take_nth_drop)
  moreover have "wf_avtab (xs @ n # ys) \<Longrightarrow> wf_avtab (xs @ ys)" for xs n ys
    by (auto simp: wf_avtab_def split: if_splits)
  ultimately show ?thesis using assms unfolding remove_at_def by metis
next
  case False
  then show ?thesis using assms by (simp add: remove_at_def)
qed

end
