(* ===== verification/Sepolicy.thy ===== *)
theory Sepolicy
  imports Policydb "HOL-Library.AList"
begin

text \<open>
  Editing the policy (\<^verbatim>\<open>kernel/selinux/sepolicy.c\<close>): access vector rules with wildcards,
  extended permissions of ioctl numbers, type rules, name transitions, new types and attributes,
  permissive types, and the copy of the whole policy the edits are made on. A null name is
  \<open>None\<close>; the C result of each operation is the first component.
\<close>

section \<open>Access vector rules\<close>

definition strip_av :: "u16 \<Rightarrow> bool \<Rightarrow> bool" where
  "strip_av effect invert \<longleftrightarrow> (effect = AVTAB_AUDITDENY) = (\<not> invert)"

text \<open>A loop that goes on after a failure and reports whether all rounds succeeded.\<close>

fun for_each :: "('a \<Rightarrow> 'd \<Rightarrow> bool \<times> 'd) \<Rightarrow> 'a list \<Rightarrow> 'd \<Rightarrow> bool \<times> 'd" where
  "for_each f [] d = (True, d)"
| "for_each f (x # xs) d =
     (let (b, d1) = f x d; (bs, d2) = for_each f xs d1 in (b \<and> bs, d2))"

definition rule_key :: "type_datum \<Rightarrow> type_datum \<Rightarrow> class_datum \<Rightarrow> u16 \<Rightarrow> avtab_key" where
  "rule_key src tgt cls effect =
     \<lparr>ak_source = ucast (ty_value src), ak_target = ucast (ty_value tgt),
      ak_class = ucast (cl_value cls), ak_spec = effect\<rparr>"

text \<open>The new access vector; \<open>perm\<close> is the value of the permission, \<open>None\<close> all of them.\<close>

definition av_update :: "u32 option \<Rightarrow> bool \<Rightarrow> u32 \<Rightarrow> u32" where
  "av_update perm invert d =
     (if invert then (case perm of Some v \<Rightarrow> d AND NOT (push_bit (unat (v - 1)) 1) | None \<Rightarrow> 0)
      else (case perm of Some v \<Rightarrow> d OR push_bit (unat (v - 1)) 1 | None \<Rightarrow> - 1))"

text \<open>The innermost part of \<open>add_rule_raw\<close>: both types and the class are given.\<close>

definition add_rule_at ::
    "ss_lib \<Rightarrow> u32 option \<Rightarrow> u16 \<Rightarrow> bool \<Rightarrow> type_datum \<Rightarrow> type_datum \<Rightarrow> class_datum \<Rightarrow> policydb \<Rightarrow>
       bool \<times> policydb" where
  "add_rule_at K perm effect invert src tgt cls db =
     (let k = rule_key src tgt cls effect; keep = (invert \<and> effect \<noteq> AVTAB_AUDITDENY);
          (found, db1) = (if keep then (ss_search K (pd_avtab db) k, db) else get_avtab_node K k None db)
      in case found of
           None \<Rightarrow> (keep, db1)
         | Some i \<Rightarrow>
             let n = pd_avtab db1 ! i;
                 n1 = n\<lparr>an_data := av_update perm invert (an_data n)\<rparr>;
                 db2 = db1\<lparr>pd_avtab := (pd_avtab db1)[i := n1]\<rparr>
             in if is_redundant_avtab_node n1 then remove_avtab_node K i db2 else (True, db2))"

text \<open>
  A missing class stands for every class. A missing type stands for every type and attribute when
  the rule takes permissions away, and only for the attributes when it gives them.
\<close>

definition add_rule_cls ::
    "ss_lib \<Rightarrow> u32 option \<Rightarrow> u16 \<Rightarrow> bool \<Rightarrow> type_datum \<Rightarrow> type_datum \<Rightarrow> class_datum option \<Rightarrow> policydb \<Rightarrow>
       bool \<times> policydb" where
  "add_rule_cls K perm effect invert src tgt cls db =
     (case cls of
        Some c \<Rightarrow> add_rule_at K perm effect invert src tgt c db
      | None \<Rightarrow>
          for_each (\<lambda>(_, c). add_rule_at K perm effect invert src tgt c) (pd_classes db) db)"

definition wildcard_types :: "u16 \<Rightarrow> bool \<Rightarrow> policydb \<Rightarrow> (bytes \<times> type_datum) list" where
  "wildcard_types effect invert db =
     (if strip_av effect invert then pd_types db
      else filter (\<lambda>(_, t). ty_attribute t) (pd_types db))"

definition add_rule_tgt ::
    "ss_lib \<Rightarrow> u32 option \<Rightarrow> u16 \<Rightarrow> bool \<Rightarrow> class_datum option \<Rightarrow> type_datum \<Rightarrow> type_datum option \<Rightarrow> policydb \<Rightarrow>
       bool \<times> policydb" where
  "add_rule_tgt K perm effect invert cls src tgt db =
     (case tgt of
        Some t \<Rightarrow> add_rule_cls K perm effect invert src t cls db
      | None \<Rightarrow>
          for_each (\<lambda>(_, t). add_rule_cls K perm effect invert src t cls)
            (wildcard_types effect invert db) db)"

definition add_rule_raw ::
    "ss_lib \<Rightarrow> type_datum option \<Rightarrow> type_datum option \<Rightarrow> class_datum option \<Rightarrow> u32 option \<Rightarrow> u16 \<Rightarrow> bool \<Rightarrow>
       policydb \<Rightarrow> bool \<times> policydb" where
  "add_rule_raw K src tgt cls perm effect invert db =
     (case src of
        Some s \<Rightarrow> add_rule_tgt K perm effect invert cls s tgt db
      | None \<Rightarrow>
          for_each (\<lambda>(_, s). add_rule_tgt K perm effect invert cls s tgt)
            (wildcard_types effect invert db) db)"

text \<open>Looking up an optional name: the outer \<open>None\<close> is an unknown name.\<close>

definition symtab_opt :: "(bytes \<times> 'a) list \<Rightarrow> bytes option \<Rightarrow> 'a option option" where
  "symtab_opt tab name =
     (case name of None \<Rightarrow> Some None | Some x \<Rightarrow> map_option Some (map_of tab x))"

text \<open>The permissions of the class, then those it inherits.\<close>

definition find_perm :: "class_datum \<Rightarrow> bytes \<Rightarrow> u32 option" where
  "find_perm c p =
     (case map_of (cl_permissions c) p of
        Some v \<Rightarrow> Some v
      | None \<Rightarrow> (case cl_comdatum c of None \<Rightarrow> None | Some com \<Rightarrow> map_of com p))"

definition add_rule ::
    "ss_lib \<Rightarrow> bytes option \<Rightarrow> bytes option \<Rightarrow> bytes option \<Rightarrow> bytes option \<Rightarrow> u16 \<Rightarrow> bool \<Rightarrow> policydb \<Rightarrow>
       bool \<times> policydb" where
  "add_rule K s t c p effect invert db =
     (case symtab_opt (pd_types db) s of
        None \<Rightarrow> (False, db)
      | Some src \<Rightarrow>
     (case symtab_opt (pd_types db) t of
        None \<Rightarrow> (False, db)
      | Some tgt \<Rightarrow>
     (case symtab_opt (pd_classes db) c of
        None \<Rightarrow> (False, db)
      | Some cls \<Rightarrow>
     (case p of
        None \<Rightarrow> add_rule_raw K src tgt cls None effect invert db
      | Some name \<Rightarrow>
          (case cls of
             None \<Rightarrow> (False, db)
           | Some cl \<Rightarrow>
               (case find_perm cl name of
                  None \<Rightarrow> (False, db)
                | Some v \<Rightarrow> add_rule_raw K src tgt cls (Some v) effect invert db))))))"

section \<open>Extended permissions\<close>

definition ioctl_driver :: "u16 \<Rightarrow> nat" where
  "ioctl_driver x = unat (drop_bit 8 x AND 0xFF)"

definition ioctl_func :: "u16 \<Rightarrow> nat" where
  "ioctl_func x = unat (x AND 0xFF)"

definition xperm_test :: "nat \<Rightarrow> u32 list \<Rightarrow> bool" where
  "xperm_test x p \<longleftrightarrow> bit (p ! (x div 32)) (x mod 32)"

definition xperm_set :: "nat \<Rightarrow> u32 list \<Rightarrow> u32 list" where
  "xperm_set x p = p[x div 32 := p ! (x div 32) OR push_bit (x mod 32) 1]"

definition xperm_clear :: "nat \<Rightarrow> u32 list \<Rightarrow> u32 list" where
  "xperm_clear x p = p[x div 32 := p ! (x div 32) AND NOT (push_bit (x mod 32) 1)]"

definition xperm_fill :: "bool \<Rightarrow> nat \<Rightarrow> nat \<Rightarrow> u32 list \<Rightarrow> u32 list" where
  "xperm_fill invert lo hi p =
     fold (\<lambda>i. if invert then xperm_clear i else xperm_set i) [lo ..< Suc hi] p"

text \<open>The permissions of a range: of drivers, or of the functions of one driver.\<close>

definition range_xperms :: "u16 \<Rightarrow> u16 \<Rightarrow> bool \<Rightarrow> extended_perms" where
  "range_xperms low high invert =
     (let zero = replicate 8 0 in
      if ioctl_driver low \<noteq> ioctl_driver high then
        \<lparr>xp_specified = AVTAB_XPERMS_IOCTLDRIVER, xp_driver = 0,
         xp_p = xperm_fill invert (ioctl_driver low) (ioctl_driver high) zero\<rparr>
      else
        \<lparr>xp_specified = AVTAB_XPERMS_IOCTLFUNCTION, xp_driver = of_nat (ioctl_driver low),
         xp_p = xperm_fill invert (ioctl_func low) (ioctl_func high) zero\<rparr>)"

definition add_xperm_at ::
    "ss_lib \<Rightarrow> u16 \<Rightarrow> u16 \<Rightarrow> u16 \<Rightarrow> bool \<Rightarrow> type_datum \<Rightarrow> type_datum \<Rightarrow> class_datum \<Rightarrow> policydb \<Rightarrow> policydb" where
  "add_xperm_at K low high effect invert src tgt cls db =
     (let k = rule_key src tgt cls effect; x = range_xperms low high invert;
          (found, db1) = get_avtab_node K k (Some x) db
      in case found of
           None \<Rightarrow> db1
         | Some i \<Rightarrow>
             let n = pd_avtab db1 ! i in
             if an_xperms n = None then
               if ss_mem K Alloc_Xperms [] then
                 db1\<lparr>pd_avtab := (pd_avtab db1)[i := n\<lparr>an_xperms := Some x\<rparr>]\<rparr>
               else db1
             else db1)"

definition attribute_types :: "policydb \<Rightarrow> (bytes \<times> type_datum) list" where
  "attribute_types db = filter (\<lambda>(_, t). ty_attribute t) (pd_types db)"

definition add_xperm_cls ::
    "ss_lib \<Rightarrow> u16 \<Rightarrow> u16 \<Rightarrow> u16 \<Rightarrow> bool \<Rightarrow> type_datum \<Rightarrow> type_datum \<Rightarrow> class_datum option \<Rightarrow> policydb \<Rightarrow> policydb" where
  "add_xperm_cls K low high effect invert src tgt cls db =
     (case cls of
        Some c \<Rightarrow> add_xperm_at K low high effect invert src tgt c db
      | None \<Rightarrow> fold (\<lambda>(_, c). add_xperm_at K low high effect invert src tgt c) (pd_classes db) db)"

definition add_xperm_tgt ::
    "ss_lib \<Rightarrow> u16 \<Rightarrow> u16 \<Rightarrow> u16 \<Rightarrow> bool \<Rightarrow> class_datum option \<Rightarrow> type_datum \<Rightarrow> type_datum option \<Rightarrow> policydb \<Rightarrow> policydb" where
  "add_xperm_tgt K low high effect invert cls src tgt db =
     (case tgt of
        Some t \<Rightarrow> add_xperm_cls K low high effect invert src t cls db
      | None \<Rightarrow> fold (\<lambda>(_, t). add_xperm_cls K low high effect invert src t cls) (attribute_types db) db)"

definition add_xperm_rule_raw ::
    "ss_lib \<Rightarrow> type_datum option \<Rightarrow> type_datum option \<Rightarrow> class_datum option \<Rightarrow> u16 \<Rightarrow> u16 \<Rightarrow> u16 \<Rightarrow> bool \<Rightarrow>
       policydb \<Rightarrow> policydb" where
  "add_xperm_rule_raw K src tgt cls low high effect invert db =
     (case src of
        Some s \<Rightarrow> add_xperm_tgt K low high effect invert cls s tgt db
      | None \<Rightarrow> fold (\<lambda>(_, s). add_xperm_tgt K low high effect invert cls s tgt) (attribute_types db) db)"

text \<open>
  \<open>sscanf\<close> with \<open>%hx-%hx\<close> and \<open>%hx\<close>: a conversion that fails leaves its variable, and those
  after it, as they were.
\<close>

definition scan_range :: "ss_lib \<Rightarrow> bytes option \<Rightarrow> u16 \<times> u16" where
  "scan_range K rng =
     (case rng of
        None \<Rightarrow> (0, 0xFFFF)
      | Some r \<Rightarrow>
          if of_char CHR ''-'' \<in> set r then
            (case ss_hex K r of
               None \<Rightarrow> ss_junk K
             | Some (low, rest) \<Rightarrow>
                 (case rest of
                    [] \<Rightarrow> (low, snd (ss_junk K))
                  | b # rest1 \<Rightarrow>
                      if b = of_char CHR ''-'' then
                        (case ss_hex K rest1 of
                           None \<Rightarrow> (low, snd (ss_junk K))
                         | Some (high, _) \<Rightarrow> (low, high))
                      else (low, snd (ss_junk K))))
          else
            (case ss_hex K r of
               None \<Rightarrow> (fst (ss_junk K), fst (ss_junk K))
             | Some (low, _) \<Rightarrow> (low, low)))"

definition add_xperm_rule ::
    "ss_lib \<Rightarrow> bytes option \<Rightarrow> bytes option \<Rightarrow> bytes option \<Rightarrow> bytes option \<Rightarrow> u16 \<Rightarrow> bool \<Rightarrow> policydb \<Rightarrow>
       bool \<times> policydb" where
  "add_xperm_rule K s t c rng effect invert db =
     (case symtab_opt (pd_types db) s of
        None \<Rightarrow> (False, db)
      | Some src \<Rightarrow>
     (case symtab_opt (pd_types db) t of
        None \<Rightarrow> (False, db)
      | Some tgt \<Rightarrow>
     (case symtab_opt (pd_classes db) c of
        None \<Rightarrow> (False, db)
      | Some cls \<Rightarrow>
          let (low, high) = scan_range K rng in
          (True, add_xperm_rule_raw K src tgt cls low high effect invert db))))"

section \<open>Type rules and name transitions\<close>

definition add_type_rule ::
    "ss_lib \<Rightarrow> bytes \<Rightarrow> bytes \<Rightarrow> bytes \<Rightarrow> bytes \<Rightarrow> u16 \<Rightarrow> policydb \<Rightarrow> bool \<times> policydb" where
  "add_type_rule K s t c d effect db =
     (case map_of (pd_types db) s of None \<Rightarrow> (False, db) | Some src \<Rightarrow>
     (case map_of (pd_types db) t of None \<Rightarrow> (False, db) | Some tgt \<Rightarrow>
     (case map_of (pd_classes db) c of None \<Rightarrow> (False, db) | Some cls \<Rightarrow>
     (case map_of (pd_types db) d of None \<Rightarrow> (False, db) | Some def \<Rightarrow>
        let (found, db1) = get_avtab_node K (rule_key src tgt cls effect) None db
        in case found of
             None \<Rightarrow> (False, db1)
           | Some i \<Rightarrow>
               (True, db1\<lparr>pd_avtab := (pd_avtab db1)[i := (pd_avtab db1 ! i)\<lparr>an_data := ty_value def\<rparr>]\<rparr>)))))"

text \<open>
  The hash and the comparison the name transitions are kept by. \<open>pnh\<close> is \<open>partial_name_hash\<close>;
  the name is read up to its NUL. The loop starts from the two ids and takes the characters in
  order.
\<close>

definition filenametr_hash :: "(u8 \<Rightarrow> u64 \<Rightarrow> u64) \<Rightarrow> filename_trans_key \<Rightarrow> u32" where
  "filenametr_hash pnh ft =
     ucast (fold pnh (c_str (fk_name ft)) (ucast (fk_ttype ft XOR ucast (fk_tclass ft)) :: u64))"

text \<open>\<open>strcmp\<close>: the difference of the first characters that differ.\<close>

fun strcmp :: "bytes \<Rightarrow> bytes \<Rightarrow> int" where
  "strcmp [] [] = 0"
| "strcmp [] (b # bs) = - uint b"
| "strcmp (a # as) [] = uint a"
| "strcmp (a # as) (b # bs) = (if a = b then strcmp as bs else uint a - uint b)"

definition filenametr_cmp :: "filename_trans_key \<Rightarrow> filename_trans_key \<Rightarrow> int" where
  "filenametr_cmp k1 k2 =
     (let v = sint (fk_ttype k1 - fk_ttype k2) in
      if v \<noteq> 0 then v
      else
        let v = uint (fk_tclass k1) - uint (fk_tclass k2) in
        if v \<noteq> 0 then v else strcmp (c_str (fk_name k1)) (c_str (fk_name k2)))"

text \<open>
  The walk over the data of a key: the source type is already in one, or one has the type asked
  for, or neither.
\<close>

datatype trans_walk = Duplicate nat | Same_Type nat | Not_Found

fun walk_trans :: "nat \<Rightarrow> u32 \<Rightarrow> nat \<Rightarrow> filename_trans_datum list \<Rightarrow> trans_walk" where
  "walk_trans b def i [] = Not_Found"
| "walk_trans b def i (d # ds) =
     (if b \<in> fd_stypes d then Duplicate i
      else if fd_otype d = def then Same_Type i
      else walk_trans b def (i + 1) ds)"

text \<open>\<open>policydb_filenametr_search\<close>: the chain of the key, empty when there is none.\<close>

definition trans_chain :: "policydb \<Rightarrow> filename_trans_key \<Rightarrow> filename_trans_datum list" where
  "trans_chain db k = (case map_of (pd_filename_trans db) k of None \<Rightarrow> [] | Some ds \<Rightarrow> ds)"

definition set_trans_chain :: "filename_trans_key \<Rightarrow> filename_trans_datum list \<Rightarrow> policydb \<Rightarrow> policydb" where
  "set_trans_chain k ds db = db\<lparr>pd_filename_trans := AList.update k ds (pd_filename_trans db)\<rparr>"

text \<open>
  A new datum is linked in front of the last one of the chain and inserted under its own copy of
  the key; \<open>hashtab_insert\<close> refuses a key that is there.
\<close>

definition add_filename_trans ::
    "ss_lib \<Rightarrow> bytes \<Rightarrow> bytes \<Rightarrow> bytes \<Rightarrow> bytes \<Rightarrow> bytes \<Rightarrow> policydb \<Rightarrow> bool \<times> policydb" where
  "add_filename_trans K s t c d obj db =
     (case map_of (pd_types db) s of None \<Rightarrow> (False, db) | Some src \<Rightarrow>
     (case map_of (pd_types db) t of None \<Rightarrow> (False, db) | Some tgt \<Rightarrow>
     (case map_of (pd_classes db) c of None \<Rightarrow> (False, db) | Some cls \<Rightarrow>
     (case map_of (pd_types db) d of None \<Rightarrow> (False, db) | Some def \<Rightarrow>
        let k = \<lparr>fk_ttype = ty_value tgt, fk_tclass = ucast (cl_value cls), fk_name = obj\<rparr>;
            ds = trans_chain db k; b = unat (ty_value src - 1) in
        case walk_trans b (ty_value def) 0 ds of
          Duplicate i \<Rightarrow> (True, set_trans_chain k (ds[i := (ds ! i)\<lparr>fd_otype := ty_value def\<rparr>]) db)
        | Same_Type i \<Rightarrow>
            let (ok, e) = ebitmap_set_bit K (fd_stypes (ds ! i)) b True
            in (ok, (set_trans_chain k (ds[i := (ds ! i)\<lparr>fd_stypes := e\<rparr>]) db)
                      \<lparr>pd_compat_count := pd_compat_count db + 1\<rparr>)
        | Not_Found \<Rightarrow>
            if \<not> ss_mem K Alloc_Trans obj \<or> \<not> ss_mem K Alloc_Trans_Key obj \<or> \<not> ss_mem K Alloc_Trans_Name obj
            then (False, db)
            else if k \<in> fst ` set (pd_filename_trans db) \<or> \<not> ss_mem K Alloc_Trans_Node obj then (False, db)
            else
              let (ok, e) = ebitmap_set_bit K {} b True;
                  last1 = (if ds = [] then [] else [List.last ds])
              in (ok, (set_trans_chain k (\<lparr>fd_stypes = e, fd_otype = ty_value def\<rparr> # last1) db)
                        \<lparr>pd_compat_count := pd_compat_count db + 1\<rparr>)))))"

definition add_genfscon :: "bytes \<Rightarrow> bytes \<Rightarrow> bytes \<Rightarrow> policydb \<Rightarrow> bool \<times> policydb" where
  "add_genfscon fs_name path ctx db = (False, db)"

section \<open>Types and attributes\<close>

text \<open>
  An array of one element per type value gets the element of the newest value at its end
  (\<open>ksu_kvrealloc\<close> and the assignment). A gap below it, which an earlier failure leaves, is an
  element nobody initialised.
\<close>

definition grow_array :: "nat \<Rightarrow> 'a \<Rightarrow> 'a list option \<Rightarrow> 'a list option" where
  "grow_array n x arr =
     (case arr of None \<Rightarrow> None | Some xs \<Rightarrow> if n \<le> length xs then Some (take n xs @ [x]) else None)"

definition add_type :: "ss_lib \<Rightarrow> bytes \<Rightarrow> bool \<Rightarrow> policydb \<Rightarrow> bool \<times> policydb" where
  "add_type K name attr db =
     (case map_of (pd_types db) name of
        Some _ \<Rightarrow> (True, db)
      | None \<Rightarrow>
          let value = pd_types_nprim db + 1; db1 = db\<lparr>pd_types_nprim := value\<rparr>;
              ty = \<lparr>ty_value = value, ty_primary = True, ty_attribute = attr\<rparr>;
              b = unat (value - 1)
          in if \<not> ss_mem K Alloc_Type name then (False, db1)
             else if \<not> ss_mem K Alloc_Name name then (False, db1)
             else case ss_sym_place K (map fst (pd_types db)) name of
                 None \<Rightarrow> (False, db1)
               | Some p \<Rightarrow>
                   let db2 = db1\<lparr>pd_types := insert_at p (name, ty) (pd_types db)\<rparr> in
                   if \<not> ss_mem K Alloc_Attr_Map name then (False, db2)
                   else if \<not> ss_mem K Alloc_Val_Struct name then (False, db2\<lparr>pd_attr_map := None\<rparr>)
                   else if \<not> ss_mem K Alloc_Val_Name name
                   then (False, db2\<lparr>pd_attr_map := None, pd_val_to_struct := None\<rparr>)
                   else
                     (True,
                      db2\<lparr>pd_attr_map := grow_array b (snd (ebitmap_set_bit K {} b True)) (pd_attr_map db),
                          pd_val_to_struct := grow_array b ty (pd_val_to_struct db),
                          pd_val_to_name := grow_array b name (pd_val_to_name db),
                          pd_role_types :=
                            map (\<lambda>e. snd (ebitmap_set_bit K e b True)) (pd_role_types db)\<rparr>))"

text \<open>Whether a type is permissive is the bit of its value itself.\<close>

definition set_permissive :: "ss_lib \<Rightarrow> bool \<Rightarrow> type_datum \<Rightarrow> policydb \<Rightarrow> bool \<times> policydb" where
  "set_permissive K permissive ty db =
     (let (ok, e) = ebitmap_set_bit K (pd_permissive db) (unat (ty_value ty)) permissive
      in (ok, db\<lparr>pd_permissive := e\<rparr>))"

definition set_type_state :: "ss_lib \<Rightarrow> bytes option \<Rightarrow> bool \<Rightarrow> policydb \<Rightarrow> bool \<times> policydb" where
  "set_type_state K name permissive db =
     (case name of
        None \<Rightarrow> (True, fold (\<lambda>(_, ty) d. snd (set_permissive K permissive ty d)) (pd_types db) db)
      | Some x \<Rightarrow>
          (case map_of (pd_types db) x of
             None \<Rightarrow> (False, db)
           | Some ty \<Rightarrow> set_permissive K permissive ty db))"

text \<open>Constraints that name the attribute get the type as well.\<close>

definition extend_constraint :: "ss_lib \<Rightarrow> nat \<Rightarrow> nat \<Rightarrow> constraint_expr \<Rightarrow> constraint_expr" where
  "extend_constraint K tb ab e =
     (if ce_type e = CEXPR_NAMES \<and> ab \<in> ce_type_names e
      then e\<lparr>ce_names := snd (ebitmap_set_bit K (ce_names e) tb True)\<rparr> else e)"

definition add_typeattribute_raw :: "ss_lib \<Rightarrow> type_datum \<Rightarrow> type_datum \<Rightarrow> policydb \<Rightarrow> policydb" where
  "add_typeattribute_raw K ty attr db =
     (let tb = unat (ty_value ty - 1); ab = unat (ty_value attr - 1) in
      db\<lparr>pd_attr_map :=
           map_option (\<lambda>m. m[tb := snd (ebitmap_set_bit K (m ! tb) ab True)]) (pd_attr_map db),
         pd_classes :=
           map (\<lambda>(x, c). (x, c\<lparr>cl_constraints :=
                   map (map (extend_constraint K tb ab)) (cl_constraints c)\<rparr>)) (pd_classes db)\<rparr>)"

definition add_typeattribute :: "ss_lib \<Rightarrow> bytes \<Rightarrow> bytes \<Rightarrow> policydb \<Rightarrow> bool \<times> policydb" where
  "add_typeattribute K ty attr db =
     (case map_of (pd_types db) ty of
        None \<Rightarrow> (False, db)
      | Some type_d \<Rightarrow>
          if ty_attribute type_d then (False, db)
          else case map_of (pd_types db) attr of
              None \<Rightarrow> (False, db)
            | Some attr_d \<Rightarrow>
                if \<not> ty_attribute attr_d then (False, db)
                else (True, add_typeattribute_raw K type_d attr_d db))"

section \<open>The operations the rules are written with\<close>

definition ksu_type :: "ss_lib \<Rightarrow> bytes \<Rightarrow> bytes \<Rightarrow> policydb \<Rightarrow> bool \<times> policydb" where
  "ksu_type K name attr db =
     (let (ok, db1) = add_type K name False db in
      if ok then add_typeattribute K name attr db1 else (False, db1))"

definition ksu_attribute :: "ss_lib \<Rightarrow> bytes \<Rightarrow> policydb \<Rightarrow> bool \<times> policydb" where
  "ksu_attribute K name db = add_type K name True db"

definition ksu_permissive :: "ss_lib \<Rightarrow> bytes option \<Rightarrow> policydb \<Rightarrow> bool \<times> policydb" where
  "ksu_permissive K ty db = set_type_state K ty True db"

definition ksu_enforce :: "ss_lib \<Rightarrow> bytes option \<Rightarrow> policydb \<Rightarrow> bool \<times> policydb" where
  "ksu_enforce K ty db = set_type_state K ty False db"

definition ksu_typeattribute :: "ss_lib \<Rightarrow> bytes \<Rightarrow> bytes \<Rightarrow> policydb \<Rightarrow> bool \<times> policydb" where
  "ksu_typeattribute K ty attr db = add_typeattribute K ty attr db"

definition ksu_exists :: "bytes \<Rightarrow> policydb \<Rightarrow> bool" where
  "ksu_exists ty db \<longleftrightarrow> map_of (pd_types db) ty \<noteq> None"

type_synonym av_rule =
  "ss_lib \<Rightarrow> bytes option \<Rightarrow> bytes option \<Rightarrow> bytes option \<Rightarrow> bytes option \<Rightarrow> policydb \<Rightarrow> bool \<times> policydb"

definition ksu_allow :: av_rule where
  "ksu_allow K src tgt cls perm db = add_rule K src tgt cls perm AVTAB_ALLOWED False db"

definition ksu_deny :: av_rule where
  "ksu_deny K src tgt cls perm db = add_rule K src tgt cls perm AVTAB_ALLOWED True db"

definition ksu_auditallow :: av_rule where
  "ksu_auditallow K src tgt cls perm db = add_rule K src tgt cls perm AVTAB_AUDITALLOW False db"

definition ksu_dontaudit :: av_rule where
  "ksu_dontaudit K src tgt cls perm db = add_rule K src tgt cls perm AVTAB_AUDITDENY True db"

definition ksu_allowxperm :: av_rule where
  "ksu_allowxperm K src tgt cls rng db = add_xperm_rule K src tgt cls rng AVTAB_XPERMS_ALLOWED False db"

definition ksu_auditallowxperm :: av_rule where
  "ksu_auditallowxperm K src tgt cls rng db =
     add_xperm_rule K src tgt cls rng AVTAB_XPERMS_AUDITALLOW False db"

definition ksu_dontauditxperm :: av_rule where
  "ksu_dontauditxperm K src tgt cls rng db =
     add_xperm_rule K src tgt cls rng AVTAB_XPERMS_DONTAUDIT False db"

definition ksu_type_transition ::
    "ss_lib \<Rightarrow> bytes \<Rightarrow> bytes \<Rightarrow> bytes \<Rightarrow> bytes \<Rightarrow> bytes option \<Rightarrow> policydb \<Rightarrow> bool \<times> policydb" where
  "ksu_type_transition K src tgt cls def obj db =
     (case obj of
        Some name \<Rightarrow> add_filename_trans K src tgt cls def name db
      | None \<Rightarrow> add_type_rule K src tgt cls def AVTAB_TRANSITION db)"

definition ksu_type_change ::
    "ss_lib \<Rightarrow> bytes \<Rightarrow> bytes \<Rightarrow> bytes \<Rightarrow> bytes \<Rightarrow> policydb \<Rightarrow> bool \<times> policydb" where
  "ksu_type_change K src tgt cls def db = add_type_rule K src tgt cls def AVTAB_CHANGE db"

definition ksu_type_member ::
    "ss_lib \<Rightarrow> bytes \<Rightarrow> bytes \<Rightarrow> bytes \<Rightarrow> bytes \<Rightarrow> policydb \<Rightarrow> bool \<times> policydb" where
  "ksu_type_member K src tgt cls def db = add_type_rule K src tgt cls def AVTAB_MEMBER db"

definition ksu_genfscon :: "bytes \<Rightarrow> bytes \<Rightarrow> bytes \<Rightarrow> policydb \<Rightarrow> bool \<times> policydb" where
  "ksu_genfscon fs_name path ctx db = add_genfscon fs_name path ctx db"

section \<open>Copying a policy\<close>

text \<open>A loaded policy; its table of security ids is shared with the copies.\<close>

record selinux_policy =
  sp_policydb :: policydb
  sp_sidtab :: u64
  sp_latest_granting :: u32

text \<open>
  \<open>si_write\<close> and \<open>si_read\<close>: \<open>policydb_write\<close> into a buffer of the given length, whose contents
  it answers, and \<open>policydb_read\<close>; the other two are the allocations of the buffer and the copy.
\<close>

record policy_image =
  si_vmalloc :: "nat \<Rightarrow> bool"
  si_write :: "policydb \<Rightarrow> nat \<Rightarrow> errno + bytes"
  si_memdup :: bool
  si_read :: "bytes \<Rightarrow> errno + policydb"

abbreviation (input) "POLICYDB_CONFIG_ANDROID_NETLINK_ROUTE \<equiv> (0x80000000 :: u32)"
abbreviation (input) "POLICYDB_CONFIG_ANDROID_NETLINK_GETNEIGH \<equiv> (0x40000000 :: u32)"

definition kConfigOff :: nat where
  "kConfigOff = 20"

text \<open>The two configuration bits the kernel reads and does not write back.\<close>

definition netlink_config :: "policydb \<Rightarrow> u32" where
  "netlink_config db =
     (if pd_netlink_route db then POLICYDB_CONFIG_ANDROID_NETLINK_ROUTE else 0) OR
     (if pd_netlink_getneigh db then POLICYDB_CONFIG_ANDROID_NETLINK_GETNEIGH else 0)"

definition fixup_config :: "policydb \<Rightarrow> bytes \<Rightarrow> bytes" where
  "fixup_config db bs =
     (if length bs \<ge> kConfigOff + 4
      then take kConfigOff bs @ le32 (get32 kConfigOff bs OR netlink_config db) @ drop (kConfigOff + 4) bs
      else bs)"

definition ksu_dup_sepolicy :: "policy_image \<Rightarrow> selinux_policy \<Rightarrow> errno + selinux_policy" where
  "ksu_dup_sepolicy M old_pol =
     (let len = pd_len (sp_policydb old_pol) in
      if \<not> si_vmalloc M len then Inl ENOMEM
      else case si_write M (sp_policydb old_pol) len of
          Inl e \<Rightarrow> Inl e
        | Inr bs \<Rightarrow>
            if \<not> si_memdup M then Inl ENOMEM
            else case si_read M (fixup_config (sp_policydb old_pol) bs) of
                Inl e \<Rightarrow> Inl e
              | Inr db \<Rightarrow> Inr (old_pol\<lparr>sp_policydb := db\<lparr>pd_len := len\<rparr>\<rparr>))"

end
