(* ===== verification/Sepol_Batch.thy ===== *)
theory Sepol_Batch
  imports Sepolicy Selinux User_Mem
begin

text \<open>
  Loading policy rules (\<^verbatim>\<open>kernel/selinux/rules.c\<close>): the rules the module installs for its own
  domain, and the batch of commands user space sends, read by a cursor over the copied payload,
  applied one by one to a copy of the policy, which is published at the end. What other parts of
  the kernel see of a load is a trace of events; a policy is destroyed by an event as well.
\<close>

abbreviation (input) "KSU_SEPOLICY_CMD_NORMAL_PERM \<equiv> (1 :: u32)"
abbreviation (input) "KSU_SEPOLICY_CMD_XPERM \<equiv> (2 :: u32)"
abbreviation (input) "KSU_SEPOLICY_CMD_TYPE_STATE \<equiv> (3 :: u32)"
abbreviation (input) "KSU_SEPOLICY_CMD_TYPE \<equiv> (4 :: u32)"
abbreviation (input) "KSU_SEPOLICY_CMD_TYPE_ATTR \<equiv> (5 :: u32)"
abbreviation (input) "KSU_SEPOLICY_CMD_ATTR \<equiv> (6 :: u32)"
abbreviation (input) "KSU_SEPOLICY_CMD_TYPE_TRANSITION \<equiv> (7 :: u32)"
abbreviation (input) "KSU_SEPOLICY_CMD_TYPE_CHANGE \<equiv> (8 :: u32)"
abbreviation (input) "KSU_SEPOLICY_CMD_GENFSCON \<equiv> (9 :: u32)"
abbreviation (input) "POLICYDB_VERSION_XPERMS_IOCTL \<equiv> (30 :: nat)"

definition KSU_SEPOLICY_MAX_BATCH_SIZE :: nat where
  "KSU_SEPOLICY_MAX_BATCH_SIZE = 8 * 1024 * 1024"

definition KSU_SEPOLICY_MAX_ARGS :: nat where
  "KSU_SEPOLICY_MAX_ARGS = 5"

section \<open>The payload\<close>

record sepol_data =
  sd_cmd :: u32
  sd_subcmd :: u32

text \<open>The cursor is the list of the bytes from \<open>cur\<close> to \<open>end\<close>.\<close>

definition sepol_remaining :: "bytes \<Rightarrow> nat" where
  "sepol_remaining cursor = length cursor"

definition sepol_read_cmd_header :: "bytes \<Rightarrow> errno + sepol_data \<times> bytes" where
  "sepol_read_cmd_header cursor =
     (if sepol_remaining cursor < 8 then Inl EINVAL
      else Inr (\<lparr>sd_cmd = get32 0 cursor, sd_subcmd = get32 4 cursor\<rparr>, drop 8 cursor))"

definition sepol_read_string :: "bytes \<Rightarrow> errno + bytes option \<times> bytes" where
  "sepol_read_string cursor =
     (if sepol_remaining cursor < 4 then Inl EINVAL
      else
        let len = unat (get32 0 cursor); cur = drop 4 cursor in
        if len \<ge> sepol_remaining cur then Inl EINVAL
        else if 0 \<in> set (take len cur) \<or> cur ! len \<noteq> 0 then Inl EINVAL
        else Inr (if len = 0 then None else Some (take len cur), drop (len + 1) cur))"

definition sepol_expected_argc :: "u32 \<Rightarrow> errno + nat" where
  "sepol_expected_argc cmd =
     (if cmd = KSU_SEPOLICY_CMD_NORMAL_PERM then Inr 4
      else if cmd = KSU_SEPOLICY_CMD_XPERM then Inr 5
      else if cmd = KSU_SEPOLICY_CMD_TYPE_STATE then Inr 1
      else if cmd = KSU_SEPOLICY_CMD_TYPE \<or> cmd = KSU_SEPOLICY_CMD_TYPE_ATTR then Inr 2
      else if cmd = KSU_SEPOLICY_CMD_ATTR then Inr 1
      else if cmd = KSU_SEPOLICY_CMD_TYPE_TRANSITION then Inr 5
      else if cmd = KSU_SEPOLICY_CMD_TYPE_CHANGE then Inr 4
      else if cmd = KSU_SEPOLICY_CMD_GENFSCON then Inr 3
      else Inl EINVAL)"

text \<open>The loop over the arguments of a command.\<close>

fun read_args :: "nat \<Rightarrow> bytes \<Rightarrow> errno + bytes option list \<times> bytes" where
  "read_args 0 cursor = Inr ([], cursor)"
| "read_args (Suc n) cursor =
     (case sepol_read_string cursor of
        Inl e \<Rightarrow> Inl e
      | Inr (a, rest) \<Rightarrow>
          (case read_args n rest of
             Inl e \<Rightarrow> Inl e
           | Inr (as, rest1) \<Rightarrow> Inr (a # as, rest1)))"

text \<open>The array of arguments: those of the command, then null pointers.\<close>

definition args_array :: "bytes option list \<Rightarrow> bytes option list" where
  "args_array as = as @ replicate (KSU_SEPOLICY_MAX_ARGS - length as) None"

definition read_cmd :: "bytes \<Rightarrow> errno + (sepol_data \<times> bytes option list) \<times> bytes" where
  "read_cmd cursor =
     (case sepol_read_cmd_header cursor of
        Inl e \<Rightarrow> Inl e
      | Inr (h, rest) \<Rightarrow>
          (case sepol_expected_argc (sd_cmd h) of
             Inl e \<Rightarrow> Inl EINVAL
           | Inr n \<Rightarrow>
               if n > KSU_SEPOLICY_MAX_ARGS then Inl EINVAL
               else (case read_args n rest of
                       Inl e \<Rightarrow> Inl e
                     | Inr (as, rest1) \<Rightarrow> Inr ((h, args_array as), rest1))))"

section \<open>One command\<close>

definition sepol_require_not_all :: "bytes option \<Rightarrow> errno option" where
  "sepol_require_not_all v = (if v \<noteq> None then None else Some EINVAL)"

text \<open>Requirements in the order of the calls: the first failing one is the result.\<close>

fun require_all :: "bytes option list \<Rightarrow> errno option" where
  "require_all [] = None"
| "require_all (v # vs) =
     (case sepol_require_not_all v of Some e \<Rightarrow> Some e | None \<Rightarrow> require_all vs)"

definition result_code :: "bool \<times> policydb \<Rightarrow> int \<times> policydb" where
  "result_code r = (if fst r then 0 else neg_errno EINVAL, snd r)"

definition cmd_normal_perm :: "ss_lib \<Rightarrow> u32 \<Rightarrow> bytes option list \<Rightarrow> policydb \<Rightarrow> bool \<times> policydb" where
  "cmd_normal_perm K subcmd a db =
     (if subcmd = 1 then ksu_allow K (a ! 0) (a ! 1) (a ! 2) (a ! 3) db
      else if subcmd = 2 then ksu_deny K (a ! 0) (a ! 1) (a ! 2) (a ! 3) db
      else if subcmd = 3 then ksu_auditallow K (a ! 0) (a ! 1) (a ! 2) (a ! 3) db
      else if subcmd = 4 then ksu_dontaudit K (a ! 0) (a ! 1) (a ! 2) (a ! 3) db
      else (False, db))"

definition cmd_xperm :: "ss_lib \<Rightarrow> u32 \<Rightarrow> bytes option list \<Rightarrow> policydb \<Rightarrow> bool \<times> policydb" where
  "cmd_xperm K subcmd a db =
     (if subcmd = 1 then ksu_allowxperm K (a ! 0) (a ! 1) (a ! 2) (a ! 4) db
      else if subcmd = 2 then ksu_auditallowxperm K (a ! 0) (a ! 1) (a ! 2) (a ! 4) db
      else if subcmd = 3 then ksu_dontauditxperm K (a ! 0) (a ! 1) (a ! 2) (a ! 4) db
      else (False, db))"

definition cmd_type_state :: "ss_lib \<Rightarrow> u32 \<Rightarrow> bytes option list \<Rightarrow> policydb \<Rightarrow> bool \<times> policydb" where
  "cmd_type_state K subcmd a db =
     (if subcmd = 1 then ksu_permissive K (a ! 0) db
      else if subcmd = 2 then ksu_enforce K (a ! 0) db
      else (False, db))"

definition cmd_type_change :: "ss_lib \<Rightarrow> u32 \<Rightarrow> bytes option list \<Rightarrow> policydb \<Rightarrow> bool \<times> policydb" where
  "cmd_type_change K subcmd a db =
     (let x = \<lambda>i. the (a ! i) in
      if subcmd = 1 then ksu_type_change K (x 0) (x 1) (x 2) (x 3) db
      else if subcmd = 2 then ksu_type_member K (x 0) (x 1) (x 2) (x 3) db
      else (False, db))"

definition require_then ::
    "bytes option list \<Rightarrow> (policydb \<Rightarrow> bool \<times> policydb) \<Rightarrow> policydb \<Rightarrow> int \<times> policydb" where
  "require_then vs act db =
     (case require_all vs of Some e \<Rightarrow> (neg_errno e, db) | None \<Rightarrow> result_code (act db))"

definition apply_one_sepolicy_cmd ::
    "ss_lib \<Rightarrow> sepol_data \<Rightarrow> bytes option list \<Rightarrow> policydb \<Rightarrow> int \<times> policydb" where
  "apply_one_sepolicy_cmd K h a db =
     (let cmd = sd_cmd h; sub = sd_subcmd h; x = \<lambda>i. the (a ! i) in
      if cmd = KSU_SEPOLICY_CMD_NORMAL_PERM then result_code (cmd_normal_perm K sub a db)
      else if cmd = KSU_SEPOLICY_CMD_XPERM then require_then [a ! 3, a ! 4] (cmd_xperm K sub a) db
      else if cmd = KSU_SEPOLICY_CMD_TYPE_STATE then require_then [a ! 0] (cmd_type_state K sub a) db
      else if cmd = KSU_SEPOLICY_CMD_TYPE then require_then [a ! 0, a ! 1] (ksu_type K (x 0) (x 1)) db
      else if cmd = KSU_SEPOLICY_CMD_TYPE_ATTR then
        require_then [a ! 0, a ! 1] (ksu_typeattribute K (x 0) (x 1)) db
      else if cmd = KSU_SEPOLICY_CMD_ATTR then require_then [a ! 0] (ksu_attribute K (x 0)) db
      else if cmd = KSU_SEPOLICY_CMD_TYPE_TRANSITION then
        require_then [a ! 0, a ! 1, a ! 2, a ! 3] (ksu_type_transition K (x 0) (x 1) (x 2) (x 3) (a ! 4)) db
      else if cmd = KSU_SEPOLICY_CMD_TYPE_CHANGE then
        require_then [a ! 0, a ! 1, a ! 2, a ! 3] (cmd_type_change K sub a) db
      else if cmd = KSU_SEPOLICY_CMD_GENFSCON then
        require_then [a ! 0, a ! 1, a ! 2] (ksu_genfscon (x 0) (x 1) (x 2)) db
      else (neg_errno EINVAL, db))"

section \<open>The batch\<close>

lemma read_string_shorter: "sepol_read_string cur = Inr (v, rest) \<Longrightarrow> length rest < length cur"
  by (auto simp: sepol_read_string_def sepol_remaining_def Let_def split: if_splits)

lemma read_args_shorter: "read_args n cur = Inr (as, rest) \<Longrightarrow> length rest \<le> length cur"
proof (induction n arbitrary: cur as)
  case (Suc n)
  then show ?case
    by (auto split: sum.splits prod.splits dest!: read_string_shorter) fastforce
qed simp

lemma read_cmd_shorter: "read_cmd cur = Inr (ha, rest) \<Longrightarrow> length rest + 8 \<le> length cur"
  by (auto simp: read_cmd_def sepol_read_cmd_header_def sepol_remaining_def
      split: sum.splits if_splits prod.splits dest!: read_args_shorter)

text \<open>
  The loop of \<open>handle_sepolicy\<close>: a command that cannot be read ends it, one that fails is only
  not counted. Each command takes at least its header from the payload.
\<close>

function batch_loop :: "ss_lib \<Rightarrow> bytes \<Rightarrow> policydb \<Rightarrow> nat \<Rightarrow> errno + policydb \<times> nat" where
  "batch_loop K cursor db success_cmd_count =
     (if cursor = [] then Inr (db, success_cmd_count)
      else case read_cmd cursor of
          Inl e \<Rightarrow> Inl e
        | Inr ((h, a), rest) \<Rightarrow>
            let (ret, db1) = apply_one_sepolicy_cmd K h a db
            in batch_loop K rest db1 (if ret < 0 then success_cmd_count else success_cmd_count + 1))"
  by pat_completeness auto

termination
  by (relation "measure (\<lambda>(K, cursor, db, n). length cursor)") (auto dest!: read_cmd_shorter)

declare batch_loop.simps [simp del]

datatype policy_ref = Old_Policy | New_Policy | Backup_Policy

datatype policy_event =
    Published | Grace_Period | Destroyed policy_ref
  | Avc_Reset | Policyload_Notified | Status_Updated | Xfrm_Notified

record policy_state =
  ps_policy :: selinux_policy
  ps_backup :: "selinux_policy option"
  ps_trace :: "policy_event list"

text \<open>
  The surroundings of a load: the security server, its images of a policy (one for each copy the
  function makes), the outcomes of the allocations, the loading of the initial security ids.
\<close>

record load_env =
  le_lib :: ss_lib
  le_image :: "nat \<Rightarrow> policy_image"
  le_kvmalloc :: bool
  le_sidtab :: "u64 option"
  le_load_isids :: "policydb \<Rightarrow> bool"

definition trace_event :: "policy_event list \<Rightarrow> policy_state \<Rightarrow> policy_state" where
  "trace_event es s = s\<lparr>ps_trace := ps_trace s @ es\<rparr>"

definition ksu_destroy_sepolicy :: "policy_ref \<Rightarrow> policy_state \<Rightarrow> policy_state" where
  "ksu_destroy_sepolicy p s = trace_event [Destroyed p] s"

definition reset_avc_cache :: "policy_state \<Rightarrow> policy_state" where
  "reset_avc_cache s = trace_event [Avc_Reset, Policyload_Notified, Status_Updated, Xfrm_Notified] s"

text \<open>The new policy becomes the current one; the old one is destroyed after a grace period.\<close>

definition publish :: "selinux_policy \<Rightarrow> policy_state \<Rightarrow> policy_state" where
  "publish pol s =
     reset_avc_cache (ksu_destroy_sepolicy Old_Policy
       (trace_event [Published, Grace_Period] (s\<lparr>ps_policy := pol\<rparr>)))"

definition handle_sepolicy :: "load_env \<Rightarrow> u64 \<Rightarrow> u64 \<Rightarrow> umem \<Rightarrow> policy_state \<Rightarrow> int \<times> policy_state" where
  "handle_sepolicy E user_data data_len m s =
     (if user_data = 0 \<or> data_len = 0 then (neg_errno EINVAL, s)
      else if unat data_len > KSU_SEPOLICY_MAX_BATCH_SIZE then (neg_errno E2BIG, s)
      else if \<not> le_kvmalloc E then (neg_errno ENOMEM, s)
      else case copy_from_user (unat user_data) (unat data_len) m of
          None \<Rightarrow> (neg_errno EFAULT, s)
        | Some payload \<Rightarrow>
            (case ksu_dup_sepolicy (le_image E 0) (ps_policy s) of
               Inl e \<Rightarrow> (neg_errno e, s)
             | Inr pol \<Rightarrow>
                 (case batch_loop (le_lib E) payload (sp_policydb pol) 0 of
                    Inl e \<Rightarrow> (neg_errno e, ksu_destroy_sepolicy New_Policy s)
                  | Inr (db, n) \<Rightarrow> (int n, publish (pol\<lparr>sp_policydb := db\<rparr>) s))))"

section \<open>The rules of the module\<close>

type_synonym policy_edit = "policydb \<Rightarrow> bool \<times> policydb"

definition KERNEL_SU_FILE :: bytes where
  "KERNEL_SU_FILE = lit ''ksu_file''"

text \<open>Most rules let a type do one thing to the domain.\<close>

definition allow_to_ksu :: "ss_lib \<Rightarrow> string \<Rightarrow> string \<Rightarrow> string list \<Rightarrow> policy_edit list" where
  "allow_to_ksu K src cls perms =
     map (\<lambda>p. ksu_allow K (Some (lit src)) (Some KERNEL_SU_DOMAIN) (Some (lit cls)) (Some (lit p))) perms"

definition domain_rules :: "ss_lib \<Rightarrow> policy_edit list" where
  "domain_rules K =
     [ksu_type K KERNEL_SU_DOMAIN (lit ''domain''),
      ksu_permissive K (Some KERNEL_SU_DOMAIN),
      ksu_typeattribute K KERNEL_SU_DOMAIN (lit ''mlstrustedsubject''),
      ksu_typeattribute K KERNEL_SU_DOMAIN (lit ''netdomain''),
      ksu_typeattribute K KERNEL_SU_DOMAIN (lit ''bluetoothdomain''),
      ksu_type K KERNEL_SU_FILE (lit ''file_type''),
      ksu_typeattribute K KERNEL_SU_FILE (lit ''mlstrustedobject''),
      ksu_allow K (Some (lit ''domain'')) (Some KERNEL_SU_FILE) None None,
      ksu_allow K (Some KERNEL_SU_DOMAIN) None None None]"

definition ioctl_rules :: "ss_lib \<Rightarrow> policy_edit list" where
  "ioctl_rules K =
     map (\<lambda>c. ksu_allowxperm K (Some KERNEL_SU_DOMAIN) None (Some (lit c)) None)
       [''blk_file'', ''fifo_file'', ''chr_file'', ''file'']"

definition service_rules :: "ss_lib \<Rightarrow> policy_edit list" where
  "service_rules K =
     [ksu_allow K (Some (lit ''init'')) (Some KERNEL_SU_DOMAIN) None None] @
     allow_to_ksu K ''servicemanager'' ''dir'' [''search'', ''read''] @
     allow_to_ksu K ''servicemanager'' ''file'' [''open'', ''read''] @
     allow_to_ksu K ''servicemanager'' ''process'' [''getattr''] @
     allow_to_ksu K ''domain'' ''process'' [''sigchld''] @
     allow_to_ksu K ''logd'' ''dir'' [''search''] @
     allow_to_ksu K ''logd'' ''file'' [''read'', ''open'', ''getattr''] @
     allow_to_ksu K ''domain'' ''fd'' [''use''] @
     allow_to_ksu K ''domain'' ''fifo_file'' [''write'', ''read'', ''open'', ''getattr''] @
     allow_to_ksu K ''domain'' ''unix_stream_socket''
       [''read'', ''write'', ''connectto'', ''getopt'', ''getattr''] @
     allow_to_ksu K ''domain'' ''memfd_file'' [''execute'', ''getattr'', ''map'', ''read'', ''write''] @
     allow_to_ksu K ''hwservicemanager'' ''dir'' [''search''] @
     allow_to_ksu K ''hwservicemanager'' ''file'' [''read'', ''open''] @
     allow_to_ksu K ''hwservicemanager'' ''process'' [''getattr''] @
     [ksu_allow K (Some (lit ''domain'')) (Some KERNEL_SU_DOMAIN) (Some (lit ''binder'')) None] @
     allow_to_ksu K ''system_server'' ''process'' [''getpgid'', ''sigkill'']"

text \<open>The results of the single rules are not looked at.\<close>

definition run_rules :: "policy_edit list \<Rightarrow> policydb \<Rightarrow> policydb" where
  "run_rules rules db = fold (\<lambda>r d. snd (r d)) rules db"

definition kernelsu_rules :: "ss_lib \<Rightarrow> policydb \<Rightarrow> policydb" where
  "kernelsu_rules K db =
     (let db1 = run_rules (domain_rules K) db;
          db2 = (if pd_policyvers db1 \<ge> POLICYDB_VERSION_XPERMS_IOCTL then run_rules (ioctl_rules K) db1 else db1)
      in run_rules (service_rules K) db2)"

text \<open>The copy kept of the policy before the rules, with a table of security ids of its own.\<close>

definition make_backup :: "load_env \<Rightarrow> policy_state \<Rightarrow> policy_state" where
  "make_backup E s =
     (case ksu_dup_sepolicy (le_image E 0) (ps_policy s) of
        Inl e \<Rightarrow> s\<lparr>ps_backup := None\<rparr>
      | Inr pol \<Rightarrow>
          (case le_sidtab E of
             None \<Rightarrow> ksu_destroy_sepolicy Backup_Policy (s\<lparr>ps_backup := None\<rparr>)
           | Some tab \<Rightarrow>
               if le_load_isids E (sp_policydb pol) then s\<lparr>ps_backup := Some (pol\<lparr>sp_sidtab := tab\<rparr>)\<rparr>
               else ksu_destroy_sepolicy Backup_Policy (s\<lparr>ps_backup := None\<rparr>)))"

definition apply_kernelsu_rules :: "load_env \<Rightarrow> policy_state \<Rightarrow> policy_state" where
  "apply_kernelsu_rules E s =
     (let s1 = make_backup E s in
      case ksu_dup_sepolicy (le_image E 1) (ps_policy s) of
        Inl e \<Rightarrow> s1
      | Inr pol \<Rightarrow> publish (pol\<lparr>sp_policydb := kernelsu_rules (le_lib E) (sp_policydb pol)\<rparr>) s1)"

end
