(* ===== verification/Sepolicy_Rules.thy ===== *)
theory Sepolicy_Rules
  imports Sepolicy
begin

text \<open>
  What the access vector rules of \<^verbatim>\<open>sepolicy.c\<close> do to the policy. The table is read as a function
  from keys to vectors (\<open>av_data\<close>); one rule at given types and class changes it at one key, and
  the wildcard loops change it at every key they run over. The contract of one round is the
  locale \<open>keyed_edit\<close>, which the loop over permissive types keeps as well.
\<close>

section \<open>Loops of edits\<close>

lemma for_each_append:
  "for_each f (xs @ ys) d =
     (let (b, d1) = for_each f xs d; (b2, d2) = for_each f ys d1 in (b \<and> b2, d2))"
  by (induction xs arbitrary: d) (auto simp: Let_def split: prod.splits)

lemma for_each_keeps:
  assumes "\<And>x d. P d \<Longrightarrow> P (snd (f x d))" "P d"
  shows "P (snd (for_each f xs d))"
  using assms(2)
proof (induction xs arbitrary: d)
  case (Cons x xs)
  then show ?case using Cons.IH [of "snd (f x d)"] assms(1) [of d x] by (simp add: split_beta Let_def)
qed simp

lemma for_each_flatten:
  assumes step: "\<And>x d. P d \<Longrightarrow> g x d = for_each f (h x) d" and keep: "\<And>a d. P d \<Longrightarrow> P (snd (f a d))"
    and start: "P d"
  shows "for_each g xs d = for_each f (concat (map h xs)) d"
  using start
proof (induction xs arbitrary: d)
  case (Cons x xs)
  have "P (snd (for_each f (h x) d))" by (rule for_each_keeps) (use keep Cons.prems in simp_all)
  then have "for_each g xs (snd (for_each f (h x) d)) =
      for_each f (concat (map h xs)) (snd (for_each f (h x) d))"
    by (rule Cons.IH)
  then show ?case using step [OF Cons.prems, of x] by (simp add: for_each_append Let_def split_beta)
qed simp

lemma for_each_map: "for_each f (map g xs) d = for_each (\<lambda>x. f (g x)) xs d"
  by (induction xs arbitrary: d) simp_all

lemma fold_for_each: "fold (\<lambda>x d. snd (f x d)) xs d = snd (for_each f xs d)"
  by (induction xs arbitrary: d) (simp_all add: split_beta Let_def)

text \<open>An operation that edits one key of a state seen as a function, and reports success.\<close>

locale keyed_edit =
  fixes look :: "'d \<Rightarrow> 'k \<Rightarrow> 'v" and valid :: "'k \<Rightarrow> bool" and ok :: "'d \<Rightarrow> bool"
    and edit :: "'a \<Rightarrow> 'd \<Rightarrow> bool \<times> 'd" and key :: "'a \<Rightarrow> 'k" and change :: "'v \<Rightarrow> 'v"
  assumes edit_ok: "ok d \<Longrightarrow> ok (snd (edit a d))"
    and edit_other: "ok d \<Longrightarrow> valid k \<Longrightarrow> k \<noteq> key a \<Longrightarrow> look (snd (edit a d)) k = look d k"
    and edit_key: "ok d \<Longrightarrow> fst (edit a d) \<Longrightarrow> look (snd (edit a d)) (key a) = change (look d (key a))"
    and key_valid: "ok d \<Longrightarrow> valid (key a)"
    and change_twice: "change (change v) = change v"
begin

lemma loop_ok: "ok d \<Longrightarrow> ok (snd (for_each edit xs d))"
  by (rule for_each_keeps) (use edit_ok in simp_all)

lemma loop_other:
  "ok d \<Longrightarrow> valid k \<Longrightarrow> k \<notin> key ` set xs \<Longrightarrow> look (snd (for_each edit xs d)) k = look d k"
proof (induction xs arbitrary: d)
  case (Cons x xs)
  then have "look (snd (for_each edit xs (snd (edit x d)))) k = look (snd (edit x d)) k"
    using edit_ok [of d x] by (intro Cons.IH) auto
  then show ?case using Cons.prems edit_other [of d k x] by (simp add: split_beta Let_def)
qed simp

lemma loop_key:
  "ok d \<Longrightarrow> fst (for_each edit xs d) \<Longrightarrow> k \<in> key ` set xs \<Longrightarrow>
     look (snd (for_each edit xs d)) k = change (look d k)"
proof (induction xs arbitrary: d)
  case (Cons x xs)
  let ?d1 = "snd (edit x d)"
  have ok1: "ok ?d1" using edit_ok Cons.prems(1) .
  have b: "fst (edit x d)" "fst (for_each edit xs ?d1)"
    using Cons.prems(2) by (simp_all add: split_beta Let_def)
  have v: "valid k" using Cons.prems(1,3) key_valid by auto
  have one: "look ?d1 k = (if k = key x then change (look d k) else look d k)"
    using edit_key [OF Cons.prems(1) b(1)] edit_other [OF Cons.prems(1) v, of x] by simp
  show ?case
  proof (cases "k \<in> key ` set xs")
    case True
    then show ?thesis
      using Cons.IH [OF ok1 b(2) True] one change_twice by (simp add: split_beta Let_def)
  next
    case False
    then have "k = key x" using Cons.prems(3) by auto
    then show ?thesis using loop_other [OF ok1 v False] one by (simp add: split_beta Let_def)
  qed
qed simp

text \<open>A loop that succeeds changes the function at exactly the keys it ran over.\<close>

lemma loop_pointwise:
  "ok d \<Longrightarrow> fst (for_each edit xs d) \<Longrightarrow> valid k \<Longrightarrow>
     look (snd (for_each edit xs d)) k = (if k \<in> key ` set xs then change (look d k) else look d k)"
  using loop_key loop_other by simp

end

section \<open>One node\<close>

definition rule_effects :: "u16 list" where
  "rule_effects = [AVTAB_ALLOWED, AVTAB_AUDITALLOW, AVTAB_AUDITDENY]"

definition plain_key :: "avtab_key \<Rightarrow> bool" where
  "plain_key k \<longleftrightarrow> ak_spec k \<in> set av_kinds \<and> \<not> is_ext k"

lemma rule_effect_plain: "ak_spec k \<in> set rule_effects \<Longrightarrow> plain_key k"
  by (auto simp: rule_effects_def plain_key_def av_kinds_def is_ext_def)

lemma rule_key_spec [simp]: "ak_spec (rule_key s t c e) = e"
  by (simp add: rule_key_def)

text \<open>What the edits leave alone: all but the nodes of the table, their number and the length.\<close>

definition same_frame :: "policydb \<Rightarrow> policydb \<Rightarrow> bool" where
  "same_frame a b \<longleftrightarrow> a\<lparr>pd_avtab := [], pd_nel := 0, pd_len := 0\<rparr> = b\<lparr>pd_avtab := [], pd_nel := 0, pd_len := 0\<rparr>"

lemma same_frame_refl [simp]: "same_frame a a"
  by (simp add: same_frame_def)

lemma same_frame_trans: "same_frame a b \<Longrightarrow> same_frame b c \<Longrightarrow> same_frame a c"
  by (simp add: same_frame_def)

lemma same_frame_fields:
  assumes "same_frame a b"
  shows "pd_types a = pd_types b" "pd_classes a = pd_classes b" "pd_attr_map a = pd_attr_map b"
    "pd_permissive a = pd_permissive b" "pd_role_types a = pd_role_types b"
    "pd_types_nprim a = pd_types_nprim b" "pd_val_to_struct a = pd_val_to_struct b"
    "pd_val_to_name a = pd_val_to_name b" "pd_filename_trans a = pd_filename_trans b"
    "pd_policyvers a = pd_policyvers b"
  using assms unfolding same_frame_def by (cases a; cases b; simp)+

lemma same_frame_avtab [simp]:
  "same_frame a (b\<lparr>pd_avtab := ns\<rparr>) = same_frame a b"
  "same_frame a (b\<lparr>pd_nel := m\<rparr>) = same_frame a b"
  "same_frame a (b\<lparr>pd_len := m\<rparr>) = same_frame a b"
  "same_frame (a\<lparr>pd_avtab := ns\<rparr>) b = same_frame a b"
  "same_frame (a\<lparr>pd_nel := m\<rparr>) b = same_frame a b"
  "same_frame (a\<lparr>pd_len := m\<rparr>) b = same_frame a b"
  by (cases a; cases b; simp add: same_frame_def)+

lemma av_assoc_simps:
  "av_assoc (insert_at p n ns) = insert_at p (an_key n, an_data n) (av_assoc ns)"
  "av_assoc (remove_at i ns) = remove_at i (av_assoc ns)"
  "av_assoc (ns[i := n]) = (av_assoc ns)[i := (an_key n, an_data n)]"
  by (simp_all add: av_assoc_def insert_at_def remove_at_def take_map drop_map map_update)

lemma av_assoc_nth: "i < length ns \<Longrightarrow> fst (av_assoc ns ! i) = an_key (ns ! i)"
  by (simp add: av_assoc_def)

lemma length_av_assoc [simp]: "length (av_assoc ns) = length ns"
  by (simp add: av_assoc_def)

lemma search_plain:
  assumes "ss_ok K" "wf_avtab ns" "plain_key k" "ss_search K ns k = Some i"
  shows "i < length ns \<and> an_key (ns ! i) = k \<and> (\<forall>j<i. an_key (ns ! j) \<noteq> k)"
proof -
  have f: "first_from (av_match k) 0 ns = Some i" using assms by (simp add: ss_ok_def)
  note g = first_from_Some [OF f]
  have m: "av_match k (ns ! j) \<longleftrightarrow> an_key (ns ! j) = k" if "j < length ns" for j
    using assms(2,3) that by (intro av_match_key) (auto simp: wf_avtab_def plain_key_def)
  show ?thesis using g m [of i] m by fastforce
qed

lemma search_plain_None:
  assumes "ss_ok K" "wf_avtab ns" "plain_key k" "ss_search K ns k = None"
  shows "k \<notin> an_key ` set ns"
proof -
  have f: "first_from (av_match k) 0 ns = None" using assms by (simp add: ss_ok_def)
  have m: "av_match k (ns ! j) \<longleftrightarrow> an_key (ns ! j) = k" if "j < length ns" for j
    using assms(2,3) that by (intro av_match_key) (auto simp: wf_avtab_def plain_key_def)
  show ?thesis using f m by (auto simp: first_from_None in_set_conv_nth)
qed

lemma av_data_absent:
  assumes "wf_avtab ns" "plain_key k" "k \<notin> an_key ` set ns"
  shows "av_data ns k = av_default k"
proof -
  have "map_of (av_assoc ns) k = None"
    using assms(3) by (simp add: map_of_eq_None_iff av_assoc_def image_image)
  then show ?thesis using assms by (simp add: av_data_wf plain_key_def)
qed

lemma av_data_at:
  assumes "wf_avtab ns" "plain_key k" "i < length ns" "an_key (ns ! i) = k"
  shows "av_data ns k = an_data (ns ! i)"
proof -
  have "\<forall>j<i. fst (av_assoc ns ! j) \<noteq> k"
    using wf_unique [OF assms(1)] assms(2-4) by (metis av_assoc_nth nat_neq_iff order_less_trans plain_key_def)
  then have "map_of ((av_assoc ns)[i := (k, an_data (ns ! i))]) = (map_of (av_assoc ns))(k \<mapsto> an_data (ns ! i))"
    using assms(3,4) by (intro map_of_update_at) (simp_all add: av_assoc_nth)
  moreover have "(av_assoc ns)[i := (k, an_data (ns ! i))] = av_assoc ns"
    using assms(3,4) by (intro list_update_same_conv [THEN iffD2]) (auto simp: av_assoc_def)
  ultimately have "map_of (av_assoc ns) = (map_of (av_assoc ns))(k \<mapsto> an_data (ns ! i))" by simp
  from fun_cong [OF this, of k] have "map_of (av_assoc ns) k = Some (an_data (ns ! i))" by simp
  then show ?thesis using assms by (simp add: av_data_wf plain_key_def)
qed

lemma plain_no_ext: "plain_key k \<Longrightarrow> ak_spec k AND AVTAB_XPERMS = 0"
  by (simp add: plain_key_def is_ext_def)

text \<open>Getting the node of a key makes it present and changes nothing one can look up.\<close>

lemma get_plain:
  assumes "ss_ok K" "wf_avtab (pd_avtab db)" "plain_key k" "get_avtab_node K k None db = (Some i, db1)"
  shows "i < length (pd_avtab db1)" "an_key (pd_avtab db1 ! i) = k" "wf_avtab (pd_avtab db1)"
    "same_frame db1 db"
    "\<And>k'. ak_spec k' \<in> set av_kinds \<Longrightarrow> av_data (pd_avtab db1) k' = av_data (pd_avtab db) k'"
proof -
  let ?ns = "pd_avtab db"
  have "i < length (pd_avtab db1) \<and> an_key (pd_avtab db1 ! i) = k \<and> wf_avtab (pd_avtab db1) \<and> same_frame db1 db \<and>
      (\<forall>k'. ak_spec k' \<in> set av_kinds \<longrightarrow> av_data (pd_avtab db1) k' = av_data ?ns k')"
  proof (cases "ss_search K ?ns k")
    case (Some j)
    then have "j = i" "db1 = db" using assms(4) by (simp_all add: get_avtab_node_def)
    then show ?thesis using search_plain [OF assms(1-3) Some] assms(2) by simp
  next
    case None
    then obtain p where p: "ss_place K ?ns k = Some p"
      using assms(4) by (cases "ss_place K ?ns k") (simp_all add: get_avtab_node_def)
    define n where "n = \<lparr>an_key = k, an_data = av_default k, an_xperms = None\<rparr>"
    have db1: "i = p" "pd_avtab db1 = insert_at p n ?ns" "same_frame db1 db"
      using assms(3,4) None p plain_no_ext [OF assms(3)]
      by (auto simp: get_avtab_node_def n_def av_default_def)
    have pl: "p \<le> length ?ns" using assms(1) p by (simp add: ss_ok_def)
    have notin: "k \<notin> an_key ` set ?ns" by (rule search_plain_None [OF assms(1-3) None])
    have wf: "wf_avtab (insert_at p n ?ns)"
      by (rule wf_insert_at [OF assms(2)]) (use assms(3) notin in \<open>auto simp: n_def plain_key_def\<close>)
    have "av_data (insert_at p n ?ns) k' = av_data ?ns k'" if k': "ak_spec k' \<in> set av_kinds" for k'
    proof -
      have "fst (av_assoc ?ns ! j) \<noteq> k" if "j < length ?ns" for j
        using notin that by (auto simp: av_assoc_nth)
      then have "map_of (av_assoc (insert_at p n ?ns)) = (map_of (av_assoc ?ns))(k \<mapsto> av_default k)"
        unfolding av_assoc_simps n_def avtab_node.simps using pl by (intro map_of_insert_at) auto
      moreover have "map_of (av_assoc ?ns) k = None"
        using notin by (simp add: map_of_eq_None_iff av_assoc_def image_image)
      ultimately show ?thesis using av_data_wf [OF wf k'] av_data_wf [OF assms(2) k'] by simp
    qed
    then show ?thesis using db1 wf pl by (auto simp: n_def)
  qed
  then show "i < length (pd_avtab db1)" "an_key (pd_avtab db1 ! i) = k" "wf_avtab (pd_avtab db1)"
    "same_frame db1 db"
    "\<And>k'. ak_spec k' \<in> set av_kinds \<Longrightarrow> av_data (pd_avtab db1) k' = av_data (pd_avtab db) k'" by auto
qed

lemma get_plain_None: "get_avtab_node K k None db = (None, db1) \<Longrightarrow> db1 = db"
  by (auto simp: get_avtab_node_def Let_def split: option.splits)

text \<open>Writing the data of a node.\<close>

lemma wf_set_data:
  assumes "wf_avtab ns" "i < length ns" "an_key n = an_key (ns ! i)" "an_xperms n = an_xperms (ns ! i)"
  shows "wf_avtab (ns[i := n])"
proof -
  have keys: "map an_key (ns[i := n]) = map an_key ns"
    using assms(2,3) by (simp add: map_update list_update_same_conv)
  have "ak_spec (an_key m) \<in> set av_kinds \<and> (is_ext (an_key m) \<longrightarrow> an_xperms m \<noteq> None)"
    if "m \<in> set (ns[i := n])" for m
    using set_update_subset_insert [of ns i n] that assms nth_mem [OF assms(2)] by (auto simp: wf_avtab_def)
  then show ?thesis using assms(1) keys by (simp add: wf_avtab_def)
qed

lemma av_data_set:
  assumes "wf_avtab ns" "i < length ns" "an_key (ns ! i) = k" "plain_key k" "ak_spec k' \<in> set av_kinds"
  shows "av_data (ns[i := (ns ! i)\<lparr>an_data := v\<rparr>]) k' = (if k' = k then v else av_data ns k')"
proof -
  let ?ns = "ns[i := (ns ! i)\<lparr>an_data := v\<rparr>]"
  have "\<forall>j<i. fst (av_assoc ns ! j) \<noteq> k"
    using wf_unique [OF assms(1)] assms(2-4) by (metis av_assoc_nth nat_neq_iff order_less_trans plain_key_def)
  then have m: "map_of (av_assoc ?ns) = (map_of (av_assoc ns))(k \<mapsto> v)"
    using assms(2,3) unfolding av_assoc_simps by (simp add: map_of_update_at av_assoc_nth)
  have "wf_avtab ?ns" by (rule wf_set_data) (use assms in simp_all)
  then show ?thesis using m assms(1,5) by (simp add: av_data_wf)
qed

text \<open>Removing a node makes its key read as a missing one.\<close>

lemma av_data_remove:
  assumes "wf_avtab ns" "i < length ns" "an_key (ns ! i) = k" "plain_key k" "ak_spec k' \<in> set av_kinds"
  shows "av_data (remove_at i ns) k' = (if k' = k then av_default k else av_data ns k')"
proof -
  have "\<forall>j<length ns. j \<noteq> i \<longrightarrow> fst (av_assoc ns ! j) \<noteq> k"
    using wf_unique [OF assms(1)] assms(2-4) by (metis av_assoc_nth plain_key_def)
  then have "map_of (av_assoc (remove_at i ns)) = (map_of (av_assoc ns))(k := None)"
    using assms(2,3) unfolding av_assoc_simps by (intro map_of_remove_at) (simp_all add: av_assoc_nth)
  then show ?thesis
    using av_data_wf [OF wf_remove_at [OF assms(1), of i] assms(5)] av_data_wf [OF assms(1,5)] by simp
qed

lemma redundant_default:
  "ak_spec (an_key n) \<in> set rule_effects \<Longrightarrow> is_redundant_avtab_node n \<Longrightarrow> an_data n = av_default (an_key n)"
  by (auto simp: rule_effects_def is_redundant_avtab_node_def av_default_def)

lemma remove_cases:
  assumes "remove_avtab_node K i db = (b, db1)" "i < length (pd_avtab db)"
  shows "same_frame db1 db"
    "b \<Longrightarrow> pd_avtab db1 = remove_at i (pd_avtab db)" "\<not> b \<Longrightarrow> db1 = db"
  using assms by (auto simp: remove_avtab_node_def Let_def split: if_splits)

section \<open>One rule at given types and class\<close>

lemma av_update_twice: "av_update perm invert (av_update perm invert v) = av_update perm invert v"
  by (cases perm) (simp_all add: av_update_def and.assoc or.assoc)

text \<open>The outcome of \<open>add_rule_at\<close> in the two cases that find or make a node, and without one.\<close>

lemma add_rule_at_node:
  assumes "ss_ok K" "effect \<in> set rule_effects" "wf_avtab (pd_avtab db)"
    and i: "i < length (pd_avtab db)" "an_key (pd_avtab db ! i) = k" "ak_spec k = effect"
    and r: "(b, db1) =
      (let n = pd_avtab db ! i; n1 = n\<lparr>an_data := av_update perm invert (an_data n)\<rparr>;
           db2 = db\<lparr>pd_avtab := (pd_avtab db)[i := n1]\<rparr>
       in if is_redundant_avtab_node n1 then remove_avtab_node K i db2 else (True, db2))"
  shows "wf_avtab (pd_avtab db1) \<and> same_frame db1 db \<and>
    (\<forall>k'. ak_spec k' \<in> set av_kinds \<longrightarrow> av_data (pd_avtab db1) k' =
       (if k' = k then av_update perm invert (av_data (pd_avtab db) k) else av_data (pd_avtab db) k'))"
proof -
  let ?n = "pd_avtab db ! i"
  define n1 where "n1 = ?n\<lparr>an_data := av_update perm invert (an_data ?n)\<rparr>"
  define db2 where "db2 = db\<lparr>pd_avtab := (pd_avtab db)[i := n1]\<rparr>"
  have pk: "plain_key k" using assms(2) i(3) by (intro rule_effect_plain) simp
  have old: "av_data (pd_avtab db) k = an_data ?n" by (rule av_data_at) (use assms pk in simp_all)
  have n1: "an_key n1 = k" "an_data n1 = av_update perm invert (an_data ?n)" using i(2) by (simp_all add: n1_def)
  have wf2: "wf_avtab (pd_avtab db2)"
    unfolding db2_def n1_def by simp (rule wf_set_data, use assms in simp_all)
  have two: "av_data (pd_avtab db2) k' =
      (if k' = k then av_update perm invert (an_data ?n) else av_data (pd_avtab db) k')"
    if "ak_spec k' \<in> set av_kinds" for k'
    using av_data_set [OF assms(3) i(1,2) pk that] by (simp add: db2_def n1_def)
  have at2: "i < length (pd_avtab db2)" "an_key (pd_avtab db2 ! i) = k" "same_frame db2 db"
    using i by (simp_all add: db2_def n1_def)
  have r2: "(b, db1) = (if is_redundant_avtab_node n1 then remove_avtab_node K i db2 else (True, db2))"
    using r by (simp add: n1_def db2_def Let_def)
  show ?thesis
  proof (cases "is_redundant_avtab_node n1 \<and> b")
    case True
    have d: "av_update perm invert (an_data ?n) = av_default k"
      using redundant_default [of n1] True n1 i(3) assms(2) by simp
    have "remove_avtab_node K i db2 = (True, db1)" using r2 True by simp
    from remove_cases [OF this at2(1)] have "pd_avtab db1 = remove_at i (pd_avtab db2)" "same_frame db1 db2"
      by simp_all
    then show ?thesis
      using av_data_remove [OF wf2 at2(1,2) pk] two wf_remove_at [OF wf2] d old same_frame_trans at2(3) by simp
  next
    case False
    then have "db1 = db2"
      using r2 remove_cases(3) [OF _ at2(1), of K b db1] by (auto split: if_splits)
    then show ?thesis using two wf2 at2(3) old by simp
  qed
qed

lemma add_rule_at_spec:
  assumes "ss_ok K" "effect \<in> set rule_effects" "wf_avtab (pd_avtab db)"
    and r: "add_rule_at K perm effect invert s t c db = (b, db1)"
  shows "wf_avtab (pd_avtab db1)" "same_frame db1 db"
    "\<And>k. ak_spec k \<in> set av_kinds \<Longrightarrow> k \<noteq> rule_key s t c effect \<Longrightarrow>
       av_data (pd_avtab db1) k = av_data (pd_avtab db) k"
    "b \<Longrightarrow> av_data (pd_avtab db1) (rule_key s t c effect) =
       av_update perm invert (av_data (pd_avtab db) (rule_key s t c effect))"
    "av_data (pd_avtab db1) (rule_key s t c effect) = av_data (pd_avtab db) (rule_key s t c effect) \<or>
     av_data (pd_avtab db1) (rule_key s t c effect) =
       av_update perm invert (av_data (pd_avtab db) (rule_key s t c effect))"
proof -
  let ?k = "rule_key s t c effect"
  let ?keep = "invert \<and> effect \<noteq> AVTAB_AUDITDENY"
  have pk: "plain_key ?k" by (rule rule_effect_plain) (use assms(2) in simp)
  have kinds: "ak_spec ?k \<in> set av_kinds" using pk by (simp add: plain_key_def)
  obtain found db0 where f:
      "(if ?keep then (ss_search K (pd_avtab db) ?k, db) else get_avtab_node K ?k None db) = (found, db0)"
    by (cases "if ?keep then (ss_search K (pd_avtab db) ?k, db) else get_avtab_node K ?k None db")
  have all: "wf_avtab (pd_avtab db1) \<and> same_frame db1 db \<and>
    (\<forall>k. ak_spec k \<in> set av_kinds \<longrightarrow> k \<noteq> ?k \<longrightarrow> av_data (pd_avtab db1) k = av_data (pd_avtab db) k) \<and>
    (b \<longrightarrow> av_data (pd_avtab db1) ?k = av_update perm invert (av_data (pd_avtab db) ?k)) \<and>
    (av_data (pd_avtab db1) ?k = av_data (pd_avtab db) ?k \<or>
     av_data (pd_avtab db1) ?k = av_update perm invert (av_data (pd_avtab db) ?k))"
  proof (cases found)
    case None
    have "db0 = db" using f None get_plain_None [of K ?k db db0] by (auto split: if_splits)
    then have bd: "b = ?keep" "db1 = db" using r f None by (auto simp: add_rule_at_def Let_def)
    have "av_update perm invert (av_data (pd_avtab db) ?k) = av_data (pd_avtab db) ?k" if ?keep
    proof -
      have "ss_search K (pd_avtab db) ?k = None" using f None that by auto
      then have "?k \<notin> an_key ` set (pd_avtab db)" by (rule search_plain_None [OF assms(1,3) pk])
      then have "av_data (pd_avtab db) ?k = 0"
        using av_data_absent [OF assms(3) pk] that by (simp add: av_default_def)
      then show ?thesis using that by (simp add: av_update_def split: option.split)
    qed
    then show ?thesis using bd assms(3) by simp
  next
    case (Some i)
    have z: "i < length (pd_avtab db0) \<and> an_key (pd_avtab db0 ! i) = ?k \<and> wf_avtab (pd_avtab db0) \<and>
        same_frame db0 db \<and>
        (\<forall>k. ak_spec k \<in> set av_kinds \<longrightarrow> av_data (pd_avtab db0) k = av_data (pd_avtab db) k)"
    proof (cases ?keep)
      case True
      then show ?thesis using f Some search_plain [OF assms(1,3) pk, of i] assms(3) by auto
    next
      case False
      then show ?thesis using f Some get_plain [OF assms(1,3) pk, of i db0] by auto
    qed
    have "(b, db1) = (let n = pd_avtab db0 ! i; n1 = n\<lparr>an_data := av_update perm invert (an_data n)\<rparr>;
           db2 = db0\<lparr>pd_avtab := (pd_avtab db0)[i := n1]\<rparr>
       in if is_redundant_avtab_node n1 then remove_avtab_node K i db2 else (True, db2))"
      using r f Some by (simp add: add_rule_at_def Let_def)
    from add_rule_at_node [OF assms(1,2) _ _ _ _ this, of ?k] z
    have "wf_avtab (pd_avtab db1) \<and> same_frame db1 db0 \<and>
      (\<forall>k'. ak_spec k' \<in> set av_kinds \<longrightarrow> av_data (pd_avtab db1) k' =
         (if k' = ?k then av_update perm invert (av_data (pd_avtab db0) ?k) else av_data (pd_avtab db0) k'))"
      by simp
    then show ?thesis using z kinds same_frame_trans by auto
  qed
  then show "wf_avtab (pd_avtab db1)" "same_frame db1 db"
    "\<And>k. ak_spec k \<in> set av_kinds \<Longrightarrow> k \<noteq> ?k \<Longrightarrow> av_data (pd_avtab db1) k = av_data (pd_avtab db) k"
    "b \<Longrightarrow> av_data (pd_avtab db1) ?k = av_update perm invert (av_data (pd_avtab db) ?k)"
    "av_data (pd_avtab db1) ?k = av_data (pd_avtab db) ?k \<or>
     av_data (pd_avtab db1) ?k = av_update perm invert (av_data (pd_avtab db) ?k)" by blast+
qed

text \<open>The rule of one triple keeps the contract of \<open>keyed_edit\<close>.\<close>

type_synonym triple = "type_datum \<times> type_datum \<times> class_datum"

definition add_rule_triple :: "ss_lib \<Rightarrow> u32 option \<Rightarrow> u16 \<Rightarrow> bool \<Rightarrow> triple \<Rightarrow> policydb \<Rightarrow> bool \<times> policydb" where
  "add_rule_triple K perm effect invert x db =
     (case x of (s, t, c) \<Rightarrow> add_rule_at K perm effect invert s t c db)"

definition triple_key :: "u16 \<Rightarrow> triple \<Rightarrow> avtab_key" where
  "triple_key effect x = (case x of (s, t, c) \<Rightarrow> rule_key s t c effect)"

definition rule_ok :: "ss_lib \<Rightarrow> u16 \<Rightarrow> policydb \<Rightarrow> bool" where
  "rule_ok K effect db \<longleftrightarrow> ss_ok K \<and> effect \<in> set rule_effects \<and> wf_avtab (pd_avtab db)"

lemma add_rule_triple_spec:
  assumes "rule_ok K effect db"
  shows "rule_ok K effect (snd (add_rule_triple K perm effect invert x db))"
    "same_frame (snd (add_rule_triple K perm effect invert x db)) db"
    "\<And>k. ak_spec k \<in> set av_kinds \<Longrightarrow> k \<noteq> triple_key effect x \<Longrightarrow>
       av_data (pd_avtab (snd (add_rule_triple K perm effect invert x db))) k = av_data (pd_avtab db) k"
    "fst (add_rule_triple K perm effect invert x db) \<Longrightarrow>
       av_data (pd_avtab (snd (add_rule_triple K perm effect invert x db))) (triple_key effect x) =
       av_update perm invert (av_data (pd_avtab db) (triple_key effect x))"
proof -
  obtain s t c b db1 where r: "x = (s, t, c)" "add_rule_at K perm effect invert s t c db = (b, db1)"
    by (metis surj_pair)
  have a: "ss_ok K" "effect \<in> set rule_effects" "wf_avtab (pd_avtab db)"
    using assms by (simp_all add: rule_ok_def)
  note spec = add_rule_at_spec [OF a r(2)]
  show "rule_ok K effect (snd (add_rule_triple K perm effect invert x db))"
    "same_frame (snd (add_rule_triple K perm effect invert x db)) db"
    "\<And>k. ak_spec k \<in> set av_kinds \<Longrightarrow> k \<noteq> triple_key effect x \<Longrightarrow>
       av_data (pd_avtab (snd (add_rule_triple K perm effect invert x db))) k = av_data (pd_avtab db) k"
    "fst (add_rule_triple K perm effect invert x db) \<Longrightarrow>
       av_data (pd_avtab (snd (add_rule_triple K perm effect invert x db))) (triple_key effect x) =
       av_update perm invert (av_data (pd_avtab db) (triple_key effect x))"
    using spec a r by (simp_all add: add_rule_triple_def triple_key_def rule_ok_def)
qed

lemma triple_key_spec [simp]: "ak_spec (triple_key e x) = e"
  by (cases x) (simp add: triple_key_def)

interpretation av_rules: keyed_edit "\<lambda>db. av_data (pd_avtab db)" "\<lambda>k. ak_spec k \<in> set av_kinds"
    "rule_ok K effect" "add_rule_triple K perm effect invert" "triple_key effect" "av_update perm invert"
  for K :: ss_lib and perm effect invert
proof
  fix d x
  assume ok: "rule_ok K effect d"
  show "ak_spec (triple_key effect x) \<in> set av_kinds"
    using ok by (auto simp: rule_ok_def rule_effects_def av_kinds_def)
qed (use add_rule_triple_spec av_update_twice in simp_all)

section \<open>Rules with wildcards\<close>

definition named_classes :: "class_datum option \<Rightarrow> policydb \<Rightarrow> class_datum list" where
  "named_classes cls db = (case cls of Some c \<Rightarrow> [c] | None \<Rightarrow> map snd (pd_classes db))"

definition named_types :: "type_datum option \<Rightarrow> u16 \<Rightarrow> bool \<Rightarrow> policydb \<Rightarrow> type_datum list" where
  "named_types ty effect invert db =
     (case ty of Some t \<Rightarrow> [t] | None \<Rightarrow> map snd (wildcard_types effect invert db))"

definition rule_triples ::
    "type_datum option \<Rightarrow> type_datum option \<Rightarrow> class_datum option \<Rightarrow> u16 \<Rightarrow> bool \<Rightarrow> policydb \<Rightarrow> triple list" where
  "rule_triples src tgt cls effect invert db =
     concat (map (\<lambda>s. concat (map (\<lambda>t. map (\<lambda>c. (s, t, c)) (named_classes cls db))
       (named_types tgt effect invert db))) (named_types src effect invert db))"

lemma wildcard_types_frame: "same_frame a b \<Longrightarrow> wildcard_types e i a = wildcard_types e i b"
  by (simp add: wildcard_types_def same_frame_fields)

lemma named_frame:
  assumes "same_frame a b"
  shows "named_classes c a = named_classes c b" "named_types t e i a = named_types t e i b"
  by (simp_all add: named_classes_def named_types_def wildcard_types_frame [OF assms] same_frame_fields [OF assms]
      split: option.split)

text \<open>The three nested loops are one loop over the triples the rule names.\<close>

lemma add_rule_cls_triples:
  "add_rule_cls K perm effect invert s t cls db =
     for_each (add_rule_triple K perm effect invert) (map (\<lambda>c. (s, t, c)) (named_classes cls db)) db"
proof (cases cls)
  case None
  then show ?thesis
    by (simp add: add_rule_cls_def named_classes_def for_each_map split_def add_rule_triple_def [abs_def])
qed (simp add: add_rule_cls_def named_classes_def add_rule_triple_def split_beta Let_def)

lemma rule_triple_keeps:
  "rule_ok K effect d \<and> same_frame d db \<Longrightarrow>
     rule_ok K effect (snd (add_rule_triple K perm effect invert a d)) \<and>
     same_frame (snd (add_rule_triple K perm effect invert a d)) db"
  using add_rule_triple_spec(1,2) same_frame_trans by blast

lemma add_rule_tgt_triples:
  assumes "rule_ok K effect db"
  shows "add_rule_tgt K perm effect invert cls s tgt db =
     for_each (add_rule_triple K perm effect invert)
       (concat (map (\<lambda>t. map (\<lambda>c. (s, t, c)) (named_classes cls db)) (named_types tgt effect invert db))) db"
proof (cases tgt)
  case None
  have "for_each (\<lambda>(_, t). add_rule_cls K perm effect invert s t cls) xs db =
      for_each (add_rule_triple K perm effect invert)
        (concat (map (\<lambda>x. map (\<lambda>c. (s, snd x, c)) (named_classes cls db)) xs)) db" for xs :: "(bytes \<times> type_datum) list"
  proof (rule for_each_flatten [where P = "\<lambda>d. rule_ok K effect d \<and> same_frame d db"])
    fix x :: "bytes \<times> type_datum" and d
    assume a: "rule_ok K effect d \<and> same_frame d db"
    then have f: "named_classes cls d = named_classes cls db"
        "named_types tgt effect invert d = named_types tgt effect invert db"
      by (blast intro: named_frame)+
    show "(case x of (_, t) \<Rightarrow> add_rule_cls K perm effect invert s t cls) d =
        for_each (add_rule_triple K perm effect invert) (map (\<lambda>c. (s, snd x, c)) (named_classes cls db)) d"
      by (simp add: add_rule_cls_triples f split_beta)
  qed (rule rule_triple_keeps, assumption, simp add: assms)
  then show ?thesis using None by (simp add: add_rule_tgt_def named_types_def comp_def)
qed (simp add: add_rule_tgt_def named_types_def add_rule_cls_triples)

lemma add_rule_raw_triples:
  assumes "rule_ok K effect db"
  shows "add_rule_raw K src tgt cls perm effect invert db =
     for_each (add_rule_triple K perm effect invert) (rule_triples src tgt cls effect invert db) db"
proof (cases src)
  case None
  let ?h = "\<lambda>s. concat (map (\<lambda>t. map (\<lambda>c. (s, t, c)) (named_classes cls db)) (named_types tgt effect invert db))"
  have "for_each (\<lambda>(_, s). add_rule_tgt K perm effect invert cls s tgt) xs db =
      for_each (add_rule_triple K perm effect invert)
        (concat (map (\<lambda>x. ?h (snd x)) xs)) db" for xs :: "(bytes \<times> type_datum) list"
  proof (rule for_each_flatten [where P = "\<lambda>d. rule_ok K effect d \<and> same_frame d db"])
    fix x :: "bytes \<times> type_datum" and d
    assume a: "rule_ok K effect d \<and> same_frame d db"
    then have f: "named_classes cls d = named_classes cls db"
        "named_types tgt effect invert d = named_types tgt effect invert db"
      by (blast intro: named_frame)+
    show "(case x of (_, s) \<Rightarrow> add_rule_tgt K perm effect invert cls s tgt) d =
        for_each (add_rule_triple K perm effect invert) (?h (snd x)) d"
      using a by (simp add: add_rule_tgt_triples f split_beta)
  qed (rule rule_triple_keeps, assumption, simp add: assms)
  then show ?thesis using None by (simp add: add_rule_raw_def rule_triples_def named_types_def comp_def)
qed (simp add: add_rule_raw_def rule_triples_def named_types_def add_rule_tgt_triples [OF assms])

section \<open>What a rule does\<close>

text \<open>
  The abstract rule. A name stands for the type with that name; no name stands for every type when
  permissions are taken away and for every attribute when they are given. The rule selects the
  keys of the named types and classes; the vectors there get the permission, or lose it.
\<close>

definition denotes :: "policydb \<Rightarrow> bool \<Rightarrow> bytes option \<Rightarrow> type_datum \<Rightarrow> bool" where
  "denotes db wide name ty \<longleftrightarrow>
     (case name of
        Some x \<Rightarrow> map_of (pd_types db) x = Some ty
      | None \<Rightarrow> ty \<in> snd ` set (pd_types db) \<and> (wide \<or> ty_attribute ty))"

definition denotes_class :: "policydb \<Rightarrow> bytes option \<Rightarrow> class_datum \<Rightarrow> bool" where
  "denotes_class db name c \<longleftrightarrow>
     (case name of Some x \<Rightarrow> map_of (pd_classes db) x = Some c | None \<Rightarrow> c \<in> snd ` set (pd_classes db))"

definition selects ::
    "policydb \<Rightarrow> bytes option \<Rightarrow> bytes option \<Rightarrow> bytes option \<Rightarrow> u16 \<Rightarrow> bool \<Rightarrow> avtab_key \<Rightarrow> bool" where
  "selects db s t c effect wide k \<longleftrightarrow>
     (\<exists>src tgt cls. denotes db wide s src \<and> denotes db wide t tgt \<and> denotes_class db c cls \<and>
        k = rule_key src tgt cls effect)"

text \<open>The value of the permission a rule names, when the class has it.\<close>

definition rule_perm :: "policydb \<Rightarrow> bytes option \<Rightarrow> bytes option \<Rightarrow> u32 option option" where
  "rule_perm db c p =
     (case p of
        None \<Rightarrow> Some None
      | Some x \<Rightarrow>
          (case c of
             None \<Rightarrow> None
           | Some y \<Rightarrow> (case map_of (pd_classes db) y of
                         None \<Rightarrow> None
                       | Some cl \<Rightarrow> map_option Some (find_perm cl x))))"

lemma triple_key_image:
  "triple_key effect ` set (rule_triples src tgt cls effect invert db) =
     {rule_key a b c effect | a b c. a \<in> set (named_types src effect invert db) \<and>
        b \<in> set (named_types tgt effect invert db) \<and> c \<in> set (named_classes cls db)}"
  by (auto simp: rule_triples_def triple_key_def image_iff) blast

lemma set_named_types:
  assumes "symtab_opt (pd_types db) name = Some ty"
  shows "a \<in> set (named_types ty effect invert db) \<longleftrightarrow> denotes db (strip_av effect invert) name a"
  using assms
  by (cases name) (force simp: symtab_opt_def named_types_def denotes_def wildcard_types_def image_iff)+

lemma set_named_classes:
  assumes "symtab_opt (pd_classes db) name = Some cls"
  shows "a \<in> set (named_classes cls db) \<longleftrightarrow> denotes_class db name a"
  using assms by (cases name) (auto simp: symtab_opt_def named_classes_def denotes_class_def)

lemma add_rule_raw_eq:
  assumes "add_rule K s t c p effect invert db = (b, db1)" "b \<or> db1 \<noteq> db"
  obtains src tgt cls perm where "symtab_opt (pd_types db) s = Some src" "symtab_opt (pd_types db) t = Some tgt"
    "symtab_opt (pd_classes db) c = Some cls" "rule_perm db c p = Some perm"
    "add_rule_raw K src tgt cls perm effect invert db = (b, db1)"
  using assms
  by (auto simp: add_rule_def rule_perm_def symtab_opt_def split: option.splits)

lemma add_rule_pointwise:
  assumes "ss_ok K" "wf_avtab (pd_avtab db)" "effect \<in> set rule_effects"
    and "add_rule K s t c p effect invert db = (True, db1)"
  shows "\<exists>perm. rule_perm db c p = Some perm \<and>
      (\<forall>k. ak_spec k \<in> set av_kinds \<longrightarrow>
         av_data (pd_avtab db1) k =
           (if selects db s t c effect (strip_av effect invert) k
            then av_update perm invert (av_data (pd_avtab db) k) else av_data (pd_avtab db) k)) \<and>
      wf_avtab (pd_avtab db1) \<and> same_frame db1 db"
proof -
  obtain src tgt cls perm where r: "symtab_opt (pd_types db) s = Some src" "symtab_opt (pd_types db) t = Some tgt"
      "symtab_opt (pd_classes db) c = Some cls" "rule_perm db c p = Some perm"
      "add_rule_raw K src tgt cls perm effect invert db = (True, db1)"
    using add_rule_raw_eq [OF assms(4)] by blast
  have ok: "rule_ok K effect db" using assms(1-3) by (simp add: rule_ok_def)
  let ?xs = "rule_triples src tgt cls effect invert db"
  have loop: "for_each (add_rule_triple K perm effect invert) ?xs db = (True, db1)"
    using r(5) add_rule_raw_triples [OF ok] by simp
  have sel: "k \<in> triple_key effect ` set ?xs \<longleftrightarrow> selects db s t c effect (strip_av effect invert) k" for k
    unfolding triple_key_image selects_def using set_named_types r(1,2) set_named_classes [OF r(3)] by auto
  have "rule_ok K effect (snd (for_each (add_rule_triple K perm effect invert) ?xs db)) \<and>
      same_frame (snd (for_each (add_rule_triple K perm effect invert) ?xs db)) db"
    by (rule for_each_keeps, rule rule_triple_keeps, assumption, simp add: ok)
  then have keep: "rule_ok K effect db1 \<and> same_frame db1 db" using loop by simp
  show ?thesis
    using av_rules.loop_pointwise [OF ok, of perm invert ?xs] loop sel r(4) keep
    by (auto simp: rule_ok_def)
qed

text \<open>
  C28: A successful rule changes exactly the keys its names select. Reading the table as a
  function from (source, target, class, kind) to access vectors, every selected vector gains the
  permission (or loses it, for a denial or a suppressed audit), or all permissions when none is
  named, and every other vector is what it was. A missing type name selects all types and
  attributes when permissions are taken away but only the attributes when they are given; the
  table stays well formed, and types, classes and the other parts of the policy are untouched.
\<close>

theorem av_rule_refines_function:
  assumes "ss_ok K" "wf_avtab (pd_avtab db)" "effect \<in> set rule_effects"
    and "add_rule K s t c p effect invert db = (True, db1)"
  shows "\<exists>perm. rule_perm db c p = Some perm \<and>
      (\<forall>k. ak_spec k \<in> set av_kinds \<longrightarrow>
         av_data (pd_avtab db1) k =
           (if selects db s t c effect (strip_av effect invert) k
            then av_update perm invert (av_data (pd_avtab db) k) else av_data (pd_avtab db) k)) \<and>
      wf_avtab (pd_avtab db1) \<and> same_frame db1 db"
  by (rule add_rule_pointwise [OF assms])

section \<open>A small policy\<close>

text \<open>
  A security server with enough memory, whose searches are the documented ones, and a policy with
  two domains that share an attribute, a file type outside it, and two classes.
\<close>

definition hex_digit :: "u8 \<Rightarrow> nat option" where
  "hex_digit b =
     (let v = unat b in
      if 48 \<le> v \<and> v \<le> 57 then Some (v - 48) else if 97 \<le> v \<and> v \<le> 102 then Some (v - 87)
      else if 65 \<le> v \<and> v \<le> 70 then Some (v - 55) else None)"

fun hex_scan :: "nat \<Rightarrow> bytes \<Rightarrow> nat \<times> bytes" where
  "hex_scan acc [] = (acc, [])"
| "hex_scan acc (b # bs) =
     (case hex_digit b of None \<Rightarrow> (acc, b # bs) | Some d \<Rightarrow> hex_scan (16 * acc + d) bs)"

definition ex_lib :: ss_lib where
  "ex_lib =
     \<lparr>ss_search = (\<lambda>ns k. first_from (av_match k) 0 ns),
      ss_next = (\<lambda>ns i sp. first_from (av_match (an_key (ns ! i)\<lparr>ak_spec := sp\<rparr>)) (Suc i) ns),
      ss_place = (\<lambda>ns k. Some 0), ss_scratch = (\<lambda>ns. True), ss_sym_place = (\<lambda>xs x. Some 0),
      ss_bit = (\<lambda>e b. True), ss_mem = (\<lambda>a x. True),
      ss_hex = (\<lambda>bs. case bs of [] \<Rightarrow> None
                     | b # _ \<Rightarrow> if hex_digit b = None then None
                              else (case hex_scan 0 bs of (v, rest) \<Rightarrow> Some (of_nat v, rest))),
      ss_junk = (0x5a5a, 0xa5a5)\<rparr>"

lemma ex_lib_ok: "ss_ok ex_lib"
  by (simp add: ss_ok_def ex_lib_def)

definition ex_type :: "u32 \<Rightarrow> bool \<Rightarrow> type_datum" where
  "ex_type v attr = \<lparr>ty_value = v, ty_primary = True, ty_attribute = attr\<rparr>"

definition ex_class :: "u32 \<Rightarrow> class_datum" where
  "ex_class v =
     \<lparr>cl_value = v, cl_permissions = [(lit ''read'', 1), (lit ''open'', 2)], cl_comdatum = None, cl_constraints = []\<rparr>"

definition ex_policy :: policydb where
  "ex_policy =
     \<lparr>pd_avtab = [\<lparr>an_key = \<lparr>ak_source = 2, ak_target = 4, ak_class = 1, ak_spec = AVTAB_ALLOWED\<rparr>,
                   an_data = 2, an_xperms = None\<rparr>],
      pd_nel = 1,
      pd_types = [(lit ''domain'', ex_type 1 True), (lit ''app'', ex_type 2 False),
                  (lit ''init'', ex_type 3 False), (lit ''data_file'', ex_type 4 False)],
      pd_types_nprim = 4,
      pd_classes = [(lit ''file'', ex_class 1), (lit ''dir'', ex_class 2)],
      pd_attr_map = Some [{0}, {0, 1}, {0, 2}, {3}],
      pd_val_to_struct = Some [ex_type 1 True, ex_type 2 False, ex_type 3 False, ex_type 4 False],
      pd_val_to_name = Some [lit ''domain'', lit ''app'', lit ''init'', lit ''data_file''],
      pd_role_types = [{1, 2, 3}], pd_permissive = {}, pd_filename_trans = [], pd_compat_count = 0,
      pd_len = 4096, pd_policyvers = 30, pd_netlink_route = True, pd_netlink_getneigh = False\<rparr>"

lemma ex_policy_wf: "wf_avtab (pd_avtab ex_policy)"
  by (simp add: ex_policy_def wf_avtab_def av_kinds_def is_ext_def)

theorem av_rule_refines_function_witness:
  "av_data (pd_avtab (snd (add_rule ex_lib (Some (lit ''app'')) (Some (lit ''data_file''))
     (Some (lit ''file'')) (Some (lit ''read'')) AVTAB_ALLOWED False ex_policy)))
     \<lparr>ak_source = 2, ak_target = 4, ak_class = 1, ak_spec = AVTAB_ALLOWED\<rparr> = 3"
proof -
  let ?r = "add_rule ex_lib (Some (lit ''app'')) (Some (lit ''data_file''))
     (Some (lit ''file'')) (Some (lit ''read'')) AVTAB_ALLOWED False ex_policy"
  let ?k = "\<lparr>ak_source = 2, ak_target = 4, ak_class = 1, ak_spec = AVTAB_ALLOWED\<rparr>"
  have t: "?r = (True, snd ?r)" by code_simp
  have e: "AVTAB_ALLOWED \<in> set rule_effects" by (simp add: rule_effects_def)
  have p: "rule_perm ex_policy (Some (lit ''file'')) (Some (lit ''read'')) = Some (Some 1)" by code_simp
  have m: "map_of (pd_types ex_policy) (lit ''app'') = Some (ex_type 2 False)"
    "map_of (pd_types ex_policy) (lit ''data_file'') = Some (ex_type 4 False)"
    "map_of (pd_classes ex_policy) (lit ''file'') = Some (ex_class 1)" by code_simp+
  have "selects ex_policy (Some (lit ''app'')) (Some (lit ''data_file'')) (Some (lit ''file'')) AVTAB_ALLOWED
      (strip_av AVTAB_ALLOWED False) ?k"
    using m by (simp add: selects_def denotes_def denotes_class_def rule_key_def ex_type_def ex_class_def)
  moreover have "ak_spec ?k \<in> set av_kinds" by (simp add: av_kinds_def)
  ultimately have "av_data (pd_avtab (snd ?r)) ?k = av_update (Some 1) False (av_data (pd_avtab ex_policy) ?k)"
    using av_rule_refines_function [OF ex_lib_ok ex_policy_wf e t] p by simp
  also have "\<dots> = 3" by code_simp
  finally show ?thesis .
qed

end
