(* ===== verification/Sepolicy_Wf.thy ===== *)
theory Sepolicy_Wf
  imports Sepolicy_Rules
begin

text \<open>
  The invariant of the policy database and its preservation: the access vector table is well
  formed and its count is right, and the symbol table of types agrees with the three arrays
  indexed by type values. The table part holds whatever memory is there; the type part needs the
  allocations to succeed, because \<open>add_type\<close> leaves the database half changed when one fails.
\<close>

section \<open>Extended permissions\<close>

lemma find_xperms_found:
  "find_xperms K fuel ns sp x start = Some i \<Longrightarrow>
     \<exists>y. an_xperms (ns ! i) = Some y \<and> xp_specified y = xp_specified x \<and> xp_driver y = xp_driver x"
  by (induction K fuel ns sp x start rule: find_xperms.induct) (auto split: if_splits option.splits)

text \<open>With the documented searches the fuel is enough: the loop finds the first node there is.\<close>

definition xperm_match :: "avtab_key \<Rightarrow> extended_perms \<Rightarrow> avtab_node \<Rightarrow> bool" where
  "xperm_match k x n \<longleftrightarrow> av_match k n \<and>
     (case an_xperms n of None \<Rightarrow> False
      | Some y \<Rightarrow> xp_specified y = xp_specified x \<and> xp_driver y = xp_driver x)"

lemma same_ids_match: "same_ids k (an_key m) \<Longrightarrow> av_match (an_key m\<lparr>ak_spec := ak_spec k\<rparr>) = av_match k"
  by (auto simp: av_match_def same_ids_def fun_eq_iff)

lemma first_from_step:
  "first_from P i xs = Some j \<Longrightarrow> (\<And>y. Q y \<Longrightarrow> P y) \<Longrightarrow>
     first_from Q i xs = (if Q (xs ! j) then Some j else first_from Q (Suc j) xs)"
proof (induction P i xs arbitrary: j rule: first_from.induct)
  case (2 P x xs)
  then show ?case by (cases "P x") (auto split: if_splits)
next
  case (3 P i x xs)
  then obtain j' where j: "first_from P i xs = Some j'" "j = Suc j'" by auto
  then show ?case using 3 by simp
qed simp

lemma first_from_None_mono:
  "first_from P i xs = None \<Longrightarrow> (\<And>y. Q y \<Longrightarrow> P y) \<Longrightarrow> first_from Q i xs = None"
  by (auto simp: first_from_None)

lemma find_xperms_first:
  assumes "ss_ok K" "start = first_from (av_match k) i ns" "length ns - i \<le> fuel"
  shows "find_xperms K fuel ns (ak_spec k) x start = first_from (xperm_match k x) i ns"
  using assms(2,3)
proof (induction fuel arbitrary: i start)
  case 0
  then have "first_from P i ns = None" for P by (auto simp: first_from_None)
  then show ?case using 0 by simp
next
  case (Suc fuel)
  have imp: "xperm_match k x y \<Longrightarrow> av_match k y" for y by (simp add: xperm_match_def)
  show ?case
  proof (cases start)
    case None
    then have "first_from (av_match k) i ns = None" using Suc.prems(1) by simp
    then have "first_from (xperm_match k x) i ns = None" by (rule first_from_None_mono) (rule imp)
    then show ?thesis using None by simp
  next
    case (Some j)
    have f: "first_from (av_match k) i ns = Some j" using Suc.prems(1) Some by simp
    note g = first_from_Some [OF f]
    have "same_ids k (an_key (ns ! j))" using g by (simp add: av_match_def)
    then have nxt: "ss_next K ns j (ak_spec k) = first_from (av_match k) (Suc j) ns"
      using assms(1) g by (simp add: ss_ok_def same_ids_match)
    have "find_xperms K fuel ns (ak_spec k) x (ss_next K ns j (ak_spec k)) =
        first_from (xperm_match k x) (Suc j) ns"
    proof (rule Suc.IH)
      have "i \<le> j" "j < length ns" using g by simp_all
      then show "length ns - Suc j \<le> fuel" using Suc.prems(2) by linarith
    qed (rule nxt)
    moreover have "first_from (xperm_match k x) i ns =
        (if xperm_match k x (ns ! j) then Some j else first_from (xperm_match k x) (Suc j) ns)"
      by (rule first_from_step [OF f]) (rule imp)
    moreover have "xperm_match k x (ns ! j) \<longleftrightarrow>
        (case an_xperms (ns ! j) of None \<Rightarrow> False
         | Some y \<Rightarrow> xp_specified y = xp_specified x \<and> xp_driver y = xp_driver x)"
      using g by (simp add: xperm_match_def)
    ultimately show ?thesis using Some by simp
  qed
qed

lemma get_xperms:
  assumes "ss_ok K" "is_ext k" "get_avtab_node K k (Some x) db = (found, db1)"
  shows "(case first_from (xperm_match k x) 0 (pd_avtab db) of
      Some i \<Rightarrow> found = Some i \<and> db1 = db
    | None \<Rightarrow>
        (case ss_place K (pd_avtab db) k of
           None \<Rightarrow> found = None \<and> db1 = db
         | Some p \<Rightarrow> found = Some p \<and>
             db1 = db\<lparr>pd_avtab := insert_at p \<lparr>an_key = k, an_data = 0, an_xperms = Some x\<rparr> (pd_avtab db),
                      pd_nel := pd_nel db + 1, pd_len := pd_len db + avtab_entry_size + xperms_size\<rparr>))"
proof -
  have "find_xperms K (length (pd_avtab db)) (pd_avtab db) (ak_spec k) x (ss_search K (pd_avtab db) k) =
      first_from (xperm_match k x) 0 (pd_avtab db)"
    by (rule find_xperms_first) (use assms(1) in \<open>simp_all add: ss_ok_def\<close>)
  then have r: "get_avtab_node K k (Some x) db =
      (case first_from (xperm_match k x) 0 (pd_avtab db) of
         Some i \<Rightarrow> (Some i, db)
       | None \<Rightarrow>
           (case ss_place K (pd_avtab db) k of
              None \<Rightarrow> (None, db)
            | Some p \<Rightarrow>
                (Some p,
                 db\<lparr>pd_avtab := insert_at p \<lparr>an_key = k, an_data = 0, an_xperms = Some x\<rparr> (pd_avtab db),
                    pd_nel := pd_nel db + 1, pd_len := pd_len db + avtab_entry_size + xperms_size\<rparr>)))"
    using assms(2) by (simp add: get_avtab_node_def is_ext_def Let_def split: option.split)
  have "found = fst (get_avtab_node K k (Some x) db)" "db1 = snd (get_avtab_node K k (Some x) db)"
    using assms(3) by simp_all
  then show ?thesis by (simp add: r split: option.split)
qed

text \<open>The node \<open>get_avtab_node\<close> gives has its permissions already, so nothing is written to it.\<close>

lemma add_xperm_at_get:
  assumes "ss_ok K" "effect AND AVTAB_XPERMS \<noteq> 0"
  shows "add_xperm_at K low high effect invert s t c db =
    snd (get_avtab_node K (rule_key s t c effect) (Some (range_xperms low high invert)) db)"
proof -
  let ?k = "rule_key s t c effect" and ?x = "range_xperms low high invert"
  obtain found db1 where r: "get_avtab_node K ?k (Some ?x) db = (found, db1)"
    by (cases "get_avtab_node K ?k (Some ?x) db")
  have e: "is_ext ?k" using assms(2) by (simp add: is_ext_def)
  note g = get_xperms [OF assms(1) e r]
  have "an_xperms (pd_avtab db1 ! i) \<noteq> None" if f: "found = Some i" for i
  proof (cases "first_from (xperm_match ?k ?x) 0 (pd_avtab db)")
    case None
    then obtain p where "ss_place K (pd_avtab db) ?k = Some p"
      using g f None by (cases "ss_place K (pd_avtab db) ?k") simp_all
    then show ?thesis using None g f assms(1) by (auto simp: ss_ok_def)
  next
    case (Some j)
    then show ?thesis using g f first_from_Some [OF Some] by (auto simp: xperm_match_def split: option.splits)
  qed
  then show ?thesis using r by (auto simp: add_xperm_at_def Let_def split: option.splits)
qed

section \<open>The table stays well formed\<close>

definition table_wf :: "policydb \<Rightarrow> bool" where
  "table_wf db \<longleftrightarrow> wf_avtab (pd_avtab db) \<and> pd_nel db = length (pd_avtab db)"

lemma length_remove_at: "i < length xs \<Longrightarrow> length (remove_at i xs) = length xs - 1"
  by (simp add: remove_at_def)

lemma get_table_wf:
  assumes "ss_ok K" "table_wf db" "ak_spec k \<in> set av_kinds" "is_ext k \<longleftrightarrow> xo \<noteq> None"
    "get_avtab_node K k xo db = (found, db1)"
  shows "table_wf db1 \<and> same_frame db1 db \<and> (\<forall>i. found = Some i \<longrightarrow> i < length (pd_avtab db1)) \<and>
    (\<forall>k'. plain_key k' \<longrightarrow> av_data (pd_avtab db1) k' = av_data (pd_avtab db) k')"
proof (cases xo)
  case None
  then have k: "plain_key k" using assms(3,4) by (simp add: plain_key_def)
  have w: "wf_avtab (pd_avtab db)" using assms(2) by (simp add: table_wf_def)
  have nel: "pd_nel db1 = length (pd_avtab db1)"
    using assms(2,5) None by (auto simp: get_avtab_node_def table_wf_def Let_def split: option.splits if_splits)
  show ?thesis
  proof (cases found)
    case None
    then have "db1 = db" using assms(5) \<open>xo = None\<close> by (intro get_plain_None [of K k]) simp
    then show ?thesis using None assms(2) by simp
  next
    case (Some i)
    then show ?thesis using get_plain [OF assms(1) w k, of i db1] assms(5) \<open>xo = None\<close> nel
      by (auto simp: table_wf_def plain_key_def)
  qed
next
  case (Some x)
  then have e: "is_ext k" using assms(4) by simp
  note g = get_xperms [OF assms(1) e assms(5) [unfolded Some]]
  show ?thesis
  proof (cases "first_from (xperm_match k x) 0 (pd_avtab db)")
    case None
    show ?thesis
    proof (cases "ss_place K (pd_avtab db) k")
      case (Some p)
      define n where "n = \<lparr>an_key = k, an_data = 0, an_xperms = Some x\<rparr>"
      have db1: "found = Some p" "pd_avtab db1 = insert_at p n (pd_avtab db)" "pd_nel db1 = pd_nel db + 1"
        "same_frame db1 db"
        using g None Some by (simp_all add: n_def)
      have pl: "p \<le> length (pd_avtab db)" using assms(1) Some by (simp add: ss_ok_def)
      have wf: "wf_avtab (insert_at p n (pd_avtab db))"
        by (rule wf_insert_at [where k = k]) (use assms(2,3) e in \<open>auto simp: n_def table_wf_def\<close>)
      have "av_data (insert_at p n (pd_avtab db)) k' = av_data (pd_avtab db) k'" if "plain_key k'" for k'
      proof -
        have kk: "k' \<noteq> k" using that e by (auto simp: plain_key_def)
        have "map_of (xs @ (k, 0) # ys) k' = map_of (xs @ ys) k'" for xs ys :: "(avtab_key \<times> u32) list"
          using kk by (simp add: map_add_def split: option.split)
        from this [of "take p (av_assoc (pd_avtab db))" "drop p (av_assoc (pd_avtab db))"]
        have "map_of (av_assoc (insert_at p n (pd_avtab db))) k' = map_of (av_assoc (pd_avtab db)) k'"
          unfolding av_assoc_simps n_def avtab_node.simps by (simp only: insert_at_def append_take_drop_id)
        then show ?thesis
          using av_data_wf [OF wf, of k'] av_data_wf [of "pd_avtab db" k'] that assms(2)
          by (simp add: plain_key_def table_wf_def)
      qed
      then show ?thesis using db1 wf pl assms(2) by (auto simp: table_wf_def)
    qed (use g None assms(2) in simp)
  next
    case (Some i)
    then show ?thesis using g assms(2) first_from_Some [OF Some] by simp
  qed
qed

lemma add_xperm_at_wf:
  assumes "ss_ok K" "table_wf db" "effect \<in> set av_kinds" "effect AND AVTAB_XPERMS \<noteq> 0"
  shows "table_wf (add_xperm_at K low high effect invert s t c db)"
    "same_frame (add_xperm_at K low high effect invert s t c db) db"
    "plain_key k' \<Longrightarrow> av_data (pd_avtab (add_xperm_at K low high effect invert s t c db)) k' = av_data (pd_avtab db) k'"
proof -
  obtain found db1 where r: "get_avtab_node K (rule_key s t c effect) (Some (range_xperms low high invert)) db = (found, db1)"
    by (cases "get_avtab_node K (rule_key s t c effect) (Some (range_xperms low high invert)) db")
  have "add_xperm_at K low high effect invert s t c db = db1"
    using add_xperm_at_get [OF assms(1,4)] r by simp
  then show "table_wf (add_xperm_at K low high effect invert s t c db)"
    "same_frame (add_xperm_at K low high effect invert s t c db) db"
    "plain_key k' \<Longrightarrow> av_data (pd_avtab (add_xperm_at K low high effect invert s t c db)) k' = av_data (pd_avtab db) k'"
    using get_table_wf [OF assms(1,2) _ _ r] assms(3,4) by (simp_all add: is_ext_def)
qed

lemma fold_keeps: "(\<And>x d. P d \<Longrightarrow> P (f x d)) \<Longrightarrow> P d \<Longrightarrow> P (fold f xs d)"
  by (induction xs arbitrary: d) auto

lemma add_rule_at_nel:
  assumes "pd_nel db = length (pd_avtab db)"
  shows "pd_nel (snd (add_rule_at K perm effect invert s t c db)) =
    length (pd_avtab (snd (add_rule_at K perm effect invert s t c db)))"
proof -
  have g: "pd_nel (snd (get_avtab_node K k None db)) = length (pd_avtab (snd (get_avtab_node K k None db)))" for k
    using assms by (auto simp: get_avtab_node_def Let_def split: option.splits if_splits)
  have r: "pd_nel (snd (remove_avtab_node K i d)) = length (pd_avtab (snd (remove_avtab_node K i d)))"
    if "pd_nel d = length (pd_avtab d)" for i d
    using that by (auto simp: remove_avtab_node_def Let_def length_remove_at)
  obtain found db1 where f: "(if invert \<and> effect \<noteq> AVTAB_AUDITDENY
      then (ss_search K (pd_avtab db) (rule_key s t c effect), db)
      else get_avtab_node K (rule_key s t c effect) None db) = (found, db1)"
    by (cases "if invert \<and> effect \<noteq> AVTAB_AUDITDENY
      then (ss_search K (pd_avtab db) (rule_key s t c effect), db)
      else get_avtab_node K (rule_key s t c effect) None db")
  have "pd_nel db1 = length (pd_avtab db1)"
    using f assms g [of "rule_key s t c effect"] by (auto split: if_splits)
  then show ?thesis using f r by (auto simp: add_rule_at_def Let_def split: option.splits)
qed

section \<open>The edits of the table\<close>

text \<open>What an edit of the table keeps: the invariant, and everything but the table.\<close>

definition table_edit :: "policydb \<Rightarrow> policydb \<Rightarrow> bool" where
  "table_edit db db1 \<longleftrightarrow> (table_wf db \<longrightarrow> table_wf db1) \<and> same_frame db1 db"

lemma table_edit_refl [simp]: "table_edit db db"
  by (simp add: table_edit_def)

lemma table_editI: "table_wf db1 \<Longrightarrow> same_frame db1 db \<Longrightarrow> table_edit db db1"
  by (simp add: table_edit_def)

lemma add_rule_table:
  assumes "ss_ok K" "effect \<in> set rule_effects" "table_wf db"
  shows "table_edit db (snd (add_rule K s t c p effect invert db))"
proof (cases "fst (add_rule K s t c p effect invert db) \<or> snd (add_rule K s t c p effect invert db) \<noteq> db")
  case True
  obtain src tgt cls perm where r: "add_rule_raw K src tgt cls perm effect invert db = add_rule K s t c p effect invert db"
    using add_rule_raw_eq [of K s t c p effect invert db, OF surjective_pairing True] by (metis prod.collapse)
  have ok: "rule_ok K effect db" using assms by (simp add: rule_ok_def table_wf_def)
  let ?P = "\<lambda>d. rule_ok K effect d \<and> same_frame d db \<and> pd_nel d = length (pd_avtab d)"
  have "?P (snd (for_each (add_rule_triple K perm effect invert) (rule_triples src tgt cls effect invert db) db))"
  proof (rule for_each_keeps)
    fix x d
    assume a: "?P d"
    then show "?P (snd (add_rule_triple K perm effect invert x d))"
      using rule_triple_keeps [of K effect d db perm invert x] add_rule_at_nel [of d]
      by (cases x) (simp add: add_rule_triple_def)
  qed (use ok assms(3) in \<open>simp add: table_wf_def\<close>)
  then show ?thesis
    using r add_rule_raw_triples [OF ok, of src tgt cls perm invert]
    by (simp add: table_edit_def table_wf_def rule_ok_def)
qed simp

lemma add_xperm_raw_keeps:
  assumes step: "\<And>s t c d. P d \<Longrightarrow> P (add_xperm_at K low high effect invert s t c d)" and "P db"
  shows "P (add_xperm_rule_raw K src tgt cls low high effect invert db)"
proof -
  have c: "P (add_xperm_cls K low high effect invert s t cls d)" if "P d" for s t d
    using that by (cases cls) (auto simp: add_xperm_cls_def intro!: fold_keeps step)
  have t: "P (add_xperm_tgt K low high effect invert cls s tgt d)" if "P d" for s d
    using that by (cases tgt) (auto simp: add_xperm_tgt_def intro!: fold_keeps c)
  show ?thesis
    using assms(2) by (cases src) (auto simp: add_xperm_rule_raw_def intro!: fold_keeps t)
qed

definition xperm_effects :: "u16 list" where
  "xperm_effects = [AVTAB_XPERMS_ALLOWED, AVTAB_XPERMS_AUDITALLOW, AVTAB_XPERMS_DONTAUDIT]"

lemma xperm_effect_ext: "e \<in> set xperm_effects \<Longrightarrow> e \<in> set av_kinds \<and> e AND AVTAB_XPERMS \<noteq> 0"
  by (auto simp: xperm_effects_def av_kinds_def)

text \<open>Extended permissions do not touch the plain vectors.\<close>

lemma add_xperm_rule_table:
  assumes "ss_ok K" "effect \<in> set xperm_effects" "table_wf db"
  shows "table_edit db (snd (add_xperm_rule K s t c rng effect invert db)) \<and>
    (\<forall>k. plain_key k \<longrightarrow>
       av_data (pd_avtab (snd (add_xperm_rule K s t c rng effect invert db))) k = av_data (pd_avtab db) k)"
proof -
  let ?P = "\<lambda>d. table_wf d \<and> same_frame d db \<and> (\<forall>k. plain_key k \<longrightarrow> av_data (pd_avtab d) k = av_data (pd_avtab db) k)"
  have e: "effect \<in> set av_kinds" "effect AND AVTAB_XPERMS \<noteq> 0" using xperm_effect_ext [OF assms(2)] by simp_all
  have "?P (add_xperm_at K low high effect invert s t c d)" if "?P d" for low high s t c d
  proof -
    have d: "table_wf d" "same_frame d db" using that by simp_all
    show ?thesis
      using add_xperm_at_wf [OF assms(1) d(1) e] same_frame_trans [OF _ d(2)] that by simp
  qed
  then have "?P (add_xperm_rule_raw K src tgt cls low high effect invert db)" for src tgt cls low high
    by (rule add_xperm_raw_keeps [where P = ?P]) (simp_all add: assms(3))
  then show ?thesis
    by (auto simp: add_xperm_rule_def table_edit_def split: option.split prod.split)
qed

lemma add_type_rule_table:
  assumes "ss_ok K" "effect \<in> {AVTAB_TRANSITION, AVTAB_MEMBER, AVTAB_CHANGE}" "table_wf db"
  shows "table_edit db (snd (add_type_rule K s t c d effect db))"
proof -
  have "table_edit db (snd (let (found, db1) = get_avtab_node K (rule_key src tgt cls effect) None db
        in case found of
             None \<Rightarrow> (False, db1)
           | Some i \<Rightarrow>
               (True, db1\<lparr>pd_avtab := (pd_avtab db1)[i := (pd_avtab db1 ! i)\<lparr>an_data := v\<rparr>]\<rparr>)))" for src tgt cls v
  proof -
    obtain found db1 where r: "get_avtab_node K (rule_key src tgt cls effect) None db = (found, db1)"
      by (cases "get_avtab_node K (rule_key src tgt cls effect) None db")
    have "effect \<in> set av_kinds" "\<not> is_ext (rule_key src tgt cls effect)"
      using assms(2) by (auto simp: av_kinds_def is_ext_def)
    then have g: "table_wf db1" "same_frame db1 db" "\<forall>i. found = Some i \<longrightarrow> i < length (pd_avtab db1)"
      using get_table_wf [OF assms(1,3) _ _ r] by simp_all
    show ?thesis
    proof (cases found)
      case (Some i)
      have "wf_avtab ((pd_avtab db1)[i := (pd_avtab db1 ! i)\<lparr>an_data := v\<rparr>])"
        using g Some by (intro wf_set_data) (simp_all add: table_wf_def)
      then show ?thesis using r g Some by (simp add: table_edit_def table_wf_def)
    qed (use r g in \<open>simp add: table_edit_def\<close>)
  qed
  then show ?thesis by (simp add: add_type_rule_def split: option.split)
qed

section \<open>The types agree with their arrays\<close>

text \<open>
  The values of types lie between 1 and their number; each array has an element for every value,
  primary types are the elements at their values, and every type carries itself in its map.
  A table edit cannot break this, and a full array is never absent.
\<close>

definition type_ok :: "nat set list \<Rightarrow> type_datum list \<Rightarrow> bytes list \<Rightarrow> bytes \<times> type_datum \<Rightarrow> bool" where
  "type_ok m vs ns x \<longleftrightarrow>
     (let v = unat (ty_value (snd x)) in
      1 \<le> v \<and> v \<le> length m \<and> v - 1 \<in> m ! (v - 1) \<and>
      (ty_primary (snd x) \<longrightarrow> vs ! (v - 1) = snd x \<and> ns ! (v - 1) = fst x))"

definition types_wf :: "policydb \<Rightarrow> bool" where
  "types_wf db \<longleftrightarrow>
     distinct (map fst (pd_types db)) \<and>
     (case (pd_attr_map db, pd_val_to_struct db, pd_val_to_name db) of
        (Some m, Some vs, Some ns) \<Rightarrow>
          length m = unat (pd_types_nprim db) \<and> length vs = length m \<and> length ns = length m \<and>
          (\<forall>x\<in>set (pd_types db). type_ok m vs ns x)
      | _ \<Rightarrow> False)"

definition policy_wf :: "policydb \<Rightarrow> bool" where
  "policy_wf db \<longleftrightarrow> table_wf db \<and> types_wf db"

text \<open>All allocations succeed.\<close>

definition mem_ok :: "ss_lib \<Rightarrow> bool" where
  "mem_ok K \<longleftrightarrow> (\<forall>ns k. ss_place K ns k \<noteq> None) \<and> (\<forall>ns. ss_scratch K ns) \<and>
     (\<forall>xs x. ss_sym_place K xs x \<noteq> None) \<and> (\<forall>e b. ss_bit K e b) \<and> (\<forall>a x. ss_mem K a x)"

lemma distinct_insert_at:
  assumes "distinct (map f xs)" "f x \<notin> f ` set xs"
  shows "distinct (map f (insert_at p x xs))"
proof -
  have "map f xs = map f (take p xs) @ map f (drop p xs)"
    by (simp only: map_append [symmetric] append_take_drop_id)
  then have "distinct (map f (take p xs) @ map f (drop p xs))" using assms(1) by simp
  then show ?thesis using assms(2) by (auto simp: insert_at_def dest: in_set_takeD in_set_dropD)
qed

lemma types_wf_cases:
  assumes "types_wf db"
  obtains m vs ns where "pd_attr_map db = Some m" "pd_val_to_struct db = Some vs" "pd_val_to_name db = Some ns"
    "length m = unat (pd_types_nprim db)" "length vs = length m" "length ns = length m"
    "\<forall>x\<in>set (pd_types db). type_ok m vs ns x" "distinct (map fst (pd_types db))"
  using assms
  by (cases "pd_attr_map db"; cases "pd_val_to_struct db"; cases "pd_val_to_name db") (auto simp: types_wf_def)

lemma types_wf_frame:
  assumes "same_frame a b"
  shows "types_wf a = types_wf b"
  by (simp only: types_wf_def same_frame_fields [OF assms])

lemma table_edit_policy: "table_edit db db1 \<Longrightarrow> policy_wf db \<Longrightarrow> policy_wf db1"
  using types_wf_frame [of db1 db] by (simp add: table_edit_def policy_wf_def)

lemma unat_pred: "1 \<le> unat (v :: u32) \<Longrightarrow> unat (v - 1) = unat v - 1"
  by (metis unat_1 unat_sub word_le_nat_alt)

lemma set_bit_ok [simp]: "mem_ok K \<Longrightarrow> ebitmap_set_bit K e b True = (True, insert b e)"
  by (auto simp: ebitmap_set_bit_def mem_ok_def)

lemma set_bit_grows: "e \<subseteq> snd (ebitmap_set_bit K e b True)"
  by (auto simp: ebitmap_set_bit_def)

text \<open>A new type gets the next value and its own bit; the others keep theirs.\<close>

lemma add_type_new:
  assumes "mem_ok K" "ss_ok K" "map_of (pd_types db) name = None"
  obtains p where "p \<le> length (pd_types db)"
    "add_type K name attr db =
       (let b = unat (pd_types_nprim db);
            ty = \<lparr>ty_value = pd_types_nprim db + 1, ty_primary = True, ty_attribute = attr\<rparr>
        in (True, db\<lparr>pd_types_nprim := pd_types_nprim db + 1,
              pd_types := insert_at p (name, ty) (pd_types db),
              pd_attr_map := grow_array b {b} (pd_attr_map db),
              pd_val_to_struct := grow_array b ty (pd_val_to_struct db),
              pd_val_to_name := grow_array b name (pd_val_to_name db),
              pd_role_types := map (insert b) (pd_role_types db)\<rparr>))"
proof -
  have "ss_sym_place K (map fst (pd_types db)) name \<noteq> None"
    using assms(1) unfolding mem_ok_def by blast
  then obtain p where p: "ss_sym_place K (map fst (pd_types db)) name = Some p" by blast
  have "\<forall>a x. ss_mem K a x" using assms(1) by (simp add: mem_ok_def)
  moreover have "p \<le> length (pd_types db)"
    using assms(2) p by (metis length_map ss_ok_def)
  ultimately show thesis
    using that [of p] assms(1,3) p by (simp add: add_type_def Let_def)
qed

lemma add_type_wf:
  assumes "mem_ok K" "ss_ok K" "policy_wf db" "unat (pd_types_nprim db) + 1 < 2 ^ 32"
  shows "fst (add_type K name attr db)" "policy_wf (snd (add_type K name attr db))"
    "pd_avtab (snd (add_type K name attr db)) = pd_avtab db"
    "pd_classes (snd (add_type K name attr db)) = pd_classes db"
proof -
  have "fst (add_type K name attr db) \<and> policy_wf (snd (add_type K name attr db)) \<and>
    pd_avtab (snd (add_type K name attr db)) = pd_avtab db \<and> pd_classes (snd (add_type K name attr db)) = pd_classes db"
  proof (cases "map_of (pd_types db) name")
    case None
    have tw: "types_wf db" using assms(3) by (simp add: policy_wf_def)
    obtain m vs ns where w: "pd_attr_map db = Some m" "pd_val_to_struct db = Some vs" "pd_val_to_name db = Some ns"
        "length m = unat (pd_types_nprim db)" "length vs = length m" "length ns = length m"
        "\<forall>x\<in>set (pd_types db). type_ok m vs ns x" "distinct (map fst (pd_types db))"
      by (rule types_wf_cases [OF tw])
    define b where "b = unat (pd_types_nprim db)"
    define ty where "ty = \<lparr>ty_value = pd_types_nprim db + 1, ty_primary = True, ty_attribute = attr\<rparr>"
    obtain p where p: "add_type K name attr db =
       (True, db\<lparr>pd_types_nprim := pd_types_nprim db + 1,
              pd_types := insert_at p (name, ty) (pd_types db),
              pd_attr_map := grow_array b {b} (pd_attr_map db),
              pd_val_to_struct := grow_array b ty (pd_val_to_struct db),
              pd_val_to_name := grow_array b name (pd_val_to_name db),
              pd_role_types := map (insert b) (pd_role_types db)\<rparr>)"
      using add_type_new [OF assms(1,2) None, of attr] by (auto simp: Let_def b_def ty_def)
    have v: "unat (pd_types_nprim db + 1) = b + 1"
      using assms(4) by (simp add: b_def unat_word_ariths)
    have new: "type_ok (m @ [{b}]) (vs @ [ty]) (ns @ [name]) (name, ty)"
      using v w(4-6) by (simp add: type_ok_def ty_def b_def nth_append)
    have old: "type_ok (m @ [{b}]) (vs @ [ty]) (ns @ [name]) x" if "x \<in> set (pd_types db)" for x
      using w(7) [rule_format, OF that] w(5,6) by (auto simp: type_ok_def Let_def nth_append)
    have "name \<notin> fst ` set (pd_types db)" using None by (simp add: map_of_eq_None_iff)
    then have d: "distinct (map fst (insert_at p (name, ty) (pd_types db)))"
      using w(8) by (intro distinct_insert_at) simp_all
    have "types_wf (snd (add_type K name attr db))"
      using p w v new old d by (auto simp: types_wf_def grow_array_def b_def set_insert_at)
    then show ?thesis using p assms(3) by (simp add: policy_wf_def table_wf_def)
  qed (use assms(3) in \<open>simp add: add_type_def\<close>)
  then show "fst (add_type K name attr db)" "policy_wf (snd (add_type K name attr db))"
    "pd_avtab (snd (add_type K name attr db)) = pd_avtab db"
    "pd_classes (snd (add_type K name attr db)) = pd_classes db" by simp_all
qed

lemma add_typeattribute_wf:
  assumes "policy_wf db"
  shows "policy_wf (snd (add_typeattribute K ty attr db))"
    "pd_avtab (snd (add_typeattribute K ty attr db)) = pd_avtab db"
    "pd_types (snd (add_typeattribute K ty attr db)) = pd_types db"
    "pd_types_nprim (snd (add_typeattribute K ty attr db)) = pd_types_nprim db"
proof -
  have tw: "types_wf db" using assms by (simp add: policy_wf_def)
  obtain m vs ns where w: "pd_attr_map db = Some m" "pd_val_to_struct db = Some vs" "pd_val_to_name db = Some ns"
      "length m = unat (pd_types_nprim db)" "length vs = length m" "length ns = length m"
      "\<forall>x\<in>set (pd_types db). type_ok m vs ns x" "distinct (map fst (pd_types db))"
    by (rule types_wf_cases [OF tw])
  have grows: "m ! k \<subseteq> m[i := snd (ebitmap_set_bit K (m ! i) j True)] ! k" for i j k
    using set_bit_grows [of "m ! i" K j] by (cases "i < length m") (auto simp: nth_list_update list_update_beyond not_less)
  have "type_ok (m[i := snd (ebitmap_set_bit K (m ! i) j True)]) vs ns x" if "x \<in> set (pd_types db)" for i j x
    using w(7) [rule_format, OF that] grows [of "unat (ty_value (snd x)) - 1" i j]
    by (auto simp: type_ok_def Let_def)
  then have "types_wf (add_typeattribute_raw K a b db)" for a b
    using w by (simp add: types_wf_def add_typeattribute_raw_def Let_def)
  then show "policy_wf (snd (add_typeattribute K ty attr db))"
    "pd_avtab (snd (add_typeattribute K ty attr db)) = pd_avtab db"
    "pd_types (snd (add_typeattribute K ty attr db)) = pd_types db"
    "pd_types_nprim (snd (add_typeattribute K ty attr db)) = pd_types_nprim db"
    using assms by (auto simp: add_typeattribute_def add_typeattribute_raw_def policy_wf_def table_wf_def Let_def
        split: option.split)
qed

text \<open>Edits that touch neither the table nor the types.\<close>

lemma policy_wf_other [simp]:
  "policy_wf (db\<lparr>pd_permissive := e\<rparr>) = policy_wf db"
  "policy_wf (db\<lparr>pd_filename_trans := f\<rparr>) = policy_wf db"
  "policy_wf (db\<lparr>pd_compat_count := n\<rparr>) = policy_wf db"
  by (simp_all add: policy_wf_def table_wf_def types_wf_def cong: option.case_cong)

lemma set_permissive_wf: "policy_wf db \<Longrightarrow> policy_wf (snd (set_permissive K b ty db))"
  by (simp add: set_permissive_def split_beta Let_def)

lemma set_type_state_wf:
  assumes "policy_wf db"
  shows "policy_wf (snd (set_type_state K name b db))"
proof -
  have "policy_wf (fold (\<lambda>(_, ty) d. snd (set_permissive K b ty d)) xs db)" for xs :: "(bytes \<times> type_datum) list"
    by (rule fold_keeps) (auto simp: set_permissive_wf assms)
  then show ?thesis using assms by (simp add: set_type_state_def set_permissive_wf split: option.split)
qed

lemma set_trans_chain_wf [simp]: "policy_wf (set_trans_chain k ds db) = policy_wf db"
  by (simp add: set_trans_chain_def)

lemma add_filename_trans_wf:
  assumes "policy_wf db"
  shows "policy_wf (snd (add_filename_trans K s t c d obj db))"
proof (cases "map_of (pd_types db) s = None \<or> map_of (pd_types db) t = None \<or>
    map_of (pd_classes db) c = None \<or> map_of (pd_types db) d = None")
  case True
  then show ?thesis using assms by (auto simp: add_filename_trans_def split: option.split)
next
  case False
  then obtain src tgt cls def where n: "map_of (pd_types db) s = Some src" "map_of (pd_types db) t = Some tgt"
      "map_of (pd_classes db) c = Some cls" "map_of (pd_types db) d = Some def" by auto
  define k where "k = \<lparr>fk_ttype = ty_value tgt, fk_tclass = ucast (cl_value cls), fk_name = obj\<rparr>"
  show ?thesis
    unfolding add_filename_trans_def n option.case k_def [symmetric] Let_def
    by (cases "walk_trans (unat (ty_value src - 1)) (ty_value def) 0 (trans_chain db k)")
      (simp_all add: split_beta assms)
qed

lemma add_filename_trans_types:
  "pd_types_nprim (snd (add_filename_trans K s t c d obj db)) = pd_types_nprim db"
proof (cases "map_of (pd_types db) s = None \<or> map_of (pd_types db) t = None \<or>
    map_of (pd_classes db) c = None \<or> map_of (pd_types db) d = None")
  case True
  then show ?thesis by (auto simp: add_filename_trans_def split: option.split)
next
  case False
  then obtain src tgt cls def where n: "map_of (pd_types db) s = Some src" "map_of (pd_types db) t = Some tgt"
      "map_of (pd_classes db) c = Some cls" "map_of (pd_types db) d = Some def" by auto
  define k where "k = \<lparr>fk_ttype = ty_value tgt, fk_tclass = ucast (cl_value cls), fk_name = obj\<rparr>"
  show ?thesis
    unfolding add_filename_trans_def n option.case k_def [symmetric] Let_def
    by (cases "walk_trans (unat (ty_value src - 1)) (ty_value def) 0 (trans_chain db k)")
      (simp_all add: split_beta set_trans_chain_def)
qed

lemma set_type_state_types: "pd_types_nprim (snd (set_type_state K name b db)) = pd_types_nprim db"
proof -
  have one: "pd_types_nprim (snd (set_permissive K b ty d)) = pd_types_nprim d" for ty d
    by (simp add: set_permissive_def split_beta Let_def)
  have "pd_types_nprim (fold (\<lambda>(_, ty) d. snd (set_permissive K b ty d)) xs db) = pd_types_nprim db"
    for xs :: "(bytes \<times> type_datum) list"
    by (rule fold_keeps) (auto simp: one)
  then show ?thesis by (simp add: set_type_state_def one split: option.split)
qed

section \<open>Every operation preserves the invariant\<close>

text \<open>
  What an operation promises: the invariant, and at most one more type, so that values do not
  wrap as long as there is room for one more type than operations.
\<close>

definition policy_edit_ok :: "policydb \<Rightarrow> policydb \<Rightarrow> bool" where
  "policy_edit_ok db db1 \<longleftrightarrow>
     policy_wf db1 \<and> unat (pd_types_nprim db1) \<le> unat (pd_types_nprim db) + 1"

lemma table_edit_ok: "policy_wf db \<Longrightarrow> table_edit db db1 \<Longrightarrow> policy_edit_ok db db1"
  using table_edit_policy [of db db1] same_frame_fields(6) [of db1 db]
  by (simp add: policy_edit_ok_def table_edit_def)

lemma same_nprim_ok:
  "policy_wf db1 \<Longrightarrow> pd_types_nprim db1 = pd_types_nprim db \<Longrightarrow> policy_edit_ok db db1"
  by (simp add: policy_edit_ok_def)

lemma policy_edit_refl [simp]: "policy_edit_ok db db \<longleftrightarrow> policy_wf db"
  by (simp add: policy_edit_ok_def)

lemma rule_effects_mem:
  "AVTAB_ALLOWED \<in> set rule_effects" "AVTAB_AUDITALLOW \<in> set rule_effects" "AVTAB_AUDITDENY \<in> set rule_effects"
  "AVTAB_XPERMS_ALLOWED \<in> set xperm_effects" "AVTAB_XPERMS_AUDITALLOW \<in> set xperm_effects"
  "AVTAB_XPERMS_DONTAUDIT \<in> set xperm_effects"
  by (simp_all add: rule_effects_def xperm_effects_def)

lemma ksu_av_table:
  assumes "ss_ok K" "table_wf db"
  shows "table_edit db (snd (ksu_allow K s t c p db))" "table_edit db (snd (ksu_deny K s t c p db))"
    "table_edit db (snd (ksu_auditallow K s t c p db))" "table_edit db (snd (ksu_dontaudit K s t c p db))"
    "table_edit db (snd (ksu_allowxperm K s t c p db))" "table_edit db (snd (ksu_auditallowxperm K s t c p db))"
    "table_edit db (snd (ksu_dontauditxperm K s t c p db))"
  unfolding ksu_allow_def ksu_deny_def ksu_auditallow_def ksu_dontaudit_def
    ksu_allowxperm_def ksu_auditallowxperm_def ksu_dontauditxperm_def
  using add_rule_table [OF assms(1) _ assms(2)] add_xperm_rule_table [OF assms(1) _ assms(2)] rule_effects_mem
  by simp_all

lemma ksu_type_rules_ok:
  assumes "ss_ok K" "policy_wf db"
  shows "policy_edit_ok db (snd (ksu_type_change K s t c d db))" "policy_edit_ok db (snd (ksu_type_member K s t c d db))"
    "policy_edit_ok db (snd (ksu_type_transition K s t c d obj db))"
proof -
  have t: "table_wf db" using assms(2) by (simp add: policy_wf_def)
  note e = table_edit_ok [OF assms(2) add_type_rule_table [OF assms(1) _ t]]
  show "policy_edit_ok db (snd (ksu_type_change K s t c d db))" "policy_edit_ok db (snd (ksu_type_member K s t c d db))"
    unfolding ksu_type_change_def ksu_type_member_def by (rule e, simp)+
  show "policy_edit_ok db (snd (ksu_type_transition K s t c d obj db))"
    unfolding ksu_type_transition_def
    using e same_nprim_ok [OF add_filename_trans_wf [OF assms(2)] add_filename_trans_types]
    by (simp split: option.split)
qed

lemma ksu_av_ok:
  assumes "ss_ok K" "policy_wf db"
  shows "policy_edit_ok db (snd (ksu_allow K s t c p db))" "policy_edit_ok db (snd (ksu_deny K s t c p db))"
    "policy_edit_ok db (snd (ksu_auditallow K s t c p db))" "policy_edit_ok db (snd (ksu_dontaudit K s t c p db))"
    "policy_edit_ok db (snd (ksu_allowxperm K s t c p db))" "policy_edit_ok db (snd (ksu_auditallowxperm K s t c p db))"
    "policy_edit_ok db (snd (ksu_dontauditxperm K s t c p db))"
  using table_edit_ok [OF assms(2)] ksu_av_table [OF assms(1)] assms(2) by (simp_all add: policy_wf_def)

lemma ksu_state_ok:
  assumes "policy_wf db"
  shows "policy_edit_ok db (snd (ksu_permissive K ty db))" "policy_edit_ok db (snd (ksu_enforce K ty db))"
    "policy_edit_ok db (snd (ksu_typeattribute K s t db))" "policy_edit_ok db (snd (ksu_genfscon s t c db))"
  unfolding ksu_permissive_def ksu_enforce_def ksu_typeattribute_def ksu_genfscon_def add_genfscon_def
  using same_nprim_ok [OF set_type_state_wf [OF assms] set_type_state_types]
    same_nprim_ok [OF add_typeattribute_wf(1,4) [OF assms]] assms by simp_all

lemma add_type_ok:
  assumes "ss_ok K" "mem_ok K" "policy_wf db" "unat (pd_types_nprim db) + 1 < 2 ^ 32"
  shows "policy_edit_ok db (snd (add_type K name attr db))"
proof (cases "map_of (pd_types db) name")
  case None
  have "unat (pd_types_nprim db + 1) = unat (pd_types_nprim db) + 1" using assms(4) by (simp add: unat_word_ariths)
  moreover have "pd_types_nprim (snd (add_type K name attr db)) = pd_types_nprim db + 1"
    by (rule add_type_new [OF assms(2,1) None, of attr]) (simp add: Let_def)
  ultimately show ?thesis
    using add_type_wf(2) [OF assms(2,1,3,4)] by (simp add: policy_edit_ok_def)
qed (use assms(3) in \<open>simp add: add_type_def\<close>)

lemma ksu_type_ok:
  assumes "ss_ok K" "mem_ok K" "policy_wf db" "unat (pd_types_nprim db) + 1 < 2 ^ 32"
  shows "policy_edit_ok db (snd (ksu_type K name attr db))" "policy_edit_ok db (snd (ksu_attribute K name db))"
  using add_type_ok [OF assms] add_typeattribute_wf(1,4)
  by (simp_all add: ksu_type_def ksu_attribute_def split_beta Let_def policy_edit_ok_def)

lemmas policy_ops_ok = ksu_av_ok ksu_type_rules_ok ksu_state_ok ksu_type_ok

end
