(* ===== verification/Sepol_Load.thy ===== *)
theory Sepol_Load
  imports Sepol_Batch Sepolicy_Wf
begin

text \<open>
  What a load of rules promises: the format of a batch and its reader are inverse to each other,
  a batch is applied as a whole or not at all, and no policy that is in use is destroyed.
\<close>

section \<open>The format of a batch\<close>

definition encode_string :: "bytes option \<Rightarrow> bytes" where
  "encode_string v = (case v of None \<Rightarrow> le32 0 @ [0] | Some s \<Rightarrow> le32 (of_nat (length s)) @ s @ [0])"

type_synonym command = "sepol_data \<times> bytes option list"

definition encode_cmd :: "command \<Rightarrow> bytes" where
  "encode_cmd c =
     (case c of (h, as) \<Rightarrow> le32 (sd_cmd h) @ le32 (sd_subcmd h) @ concat (map encode_string as))"

definition string_ok :: "bytes option \<Rightarrow> bool" where
  "string_ok v \<longleftrightarrow> (case v of None \<Rightarrow> True | Some s \<Rightarrow> s \<noteq> [] \<and> 0 \<notin> set s \<and> length s < 2 ^ 32)"

definition cmd_ok :: "command \<Rightarrow> bool" where
  "cmd_ok c \<longleftrightarrow>
     (case c of (h, as) \<Rightarrow> sepol_expected_argc (sd_cmd h) = Inr (length as) \<and> (\<forall>v\<in>set as. string_ok v))"

lemma read_encoded_string:
  assumes "string_ok v"
  shows "sepol_read_string (encode_string v @ rest) = Inr (v, rest)"
proof (cases v)
  case None
  have "get32 0 (le32 0 @ 0 # rest) = (0 :: u32)" using get32_le32 [of "[]" 0 0 "0 # rest"] by simp
  then show ?thesis using None
    by (simp add: sepol_read_string_def encode_string_def sepol_remaining_def Let_def)
next
  case (Some s)
  have g: "get32 0 (le32 (of_nat (length s)) @ s @ 0 # rest) = (of_nat (length s) :: u32)"
    using get32_le32 [of "[]" 0 "of_nat (length s)" "s @ 0 # rest"] by simp
  have u: "unat (of_nat (length s) :: u32) = length s"
    using assms Some by (simp add: string_ok_def unat_of_nat)
  have "0 \<notin> set s" "s \<noteq> []" using assms Some by (simp_all add: string_ok_def)
  then show ?thesis using Some g u
    by (simp add: sepol_read_string_def encode_string_def sepol_remaining_def Let_def)
qed

lemma read_encoded_args:
  "\<forall>v\<in>set as. string_ok v \<Longrightarrow>
     read_args (length as) (concat (map encode_string as) @ rest) = Inr (as, rest)"
  by (induction as) (simp_all add: read_encoded_string)

lemma argc_bound: "sepol_expected_argc c = Inr n \<Longrightarrow> n \<le> KSU_SEPOLICY_MAX_ARGS"
  by (auto simp: sepol_expected_argc_def KSU_SEPOLICY_MAX_ARGS_def split: if_splits)

lemma read_encoded_cmd:
  assumes "cmd_ok (h, as)"
  shows "read_cmd (encode_cmd (h, as) @ rest) = Inr ((h, args_array as), rest)"
proof -
  let ?t = "concat (map encode_string as) @ rest"
  have "get32 0 (le32 (sd_cmd h) @ le32 (sd_subcmd h) @ ?t) = sd_cmd h"
    "get32 4 (le32 (sd_cmd h) @ le32 (sd_subcmd h) @ ?t) = sd_subcmd h"
    using get32_le32 [of "[]" 0 "sd_cmd h" "le32 (sd_subcmd h) @ ?t"]
      get32_le32 [of "le32 (sd_cmd h)" 4 "sd_subcmd h" ?t] by simp_all
  then have "sepol_read_cmd_header (encode_cmd (h, as) @ rest) = Inr (h, ?t)"
    by (simp add: sepol_read_cmd_header_def sepol_remaining_def encode_cmd_def)
  moreover have "sepol_expected_argc (sd_cmd h) = Inr (length as)" "\<forall>v\<in>set as. string_ok v"
    using assms by (simp_all add: cmd_ok_def)
  ultimately show ?thesis
    using argc_bound [of "sd_cmd h" "length as"] by (simp add: read_cmd_def read_encoded_args)
qed

section \<open>Running a batch\<close>

text \<open>The commands applied in order, with the number of those that succeeded.\<close>

fun run_cmds :: "ss_lib \<Rightarrow> command list \<Rightarrow> policydb \<times> nat \<Rightarrow> policydb \<times> nat" where
  "run_cmds K [] dn = dn"
| "run_cmds K ((h, as) # cs) (db, n) =
     (let (r, db1) = apply_one_sepolicy_cmd K h (args_array as) db
      in run_cmds K cs (db1, if r < 0 then n else n + 1))"

lemma encode_cmd_nonempty: "encode_cmd c \<noteq> []"
proof -
  have "length (encode_cmd c) \<ge> 8" by (cases c) (simp add: encode_cmd_def)
  then show ?thesis by auto
qed

lemma batch_loop_encoded:
  assumes "\<forall>c\<in>set cs. cmd_ok c"
  shows "batch_loop K (concat (map encode_cmd cs) @ rest) db n =
    (let (db1, n1) = run_cmds K cs (db, n) in batch_loop K rest db1 n1)"
  using assms
proof (induction cs arbitrary: db n)
  case (Cons c cs)
  obtain h as where c: "c = (h, as)" by (cases c)
  have r: "read_cmd (encode_cmd (h, as) @ concat (map encode_cmd cs) @ rest) =
      Inr ((h, args_array as), concat (map encode_cmd cs) @ rest)"
    using read_encoded_cmd [of h as] Cons.prems c by simp
  show ?case
    using Cons.IH Cons.prems encode_cmd_nonempty [of "(h, as)"]
    by (simp add: batch_loop.simps [of K "encode_cmd (h, as) @ concat (map encode_cmd cs) @ rest"] r c
        split_beta Let_def)
qed simp

lemma batch_loop_Nil: "batch_loop K [] db n = Inr (db, n)"
  by (simp add: batch_loop.simps)

lemma batch_loop_bad:
  assumes "cur \<noteq> []" "read_cmd cur = Inl e"
  shows "batch_loop K cur db n = Inl e"
  using assms by (simp add: batch_loop.simps)

lemma read_string_error: "sepol_read_string cur = Inl e \<Longrightarrow> e = EINVAL"
  by (auto simp: sepol_read_string_def Let_def split: if_splits)

lemma read_args_error: "read_args n cur = Inl e \<Longrightarrow> e = EINVAL"
  by (induction n cur arbitrary: e rule: read_args.induct)
    (auto split: sum.splits prod.splits dest: read_string_error)

lemma read_cmd_error: "read_cmd cur = Inl e \<Longrightarrow> e = EINVAL"
  by (auto simp: read_cmd_def sepol_read_cmd_header_def split: sum.splits if_splits prod.splits
      dest: read_args_error)

text \<open>
  C29: A batch takes effect as a whole or not at all. When user space sends well-formed commands
  followed by a tail, the answer depends on the tail: if nothing is left the policy that gets
  published is the copy with all commands applied in order, and the result is the number of those
  that succeeded (a failing command does not stop the batch); if the tail is not a command the
  result is -EINVAL, the policy in use is the old one, and only the unpublished copy is destroyed.
\<close>

theorem sepolicy_batch_atomic:
  assumes "\<forall>c\<in>set cs. cmd_ok c"
    and "payload = concat (map encode_cmd cs) @ tail" "tail = [] \<or> (\<exists>e. read_cmd tail = Inl e)"
    and "ptr \<noteq> 0" "unat len = length payload" "0 < length payload" "length payload \<le> KSU_SEPOLICY_MAX_BATCH_SIZE"
    and "le_kvmalloc E" "copy_from_user (unat ptr) (length payload) m = Some payload"
    and "ksu_dup_sepolicy (le_image E 0) (ps_policy s) = Inr pol"
  shows "handle_sepolicy E ptr len m s =
     (if tail = [] then
        let (db, n) = run_cmds (le_lib E) cs (sp_policydb pol, 0)
        in (int n, s\<lparr>ps_policy := pol\<lparr>sp_policydb := db\<rparr>,
              ps_trace := ps_trace s @ [Published, Grace_Period, Destroyed Old_Policy,
                Avc_Reset, Policyload_Notified, Status_Updated, Xfrm_Notified]\<rparr>)
      else (neg_errno EINVAL, s\<lparr>ps_trace := ps_trace s @ [Destroyed New_Policy]\<rparr>))"
proof -
  obtain db n where r: "run_cmds (le_lib E) cs (sp_policydb pol, 0) = (db, n)"
    by (cases "run_cmds (le_lib E) cs (sp_policydb pol, 0)")
  have len: "len \<noteq> 0" using assms(5,6) by auto
  have loop: "batch_loop (le_lib E) payload (sp_policydb pol) 0 = batch_loop (le_lib E) tail db n"
    using batch_loop_encoded [OF assms(1)] assms(2) r by simp
  show ?thesis
  proof (cases "tail = []")
    case True
    then show ?thesis using loop assms(4-10) len r
      by (simp add: handle_sepolicy_def batch_loop_Nil publish_def reset_avc_cache_def
          ksu_destroy_sepolicy_def trace_event_def)
  next
    case False
    then obtain e where e: "read_cmd tail = Inl e" using assms(3) by blast
    then have "batch_loop (le_lib E) payload (sp_policydb pol) 0 = Inl EINVAL"
      using loop batch_loop_bad [OF False e] read_cmd_error [OF e] by simp
    then show ?thesis using False assms(4-10) len
      by (simp add: handle_sepolicy_def ksu_destroy_sepolicy_def trace_event_def)
  qed
qed

section \<open>The invariant of the policy\<close>

lemma result_code_ok: "policy_edit_ok db (snd r) \<Longrightarrow> policy_edit_ok db (snd (result_code r))"
  by (simp add: result_code_def)

lemma require_then_ok:
  assumes "policy_wf db" "policy_edit_ok db (snd (act db))"
  shows "policy_edit_ok db (snd (require_then vs act db))"
  using assms by (simp add: require_then_def result_code_def split: option.split)

lemma commands_ok:
  assumes "ss_ok K" "policy_wf db"
  shows "policy_edit_ok db (snd (cmd_normal_perm K sub a db))" "policy_edit_ok db (snd (cmd_xperm K sub a db))"
    "policy_edit_ok db (snd (cmd_type_state K sub a db))" "policy_edit_ok db (snd (cmd_type_change K sub a db))"
  using ksu_av_ok [OF assms] ksu_type_rules_ok [OF assms] ksu_state_ok [OF assms(2)] assms(2)
  by (simp_all add: cmd_normal_perm_def cmd_xperm_def cmd_type_state_def cmd_type_change_def Let_def)

lemma apply_one_ok:
  assumes "ss_ok K" "mem_ok K" "policy_wf db" "unat (pd_types_nprim db) + 1 < 2 ^ 32"
  shows "policy_edit_ok db (snd (apply_one_sepolicy_cmd K h a db))"
proof -
  note req = require_then_ok [OF assms(3)]
  note ops = commands_ok [OF assms(1,3)] ksu_type_rules_ok [OF assms(1,3)] ksu_state_ok [OF assms(3)]
    ksu_type_ok [OF assms]
  show ?thesis
    unfolding apply_one_sepolicy_cmd_def Let_def
    by (simp only: if_split [of "\<lambda>x. policy_edit_ok db (snd x)"] req ops result_code_ok
        snd_conv policy_edit_refl assms(3) simp_thms)
qed

text \<open>
  C30: The policy database stays consistent. If the access vector table is well formed (one node
  for a plain key, the count right) and the types agree with the three arrays indexed by their
  values, then both still hold after any sequence of commands user space can send, successful or
  not, whatever names and numbers they carry, as long as memory is available and the type values
  have room for one more type for each command.
\<close>

theorem sepolicy_commands_keep_invariant:
  assumes "ss_ok K" "mem_ok K" "policy_wf db" "unat (pd_types_nprim db) + length cs < 2 ^ 32"
  shows "policy_wf (fst (run_cmds K cs (db, n)))"
  using assms(3,4)
proof (induction cs arbitrary: db n)
  case (Cons c cs)
  obtain h as where c: "c = (h, as)" by (cases c)
  obtain r db1 where r: "apply_one_sepolicy_cmd K h (args_array as) db = (r, db1)"
    by (cases "apply_one_sepolicy_cmd K h (args_array as) db")
  have "policy_edit_ok db db1"
    using apply_one_ok [OF assms(1,2), of db h "args_array as"] Cons.prems r by simp
  then have "policy_wf db1" "unat (pd_types_nprim db1) + length cs < 2 ^ 32"
    using Cons.prems(2) by (simp_all add: policy_edit_ok_def)
  then show ?case using Cons.IH [of db1] c r by simp
qed simp

section \<open>A load\<close>

lemma ex_lib_mem: "mem_ok ex_lib"
  by (simp add: mem_ok_def ex_lib_def)

lemma ex_policy_consistent: "policy_wf ex_policy"
proof -
  have "table_wf ex_policy" using ex_policy_wf by (simp add: table_wf_def ex_policy_def)
  moreover have "types_wf ex_policy"
    by (simp add: types_wf_def ex_policy_def ex_type_def type_ok_def lit_def)
  ultimately show ?thesis by (simp add: policy_wf_def)
qed

text \<open>Two commands: a permission that exists, and a denial for a type that does not.\<close>

definition ex_cmds :: "command list" where
  "ex_cmds =
     [(\<lparr>sd_cmd = KSU_SEPOLICY_CMD_NORMAL_PERM, sd_subcmd = 1\<rparr>,
       [Some (lit ''app''), None, Some (lit ''file''), Some (lit ''open'')]),
      (\<lparr>sd_cmd = KSU_SEPOLICY_CMD_NORMAL_PERM, sd_subcmd = 2\<rparr>,
       [Some (lit ''nobody''), None, None, None])]"

definition ex_load :: load_env where
  "ex_load =
     \<lparr>le_lib = ex_lib,
      le_image = (\<lambda>_. \<lparr>si_vmalloc = (\<lambda>_. True), si_write = (\<lambda>db n. Inr (replicate n 0)), si_memdup = True,
                       si_read = (\<lambda>bs. Inr ex_policy)\<rparr>),
      le_kvmalloc = True, le_sidtab = Some 1, le_load_isids = (\<lambda>_. True)\<rparr>"

definition ex_loaded :: policy_state where
  "ex_loaded =
     \<lparr>ps_policy = \<lparr>sp_policydb = ex_policy, sp_sidtab = 7, sp_latest_granting = 3\<rparr>, ps_backup = None,
      ps_trace = []\<rparr>"

definition ex_payload :: bytes where
  "ex_payload = concat (map encode_cmd ex_cmds)"

lemma ex_cmds_ok: "\<forall>c\<in>set ex_cmds. cmd_ok c"
  by (simp add: ex_cmds_def cmd_ok_def sepol_expected_argc_def string_ok_def lit_def)

lemma ex_dup: "ksu_dup_sepolicy (le_image ex_load 0) (ps_policy ex_loaded) = Inr (ps_policy ex_loaded)"
  by (simp add: ksu_dup_sepolicy_def ex_load_def ex_loaded_def ex_policy_def)

lemma ex_payload_length: "length ex_payload = 73"
  by (simp add: ex_payload_def ex_cmds_def encode_cmd_def encode_string_def lit_def)

theorem sepolicy_batch_atomic_witness:
  "fst (handle_sepolicy ex_load 0x1000 73 (write_bytes 0x1000 ex_payload (\<lambda>_. Some 0)) ex_loaded) = 1 \<and>
   fst (handle_sepolicy ex_load 0x1000 74 (write_bytes 0x1000 (ex_payload @ [1]) (\<lambda>_. Some 0)) ex_loaded) =
     neg_errno EINVAL"
proof -
  have stored: "copy_from_user 0x1000 (length p) (write_bytes 0x1000 p (\<lambda>_. Some 0)) = Some p" for p
  proof -
    have "is_mapped (write_bytes 0x1000 p (\<lambda>_. Some 0)) 0x1000 (length p)"
      by (rule is_mapped_write) (simp add: is_mapped_iff)
    then show ?thesis by simp
  qed
  have bad: "read_cmd [1] = Inl EINVAL"
    by (simp add: read_cmd_def sepol_read_cmd_header_def sepol_remaining_def)
  have n: "snd (run_cmds (le_lib ex_load) ex_cmds (sp_policydb (ps_policy ex_loaded), 0)) = 1" by code_simp
  have k: "le_kvmalloc ex_load" by (simp add: ex_load_def)
  have one: "fst (handle_sepolicy ex_load 0x1000 73 (write_bytes 0x1000 ex_payload (\<lambda>_. Some 0)) ex_loaded) = 1"
    using sepolicy_batch_atomic [OF ex_cmds_ok, of ex_payload "[]" "0x1000" 73 ex_load
        "write_bytes 0x1000 ex_payload (\<lambda>_. Some 0)" ex_loaded "ps_policy ex_loaded"]
      stored [of ex_payload] ex_dup k n ex_payload_length
    by (simp add: ex_payload_def KSU_SEPOLICY_MAX_BATCH_SIZE_def split_beta Let_def)
  have "fst (handle_sepolicy ex_load 0x1000 74 (write_bytes 0x1000 (ex_payload @ [1]) (\<lambda>_. Some 0)) ex_loaded) =
      neg_errno EINVAL"
    using sepolicy_batch_atomic [OF ex_cmds_ok, of "ex_payload @ [1]" "[1]" "0x1000" 74 ex_load
        "write_bytes 0x1000 (ex_payload @ [1]) (\<lambda>_. Some 0)" ex_loaded "ps_policy ex_loaded"]
      stored [of "ex_payload @ [1]"] ex_dup k bad ex_payload_length
    by (simp add: ex_payload_def KSU_SEPOLICY_MAX_BATCH_SIZE_def)
  then show ?thesis using one by simp
qed

theorem sepolicy_commands_keep_invariant_witness:
  "policy_wf (fst (run_cmds ex_lib ex_cmds (ex_policy, 0)))"
  using sepolicy_commands_keep_invariant [OF ex_lib_ok ex_lib_mem ex_policy_consistent, of ex_cmds 0]
  by (simp add: ex_policy_def ex_cmds_def)

end
