(* ===== verification/Sepol_Domain.thy ===== *)
theory Sepol_Domain
  imports Sepol_Load
begin

text \<open>
  What the rules of the module give its domain. Rights only grow while they are installed: a
  vector that is full stays full under every rule that allows something, and the rules that touch
  types keep the names that are there. So the domain ends up with every permission on every type
  that carries an attribute, and stays permissive.
\<close>

section \<open>Rights only grow\<close>

lemma triple_full:
  assumes "rule_ok K AVTAB_ALLOWED d" "ak_spec k = AVTAB_ALLOWED" "av_data (pd_avtab d) k = - 1"
  shows "av_data (pd_avtab (snd (add_rule_triple K perm AVTAB_ALLOWED False x d))) k = - 1"
proof -
  obtain s t c where x: "x = (s, t, c)" by (cases x)
  obtain b d1 where r: "add_rule_at K perm AVTAB_ALLOWED False s t c d = (b, d1)"
    by (cases "add_rule_at K perm AVTAB_ALLOWED False s t c d")
  have a: "ss_ok K" "AVTAB_ALLOWED \<in> set rule_effects" "wf_avtab (pd_avtab d)"
    using assms(1) by (simp_all add: rule_ok_def)
  note spec = add_rule_at_spec [OF a r]
  have "av_update perm False (- 1) = - 1" by (cases perm) (simp_all add: av_update_def)
  then have "av_data (pd_avtab d1) k = - 1"
    using spec(3) [of k] spec(5) assms(2,3) by (cases "k = rule_key s t c AVTAB_ALLOWED") (auto simp: av_kinds_def)
  then show ?thesis using r x by (simp add: add_rule_triple_def)
qed

lemma allow_full:
  assumes "ss_ok K" "table_wf db" "ak_spec k = AVTAB_ALLOWED" "av_data (pd_avtab db) k = - 1"
  shows "av_data (pd_avtab (snd (ksu_allow K s t c p db))) k = - 1"
proof (cases "fst (add_rule K s t c p AVTAB_ALLOWED False db) \<or> snd (add_rule K s t c p AVTAB_ALLOWED False db) \<noteq> db")
  case True
  obtain src tgt cls perm where r:
      "add_rule_raw K src tgt cls perm AVTAB_ALLOWED False db = add_rule K s t c p AVTAB_ALLOWED False db"
    using add_rule_raw_eq [of K s t c p AVTAB_ALLOWED False db, OF surjective_pairing True] by (metis prod.collapse)
  have ok: "rule_ok K AVTAB_ALLOWED db"
    using assms(1,2) rule_effects_mem(1) by (simp add: rule_ok_def table_wf_def)
  let ?P = "\<lambda>d. rule_ok K AVTAB_ALLOWED d \<and> av_data (pd_avtab d) k = - 1"
  have "?P (snd (for_each (add_rule_triple K perm AVTAB_ALLOWED False)
      (rule_triples src tgt cls AVTAB_ALLOWED False db) db))"
  proof (rule for_each_keeps)
    fix x d
    assume "?P d"
    then show "?P (snd (add_rule_triple K perm AVTAB_ALLOWED False x d))"
      using triple_full [of K d k perm x] add_rule_triple_spec(1) assms(3) by simp
  qed (use ok assms(4) in simp)
  then show ?thesis using r add_rule_raw_triples [OF ok, of src tgt cls perm False] by (simp add: ksu_allow_def)
next
  case False
  then show ?thesis using assms(4) by (simp add: ksu_allow_def)
qed

lemma allowxperm_full:
  assumes "ss_ok K" "table_wf db" "ak_spec k = AVTAB_ALLOWED" "av_data (pd_avtab db) k = - 1"
  shows "av_data (pd_avtab (snd (ksu_allowxperm K s t c p db))) k = - 1"
proof -
  have "plain_key k" using assms(3) rule_effects_mem(1) by (intro rule_effect_plain) simp
  then show ?thesis
    using add_xperm_rule_table [OF assms(1) rule_effects_mem(4) assms(2)] assms(4)
    by (simp add: ksu_allowxperm_def)
qed

section \<open>Allowing everything succeeds\<close>

lemma for_each_succeeds:
  assumes "\<And>x d. P d \<Longrightarrow> fst (f x d) \<and> P (snd (f x d))" "P d"
  shows "fst (for_each f xs d)"
  using assms(2)
proof (induction xs arbitrary: d)
  case (Cons x xs)
  then show ?case using assms(1) [of d x] by (simp add: split_beta Let_def)
qed simp

lemma allow_all_triple:
  assumes "mem_ok K" "rule_ok K AVTAB_ALLOWED d"
  shows "fst (add_rule_triple K None AVTAB_ALLOWED False x d)"
proof -
  obtain s t c where x: "x = (s, t, c)" by (cases x)
  let ?k = "rule_key s t c AVTAB_ALLOWED"
  have a: "ss_ok K" "wf_avtab (pd_avtab d)" using assms(2) by (simp_all add: rule_ok_def)
  have pk: "plain_key ?k" using rule_effects_mem(1) by (intro rule_effect_plain) simp
  obtain found d1 where g: "get_avtab_node K ?k None d = (found, d1)" by (cases "get_avtab_node K ?k None d")
  have "ss_place K (pd_avtab d) ?k \<noteq> None" using assms(1) unfolding mem_ok_def by blast
  then have "fst (get_avtab_node K ?k None d) \<noteq> None"
    by (auto simp: get_avtab_node_def Let_def split: option.split)
  then have "found \<noteq> None" using g by simp
  then obtain i where i: "found = Some i" by blast
  note n = get_plain [OF a pk g [unfolded i]]
  show ?thesis
    using g i n(2) x
    by (simp add: add_rule_triple_def add_rule_at_def Let_def av_update_def is_redundant_avtab_node_def)
qed

lemma allow_all:
  assumes "ss_ok K" "mem_ok K" "table_wf db" "map_of (pd_types db) x = Some ty"
    "a \<in> snd ` set (pd_types db)" "ty_attribute a" "c \<in> snd ` set (pd_classes db)"
  shows "av_data (pd_avtab (snd (ksu_allow K (Some x) None None None db))) (rule_key ty a c AVTAB_ALLOWED) = - 1"
proof -
  have ok: "rule_ok K AVTAB_ALLOWED db"
    using assms(1,3) rule_effects_mem(1) by (simp add: rule_ok_def table_wf_def)
  have raw: "add_rule K (Some x) None None None AVTAB_ALLOWED False db =
      add_rule_raw K (Some ty) None None None AVTAB_ALLOWED False db"
    using assms(4) by (simp add: add_rule_def symtab_opt_def)
  have "fst (for_each (add_rule_triple K None AVTAB_ALLOWED False)
      (rule_triples (Some ty) None None AVTAB_ALLOWED False db) db)"
    by (rule for_each_succeeds [where P = "rule_ok K AVTAB_ALLOWED"])
      (use ok allow_all_triple [OF assms(2)] add_rule_triple_spec(1) in auto)
  then have succ: "add_rule K (Some x) None None None AVTAB_ALLOWED False db =
      (True, snd (add_rule K (Some x) None None None AVTAB_ALLOWED False db))"
    using raw add_rule_raw_triples [OF ok] by (simp add: prod_eq_iff)
  have sel: "selects db (Some x) None None AVTAB_ALLOWED (strip_av AVTAB_ALLOWED False) (rule_key ty a c AVTAB_ALLOWED)"
    using assms(4-7) by (auto simp: selects_def denotes_def denotes_class_def)
  have w: "wf_avtab (pd_avtab db)" using assms(3) by (simp add: table_wf_def)
  show ?thesis
    using add_rule_pointwise [OF assms(1) w rule_effects_mem(1) succ] sel
    by (simp add: rule_perm_def ksu_allow_def av_update_def av_kinds_def)
qed

section \<open>The domain\<close>

text \<open>What the first rules establish and the later ones keep: the domain exists and is permissive.\<close>

definition domain_ready :: "bytes \<Rightarrow> type_datum \<Rightarrow> policydb \<Rightarrow> bool" where
  "domain_ready x ty db \<longleftrightarrow>
     policy_wf db \<and> map_of (pd_types db) x = Some ty \<and> unat (ty_value ty) \<in> pd_permissive db"

definition domain_full :: "type_datum \<Rightarrow> policydb \<Rightarrow> bool" where
  "domain_full ty db \<longleftrightarrow>
     (\<forall>a\<in>snd ` set (pd_types db). \<forall>c\<in>snd ` set (pd_classes db). ty_attribute a \<longrightarrow>
        av_data (pd_avtab db) (rule_key ty a c AVTAB_ALLOWED) = - 1)"

lemma table_edit_ready:
  assumes "domain_ready x ty db" "table_edit db db1"
  shows "domain_ready x ty db1"
proof -
  have f: "same_frame db1 db" using assms(2) by (simp add: table_edit_def)
  show ?thesis
    using assms table_edit_policy [OF assms(2)] same_frame_fields(1,4) [OF f] by (simp add: domain_ready_def)
qed

lemma allow_ready:
  assumes "ss_ok K" "domain_ready x ty db"
  shows "domain_ready x ty (snd (ksu_allow K s t c p db))" "domain_ready x ty (snd (ksu_allowxperm K s t c p db))"
proof -
  have w: "table_wf db" using assms(2) by (simp add: domain_ready_def policy_wf_def)
  show "domain_ready x ty (snd (ksu_allow K s t c p db))" "domain_ready x ty (snd (ksu_allowxperm K s t c p db))"
    using table_edit_ready [OF assms(2)] ksu_av_table(1,5) [OF assms(1) w] by blast+
qed

lemma allow_keeps_full:
  assumes "ss_ok K" "table_wf db" "domain_full ty db"
  shows "domain_full ty (snd (ksu_allow K s t c p db))" "domain_full ty (snd (ksu_allowxperm K s t c p db))"
proof -
  have f: "same_frame (snd (ksu_allow K s t c p db)) db" "same_frame (snd (ksu_allowxperm K s t c p db)) db"
    using ksu_av_table(1,5) [OF assms(1,2)] by (simp_all add: table_edit_def)
  show "domain_full ty (snd (ksu_allow K s t c p db))" "domain_full ty (snd (ksu_allowxperm K s t c p db))"
    using assms(3) allow_full [OF assms(1,2)] allowxperm_full [OF assms(1,2)]
    unfolding domain_full_def same_frame_fields(1,2) [OF f(1)] same_frame_fields(1,2) [OF f(2)] by simp_all
qed

lemma add_type_lookup:
  assumes "mem_ok K" "ss_ok K"
  shows "map_of (pd_types db) x = Some ty \<Longrightarrow> map_of (pd_types (snd (add_type K name attr db))) x = Some ty"
    "\<exists>ty. map_of (pd_types (snd (add_type K name attr db))) name = Some ty"
    "pd_permissive (snd (add_type K name attr db)) = pd_permissive db"
proof -
  have "(map_of (pd_types db) x = Some ty \<longrightarrow> map_of (pd_types (snd (add_type K name attr db))) x = Some ty) \<and>
    (\<exists>ty. map_of (pd_types (snd (add_type K name attr db))) name = Some ty) \<and>
    pd_permissive (snd (add_type K name attr db)) = pd_permissive db"
  proof (cases "map_of (pd_types db) name")
    case None
    obtain p v where t: "pd_types (snd (add_type K name attr db)) = insert_at p (name, v) (pd_types db)"
        "pd_permissive (snd (add_type K name attr db)) = pd_permissive db"
      by (rule add_type_new [OF assms None, of attr]) (simp add: Let_def)
    have "fst (pd_types db ! j) \<noteq> name" if "j < length (pd_types db)" for j
      using None that by (auto simp: map_of_eq_None_iff)
    then have "map_of (insert_at p (name, v) (pd_types db)) = (map_of (pd_types db))(name \<mapsto> v)"
      by (intro map_of_insert_at) simp
    then show ?thesis using t None by auto
  qed (simp add: add_type_def)
  then show "map_of (pd_types db) x = Some ty \<Longrightarrow> map_of (pd_types (snd (add_type K name attr db))) x = Some ty"
    "\<exists>ty. map_of (pd_types (snd (add_type K name attr db))) name = Some ty"
    "pd_permissive (snd (add_type K name attr db)) = pd_permissive db" by simp_all
qed

lemma typeattribute_same:
  "pd_types (snd (add_typeattribute K s t db)) = pd_types db"
  "pd_permissive (snd (add_typeattribute K s t db)) = pd_permissive db"
  by (simp_all add: add_typeattribute_def add_typeattribute_raw_def Let_def split: option.split)

lemma type_keeps_ready:
  assumes "ss_ok K" "mem_ok K" "domain_ready x ty db" "unat (pd_types_nprim db) + 1 < 2 ^ 32"
  shows "domain_ready x ty (snd (ksu_type K name attr db))" "domain_ready x ty (snd (ksu_typeattribute K s t db))"
proof -
  have w: "policy_wf db" using assms(3) by (simp add: domain_ready_def)
  have "policy_wf (snd (ksu_type K name attr db))"
    using ksu_type_ok(1) [OF assms(1,2) w assms(4), of name attr] by (simp add: policy_edit_ok_def)
  then show "domain_ready x ty (snd (ksu_type K name attr db))"
    using add_type_lookup(1,3) [OF assms(2,1)] typeattribute_same assms(3)
    by (simp add: domain_ready_def ksu_type_def split_beta Let_def)
  have "policy_wf (snd (ksu_typeattribute K s t db))"
    using ksu_state_ok(3) [OF w] by (simp add: policy_edit_ok_def)
  then show "domain_ready x ty (snd (ksu_typeattribute K s t db))"
    using typeattribute_same assms(3) by (simp add: domain_ready_def ksu_typeattribute_def)
qed

section \<open>Running the rules\<close>

lemma run_rules_simps [simp]:
  "run_rules [] d = d" "run_rules (r # rs) d = run_rules rs (snd (r d))"
  "run_rules (rs @ rs2) d = run_rules rs2 (run_rules rs d)"
  by (simp_all add: run_rules_def)

text \<open>The rules that only allow.\<close>

definition allow_op :: "ss_lib \<Rightarrow> policy_edit \<Rightarrow> bool" where
  "allow_op K r \<longleftrightarrow> (\<exists>s t c p. r = ksu_allow K s t c p \<or> r = ksu_allowxperm K s t c p)"

lemma allow_ops:
  "r \<in> set (ioctl_rules K) \<Longrightarrow> allow_op K r" "r \<in> set (service_rules K) \<Longrightarrow> allow_op K r"
  by (auto simp: ioctl_rules_def service_rules_def allow_to_ksu_def allow_op_def)

lemma run_allow_ops:
  assumes "ss_ok K" "\<forall>r\<in>set rs. allow_op K r" "domain_ready x ty d" "domain_full ty d"
  shows "domain_ready x ty (run_rules rs d) \<and> domain_full ty (run_rules rs d)"
  using assms(2-4)
proof (induction rs arbitrary: d)
  case (Cons r rs)
  have w: "table_wf d" using Cons.prems(2) by (simp add: domain_ready_def policy_wf_def)
  have "domain_ready x ty (snd (r d)) \<and> domain_full ty (snd (r d))"
    using Cons.prems allow_ready [OF assms(1)] allow_keeps_full [OF assms(1) w] by (auto simp: allow_op_def)
  then show ?case using Cons.IH [of "snd (r d)"] Cons.prems(1) by simp
qed simp

lemma permissive_ready:
  assumes "mem_ok K" "policy_wf d" "map_of (pd_types d) x = Some ty"
  shows "domain_ready x ty (snd (ksu_permissive K (Some x) d))"
proof -
  have "policy_wf (snd (ksu_permissive K (Some x) d))"
    using ksu_state_ok(1) [OF assms(2)] by (simp add: policy_edit_ok_def)
  then show ?thesis using assms(1,3)
    by (simp add: domain_ready_def ksu_permissive_def set_type_state_def set_permissive_def split_beta Let_def)
qed

text \<open>The rules up to the one that allows everything.\<close>

lemma domain_rules_ready:
  assumes "ss_ok K" "mem_ok K" "policy_wf db" "unat (pd_types_nprim db) + 16 < 2 ^ 32"
  obtains ty where "domain_ready KERNEL_SU_DOMAIN ty (run_rules (domain_rules K) db)"
    "domain_full ty (run_rules (domain_rules K) db)"
proof -
  let ?ksu = KERNEL_SU_DOMAIN and ?file = KERNEL_SU_FILE
  let ?N = "\<lambda>d. unat (pd_types_nprim d)"
  define d1 where "d1 = snd (ksu_type K ?ksu (lit ''domain'') db)"
  have e1: "policy_edit_ok db d1" unfolding d1_def by (rule ksu_type_ok) (use assms in simp_all)
  obtain ty where ty: "map_of (pd_types d1) ?ksu = Some ty"
    using add_type_lookup(2) [OF assms(2,1), of ?ksu False db] typeattribute_same(1)
    by (auto simp: d1_def ksu_type_def split_beta Let_def)
  define d2 where "d2 = snd (ksu_permissive K (Some ?ksu) d1)"
  have r2: "domain_ready ?ksu ty d2"
    unfolding d2_def by (rule permissive_ready) (use e1 assms(2) ty in \<open>simp_all add: policy_edit_ok_def\<close>)
  have n2: "?N d2 = ?N d1" by (simp add: d2_def ksu_permissive_def set_type_state_types)
  define d5 where "d5 = run_rules [ksu_typeattribute K ?ksu (lit ''mlstrustedsubject''),
      ksu_typeattribute K ?ksu (lit ''netdomain''), ksu_typeattribute K ?ksu (lit ''bluetoothdomain'')] d2"
  have attr: "domain_ready ?ksu ty (snd (ksu_typeattribute K s t d)) \<and> ?N (snd (ksu_typeattribute K s t d)) = ?N d"
    if "domain_ready ?ksu ty d" "?N d + 2 < 2 ^ 32" for s t d
    using type_keeps_ready(2) [OF assms(1,2) that(1)] that add_typeattribute_wf(4) [of d]
    by (simp add: ksu_typeattribute_def domain_ready_def)
  have n1: "?N d1 + 15 < 2 ^ 32" using e1 assms(4) by (simp add: policy_edit_ok_def)
  have r5: "domain_ready ?ksu ty d5 \<and> ?N d5 = ?N d1"
    unfolding d5_def using attr r2 n2 n1 by simp
  define d6 where "d6 = snd (ksu_type K ?file (lit ''file_type'') d5)"
  have r6: "domain_ready ?ksu ty d6"
    unfolding d6_def by (rule type_keeps_ready(1) [OF assms(1,2)]) (use r5 n1 in simp_all)
  have w5: "policy_wf d5" using r5 by (simp add: domain_ready_def)
  have "policy_edit_ok d5 d6"
    unfolding d6_def by (rule ksu_type_ok(1) [OF assms(1,2) w5]) (use r5 n1 in simp)
  then have n6: "?N d6 + 14 < 2 ^ 32" using r5 n1 by (simp add: policy_edit_ok_def)
  define d7 where "d7 = snd (ksu_typeattribute K ?file (lit ''mlstrustedobject'') d6)"
  have r7: "domain_ready ?ksu ty d7" unfolding d7_def using attr [OF r6] n6 by simp
  define d8 where "d8 = snd (ksu_allow K (Some (lit ''domain'')) (Some ?file) None None d7)"
  have r8: "domain_ready ?ksu ty d8" unfolding d8_def by (rule allow_ready(1) [OF assms(1) r7])
  define d9 where "d9 = snd (ksu_allow K (Some ?ksu) None None None d8)"
  have r9: "domain_ready ?ksu ty d9" unfolding d9_def by (rule allow_ready(1) [OF assms(1) r8])
  have w8: "table_wf d8" "map_of (pd_types d8) ?ksu = Some ty"
    using r8 by (simp_all add: domain_ready_def policy_wf_def)
  have "same_frame d9 d8"
    using ksu_av_table(1) [OF assms(1) w8(1)] by (simp add: d9_def table_edit_def)
  then have f9: "domain_full ty d9"
    using allow_all [OF assms(1,2) w8] by (auto simp: domain_full_def same_frame_fields d9_def)
  have "run_rules (domain_rules K) db = d9"
    by (simp add: domain_rules_def d1_def d2_def d5_def d6_def d7_def d8_def d9_def)
  then show thesis using that r9 f9 by simp
qed

lemma kernelsu_rules_full:
  assumes "ss_ok K" "mem_ok K" "policy_wf db" "unat (pd_types_nprim db) + 16 < 2 ^ 32"
  obtains ty where "domain_ready KERNEL_SU_DOMAIN ty (kernelsu_rules K db)" "domain_full ty (kernelsu_rules K db)"
proof -
  define d where "d = run_rules (domain_rules K) db"
  obtain ty where t: "domain_ready KERNEL_SU_DOMAIN ty d" "domain_full ty d"
    unfolding d_def by (rule domain_rules_ready [OF assms])
  define d2 where "d2 = (if pd_policyvers d \<ge> POLICYDB_VERSION_XPERMS_IOCTL then run_rules (ioctl_rules K) d else d)"
  have i: "\<forall>r\<in>set (ioctl_rules K). allow_op K r" "\<forall>r\<in>set (service_rules K). allow_op K r"
    using allow_ops by blast+
  have d2: "domain_ready KERNEL_SU_DOMAIN ty d2 \<and> domain_full ty d2"
    using run_allow_ops [OF assms(1) i(1) t] t by (simp add: d2_def)
  have "kernelsu_rules K db = run_rules (service_rules K) d2"
    by (simp add: kernelsu_rules_def d_def [symmetric] d2_def Let_def)
  then show thesis using that run_allow_ops [OF assms(1) i(2)] d2 by metis
qed

text \<open>
  What the security server grants: the union of the vectors over the attributes of the source and
  of the target, each type being an attribute of itself.
\<close>

definition grants :: "policydb \<Rightarrow> type_datum \<Rightarrow> type_datum \<Rightarrow> class_datum \<Rightarrow> nat \<Rightarrow> bool" where
  "grants db s t c b \<longleftrightarrow>
     (\<exists>m. pd_attr_map db = Some m \<and>
       (\<exists>i\<in>m ! unat (ty_value s - 1). \<exists>j\<in>m ! unat (ty_value t - 1).
          bit (av_data (pd_avtab db)
            \<lparr>ak_source = of_nat (i + 1), ak_target = of_nat (j + 1), ak_class = ucast (cl_value c),
             ak_spec = AVTAB_ALLOWED\<rparr>) b))"

lemma value_back:
  assumes "1 \<le> unat (v :: u32)"
  shows "(of_nat (unat (v - 1) + 1) :: u16) = ucast v"
proof -
  have "unat (v - 1) + 1 = unat v" using unat_pred [OF assms] assms by simp
  then show ?thesis by (simp only: of_nat_unat)
qed

text \<open>
  C31: Installing the module's rules gives its domain every right. Whatever consistent policy is
  loaded, if the copy of it can be made and memory suffices, the published policy has a type
  \<open>ksu\<close> that is permissive, and the security server grants this type every permission of every
  class on every type that carries at least one attribute (a type without any attribute is not
  reached: the wildcard of a granting rule ranges over attributes only). The published policy is
  consistent, and the old one is destroyed only after its successor is in place and a grace
  period has passed.
\<close>

theorem ksu_domain_unconfined:
  assumes "ss_ok (le_lib E)" "mem_ok (le_lib E)"
    and "ksu_dup_sepolicy (le_image E 1) (ps_policy s) = Inr pol"
    and "policy_wf (sp_policydb pol)" "unat (pd_types_nprim (sp_policydb pol)) + 16 < 2 ^ 32"
  shows "\<exists>ksu db. db = sp_policydb (ps_policy (apply_kernelsu_rules E s)) \<and> policy_wf db \<and>
      map_of (pd_types db) KERNEL_SU_DOMAIN = Some ksu \<and> unat (ty_value ksu) \<in> pd_permissive db \<and>
      (\<forall>t\<in>snd ` set (pd_types db). \<forall>a\<in>snd ` set (pd_types db). \<forall>c\<in>snd ` set (pd_classes db). \<forall>b<32.
         ty_attribute a \<and> unat (ty_value a - 1) \<in> the (pd_attr_map db) ! unat (ty_value t - 1)
           \<longrightarrow> grants db ksu t c b) \<and>
      (\<exists>before. ps_trace (apply_kernelsu_rules E s) = before @ [Published, Grace_Period, Destroyed Old_Policy,
         Avc_Reset, Policyload_Notified, Status_Updated, Xfrm_Notified])"
proof -
  let ?K = "le_lib E"
  define db where "db = kernelsu_rules ?K (sp_policydb pol)"
  obtain ksu where k: "domain_ready KERNEL_SU_DOMAIN ksu db" "domain_full ksu db"
    unfolding db_def by (rule kernelsu_rules_full [OF assms(1,2,4,5)])
  have w: "policy_wf db" "map_of (pd_types db) KERNEL_SU_DOMAIN = Some ksu"
      "unat (ty_value ksu) \<in> pd_permissive db"
    using k(1) by (simp_all add: domain_ready_def)
  have tw: "types_wf db" using w(1) by (simp add: policy_wf_def)
  obtain m vs ns where m: "pd_attr_map db = Some m" "pd_val_to_struct db = Some vs" "pd_val_to_name db = Some ns"
      "length m = unat (pd_types_nprim db)" "length vs = length m" "length ns = length m"
      "\<forall>x\<in>set (pd_types db). type_ok m vs ns x" "distinct (map fst (pd_types db))"
    by (rule types_wf_cases [OF tw])
  have pos: "1 \<le> unat (ty_value x)" "unat (ty_value x - 1) \<in> m ! unat (ty_value x - 1)"
    if "x \<in> snd ` set (pd_types db)" for x
    using m(7) that unat_pred [of "ty_value x"] by (auto simp: type_ok_def Let_def)
  have "ksu \<in> snd ` set (pd_types db)" using map_of_SomeD [OF w(2)] by force
  then have g: "grants db ksu t c b"
    if "a \<in> snd ` set (pd_types db)" "c \<in> snd ` set (pd_classes db)" "b < 32" "ty_attribute a"
      "unat (ty_value a - 1) \<in> m ! unat (ty_value t - 1)" for t a c b
  proof -
    have "av_data (pd_avtab db) (rule_key ksu a c AVTAB_ALLOWED) = - 1"
      using k(2) that unfolding domain_full_def by blast
    then show ?thesis
      using pos [OF \<open>ksu \<in> _\<close>] pos(1) [OF that(1)] that(3,5) m(1)
      unfolding grants_def
      by (intro exI [of _ m] conjI bexI [of _ "unat (ty_value ksu - 1)"] bexI [of _ "unat (ty_value a - 1)"])
        (simp_all only: value_back rule_key_def, simp)
  qed
  have ps: "sp_policydb (ps_policy (apply_kernelsu_rules E s)) = db"
    using assms(3) by (simp add: apply_kernelsu_rules_def publish_def reset_avc_cache_def
        ksu_destroy_sepolicy_def trace_event_def db_def Let_def)
  have "\<exists>before. ps_trace (apply_kernelsu_rules E s) = before @ [Published, Grace_Period, Destroyed Old_Policy,
         Avc_Reset, Policyload_Notified, Status_Updated, Xfrm_Notified]"
    using assms(3) by (simp add: apply_kernelsu_rules_def publish_def reset_avc_cache_def
        ksu_destroy_sepolicy_def trace_event_def Let_def)
  then show ?thesis using ps w g m(1) by (intro exI [of _ ksu] exI [of _ db]) auto
qed

text \<open>The rules on the small policy.\<close>

theorem ksu_domain_unconfined_witness:
  "map_of (pd_types (sp_policydb (ps_policy (apply_kernelsu_rules ex_load ex_loaded)))) KERNEL_SU_DOMAIN \<noteq> None \<and>
   policy_wf (sp_policydb (ps_policy (apply_kernelsu_rules ex_load ex_loaded)))"
proof -
  have d: "ksu_dup_sepolicy (le_image ex_load 1) (ps_policy ex_loaded) = Inr (ps_policy ex_loaded)"
    using ex_dup by (simp add: ex_load_def)
  have w: "policy_wf (sp_policydb (ps_policy ex_loaded))"
    using ex_policy_consistent by (simp add: ex_loaded_def)
  have l: "ss_ok (le_lib ex_load)" "mem_ok (le_lib ex_load)"
    using ex_lib_ok ex_lib_mem by (simp_all add: ex_load_def)
  have n: "unat (pd_types_nprim (sp_policydb (ps_policy ex_loaded))) + 16 < 2 ^ 32"
    by (simp add: ex_loaded_def ex_policy_def)
  show ?thesis using ksu_domain_unconfined [OF l d w n] by auto
qed

end
