(* ===== verification/Sepolicy_Lookup.thy ===== *)
theory Sepolicy_Lookup
  imports Sepolicy_Wf
begin

text \<open>
  Rules that are looked up by more than a key: extended permissions of ioctl numbers, where a node
  answers for one driver or for a range of drivers, and name transitions, which are kept in a hash
  table with its own comparison and have a chain of data for each key.
\<close>

section \<open>Bit maps of 256 permissions\<close>

lemma xperm_test_set:
  assumes "length p = 8" "i < 256" "x < 256"
  shows "xperm_test x (xperm_set i p) \<longleftrightarrow> x = i \<or> xperm_test x p"
proof (cases "x div 32 = i div 32")
  case True
  have "i div 32 < 8" using assms(2) by simp
  moreover have "x = i \<longleftrightarrow> x mod 32 = i mod 32" using True by (metis div_mult_mod_eq)
  moreover have "x mod 32 < 32" by simp
  ultimately show ?thesis
    using assms(1) True by (auto simp: xperm_test_def xperm_set_def bit_or_iff bit_exp_iff)
next
  case False
  then show ?thesis by (auto simp: xperm_test_def xperm_set_def)
qed

lemma length_xperm_set [simp]: "length (xperm_set i p) = length p"
  by (simp add: xperm_set_def)

lemma xperm_fill_fold:
  assumes "length p = 8" "\<forall>i\<in>set is. i < 256" "x < 256"
  shows "xperm_test x (fold xperm_set is p) \<longleftrightarrow> x \<in> set is \<or> xperm_test x p"
  using assms
proof (induction "is" arbitrary: p)
  case (Cons i "is")
  then show ?case using xperm_test_set [of p i x] by auto
qed simp

lemma xperm_fill_test:
  assumes "hi < 256" "x < 256"
  shows "xperm_test x (xperm_fill False lo hi (replicate 8 0)) \<longleftrightarrow> lo \<le> x \<and> x \<le> hi"
proof -
  have "\<not> xperm_test x (replicate 8 0)" using assms(2) by (simp add: xperm_test_def)
  moreover have "xperm_test x (fold xperm_set [lo ..< Suc hi] (replicate 8 0)) \<longleftrightarrow>
      x \<in> set [lo ..< Suc hi] \<or> xperm_test x (replicate 8 0)"
    by (rule xperm_fill_fold) (use assms in auto)
  ultimately show ?thesis by (auto simp: xperm_fill_def)
qed

section \<open>Ioctl numbers\<close>

lemma ioctl_bounds: "ioctl_driver n < 256" "ioctl_func n < 256"
proof -
  have "unat (w AND 0xFF :: u16) \<le> unat (0xFF :: u16)" for w
    by (metis word_and_le1 word_le_nat_alt)
  then have "unat (w AND 0xFF :: u16) < 256" for w
    by (rule order_le_less_trans) simp
  then show "ioctl_driver n < 256" "ioctl_func n < 256" by (simp_all add: ioctl_driver_def ioctl_func_def)
qed

text \<open>Which ioctl numbers a set of extended permissions stands for.\<close>

definition covers :: "extended_perms \<Rightarrow> u16 \<Rightarrow> bool" where
  "covers x n \<longleftrightarrow>
     (if xp_specified x = AVTAB_XPERMS_IOCTLFUNCTION
      then xp_driver x = of_nat (ioctl_driver n) \<and> xperm_test (ioctl_func n) (xp_p x)
      else xperm_test (ioctl_driver n) (xp_p x))"

lemma covers_range:
  "covers (range_xperms low high False) n \<longleftrightarrow>
     (if ioctl_driver low = ioctl_driver high
      then ioctl_driver n = ioctl_driver low \<and> ioctl_func low \<le> ioctl_func n \<and> ioctl_func n \<le> ioctl_func high
      else ioctl_driver low \<le> ioctl_driver n \<and> ioctl_driver n \<le> ioctl_driver high)"
proof -
  have "(of_nat (ioctl_driver low) :: u8) = of_nat (ioctl_driver n) \<longleftrightarrow> ioctl_driver n = ioctl_driver low"
  proof -
    have "unat (of_nat (ioctl_driver m) :: u8) = ioctl_driver m" for m
      using ioctl_bounds(1) [of m] by (simp add: unat_of_nat)
    then show ?thesis by metis
  qed
  moreover have "xperm_test (ioctl_func n) (xperm_fill False (ioctl_func low) (ioctl_func high) (replicate 8 0)) \<longleftrightarrow>
      ioctl_func low \<le> ioctl_func n \<and> ioctl_func n \<le> ioctl_func high"
    by (rule xperm_fill_test) (rule ioctl_bounds)+
  moreover have "xperm_test (ioctl_driver n) (xperm_fill False (ioctl_driver low) (ioctl_driver high) (replicate 8 0)) \<longleftrightarrow>
      ioctl_driver low \<le> ioctl_driver n \<and> ioctl_driver n \<le> ioctl_driver high"
    by (rule xperm_fill_test) (rule ioctl_bounds)+
  ultimately show ?thesis
    by (cases "ioctl_driver low = ioctl_driver high") (simp_all only: covers_def range_xperms_def Let_def if_True if_False
        extended_perms.simps not_False_eq_True, auto)
qed

text \<open>The permissions the table holds for a key, of one kind and driver: those of the first node.\<close>

definition xperm_lookup :: "avtab_node list \<Rightarrow> avtab_key \<Rightarrow> extended_perms \<Rightarrow> extended_perms option" where
  "xperm_lookup ns k x = (case first_from (xperm_match k x) 0 ns of None \<Rightarrow> None | Some i \<Rightarrow> an_xperms (ns ! i))"

lemma first_from_insert_at:
  assumes "p \<le> length xs" "P x" "\<forall>j<p. \<not> P (xs ! j)"
  shows "first_from P 0 (insert_at p x xs) = Some p"
  using assms
proof (induction xs arbitrary: p)
  case Nil
  then show ?case by (simp add: insert_at_def)
next
  case (Cons y xs)
  show ?case
  proof (cases p)
    case 0
    then show ?thesis using Cons.prems(2) by (simp add: insert_at_def)
  next
    case (Suc q)
    have "\<not> P y" using Cons.prems(3) Suc by auto
    moreover have "first_from P 0 (insert_at q x xs) = Some q"
      using Cons.prems Suc by (intro Cons.IH) auto
    ultimately show ?thesis using Suc by (simp add: insert_at_def)
  qed
qed

lemma xperm_match_self:
  "an_key n = k \<Longrightarrow> ak_spec k \<noteq> 0 \<Longrightarrow> an_xperms n = Some x \<Longrightarrow> xperm_match k x n"
  by (simp add: xperm_match_def av_match_def same_ids_def)

text \<open>
  C32: What a rule about ioctl numbers says, and when it says it. For a range that was read from
  the text the permissions built stand for exactly the numbers between its ends when both have
  the same driver byte, and otherwise for every number of every driver from the first to the last,
  also outside the range. The rule reports success and puts them in the table if the table has no
  permissions of that kind and driver for the key; if it has some, the rule reports success as
  well but the table is left as it was, so a second range of the same driver is never added.
\<close>

theorem ioctl_rule_meaning:
  assumes "ss_ok K" "mem_ok K" "effect \<in> set xperm_effects"
    and "map_of (pd_types db) s = Some src" "map_of (pd_types db) t = Some tgt" "map_of (pd_classes db) c = Some cls"
    and "scan_range K rng = (low, high)" "k = rule_key src tgt cls effect" "x = range_xperms low high False"
    and "add_xperm_rule K (Some s) (Some t) (Some c) rng effect False db = (ok, db1)"
  shows "ok \<and> same_frame db1 db \<and>
    (\<forall>n. covers x n \<longleftrightarrow>
       (if ioctl_driver low = ioctl_driver high
        then ioctl_driver n = ioctl_driver low \<and> ioctl_func low \<le> ioctl_func n \<and> ioctl_func n \<le> ioctl_func high
        else ioctl_driver low \<le> ioctl_driver n \<and> ioctl_driver n \<le> ioctl_driver high)) \<and>
    (if xperm_lookup (pd_avtab db) k x = None then xperm_lookup (pd_avtab db1) k x = Some x else db1 = db)"
proof -
  have e: "effect AND AVTAB_XPERMS \<noteq> 0" using xperm_effect_ext [OF assms(3)] by simp
  then have ext: "is_ext k" "ak_spec k \<noteq> 0" using assms(8) by (auto simp: is_ext_def)
  obtain found d where g: "get_avtab_node K k (Some x) db = (found, d)" by (cases "get_avtab_node K k (Some x) db")
  have "(ok, db1) = (True, add_xperm_at K low high effect False src tgt cls db)"
    using assms(4-7,10)
    by (simp add: add_xperm_rule_def symtab_opt_def add_xperm_rule_raw_def add_xperm_tgt_def add_xperm_cls_def)
  then have r: "ok" "db1 = d"
    using add_xperm_at_get [OF assms(1) e, of low high False src tgt cls db] g assms(8,9) by simp_all
  note gx = get_xperms [OF assms(1) ext(1) g]
  have some: "an_xperms (pd_avtab db ! i) \<noteq> None" if "first_from (xperm_match k x) 0 (pd_avtab db) = Some i" for i
    using first_from_Some [OF that] by (auto simp: xperm_match_def split: option.splits)
  show ?thesis
  proof (cases "first_from (xperm_match k x) 0 (pd_avtab db)")
    case None
    have "ss_place K (pd_avtab db) k \<noteq> None" using assms(2) unfolding mem_ok_def by blast
    then obtain p where p: "ss_place K (pd_avtab db) k = Some p" by blast
    define n where "n = \<lparr>an_key = k, an_data = 0, an_xperms = Some x\<rparr>"
    have d: "pd_avtab d = insert_at p n (pd_avtab db)" "same_frame d db"
      using gx None p by (simp_all add: n_def)
    have pl: "p \<le> length (pd_avtab db)" "\<forall>j<p. \<not> av_match k (pd_avtab db ! j)"
      using assms(1) p by (simp_all add: ss_ok_def)
    have "first_from (xperm_match k x) 0 (insert_at p n (pd_avtab db)) = Some p"
      by (rule first_from_insert_at [OF pl(1)]) (use pl(2) ext(2) in \<open>auto simp: xperm_match_self n_def xperm_match_def [of k x "pd_avtab db ! _"]\<close>)
    then have "xperm_lookup (pd_avtab d) k x = Some x"
      using d(1) pl(1) by (simp add: xperm_lookup_def n_def)
    then show ?thesis using r d(2) None covers_range [of low high] assms(9) by (simp add: xperm_lookup_def)
  next
    case (Some i)
    then have "d = db" using gx by simp
    then show ?thesis using r Some some [OF Some] covers_range [of low high] assms(9) by (simp add: xperm_lookup_def)
  qed
qed

theorem ioctl_rule_meaning_witness:
  "xperm_lookup (pd_avtab (snd (add_xperm_rule ex_lib (Some (lit ''app'')) (Some (lit ''data_file'')) (Some (lit ''file''))
      (Some (lit ''5401-5411'')) AVTAB_XPERMS_ALLOWED False ex_policy)))
     (rule_key (ex_type 2 False) (ex_type 4 False) (ex_class 1) AVTAB_XPERMS_ALLOWED)
     (range_xperms 0x5401 0x5411 False) = Some (range_xperms 0x5401 0x5411 False)"
proof -
  have m: "map_of (pd_types ex_policy) (lit ''app'') = Some (ex_type 2 False)"
    "map_of (pd_types ex_policy) (lit ''data_file'') = Some (ex_type 4 False)"
    "map_of (pd_classes ex_policy) (lit ''file'') = Some (ex_class 1)" by code_simp+
  have r: "scan_range ex_lib (Some (lit ''5401-5411'')) = (0x5401, 0x5411)"
    by (simp add: scan_range_def ex_lib_def lit_def hex_digit_def)
  have none: "xperm_lookup (pd_avtab ex_policy)
     (rule_key (ex_type 2 False) (ex_type 4 False) (ex_class 1) AVTAB_XPERMS_ALLOWED)
     (range_xperms 0x5401 0x5411 False) = None" by code_simp
  have mem: "mem_ok ex_lib" by (simp add: mem_ok_def ex_lib_def)
  show ?thesis
    using ioctl_rule_meaning [OF ex_lib_ok mem rule_effects_mem(4) m r refl refl surjective_pairing] none by simp
qed

section \<open>The key of a name transition\<close>

lemma strcmp_0: "strcmp a b = 0 \<longleftrightarrow> a = b" if "0 \<notin> set a" "0 \<notin> set b"
  using that
proof (induction a b rule: strcmp.induct)
  case (2 b bs)
  then show ?case by (simp add: uint_0_iff)
next
  case (3 a as)
  then show ?case by (simp add: uint_0_iff)
next
  case (4 a as b bs)
  then show ?case using word_uint_eq_iff [of a b] by auto
qed simp

text \<open>
  The comparison identifies the keys with the same target, class and name, and keys it identifies
  have the same hash, as the hash table needs.
\<close>

lemma filenametr_cmp_0:
  "filenametr_cmp k1 k2 = 0 \<longleftrightarrow>
     fk_ttype k1 = fk_ttype k2 \<and> fk_tclass k1 = fk_tclass k2 \<and> c_str (fk_name k1) = c_str (fk_name k2)"
proof -
  have "sint (fk_ttype k1 - fk_ttype k2) = 0 \<longleftrightarrow> fk_ttype k1 = fk_ttype k2"
    by (metis eq_iff_diff_eq_0 signed_0 signed_eq_0_iff)
  moreover have "uint (fk_tclass k1) - uint (fk_tclass k2) = 0 \<longleftrightarrow> fk_tclass k1 = fk_tclass k2"
    by (auto simp: word_uint_eq_iff)
  ultimately show ?thesis
    using strcmp_0 [OF c_str_no_nul c_str_no_nul, of "fk_name k1" "fk_name k2"]
    by (auto simp: filenametr_cmp_def Let_def)
qed

lemma filenametr_hash_cmp: "filenametr_cmp k1 k2 = 0 \<Longrightarrow> filenametr_hash pnh k1 = filenametr_hash pnh k2"
  by (simp add: filenametr_cmp_0 filenametr_hash_def)

section \<open>Name transitions\<close>

lemma walk_trans_cases:
  "case walk_trans b def i ds of
     Duplicate j \<Rightarrow> \<exists>n. j = i + n \<and> n < length ds \<and> b \<in> fd_stypes (ds ! n) \<and> (\<forall>m<n. b \<notin> fd_stypes (ds ! m))
   | Same_Type j \<Rightarrow> \<exists>n. j = i + n \<and> n < length ds \<and> fd_otype (ds ! n) = def \<and> (\<forall>m<n. b \<notin> fd_stypes (ds ! m))
   | Not_Found \<Rightarrow> \<forall>d\<in>set ds. b \<notin> fd_stypes d \<and> fd_otype d \<noteq> def"
proof (induction ds arbitrary: i)
  case (Cons d ds)
  show ?case
  proof (cases "b \<in> fd_stypes d \<or> fd_otype d = def")
    case True
    then show ?thesis by auto
  next
    case False
    note IH = Cons.IH [of "i + 1"]
    show ?thesis
    proof (cases "walk_trans b def (i + 1) ds")
      case (Duplicate j)
      then obtain n where "j = i + Suc n \<and> n < length ds \<and> b \<in> fd_stypes (ds ! n) \<and> (\<forall>m<n. b \<notin> fd_stypes (ds ! m))"
        using IH by auto
      then show ?thesis using False Duplicate
        by (auto simp: less_Suc_eq_0_disj intro!: exI [of _ "Suc n"])
    next
      case (Same_Type j)
      then obtain n where "j = i + Suc n \<and> n < length ds \<and> fd_otype (ds ! n) = def \<and> (\<forall>m<n. b \<notin> fd_stypes (ds ! m))"
        using IH by auto
      then show ?thesis using False Same_Type
        by (auto simp: less_Suc_eq_0_disj intro!: exI [of _ "Suc n"])
    next
      case Not_Found
      then show ?thesis using False IH by simp
    qed
  qed
qed simp

text \<open>The type the kernel gives a new object: that of the first datum with the source type.\<close>

definition trans_type :: "policydb \<Rightarrow> filename_trans_key \<Rightarrow> nat \<Rightarrow> u32 option" where
  "trans_type db k b = map_option fd_otype (List.find (\<lambda>d. b \<in> fd_stypes d) (trans_chain db k))"

lemma find_update:
  "n < length xs \<Longrightarrow> P y \<Longrightarrow> \<forall>m<n. \<not> P (xs ! m) \<Longrightarrow> List.find P (xs[n := y]) = Some y"
proof (induction xs arbitrary: n)
  case (Cons x xs)
  show ?case
  proof (cases n)
    case (Suc m)
    have "\<not> P x" using Cons.prems(3) Suc by auto
    moreover have "List.find P (xs[m := y]) = Some y" using Cons.prems Suc by (intro Cons.IH) auto
    ultimately show ?thesis using Suc by simp
  qed (use Cons.prems in simp)
qed simp

lemma trans_chain_set:
  "trans_chain (set_trans_chain k ds db) k' = (if k' = k then ds else trans_chain db k')"
  by (simp add: trans_chain_def set_trans_chain_def update_conv)

lemma trans_chain_count [simp]: "trans_chain (db\<lparr>pd_compat_count := n\<rparr>) k = trans_chain db k"
  by (simp add: trans_chain_def)

text \<open>
  What a name transition does. If the directory type, class and name have no transition yet,
  or the source type has one there already, or some transition there leads to the same type, the
  rule succeeds and from then on an object of that name created by the source type gets the type
  asked for. Otherwise, when the name has transitions but only to other types and for other source
  types, the rule fails and changes nothing. Other names, classes and directories keep their
  transitions.
\<close>

theorem name_transition_cases:
  assumes "mem_ok K" "\<forall>x\<in>set (pd_filename_trans db). snd x \<noteq> []"
    and "map_of (pd_types db) s = Some src" "map_of (pd_types db) t = Some tgt"
    and "map_of (pd_classes db) c = Some cls" "map_of (pd_types db) d = Some def"
    and "k = \<lparr>fk_ttype = ty_value tgt, fk_tclass = ucast (cl_value cls), fk_name = obj\<rparr>"
    and "b = unat (ty_value src - 1)"
    and "add_filename_trans K s t c d obj db = (ok, db1)"
  shows "(if trans_chain db k = [] \<or> trans_type db k b \<noteq> None \<or> (\<exists>e\<in>set (trans_chain db k). fd_otype e = ty_value def)
          then ok \<and> trans_type db1 k b = Some (ty_value def)
          else \<not> ok \<and> db1 = db) \<and>
         (\<forall>k'. k' \<noteq> k \<longrightarrow> trans_chain db1 k' = trans_chain db k')"
proof -
  let ?ds = "trans_chain db k"
  have mem: "ss_mem K a x" for a x using assms(1) by (simp add: mem_ok_def)
  note r = assms(9) [unfolded add_filename_trans_def assms(3-6) option.case assms(7,8) [symmetric] Let_def]
  note w = walk_trans_cases [where b = b and def = "ty_value def" and i = 0 and ds = ?ds]
  show ?thesis
  proof (cases "walk_trans b (ty_value def) 0 ?ds")
    case (Duplicate i)
    then have i: "i < length ?ds" "b \<in> fd_stypes (?ds ! i)" "\<forall>m<i. b \<notin> fd_stypes (?ds ! m)" using w by auto
    then have "trans_type db k b \<noteq> None"
      unfolding trans_type_def using nth_mem [OF i(1)] by (simp add: find_None_iff del: nth_mem) blast
    moreover have "ok" "db1 = set_trans_chain k (?ds[i := (?ds ! i)\<lparr>fd_otype := ty_value def\<rparr>]) db"
      using r Duplicate by simp_all
    ultimately show ?thesis using i
      by (simp add: trans_type_def trans_chain_set find_update)
  next
    case (Same_Type i)
    then have i: "i < length ?ds" "fd_otype (?ds ! i) = ty_value def" "\<forall>m<i. b \<notin> fd_stypes (?ds ! m)" using w by auto
    have "\<exists>e\<in>set ?ds. fd_otype e = ty_value def" using i(2) nth_mem [OF i(1)] by blast
    moreover have "ok" "db1 = (set_trans_chain k (?ds[i := (?ds ! i)\<lparr>fd_stypes := insert b (fd_stypes (?ds ! i))\<rparr>]) db)
        \<lparr>pd_compat_count := pd_compat_count db + 1\<rparr>"
      using r Same_Type assms(1) by simp_all
    ultimately show ?thesis using i
      by (simp add: trans_type_def trans_chain_set find_update)
  next
    case Not_Found
    then have nf: "\<forall>e\<in>set ?ds. b \<notin> fd_stypes e \<and> fd_otype e \<noteq> ty_value def" using w by simp
    then have none: "trans_type db k b = None" by (auto simp: trans_type_def find_None_iff)
    show ?thesis
    proof (cases "?ds = []")
      case True
      have "k \<notin> fst ` set (pd_filename_trans db)"
        using True assms(2) by (auto simp: trans_chain_def map_of_eq_None_iff dest!: map_of_SomeD split: option.splits)
      then have "ok" "db1 = (set_trans_chain k [\<lparr>fd_stypes = {b}, fd_otype = ty_value def\<rparr>] db)
          \<lparr>pd_compat_count := pd_compat_count db + 1\<rparr>"
        using r Not_Found mem assms(1) True by (simp_all add: image_iff)
      then show ?thesis using True by (simp add: trans_type_def trans_chain_set)
    next
      case False
      then have "k \<in> fst ` set (pd_filename_trans db)"
        by (force simp: trans_chain_def image_iff dest!: map_of_SomeD split: option.splits)
      then have "\<not> ok" "db1 = db" using r Not_Found by (auto split: if_splits)
      then show ?thesis using False none nf by simp
    qed
  qed
qed

theorem name_transition_cases_witness:
  "trans_type (snd (add_filename_trans ex_lib (lit ''app'') (lit ''data_file'') (lit ''dir'') (lit ''init'') (lit ''x'') ex_policy))
     \<lparr>fk_ttype = 4, fk_tclass = 2, fk_name = lit ''x''\<rparr> 1 = Some 3"
proof -
  have m: "map_of (pd_types ex_policy) (lit ''app'') = Some (ex_type 2 False)"
    "map_of (pd_types ex_policy) (lit ''data_file'') = Some (ex_type 4 False)"
    "map_of (pd_classes ex_policy) (lit ''dir'') = Some (ex_class 2)"
    "map_of (pd_types ex_policy) (lit ''init'') = Some (ex_type 3 False)" by code_simp+
  have mem: "mem_ok ex_lib" by (simp add: mem_ok_def ex_lib_def)
  have chains: "\<forall>x\<in>set (pd_filename_trans ex_policy). snd x \<noteq> []" by (simp add: ex_policy_def)
  have "trans_chain ex_policy k = []" for k by (simp add: trans_chain_def ex_policy_def)
  then show ?thesis
    using name_transition_cases [OF mem chains m refl refl surjective_pairing, of "lit ''x''"]
    by (simp add: ex_type_def ex_class_def)
qed

end
