(* ===== verification/File_Wrapper.thy ===== *)
theory File_Wrapper
  imports Ksu_Prelude
begin

text \<open>
  File descriptors that hide where they come from (\<^verbatim>\<open>kernel/infra/file_wrapper.c\<close>): a wrapper file
  is an anonymous file with the security id of the module whose methods forward to the original
  file. Files are objects of a store with their reference counts; dropping the last reference
  queues the file for its release method, as the kernel does. The methods of ordinary files are
  a parameter.
\<close>

section \<open>Files\<close>

datatype file_method =
    M_llseek | M_read | M_write | M_read_iter | M_write_iter | M_iopoll | M_iterate | M_iterate_shared
  | M_poll | M_unlocked_ioctl | M_compat_ioctl | M_mmap | M_flush | M_release | M_fsync | M_fasync | M_lock
  | M_sendpage | M_get_unmapped_area | M_check_flags | M_flock | M_splice_write | M_splice_read
  | M_splice_eof | M_setlease | M_fallocate | M_show_fdinfo | M_copy_file_range | M_remap_file_range
  | M_fadvise

type_synonym fid = nat

text \<open>
  Who implements a method: the file's own driver, the forwarding function of the wrapper, or its
  release function. \<open>kf_wrapper\<close> is the original a wrapper structure in \<open>private_data\<close> points to;
  \<open>kf_spoof\<close> the path stored in the dentry, which is kept with the file that made it.
\<close>

datatype file_impl = Native | Forward | Wrapper_Release

record kfile =
  kf_refs :: nat
  kf_flags :: u32
  kf_mode :: u32
  kf_sid :: u32
  kf_path :: bytes
  kf_ops :: "file_method \<Rightarrow> file_impl option"
  kf_wrapper :: "fid option"
  kf_spoof :: "bytes option"

text \<open>
  Files by address, the descriptors of the task, the files waiting for their release, the live
  wrapper structures, and the references held on paths for spoofing.
\<close>

record file_state =
  fs_files :: "fid \<Rightarrow> kfile option"
  fs_fds :: "nat \<Rightarrow> fid option"
  fs_pending :: "fid list"
  fs_wrappers :: nat
  fs_path_refs :: "bytes \<Rightarrow> nat"

definition set_file :: "fid \<Rightarrow> kfile \<Rightarrow> file_state \<Rightarrow> file_state" where
  "set_file f k s = s\<lparr>fs_files := (fs_files s)(f \<mapsto> k)\<rparr>"

definition get_file :: "fid \<Rightarrow> file_state \<Rightarrow> file_state" where
  "get_file f s =
     (case fs_files s f of None \<Rightarrow> s | Some k \<Rightarrow> set_file f (k\<lparr>kf_refs := kf_refs k + 1\<rparr>) s)"

definition fput :: "fid \<Rightarrow> file_state \<Rightarrow> file_state" where
  "fput f s =
     (case fs_files s f of
        None \<Rightarrow> s
      | Some k \<Rightarrow>
          let s1 = set_file f (k\<lparr>kf_refs := kf_refs k - 1\<rparr>) s
          in if kf_refs k = 1 then s1\<lparr>fs_pending := fs_pending s @ [f]\<rparr> else s1)"

section \<open>The methods of a wrapper\<close>

text \<open>Whether the kernel has the method: \<open>iterate\<close> and \<open>sendpage\<close> left in 6.6, \<open>splice_eof\<close> came.\<close>

definition known_method :: "bool \<Rightarrow> file_method \<Rightarrow> bool" where
  "known_method since_6_6 m \<longleftrightarrow>
     (if m \<in> {M_iterate, M_sendpage} then \<not> since_6_6 else m = M_splice_eof \<longrightarrow> since_6_6)"

text \<open>
  The table built by \<open>ksu_create_file_wrapper\<close>. \<open>check_flags\<close> is copied, it gets no file.
\<close>

definition wrapper_ops :: "bool \<Rightarrow> (file_method \<Rightarrow> file_impl option) \<Rightarrow> file_method \<Rightarrow> file_impl option" where
  "wrapper_ops since_6_6 ops m =
     (if m = M_release then Some Wrapper_Release
      else if m = M_check_flags then ops m
      else if known_method since_6_6 m \<and> ops m \<noteq> None then Some Forward
      else None)"

text \<open>
  A call of a method: the file or I/O control block it is made on, the other file of a copy, the
  remap flag, the remaining arguments. In a copy the method is that of the file written to.
\<close>

record file_call =
  fc_file :: fid
  fc_other :: fid
  fc_dedup :: bool
  fc_args :: "u64 list"

text \<open>Which of the two files of a call is the wrapper whose original is taken.\<close>

definition target_is_other :: "file_method \<Rightarrow> file_call \<Rightarrow> bool" where
  "target_is_other m c \<longleftrightarrow> m = M_copy_file_range \<or> (m = M_remap_file_range \<and> fc_dedup c)"

definition call_target :: "file_method \<Rightarrow> file_call \<Rightarrow> fid" where
  "call_target m c = (if target_is_other m c then fc_other c else fc_file c)"

definition redirect :: "file_method \<Rightarrow> fid \<Rightarrow> file_call \<Rightarrow> file_call" where
  "redirect m orig c = (if target_is_other m c then c\<lparr>fc_other := orig\<rparr> else c\<lparr>fc_file := orig\<rparr>)"

text \<open>The forwarding functions that look for the method first and answer \<open>-EINVAL\<close> without it.\<close>

definition guarded :: "file_method set" where
  "guarded = {M_sendpage, M_get_unmapped_area, M_flock, M_splice_write, M_splice_read, M_setlease,
     M_fallocate, M_fadvise}"

text \<open>
  Calling a method: the result of the driver's method, which the parameter \<open>native\<close> gives with the
  new state, or of the forwarding function. The release function answers 0, its effect is that of
  \<open>run_release\<close> below. \<open>None\<close> is a call through a null pointer. \<open>fuel\<close>
  bounds the wrappers of wrappers.
\<close>

type_synonym native_methods = "fid \<Rightarrow> file_method \<Rightarrow> file_call \<Rightarrow> file_state \<Rightarrow> int \<times> file_state"

fun call_method ::
    "native_methods \<Rightarrow> nat \<Rightarrow> fid \<Rightarrow> file_method \<Rightarrow> file_call \<Rightarrow> file_state \<Rightarrow> (int \<times> file_state) option" where
  "call_method native fuel f m c s =
     (case Option.bind (fs_files s f) (\<lambda>k. kf_ops k m) of
        None \<Rightarrow> None
      | Some Native \<Rightarrow> Some (native f m c s)
      | Some Wrapper_Release \<Rightarrow> Some (0, s)
      | Some Forward \<Rightarrow>
          (case fuel of
             0 \<Rightarrow> None
           | Suc n \<Rightarrow>
               (case Option.bind (fs_files s (call_target m c)) kf_wrapper of
                  None \<Rightarrow> None
                | Some orig \<Rightarrow>
                    if m \<in> guarded \<and> Option.bind (fs_files s orig) (\<lambda>k. kf_ops k m) = None
                    then Some (neg_errno EINVAL, s)
                    else if m \<in> {M_show_fdinfo, M_splice_eof} \<and>
                        Option.bind (fs_files s orig) (\<lambda>k. kf_ops k m) = None
                    then Some (0, s)
                    else call_method native n orig m (redirect m orig c) s)))"

declare call_method.simps [simp del]

section \<open>Making and dropping wrappers\<close>

text \<open>\<open>ksu_create_file_wrapper\<close>: the structure holds a reference on the original.\<close>

definition ksu_create_file_wrapper :: "bool \<Rightarrow> fid \<Rightarrow> file_state \<Rightarrow> (errno + unit) \<times> file_state" where
  "ksu_create_file_wrapper alloc fp s =
     (if \<not> alloc then (Inl ENOMEM, s)
      else (Inr (), (get_file fp s)\<lparr>fs_wrappers := fs_wrappers s + 1\<rparr>))"

definition ksu_release_file_wrapper :: "fid \<Rightarrow> file_state \<Rightarrow> file_state" where
  "ksu_release_file_wrapper orig s = (fput orig s)\<lparr>fs_wrappers := fs_wrappers s - 1\<rparr>"

text \<open>
  The release of the first waiting file: a wrapper gives its structure back, the dentry gives the
  path back, the file is freed.
\<close>

definition ksu_wrapper_release :: "kfile \<Rightarrow> file_state \<Rightarrow> file_state" where
  "ksu_wrapper_release k s =
     (case kf_wrapper k of None \<Rightarrow> s | Some orig \<Rightarrow> ksu_release_file_wrapper orig s)"

definition ksu_wrapper_d_release :: "kfile \<Rightarrow> file_state \<Rightarrow> file_state" where
  "ksu_wrapper_d_release k s =
     (case kf_spoof k of
        None \<Rightarrow> s
      | Some p \<Rightarrow> s\<lparr>fs_path_refs := (fs_path_refs s)(p := fs_path_refs s p - 1)\<rparr>)"

definition run_release :: "file_state \<Rightarrow> file_state" where
  "run_release s =
     (case fs_pending s of
        [] \<Rightarrow> s
      | f # fs \<Rightarrow>
          (case fs_files s f of
             None \<Rightarrow> s\<lparr>fs_pending := fs\<rparr>
           | Some k \<Rightarrow>
               let s1 = s\<lparr>fs_pending := fs\<rparr>;
                   s2 = (if kf_ops k M_release = Some Wrapper_Release then ksu_wrapper_release k s1 else s1);
                   s3 = ksu_wrapper_d_release k s2
               in s3\<lparr>fs_files := (fs_files s3)(f := None)\<rparr>))"

text \<open>\<open>d_dname\<close>: the path a wrapper shows is that of the original.\<close>

definition ksu_wrapper_d_dname :: "kfile \<Rightarrow> bytes" where
  "ksu_wrapper_d_dname k = (case kf_spoof k of None \<Rightarrow> kf_path k | Some p \<Rightarrow> p)"

definition close_fd :: "nat \<Rightarrow> file_state \<Rightarrow> file_state" where
  "close_fd fd s =
     (case fs_fds s fd of None \<Rightarrow> s | Some f \<Rightarrow> fput f (s\<lparr>fs_fds := (fs_fds s)(fd := None)\<rparr>))"

text \<open>
  The outcomes a call depends on: a free descriptor, the allocations, the anonymous file (its
  address), the version of the kernel, the id of the module's file domain. Of the flags of the
  original an anonymous file takes \<open>O_ACCMODE | O_NONBLOCK\<close>.
\<close>

record wrap_env =
  we_unused_fd :: "errno + nat"
  we_wrapper_alloc :: bool
  we_getfile :: "errno + fid"
  we_path_alloc :: bool
  we_since_6_6 :: bool
  we_has_security :: bool
  we_ksu_file_sid :: u32

text \<open>The file built for an original \<open>f\<close> with the object \<open>k\<close>, before it has a path.\<close>

definition wrapper_file :: "wrap_env \<Rightarrow> fid \<Rightarrow> kfile \<Rightarrow> kfile" where
  "wrapper_file W f k =
     \<lparr>kf_refs = 1, kf_flags = kf_flags k AND 0x803, kf_mode = kf_mode k,
      kf_sid = (if we_has_security W then we_ksu_file_sid W else 0),
      kf_path = lit ''[ksu_fdwrapper]'', kf_ops = wrapper_ops (we_since_6_6 W) (kf_ops k),
      kf_wrapper = Some f, kf_spoof = None\<rparr>"

definition ksu_install_file_wrapper :: "wrap_env \<Rightarrow> nat \<Rightarrow> file_state \<Rightarrow> int \<times> file_state" where
  "ksu_install_file_wrapper W fd s =
     (case Option.bind (fs_fds s fd) (\<lambda>f. map_option (Pair f) (fs_files s f)) of
        None \<Rightarrow> (neg_errno EBADF, s)
      | Some (orig, k) \<Rightarrow>
          let s1 = get_file orig s in
          case we_unused_fd W of
            Inl e \<Rightarrow> (neg_errno e, fput orig s1)
          | Inr out_fd \<Rightarrow>
              (case ksu_create_file_wrapper (we_wrapper_alloc W) orig s1 of
                 (Inl e, s2) \<Rightarrow> (neg_errno e, fput orig s2)
               | (Inr _, s2) \<Rightarrow>
                   (case we_getfile W of
                      Inl e \<Rightarrow> (neg_errno e, fput orig (ksu_release_file_wrapper orig s2))
                    | Inr w \<Rightarrow>
                        let wf = wrapper_file W orig k;
                            s3 = set_file w wf s2
                        in if \<not> we_path_alloc W then (neg_errno ENOMEM, fput orig (fput w s3))
                           else
                             let s4 = set_file w (wf\<lparr>kf_spoof := Some (kf_path k)\<rparr>) s3;
                                 s5 = s4\<lparr>fs_path_refs := (fs_path_refs s4)(kf_path k := fs_path_refs s4 (kf_path k) + 1),
                                         fs_fds := (fs_fds s4)(out_fd \<mapsto> w)\<rparr>
                             in (int out_fd, fput orig s5))))"

text \<open>
  Opening the wrapper's inode again (by \<^verbatim>\<open>/proc/self/fd\<close>): \<open>fp\<close> is the file being opened, the
  original is opened a second time as \<open>o2\<close> with the methods of its driver. The reference
  \<open>dentry_open\<close> gave is not put back when the wrapper has taken its own.
\<close>

definition ksu_wrapper_open ::
    "wrap_env \<Rightarrow> (errno + fid \<times> kfile) \<Rightarrow> fid \<Rightarrow> file_state \<Rightarrow> int \<times> file_state" where
  "ksu_wrapper_open W opened fp s =
     (case opened of
        Inl e \<Rightarrow> (neg_errno e, s)
      | Inr (o2, k2) \<Rightarrow>
          let s1 = set_file o2 (k2\<lparr>kf_refs := 1\<rparr>) s in
          case ksu_create_file_wrapper (we_wrapper_alloc W) o2 s1 of
            (Inl e, s2) \<Rightarrow> (neg_errno e, fput o2 s2)
          | (Inr _, s2) \<Rightarrow>
              (case fs_files s2 fp of
                 None \<Rightarrow> (0, s2)
               | Some k \<Rightarrow>
                   (0, set_file fp (k\<lparr>kf_ops := wrapper_ops (we_since_6_6 W) (kf_ops k2), kf_wrapper := Some o2\<rparr>) s2)))"

end
