(* ===== verification/File_Refs.thy ===== *)
theory File_Refs
  imports File_Wrapper "HOL-Library.Multiset"
begin

text \<open>
  The reference counts of wrapped files. \<open>balanced H n s\<close> says that every reference is accounted
  for: by a descriptor, by a wrapper, or by the running code, which holds the references \<open>H\<close> and \<open>n\<close>
  wrapper structures that no file has yet. Each step of the code moves the references it says it
  moves, so the operations as a whole leave none behind.
\<close>

section \<open>Counting the entries of a table\<close>

definition npts :: "('k \<Rightarrow> 'v option) \<Rightarrow> ('v \<Rightarrow> bool) \<Rightarrow> nat" where
  "npts m P = card {x. \<exists>v. m x = Some v \<and> P v}"

lemma npts_finite: "finite (dom m) \<Longrightarrow> finite {x. \<exists>v. m x = Some v \<and> P v}"
  by (erule rev_finite_subset) auto

lemma npts_Some:
  assumes "finite (dom m)" "m x = None"
  shows "npts (m(x \<mapsto> v)) P = npts m P + of_bool (P v)"
proof -
  have "{y. \<exists>u. (m(x \<mapsto> v)) y = Some u \<and> P u} =
      (if P v then insert x {y. \<exists>u. m y = Some u \<and> P u} else {y. \<exists>u. m y = Some u \<and> P u})"
    using assms(2) by auto
  then show ?thesis
    using assms npts_finite [OF assms(1), of P] by (simp add: npts_def)
qed

lemma npts_None:
  assumes "finite (dom m)" "m x = Some v"
  shows "npts m P = npts (m(x := None)) P + of_bool (P v)"
proof -
  have "m = (m(x := None))(x \<mapsto> v)" using assms(2) by auto
  then show ?thesis using npts_Some [of "m(x := None)" x v P] assms by simp
qed

lemma npts_same:
  assumes "m x = Some u" "P u \<longleftrightarrow> P v"
  shows "npts (m(x \<mapsto> v)) P = npts m P"
proof -
  have "{y. \<exists>w. (m(x \<mapsto> v)) y = Some w \<and> P w} = {y. \<exists>w. m y = Some w \<and> P w}"
    using assms by auto
  then show ?thesis by (simp add: npts_def)
qed

lemma npts_pos: "finite (dom m) \<Longrightarrow> m x = Some v \<Longrightarrow> P v \<Longrightarrow> 0 < npts m P"
  unfolding npts_def by (subst card_gt_0_iff) (auto intro: npts_finite)

lemma npts_0: "npts m P = 0 \<Longrightarrow> finite (dom m) \<Longrightarrow> m x = Some v \<Longrightarrow> \<not> P v"
  using npts_pos by fastforce

section \<open>The balance\<close>

text \<open>The references to a file that descriptors and wrappers hold.\<close>

definition pointers :: "file_state \<Rightarrow> fid \<Rightarrow> nat" where
  "pointers s f = npts (fs_fds s) ((=) f) + npts (fs_files s) (\<lambda>k. kf_wrapper k = Some f)"

definition balanced :: "fid multiset \<Rightarrow> nat \<Rightarrow> file_state \<Rightarrow> bool" where
  "balanced H n s \<longleftrightarrow>
     finite (dom (fs_files s)) \<and> finite (dom (fs_fds s)) \<and>
     (\<forall>f k. fs_files s f = Some k \<longrightarrow>
        kf_refs k = pointers s f + count H f \<and> (f \<in> set (fs_pending s) \<longleftrightarrow> kf_refs k = 0) \<and>
        (kf_ops k M_release = Some Wrapper_Release \<longleftrightarrow> kf_wrapper k \<noteq> None)) \<and>
     (\<forall>f. fs_files s f = None \<longrightarrow> pointers s f = 0 \<and> count H f = 0 \<and> f \<notin> set (fs_pending s)) \<and>
     distinct (fs_pending s) \<and>
     fs_wrappers s = npts (fs_files s) (\<lambda>k. kf_wrapper k \<noteq> None) + n \<and>
     (\<forall>p. fs_path_refs s p = npts (fs_files s) (\<lambda>k. kf_spoof k = Some p))"

lemma balancedD:
  assumes "balanced H n s"
  shows "finite (dom (fs_files s))" "finite (dom (fs_fds s))" "distinct (fs_pending s)"
    "fs_wrappers s = npts (fs_files s) (\<lambda>k. kf_wrapper k \<noteq> None) + n"
    "fs_path_refs s p = npts (fs_files s) (\<lambda>k. kf_spoof k = Some p)"
    "fs_files s f = Some k \<Longrightarrow> kf_refs k = pointers s f + count H f"
    "fs_files s f = Some k \<Longrightarrow> f \<in> set (fs_pending s) \<longleftrightarrow> kf_refs k = 0"
    "fs_files s f = Some k \<Longrightarrow> kf_ops k M_release = Some Wrapper_Release \<longleftrightarrow> kf_wrapper k \<noteq> None"
    "fs_files s f = None \<Longrightarrow> pointers s f = 0 \<and> count H f = 0 \<and> f \<notin> set (fs_pending s)"
  using assms unfolding balanced_def by blast+

lemma balancedI:
  assumes "finite (dom (fs_files s))" "finite (dom (fs_fds s))"
    and "\<And>f k. fs_files s f = Some k \<Longrightarrow> kf_refs k = pointers s f + count H f"
    and "\<And>f k. fs_files s f = Some k \<Longrightarrow> f \<in> set (fs_pending s) \<longleftrightarrow> kf_refs k = 0"
    and "\<And>f k. fs_files s f = Some k \<Longrightarrow> kf_ops k M_release = Some Wrapper_Release \<longleftrightarrow> kf_wrapper k \<noteq> None"
    and "\<And>f. fs_files s f = None \<Longrightarrow> pointers s f = 0 \<and> count H f = 0 \<and> f \<notin> set (fs_pending s)"
    and "distinct (fs_pending s)"
    and "fs_wrappers s = npts (fs_files s) (\<lambda>k. kf_wrapper k \<noteq> None) + n"
    and "\<And>p. fs_path_refs s p = npts (fs_files s) (\<lambda>k. kf_spoof k = Some p)"
  shows "balanced H n s"
  using assms unfolding balanced_def by blast

text \<open>Changing only the count of a file changes no pointer.\<close>

lemma pointers_refs [simp]:
  assumes "fs_files s f = Some k"
  shows "pointers (set_file f (k\<lparr>kf_refs := r\<rparr>) s) g = pointers s g"
  using assms by (simp add: pointers_def set_file_def npts_same)

lemma pointers_more [simp]:
  "pointers (s\<lparr>fs_pending := ps\<rparr>) g = pointers s g"
  "pointers (s\<lparr>fs_wrappers := w\<rparr>) g = pointers s g"
  "pointers (s\<lparr>fs_path_refs := pr\<rparr>) g = pointers s g"
  by (simp_all add: pointers_def)

lemma set_file_sel [simp]:
  "fs_files (set_file f k s) = (fs_files s)(f \<mapsto> k)" "fs_fds (set_file f k s) = fs_fds s"
  "fs_pending (set_file f k s) = fs_pending s" "fs_wrappers (set_file f k s) = fs_wrappers s"
  "fs_path_refs (set_file f k s) = fs_path_refs s"
  by (simp_all add: set_file_def)

lemma held_file:
  assumes "balanced H n s" "f \<in># H"
  obtains k where "fs_files s f = Some k" "0 < kf_refs k" "f \<notin> set (fs_pending s)"
proof -
  have c: "0 < count H f" using assms(2) by simp
  with assms balancedD(9) [of H n s f] obtain k where k: "fs_files s f = Some k"
    by (cases "fs_files s f") auto
  moreover have "0 < kf_refs k" using balancedD(6) [OF assms(1) k] c by linarith
  ultimately show thesis using that balancedD(7) [OF assms(1) k] by simp
qed

text \<open>What a step that only changes the count of one file, and the queue, has to show.\<close>

lemma balanced_refs_upd:
  assumes b: "balanced H n s" and k: "fs_files s f = Some k"
    and r: "r = pointers s f + count H' f" and other: "\<And>g. g \<noteq> f \<Longrightarrow> count H' g = count H g"
    and q: "set ps - {f} = set (fs_pending s) - {f}" "f \<in> set ps \<longleftrightarrow> r = 0" "distinct ps"
  shows "balanced H' n ((set_file f (k\<lparr>kf_refs := r\<rparr>) s)\<lparr>fs_pending := ps\<rparr>)"
proof -
  have q': "g \<in> set ps \<longleftrightarrow> g \<in> set (fs_pending s)" if "g \<noteq> f" for g using q(1) that by blast
  note d = balancedD [OF b]
  show ?thesis
  proof (rule balancedI, goal_cases)
    case (3 g k') then show ?case using d(6) [of g] r other [of g] k by (auto split: if_splits)
  next
    case (4 g k') then show ?case using d(7) [of g] q(2) q' [of g] by (auto split: if_splits)
  next
    case (5 g k') then show ?case using d(8) [of g] d(8) [OF k] by (auto split: if_splits)
  next
    case (6 g) then show ?case using d(9) [of g] other [of g] k q' [of g] by (auto split: if_splits)
  qed (use d k q(3) in \<open>auto simp: npts_same\<close>)
qed

lemma balanced_get_file:
  assumes b: "balanced H n s" and k: "fs_files s f = Some k" and pos: "0 < kf_refs k"
  shows "balanced (add_mset f H) n (get_file f s)"
proof -
  have "balanced (add_mset f H) n
      ((set_file f (k\<lparr>kf_refs := kf_refs k + 1\<rparr>) s)\<lparr>fs_pending := fs_pending s\<rparr>)"
    using balancedD(3) [OF b] balancedD(6) [OF b k] balancedD(7) [OF b k] k pos by (intro balanced_refs_upd [OF b]) auto
  then show ?thesis using k by (simp add: get_file_def set_file_def)
qed

lemma balanced_fput:
  assumes b: "balanced (add_mset f H) n s"
  shows "balanced H n (fput f s)"
proof -
  obtain k where k: "fs_files s f = Some k" "0 < kf_refs k" "f \<notin> set (fs_pending s)"
    using held_file [OF b, of f] by auto
  have "balanced H n ((set_file f (k\<lparr>kf_refs := kf_refs k - 1\<rparr>) s)
      \<lparr>fs_pending := (if kf_refs k = 1 then fs_pending s @ [f] else fs_pending s)\<rparr>)"
    using balancedD(3) [OF b] balancedD(6) [OF b k(1)] k by (intro balanced_refs_upd [OF b]) auto
  then show ?thesis using k(1) by (simp add: fput_def Let_def set_file_def split: if_splits)
qed

text \<open>Handing a held reference to a descriptor, and taking it back.\<close>

lemma balanced_install:
  assumes b: "balanced (add_mset f H) n s" and d: "fs_fds s fd = None"
  shows "balanced H n (s\<lparr>fs_fds := (fs_fds s)(fd \<mapsto> f)\<rparr>)"
proof -
  note B = balancedD [OF b]
  have p: "pointers (s\<lparr>fs_fds := (fs_fds s)(fd \<mapsto> f)\<rparr>) g = pointers s g + of_bool (g = f)" for g
    using npts_Some [OF B(2) d, of f "(=) g"] by (simp add: pointers_def)
  show ?thesis
  proof (rule balancedI, goal_cases)
    case (3 g k) then show ?case using B(6) [of g k] by (auto simp: p)
  next
    case (4 g k) then show ?case using B(7) [of g k] by auto
  next
    case (5 g k) then show ?case using B(8) [of g k] by auto
  next
    case (6 g) then show ?case using B(9) [of g] by (auto simp: p split: if_splits)
  qed (use B in auto)
qed

lemma balanced_close:
  assumes b: "balanced H n s" and d: "fs_fds s fd = Some f"
  shows "balanced (add_mset f H) n (s\<lparr>fs_fds := (fs_fds s)(fd := None)\<rparr>)"
proof -
  note B = balancedD [OF b]
  have p: "pointers s g = pointers (s\<lparr>fs_fds := (fs_fds s)(fd := None)\<rparr>) g + of_bool (g = f)" for g
    using npts_None [OF B(2) d, of "(=) g"] by (simp add: pointers_def)
  show ?thesis
  proof (rule balancedI, goal_cases)
    case (3 g k) then show ?case using B(6) [of g k] by (auto simp: p)
  next
    case (4 g k) then show ?case using B(7) [of g k] by auto
  next
    case (5 g k) then show ?case using B(8) [of g k] by auto
  next
    case (6 g) then show ?case using B(9) [of g] p [of g] by (auto split: if_splits)
  qed (use B in auto)
qed

section \<open>Wrapper structures\<close>

lemma balanced_wrappers_inc: "balanced H n s \<Longrightarrow> balanced H (Suc n) (s\<lparr>fs_wrappers := fs_wrappers s + 1\<rparr>)"
  by (simp add: balanced_def)

lemma balanced_wrappers_dec: "balanced H (Suc n) s \<Longrightarrow> balanced H n (s\<lparr>fs_wrappers := fs_wrappers s - 1\<rparr>)"
  by (simp add: balanced_def)

lemma get_file_wrappers [simp]: "fs_wrappers (get_file f s) = fs_wrappers s"
  by (simp add: get_file_def split: option.split)

lemma fput_wrappers [simp]: "fs_wrappers (fput f s) = fs_wrappers s"
  by (simp add: fput_def Let_def split: option.split)

lemma balanced_create:
  assumes "balanced (add_mset f H) n s" "alloc"
  shows "balanced (add_mset f (add_mset f H)) (Suc n) (snd (ksu_create_file_wrapper alloc f s))"
proof -
  obtain k where k: "fs_files s f = Some k" "0 < kf_refs k"
    using held_file [OF assms(1), of f] by auto
  show ?thesis
    using balanced_wrappers_inc [OF balanced_get_file [OF assms(1) k]] assms(2)
    by (simp add: ksu_create_file_wrapper_def)
qed

lemma balanced_release_wrapper:
  assumes "balanced (add_mset f H) (Suc n) s"
  shows "balanced H n (ksu_release_file_wrapper f s)"
  using balanced_wrappers_dec [OF balanced_fput [OF assms]] by (simp add: ksu_release_file_wrapper_def)

text \<open>The new file takes over the structure and its reference.\<close>

lemma balanced_new_wrapper:
  assumes b: "balanced (add_mset f H) (Suc n) s" and w: "fs_files s w = None"
    and k: "kf_refs k = 1" "kf_wrapper k = Some f" "kf_ops k M_release = Some Wrapper_Release"
      "kf_spoof k = None"
  shows "balanced (add_mset w H) n (set_file w k s)"
proof -
  note B = balancedD [OF b]
  have p: "pointers (set_file w k s) g = pointers s g + of_bool (g = f)" for g
    using npts_Some [OF B(1) w, of k "\<lambda>k. kf_wrapper k = Some g"] k(2) by (auto simp: pointers_def)
  have fw: "f \<noteq> w" and w0: "pointers s w = 0" "count H w = 0" "w \<notin> set (fs_pending s)"
    using B(9) [OF w] by (auto split: if_splits)
  show ?thesis
  proof (rule balancedI, goal_cases)
    case (3 g k') then show ?case using B(6) [of g k'] k fw w0 by (auto simp: p split: if_splits)
  next
    case (4 g k') then show ?case using B(7) [of g k'] k w0 by (auto split: if_splits)
  next
    case (5 g k') then show ?case using B(8) [of g k'] k by (auto split: if_splits)
  next
    case (6 g) then show ?case using B(9) [of g] fw by (auto simp: p split: if_splits)
  next
    case 8 show ?case using npts_Some [OF B(1) w, of k] B(4) k by simp
  next
    case (9 q) show ?case using npts_Some [OF B(1) w, of k] B(5) [of q] k by simp
  qed (use B in auto)
qed

text \<open>Recording the path to show takes a reference on it.\<close>

lemma balanced_spoof:
  assumes b: "balanced H n s" and k: "fs_files s w = Some k" "kf_spoof k = None"
  shows "balanced H n ((set_file w (k\<lparr>kf_spoof := Some p\<rparr>) s)
    \<lparr>fs_path_refs := (fs_path_refs s)(p := fs_path_refs s p + 1)\<rparr>)"
proof -
  note B = balancedD [OF b]
  let ?m = "fs_files s" and ?k = "k\<lparr>kf_spoof := Some p\<rparr>"
  have p: "pointers (set_file w ?k s) g = pointers s g" for g
    using k by (simp add: pointers_def npts_same)
  have n: "npts (?m(w \<mapsto> ?k)) (\<lambda>k. kf_spoof k = Some q) =
      npts ?m (\<lambda>k. kf_spoof k = Some q) + of_bool (p = q)" for q
    using npts_None [OF B(1) k(1), of "\<lambda>k. kf_spoof k = Some q"]
      npts_Some [of "?m(w := None)" w ?k "\<lambda>k. kf_spoof k = Some q"] B(1) k(2) by simp
  show ?thesis
  proof (rule balancedI, goal_cases)
    case (3 g k') then show ?case using B(6) [of g] k by (auto simp: p split: if_splits)
  next
    case (4 g k') then show ?case using B(7) [of g] k by (auto split: if_splits)
  next
    case (5 g k') then show ?case using B(8) [of g] k by (auto split: if_splits)
  next
    case (6 g) then show ?case using B(9) [of g] by (auto simp: p split: if_splits)
  next
    case 8 show ?case
      using npts_same [where m = "fs_files s" and x = w and u = k and v = ?k and P = "\<lambda>k. kf_wrapper k \<noteq> None"]
        k(1) B(4) by simp
  next
    case (9 q) show ?case using n [of q] B(5) [of q] B(5) [of p] by (cases "q = p") simp_all
  qed (use B in auto)
qed

section \<open>The operations\<close>

text \<open>What the kernel gives a call: a descriptor that is free, an address that is.\<close>

definition fresh_outcomes :: "wrap_env \<Rightarrow> file_state \<Rightarrow> bool" where
  "fresh_outcomes W s \<longleftrightarrow>
     (case we_unused_fd W of Inl _ \<Rightarrow> True | Inr d \<Rightarrow> fs_fds s d = None) \<and>
     (case we_getfile W of Inl _ \<Rightarrow> True | Inr w \<Rightarrow> fs_files s w = None)"

lemma get_file_sel [simp]:
  "fs_fds (get_file f s) = fs_fds s" "fs_files (get_file f s) g = None \<longleftrightarrow> fs_files s g = None"
  by (auto simp: get_file_def split: option.splits)

lemma fput_fds [simp]: "fs_fds (fput f s) = fs_fds s"
  by (simp add: fput_def Let_def split: option.split)

lemma create_sel:
  "fs_fds (snd (ksu_create_file_wrapper a f s)) = fs_fds s"
  "fs_files (snd (ksu_create_file_wrapper a f s)) g = None \<longleftrightarrow> fs_files s g = None"
  by (simp_all add: ksu_create_file_wrapper_def)

text \<open>The state in which the new file is published.\<close>

definition published :: "nat \<Rightarrow> fid \<Rightarrow> kfile \<Rightarrow> bytes \<Rightarrow> file_state \<Rightarrow> file_state" where
  "published out w kw p s =
     (set_file w (kw\<lparr>kf_spoof := Some p\<rparr>) (set_file w kw s))
       \<lparr>fs_path_refs := (fs_path_refs s)(p := fs_path_refs s p + 1), fs_fds := (fs_fds s)(out \<mapsto> w)\<rparr>"

lemma balanced_wrapper_file:
  assumes "balanced (add_mset f H) (Suc n) s" "fs_files s w = None"
  shows "balanced (add_mset w H) n (set_file w (wrapper_file W f k) s)"
  by (rule balanced_new_wrapper [OF assms]) (simp_all add: wrapper_file_def wrapper_ops_def)

lemma balanced_published:
  assumes b: "balanced (add_mset f H) (Suc n) s" and w: "fs_files s w = None" and d: "fs_fds s out = None"
  shows "balanced H n (published out w (wrapper_file W f k) p s)"
proof -
  let ?kw = "wrapper_file W f k"
  let ?s4 = "(set_file w (?kw\<lparr>kf_spoof := Some p\<rparr>) (set_file w ?kw s))
      \<lparr>fs_path_refs := (fs_path_refs s)(p := fs_path_refs s p + 1)\<rparr>"
  have "balanced (add_mset w H) n ?s4"
    using balanced_spoof [OF balanced_wrapper_file [OF b w, where W = W and k = k], where w = w and p = p]
    by (simp add: wrapper_file_def)
  from balanced_install [OF this, of out] show ?thesis using d by (simp add: published_def)
qed

text \<open>The branches of \<open>ksu_install_file_wrapper\<close>, after the file is found.\<close>

lemma install_cases:
  assumes "fs_fds s fd = Some f" "fs_files s f = Some k"
  shows "ksu_install_file_wrapper W fd s =
    (let s1 = get_file f s; s2 = snd (ksu_create_file_wrapper True f s1) in
     case we_unused_fd W of
       Inl e \<Rightarrow> (neg_errno e, fput f s1)
     | Inr out \<Rightarrow>
         if \<not> we_wrapper_alloc W then (neg_errno ENOMEM, fput f s1)
         else
           (case we_getfile W of
              Inl e \<Rightarrow> (neg_errno e, fput f (ksu_release_file_wrapper f s2))
            | Inr w \<Rightarrow>
                if \<not> we_path_alloc W then (neg_errno ENOMEM, fput f (fput w (set_file w (wrapper_file W f k) s2)))
                else (int out, fput f (published out w (wrapper_file W f k) (kf_path k) s2))))"
  using assms
  by (simp add: ksu_install_file_wrapper_def ksu_create_file_wrapper_def Let_def published_def
      split: sum.split)

lemma fd_refs_pos:
  assumes "balanced H n s" "fs_fds s fd = Some f"
  obtains k where "fs_files s f = Some k" "0 < kf_refs k"
proof -
  have p: "0 < pointers s f"
    using npts_pos [OF balancedD(2) [OF assms(1)] assms(2), of "(=) f"] by (simp add: pointers_def)
  then obtain k where k: "fs_files s f = Some k"
    using balancedD(9) [OF assms(1), of f] by (cases "fs_files s f") auto
  with that p balancedD(6) [OF assms(1) k] show thesis by simp
qed

lemma balanced_install_wrapper:
  assumes b: "balanced H n s" and W: "fresh_outcomes W s"
  shows "balanced H n (snd (ksu_install_file_wrapper W fd s))"
proof (cases "fs_fds s fd")
  case None then show ?thesis using b by (simp add: ksu_install_file_wrapper_def)
next
  case (Some f)
  obtain k where k: "fs_files s f = Some k" "0 < kf_refs k" by (rule fd_refs_pos [OF b Some])
  define s1 s2 where "s1 = get_file f s" and "s2 = snd (ksu_create_file_wrapper True f s1)"
  have b1: "balanced (add_mset f H) n s1" unfolding s1_def by (rule balanced_get_file [OF b k])
  have b2: "balanced (add_mset f (add_mset f H)) (Suc n) s2"
    unfolding s2_def by (rule balanced_create [OF b1]) simp
  have sel: "fs_fds s2 = fs_fds s" "fs_files s2 g = None \<longleftrightarrow> fs_files s g = None" for g
    by (simp_all add: s1_def s2_def create_sel)
  have e: "ksu_install_file_wrapper W fd s =
    (case we_unused_fd W of
       Inl e \<Rightarrow> (neg_errno e, fput f s1)
     | Inr out \<Rightarrow>
         if \<not> we_wrapper_alloc W then (neg_errno ENOMEM, fput f s1)
         else
           (case we_getfile W of
              Inl e \<Rightarrow> (neg_errno e, fput f (ksu_release_file_wrapper f s2))
            | Inr w \<Rightarrow>
                if \<not> we_path_alloc W then (neg_errno ENOMEM, fput f (fput w (set_file w (wrapper_file W f k) s2)))
                else (int out, fput f (published out w (wrapper_file W f k) (kf_path k) s2))))"
    unfolding install_cases [OF Some k(1)] Let_def s1_def s2_def ..
  show ?thesis
    unfolding e using W
    by (auto simp: fresh_outcomes_def sel split: sum.split
        intro!: balanced_fput b1 balanced_release_wrapper [OF b2] balanced_wrapper_file [OF b2]
          balanced_published [OF b2])
qed

lemma balanced_close_fd:
  assumes b: "balanced H n s" shows "balanced H n (close_fd fd s)"
proof (cases "fs_fds s fd")
  case (Some f) then show ?thesis
    using balanced_fput [OF balanced_close [OF b Some]] by (simp add: close_fd_def)
qed (use b in \<open>simp add: close_fd_def\<close>)

text \<open>
  A file whose turn has come to be released is removed; the reference and the structure it had
  are held for a moment by the release function.
\<close>

definition removed :: "fid \<Rightarrow> kfile \<Rightarrow> fid list \<Rightarrow> file_state \<Rightarrow> file_state" where
  "removed f k fs s =
     (ksu_wrapper_d_release k (s\<lparr>fs_pending := fs\<rparr>))\<lparr>fs_files := (fs_files s)(f := None)\<rparr>"

lemma pending_unreferenced:
  assumes b: "balanced H n s" and q: "fs_pending s = f # fs"
  obtains k where "fs_files s f = Some k" "kf_refs k = 0" "pointers s f = 0" "count H f = 0"
    "f \<notin> set fs" "distinct fs" "kf_wrapper k \<noteq> Some f"
proof -
  obtain k where k: "fs_files s f = Some k"
    using balancedD(9) [OF b, of f] q by (cases "fs_files s f") auto
  have r: "kf_refs k = 0" using balancedD(7) [OF b k] q by simp
  then have p: "pointers s f = 0" "count H f = 0" using balancedD(6) [OF b k] by simp_all
  then have "kf_wrapper k \<noteq> Some f"
    using npts_0 [OF _ balancedD(1) [OF b] k, of "\<lambda>k. kf_wrapper k = Some f"] by (auto simp: pointers_def)
  with that k r p balancedD(3) [OF b] q show thesis by simp
qed

lemma balanced_removed:
  assumes b: "balanced H n s" and q: "fs_pending s = f # fs" and k: "fs_files s f = Some k"
  shows "balanced (case kf_wrapper k of None \<Rightarrow> H | Some g \<Rightarrow> add_mset g H)
    (case kf_wrapper k of None \<Rightarrow> n | Some g \<Rightarrow> Suc n) (removed f k fs s)"
proof -
  note B = balancedD [OF b]
  have u: "pointers s f = 0" "count H f = 0" "f \<notin> set fs" "distinct fs" "kf_wrapper k \<noteq> Some f"
    using pending_unreferenced [OF b q] k by auto
  have sel: "fs_files (removed f k fs s) = (fs_files s)(f := None)" "fs_fds (removed f k fs s) = fs_fds s"
    "fs_pending (removed f k fs s) = fs" "fs_wrappers (removed f k fs s) = fs_wrappers s"
    "fs_path_refs (removed f k fs s) q = fs_path_refs s q - of_bool (kf_spoof k = Some q)" for q
    by (auto simp: removed_def ksu_wrapper_d_release_def split: option.split)
  have p: "pointers s g = pointers (removed f k fs s) g + of_bool (kf_wrapper k = Some g)" for g
    using npts_None [OF B(1) k, of "\<lambda>k. kf_wrapper k = Some g"] by (simp add: pointers_def sel)
  have c: "count (case kf_wrapper k of None \<Rightarrow> H | Some g \<Rightarrow> add_mset g H) g =
      count H g + of_bool (kf_wrapper k = Some g)" for g
    by (simp split: option.split)
  show ?thesis
  proof (rule balancedI, goal_cases)
    case (3 g k') then show ?case using B(6) [of g k'] p [of g] c [of g] by (simp add: sel split: if_splits)
  next
    case (4 g k') then show ?case using B(7) [of g k'] q by (auto simp: sel split: if_splits)
  next
    case (5 g k') then show ?case using B(8) [of g k'] by (auto simp: sel split: if_splits)
  next
    case (6 g) then show ?case
      using B(9) [of g] p [of g] c [of g] q u by (auto simp: sel split: if_splits)
  next
    case 8 show ?case
      using npts_None [OF B(1) k, of "\<lambda>k. kf_wrapper k \<noteq> None"] B(4) by (auto simp: sel split: option.split)
  next
    case (9 r) show ?case
      using npts_None [OF B(1) k, of "\<lambda>k. kf_spoof k = Some r"] B(5) [of r] by (simp add: sel)
  qed (use B u in \<open>auto simp: sel\<close>)
qed

lemma run_release_removed:
  assumes "fs_pending s = f # fs" "fs_files s f = Some k" "kf_wrapper k \<noteq> Some f"
    and "kf_ops k M_release = Some Wrapper_Release \<longleftrightarrow> kf_wrapper k \<noteq> None"
  shows "run_release s =
    (case kf_wrapper k of None \<Rightarrow> removed f k fs s | Some g \<Rightarrow> ksu_release_file_wrapper g (removed f k fs s))"
  using assms
  by (auto simp: run_release_def Let_def removed_def ksu_wrapper_release_def ksu_release_file_wrapper_def
      ksu_wrapper_d_release_def fput_def set_file_def fun_upd_twist split: option.split)

lemma balanced_run_release:
  assumes b: "balanced H n s" shows "balanced H n (run_release s)"
proof (cases "fs_pending s")
  case (Cons f fs)
  obtain k where k: "fs_files s f = Some k" "kf_wrapper k \<noteq> Some f"
    by (rule pending_unreferenced [OF b Cons])
  show ?thesis
    using balanced_removed [OF b Cons k(1)]
    by (auto simp: run_release_removed [OF Cons k balancedD(8) [OF b k(1)]] split: option.splits
        intro: balanced_release_wrapper)
qed (use b in \<open>simp add: run_release_def\<close>)

section \<open>Every order of the operations\<close>

text \<open>
  The states a task reaches by wrapping descriptors, closing descriptors and having the releases
  run that wait.
\<close>

inductive wrap_reach :: "file_state \<Rightarrow> file_state \<Rightarrow> bool" for s0 where
  start: "wrap_reach s0 s0"
| install: "wrap_reach s0 s \<Longrightarrow> fresh_outcomes W s \<Longrightarrow> wrap_reach s0 (snd (ksu_install_file_wrapper W fd s))"
| close: "wrap_reach s0 s \<Longrightarrow> wrap_reach s0 (close_fd fd s)"
| release: "wrap_reach s0 s \<Longrightarrow> wrap_reach s0 (run_release s)"

lemma wrap_reach_balanced:
  assumes "wrap_reach s0 s" "balanced {#} 0 s0"
  shows "balanced {#} 0 s"
  using assms by (induction rule: wrap_reach.induct)
    (auto intro: balanced_install_wrapper balanced_close_fd balanced_run_release)

lemma balanced_original:
  assumes b: "balanced H n s" and k: "fs_files s w = Some k" "kf_wrapper k = Some f"
  obtains k' where "fs_files s f = Some k'" "0 < kf_refs k'"
proof -
  have p: "0 < pointers s f"
    using npts_pos [OF balancedD(1) [OF b] k(1), of "\<lambda>k. kf_wrapper k = Some f"] k(2)
    by (simp add: pointers_def)
  then obtain k' where k': "fs_files s f = Some k'"
    using balancedD(9) [OF b, of f] by (cases "fs_files s f") auto
  with that p balancedD(6) [OF b k'] show thesis by simp
qed

section \<open>What the wrapper does\<close>

lemma call_method_forward:
  assumes "fs_files s w = Some kw" "kf_ops kw m = Some Forward" "call_target m c = w"
    and "kf_wrapper kw = Some f" "fs_files s f = Some k" "kf_ops k m \<noteq> None"
  shows "call_method native (Suc n) w m c s = call_method native n f m (redirect m f c) s"
  using assms by (subst call_method.simps) (auto split: option.split)

lemma install_success:
  assumes "fs_fds s fd = Some f" "fs_files s f = Some k" "we_unused_fd W = Inr out" "we_wrapper_alloc W"
    and "we_getfile W = Inr w" "we_path_alloc W" "fs_files s w = None"
  shows "fst (ksu_install_file_wrapper W fd s) = int out"
    and "fs_fds (snd (ksu_install_file_wrapper W fd s)) = (fs_fds s)(out \<mapsto> w)"
    and "fs_files (snd (ksu_install_file_wrapper W fd s)) =
      (fs_files s)(f \<mapsto> k\<lparr>kf_refs := kf_refs k + 1\<rparr>, w \<mapsto> (wrapper_file W f k)\<lparr>kf_spoof := Some (kf_path k)\<rparr>)"
  using assms
  by (auto simp: install_cases Let_def published_def ksu_create_file_wrapper_def get_file_def fput_def
      split: option.split)

lemma wrapper_file_sel [simp]:
  "kf_mode (wrapper_file W f k) = kf_mode k" "kf_wrapper (wrapper_file W f k) = Some f"
  "kf_ops (wrapper_file W f k) = wrapper_ops (we_since_6_6 W) (kf_ops k)"
  "kf_sid (wrapper_file W f k) = (if we_has_security W then we_ksu_file_sid W else 0)"
  by (simp_all add: wrapper_file_def)

section \<open>Properties\<close>


text \<open>A terminal on descriptor 3, a free descriptor 4 and a free address 9.\<close>

definition tty_state :: file_state where
  "tty_state =
     \<lparr>fs_files = Map.empty(7 \<mapsto>
        \<lparr>kf_refs = 1, kf_flags = 2, kf_mode = 0x2180, kf_sid = 5, kf_path = lit ''/dev/pts/0'',
         kf_ops = (\<lambda>m. if m \<in> {M_read, M_write, M_poll, M_release} then Some Native else None),
         kf_wrapper = None, kf_spoof = None\<rparr>),
      fs_fds = Map.empty(3 \<mapsto> 7), fs_pending = [], fs_wrappers = 0, fs_path_refs = (\<lambda>_. 0)\<rparr>"

definition tty_env :: wrap_env where
  "tty_env = \<lparr>we_unused_fd = Inr 4, we_wrapper_alloc = True, we_getfile = Inr 9, we_path_alloc = True,
     we_since_6_6 = True, we_has_security = True, we_ksu_file_sid = 77\<rparr>"


text \<open>
  C35: No reference is lost and none is dropped twice. In every state reached by wrapping and
  closing descriptors, in any order and whichever allocations fail, the count of each file is the
  number of descriptors and wrappers that point to it, the wrapper structures and the path
  references are those of the live wrapper files, and the original of a live wrapper is alive, so
  that forwarding never touches a freed file.
\<close>

theorem file_wrapper_references:
  assumes "balanced {#} 0 s0" "wrap_reach s0 s"
  shows "(\<forall>f k. fs_files s f = Some k \<longrightarrow>
        kf_refs k = card {d. fs_fds s d = Some f} + card {w. \<exists>kw. fs_files s w = Some kw \<and> kf_wrapper kw = Some f}) \<and>
      fs_wrappers s = card {w. \<exists>kw. fs_files s w = Some kw \<and> kf_wrapper kw \<noteq> None} \<and>
      (\<forall>p. fs_path_refs s p = card {w. \<exists>kw. fs_files s w = Some kw \<and> kf_spoof kw = Some p}) \<and>
      (\<forall>w kw f. fs_files s w = Some kw \<and> kf_wrapper kw = Some f \<longrightarrow>
        (\<exists>k. fs_files s f = Some k \<and> 0 < kf_refs k))"
proof -
  note b = wrap_reach_balanced [OF assms(2,1)]
  have fd: "npts (fs_fds s) ((=) f) = card {d. fs_fds s d = Some f}" for f
    unfolding npts_def by (rule arg_cong [where f = card]) auto
  have orig: "\<exists>k. fs_files s f = Some k \<and> 0 < kf_refs k" if "fs_files s w = Some kw" "kf_wrapper kw = Some f"
    for w kw f
    by (rule balanced_original [OF b that]) blast
  have refs: "kf_refs k = card {d. fs_fds s d = Some f} +
      card {w. \<exists>kw. fs_files s w = Some kw \<and> kf_wrapper kw = Some f}" if "fs_files s f = Some k" for f k
    using balancedD(6) [OF b that] fd by (simp add: pointers_def) (simp add: npts_def)
  have "fs_wrappers s = card {w. \<exists>kw. fs_files s w = Some kw \<and> kf_wrapper kw \<noteq> None}"
    using balancedD(4) [OF b] by (simp add: npts_def)
  with refs orig balancedD(5) [OF b, unfolded npts_def] show ?thesis by blast
qed

theorem file_wrapper_references_witness:
  "fs_wrappers (close_fd 3 (snd (ksu_install_file_wrapper tty_env 3 tty_state))) =
   card {w. \<exists>kw. fs_files (close_fd 3 (snd (ksu_install_file_wrapper tty_env 3 tty_state))) w = Some kw \<and>
     kf_wrapper kw \<noteq> None}"
proof -
  have "balanced {#} 0 tty_state"
    by (rule balancedI) (auto simp: tty_state_def pointers_def npts_def split: if_splits)
  moreover have "wrap_reach tty_state (close_fd 3 (snd (ksu_install_file_wrapper tty_env 3 tty_state)))"
    by (rule wrap_reach.close, rule wrap_reach.install, rule wrap_reach.start)
      (simp add: fresh_outcomes_def tty_env_def tty_state_def)
  ultimately show ?thesis using file_wrapper_references by blast
qed

section \<open>Opening a wrapper again\<close>

text \<open>
  \<open>ksu_wrapper_open\<close> is not in the relation above: the file it opens starts with the reference of
  \<open>dentry_open\<close> and gets the one of the wrapper structure, and when the wrapper is released only
  the latter is put. One reference is left that nothing points to.
\<close>

lemma ksu_wrapper_open_leak:
  assumes b: "balanced {#} 0 s" and o2: "fs_files s o2 = None" and fp: "fs_files s fp = Some k"
    and W: "we_wrapper_alloc W" and k: "kf_wrapper k = None" "kf_wrapper k2 = None"
    and s': "s' = snd (ksu_wrapper_open W (Inr (o2, k2)) fp s)"
  shows "\<exists>k'. fs_files s' o2 = Some k' \<and> kf_refs k' = 2 \<and> pointers s' o2 = 1"
proof -
  have ne: "o2 \<noteq> fp" using o2 fp by auto
  have p: "npts (fs_fds s) ((=) o2) = 0" "npts (fs_files s) (\<lambda>k. kf_wrapper k = Some o2) = 0"
    using balancedD(9) [OF b o2] by (simp_all add: pointers_def)
  note fin = balancedD(1) [OF b]
  let ?m = "(fs_files s)(fp := None)"
  let ?a = "k2\<lparr>kf_refs := 2\<rparr>"
    and ?b = "k\<lparr>kf_ops := wrapper_ops (we_since_6_6 W) (kf_ops k2), kf_wrapper := Some o2\<rparr>"
  have f: "fs_files s' = (?m(o2 \<mapsto> ?a))(fp \<mapsto> ?b)" "fs_fds s' = fs_fds s"
    using W ne fp by (auto simp: s' ksu_wrapper_open_def ksu_create_file_wrapper_def get_file_def
        set_file_def numeral_2_eq_2)
  have "npts (fs_files s') (\<lambda>k. kf_wrapper k = Some o2) = 1"
    using npts_Some [of "?m(o2 \<mapsto> ?a)" fp ?b "\<lambda>k. kf_wrapper k = Some o2"]
      npts_Some [of ?m o2 ?a "\<lambda>k. kf_wrapper k = Some o2"]
      npts_None [OF fin fp, of "\<lambda>k. kf_wrapper k = Some o2"] fin o2 ne k p(2)
    by (simp add: f)
  then show ?thesis using f ne p(1) by (simp add: pointers_def)
qed

end
