(* ===== verification/Lsm_Hook.thy ===== *)
theory Lsm_Hook
  imports Ksu_Prelude
begin

text \<open>
  Replacing security hooks of the running kernel (\<^verbatim>\<open>kernel/hook/lsm_hook.c\<close>). Before 6.12 a hook is
  an entry on the list of its head, with a function pointer that is patched; from 6.12 on there
  is a table of static calls, a fixed number for each head, besides the entries. \<open>'f\<close> is the type
  of the functions. \<open>hook_offset\<close> is the offset of a union, the same for all hooks: an entry has
  one slot.
\<close>

section \<open>State\<close>

type_synonym hid = nat

text \<open>Entries of other modules, and the one inside a hook of ours.\<close>

datatype lsm_entry = Sys nat | Own hid

record 'f lsm_hook =
  lh_target_name :: "bytes option"
  lh_replacement :: "'f option"
  lh_original :: "'f option"
  lh_entry :: "lsm_entry option"
  lh_scall :: "nat option"
  lh_list_head :: nat
  lh_offset :: s32

record 'f lsm_static_call =
  sc_entry :: "lsm_entry option"
  sc_func :: "'f option"
  sc_active :: bool

text \<open>
  \<open>ls_heads\<close> are the lists of \<open>security_hook_heads\<close>, \<open>ls_slot\<close> the function of an entry,
  \<open>ls_scalls\<close> the table of static calls with the two static variables that hold its geometry, and
  \<open>ls_tracked\<close> the used part of \<open>ksu_lsm_hook_entries\<close>.
\<close>

record 'f lsm_state =
  ls_heads :: "lsm_entry list list"
  ls_slot :: "lsm_entry \<Rightarrow> 'f"
  ls_scalls :: "'f lsm_static_call list"
  ls_scalls_count :: nat
  ls_max_cnt :: nat
  ls_hooks :: "hid \<Rightarrow> 'f lsm_hook"
  ls_tracked :: "hid list"

definition LSM_HOOK_ENTRIES :: nat where "LSM_HOOK_ENTRIES = 16"

definition ksu_lsm_hook_track :: "hid \<Rightarrow> 'f lsm_state \<Rightarrow> errno option \<times> 'f lsm_state" where
  "ksu_lsm_hook_track h s =
     (if h \<in> set (ls_tracked s) then (None, s)
      else if LSM_HOOK_ENTRIES \<le> length (ls_tracked s) then (Some ENOSPC, s)
      else (None, s\<lparr>ls_tracked := ls_tracked s @ [h]\<rparr>))"

text \<open>The last entry moves into the place of the one removed.\<close>

fun untrack_list :: "hid \<Rightarrow> hid list \<Rightarrow> hid list" where
  "untrack_list h [] = []"
| "untrack_list h (g # gs) =
     (if g = h then (if gs = [] then [] else last gs # butlast gs) else g # untrack_list h gs)"

definition ksu_lsm_hook_untrack :: "hid \<Rightarrow> 'f lsm_state \<Rightarrow> 'f lsm_state" where
  "ksu_lsm_hook_untrack h s = s\<lparr>ls_tracked := untrack_list h (ls_tracked s)\<rparr>"

definition set_hook :: "hid \<Rightarrow> 'f lsm_hook \<Rightarrow> 'f lsm_state \<Rightarrow> 'f lsm_state" where
  "set_hook h k s = s\<lparr>ls_hooks := (ls_hooks s)(h := k)\<rparr>"

definition set_slot :: "lsm_entry \<Rightarrow> 'f \<Rightarrow> 'f lsm_state \<Rightarrow> 'f lsm_state" where
  "set_slot e f s = s\<lparr>ls_slot := (ls_slot s)(e := f)\<rparr>"

text \<open>What the slot held before the first tracked hook with this replacement took it.\<close>

definition unpatched :: "'f lsm_state \<Rightarrow> 'f \<Rightarrow> 'f option" where
  "unpatched s f =
     (case find (\<lambda>h. lh_replacement (ls_hooks s h) = Some f) (ls_tracked s) of
        None \<Rightarrow> Some f
      | Some h \<Rightarrow> lh_original (ls_hooks s h))"

text \<open>
  The outcomes of what a call needs: the symbol search, the size of the tables and the number of
  active modules, whether patching the text succeeds.
\<close>

record 'f lsm_env =
  le_resolve :: "bytes \<Rightarrow> 'f option"
  le_table_found :: bool
  le_sym_size :: nat
  le_scall_size :: nat
  le_active_cnt :: "u32 option"
  le_patch_ok :: bool

text \<open>The function to look for: that of an earlier use of the hook, or the symbol.\<close>

definition hook_target :: "'f lsm_env \<Rightarrow> 'f lsm_hook \<Rightarrow> bytes \<Rightarrow> 'f option" where
  "hook_target E k name = (case lh_original k of Some f \<Rightarrow> Some f | None \<Rightarrow> le_resolve E name)"

section \<open>Lists of entries (before 6.12)\<close>

datatype 'p lsm_scan = Scan_already | Scan_found 'p | Scan_none

fun scan_head :: "'f lsm_state \<Rightarrow> 'f option \<Rightarrow> 'f \<Rightarrow> lsm_entry list \<Rightarrow> lsm_entry lsm_scan" where
  "scan_head s repl target [] = Scan_none"
| "scan_head s repl target (e # es) =
     (if unpatched s (ls_slot s e) = repl then Scan_already
      else if unpatched s (ls_slot s e) = Some target then Scan_found e
      else scan_head s repl target es)"

fun scan_heads ::
    "'f lsm_state \<Rightarrow> 'f option \<Rightarrow> 'f \<Rightarrow> nat \<Rightarrow> lsm_entry list list \<Rightarrow> (nat \<times> lsm_entry) lsm_scan" where
  "scan_heads s repl target i [] = Scan_none"
| "scan_heads s repl target i (es # hs) =
     (case scan_head s repl target es of
        Scan_already \<Rightarrow> Scan_already
      | Scan_found e \<Rightarrow> Scan_found (i, e)
      | Scan_none \<Rightarrow> scan_heads s repl target (i + 1) hs)"

text \<open>
  The entry to patch with what it held, \<open>None\<close> when the head \<open>offset\<close> places further is empty and
  the hook's own entry becomes its first.
\<close>

definition lsm_select ::
    "hid \<Rightarrow> 'f \<Rightarrow> 'f \<Rightarrow> nat \<Rightarrow> lsm_entry \<Rightarrow> 'f lsm_state \<Rightarrow> errno + (lsm_entry \<times> 'f option \<times> 'f lsm_state)" where
  "lsm_select h repl target i e s =
     (let k = ls_hooks s h in
      if lh_offset k = 0 then Inr (e, Some target, s)
      else
        let j = int i + sint (lh_offset k) in
        if j < 0 \<or> int (length (ls_heads s)) \<le> j then Inl EINVAL
        else if list_ex (\<lambda>e'. ls_slot s e' = repl) (ls_heads s ! nat j) then Inl EALREADY
        else
          (case ls_heads s ! nat j of
             e' # es \<Rightarrow> Inr (e', Some (ls_slot s e'), s)
           | [] \<Rightarrow> Inr (Own h, None, set_slot (Own h) repl (set_hook h (k\<lparr>lh_list_head := nat j\<rparr>) s))))"

definition ksu_lsm_hook :: "'f lsm_env \<Rightarrow> hid \<Rightarrow> 'f lsm_state \<Rightarrow> int \<times> 'f lsm_state" where
  "ksu_lsm_hook E h s =
     (case lh_replacement (ls_hooks s h) of
        None \<Rightarrow> (neg_errno EINVAL, s)
      | Some repl \<Rightarrow>
          if lh_entry (ls_hooks s h) \<noteq> None then (neg_errno EALREADY, s)
          else
            case lh_target_name (ls_hooks s h) of
              None \<Rightarrow> (neg_errno EINVAL, s)
            | Some name \<Rightarrow>
                (case hook_target E (ls_hooks s h) name of
                   None \<Rightarrow> (neg_errno ENOENT, s)
                 | Some target \<Rightarrow>
                     if \<not> le_table_found E then (neg_errno ENOENT, s)
                     else
                       case scan_heads s (Some repl) target 0 (ls_heads s) of
                         Scan_already \<Rightarrow> (neg_errno EALREADY, s)
                       | Scan_none \<Rightarrow> (neg_errno ENOENT, s)
                       | Scan_found ie \<Rightarrow>
                           (case lsm_select h repl target (fst ie) (snd ie) s of
                              Inl err \<Rightarrow> (neg_errno err, s)
                            | Inr (e, origin, s1) \<Rightarrow>
                                (case ksu_lsm_hook_track h s1 of
                                   (Some err, s2) \<Rightarrow> (neg_errno err, s2)
                                 | (None, s2) \<Rightarrow>
                                     if \<not> le_patch_ok E then (neg_errno EFAULT, ksu_lsm_hook_untrack h s2)
                                     else
                                       let s3 = (case origin of
                                                   Some _ \<Rightarrow> set_slot e repl s2
                                                 | None \<Rightarrow> s2\<lparr>ls_heads := (ls_heads s2)
                                                     [lh_list_head (ls_hooks s2 h) := [Own h]]\<rparr>)
                                       in (0, set_hook h ((ls_hooks s3 h)\<lparr>lh_entry := Some e,
                                              lh_original := origin\<rparr>) s3)))))"

text \<open>
  Undoing it. The slot of an entry of another module always gets a function back, as an entry that
  was on a list held one.
\<close>

definition ksu_lsm_unhook :: "bool \<Rightarrow> hid \<Rightarrow> 'f lsm_state \<Rightarrow> 'f lsm_state" where
  "ksu_lsm_unhook ok h s =
     (let k = ls_hooks s h in
      case lh_entry k of
        None \<Rightarrow> s
      | Some e \<Rightarrow>
          if \<not> ok then s
          else
            let s1 = (if e = Own h then s\<lparr>ls_heads := (ls_heads s)[lh_list_head k := []]\<rparr>
                      else case lh_original k of None \<Rightarrow> s | Some f \<Rightarrow> set_slot e f s)
            in set_hook h (k\<lparr>lh_entry := None\<rparr>) (ksu_lsm_hook_untrack h s1))"

definition ksu_lsm_hook_exit :: "(hid \<Rightarrow> bool) \<Rightarrow> 'f lsm_state \<Rightarrow> 'f lsm_state" where
  "ksu_lsm_hook_exit ok s = fold (\<lambda>h. ksu_lsm_unhook (ok h) h) (rev (ls_tracked s)) s"

section \<open>Static calls (from 6.12 on)\<close>

text \<open>The geometry of the table, found once; a count of modules out of range leaves it unknown.\<close>

definition scalls_geometry :: "'f lsm_env \<Rightarrow> 'f lsm_state \<Rightarrow> 'f lsm_state" where
  "scalls_geometry E s =
     (if ls_scalls_count s \<noteq> 0 then s
      else
        let cnt = unat (case le_active_cnt E of None \<Rightarrow> 5 | Some c \<Rightarrow> c) in
        if cnt = 0 \<or> 20 < cnt then s
        else s\<lparr>ls_max_cnt := cnt, ls_scalls_count := le_sym_size E div le_scall_size E\<rparr>)"

fun scan_scalls ::
    "'f lsm_state \<Rightarrow> 'f option \<Rightarrow> 'f \<Rightarrow> nat \<Rightarrow> 'f lsm_static_call list \<Rightarrow> (nat \<times> lsm_entry) lsm_scan" where
  "scan_scalls s repl target i [] = Scan_none"
| "scan_scalls s repl target i (c # cs) =
     (case sc_entry c of
        None \<Rightarrow> scan_scalls s repl target (i + 1) cs
      | Some e \<Rightarrow>
          if unpatched s (ls_slot s e) = repl then Scan_already
          else if unpatched s (ls_slot s e) = Some target then Scan_found (i, e)
          else scan_scalls s repl target (i + 1) cs)"

text \<open>
  The entry recorded, the static call, the entry whose slot is patched, and what was there. For an
  empty call \<open>offset\<close> heads further the slot is still the one found first.
\<close>

definition scall_select ::
    "hid \<Rightarrow> 'f \<Rightarrow> 'f \<Rightarrow> nat \<Rightarrow> lsm_entry \<Rightarrow> 'f lsm_state \<Rightarrow>
     errno + (lsm_entry option \<times> nat \<times> lsm_entry \<times> 'f option)" where
  "scall_select h repl target i e s =
     (let off = lh_offset (ls_hooks s h) in
      if off = 0 then Inr (Some e, i, e, Some target)
      else
        let j = unat ((of_nat (i div ls_max_cnt s) + scast off) * of_nat (ls_max_cnt s) :: u64) in
        if ls_scalls_count s \<le> j then Inl EINVAL
        else
          (case sc_entry (ls_scalls s ! j) of
             None \<Rightarrow> Inr (None, j, e, None)
           | Some e' \<Rightarrow>
               if ls_slot s e' = repl then Inl EALREADY
               else Inr (Some e', j, e', Some (ls_slot s e'))))"

definition set_scall :: "nat \<Rightarrow> 'f option \<Rightarrow> 'f lsm_state \<Rightarrow> 'f lsm_state" where
  "set_scall j f s = s\<lparr>ls_scalls := (ls_scalls s)[j := (ls_scalls s ! j)\<lparr>sc_func := f\<rparr>]\<rparr>"

text \<open>Updating a static call cannot fail, so the roll-back after it is never taken.\<close>

definition ksu_lsm_hook_scalls :: "'f lsm_env \<Rightarrow> hid \<Rightarrow> 'f lsm_state \<Rightarrow> int \<times> 'f lsm_state" where
  "ksu_lsm_hook_scalls E h s0 =
     (case lh_replacement (ls_hooks s0 h) of
        None \<Rightarrow> (neg_errno EINVAL, s0)
      | Some repl \<Rightarrow>
          if lh_entry (ls_hooks s0 h) \<noteq> None then (neg_errno EALREADY, s0)
          else
            case lh_target_name (ls_hooks s0 h) of
              None \<Rightarrow> (neg_errno EINVAL, s0)
            | Some name \<Rightarrow>
                (case hook_target E (ls_hooks s0 h) name of
                   None \<Rightarrow> (neg_errno ENOENT, s0)
                 | Some target \<Rightarrow>
                     if \<not> le_table_found E then (neg_errno ENOSYS, s0)
                     else
                       let s = scalls_geometry E s0 in
                       if ls_scalls_count s = 0 then (neg_errno ENOSYS, s)
                       else
                         case scan_scalls s (Some repl) target 0 (take (ls_scalls_count s) (ls_scalls s)) of
                           Scan_already \<Rightarrow> (neg_errno EALREADY, s)
                         | Scan_none \<Rightarrow> (neg_errno ENOENT, s)
                         | Scan_found ie \<Rightarrow>
                             (case scall_select h repl target (fst ie) (snd ie) s of
                                Inl err \<Rightarrow> (neg_errno err, s)
                              | Inr (entry, j, e, origin) \<Rightarrow>
                                  (case ksu_lsm_hook_track h s of
                                     (Some err, s2) \<Rightarrow> (neg_errno err, s2)
                                   | (None, s2) \<Rightarrow>
                                       if \<not> le_patch_ok E then (neg_errno EFAULT, ksu_lsm_hook_untrack h s2)
                                       else
                                         let s3 = set_scall j (Some repl) (set_slot e repl s2);
                                             s4 = (if origin = None
                                                   then s3\<lparr>ls_scalls := (ls_scalls s3)
                                                     [j := (ls_scalls s3 ! j)\<lparr>sc_active := True\<rparr>]\<rparr>
                                                   else s3)
                                         in (0, set_hook h ((ls_hooks s4 h)\<lparr>lh_entry := entry,
                                                lh_scall := Some j, lh_original := origin\<rparr>) s4)))))"

definition ksu_lsm_unhook_scalls :: "bool \<Rightarrow> hid \<Rightarrow> 'f lsm_state \<Rightarrow> 'f lsm_state" where
  "ksu_lsm_unhook_scalls ok h s =
     (let k = ls_hooks s h in
      case (lh_entry k, lh_scall k) of
        (Some e, Some j) \<Rightarrow>
          if \<not> ok then s
          else
            let s1 = (case lh_original k of None \<Rightarrow> s | Some f \<Rightarrow> set_slot e f s);
                s2 = set_scall j (lh_original k) s1
            in set_hook h (k\<lparr>lh_entry := None, lh_scall := None\<rparr>) (ksu_lsm_hook_untrack h s2)
      | _ \<Rightarrow> s)"

end
