(* ===== verification/Lsm_Restore.thy ===== *)
theory Lsm_Restore
  imports Lsm_Hook
begin

text \<open>
  What patching security hooks leaves behind: hooks without an offset, the only ones the module
  uses, can be installed and removed in any order, and after the exit function every slot holds
  what it held before. A second part follows the offset on static calls, where the restoration
  fails.
\<close>

section \<open>The table of tracked hooks\<close>

lemma set_untrack_list [simp]: "distinct hs \<Longrightarrow> set (untrack_list h hs) = set hs - {h}"
proof (induction hs)
  case (Cons g gs)
  then show ?case
    by (cases gs rule: rev_cases) (auto simp: insert_commute)
qed simp

lemma distinct_untrack_list [simp]: "distinct hs \<Longrightarrow> distinct (untrack_list h hs)"
proof (induction hs)
  case (Cons g gs)
  then show ?case by (cases gs rule: rev_cases) auto
qed simp

lemma track_spec:
  assumes "ksu_lsm_hook_track h s = (r, s')"
  shows "s' = s\<lparr>ls_tracked := ls_tracked s'\<rparr>"
    and "distinct (ls_tracked s) \<Longrightarrow> distinct (ls_tracked s')"
    and "r = None \<Longrightarrow> set (ls_tracked s') = insert h (set (ls_tracked s))"
    and "r \<noteq> None \<Longrightarrow> s' = s"
  using assms by (auto simp: ksu_lsm_hook_track_def split: if_splits)

section \<open>The invariant\<close>

text \<open>
  The state before the first hook: nothing tracked, only entries of other modules on the lists, and
  hooks with different replacements, which are no functions of theirs.
\<close>

definition pristine :: "'f lsm_state \<Rightarrow> bool" where
  "pristine s \<longleftrightarrow>
     ls_tracked s = [] \<and>
     (\<forall>h. lh_entry (ls_hooks s h) = None \<and> lh_offset (ls_hooks s h) = 0) \<and>
     (\<forall>h g f. lh_replacement (ls_hooks s h) = Some f \<and> lh_replacement (ls_hooks s g) = Some f \<longrightarrow> h = g) \<and>
     (\<forall>h e. lh_replacement (ls_hooks s h) \<noteq> Some (ls_slot s e)) \<and>
     (\<forall>es\<in>set (ls_heads s). \<forall>e\<in>set es. \<exists>n. e = Sys n)"

definition lsm_inv :: "'f lsm_state \<Rightarrow> 'f lsm_state \<Rightarrow> bool" where
  "lsm_inv s0 s \<longleftrightarrow>
     distinct (ls_tracked s) \<and> ls_heads s = ls_heads s0 \<and>
     (\<forall>h. lh_replacement (ls_hooks s h) = lh_replacement (ls_hooks s0 h) \<and> lh_offset (ls_hooks s h) = 0) \<and>
     (\<forall>h. h \<in> set (ls_tracked s) \<longleftrightarrow> lh_entry (ls_hooks s h) \<noteq> None) \<and>
     (\<forall>h e. lh_entry (ls_hooks s h) = Some e \<longrightarrow>
        (\<exists>n. e = Sys n) \<and> lh_original (ls_hooks s h) = Some (ls_slot s0 e)) \<and>
     (\<forall>e. ls_slot s e = ls_slot s0 e \<or>
        (\<exists>h\<in>set (ls_tracked s). lh_entry (ls_hooks s h) = Some e \<and>
           lh_replacement (ls_hooks s h) = Some (ls_slot s e)))"

lemma lsm_invD:
  assumes "lsm_inv s0 s"
  shows "distinct (ls_tracked s)" "ls_heads s = ls_heads s0"
    "lh_replacement (ls_hooks s h) = lh_replacement (ls_hooks s0 h)" "lh_offset (ls_hooks s h) = 0"
    "h \<in> set (ls_tracked s) \<longleftrightarrow> lh_entry (ls_hooks s h) \<noteq> None"
    "lh_entry (ls_hooks s h) = Some e \<Longrightarrow> \<exists>n. e = Sys n"
    "lh_entry (ls_hooks s h) = Some e \<Longrightarrow> lh_original (ls_hooks s h) = Some (ls_slot s0 e)"
    "ls_slot s e = ls_slot s0 e \<or> (\<exists>h\<in>set (ls_tracked s). lh_entry (ls_hooks s h) = Some e \<and>
       lh_replacement (ls_hooks s h) = Some (ls_slot s e))"
  using assms unfolding lsm_inv_def by blast+

lemma lsm_inv_start: "pristine s \<Longrightarrow> lsm_inv s s"
  by (auto simp: pristine_def lsm_inv_def)

text \<open>Whatever hooks a slot has seen, the scan sees the function it held at first.\<close>

lemma unpatched_original:
  assumes p: "pristine s0" and i: "lsm_inv s0 s"
  shows "unpatched s (ls_slot s e) = Some (ls_slot s0 e)"
proof (cases "ls_slot s e = ls_slot s0 e")
  case True
  have "\<not> (\<exists>h. h \<in> set (ls_tracked s) \<and> lh_replacement (ls_hooks s h) = Some (ls_slot s0 e))"
    using p lsm_invD(3) [OF i] by (auto simp: pristine_def)
  then have "find (\<lambda>h. lh_replacement (ls_hooks s h) = Some (ls_slot s0 e)) (ls_tracked s) = None"
    by (simp add: find_None_iff)
  with True show ?thesis by (simp add: unpatched_def)
next
  case False
  then obtain h where h: "h \<in> set (ls_tracked s)" "lh_entry (ls_hooks s h) = Some e"
    "lh_replacement (ls_hooks s h) = Some (ls_slot s e)" using lsm_invD(8) [OF i, of e] by auto
  have "find (\<lambda>h. lh_replacement (ls_hooks s h) = Some (ls_slot s e)) (ls_tracked s) \<noteq> None"
    using h by (auto simp: find_None_iff)
  then obtain g where g: "find (\<lambda>h. lh_replacement (ls_hooks s h) = Some (ls_slot s e)) (ls_tracked s) = Some g"
    by auto
  then have "lh_replacement (ls_hooks s g) = Some (ls_slot s e)" by (auto simp: find_Some_iff)
  then have "g = h" using p h(3) lsm_invD(3) [OF i] unfolding pristine_def by metis
  with g show ?thesis using lsm_invD(7) [OF i h(2)] by (simp add: unpatched_def)
qed

lemma scan_head_found:
  "scan_head s r t es = Scan_found e \<Longrightarrow> e \<in> set es \<and> unpatched s (ls_slot s e) = Some t"
  by (induction es) (auto split: if_splits)

lemma scan_heads_found:
  "scan_heads s r t i hs = Scan_found (j, e) \<Longrightarrow>
    (\<exists>es\<in>set hs. e \<in> set es) \<and> unpatched s (ls_slot s e) = Some t"
  by (induction hs arbitrary: i) (auto split: lsm_scan.splits dest: scan_head_found)

section \<open>The operations keep it\<close>

text \<open>The ways \<open>ksu_lsm_hook\<close> ends for a hook without an offset.\<close>

lemma ksu_lsm_hook_cases:
  assumes "ksu_lsm_hook E h s = (ret, s')" "lh_offset (ls_hooks s h) = 0"
  obtains (refused) "ret < 0" "s' = s"
  | (unpatched) s2 where "ret < 0" "ksu_lsm_hook_track h s = (None, s2)" "s' = ksu_lsm_hook_untrack h s2"
      "lh_entry (ls_hooks s h) = None"
  | (patched) s2 repl target j e where "ret = 0" "ksu_lsm_hook_track h s = (None, s2)"
      "lh_replacement (ls_hooks s h) = Some repl" "lh_entry (ls_hooks s h) = None"
      "scan_heads s (Some repl) target 0 (ls_heads s) = Scan_found (j, e)"
      "s' = set_hook h ((ls_hooks s h)\<lparr>lh_entry := Some e, lh_original := Some target\<rparr>) (set_slot e repl s2)"
proof (cases "lh_replacement (ls_hooks s h)")
  case None then show thesis using assms refused by (auto simp: ksu_lsm_hook_def)
next
  case r: (Some repl)
  show thesis
  proof (cases "lh_entry (ls_hooks s h) \<noteq> None \<or> lh_target_name (ls_hooks s h) = None \<or>
      hook_target E (ls_hooks s h) (the (lh_target_name (ls_hooks s h))) = None \<or> \<not> le_table_found E")
    case True
    then have "ret < 0 \<and> s' = s"
      using assms r by (auto simp: ksu_lsm_hook_def split: option.splits if_splits)
    with refused show thesis by blast
  next
    case False
    then obtain name target where ok: "lh_entry (ls_hooks s h) = None"
      "lh_target_name (ls_hooks s h) = Some name" "hook_target E (ls_hooks s h) name = Some target"
      "le_table_found E" by auto
    show thesis
    proof (cases "scan_heads s (Some repl) target 0 (ls_heads s)")
      case (Scan_found ie)
      obtain r s2 where t: "ksu_lsm_hook_track h s = (r, s2)" by fastforce
      have sel: "lsm_select h repl target (fst ie) (snd ie) s = Inr (snd ie, Some target, s)"
        using assms(2) by (simp add: lsm_select_def)
      have hk: "ls_hooks s2 = ls_hooks s" by (subst track_spec(1) [OF t]) simp
      show thesis
        using assms(1) r ok Scan_found t sel track_spec(4) [OF t] hk refused unpatched
          patched [of s2 repl target "fst ie" "snd ie"]
        by (auto simp: ksu_lsm_hook_def set_slot_def split: option.splits if_splits)
    qed (use assms(1) r ok refused in \<open>auto simp: ksu_lsm_hook_def\<close>)
  qed
qed

lemma lsm_inv_tracked:
  assumes "lsm_inv s0 s" "set ts = set (ls_tracked s)" "distinct ts"
  shows "lsm_inv s0 (s\<lparr>ls_tracked := ts\<rparr>)"
proof -
  let ?s = "s\<lparr>ls_tracked := ts\<rparr>"
  have eqs: "ls_heads ?s = ls_heads s" "ls_hooks ?s = ls_hooks s" "ls_slot ?s = ls_slot s"
    "set (ls_tracked ?s) = set (ls_tracked s)" "distinct (ls_tracked ?s) = distinct (ls_tracked s)"
    using assms lsm_invD(1) [OF assms(1)] by simp_all
  show ?thesis using assms(1) unfolding lsm_inv_def eqs by blast
qed

lemma lsm_inv_untrack_new:
  assumes i: "lsm_inv s0 s" and e: "lh_entry (ls_hooks s h) = None"
    and t: "ksu_lsm_hook_track h s = (None, s2)"
  shows "lsm_inv s0 (ksu_lsm_hook_untrack h s2)"
proof -
  have h: "h \<notin> set (ls_tracked s)" using lsm_invD(5) [OF i] e by simp
  have d: "distinct (ls_tracked s2)" "set (ls_tracked s2) = insert h (set (ls_tracked s))"
    using track_spec(2,3) [OF t] lsm_invD(1) [OF i] by simp_all
  have s2: "s2 = s\<lparr>ls_tracked := ls_tracked s2\<rparr>" by (rule track_spec(1) [OF t])
  have "set (untrack_list h (ls_tracked s2)) = set (ls_tracked s)" using d h by auto
  moreover have "ksu_lsm_hook_untrack h s2 = s\<lparr>ls_tracked := untrack_list h (ls_tracked s2)\<rparr>"
    by (subst s2) (simp add: ksu_lsm_hook_untrack_def)
  ultimately show ?thesis
    using i distinct_untrack_list [OF d(1), of h] by (simp add: lsm_inv_tracked)
qed

lemma lsm_inv_hook:
  assumes p: "pristine s0" and i: "lsm_inv s0 s"
  shows "lsm_inv s0 (snd (ksu_lsm_hook E h s))"
proof -
  obtain ret s' where c: "ksu_lsm_hook E h s = (ret, s')" by fastforce
  from c lsm_invD(4) [OF i, of h] show ?thesis
  proof (cases rule: ksu_lsm_hook_cases)
    case refused with c i show ?thesis by simp
  next
    case (unpatched s2) with c lsm_inv_untrack_new [OF i] show ?thesis by simp
  next
    case (patched s2 repl target j e)
    from scan_heads_found [OF patched(5)]
    have e: "\<exists>es\<in>set (ls_heads s). e \<in> set es" "target = ls_slot s0 e"
      using unpatched_original [OF p i] by auto
    have n: "\<exists>n. e = Sys n" using e(1) p lsm_invD(2) [OF i] by (auto simp: pristine_def)
    have h: "h \<notin> set (ls_tracked s)" using lsm_invD(5) [OF i] patched(4) by simp
    have d: "distinct (ls_tracked s2)" "set (ls_tracked s2) = insert h (set (ls_tracked s))"
      using track_spec(2,3) [OF patched(2)] lsm_invD(1) [OF i] by simp_all
    have s2: "s2 = s\<lparr>ls_tracked := ls_tracked s2\<rparr>" by (rule track_spec(1) [OF patched(2)])
    define ts where "ts = ls_tracked s2"
    have s': "s' = s\<lparr>ls_tracked := ts, ls_slot := (ls_slot s)(e := repl),
        ls_hooks := (ls_hooks s)(h := (ls_hooks s h)\<lparr>lh_entry := Some e, lh_original := Some (ls_slot s0 e)\<rparr>)\<rparr>"
      unfolding patched(6) ts_def by (subst s2) (simp add: e(2) set_hook_def set_slot_def)
    have slot: "ls_slot s g = ls_slot s0 g \<or> (\<exists>k\<in>set (ls_tracked s). k \<noteq> h \<and> lh_entry (ls_hooks s k) = Some g \<and>
       lh_replacement (ls_hooks s k) = Some (ls_slot s g))" for g
      using lsm_invD(8) [OF i, of g] h by auto
    have "lsm_inv s0 s'"
      unfolding lsm_inv_def
    proof (intro conjI allI)
      fix g
      show "ls_slot s' g = ls_slot s0 g \<or> (\<exists>k\<in>set (ls_tracked s'). lh_entry (ls_hooks s' k) = Some g \<and>
          lh_replacement (ls_hooks s' k) = Some (ls_slot s' g))"
        using slot [of g] d(2) patched(3) by (auto simp: s' ts_def)
    qed (use lsm_invD [OF i] d n patched(3) in \<open>auto simp: s' ts_def\<close>)
    with c show ?thesis by simp
  qed
qed

lemma lsm_inv_unhook:
  assumes i: "lsm_inv s0 s"
  shows "lsm_inv s0 (ksu_lsm_unhook ok h s)"
proof (cases "lh_entry (ls_hooks s h)")
  case (Some e)
  obtain n where n: "e = Sys n" using lsm_invD(6) [OF i Some] by blast
  have o: "lh_original (ls_hooks s h) = Some (ls_slot s0 e)" by (rule lsm_invD(7) [OF i Some])
  show ?thesis
  proof (cases ok)
    case True
    then have s': "ksu_lsm_unhook ok h s = s\<lparr>ls_tracked := untrack_list h (ls_tracked s),
        ls_slot := (ls_slot s)(e := ls_slot s0 e), ls_hooks := (ls_hooks s)(h := (ls_hooks s h)\<lparr>lh_entry := None\<rparr>)\<rparr>"
      using Some n o
      by (simp add: ksu_lsm_unhook_def Let_def set_hook_def set_slot_def ksu_lsm_hook_untrack_def)
    have "ls_slot (ksu_lsm_unhook ok h s) g = ls_slot s0 g \<or>
        (\<exists>k\<in>set (ls_tracked (ksu_lsm_unhook ok h s)). lh_entry (ls_hooks (ksu_lsm_unhook ok h s) k) = Some g \<and>
          lh_replacement (ls_hooks (ksu_lsm_unhook ok h s) k) = Some (ls_slot (ksu_lsm_unhook ok h s) g))" for g
      using lsm_invD(8) [OF i, of g] lsm_invD(1) [OF i] Some by (auto simp: s')
    then show ?thesis
      unfolding lsm_inv_def using lsm_invD(1-7) [OF i] by (auto simp: s')
  qed (use i Some in \<open>simp add: ksu_lsm_unhook_def\<close>)
qed (use i in \<open>simp add: ksu_lsm_unhook_def\<close>)

lemma lsm_unhook_tracked:
  assumes i: "lsm_inv s0 s"
  shows "set (ls_tracked (ksu_lsm_unhook True h s)) = set (ls_tracked s) - {h}"
proof (cases "lh_entry (ls_hooks s h)")
  case None
  then have "h \<notin> set (ls_tracked s)" using lsm_invD(5) [OF i] by simp
  with None show ?thesis by (simp add: ksu_lsm_unhook_def)
next
  case (Some e)
  then show ?thesis
    using lsm_invD(1) [OF i] by (auto simp: ksu_lsm_unhook_def Let_def set_hook_def set_slot_def
        ksu_lsm_hook_untrack_def split: option.split)
qed

lemma unhook_all:
  assumes "lsm_inv s0 s"
  shows "lsm_inv s0 (fold (ksu_lsm_unhook True) hs s) \<and>
    set (ls_tracked (fold (ksu_lsm_unhook True) hs s)) = set (ls_tracked s) - set hs"
  using assms
proof (induction hs arbitrary: s)
  case (Cons h hs)
  from Cons.IH [OF lsm_inv_unhook [OF Cons.prems, of True h]] lsm_unhook_tracked [OF Cons.prems, of h]
  show ?case by auto
qed simp

section \<open>Every order of hooking and unhooking\<close>

inductive lsm_reach :: "'f lsm_state \<Rightarrow> 'f lsm_state \<Rightarrow> bool" for s0 where
  start: "lsm_reach s0 s0"
| hook: "lsm_reach s0 s \<Longrightarrow> lsm_reach s0 (snd (ksu_lsm_hook E h s))"
| unhook: "lsm_reach s0 s \<Longrightarrow> lsm_reach s0 (ksu_lsm_unhook ok h s)"

lemma lsm_reach_inv: "lsm_reach s0 s \<Longrightarrow> pristine s0 \<Longrightarrow> lsm_inv s0 s"
  by (induction rule: lsm_reach.induct) (auto intro: lsm_inv_start lsm_inv_hook lsm_inv_unhook)

text \<open>
  C33: Security hooks are restored. Whatever hooks without an offset were installed and removed, in
  any order, several on one slot included, and whichever of these calls failed, every slot holds its
  first function or the replacement of a tracked hook that has saved that function; and after
  \<open>ksu_lsm_hook_exit\<close>, when its patches succeed, every slot and every list is as before the first
  hook and no hook is installed.
\<close>

theorem lsm_hooks_restored:
  assumes "pristine s0" "lsm_reach s0 s" "s' = ksu_lsm_hook_exit (\<lambda>_. True) s"
  shows "(\<forall>e. ls_slot s e = ls_slot s0 e \<or>
        (\<exists>h\<in>set (ls_tracked s). lh_replacement (ls_hooks s h) = Some (ls_slot s e) \<and>
           lh_original (ls_hooks s h) = Some (ls_slot s0 e))) \<and>
      ls_slot s' = ls_slot s0 \<and> ls_heads s' = ls_heads s0 \<and> ls_tracked s' = [] \<and>
      (\<forall>h. lh_entry (ls_hooks s' h) = None)"
proof -
  note i = lsm_reach_inv [OF assms(2,1)]
  from unhook_all [OF i, of "rev (ls_tracked s)"]
  have i': "lsm_inv s0 s'" and t: "ls_tracked s' = []"
    by (simp_all add: assms(3) ksu_lsm_hook_exit_def)
  have "ls_slot s' = ls_slot s0" using lsm_invD(8) [OF i'] t by auto
  moreover have "\<forall>h. lh_entry (ls_hooks s' h) = None" using lsm_invD(5) [OF i'] t by auto
  moreover have "ls_slot s e = ls_slot s0 e \<or> (\<exists>h\<in>set (ls_tracked s).
      lh_replacement (ls_hooks s h) = Some (ls_slot s e) \<and> lh_original (ls_hooks s h) = Some (ls_slot s0 e))" for e
    using lsm_invD(7,8) [OF i] by blast
  ultimately show ?thesis using t lsm_invD(2) [OF i'] by simp
qed

text \<open>Two hooks on the slot of the entry 4, functions as numbers.\<close>

definition two_hooks :: "nat lsm_state" where
  "two_hooks =
     \<lparr>ls_heads = [[Sys 3], [Sys 4, Sys 5]], ls_slot = (\<lambda>e. case e of Sys n \<Rightarrow> 100 + n | Own _ \<Rightarrow> 0),
      ls_scalls = [], ls_scalls_count = 0, ls_max_cnt = 5,
      ls_hooks = (\<lambda>h. \<lparr>lh_target_name = Some (lit ''selinux_setprocattr''),
        lh_replacement = (if h < 2 then Some (h + 1) else None), lh_original = None, lh_entry = None,
        lh_scall = None, lh_list_head = 0, lh_offset = 0\<rparr>),
      ls_tracked = []\<rparr>"

definition lsm_env0 :: "nat lsm_env" where
  "lsm_env0 = \<lparr>le_resolve = (\<lambda>_. Some 104), le_table_found = True, le_sym_size = 0, le_scall_size = 1,
     le_active_cnt = None, le_patch_ok = True\<rparr>"

theorem lsm_hooks_restored_witness:
  "ls_slot (ksu_lsm_hook_exit (\<lambda>_. True)
     (snd (ksu_lsm_hook lsm_env0 1 (snd (ksu_lsm_hook lsm_env0 0 two_hooks))))) (Sys 4) = 104"
proof -
  have "pristine two_hooks"
    by (auto simp: pristine_def two_hooks_def split: lsm_entry.split if_splits)
  moreover have "lsm_reach two_hooks (snd (ksu_lsm_hook lsm_env0 1 (snd (ksu_lsm_hook lsm_env0 0 two_hooks))))"
    by (intro lsm_reach.hook lsm_reach.start)
  ultimately have "ls_slot (ksu_lsm_hook_exit (\<lambda>_. True)
     (snd (ksu_lsm_hook lsm_env0 1 (snd (ksu_lsm_hook lsm_env0 0 two_hooks))))) = ls_slot two_hooks"
    using lsm_hooks_restored [OF _ _ refl] by blast
  moreover have "ls_slot two_hooks (Sys 4) = 104" by (simp add: two_hooks_def)
  ultimately show ?thesis by simp
qed

section \<open>An offset on static calls\<close>

text \<open>
  When the static call at the offset is empty, the slot patched is the one of the call found by
  name, with a function of another type, and as no entry is recorded the hook is never removed.
\<close>

lemma empty_scall_not_restored:
  assumes "lh_replacement (ls_hooks s h) = Some r" "lh_entry (ls_hooks s h) = None"
    and "lh_target_name (ls_hooks s h) = Some name" "hook_target E (ls_hooks s h) name = Some t"
    and "le_table_found E" "le_patch_ok E" "ls_scalls_count s \<noteq> 0"
    and "scan_scalls s (Some r) t 0 (take (ls_scalls_count s) (ls_scalls s)) = Scan_found (i, e)"
    and "scall_select h r t i e s = Inr (None, j, e, None)"
    and "length (ls_tracked s) < LSM_HOOK_ENTRIES"
    and "s' = snd (ksu_lsm_hook_scalls E h s)"
  shows "ls_slot s' e = r \<and> h \<in> set (ls_tracked s') \<and> ksu_lsm_unhook_scalls ok h s' = s'"
  using assms
  by (simp add: ksu_lsm_hook_scalls_def scalls_geometry_def Let_def ksu_lsm_hook_track_def
      ksu_lsm_unhook_scalls_def set_slot_def set_scall_def set_hook_def)

end
