(* ===== verification/Sel_Decision.thy ===== *)
theory Sel_Decision
  imports Policydb
begin

text \<open>
  Access decisions from a policy that is not the loaded one (\<^verbatim>\<open>kernel/feature/selinux_hide.c\<close>, its
  last part): the stack machine that evaluates constraints, and the computation of an access
  vector with constraints, role transitions and type bounds. Levels of the multi-level policy and
  the conditional table are the kernel's and a parameter. The callers pass no extended
  permissions, so their branches are left out. \<open>BUG\<close> and the failed assertions are \<open>None\<close>.
\<close>

abbreviation (input) "CEXPR_NOT \<equiv> (1 :: u32)"
abbreviation (input) "CEXPR_AND \<equiv> (2 :: u32)"
abbreviation (input) "CEXPR_OR \<equiv> (3 :: u32)"
abbreviation (input) "CEXPR_ATTR \<equiv> (4 :: u32)"
abbreviation (input) "CEXPR_USER \<equiv> (0x1 :: u32)"
abbreviation (input) "CEXPR_ROLE \<equiv> (0x2 :: u32)"
abbreviation (input) "CEXPR_TYPE \<equiv> (0x4 :: u32)"
abbreviation (input) "CEXPR_TARGET \<equiv> (0x8 :: u32)"
abbreviation (input) "CEXPR_XTARGET \<equiv> (0x10 :: u32)"
abbreviation (input) "CEXPR_L1L2 \<equiv> (0x20 :: u32)"
abbreviation (input) "CEXPR_L1H2 \<equiv> (0x40 :: u32)"
abbreviation (input) "CEXPR_H1L2 \<equiv> (0x80 :: u32)"
abbreviation (input) "CEXPR_H1H2 \<equiv> (0x100 :: u32)"
abbreviation (input) "CEXPR_L1H1 \<equiv> (0x200 :: u32)"
abbreviation (input) "CEXPR_L2H2 \<equiv> (0x400 :: u32)"
abbreviation (input) "CEXPR_EQ \<equiv> (1 :: u32)"
abbreviation (input) "CEXPR_NEQ \<equiv> (2 :: u32)"
abbreviation (input) "CEXPR_DOM \<equiv> (3 :: u32)"
abbreviation (input) "CEXPR_DOMBY \<equiv> (4 :: u32)"
abbreviation (input) "CEXPR_INCOMP \<equiv> (5 :: u32)"

definition CEXPR_MAXDEPTH :: nat where "CEXPR_MAXDEPTH = 5"

section \<open>Data\<close>

text \<open>A security context; \<open>'l\<close> is the type of levels, the range has a low and a high one.\<close>

record 'l sel_context =
  cx_user :: u32
  cx_role :: u32
  cx_type :: u32
  cx_low :: 'l
  cx_high :: 'l

record constraint_op =
  co_type :: u32
  co_attr :: u32
  co_op :: u32
  co_names :: "nat set"

record constraint_node =
  cn_permissions :: u32
  cn_expr :: "constraint_op list"

text \<open>
  What a decision reads of a policy: the table, the attributes of each type, the constraints of
  each class, the roles each role dominates, the bounds of each type (0 for none; \<open>None\<close> for a
  null pointer), the allowed role changes, the process class and its transition permissions.
\<close>

record sec_policy =
  sp_avtab :: "avtab_node list"
  sp_type_attrs :: "nat set list"
  sp_classes :: "constraint_node list list"
  sp_dominates :: "nat set list"
  sp_bounds :: "u32 option list"
  sp_role_allow :: "(u32 \<times> u32) list"
  sp_process_class :: u16
  sp_process_trans :: u32
  sp_permissive :: "nat set"
  sp_allow_unknown :: bool
  sp_latest_granting :: u32

record av_decision =
  avd_allowed :: u32
  avd_auditallow :: u32
  avd_auditdeny :: u32
  avd_seqno :: u32
  avd_flags :: u32

text \<open>The functions of the kernel: those on levels, and \<open>cond_compute_av\<close>.\<close>

record 'l sec_lib =
  sl_level_eq :: "'l \<Rightarrow> 'l \<Rightarrow> bool"
  sl_level_dom :: "'l \<Rightarrow> 'l \<Rightarrow> bool"
  sl_level_incomp :: "'l \<Rightarrow> 'l \<Rightarrow> bool"
  sl_cond :: "avtab_key \<Rightarrow> av_decision \<Rightarrow> av_decision"

text \<open>\<open>ebitmap_get_bit (e, v - 1)\<close>, with the difference of unsigned numbers.\<close>

definition value_bit :: "nat set \<Rightarrow> u32 \<Rightarrow> bool" where
  "value_bit e v \<longleftrightarrow> unat (v - 1) \<in> e"

section \<open>Constraint expressions\<close>

text \<open>A comparison of levels.\<close>

definition mls_ops :: "'l sec_lib \<Rightarrow> u32 \<Rightarrow> 'l \<Rightarrow> 'l \<Rightarrow> bool option" where
  "mls_ops L opc l1 l2 =
     (if opc = CEXPR_EQ then Some (sl_level_eq L l1 l2)
      else if opc = CEXPR_NEQ then Some (\<not> sl_level_eq L l1 l2)
      else if opc = CEXPR_DOM then Some (sl_level_dom L l1 l2)
      else if opc = CEXPR_DOMBY then Some (sl_level_dom L l2 l1)
      else if opc = CEXPR_INCOMP then Some (sl_level_incomp L l2 l1)
      else None)"

definition eq_ops :: "u32 \<Rightarrow> bool \<Rightarrow> bool option" where
  "eq_ops opc b = (if opc = CEXPR_EQ then Some b else if opc = CEXPR_NEQ then Some (\<not> b) else None)"

text \<open>The value \<open>CEXPR_ATTR\<close> pushes.\<close>

definition attr_value ::
    "'l sec_lib \<Rightarrow> sec_policy \<Rightarrow> 'l sel_context \<Rightarrow> 'l sel_context \<Rightarrow> constraint_op \<Rightarrow> bool option" where
  "attr_value L P sc tc e =
     (let a = co_attr e; opc = co_op e in
      if a = CEXPR_USER then eq_ops opc (cx_user sc = cx_user tc)
      else if a = CEXPR_TYPE then eq_ops opc (cx_type sc = cx_type tc)
      else if a = CEXPR_ROLE then
        let r1 = sp_dominates P ! unat (cx_role sc - 1); r2 = sp_dominates P ! unat (cx_role tc - 1) in
        if opc = CEXPR_DOM then Some (value_bit r1 (cx_role tc))
        else if opc = CEXPR_DOMBY then Some (value_bit r2 (cx_role sc))
        else if opc = CEXPR_INCOMP then Some (\<not> value_bit r1 (cx_role tc) \<and> \<not> value_bit r2 (cx_role sc))
        else eq_ops opc (cx_role sc = cx_role tc)
      else if a = CEXPR_L1L2 then mls_ops L opc (cx_low sc) (cx_low tc)
      else if a = CEXPR_L1H2 then mls_ops L opc (cx_low sc) (cx_high tc)
      else if a = CEXPR_H1L2 then mls_ops L opc (cx_high sc) (cx_low tc)
      else if a = CEXPR_H1H2 then mls_ops L opc (cx_high sc) (cx_high tc)
      else if a = CEXPR_L1H1 then mls_ops L opc (cx_low sc) (cx_high sc)
      else if a = CEXPR_L2H2 then mls_ops L opc (cx_low tc) (cx_high tc)
      else None)"

text \<open>The value \<open>CEXPR_NAMES\<close> pushes; \<open>xc\<close> is the third context, which decisions do not have.\<close>

definition names_value ::
    "'l sel_context \<Rightarrow> 'l sel_context \<Rightarrow> 'l sel_context option \<Rightarrow> constraint_op \<Rightarrow> bool option" where
  "names_value sc tc xc e =
     (case (if co_attr e AND CEXPR_TARGET \<noteq> 0 then Some tc
            else if co_attr e AND CEXPR_XTARGET \<noteq> 0 then xc else Some sc) of
        None \<Rightarrow> None
      | Some c \<Rightarrow>
          if co_attr e AND CEXPR_USER \<noteq> 0 then eq_ops (co_op e) (value_bit (co_names e) (cx_user c))
          else if co_attr e AND CEXPR_ROLE \<noteq> 0 then eq_ops (co_op e) (value_bit (co_names e) (cx_role c))
          else if co_attr e AND CEXPR_TYPE \<noteq> 0 then eq_ops (co_op e) (value_bit (co_names e) (cx_type c))
          else None)"

text \<open>
  One element of the expression on the stack, whose top is the first element: the machine stops in
  a bug, answers 0 because the stack is full, or goes on.
\<close>

datatype cexpr_step = Cexpr_bug | Cexpr_full | Cexpr_go "bool list"

definition push_value :: "bool option \<Rightarrow> bool list \<Rightarrow> cexpr_step" where
  "push_value v st = (case v of None \<Rightarrow> Cexpr_bug | Some b \<Rightarrow> Cexpr_go (b # st))"

definition constraint_step ::
    "'l sec_lib \<Rightarrow> sec_policy \<Rightarrow> 'l sel_context \<Rightarrow> 'l sel_context \<Rightarrow> 'l sel_context option \<Rightarrow>
     constraint_op \<Rightarrow> bool list \<Rightarrow> cexpr_step" where
  "constraint_step L P sc tc xc e st =
     (if co_type e = CEXPR_NOT then
        (case st of b # rest \<Rightarrow> Cexpr_go ((\<not> b) # rest) | _ \<Rightarrow> Cexpr_bug)
      else if co_type e = CEXPR_AND then
        (case st of b # a # rest \<Rightarrow> Cexpr_go ((a \<and> b) # rest) | _ \<Rightarrow> Cexpr_bug)
      else if co_type e = CEXPR_OR then
        (case st of b # a # rest \<Rightarrow> Cexpr_go ((a \<or> b) # rest) | _ \<Rightarrow> Cexpr_bug)
      else if co_type e = CEXPR_ATTR then
        (if length st = CEXPR_MAXDEPTH then Cexpr_full else push_value (attr_value L P sc tc e) st)
      else if co_type e = CEXPR_NAMES then
        (if length st = CEXPR_MAXDEPTH then Cexpr_full else push_value (names_value sc tc xc e) st)
      else Cexpr_bug)"

fun constraint_loop ::
    "'l sec_lib \<Rightarrow> sec_policy \<Rightarrow> 'l sel_context \<Rightarrow> 'l sel_context \<Rightarrow> 'l sel_context option \<Rightarrow>
     constraint_op list \<Rightarrow> bool list \<Rightarrow> bool option" where
  "constraint_loop L P sc tc xc [] st = (case st of [b] \<Rightarrow> Some b | _ \<Rightarrow> None)"
| "constraint_loop L P sc tc xc (e # es) st =
     (case constraint_step L P sc tc xc e st of
        Cexpr_bug \<Rightarrow> None
      | Cexpr_full \<Rightarrow> Some False
      | Cexpr_go st' \<Rightarrow> constraint_loop L P sc tc xc es st')"

definition constraint_expr_eval ::
    "'l sec_lib \<Rightarrow> sec_policy \<Rightarrow> 'l sel_context \<Rightarrow> 'l sel_context \<Rightarrow> 'l sel_context option \<Rightarrow>
     constraint_op list \<Rightarrow> bool option" where
  "constraint_expr_eval L P sc tc xc es = constraint_loop L P sc tc xc es []"

section \<open>Access vectors\<close>

definition avd_init :: "sec_policy \<Rightarrow> av_decision" where
  "avd_init P = \<lparr>avd_allowed = 0, avd_auditallow = 0, avd_auditdeny = 0xFFFFFFFF,
     avd_seqno = sp_latest_granting P, avd_flags = 0\<rparr>"

definition add_av_node :: "avtab_node \<Rightarrow> av_decision \<Rightarrow> av_decision" where
  "add_av_node n avd =
     (if ak_spec (an_key n) = AVTAB_ALLOWED then avd\<lparr>avd_allowed := avd_allowed avd OR an_data n\<rparr>
      else if ak_spec (an_key n) = AVTAB_AUDITALLOW then avd\<lparr>avd_auditallow := avd_auditallow avd OR an_data n\<rparr>
      else if ak_spec (an_key n) = AVTAB_AUDITDENY then avd\<lparr>avd_auditdeny := avd_auditdeny avd AND an_data n\<rparr>
      else avd)"

text \<open>The loop over the nodes of a key, with the number of nodes as its bound.\<close>

fun add_av_nodes :: "ss_lib \<Rightarrow> nat \<Rightarrow> avtab_node list \<Rightarrow> nat option \<Rightarrow> av_decision \<Rightarrow> av_decision" where
  "add_av_nodes K fuel ns None avd = avd"
| "add_av_nodes K 0 ns (Some i) avd = avd"
| "add_av_nodes K (Suc fuel) ns (Some i) avd =
     add_av_nodes K fuel ns (ss_next K ns i (AVTAB_AV OR AVTAB_XPERMS)) (add_av_node (ns ! i) avd)"

definition add_av_key ::
    "ss_lib \<Rightarrow> 'l sec_lib \<Rightarrow> sec_policy \<Rightarrow> u16 \<Rightarrow> nat \<times> nat \<Rightarrow> av_decision \<Rightarrow> av_decision" where
  "add_av_key K L P tclass ij avd =
     (let k = \<lparr>ak_source = of_nat (fst ij + 1), ak_target = of_nat (snd ij + 1), ak_class = tclass,
               ak_spec = AVTAB_AV OR AVTAB_XPERMS\<rparr>;
          ns = sp_avtab P
      in sl_cond L k (add_av_nodes K (length ns) ns (ss_search K ns k) avd))"

definition attr_pairs :: "sec_policy \<Rightarrow> 'l sel_context \<Rightarrow> 'l sel_context \<Rightarrow> (nat \<times> nat) list" where
  "attr_pairs P sc tc =
     List.product (sorted_list_of_set (sp_type_attrs P ! unat (cx_type sc - 1)))
       (sorted_list_of_set (sp_type_attrs P ! unat (cx_type tc - 1)))"

fun apply_constraints ::
    "'l sec_lib \<Rightarrow> sec_policy \<Rightarrow> 'l sel_context \<Rightarrow> 'l sel_context \<Rightarrow> constraint_node list \<Rightarrow> u32 \<Rightarrow> u32 option" where
  "apply_constraints L P sc tc [] allowed = Some allowed"
| "apply_constraints L P sc tc (c # cs) allowed =
     (if cn_permissions c AND allowed = 0 then apply_constraints L P sc tc cs allowed
      else
        (case constraint_expr_eval L P sc tc None (cn_expr c) of
           None \<Rightarrow> None
         | Some b \<Rightarrow>
             apply_constraints L P sc tc cs (if b then allowed else allowed AND NOT (cn_permissions c))))"

definition role_transition :: "sec_policy \<Rightarrow> 'l sel_context \<Rightarrow> 'l sel_context \<Rightarrow> u16 \<Rightarrow> u32 \<Rightarrow> u32" where
  "role_transition P sc tc tclass allowed =
     (if tclass = sp_process_class P \<and> allowed AND sp_process_trans P \<noteq> 0 \<and> cx_role sc \<noteq> cx_role tc \<and>
         \<not> list_ex (\<lambda>ra. cx_role sc = fst ra \<and> cx_role tc = snd ra) (sp_role_allow P)
      then allowed AND NOT (sp_process_trans P) else allowed)"

text \<open>
  \<open>context_struct_compute_av\<close> with \<open>type_attribute_bounds_av\<close>, which calls it for the bounding
  types; \<open>fuel\<close> bounds these calls.
\<close>

fun context_struct_compute_av ::
    "ss_lib \<Rightarrow> 'l sec_lib \<Rightarrow> sec_policy \<Rightarrow> nat \<Rightarrow> 'l sel_context \<Rightarrow> 'l sel_context \<Rightarrow> u16 \<Rightarrow>
     av_decision \<Rightarrow> av_decision option" where
  "context_struct_compute_av K L P 0 sc tc tclass avd = None"
| "context_struct_compute_av K L P (Suc fuel) sc tc tclass avd0 =
     (let avd = avd0\<lparr>avd_allowed := 0, avd_auditallow := 0, avd_auditdeny := 0xFFFFFFFF\<rparr> in
      if tclass = 0 \<or> length (sp_classes P) < unat tclass then Some avd
      else
        let avd1 = fold (add_av_key K L P tclass) (attr_pairs P sc tc) avd in
        (case apply_constraints L P sc tc (sp_classes P ! unat (tclass - 1)) (avd_allowed avd1) of
           None \<Rightarrow> None
         | Some allowed \<Rightarrow>
             let avd2 = avd1\<lparr>avd_allowed := role_transition P sc tc tclass allowed\<rparr> in
             (case sp_bounds P ! unat (cx_type sc - 1) of
                None \<Rightarrow> None
              | Some sb \<Rightarrow>
                  if sb = 0 then Some avd2
                  else
                    (case sp_bounds P ! unat (cx_type tc - 1) of
                       None \<Rightarrow> None
                     | Some tb \<Rightarrow>
                         (case context_struct_compute_av K L P fuel (sc\<lparr>cx_type := sb\<rparr>)
                             (if tb = 0 then tc else tc\<lparr>cx_type := tb\<rparr>) tclass
                             \<lparr>avd_allowed = 0, avd_auditallow = 0, avd_auditdeny = 0, avd_seqno = 0, avd_flags = 0\<rparr> of
                            None \<Rightarrow> None
                          | Some lo \<Rightarrow>
                              let masked = NOT (avd_allowed lo) AND avd_allowed avd2 in
                              Some (if masked = 0 then avd2
                                    else avd2\<lparr>avd_allowed := avd_allowed avd2 AND NOT masked\<rparr>))))))"

text \<open>
  \<open>security_compute_av_user_with_policy\<close>; \<open>lookup\<close> is \<open>sidtab_search\<close> of the policy's table of
  security ids. \<open>kernel_av\<close> is the kernel's own function for the vector when its symbol is found;
  the one above is the copy used otherwise.
\<close>

definition security_compute_av_user_with_policy ::
    "ss_lib \<Rightarrow> 'l sec_lib \<Rightarrow> sec_policy \<Rightarrow> nat \<Rightarrow>
     ('l sel_context \<Rightarrow> 'l sel_context \<Rightarrow> u16 \<Rightarrow> av_decision \<Rightarrow> av_decision option) option \<Rightarrow>
     (u32 \<Rightarrow> 'l sel_context option) \<Rightarrow> u32 \<Rightarrow> u32 \<Rightarrow> u16 \<Rightarrow> av_decision option" where
  "security_compute_av_user_with_policy K L P fuel kernel_av lookup ssid tsid tclass =
     (let avd = avd_init P in
      case lookup ssid of
        None \<Rightarrow> Some avd
      | Some sc \<Rightarrow>
          let avd1 = (if unat (cx_type sc) \<in> sp_permissive P then avd\<lparr>avd_flags := avd_flags avd OR 1\<rparr> else avd) in
          (case lookup tsid of
             None \<Rightarrow> Some avd1
           | Some tc \<Rightarrow>
               if tclass = 0 then
                 Some (if sp_allow_unknown P then avd1\<lparr>avd_allowed := 0xFFFFFFFF\<rparr> else avd1)
               else
                 (case kernel_av of
                    Some f \<Rightarrow> f sc tc tclass avd1
                  | None \<Rightarrow> context_struct_compute_av K L P fuel sc tc tclass avd1)))"

end
