(* ===== verification/Sel_Access.thy ===== *)
theory Sel_Access
  imports Sel_Decision Sepolicy_Wf
begin

text \<open>
  The stack machine for constraints computes the value of the expression it was compiled from, and
  the access vector is the relation \<open>permitted\<close> of the policy: what a rule for the attributes of
  the types grants, no constraint forbids, the role change allows and the bounding types have too.
\<close>

section \<open>Expressions as trees\<close>

datatype cexpr = Cx_leaf constraint_op | Cx_not cexpr | Cx_and cexpr cexpr | Cx_or cexpr cexpr

definition connective :: "u32 \<Rightarrow> constraint_op" where
  "connective t = \<lparr>co_type = t, co_attr = 0, co_op = 0, co_names = {}\<rparr>"

primrec postfix :: "cexpr \<Rightarrow> constraint_op list" where
  "postfix (Cx_leaf e) = [e]"
| "postfix (Cx_not x) = postfix x @ [connective CEXPR_NOT]"
| "postfix (Cx_and x y) = postfix x @ postfix y @ [connective CEXPR_AND]"
| "postfix (Cx_or x y) = postfix x @ postfix y @ [connective CEXPR_OR]"

primrec leaves :: "cexpr \<Rightarrow> constraint_op set" where
  "leaves (Cx_leaf e) = {e}"
| "leaves (Cx_not x) = leaves x"
| "leaves (Cx_and x y) = leaves x \<union> leaves y"
| "leaves (Cx_or x y) = leaves x \<union> leaves y"

text \<open>The stack an expression needs.\<close>

primrec stack_need :: "cexpr \<Rightarrow> nat" where
  "stack_need (Cx_leaf e) = 1"
| "stack_need (Cx_not x) = stack_need x"
| "stack_need (Cx_and x y) = max (stack_need x) (stack_need y + 1)"
| "stack_need (Cx_or x y) = max (stack_need x) (stack_need y + 1)"

definition leaf_value ::
    "'l sec_lib \<Rightarrow> sec_policy \<Rightarrow> 'l sel_context \<Rightarrow> 'l sel_context \<Rightarrow> 'l sel_context option \<Rightarrow>
     constraint_op \<Rightarrow> bool option" where
  "leaf_value L P sc tc xc e =
     (if co_type e = CEXPR_ATTR then attr_value L P sc tc e
      else if co_type e = CEXPR_NAMES then names_value sc tc xc e else None)"

primrec cexpr_value :: "(constraint_op \<Rightarrow> bool option) \<Rightarrow> cexpr \<Rightarrow> bool" where
  "cexpr_value v (Cx_leaf e) = (v e = Some True)"
| "cexpr_value v (Cx_not x) = (\<not> cexpr_value v x)"
| "cexpr_value v (Cx_and x y) = (cexpr_value v x \<and> cexpr_value v y)"
| "cexpr_value v (Cx_or x y) = (cexpr_value v x \<or> cexpr_value v y)"

lemma stack_need_pos: "0 < stack_need x"
  by (induction x) auto

lemma leaf_step:
  assumes "leaf_value L P sc tc xc e = Some b" "length st \<le> CEXPR_MAXDEPTH"
  shows "constraint_step L P sc tc xc e st =
    (if length st < CEXPR_MAXDEPTH then Cexpr_go (b # st) else Cexpr_full)"
  using assms by (auto simp: leaf_value_def constraint_step_def push_value_def split: if_splits)

lemma connective_step:
  "constraint_step L P sc tc xc (connective CEXPR_NOT) (b # st) = Cexpr_go ((\<not> b) # st)"
  "constraint_step L P sc tc xc (connective CEXPR_AND) (b # a # st) = Cexpr_go ((a \<and> b) # st)"
  "constraint_step L P sc tc xc (connective CEXPR_OR) (b # a # st) = Cexpr_go ((a \<or> b) # st)"
  by (simp_all add: constraint_step_def connective_def)

text \<open>A tree in front of other elements leaves its value on the stack, or ends the evaluation.\<close>

lemma postfix_loop:
  assumes "\<And>e. e \<in> leaves x \<Longrightarrow> leaf_value L P sc tc xc e \<noteq> None" "length st \<le> CEXPR_MAXDEPTH"
  shows "constraint_loop L P sc tc xc (postfix x @ es) st =
    (if length st + stack_need x \<le> CEXPR_MAXDEPTH
     then constraint_loop L P sc tc xc es (cexpr_value (leaf_value L P sc tc xc) x # st) else Some False)"
  using assms
proof (induction x arbitrary: st es)
  case (Cx_leaf e)
  then obtain b where "leaf_value L P sc tc xc e = Some b" by auto
  with leaf_step [OF this Cx_leaf.prems(2)] show ?case by auto
next
  case (Cx_not x) then show ?case by (simp add: connective_step)
next
  case (Cx_and x y)
  then show ?case
    using Cx_and.IH(1) [of st "postfix y @ connective CEXPR_AND # es"] stack_need_pos [of x] stack_need_pos [of y]
      Cx_and.IH(2) [of "cexpr_value (leaf_value L P sc tc xc) x # st" "connective CEXPR_AND # es"]
    by (auto simp: connective_step)
next
  case (Cx_or x y)
  then show ?case
    using Cx_or.IH(1) [of st "postfix y @ connective CEXPR_OR # es"] stack_need_pos [of x] stack_need_pos [of y]
      Cx_or.IH(2) [of "cexpr_value (leaf_value L P sc tc xc) x # st" "connective CEXPR_OR # es"]
    by (auto simp: connective_step)
qed

text \<open>
  C37: Constraints mean what they say. For every expression tree whose leaves are comparisons the
  kernel knows, the stack machine run on its postfix form answers the value of the tree when five
  stack cells are enough, and no otherwise; it never reaches an assertion.
\<close>

theorem constraint_machine_correct:
  assumes "\<forall>e\<in>leaves x. leaf_value L P sc tc xc e \<noteq> None"
  shows "constraint_expr_eval L P sc tc xc (postfix x) =
    Some (stack_need x \<le> 5 \<and> cexpr_value (leaf_value L P sc tc xc) x)"
  using postfix_loop [of x L P sc tc xc "[]" "[]"] assms
  by (auto simp: constraint_expr_eval_def CEXPR_MAXDEPTH_def)

text \<open>Contexts with numbers as levels.\<close>

definition num_levels :: "nat sec_lib" where
  "num_levels = \<lparr>sl_level_eq = (=), sl_level_dom = (\<ge>), sl_level_incomp = (\<lambda>_ _. False),
     sl_cond = (\<lambda>_ avd. avd)\<rparr>"

definition ctx :: "u32 \<Rightarrow> nat \<Rightarrow> nat sel_context" where
  "ctx t l = \<lparr>cx_user = 1, cx_role = 1, cx_type = t, cx_low = l, cx_high = l\<rparr>"

definition bounded_policy :: sec_policy where
  "bounded_policy =
     \<lparr>sp_avtab = [\<lparr>an_key = \<lparr>ak_source = 1, ak_target = 2, ak_class = 1, ak_spec = 1\<rparr>, an_data = 3, an_xperms = None\<rparr>,
        \<lparr>an_key = \<lparr>ak_source = 2, ak_target = 2, ak_class = 1, ak_spec = 1\<rparr>, an_data = 1, an_xperms = None\<rparr>],
      sp_type_attrs = [{0}, {1}], sp_classes = [[]], sp_dominates = [{0}], sp_bounds = [Some 2, Some 0],
      sp_role_allow = [], sp_process_class = 2, sp_process_trans = 2, sp_permissive = {},
      sp_allow_unknown = False, sp_latest_granting = 1\<rparr>"

text \<open>The low level of the first dominates that of the second, and not both types are equal.\<close>

definition dom_not_same :: cexpr where
  "dom_not_same = Cx_and
     (Cx_leaf \<lparr>co_type = CEXPR_ATTR, co_attr = CEXPR_L1L2, co_op = CEXPR_DOM, co_names = {}\<rparr>)
     (Cx_not (Cx_leaf \<lparr>co_type = CEXPR_ATTR, co_attr = CEXPR_TYPE, co_op = CEXPR_EQ, co_names = {}\<rparr>))"

theorem constraint_machine_correct_witness:
  "constraint_expr_eval num_levels bounded_policy (ctx 1 4) (ctx 2 3) None (postfix dom_not_same) = Some True"
proof -
  have "\<forall>e\<in>leaves dom_not_same.
      leaf_value num_levels bounded_policy (ctx 1 4) (ctx 2 3) None e \<noteq> None"
    by (simp add: dom_not_same_def leaf_value_def attr_value_def mls_ops_def eq_ops_def)
  from constraint_machine_correct [OF this] show ?thesis
    by (simp add: dom_not_same_def leaf_value_def attr_value_def mls_ops_def eq_ops_def num_levels_def ctx_def)
qed

section \<open>Rules for a key\<close>

definition grants :: "avtab_key \<Rightarrow> nat \<Rightarrow> avtab_node \<Rightarrow> bool" where
  "grants k b n \<longleftrightarrow> same_ids k (an_key n) \<and> ak_spec (an_key n) = AVTAB_ALLOWED \<and> bit (an_data n) b"

lemma add_av_node_bit:
  "bit (avd_allowed (add_av_node n avd)) b \<longleftrightarrow>
    bit (avd_allowed avd) b \<or> (ak_spec (an_key n) = AVTAB_ALLOWED \<and> bit (an_data n) b)"
  by (auto simp: add_av_node_def bit_or_iff)

lemma ex_from:
  fixes m :: nat
  assumes "i \<le> m" "m < l" "\<And>j. i \<le> j \<Longrightarrow> j < m \<Longrightarrow> \<not> Q j"
  shows "(\<exists>j. i \<le> j \<and> j < l \<and> Q j) \<longleftrightarrow> Q m \<or> (\<exists>j. Suc m \<le> j \<and> j < l \<and> Q j)"
proof
  assume "\<exists>j. i \<le> j \<and> j < l \<and> Q j"
  then obtain j where j: "i \<le> j" "j < l" "Q j" by blast
  consider "j < m" | "j = m" | "Suc m \<le> j" by linarith
  then show "Q m \<or> (\<exists>j. Suc m \<le> j \<and> j < l \<and> Q j)" using j assms(3) by cases blast+
next
  assume "Q m \<or> (\<exists>j. Suc m \<le> j \<and> j < l \<and> Q j)"
  then show "\<exists>j. i \<le> j \<and> j < l \<and> Q j" using assms(1,2) Suc_leD le_trans by blast
qed

lemma add_av_nodes_bit:
  assumes "ss_ok K" "ak_spec k = AVTAB_AV OR AVTAB_XPERMS" "length ns - i \<le> fuel"
  shows "bit (avd_allowed (add_av_nodes K fuel ns (first_from (av_match k) i ns) avd)) b \<longleftrightarrow>
    bit (avd_allowed avd) b \<or> (\<exists>j. i \<le> j \<and> j < length ns \<and> grants k b (ns ! j))"
  using assms(3)
proof (induction fuel arbitrary: i avd)
  case 0
  then have "first_from (av_match k) i ns = None" by (auto simp: first_from_None)
  then show ?case using 0 by auto
next
  case (Suc fuel)
  have g: "grants k b n \<Longrightarrow> av_match k n" for n
    using assms(2) by (auto simp: grants_def av_match_def)
  show ?case
  proof (cases "first_from (av_match k) i ns")
    case None
    then have "\<not> (\<exists>j. i \<le> j \<and> j < length ns \<and> grants k b (ns ! j))"
      using g by (auto simp: first_from_None)
    then show ?thesis unfolding None add_av_nodes.simps by blast
  next
    case (Some m)
    note m = first_from_Some [OF Some]
    have next': "ss_next K ns m (AVTAB_AV OR AVTAB_XPERMS) = first_from (av_match k) (Suc m) ns"
      using assms(1) m same_ids_match [of k "ns ! m"] assms(2) by (auto simp: ss_ok_def av_match_def)
    have "(\<exists>j. i \<le> j \<and> j < length ns \<and> grants k b (ns ! j)) \<longleftrightarrow>
        grants k b (ns ! m) \<or> (\<exists>j. Suc m \<le> j \<and> j < length ns \<and> grants k b (ns ! j))"
      by (rule ex_from) (use m g in blast)+
    moreover have "grants k b (ns ! m) \<longleftrightarrow> ak_spec (an_key (ns ! m)) = AVTAB_ALLOWED \<and> bit (an_data (ns ! m)) b"
      using m by (auto simp: grants_def av_match_def)
    moreover have "length ns - Suc m \<le> fuel" using Suc.prems m by linarith
    ultimately show ?thesis
      unfolding Some add_av_nodes.simps next'
      using Suc.IH [of "Suc m" "add_av_node (ns ! m) avd"] add_av_node_bit [of "ns ! m" avd b] by blast
  qed
qed

definition attr_key :: "nat \<Rightarrow> nat \<Rightarrow> u16 \<Rightarrow> avtab_key" where
  "attr_key i j tclass = \<lparr>ak_source = of_nat (i + 1), ak_target = of_nat (j + 1), ak_class = tclass,
     ak_spec = AVTAB_AV OR AVTAB_XPERMS\<rparr>"

lemma bex_set_nth: "(\<exists>n\<in>set ns. Q n) \<longleftrightarrow> (\<exists>j<length ns. Q (ns ! j))"
  unfolding Bex_def in_set_conv_nth by blast

lemma add_av_key_bit:
  assumes "ss_ok K" "\<And>k avd. sl_cond L k avd = avd"
  shows "bit (avd_allowed (add_av_key K L P tclass ij avd)) b \<longleftrightarrow>
    bit (avd_allowed avd) b \<or> (\<exists>n\<in>set (sp_avtab P). grants (attr_key (fst ij) (snd ij) tclass) b n)"
proof -
  let ?k = "attr_key (fst ij) (snd ij) tclass" and ?ns = "sp_avtab P"
  have "ss_search K ?ns ?k = first_from (av_match ?k) 0 ?ns" using assms(1) by (simp add: ss_ok_def)
  then have "add_av_key K L P tclass ij avd =
      add_av_nodes K (length ?ns) ?ns (first_from (av_match ?k) 0 ?ns) avd"
    using assms(2) by (simp add: add_av_key_def attr_key_def Let_def)
  then show ?thesis
    using add_av_nodes_bit [OF assms(1), of ?k ?ns 0 "length ?ns" avd b]
      bex_set_nth [of ?ns "grants ?k b"] by (simp add: attr_key_def)
qed

lemma fold_av_bit:
  assumes "ss_ok K" "\<And>k avd. sl_cond L k avd = avd"
  shows "bit (avd_allowed (fold (add_av_key K L P tclass) ijs avd)) b \<longleftrightarrow>
    bit (avd_allowed avd) b \<or>
    (\<exists>ij\<in>set ijs. \<exists>n\<in>set (sp_avtab P). grants (attr_key (fst ij) (snd ij) tclass) b n)"
  by (induction ijs arbitrary: avd) (auto simp: add_av_key_bit [OF assms])

section \<open>Constraints\<close>

lemma apply_constraints_bit:
  assumes "\<forall>c\<in>set cs. constraint_expr_eval L P sc tc None (cn_expr c) \<noteq> None"
  shows "\<exists>r. apply_constraints L P sc tc cs a = Some r \<and>
    (\<forall>b. bit r b \<longleftrightarrow> bit a b \<and> (\<forall>c\<in>set cs. bit (cn_permissions c) b \<longrightarrow>
       constraint_expr_eval L P sc tc None (cn_expr c) = Some True))"
  using assms
proof (induction cs arbitrary: a)
  case (Cons c cs)
  obtain v where v: "constraint_expr_eval L P sc tc None (cn_expr c) = Some v" using Cons.prems by auto
  let ?a = "if cn_permissions c AND a = 0 \<or> v then a else a AND NOT (cn_permissions c)"
  have e: "apply_constraints L P sc tc (c # cs) a = apply_constraints L P sc tc cs ?a"
    using v by simp
  have z: "bit a b \<Longrightarrow> bit (cn_permissions c) b \<Longrightarrow> cn_permissions c AND a \<noteq> 0" for b
    by (metis bit_and_iff bit_0_eq bot_apply bot_bool_def)
  have "bit ?a b \<longleftrightarrow> bit a b \<and> (bit (cn_permissions c) b \<longrightarrow> v)" for b
    using z [of b] by (auto simp: bit_and_iff bit_not_iff bit_imp_le_length dest: bit_imp_le_length)
  then show ?case
    using Cons.IH [of ?a] Cons.prems v unfolding e by auto
qed simp

section \<open>What a policy permits\<close>

definition permitted_here ::
    "'l sec_lib \<Rightarrow> sec_policy \<Rightarrow> u16 \<Rightarrow> nat \<Rightarrow> 'l sel_context \<Rightarrow> 'l sel_context \<Rightarrow> bool" where
  "permitted_here L P tclass b sc tc \<longleftrightarrow>
     (\<exists>i\<in>sp_type_attrs P ! unat (cx_type sc - 1). \<exists>j\<in>sp_type_attrs P ! unat (cx_type tc - 1).
        \<exists>n\<in>set (sp_avtab P). grants (attr_key i j tclass) b n) \<and>
     (\<forall>c\<in>set (sp_classes P ! unat (tclass - 1)). bit (cn_permissions c) b \<longrightarrow>
        constraint_expr_eval L P sc tc None (cn_expr c) = Some True) \<and>
     (tclass = sp_process_class P \<and> bit (sp_process_trans P) b \<and> cx_role sc \<noteq> cx_role tc \<longrightarrow>
        (cx_role sc, cx_role tc) \<in> set (sp_role_allow P))"

inductive permitted ::
    "'l sec_lib \<Rightarrow> sec_policy \<Rightarrow> u16 \<Rightarrow> nat \<Rightarrow> 'l sel_context \<Rightarrow> 'l sel_context \<Rightarrow> bool"
  for L :: "'l sec_lib" and P tclass b where
  unbounded: "permitted_here L P tclass b sc tc \<Longrightarrow> sp_bounds P ! unat (cx_type sc - 1) = Some 0 \<Longrightarrow>
    permitted L P tclass b sc tc"
| bounded: "permitted_here L P tclass b sc tc \<Longrightarrow> sp_bounds P ! unat (cx_type sc - 1) = Some sb \<Longrightarrow> sb \<noteq> 0 \<Longrightarrow>
    sp_bounds P ! unat (cx_type tc - 1) = Some tb \<Longrightarrow>
    permitted L P tclass b (sc\<lparr>cx_type := sb\<rparr>) (if tb = 0 then tc else tc\<lparr>cx_type := tb\<rparr>) \<Longrightarrow>
    permitted L P tclass b sc tc"

lemma permitted_iff:
  assumes "sp_bounds P ! unat (cx_type sc - 1) = Some sb" "sp_bounds P ! unat (cx_type tc - 1) = Some tb"
  shows "permitted L P tclass b sc tc \<longleftrightarrow> permitted_here L P tclass b sc tc \<and>
    (sb = 0 \<or> permitted L P tclass b (sc\<lparr>cx_type := sb\<rparr>) (if tb = 0 then tc else tc\<lparr>cx_type := tb\<rparr>))"
  using assms by (subst permitted.simps) auto

text \<open>
  What the security server checks when it loads a policy: constraints that evaluate, types whose
  bounds exist and are bounded less deeply.
\<close>

definition policy_checked :: "'l sec_lib \<Rightarrow> (nat \<Rightarrow> nat) \<Rightarrow> sec_policy \<Rightarrow> bool" where
  "policy_checked L depth P \<longleftrightarrow>
     (\<forall>cs\<in>set (sp_classes P). \<forall>c\<in>set cs. \<forall>sc tc. constraint_expr_eval L P sc tc None (cn_expr c) \<noteq> None) \<and>
     length (sp_type_attrs P) = length (sp_bounds P) \<and> (\<forall>e\<in>set (sp_type_attrs P). finite e) \<and>
     (\<forall>i<length (sp_bounds P). \<exists>v. sp_bounds P ! i = Some v \<and>
        (v \<noteq> 0 \<longrightarrow> unat (v - 1) < length (sp_bounds P) \<and> depth (unat (v - 1)) < depth i))"

lemma policy_bounds:
  assumes "policy_checked L depth P" "i < length (sp_bounds P)"
  shows "\<exists>v. sp_bounds P ! i = Some v \<and>
    (v \<noteq> 0 \<longrightarrow> unat (v - 1) < length (sp_bounds P) \<and> depth (unat (v - 1)) < depth i)"
  using assms by (simp add: policy_checked_def)

lemma role_transition_bit:
  "bit (role_transition P sc tc tclass a) b \<longleftrightarrow> bit a b \<and>
    (tclass = sp_process_class P \<and> bit (sp_process_trans P) b \<and> cx_role sc \<noteq> cx_role tc \<longrightarrow>
       (cx_role sc, cx_role tc) \<in> set (sp_role_allow P))"
proof -
  have z: "bit a b \<Longrightarrow> bit (sp_process_trans P) b \<Longrightarrow> a AND sp_process_trans P \<noteq> 0"
    by (metis bit_and_iff bit_0_eq bot_apply bot_bool_def)
  show ?thesis
    using z by (auto simp: role_transition_def bit_and_iff bit_not_iff list_ex_iff dest: bit_imp_le_length)
qed

lemma masked_bit:
  "bit (a AND NOT (NOT l AND a)) b \<longleftrightarrow> bit (a :: u32) b \<and> bit l b"
  "NOT l AND a = 0 \<Longrightarrow> bit a b \<longleftrightarrow> bit (a :: u32) b \<and> bit l b"
proof -
  show "bit (a AND NOT (NOT l AND a)) b \<longleftrightarrow> bit (a :: u32) b \<and> bit l b"
    by (auto simp: bit_and_iff bit_or_iff bit_not_iff dest: bit_imp_le_length)
  assume "NOT l AND a = 0"
  then have "\<not> bit (NOT l AND a) b" by simp
  then show "bit a b \<longleftrightarrow> bit (a :: u32) b \<and> bit l b"
    by (auto simp: bit_and_iff bit_not_iff dest: bit_imp_le_length)
qed

text \<open>The vector before the bounds.\<close>

definition own_vector ::
    "ss_lib \<Rightarrow> 'l sec_lib \<Rightarrow> sec_policy \<Rightarrow> 'l sel_context \<Rightarrow> 'l sel_context \<Rightarrow> u16 \<Rightarrow> av_decision \<Rightarrow>
     av_decision option" where
  "own_vector K L P sc tc tclass avd0 =
     (let avd1 = fold (add_av_key K L P tclass) (attr_pairs P sc tc)
        (avd0\<lparr>avd_allowed := 0, avd_auditallow := 0, avd_auditdeny := 0xFFFFFFFF\<rparr>) in
      map_option (\<lambda>a. avd1\<lparr>avd_allowed := role_transition P sc tc tclass a\<rparr>)
        (apply_constraints L P sc tc (sp_classes P ! unat (tclass - 1)) (avd_allowed avd1)))"

lemma own_vector_permits:
  assumes K: "ss_ok K" "\<And>k avd. sl_cond L k avd = avd" and P: "policy_checked L depth P"
    and cls: "unat (tclass - 1) < length (sp_classes P)"
    and ty: "unat (cx_type sc - 1) < length (sp_bounds P)" "unat (cx_type tc - 1) < length (sp_bounds P)"
  shows "\<exists>v. own_vector K L P sc tc tclass avd0 = Some v \<and>
    (\<forall>b. bit (avd_allowed v) b \<longleftrightarrow> permitted_here L P tclass b sc tc)"
proof -
  let ?s = "sp_type_attrs P ! unat (cx_type sc - 1)" and ?t = "sp_type_attrs P ! unat (cx_type tc - 1)"
  have fin: "finite ?s" "finite ?t" using P ty by (simp_all add: policy_checked_def)
  define avd1 where "avd1 = fold (add_av_key K L P tclass) (attr_pairs P sc tc)
      (avd0\<lparr>avd_allowed := 0, avd_auditallow := 0, avd_auditdeny := 0xFFFFFFFF\<rparr>)"
  have g: "bit (avd_allowed avd1) b \<longleftrightarrow> (\<exists>i\<in>?s. \<exists>j\<in>?t. \<exists>n\<in>set (sp_avtab P). grants (attr_key i j tclass) b n)" for b
    using fin by (simp add: avd1_def fold_av_bit [OF K] attr_pairs_def)
  have "\<forall>c\<in>set (sp_classes P ! unat (tclass - 1)). constraint_expr_eval L P sc tc None (cn_expr c) \<noteq> None"
    using P nth_mem [OF cls] unfolding policy_checked_def by blast
  from apply_constraints_bit [OF this, of "avd_allowed avd1"]
  obtain r where r: "apply_constraints L P sc tc (sp_classes P ! unat (tclass - 1)) (avd_allowed avd1) = Some r"
    "\<forall>b. bit r b \<longleftrightarrow> bit (avd_allowed avd1) b \<and> (\<forall>c\<in>set (sp_classes P ! unat (tclass - 1)).
       bit (cn_permissions c) b \<longrightarrow> constraint_expr_eval L P sc tc None (cn_expr c) = Some True)" by blast
  then show ?thesis
    by (auto simp: own_vector_def Let_def avd1_def [symmetric] role_transition_bit g permitted_here_def)
qed

lemma compute_own_vector:
  assumes "tclass \<noteq> 0" "unat tclass \<le> length (sp_classes P)"
    and "own_vector K L P sc tc tclass avd0 = Some v"
    and "sp_bounds P ! unat (cx_type sc - 1) = Some sb" "sp_bounds P ! unat (cx_type tc - 1) = Some tb"
  shows "context_struct_compute_av K L P (Suc fuel) sc tc tclass avd0 =
    (if sb = 0 then Some v
     else map_option (\<lambda>lo. if NOT (avd_allowed lo) AND avd_allowed v = 0 then v
          else v\<lparr>avd_allowed := avd_allowed v AND NOT (NOT (avd_allowed lo) AND avd_allowed v)\<rparr>)
       (context_struct_compute_av K L P fuel (sc\<lparr>cx_type := sb\<rparr>) (if tb = 0 then tc else tc\<lparr>cx_type := tb\<rparr>) tclass
         \<lparr>avd_allowed = 0, avd_auditallow = 0, avd_auditdeny = 0, avd_seqno = 0, avd_flags = 0\<rparr>))"
  using assms by (auto simp: own_vector_def Let_def split: option.splits)

declare context_struct_compute_av.simps [simp del]

text \<open>
  C38: The access vector is the policy. For a policy the security server has checked, without
  conditional rules, \<open>context_struct_compute_av\<close> returns within as many nested calls as the depth
  of the type bounds, and the bits it allows are exactly the permissions the policy permits: granted
  to an attribute pair of the two types, not taken by a constraint, not a forbidden change of role,
  and permitted to the bounding types as well.
\<close>

theorem compute_av_permits:
  assumes "ss_ok K" "\<And>k avd. sl_cond L k avd = avd" "policy_checked L depth P"
    and "tclass \<noteq> 0" "unat tclass \<le> length (sp_classes P)"
    and "unat (cx_type sc - 1) < length (sp_bounds P)" "unat (cx_type tc - 1) < length (sp_bounds P)"
    and "depth (unat (cx_type sc - 1)) < fuel"
  shows "\<exists>v. context_struct_compute_av K L P fuel sc tc tclass avd0 = Some v \<and>
    (\<forall>b. bit (avd_allowed v) b \<longleftrightarrow> permitted L P tclass b sc tc)"
  using assms(6-8)
proof (induction fuel arbitrary: sc tc avd0)
  case (Suc fuel)
  have "unat (tclass - 1) < length (sp_classes P)"
    using unat_minus_one [OF assms(4)] assms(5) unat_gt_0 [of tclass] assms(4) by linarith
  from own_vector_permits [OF assms(1-3) this Suc.prems(1,2), of avd0]
  obtain v where v: "own_vector K L P sc tc tclass avd0 = Some v"
    "\<forall>b. bit (avd_allowed v) b \<longleftrightarrow> permitted_here L P tclass b sc tc" by blast
  obtain sb where sb: "sp_bounds P ! unat (cx_type sc - 1) = Some sb"
      "sb \<noteq> 0 \<longrightarrow> unat (sb - 1) < length (sp_bounds P) \<and> depth (unat (sb - 1)) < depth (unat (cx_type sc - 1))"
    using policy_bounds [OF assms(3) Suc.prems(1)] by blast
  obtain tb where tb: "sp_bounds P ! unat (cx_type tc - 1) = Some tb"
      "tb \<noteq> 0 \<longrightarrow> unat (tb - 1) < length (sp_bounds P)"
    using policy_bounds [OF assms(3) Suc.prems(2)] by blast
  note e = compute_own_vector [OF assms(4,5) v(1) sb(1) tb(1), of fuel]
  note p = permitted_iff [OF sb(1) tb(1), of L tclass]
  show ?case
  proof (cases "sb = 0")
    case True then show ?thesis using v(2) by (simp add: e p)
  next
    case False
    let ?sc = "sc\<lparr>cx_type := sb\<rparr>" and ?tc = "if tb = 0 then tc else tc\<lparr>cx_type := tb\<rparr>"
    have "unat (cx_type ?sc - 1) < length (sp_bounds P)" "unat (cx_type ?tc - 1) < length (sp_bounds P)"
      "depth (unat (cx_type ?sc - 1)) < fuel"
      using sb(2) tb(2) False Suc.prems by simp_all
    note IH = Suc.IH [OF this]
    obtain lo where lo: "context_struct_compute_av K L P fuel ?sc ?tc tclass
         \<lparr>avd_allowed = 0, avd_auditallow = 0, avd_auditdeny = 0, avd_seqno = 0, avd_flags = 0\<rparr> = Some lo"
      "\<forall>b. bit (avd_allowed lo) b \<longleftrightarrow> permitted L P tclass b ?sc ?tc"
      using IH by blast
    show ?thesis
      using v(2) lo(2) masked_bit [of "avd_allowed v" "avd_allowed lo"] False
      by (cases "NOT (avd_allowed lo) AND avd_allowed v = 0") (simp_all add: e p lo(1))
  qed
qed simp

theorem compute_av_permits_witness:
  "\<exists>v. context_struct_compute_av ex_lib num_levels bounded_policy 2 (ctx 1 0) (ctx 2 0) 1 (avd_init bounded_policy) = Some v \<and>
     \<not> bit (avd_allowed v) 1"
proof -
  have c: "policy_checked num_levels (\<lambda>i. if i = 0 then 1 else 0) bounded_policy"
    by (auto simp: policy_checked_def bounded_policy_def less_Suc_eq)
  have "\<exists>v. context_struct_compute_av ex_lib num_levels bounded_policy 2 (ctx 1 0) (ctx 2 0) 1 (avd_init bounded_policy) = Some v \<and>
      (\<forall>b. bit (avd_allowed v) b \<longleftrightarrow> permitted num_levels bounded_policy 1 b (ctx 1 0) (ctx 2 0))"
    by (rule compute_av_permits [OF ex_lib_ok _ c]) (simp_all add: num_levels_def bounded_policy_def ctx_def)
  moreover have "\<not> permitted_here num_levels bounded_policy 1 1 (ctx 2 0) (ctx 2 0)"
    by (simp add: permitted_here_def bounded_policy_def ctx_def grants_def attr_key_def same_ids_def bit_1_iff)
  then have "\<not> permitted num_levels bounded_policy 1 1 (ctx 2 0) (ctx 2 0)"
    by (auto elim: permitted.cases)
  then have "\<not> permitted num_levels bounded_policy 1 1 (ctx 1 0) (ctx 2 0)"
    using permitted_iff [of bounded_policy "ctx 1 0" 2 "ctx 2 0" 0 num_levels 1 1]
    by (simp add: bounded_policy_def ctx_def)
  ultimately show ?thesis by blast
qed

end
