(* ===== verification/Selinux_Hide.thy ===== *)
theory Selinux_Hide
  imports Lsm_Hook Feature Sel_Decision
begin

text \<open>
  Hiding the changes of the policy from applications (\<^verbatim>\<open>kernel/feature/selinux_hide.c\<close>, its first
  part): three functions of the kernel are replaced while the feature runs, so that applications get
  their answers about contexts and access from the backup policy, and the function that opens the
  status page, so that they see a page that says enforcing. The slots that hold these functions, the
  status page and the backup policy are state; symbol search, allocations and text patching are
  outcomes. The security hook is installed as before 6.12.
\<close>

section \<open>State\<close>

datatype sel_fn = Kernel_fn nat | My_write_context | My_write_access | My_setprocattr | My_sel_open_handle_status

record kernel_status =
  ks_sequence :: u32
  ks_enforcing :: u32
  ks_policyload :: u32

text \<open>
  \<open>hd_context\<close>, \<open>hd_access\<close> are the entries of \<open>write_op\<close> and \<open>hd_open\<close> the \<open>open\<close> of
  \<open>sel_handle_status_ops\<close>, with the functions saved for them; \<open>hd_open_known\<close> says that the slot
  has been found. The hook 0 of \<open>hd_lsm\<close> is \<open>selinux_setprocattr_hook\<close>.
\<close>

record hide_state =
  hd_enabled :: bool
  hd_running :: bool
  hd_backup :: bool
  hd_context :: sel_fn
  hd_access :: sel_fn
  hd_open :: sel_fn
  hd_orig_context :: "sel_fn option"
  hd_orig_access :: "sel_fn option"
  hd_open_known :: bool
  hd_orig_open :: "sel_fn option"
  hd_lsm :: "sel_fn lsm_state"
  hd_fake_status :: "kernel_status option"
  hd_initialize_key :: bool
  hd_status_page :: "kernel_status option"

datatype hide_slot = Slot_context | Slot_access | Slot_open | Slot_setprocattr

record hide_env =
  hv_write_op :: bool
  hv_status_ops :: bool
  hv_patch :: "hide_slot \<Rightarrow> bool"
  hv_unpatch :: "hide_slot \<Rightarrow> bool"
  hv_lsm :: "sel_fn lsm_env"
  hv_page :: bool
  hv_late_loaded :: bool

section \<open>Installing and removing\<close>

definition hook_selinux_status_open :: "hide_env \<Rightarrow> hide_state \<Rightarrow> hide_state" where
  "hook_selinux_status_open E s =
     (if hd_orig_open s \<noteq> None then s
      else if \<not> hd_open_known s \<and> \<not> hv_status_ops E then s
      else if hv_patch E Slot_open
      then s\<lparr>hd_open_known := True, hd_orig_open := Some (hd_open s), hd_open := My_sel_open_handle_status\<rparr>
      else s\<lparr>hd_open_known := False, hd_orig_open := None\<rparr>)"

text \<open>Each saved function is put back and forgotten, whether patching succeeds or not.\<close>

definition unhook_context :: "bool \<Rightarrow> hide_state \<Rightarrow> hide_state" where
  "unhook_context ok s =
     (case hd_orig_context s of
        None \<Rightarrow> s
      | Some f \<Rightarrow> s\<lparr>hd_context := (if ok then f else hd_context s), hd_orig_context := None\<rparr>)"

definition unhook_access :: "bool \<Rightarrow> hide_state \<Rightarrow> hide_state" where
  "unhook_access ok s =
     (case hd_orig_access s of
        None \<Rightarrow> s
      | Some f \<Rightarrow> s\<lparr>hd_access := (if ok then f else hd_access s), hd_orig_access := None\<rparr>)"

definition unhook_open :: "bool \<Rightarrow> hide_state \<Rightarrow> hide_state" where
  "unhook_open ok s =
     (case hd_orig_open s of
        None \<Rightarrow> s
      | Some f \<Rightarrow>
          if hd_open_known s then s\<lparr>hd_open := (if ok then f else hd_open s), hd_orig_open := None\<rparr> else s)"

definition ksu_selinux_hide_unhook :: "hide_env \<Rightarrow> hide_state \<Rightarrow> hide_state" where
  "ksu_selinux_hide_unhook E s =
     (let s1 = unhook_open (hv_unpatch E Slot_open)
        (unhook_access (hv_unpatch E Slot_access) (unhook_context (hv_unpatch E Slot_context) s))
      in s1\<lparr>hd_lsm := ksu_lsm_unhook (hv_unpatch E Slot_setprocattr) 0 (hd_lsm s1)\<rparr>)"

definition ksu_selinux_hide_enable :: "hide_env \<Rightarrow> hide_state \<Rightarrow> (errno + unit) \<times> hide_state" where
  "ksu_selinux_hide_enable E s =
     (if \<not> hd_backup s then (Inl EAGAIN, s)
      else if \<not> hv_write_op E then (Inl ENOSYS, s)
      else
        let s1 = hook_selinux_status_open E s;
            s2 = s1\<lparr>hd_orig_context := Some (hd_context s1)\<rparr>
        in if \<not> hv_patch E Slot_context then (Inl ENOSYS, ksu_selinux_hide_unhook E s2)
           else
             let s3 = s2\<lparr>hd_context := My_write_context\<rparr>;
                 s4 = s3\<lparr>hd_orig_access := Some (hd_access s3)\<rparr>
             in if \<not> hv_patch E Slot_access then (Inl ENOSYS, ksu_selinux_hide_unhook E s4)
                else
                  let s5 = s4\<lparr>hd_access := My_write_access\<rparr>;
                      r = ksu_lsm_hook (hv_lsm E) 0 (hd_lsm s5);
                      s6 = s5\<lparr>hd_lsm := snd r\<rparr>
                  in if fst r \<noteq> 0 then (Inl ENOSYS, ksu_selinux_hide_unhook E s6) else (Inr (), s6))"

definition selinux_hide_feature_get :: "hide_state \<Rightarrow> u64" where
  "selinux_hide_feature_get s = (if hd_enabled s then 1 else 0)"

definition selinux_hide_feature_set :: "hide_env \<Rightarrow> u64 \<Rightarrow> hide_state \<Rightarrow> (errno + unit) \<times> hide_state" where
  "selinux_hide_feature_set E value s =
     (let enable = value \<noteq> 0; s1 = s\<lparr>hd_enabled := enable\<rparr> in
      if enable then
        if hd_running s1 then (Inr (), s1)
        else
          let r = ksu_selinux_hide_enable E s1
          in (fst r, if fst r = Inr () then (snd r)\<lparr>hd_running := True\<rparr> else snd r)
      else if hd_running s1 then (Inr (), (ksu_selinux_hide_unhook E s1)\<lparr>hd_running := False\<rparr>)
      else (Inr (), s1))"

definition selinux_hide_handler :: "hide_env \<Rightarrow> hide_state feature_handler" where
  "selinux_hide_handler E = \<lparr>fh_feature_id = KSU_FEATURE_SELINUX_HIDE,
     fh_get_handler = Some (\<lambda>s. Inr (selinux_hide_feature_get s)),
     fh_set_handler = Some (selinux_hide_feature_set E)\<rparr>"

section \<open>The status page\<close>

text \<open>
  The copy of the status page. When the module is loaded late and the system is permissive, the
  numbers are those of a system that never was.
\<close>

definition initialize_fake_status :: "hide_env \<Rightarrow> hide_state \<Rightarrow> hide_state" where
  "initialize_fake_status E s =
     (if hd_fake_status s \<noteq> None then s
      else
        case hd_status_page s of
          None \<Rightarrow> s
        | Some st \<Rightarrow>
            if ks_enforcing st = 0 \<and> \<not> hv_late_loaded E then s
            else if \<not> hv_page E then s
            else s\<lparr>hd_fake_status := Some
                (if hv_late_loaded E \<and> ks_enforcing st = 0
                 then st\<lparr>ks_enforcing := 1, ks_sequence := (if ks_policyload st \<noteq> 0 then 4 else 0)\<rparr>
                 else st)\<rparr>)"

text \<open>
  Opening the status page: the page the file shows is the copy or the kernel's. \<open>orig\<close> is the
  result of the kernel's function, which makes the page when it is not there, as \<open>page\<close>.
\<close>

definition my_sel_open_handle_status ::
    "hide_env \<Rightarrow> uid \<Rightarrow> int \<Rightarrow> kernel_status \<Rightarrow> hide_state \<Rightarrow> int \<times> kernel_status option \<times> hide_state" where
  "my_sel_open_handle_status E uid orig page s =
     (if 10000 \<le> uid \<and> hd_enabled s \<and> hd_fake_status s \<noteq> None then (0, hd_fake_status s, s)
      else
        let s1 = (if orig = 0 \<and> hd_status_page s = None then s\<lparr>hd_status_page := Some page\<rparr> else s);
            s2 = (if hd_initialize_key s1 \<and> orig = 0 \<and> hd_fake_status s1 = None
                  then initialize_fake_status E s1 else s1)
        in (orig, if orig = 0 then hd_status_page s1 else None, s2))"

definition ksu_selinux_hide_handle_second_stage :: "hide_env \<Rightarrow> hide_state \<Rightarrow> hide_state" where
  "ksu_selinux_hide_handle_second_stage E s =
     (let s1 = initialize_fake_status E s in
      if hd_fake_status s1 \<noteq> None then s1\<lparr>hd_initialize_key := False\<rparr> else s1)"

definition ksu_selinux_hide_handle_post_fs_data :: "hide_state \<Rightarrow> hide_state" where
  "ksu_selinux_hide_handle_post_fs_data s = s\<lparr>hd_initialize_key := False\<rparr>"

section \<open>Start and stop\<close>

definition ksu_selinux_hide_init ::
    "hide_env \<Rightarrow> hide_state registry \<Rightarrow> hide_state \<Rightarrow> hide_state registry \<times> hide_state" where
  "ksu_selinux_hide_init E R s =
     (snd (ksu_register_feature_handler (Some (selinux_hide_handler E)) R),
      hook_selinux_status_open E
        (if hv_late_loaded E then initialize_fake_status E s else s\<lparr>hd_initialize_key := True\<rparr>))"

definition ksu_selinux_hide_exit ::
    "hide_env \<Rightarrow> hide_state registry \<Rightarrow> hide_state \<Rightarrow> hide_state registry \<times> hide_state" where
  "ksu_selinux_hide_exit E R s =
     (let s1 = (if hd_running s then (ksu_selinux_hide_unhook E s)\<lparr>hd_running := False\<rparr> else s)
      in (snd (ksu_unregister_feature_handler KSU_FEATURE_SELINUX_HIDE R), s1\<lparr>hd_fake_status := None\<rparr>))"

definition ksu_selinux_hide_drop_backup_if_unused :: "hide_state \<Rightarrow> hide_state" where
  "ksu_selinux_hide_drop_backup_if_unused s = (if \<not> hd_running s then s\<lparr>hd_backup := False\<rparr> else s)"

section \<open>The replacements\<close>

text \<open>
  What they call: the kernel's permission check of the caller against the loaded policy, the
  conversions of contexts in the backup policy (before 6.6 the kernel's, on a second state), the
  access vector there, and the allocations. An error is the value returned.
\<close>

record backup_lib =
  bl_avc :: "nat \<Rightarrow> int"
  bl_to_sid :: "bytes \<Rightarrow> errno + u32"
  bl_to_context :: "u32 \<Rightarrow> errno + bytes"
  bl_compute_av :: "u32 \<Rightarrow> u32 \<Rightarrow> u16 \<Rightarrow> av_decision"
  bl_alloc :: "nat \<Rightarrow> bool"
  bl_since_6_6 :: bool

abbreviation (input) "SECURITY__CHECK_CONTEXT \<equiv> (0 :: nat)"
abbreviation (input) "SECURITY__COMPUTE_AV \<equiv> (1 :: nat)"
abbreviation (input) "PROCESS__SETCURRENT \<equiv> (2 :: nat)"

text \<open>
  A reply: the length or error returned and the buffer; \<open>orig\<close> is the kernel's function on the same
  buffer. \<open>limit\<close> is \<open>SIMPLE_TRANSACTION_LIMIT\<close>, checked only from 6.6 on.
\<close>

definition my_write_context ::
    "backup_lib \<Rightarrow> nat \<Rightarrow> (bytes \<Rightarrow> int \<times> bytes) \<Rightarrow> uid \<Rightarrow> bytes \<Rightarrow> int \<times> bytes" where
  "my_write_context B limit orig uid buf =
     (if uid < 10000 then orig buf
      else if bl_avc B SECURITY__CHECK_CONTEXT \<noteq> 0 then (bl_avc B SECURITY__CHECK_CONTEXT, buf)
      else
        case bl_to_sid B buf of
          Inl e \<Rightarrow> (neg_errno e, buf)
        | Inr sid \<Rightarrow>
            (case bl_to_context B sid of
               Inl e \<Rightarrow> (neg_errno e, buf)
             | Inr canon \<Rightarrow>
                 if bl_since_6_6 B \<and> limit < length canon then (neg_errno ERANGE, buf)
                 else (int (length canon), canon @ drop (length canon) buf)))"

text \<open>The conversions \<open>%s\<close> and \<open>%hu\<close> of \<open>sscanf\<close>, and the numbers \<open>scnprintf\<close> writes.\<close>

definition is_space :: "u8 \<Rightarrow> bool" where
  "is_space b \<longleftrightarrow> b = 32 \<or> (9 \<le> b \<and> b \<le> 13)"

definition is_digit :: "u8 \<Rightarrow> bool" where
  "is_digit b \<longleftrightarrow> 48 \<le> b \<and> b \<le> 57"

definition scan_word :: "bytes \<Rightarrow> (bytes \<times> bytes) option" where
  "scan_word s =
     (let t = dropWhile is_space s; w = takeWhile (\<lambda>b. \<not> is_space b) t
      in if w = [] then None else Some (w, drop (length w) t))"

definition digits_value :: "bytes \<Rightarrow> nat" where
  "digits_value ds = foldl (\<lambda>n d. 10 * n + (unat d - 48)) 0 ds"

definition scan_u16 :: "bytes \<Rightarrow> u16 option" where
  "scan_u16 s =
     (let ds = takeWhile is_digit (dropWhile is_space s)
      in if ds = [] then None else Some (of_nat (digits_value ds)))"

definition scan_access :: "bytes \<Rightarrow> (bytes \<times> bytes \<times> u16) option" where
  "scan_access buf =
     (case scan_word (c_str buf) of
        None \<Rightarrow> None
      | Some (scon, r1) \<Rightarrow>
          (case scan_word r1 of
             None \<Rightarrow> None
           | Some (tcon, r2) \<Rightarrow> map_option (\<lambda>c. (scon, tcon, c)) (scan_u16 r2)))"

definition digit_char :: "nat \<Rightarrow> u8" where
  "digit_char d = of_nat (if d < 10 then 48 + d else 87 + d)"

fun number_text :: "nat \<Rightarrow> nat \<Rightarrow> bytes" where
  "number_text base n =
     (if base < 2 \<or> n < base then [digit_char n]
      else number_text base (n div base) @ [digit_char (n mod base)])"

declare number_text.simps [simp del]

definition access_text :: "av_decision \<Rightarrow> bytes" where
  "access_text avd =
     number_text 16 (unat (avd_allowed avd)) @ [32] @ number_text 16 0xFFFFFFFF @ [32] @
     number_text 16 (unat (avd_auditallow avd)) @ [32] @ number_text 16 (unat (avd_auditdeny avd)) @ [32] @
     number_text 10 (unat (avd_seqno avd)) @ [32] @ number_text 16 (unat (avd_flags avd))"

text \<open>\<open>scnprintf\<close> cuts the text to the size and ends it with a NUL it does not count.\<close>

definition my_write_access ::
    "backup_lib \<Rightarrow> nat \<Rightarrow> (bytes \<Rightarrow> int \<times> bytes) \<Rightarrow> uid \<Rightarrow> bytes \<Rightarrow> int \<times> bytes" where
  "my_write_access B limit orig uid buf =
     (if uid < 10000 then orig buf
      else if bl_avc B SECURITY__COMPUTE_AV \<noteq> 0 then (bl_avc B SECURITY__COMPUTE_AV, buf)
      else if \<not> bl_alloc B 0 \<or> \<not> bl_alloc B 1 then (neg_errno ENOMEM, buf)
      else
        case scan_access buf of
          None \<Rightarrow> (neg_errno EINVAL, buf)
        | Some (scon, tcon, tclass) \<Rightarrow>
            (case bl_to_sid B scon of
               Inl e \<Rightarrow> (neg_errno e, buf)
             | Inr ssid \<Rightarrow>
                 (case bl_to_sid B tcon of
                    Inl e \<Rightarrow> (neg_errno e, buf)
                  | Inr tsid \<Rightarrow>
                      let text = take (limit - 1) (access_text (bl_compute_av B ssid tsid tclass))
                      in (int (length text), text @ [0] @ drop (length text + 1) buf))))"

text \<open>
  Setting an attribute of the process: the result, or the call of the kernel's function with the
  value as it is then.
\<close>

definition my_setprocattr ::
    "backup_lib \<Rightarrow> (bytes \<Rightarrow> bytes \<Rightarrow> int) \<Rightarrow> uid \<Rightarrow> bytes \<Rightarrow> bytes \<Rightarrow> int" where
  "my_setprocattr B orig uid attr_name value =
     (if uid < 10000 then orig attr_name value
      else if \<not> str_eq attr_name (lit ''current'') then orig attr_name value
      else if bl_avc B PROCESS__SETCURRENT \<noteq> 0 then bl_avc B PROCESS__SETCURRENT
      else if value \<noteq> [] \<and> hd value \<noteq> 0 \<and> hd value \<noteq> 10 then
        let v = (if last value = 10 then butlast value else value) in
        (case bl_to_sid B v of
           Inl e \<Rightarrow> neg_errno e
         | Inr _ \<Rightarrow> orig attr_name v)
      else orig attr_name value)"

end
