(* ===== verification/Hide_Restore.thy ===== *)
theory Hide_Restore
  imports Selinux_Hide Lsm_Restore
begin

text \<open>
  What hiding the policy changes, and when it is undone: an invariant of the feature over every
  sequence of its events, from which the state of the patched functions follows.
\<close>

section \<open>The invariant\<close>

text \<open>
  The module as loaded: nothing patched. \<open>p0\<close> is the state of the security hooks, with the
  feature's own hook number 0 as the only one.
\<close>

definition hide_start :: "hide_state \<Rightarrow> bool" where
  "hide_start s \<longleftrightarrow> \<not> hd_running s \<and> hd_orig_context s = None \<and> hd_orig_access s = None \<and>
     hd_orig_open s = None \<and> \<not> hd_open_known s \<and> hd_fake_status s = None \<and> pristine (hd_lsm s)"

text \<open>The part about the status page does not depend on the rest.\<close>

definition open_inv :: "hide_state \<Rightarrow> hide_state \<Rightarrow> bool" where
  "open_inv s0 s \<longleftrightarrow>
     (hd_orig_open s = None \<longrightarrow> hd_open s = hd_open s0) \<and>
     (\<forall>f. hd_orig_open s = Some f \<longrightarrow>
        f = hd_open s0 \<and> hd_open s = My_sel_open_handle_status \<and> hd_open_known s)"

definition hide_inv :: "hide_state \<Rightarrow> hide_state \<Rightarrow> bool" where
  "hide_inv s0 s \<longleftrightarrow>
     lsm_inv (hd_lsm s0) (hd_lsm s) \<and> set (ls_tracked (hd_lsm s)) = (if hd_running s then {0} else {}) \<and>
     (hd_context s, hd_orig_context s) =
       (if hd_running s then (My_write_context, Some (hd_context s0)) else (hd_context s0, None)) \<and>
     (hd_access s, hd_orig_access s) =
       (if hd_running s then (My_write_access, Some (hd_access s0)) else (hd_access s0, None)) \<and>
     open_inv s0 s \<and>
     (\<forall>st. hd_fake_status s = Some st \<longrightarrow> ks_enforcing st \<noteq> 0)"

lemma hide_inv_start: "hide_start s \<Longrightarrow> hide_inv s s"
  by (auto simp: hide_start_def hide_inv_def open_inv_def lsm_inv_start pristine_def [of "hd_lsm s"])

lemma open_inv_hook: "open_inv s0 s \<Longrightarrow> open_inv s0 (hook_selinux_status_open E s)"
  by (auto simp: open_inv_def hook_selinux_status_open_def split: option.splits)

lemma hook_open_frame [simp]:
  "hd_lsm (hook_selinux_status_open E s) = hd_lsm s" "hd_running (hook_selinux_status_open E s) = hd_running s"
  "hd_context (hook_selinux_status_open E s) = hd_context s"
  "hd_access (hook_selinux_status_open E s) = hd_access s"
  "hd_orig_context (hook_selinux_status_open E s) = hd_orig_context s"
  "hd_orig_access (hook_selinux_status_open E s) = hd_orig_access s"
  "hd_fake_status (hook_selinux_status_open E s) = hd_fake_status s"
  "hd_enabled (hook_selinux_status_open E s) = hd_enabled s"
  by (simp_all add: hook_selinux_status_open_def)

text \<open>Undoing the patches, from any point of the installation on.\<close>

lemma unhook_restores:
  assumes "\<And>x. hv_unpatch E x"
    and "hd_orig_context s = None \<Longrightarrow> hd_context s = c" "\<And>f. hd_orig_context s = Some f \<Longrightarrow> f = c"
    and "hd_orig_access s = None \<Longrightarrow> hd_access s = a" "\<And>f. hd_orig_access s = Some f \<Longrightarrow> f = a"
    and "open_inv s0 s" "s' = ksu_selinux_hide_unhook E s"
  shows "hd_context s' = c" "hd_orig_context s' = None" "hd_access s' = a" "hd_orig_access s' = None"
    "hd_open s' = hd_open s0" "hd_orig_open s' = None" "hd_lsm s' = ksu_lsm_unhook True 0 (hd_lsm s)"
    "hd_running s' = hd_running s" "hd_fake_status s' = hd_fake_status s" "hd_enabled s' = hd_enabled s"
  using assms
  by (auto simp: ksu_selinux_hide_unhook_def Let_def unhook_context_def unhook_access_def unhook_open_def
      open_inv_def split: option.splits)

lemma unhook_lsm:
  assumes "lsm_inv p0 p" "set (ls_tracked p) \<subseteq> {0}"
  shows "lsm_inv p0 (ksu_lsm_unhook True 0 p)" "ls_tracked (ksu_lsm_unhook True 0 p) = []"
proof -
  show "lsm_inv p0 (ksu_lsm_unhook True 0 p)" by (rule lsm_inv_unhook [OF assms(1)])
  have "set (ls_tracked (ksu_lsm_unhook True 0 p)) = {}"
    using lsm_unhook_tracked [OF assms(1), of 0] assms(2) by auto
  then show "ls_tracked (ksu_lsm_unhook True 0 p) = []" by simp
qed

text \<open>What a hook that is not yet installed does to the table of tracked hooks.\<close>

lemma hook_lsm:
  assumes p: "pristine p0" and i: "lsm_inv p0 p" and t: "ls_tracked p = []"
  shows "set (ls_tracked (snd (ksu_lsm_hook E 0 p))) = (if fst (ksu_lsm_hook E 0 p) = 0 then {0} else {})"
proof -
  obtain ret p' where c: "ksu_lsm_hook E 0 p = (ret, p')" by fastforce
  from c lsm_invD(4) [OF i, of 0] show ?thesis
  proof (cases rule: ksu_lsm_hook_cases)
    case refused then show ?thesis using c t by simp
  next
    case (unpatched s2)
    then have "set (ls_tracked p') = {}"
      using track_spec(2,3) [OF unpatched(2)] t by (simp add: ksu_lsm_hook_untrack_def)
    then show ?thesis using c unpatched(1) by simp
  next
    case (patched s2 repl target j e)
    then show ?thesis using c track_spec(3) [OF patched(2)] t by (simp add: set_hook_def set_slot_def)
  qed
qed

lemma hide_invD:
  assumes "hide_inv s0 s"
  shows "lsm_inv (hd_lsm s0) (hd_lsm s)" "set (ls_tracked (hd_lsm s)) = (if hd_running s then {0} else {})"
    "hd_running s \<Longrightarrow> hd_context s = My_write_context \<and> hd_orig_context s = Some (hd_context s0) \<and>
       hd_access s = My_write_access \<and> hd_orig_access s = Some (hd_access s0)"
    "\<not> hd_running s \<Longrightarrow> hd_context s = hd_context s0 \<and> hd_orig_context s = None \<and>
       hd_access s = hd_access s0 \<and> hd_orig_access s = None"
    "open_inv s0 s" "hd_fake_status s = Some st \<Longrightarrow> ks_enforcing st \<noteq> 0"
  using assms by (auto simp: hide_inv_def split: if_splits option.splits)

text \<open>Back at rest: what undoing leaves is the state in which the feature does not run.\<close>

lemma hide_inv_unhooked:
  assumes ok: "\<And>x. hv_unpatch E x" and l: "lsm_inv (hd_lsm s0) (hd_lsm s)" "set (ls_tracked (hd_lsm s)) \<subseteq> {0}"
    and c: "hd_orig_context s = None \<Longrightarrow> hd_context s = hd_context s0"
      "\<And>f. hd_orig_context s = Some f \<Longrightarrow> f = hd_context s0"
    and a: "hd_orig_access s = None \<Longrightarrow> hd_access s = hd_access s0"
      "\<And>f. hd_orig_access s = Some f \<Longrightarrow> f = hd_access s0"
    and o: "open_inv s0 s" and f: "\<And>st. hd_fake_status s = Some st \<Longrightarrow> ks_enforcing st \<noteq> 0"
  shows "hide_inv s0 ((ksu_selinux_hide_unhook E s)\<lparr>hd_running := False\<rparr>)"
  using unhook_restores [OF ok c a o refl] unhook_lsm [OF l] f
  by (auto simp: hide_inv_def open_inv_def split: option.splits)

lemma running_same: "\<not> hd_running s \<Longrightarrow> s\<lparr>hd_running := False\<rparr> = s"
  by (cases s) simp

lemma hide_inv_enable:
  assumes p: "pristine (hd_lsm s0)" and i: "hide_inv s0 s" and r: "\<not> hd_running s"
    and ok: "\<And>x. hv_unpatch E x" and e: "ksu_selinux_hide_enable E s = (res, s')"
  shows "hide_inv s0 (if res = Inr () then s'\<lparr>hd_running := True\<rparr> else s')"
proof -
  note I = hide_invD [OF i]
  let ?s1 = "hook_selinux_status_open E s"
  have o: "open_inv s0 ?s1" by (rule open_inv_hook [OF I(5)])
  have t: "ls_tracked (hd_lsm s) = []" using I(2) r by simp
  have undone: "hide_inv s0 (ksu_selinux_hide_unhook E u)"
    if "\<not> hd_running u" "lsm_inv (hd_lsm s0) (hd_lsm u)" "set (ls_tracked (hd_lsm u)) \<subseteq> {0}"
      "hd_orig_context u = Some (hd_context s0)" "open_inv s0 u" "hd_fake_status u = hd_fake_status s"
      "hd_orig_access u = Some (hd_access s0) \<or> (hd_orig_access u = None \<and> hd_access u = hd_access s0)" for u
  proof -
    have "hide_inv s0 ((ksu_selinux_hide_unhook E u)\<lparr>hd_running := False\<rparr>)"
      by (rule hide_inv_unhooked) (use that ok I(6) in auto)
    moreover have "\<not> hd_running (ksu_selinux_hide_unhook E u)"
      using that(1) by (simp add: ksu_selinux_hide_unhook_def Let_def unhook_context_def unhook_access_def
          unhook_open_def split: option.split)
    ultimately show ?thesis by (simp add: running_same)
  qed
  define s4 where "s4 = ?s1\<lparr>hd_orig_context := Some (hd_context s0), hd_context := My_write_context,
      hd_orig_access := Some (hd_access s0)\<rparr>"
  define q where "q = ksu_lsm_hook (hv_lsm E) 0 (hd_lsm s)"
  define s6 where "s6 = s4\<lparr>hd_access := My_write_access, hd_lsm := snd q\<rparr>"
  have qi: "lsm_inv (hd_lsm s0) (snd q)" unfolding q_def by (rule lsm_inv_hook [OF p I(1)])
  have qt: "set (ls_tracked (snd q)) = (if fst q = 0 then {0} else {})"
    unfolding q_def by (rule hook_lsm [OF p I(1) t])
  have eq: "ksu_selinux_hide_enable E s =
     (if \<not> hd_backup s then (Inl EAGAIN, s)
      else if \<not> hv_write_op E then (Inl ENOSYS, s)
      else if \<not> hv_patch E Slot_context
      then (Inl ENOSYS, ksu_selinux_hide_unhook E (?s1\<lparr>hd_orig_context := Some (hd_context s0)\<rparr>))
      else if \<not> hv_patch E Slot_access then (Inl ENOSYS, ksu_selinux_hide_unhook E s4)
      else if fst q \<noteq> 0 then (Inl ENOSYS, ksu_selinux_hide_unhook E s6)
      else (Inr (), s6))"
    using I(4) [OF r] by (simp add: ksu_selinux_hide_enable_def Let_def s4_def s6_def q_def)
  have b1: "hide_inv s0 (ksu_selinux_hide_unhook E (?s1\<lparr>hd_orig_context := Some (hd_context s0)\<rparr>))"
    by (rule undone) (use r I(1,4) t o in \<open>simp_all add: open_inv_def\<close>)
  have b2: "hide_inv s0 (ksu_selinux_hide_unhook E s4)"
    by (rule undone) (use r I(1) t o in \<open>simp_all add: open_inv_def s4_def\<close>)
  have b3: "hide_inv s0 (ksu_selinux_hide_unhook E s6)"
    by (rule undone) (use r qi qt o in \<open>simp_all add: open_inv_def s6_def s4_def\<close>)
  have b4: "hide_inv s0 (s6\<lparr>hd_running := True\<rparr>)" if "fst q = 0"
    using qi qt o I(6) that
    by (auto simp: hide_inv_def s6_def s4_def open_inv_def split: option.splits)
  show ?thesis using e i b1 b2 b3 b4 unfolding eq by (auto split: if_splits)
qed

lemma hide_inv_set:
  assumes p: "pristine (hd_lsm s0)" and i: "hide_inv s0 s" and ok: "\<And>x. hv_unpatch E x"
  shows "hide_inv s0 (snd (selinux_hide_feature_set E v s))"
proof -
  let ?s = "s\<lparr>hd_enabled := (v \<noteq> 0)\<rparr>"
  have i': "hide_inv s0 ?s" using i by (simp add: hide_inv_def open_inv_def)
  note I = hide_invD [OF i']
  show ?thesis
  proof (cases "hd_running s")
    case True
    have "hide_inv s0 ((ksu_selinux_hide_unhook E ?s)\<lparr>hd_running := False\<rparr>)"
      by (rule hide_inv_unhooked) (use True I ok in auto)
    with i' True show ?thesis by (auto simp: selinux_hide_feature_set_def Let_def)
  next
    case False
    obtain res s' where e: "ksu_selinux_hide_enable E ?s = (res, s')" by fastforce
    have "hide_inv s0 (if res = Inr () then s'\<lparr>hd_running := True\<rparr> else s')"
      by (rule hide_inv_enable [OF p i' _ ok e]) (use False in simp)
    with i' False e show ?thesis by (auto simp: selinux_hide_feature_set_def Let_def)
  qed
qed

lemma hide_inv_fake: "hide_inv s0 s \<Longrightarrow> hide_inv s0 (initialize_fake_status E s)"
  by (auto simp: hide_inv_def initialize_fake_status_def open_inv_def split: option.splits)

lemma hide_inv_frame:
  "hide_inv s0 (s\<lparr>hd_status_page := pg\<rparr>) = hide_inv s0 s"
  "hide_inv s0 (s\<lparr>hd_initialize_key := b\<rparr>) = hide_inv s0 s"
  "hide_inv s0 (s\<lparr>hd_backup := b\<rparr>) = hide_inv s0 s"
  by (simp_all add: hide_inv_def open_inv_def)

lemma hide_inv_status_open: "hide_inv s0 s \<Longrightarrow> hide_inv s0 (hook_selinux_status_open E s)"
  using open_inv_hook [of s0 s E] by (simp add: hide_inv_def)

section \<open>Every order of the events\<close>

inductive hide_reach :: "hide_state \<Rightarrow> hide_state \<Rightarrow> bool" for s0 where
  start: "hide_reach s0 s0"
| init: "hide_reach s0 s \<Longrightarrow> hide_reach s0 (snd (ksu_selinux_hide_init E R s))"
| set: "hide_reach s0 s \<Longrightarrow> (\<And>x. hv_unpatch E x) \<Longrightarrow> hide_reach s0 (snd (selinux_hide_feature_set E v s))"
| second_stage: "hide_reach s0 s \<Longrightarrow> hide_reach s0 (ksu_selinux_hide_handle_second_stage E s)"
| post_fs_data: "hide_reach s0 s \<Longrightarrow> hide_reach s0 (ksu_selinux_hide_handle_post_fs_data s)"
| open_status: "hide_reach s0 s \<Longrightarrow> hide_reach s0 (snd (snd (my_sel_open_handle_status E uid res page s)))"
| drop_backup: "hide_reach s0 s \<Longrightarrow> hide_reach s0 (ksu_selinux_hide_drop_backup_if_unused s)"

lemma hide_reach_inv:
  assumes "hide_reach s0 s" "hide_start s0"
  shows "hide_inv s0 s"
  using assms
proof (induction rule: hide_reach.induct)
  case start then show ?case by (simp add: hide_inv_start)
next
  case (init s E R) then show ?case
    by (simp add: ksu_selinux_hide_init_def hide_inv_status_open hide_inv_fake hide_inv_frame)
next
  case (set s E v) then show ?case by (simp add: hide_inv_set hide_start_def)
next
  case (second_stage s E) then show ?case
    by (simp add: ksu_selinux_hide_handle_second_stage_def Let_def hide_inv_fake hide_inv_frame)
next
  case (open_status s E uid res page) then show ?case
    by (simp add: my_sel_open_handle_status_def Let_def hide_inv_fake hide_inv_frame)
qed (simp_all add: ksu_selinux_hide_handle_post_fs_data_def ksu_selinux_hide_drop_backup_if_unused_def hide_inv_frame)

text \<open>
  C40: Hiding is undone when it is switched off. After any events, failures of patching on the way
  in included, a feature that does not run has left the two functions of the policy file system and
  every security hook as they were, and one that runs has replaced them and saved the originals;
  an application that gets the copied status page reads enforcing. Switching a running feature off
  gives back all four functions; so does the exit of the module, except that the function that
  opens the status page, patched when the module is loaded, stays patched when the feature does
  not run.
\<close>

theorem hiding_undone:
  assumes "hide_start s0" "hide_reach s0 s" "\<And>x. hv_unpatch E x"
    and "off = snd (selinux_hide_feature_set E 0 s)" "gone = snd (ksu_selinux_hide_exit E R s)"
  shows "(hd_running s \<longrightarrow> hd_context s = My_write_context \<and> hd_orig_context s = Some (hd_context s0) \<and>
       hd_access s = My_write_access \<and> hd_orig_access s = Some (hd_access s0)) \<and>
    (\<forall>st. hd_fake_status s = Some st \<longrightarrow> ks_enforcing st \<noteq> 0) \<and>
    (\<forall>t\<in>{off, gone}. hd_context t = hd_context s0 \<and> hd_access t = hd_access s0 \<and>
       ls_slot (hd_lsm t) = ls_slot (hd_lsm s0)) \<and>
    (hd_running s \<longrightarrow> hd_open off = hd_open s0 \<and> hd_open gone = hd_open s0) \<and>
    (\<not> hd_running s \<longrightarrow> hd_open gone = (if hd_orig_open s = None then hd_open s0 else My_sel_open_handle_status))"
proof -
  note i = hide_reach_inv [OF assms(2,1)]
  note I = hide_invD [OF i]
  have rest: "hd_context t = hd_context s0 \<and> hd_access t = hd_access s0 \<and> ls_slot (hd_lsm t) = ls_slot (hd_lsm s0)"
    if "hide_inv s0 t" "\<not> hd_running t" for t
    using hide_invD(2,4) [OF that(1)] that(2) lsm_invD(8) [OF hide_invD(1) [OF that(1)]] by auto
  let ?u = "(ksu_selinux_hide_unhook E s)\<lparr>hd_running := False\<rparr>"
  have u: "hide_inv s0 ?u" if "hd_running s"
    by (rule hide_inv_unhooked) (use that I assms(3) in auto)
  have off_i: "hide_inv s0 off" unfolding assms(4)
    by (rule hide_inv_set [OF _ i assms(3)]) (use assms(1) in \<open>simp add: hide_start_def\<close>)
  have off_r: "\<not> hd_running off"
    using assms(4) by (simp add: selinux_hide_feature_set_def Let_def split: if_splits)
  have gone_i: "hide_inv s0 gone" "\<not> hd_running gone"
    using u i assms(5) by (auto simp: ksu_selinux_hide_exit_def Let_def hide_inv_def open_inv_def)
  have op: "hd_open (ksu_selinux_hide_unhook E t) = hd_open s0" if "open_inv s0 t" for t
    using that assms(3) by (auto simp: ksu_selinux_hide_unhook_def Let_def unhook_context_def
        unhook_access_def unhook_open_def open_inv_def split: option.splits)
  show ?thesis
    using I(3,6) rest [OF off_i off_r] rest [OF gone_i] op [OF I(5)] op [of "s\<lparr>hd_enabled := False\<rparr>"] I(5) assms(4,5)
    by (auto simp: ksu_selinux_hide_exit_def selinux_hide_feature_set_def Let_def open_inv_def split: option.splits)
qed

text \<open>The module loaded early, the feature switched on, the status page opened by an application.\<close>

definition hide_env0 :: hide_env where
  "hide_env0 = \<lparr>hv_write_op = True, hv_status_ops = True, hv_patch = (\<lambda>_. True), hv_unpatch = (\<lambda>_. True),
     hv_lsm = \<lparr>le_resolve = (\<lambda>_. Some (Kernel_fn 3)), le_table_found = True, le_sym_size = 0,
       le_scall_size = 1, le_active_cnt = None, le_patch_ok = True\<rparr>,
     hv_page = True, hv_late_loaded = False\<rparr>"

definition hide_state0 :: hide_state where
  "hide_state0 = \<lparr>hd_enabled = False, hd_running = False, hd_backup = True, hd_context = Kernel_fn 0,
     hd_access = Kernel_fn 1, hd_open = Kernel_fn 2, hd_orig_context = None, hd_orig_access = None,
     hd_open_known = False, hd_orig_open = None,
     hd_lsm = \<lparr>ls_heads = [[Sys 0]], ls_slot = (\<lambda>_. Kernel_fn 3), ls_scalls = [], ls_scalls_count = 0,
       ls_max_cnt = 5,
       ls_hooks = (\<lambda>h. \<lparr>lh_target_name = Some (lit ''selinux_setprocattr''),
         lh_replacement = (if h = 0 then Some My_setprocattr else None), lh_original = None,
         lh_entry = None, lh_scall = None, lh_list_head = 0, lh_offset = 0\<rparr>),
       ls_tracked = []\<rparr>,
     hd_fake_status = None, hd_initialize_key = False,
     hd_status_page = Some \<lparr>ks_sequence = 4, ks_enforcing = 1, ks_policyload = 1\<rparr>\<rparr>"

theorem hiding_undone_witness:
  "hd_open (snd (ksu_selinux_hide_exit hide_env0 []
     (snd (ksu_selinux_hide_init hide_env0 [] hide_state0)))) = My_sel_open_handle_status"
proof -
  let ?s = "snd (ksu_selinux_hide_init hide_env0 [] hide_state0)"
  have "hide_start hide_state0"
    by (auto simp: hide_start_def hide_state0_def pristine_def split: if_splits)
  moreover have "hide_reach hide_state0 ?s" by (intro hide_reach.init hide_reach.start)
  moreover have "hv_unpatch hide_env0 x" for x by (simp add: hide_env0_def)
  moreover have "\<not> hd_running ?s" "hd_orig_open ?s = Some (Kernel_fn 2)"
    by (simp_all add: ksu_selinux_hide_init_def hook_selinux_status_open_def hide_env0_def hide_state0_def)
  ultimately show ?thesis using hiding_undone [of hide_state0 ?s hide_env0 _ _ "[]", OF _ _ _ refl refl] by simp
qed

end
