(* ===== verification/Sel_Context.thy ===== *)
theory Sel_Context
  imports Sel_Decision
begin

text \<open>
  Security contexts as text and as numbers in the backup policy (\<^verbatim>\<open>kernel/feature/selinux_hide.c\<close>,
  for Linux 6.6 and later): parsing a context, printing it, and the conversions to and from security
  ids. The symbol tables, the table of ids and the printing and parsing of levels are the kernel's
  and a parameter.
\<close>

section \<open>Data\<close>

text \<open>A context in the table of ids; one that is not valid in the policy keeps its text.\<close>

record 'l str_context = "'l sel_context" +
  cx_str :: "bytes option"

text \<open>
  Names of users, roles and types with their values (a type also says whether it is an attribute),
  and the names by value; \<open>mls_context_to_sid\<close> with the separator and the text after it, the
  printed levels with their computed length, the validity check; the table of ids both ways with
  its cache of texts; the allocations.
\<close>

record 'l sid_lib =
  sn_user :: "bytes \<Rightarrow> u32 option"
  sn_role :: "bytes \<Rightarrow> u32 option"
  sn_type :: "bytes \<Rightarrow> (u32 \<times> bool) option"
  sn_user_name :: "nat \<Rightarrow> bytes"
  sn_role_name :: "nat \<Rightarrow> bytes"
  sn_type_name :: "nat \<Rightarrow> bytes"
  sn_mls_parse :: "u8 \<Rightarrow> bytes \<Rightarrow> u32 \<times> u32 \<times> u32 \<Rightarrow> errno + 'l \<times> 'l"
  sn_mls_text :: "'l \<Rightarrow> 'l \<Rightarrow> bytes"
  sn_mls_len :: "'l \<Rightarrow> 'l \<Rightarrow> nat"
  sn_valid :: "'l sel_context \<Rightarrow> bool"
  sn_to_sid :: "'l sel_context \<Rightarrow> errno + u32"
  sn_entry :: "u32 \<Rightarrow> 'l str_context option"
  sn_cached :: "u32 \<Rightarrow> errno + bytes \<times> nat"
  sn_alloc :: bool

abbreviation (input) "COLON \<equiv> (58 :: u8)"

section \<open>From text\<close>

text \<open>The part before a colon and what follows it; \<open>None\<close> when there is none.\<close>

definition split_colon :: "bytes \<Rightarrow> (bytes \<times> bytes) option" where
  "split_colon s =
     (let w = takeWhile (\<lambda>b. b \<noteq> COLON) s
      in if length w < length s then Some (w, drop (length w + 1) s) else None)"

definition string_to_context_struct :: "'l sid_lib \<Rightarrow> bytes \<Rightarrow> errno + 'l sel_context" where
  "string_to_context_struct N scontext =
     (case split_colon (c_str scontext) of
        None \<Rightarrow> Inl EINVAL
      | Some (user, r1) \<Rightarrow>
          (case sn_user N user of
             None \<Rightarrow> Inl EINVAL
           | Some uv \<Rightarrow>
               (case split_colon r1 of
                  None \<Rightarrow> Inl EINVAL
                | Some (role, r2) \<Rightarrow>
                    (case sn_role N role of
                       None \<Rightarrow> Inl EINVAL
                     | Some rv \<Rightarrow>
                         let ty = takeWhile (\<lambda>b. b \<noteq> COLON) r2;
                             oldc = (if length ty < length r2 then COLON else 0);
                             p = drop (length ty + 1) r2
                         in (case sn_type N ty of
                               None \<Rightarrow> Inl EINVAL
                             | Some (tv, attribute) \<Rightarrow>
                                 if attribute then Inl EINVAL
                                 else
                                   (case sn_mls_parse N oldc p (uv, rv, tv) of
                                      Inl e \<Rightarrow> Inl e
                                    | Inr (low, high) \<Rightarrow>
                                        let ctx = \<lparr>cx_user = uv, cx_role = rv, cx_type = tv,
                                                   cx_low = low, cx_high = high\<rparr>
                                        in if sn_valid N ctx then Inr ctx else Inl EINVAL))))))"

definition security_context_to_sid_with_policy :: "'l sid_lib \<Rightarrow> bytes \<Rightarrow> errno + u32" where
  "security_context_to_sid_with_policy N scontext =
     (if scontext = [] then Inl EINVAL
      else if \<not> sn_alloc N then Inl ENOMEM
      else
        case string_to_context_struct N scontext of
          Inl e \<Rightarrow> Inl e
        | Inr ctx \<Rightarrow> sn_to_sid N ctx)"

section \<open>To text\<close>

text \<open>The text and the size reported for it, which counts the NUL at its end.\<close>

definition context_struct_to_string :: "'l sid_lib \<Rightarrow> 'l str_context \<Rightarrow> errno + bytes \<times> nat" where
  "context_struct_to_string N ctx =
     (if \<not> sn_alloc N then Inl ENOMEM
      else
        case cx_str ctx of
          Some str \<Rightarrow> Inr (str, length str + 1)
        | None \<Rightarrow>
            let user = sn_user_name N (unat (cx_user ctx - 1));
                role = sn_role_name N (unat (cx_role ctx - 1));
                ty = sn_type_name N (unat (cx_type ctx - 1))
            in Inr (user @ [COLON] @ role @ [COLON] @ ty @ sn_mls_text N (cx_low ctx) (cx_high ctx),
                    (length user + 1) + (length role + 1) + (length ty + 1) +
                    sn_mls_len N (cx_low ctx) (cx_high ctx)))"

definition sidtab_entry_to_string :: "'l sid_lib \<Rightarrow> u32 \<Rightarrow> 'l str_context \<Rightarrow> errno + bytes \<times> nat" where
  "sidtab_entry_to_string N sid ctx =
     (if sn_cached N sid \<noteq> Inl ENOENT then sn_cached N sid else context_struct_to_string N ctx)"

definition security_sid_to_context_with_policy :: "'l sid_lib \<Rightarrow> u32 \<Rightarrow> errno + bytes \<times> nat" where
  "security_sid_to_context_with_policy N sid =
     (case sn_entry N sid of
        None \<Rightarrow> Inl EINVAL
      | Some ctx \<Rightarrow> sidtab_entry_to_string N sid ctx)"

section \<open>There and back\<close>

text \<open>
  What a consistent policy provides: names without separators that lead back to their values, levels
  whose text parses to them, and a cache that holds what would be printed.
\<close>

definition names_ok :: "'l sid_lib \<Rightarrow> 'l str_context \<Rightarrow> bool" where
  "names_ok N ctx \<longleftrightarrow>
     (let user = sn_user_name N (unat (cx_user ctx - 1)); role = sn_role_name N (unat (cx_role ctx - 1));
          ty = sn_type_name N (unat (cx_type ctx - 1)); text = sn_mls_text N (cx_low ctx) (cx_high ctx);
          ids = (cx_user ctx, cx_role ctx, cx_type ctx)
      in set (user @ role @ ty) \<inter> {0, COLON} = {} \<and> 0 \<notin> set text \<and>
         sn_user N user = Some (cx_user ctx) \<and> sn_role N role = Some (cx_role ctx) \<and>
         sn_type N ty = Some (cx_type ctx, False) \<and>
         (case text of
            [] \<Rightarrow> sn_mls_parse N 0 [] ids = Inr (cx_low ctx, cx_high ctx)
          | c # rest \<Rightarrow> c = COLON \<and> sn_mls_parse N COLON rest ids = Inr (cx_low ctx, cx_high ctx)) \<and>
         sn_mls_len N (cx_low ctx) (cx_high ctx) = length text)"

definition plain_context :: "'l str_context \<Rightarrow> 'l sel_context" where
  "plain_context ctx = \<lparr>cx_user = cx_user ctx, cx_role = cx_role ctx, cx_type = cx_type ctx,
     cx_low = cx_low ctx, cx_high = cx_high ctx\<rparr>"

lemma takeWhile_colon: "COLON \<notin> set w \<Longrightarrow> takeWhile (\<lambda>b. b \<noteq> COLON) (w @ COLON # r) = w"
  by (induction w) auto

lemma split_colon_append: "COLON \<notin> set w \<Longrightarrow> split_colon (w @ COLON # r) = Some (w, r)"
  by (simp add: split_colon_def takeWhile_colon)

lemma parse_printed:
  assumes "names_ok N ctx" "sn_valid N (plain_context ctx)" "cx_str ctx = None"
    and "context_struct_to_string N ctx = Inr (text, len)"
  shows "string_to_context_struct N text = Inr (plain_context ctx)" "len = length text + 1" "text \<noteq> []"
    "0 \<notin> set text"
proof -
  define user where "user = sn_user_name N (unat (cx_user ctx - 1))"
  define role where "role = sn_role_name N (unat (cx_role ctx - 1))"
  define ty where "ty = sn_type_name N (unat (cx_type ctx - 1))"
  define levels where "levels = sn_mls_text N (cx_low ctx) (cx_high ctx)"
  note n = assms(1)[unfolded names_ok_def Let_def, folded user_def role_def ty_def levels_def]
  have t: "text = user @ COLON # role @ COLON # ty @ levels"
    and l: "len = length user + 1 + (length role + 1) + (length ty + 1) + length levels"
    using assms(3,4) n
    by (simp_all add: context_struct_to_string_def user_def role_def ty_def levels_def Let_def split: if_splits)
  show z: "0 \<notin> set text" using n by (auto simp: t)
  then have c: "c_str text = text" by (simp add: c_str_ident)
  have s: "split_colon text = Some (user, role @ COLON # ty @ levels)"
    "split_colon (role @ COLON # r) = Some (role, r)" for r
    using n by (auto simp: t intro!: split_colon_append)
  have ty: "takeWhile (\<lambda>b. b \<noteq> COLON) ty = ty" using n by (auto simp: takeWhile_eq_all_conv)
  show "string_to_context_struct N text = Inr (plain_context ctx)"
  proof (cases levels)
    case Nil
    then show ?thesis
      using n assms(2) ty
      by (simp add: string_to_context_struct_def c s Let_def plain_context_def del: takeWhile_eq_all_conv)
  next
    case (Cons a rest)
    then have "takeWhile (\<lambda>b. b \<noteq> COLON) (ty @ levels) = ty" using n by (auto simp: takeWhile_colon)
    with Cons show ?thesis
      using n assms(2) by (simp add: string_to_context_struct_def c s Let_def plain_context_def)
  qed
  show "len = length text + 1" using l by (simp add: t)
  show "text \<noteq> []" by (simp add: t)
qed


text \<open>A policy with one user, role and type, and one level whose text is \<^verbatim>\<open>:s0\<close>.\<close>

definition one_context :: "nat str_context" where
  "one_context = \<lparr>cx_user = 1, cx_role = 1, cx_type = 1, cx_low = 0, cx_high = 0, cx_str = None\<rparr>"

definition one_lib :: "nat sid_lib" where
  "one_lib = \<lparr>sn_user = (\<lambda>s. if s = lit ''u'' then Some 1 else None),
     sn_role = (\<lambda>s. if s = lit ''r'' then Some 1 else None),
     sn_type = (\<lambda>s. if s = lit ''su'' then Some (1, False) else None),
     sn_user_name = (\<lambda>_. lit ''u''), sn_role_name = (\<lambda>_. lit ''r''), sn_type_name = (\<lambda>_. lit ''su''),
     sn_mls_parse = (\<lambda>c s _. if c = COLON \<and> s = lit ''s0'' then Inr (0, 0) else Inl EINVAL),
     sn_mls_text = (\<lambda>_ _. lit '':s0''), sn_mls_len = (\<lambda>_ _. 3), sn_valid = (\<lambda>_. True),
     sn_to_sid = (\<lambda>_. Inr 7), sn_entry = (\<lambda>sid. if sid = 7 then Some one_context else None),
     sn_cached = (\<lambda>_. Inl ENOENT), sn_alloc = True\<rparr>"


end
