(* ===== verification/Patch_Text.thy ===== *)
theory Patch_Text
  imports Ksu_Prelude
begin

text \<open>
  Writing to the text of the running kernel (\<^verbatim>\<open>kernel/hook/arm64/patch_memory.c\<close> and its x86_64
  twin): the walk of the page tables to a physical address, the write through a fixed mapping, and
  the rendezvous of all processors around it. The entries of the page tables are a parameter, by
  address, and so is the kernel's copying function. Cache maintenance has no effect on the model.
\<close>

section \<open>From virtual to physical\<close>

text \<open>What an entry of a level is; a leaf has the physical address of its page and the page's mask.\<close>

datatype level_entry = Lv_none | Lv_bad | Lv_table | Lv_leaf u64 u64

record page_walk =
  pw_pgd :: "u64 \<Rightarrow> level_entry"
  pw_p4d :: "u64 \<Rightarrow> level_entry"
  pw_pud :: "u64 \<Rightarrow> level_entry"
  pw_pmd :: "u64 \<Rightarrow> level_entry"
  pw_pte :: "u64 \<Rightarrow> u64 option"

definition PAGE_MASK :: u64 where "PAGE_MASK = 0xFFFFFFFFFFFFF000"

text \<open>
  An absent or bad entry ends the walk; at the level of the \<open>pmd\<close> a leaf is looked for first, which
  makes no difference as a leaf is neither.
\<close>

definition phys_from_virt :: "page_walk \<Rightarrow> u64 \<Rightarrow> errno + u64" where
  "phys_from_virt W addr =
     (if pw_pgd W addr \<in> {Lv_none, Lv_bad} then Inl ENOENT
      else
        case pw_p4d W addr of
          Lv_none \<Rightarrow> Inl ENOENT
        | Lv_bad \<Rightarrow> Inl ENOENT
        | Lv_leaf base lmask \<Rightarrow> Inr (base + (addr AND NOT lmask))
        | Lv_table \<Rightarrow>
            (case pw_pud W addr of
               Lv_none \<Rightarrow> Inl ENOENT
             | Lv_bad \<Rightarrow> Inl ENOENT
             | Lv_leaf base lmask \<Rightarrow> Inr (base + (addr AND NOT lmask))
             | Lv_table \<Rightarrow>
                 (case pw_pmd W addr of
                    Lv_none \<Rightarrow> Inl ENOENT
                  | Lv_bad \<Rightarrow> Inl ENOENT
                  | Lv_leaf base lmask \<Rightarrow> Inr (base + (addr AND NOT lmask))
                  | Lv_table \<Rightarrow>
                      (case pw_pte W addr of
                         None \<Rightarrow> Inl ENOENT
                       | Some base \<Rightarrow> Inr (base + (addr AND NOT PAGE_MASK))))))"

text \<open>\<open>copy\<close> is \<open>copy_to_kernel_nofault\<close> through the mapping of a physical address.\<close>

definition ksu_patch_text_nosync ::
    "page_walk \<Rightarrow> (u64 \<Rightarrow> bytes \<Rightarrow> 'm \<Rightarrow> int \<times> 'm) \<Rightarrow> u64 \<Rightarrow> bytes \<Rightarrow> 'm \<Rightarrow> int \<times> 'm" where
  "ksu_patch_text_nosync W copy dst src m =
     (case phys_from_virt W dst of
        Inl e \<Rightarrow> (neg_errno e, m)
      | Inr phy \<Rightarrow> copy phy src m)"

section \<open>The rendezvous\<close>

text \<open>
  Where a processor is in \<open>ksu_patch_text_cb\<close>: before it counts itself, waiting for the others, the
  last one before and after the write, or gone. \<open>sm_ret\<close> is what each has to return.
\<close>

datatype cpu_pc = Pc_enter | Pc_spin | Pc_patch | Pc_notify | Pc_left

record 'm stop_machine =
  sm_pc :: "cpu_pc list"
  sm_ret :: "int list"
  sm_count :: nat
  sm_mem :: 'm

text \<open>
  A step of processor \<open>i\<close>, the write being \<open>f\<close>. All online processors take part, so their number is
  the one the counter is compared with. A waiting one that finds the counter too low has no step.
\<close>

definition cpu_next :: "('m \<Rightarrow> int \<times> 'm) \<Rightarrow> nat \<Rightarrow> 'm stop_machine \<Rightarrow> 'm stop_machine option" where
  "cpu_next f i s =
     (if length (sm_pc s) \<le> i then None
      else
        case sm_pc s ! i of
          Pc_enter \<Rightarrow>
            Some (s\<lparr>sm_count := sm_count s + 1,
                    sm_pc := (sm_pc s)[i := (if sm_count s + 1 = length (sm_pc s) then Pc_patch else Pc_spin)]\<rparr>)
        | Pc_patch \<Rightarrow>
            Some (s\<lparr>sm_mem := snd (f (sm_mem s)), sm_ret := (sm_ret s)[i := fst (f (sm_mem s))],
                    sm_pc := (sm_pc s)[i := Pc_notify]\<rparr>)
        | Pc_notify \<Rightarrow> Some (s\<lparr>sm_count := sm_count s + 1, sm_pc := (sm_pc s)[i := Pc_left]\<rparr>)
        | Pc_spin \<Rightarrow>
            if sm_count s \<le> length (sm_pc s) then None else Some (s\<lparr>sm_pc := (sm_pc s)[i := Pc_left]\<rparr>)
        | Pc_left \<Rightarrow> None)"

definition stop_start :: "nat \<Rightarrow> 'm \<Rightarrow> 'm stop_machine" where
  "stop_start n m = \<lparr>sm_pc = replicate n Pc_enter, sm_ret = replicate n 0, sm_count = 0, sm_mem = m\<rparr>"

text \<open>\<open>stop_machine\<close> returns 0 when every processor did, else the error of one of them.\<close>

definition stop_result :: "'m stop_machine \<Rightarrow> int" where
  "stop_result s = (case filter (\<lambda>r. r \<noteq> 0) (sm_ret s) of [] \<Rightarrow> 0 | r # _ \<Rightarrow> r)"

text \<open>The states in the order the processors are chosen in.\<close>

fun run_cpus :: "('m \<Rightarrow> int \<times> 'm) \<Rightarrow> nat list \<Rightarrow> 'm stop_machine \<Rightarrow> 'm stop_machine option" where
  "run_cpus f [] s = Some s"
| "run_cpus f (i # is) s = Option.bind (cpu_next f i s) (run_cpus f is)"

section \<open>Phases\<close>

text \<open>
  Gathering: some processors wait, nothing is written. Writing: one is about to write, then about to
  tell, all others wait. Leaving: the write is done.
\<close>

inductive stop_phase :: "('m \<Rightarrow> int \<times> 'm) \<Rightarrow> nat \<Rightarrow> 'm \<Rightarrow> 'm stop_machine \<Rightarrow> bool" for f n m where
  gathering: "length pcs = n \<Longrightarrow> set pcs \<subseteq> {Pc_enter, Pc_spin} \<Longrightarrow> c = count_list pcs Pc_spin \<Longrightarrow> c < n \<Longrightarrow>
    stop_phase f n m \<lparr>sm_pc = pcs, sm_ret = replicate n 0, sm_count = c, sm_mem = m\<rparr>"
| writing: "j < n \<Longrightarrow>
    stop_phase f n m \<lparr>sm_pc = (replicate n Pc_spin)[j := Pc_patch], sm_ret = replicate n 0, sm_count = n, sm_mem = m\<rparr>"
| telling: "j < n \<Longrightarrow>
    stop_phase f n m \<lparr>sm_pc = (replicate n Pc_spin)[j := Pc_notify], sm_ret = (replicate n 0)[j := fst (f m)],
      sm_count = n, sm_mem = snd (f m)\<rparr>"
| leaving: "j < n \<Longrightarrow> length pcs = n \<Longrightarrow> set pcs \<subseteq> {Pc_spin, Pc_left} \<Longrightarrow>
    stop_phase f n m \<lparr>sm_pc = pcs, sm_ret = (replicate n 0)[j := fst (f m)], sm_count = n + 1, sm_mem = snd (f m)\<rparr>"

lemma stop_phase_start: "0 < n \<Longrightarrow> stop_phase f n m (stop_start n m)"
  unfolding stop_start_def by (rule gathering) auto

lemma count_list_update:
  assumes "i < length xs" "xs ! i \<noteq> a"
  shows "count_list (xs[i := a]) a = count_list xs a + 1"
  using assms by (induction xs arbitrary: i) (auto simp: nth_Cons' list_update.simps split: nat.split)

lemma count_list_full: "count_list xs a = length xs \<Longrightarrow> xs = replicate (length xs) a"
proof (induction xs)
  case (Cons x xs)
  have "count_list xs a \<le> length xs" by (rule count_le_length)
  with Cons show ?case by (auto split: if_splits)
qed simp

lemma count_list_replicate_same: "count_list (replicate n a) a = n"
  by (induction n) auto

text \<open>The last to come sees all others waiting.\<close>

lemma last_enters:
  assumes "i < length pcs" "pcs ! i = Pc_enter" "count_list pcs Pc_spin + 1 = length pcs"
  shows "pcs[i := Pc_patch] = (replicate (length pcs) Pc_spin)[i := Pc_patch]"
proof -
  have "pcs[i := Pc_spin] = replicate (length pcs) Pc_spin"
    using count_list_full [of "pcs[i := Pc_spin]" Pc_spin] count_list_update [of i pcs Pc_spin] assms by simp
  then show ?thesis by (metis list_update_overwrite)
qed

lemma cpu_next_bound: "cpu_next f i s = Some s' \<Longrightarrow> i < length (sm_pc s)"
  by (simp add: cpu_next_def split: if_splits)

lemma cpu_next_enabled:
  assumes "i < length (sm_pc s)"
    and "sm_pc s ! i \<in> {Pc_enter, Pc_patch, Pc_notify} \<or> sm_pc s ! i = Pc_spin \<and> length (sm_pc s) < sm_count s"
  shows "\<exists>j s'. cpu_next f j s = Some s'"
  using assms by (intro exI [of _ i]) (auto simp: cpu_next_def)

lemma nth_two: "set xs \<subseteq> {a, b} \<Longrightarrow> i < length xs \<Longrightarrow> xs ! i = a \<or> xs ! i = b"
  using nth_mem by blast

lemma all_same: "(\<And>i. i < length xs \<Longrightarrow> xs ! i = a) \<Longrightarrow> xs = replicate (length xs) a"
  by (rule nth_equalityI) auto

lemma stop_phase_step:
  assumes "stop_phase f n m s" "cpu_next f i s = Some s'"
  shows "stop_phase f n m s'"
  using assms
proof (cases rule: stop_phase.cases)
  case (gathering pcs c)
  have i: "i < n" "pcs ! i = Pc_enter \<or> pcs ! i = Pc_spin"
    using cpu_next_bound [OF assms(2)] gathering(1,2) nth_two [OF gathering(3), of i] by simp_all
  show ?thesis
  proof (cases "pcs ! i")
    case Pc_enter
    show ?thesis
    proof (cases "c + 1 = n")
      case True
      have "s' = \<lparr>sm_pc = (replicate n Pc_spin)[i := Pc_patch], sm_ret = replicate n 0, sm_count = n, sm_mem = m\<rparr>"
        using assms(2) gathering i Pc_enter True last_enters [of i pcs] by (simp add: cpu_next_def)
      then show ?thesis using stop_phase.writing [OF i(1), of f m] by simp
    next
      case False
      have "s' = \<lparr>sm_pc = pcs[i := Pc_spin], sm_ret = replicate n 0, sm_count = c + 1, sm_mem = m\<rparr>"
        using assms(2) gathering i Pc_enter False by (simp add: cpu_next_def)
      moreover have "set (pcs[i := Pc_spin]) \<subseteq> {Pc_enter, Pc_spin}"
        using set_update_subset_insert [of pcs i Pc_spin] gathering(3) by blast
      ultimately show ?thesis
        using stop_phase.gathering [of "pcs[i := Pc_spin]" n "c + 1" f m] gathering i Pc_enter False
          count_list_update [of i pcs Pc_spin] by simp
    qed
  qed (use assms(2) gathering i in \<open>auto simp: cpu_next_def\<close>)
next
  case (writing j)
  then have "s' = \<lparr>sm_pc = (replicate n Pc_spin)[j := Pc_notify], sm_ret = (replicate n 0)[j := fst (f m)],
      sm_count = n, sm_mem = snd (f m)\<rparr>"
    using assms(2) by (auto simp: cpu_next_def nth_list_update split: if_splits)
  then show ?thesis using stop_phase.telling [OF writing(2), of f m] by simp
next
  case (telling j)
  then have s': "s' = \<lparr>sm_pc = (replicate n Pc_spin)[j := Pc_left], sm_ret = (replicate n 0)[j := fst (f m)],
      sm_count = n + 1, sm_mem = snd (f m)\<rparr>"
    using assms(2) by (auto simp: cpu_next_def nth_list_update split: if_splits)
  have "set ((replicate n Pc_spin)[j := Pc_left]) \<subseteq> {Pc_spin, Pc_left}"
    using set_update_subset_insert [of "replicate n Pc_spin" j Pc_left] by auto
  then show ?thesis using stop_phase.leaving [OF telling(2), of "(replicate n Pc_spin)[j := Pc_left]" f m] s' by simp
next
  case (leaving j pcs)
  have b: "i < n" using cpu_next_bound [OF assms(2)] leaving(1,3) by simp
  have "pcs ! i = Pc_spin \<or> pcs ! i = Pc_left" using nth_two [OF leaving(4), of i] leaving(3) b by simp
  then have i: "i < n" "pcs ! i = Pc_spin"
    using b assms(2) leaving(1,3) by (auto simp: cpu_next_def)
  have "s' = \<lparr>sm_pc = pcs[i := Pc_left], sm_ret = (replicate n 0)[j := fst (f m)], sm_count = n + 1, sm_mem = snd (f m)\<rparr>"
    using assms(2) leaving i by (simp add: cpu_next_def)
  moreover have "set (pcs[i := Pc_left]) \<subseteq> {Pc_spin, Pc_left}"
    using set_update_subset_insert [of pcs i Pc_left] leaving(4) by blast
  ultimately show ?thesis using stop_phase.leaving [of j n "pcs[i := Pc_left]" f m] leaving by simp
qed

section \<open>Progress\<close>

primrec pc_weight :: "cpu_pc \<Rightarrow> nat" where
  "pc_weight Pc_enter = 3"
| "pc_weight Pc_patch = 2"
| "pc_weight Pc_notify = 1"
| "pc_weight Pc_spin = 1"
| "pc_weight Pc_left = 0"

definition stop_weight :: "'m stop_machine \<Rightarrow> nat" where
  "stop_weight s = sum_list (map pc_weight (sm_pc s))"

lemma weight_update:
  assumes "i < length pcs" "pc_weight p < pc_weight (pcs ! i)"
  shows "sum_list (map pc_weight (pcs[i := p])) < sum_list (map pc_weight pcs)"
  using assms by (induction pcs arbitrary: i) (auto simp: nth_Cons' list_update.simps split: nat.split)

lemma step_weight:
  assumes "cpu_next f i s = Some s'" shows "stop_weight s' < stop_weight s"
proof -
  have "i < length (sm_pc s)" "\<exists>p. sm_pc s' = (sm_pc s)[i := p] \<and> pc_weight p < pc_weight (sm_pc s ! i)"
    using assms by (auto simp: cpu_next_def split: if_splits cpu_pc.splits)
  then show ?thesis using weight_update by (auto simp: stop_weight_def)
qed

lemma run_cpus_spec:
  assumes "run_cpus f is s = Some s'" "stop_phase f n m s"
  shows "stop_phase f n m s' \<and> length is + stop_weight s' \<le> stop_weight s"
  using assms
proof (induction "is" arbitrary: s)
  case (Cons i "is")
  then obtain t where t: "cpu_next f i s = Some t" "run_cpus f is t = Some s'"
    by (auto simp: bind_eq_Some_conv)
  show ?case
    using Cons.IH [OF t(2) stop_phase_step [OF Cons.prems(2) t(1)]] step_weight [OF t(1)] by simp
qed simp

text \<open>As long as one processor has not left, one has a step.\<close>

lemma stop_phase_progress:
  assumes "stop_phase f n m s" "0 < n"
  shows "sm_pc s = replicate n Pc_left \<or> (\<exists>i s'. cpu_next f i s = Some s')"
  using assms(1)
proof (cases rule: stop_phase.cases)
  case (gathering pcs c)
  have "\<exists>i<n. pcs ! i = Pc_enter"
  proof (rule ccontr)
    assume "\<not> ?thesis"
    then have "pcs ! i = Pc_spin" if "i < length pcs" for i
      using nth_two [OF gathering(3) that] gathering(2) that by auto
    from all_same [of pcs, OF this] have "count_list pcs Pc_spin = length pcs"
      by (metis count_list_replicate_same)
    then show False using gathering by simp
  qed
  then obtain i where "i < n" "pcs ! i = Pc_enter" by blast
  then show ?thesis using cpu_next_enabled [of i s f] gathering(1,2) by simp
next
  case (leaving j pcs)
  show ?thesis
  proof (cases "\<exists>i<n. pcs ! i = Pc_spin")
    case True
    then obtain i where "i < n" "pcs ! i = Pc_spin" by blast
    then show ?thesis using cpu_next_enabled [of i s f] leaving(1,3) by simp
  next
    case False
    then have "pcs ! i = Pc_left" if "i < length pcs" for i
      using nth_two [OF leaving(4) that] leaving(3) that by auto
    from all_same [of pcs, OF this] show ?thesis using leaving by simp
  qed
next
  case (writing j) then show ?thesis using cpu_next_enabled [of j s f] by simp
next
  case (telling j) then show ?thesis using cpu_next_enabled [of j s f] by simp
qed

lemma stop_result_one: "j < n \<Longrightarrow> filter (\<lambda>r. r \<noteq> 0) ((replicate n (0 :: int))[j := r]) = (if r = 0 then [] else [r])"
proof (induction n arbitrary: j)
  case (Suc n)
  have z: "filter (\<lambda>r. r \<noteq> 0) (replicate n (0 :: int)) = []" by simp
  show ?case using Suc z by (cases j) auto
qed simp

lemma one_stays: "j < n \<Longrightarrow> p \<noteq> Pc_left \<Longrightarrow> (replicate n Pc_spin)[j := p] \<noteq> replicate n Pc_left"
  by (metis length_replicate nth_list_update_eq nth_replicate)

text \<open>
  C36: The text is written once, with every other processor parked. However the processors are
  scheduled, the memory is as before or as one call of \<open>ksu_patch_text_nosync\<close> leaves it; the one
  about to write is alone, all others wait; none leaves before the write is done; and the rendezvous
  ends after a bounded number of steps with all processors gone, the write done and its result
  returned.
\<close>

theorem patch_text_once:
  assumes "0 < n" "f = ksu_patch_text_nosync W copy dst src" "run_cpus f is (stop_start n m) = Some s"
  shows "(sm_mem s = m \<and> Pc_left \<notin> set (sm_pc s) \<or> sm_mem s = snd (f m)) \<and>
    (\<forall>i<n. sm_pc s ! i = Pc_patch \<longrightarrow> sm_mem s = m \<and> (\<forall>k<n. k \<noteq> i \<longrightarrow> sm_pc s ! k = Pc_spin)) \<and>
    length is \<le> 3 * n \<and>
    (sm_pc s = replicate n Pc_left \<or> (\<exists>i s'. cpu_next f i s = Some s')) \<and>
    (sm_pc s = replicate n Pc_left \<longrightarrow> sm_mem s = snd (f m) \<and> stop_result s = fst (f m))"
proof -
  have w: "stop_weight (stop_start n m) = 3 * n" by (simp add: stop_weight_def stop_start_def sum_list_replicate)
  from run_cpus_spec [OF assms(3) stop_phase_start [OF assms(1)]]
  have p: "stop_phase f n m s" and l: "length is \<le> 3 * n" using w by simp_all
  note pr = stop_phase_progress [OF p assms(1)]
  from p show ?thesis
  proof (cases rule: stop_phase.cases)
    case (gathering pcs c)
    then have out: "Pc_left \<notin> set pcs" "Pc_patch \<notin> set pcs" by auto
    then have "\<forall>i<n. pcs ! i \<noteq> Pc_patch" using gathering(2) by (metis nth_mem)
    moreover have "pcs \<noteq> replicate n Pc_left" using out(1) assms(1) by auto
    ultimately show ?thesis using out gathering l pr by simp
  next
    case (leaving j pcs)
    then have "Pc_patch \<notin> set pcs" by auto
    then have "\<forall>i<n. pcs ! i \<noteq> Pc_patch" using leaving(3) by (metis nth_mem)
    then show ?thesis using leaving l pr by (simp add: stop_result_def stop_result_one)
  qed (use l pr in \<open>auto simp: nth_list_update one_stays dest!: set_update_subset_insert [THEN subsetD]\<close>)
qed

text \<open>Two processors, the second comes last; memory is a list of bytes, addresses its indices.\<close>

definition flat_walk :: page_walk where
  "flat_walk = \<lparr>pw_pgd = (\<lambda>_. Lv_table), pw_p4d = (\<lambda>_. Lv_table), pw_pud = (\<lambda>_. Lv_table),
     pw_pmd = (\<lambda>_. Lv_leaf 0 0xFFFFFFFFFFE00000), pw_pte = (\<lambda>_. None)\<rparr>"

definition poke :: "u64 \<Rightarrow> bytes \<Rightarrow> bytes \<Rightarrow> int \<times> bytes" where
  "poke a src m = (0, take (unat a) m @ src @ drop (unat a + length src) m)"

theorem patch_text_once_witness:
  "sm_mem (the (run_cpus (ksu_patch_text_nosync flat_walk poke 1 [7]) [0, 1, 1, 1, 0]
     (stop_start 2 [1, 2, 3]))) = [1, 7, 3]"
proof -
  let ?f = "ksu_patch_text_nosync flat_walk poke 1 [7]"
  let ?r = "run_cpus ?f [0, 1, 1, 1, 0] (stop_start 2 [1, 2, 3])"
  have f: "?f [1, 2, 3] = (0, [1, 7, 3])"
    by (simp add: ksu_patch_text_nosync_def phys_from_virt_def flat_walk_def poke_def)
  have r: "\<exists>s. ?r = Some s \<and> sm_pc s = replicate 2 Pc_left"
    by (simp add: stop_start_def cpu_next_def numeral_2_eq_2)
  then obtain s where s: "?r = Some s" "sm_pc s = replicate 2 Pc_left" by blast
  have "sm_mem s = snd (?f [1, 2, 3])"
    using patch_text_once [OF _ refl s(1)] s(2) by simp
  then show ?thesis using s(1) f by simp
qed

end
