(* ===== verification/Symbol_Resolver.thy ===== *)
theory Symbol_Resolver
  imports Ksu_Prelude
begin

text \<open>
  Finding functions of the running kernel by name (\<^verbatim>\<open>kernel/infra/symbol_resolver.c\<close>): the exact
  name, or the name with a suffix the compiler added. The symbol table and the search functions
  of the kernel are a parameter; the address 0 stands for a symbol that is not found.
\<close>

text \<open>
  The symbols in the order \<open>kallsyms_on_each_symbol\<close> visits them, \<open>kallsyms_lookup_name\<close>, whether an
  address belongs to a module, the addresses \<open>kallsyms_on_each_match_symbol\<close> calls back with where
  it exists, whether the visit is available, whether the kernel uses the newer control flow
  integrity (from 6.1), and \<open>KSYM_NAME_LEN\<close>.
\<close>

record sym_env =
  se_table :: "(bytes \<times> u64) list"
  se_lookup_name :: "bytes \<Rightarrow> u64"
  se_in_module :: "u64 \<Rightarrow> bool"
  se_on_each_match :: "(bytes \<Rightarrow> u64 list) option"
  se_on_each :: bool
  se_kcfi :: bool
  se_name_len :: nat

definition cfi_suffix :: bytes where "cfi_suffix = lit ''.cfi_jt''"

text \<open>The callback of the matching search keeps the last address.\<close>

definition find_kernel_symbol_exact :: "sym_env \<Rightarrow> bytes \<Rightarrow> u64" where
  "find_kernel_symbol_exact S name =
     (case se_on_each_match S of
        Some addrs \<Rightarrow> (if addrs name = [] then 0 else last (addrs name))
      | None \<Rightarrow> if se_in_module S (se_lookup_name S name) then 0 else se_lookup_name S name)"

definition ksu_symbol_has_suffix :: "bytes \<Rightarrow> bytes \<Rightarrow> bool" where
  "ksu_symbol_has_suffix name suffix \<longleftrightarrow>
     length suffix \<le> length name \<and> drop (length name - length suffix) name = suffix"

text \<open>The symbol itself, or the symbol and a dot or dollar sign.\<close>

definition symbol_variant :: "bytes \<Rightarrow> bytes \<Rightarrow> bool" where
  "symbol_variant symbol name \<longleftrightarrow>
     name = symbol \<or>
     (length symbol < length name \<and> take (length symbol) name = symbol \<and>
      (name ! length symbol = 46 \<or> name ! length symbol = 36))"

text \<open>One visit: whether it ends the search, and the match so far.\<close>

definition lookup_symbol_variant_cb :: "bool \<Rightarrow> bytes \<Rightarrow> bytes \<times> u64 \<Rightarrow> u64 \<Rightarrow> bool \<times> u64" where
  "lookup_symbol_variant_cb kcfi symbol na found =
     (if snd na = 0 then (False, found)
      else if \<not> symbol_variant symbol (fst na) then (False, found)
      else if \<not> kcfi \<and> ksu_symbol_has_suffix (fst na) cfi_suffix then (True, snd na)
      else if found = 0 then (kcfi, snd na)
      else (False, found))"

fun visit_symbols :: "bool \<Rightarrow> bytes \<Rightarrow> (bytes \<times> u64) list \<Rightarrow> u64 \<Rightarrow> u64" where
  "visit_symbols kcfi symbol [] found = found"
| "visit_symbols kcfi symbol (na # nas) found =
     (case lookup_symbol_variant_cb kcfi symbol na found of
        (stop, found') \<Rightarrow> if stop then found' else visit_symbols kcfi symbol nas found')"

definition resolve_symbol_variant :: "sym_env \<Rightarrow> bytes \<Rightarrow> u64" where
  "resolve_symbol_variant S symbol =
     (if se_on_each S then visit_symbols (se_kcfi S) symbol (se_table S) 0 else 0)"

definition ksu_resolve_symbol_for_functable_hook :: "sym_env \<Rightarrow> bytes \<Rightarrow> u64" where
  "ksu_resolve_symbol_for_functable_hook S symbol =
     (if symbol = [] then 0
      else if \<not> se_kcfi S then
        let a = find_kernel_symbol_exact S (take (se_name_len S - 1) (symbol @ cfi_suffix)) in
        if a \<noteq> 0 then a
        else
          let b = resolve_symbol_variant S symbol in
          if b \<noteq> 0 then b else find_kernel_symbol_exact S symbol
      else
        let a = find_kernel_symbol_exact S symbol in
        if a \<noteq> 0 then a else resolve_symbol_variant S symbol)"

section \<open>What is found\<close>

lemma visit_found:
  "visit_symbols kcfi symbol nas found = a \<Longrightarrow> a \<noteq> found \<Longrightarrow>
    \<exists>name. (name, a) \<in> set nas \<and> symbol_variant symbol name \<and> a \<noteq> 0"
  by (induction nas arbitrary: found)
    (fastforce simp: lookup_symbol_variant_cb_def split: prod.splits if_splits)+

lemma visit_keeps: "found \<noteq> 0 \<Longrightarrow> visit_symbols kcfi symbol nas found \<noteq> 0"
  by (induction nas arbitrary: found) (auto simp: lookup_symbol_variant_cb_def split: prod.splits)

lemma visit_finds:
  "(name, a) \<in> set nas \<Longrightarrow> symbol_variant symbol name \<Longrightarrow> a \<noteq> 0 \<Longrightarrow> visit_symbols kcfi symbol nas found \<noteq> 0"
  by (induction nas arbitrary: found)
    (auto simp: lookup_symbol_variant_cb_def visit_keeps split: prod.splits)

text \<open>What the search functions of the kernel document: they find symbols of the table, by name.\<close>

definition search_ok :: "sym_env \<Rightarrow> bool" where
  "search_ok S \<longleftrightarrow>
     (\<forall>name. se_lookup_name S name \<noteq> 0 \<longrightarrow> (name, se_lookup_name S name) \<in> set (se_table S)) \<and>
     (\<forall>addrs name. se_on_each_match S = Some addrs \<longrightarrow> (\<forall>a\<in>set (addrs name). (name, a) \<in> set (se_table S)))"

lemma exact_found:
  "search_ok S \<Longrightarrow> find_kernel_symbol_exact S name = a \<Longrightarrow> a \<noteq> 0 \<Longrightarrow> (name, a) \<in> set (se_table S)"
  by (auto simp: find_kernel_symbol_exact_def search_ok_def split: option.splits if_splits)

text \<open>
  A resolved address is that of the symbol or of a variant of it, and with the visit available none
  is missed.
\<close>

lemma resolved_symbol:
  assumes "search_ok S" "length symbol + 8 \<le> se_name_len S" "ksu_resolve_symbol_for_functable_hook S symbol = a"
  shows "(a \<noteq> 0 \<longrightarrow> (\<exists>name. (name, a) \<in> set (se_table S) \<and> symbol_variant symbol name)) \<and>
    (a = 0 \<and> se_on_each S \<and> symbol \<noteq> [] \<longrightarrow>
       (\<forall>name b. (name, b) \<in> set (se_table S) \<and> symbol_variant symbol name \<longrightarrow> b = 0))"
proof -
  have cfi: "take (se_name_len S - 1) (symbol @ cfi_suffix) = symbol @ cfi_suffix"
    using assms(2) by (simp add: cfi_suffix_def lit_def)
  have v: "symbol_variant symbol (symbol @ cfi_suffix)" "symbol_variant symbol symbol"
    by (simp_all add: symbol_variant_def cfi_suffix_def lit_def)
  have r: "resolve_symbol_variant S symbol = b \<Longrightarrow> b \<noteq> 0 \<Longrightarrow>
      \<exists>name. (name, b) \<in> set (se_table S) \<and> symbol_variant symbol name" for b
    using visit_found [of "se_kcfi S" symbol "se_table S" 0 b]
    by (auto simp: resolve_symbol_variant_def split: if_splits)
  have none: "resolve_symbol_variant S symbol = 0 \<Longrightarrow> se_on_each S \<Longrightarrow> (name, b) \<in> set (se_table S) \<Longrightarrow>
      symbol_variant symbol name \<Longrightarrow> b = 0" for name b
    using visit_finds [of name b "se_table S" symbol "se_kcfi S" 0] by (auto simp: resolve_symbol_variant_def)
  show ?thesis
    using assms(3) r none v exact_found [OF assms(1)] unfolding ksu_resolve_symbol_for_functable_hook_def Let_def cfi
    by (cases "symbol = []"; cases "se_kcfi S") (auto split: if_splits)
qed

end
